(* ===== verification/Prelude.thy ===== *)
theory Prelude
  imports Main "HOL-Library.Word"
begin

text \<open>
  Shared vocabulary of the development: C integers, bytes, the result type of operations
  that may raise a Lua error or run into undefined behaviour, the loop helpers, the integer
  logarithm used as the reference for the code's bit tricks, and the collections of rewrite
  rules the component theories add to.
\<close>

unbundle bit_operations_syntax

named_theorems lua_defs "unfolding rules of small definitions"
named_theorems wf_intros "introduction rules of the component invariants"

section \<open>Types\<close>

text \<open>C's \<open>unsigned char\<close>, \<open>unsigned int\<close> and \<open>size_t\<close> on the LP64 platform the model
  fixes: 8, 32 and 64 bits. A C \<open>int\<close> is an \<open>int\<close> whose range is stated where it matters.\<close>

type_synonym byte = "8 word"
type_synonym uint32 = "32 word"
type_synonym size_t = "64 word"
type_synonym addr = nat

text \<open>The errors an operation can end with: \<open>luaG_runerror\<close> and \<open>luaL_error\<close> (status
  LUA_ERRRUN) with the message format, LUA_ERRSYNTAX, LUA_ERRMEM, and two outcomes that are
  not Lua errors: \<open>Undefined\<close> marks an access C leaves undefined, \<open>OutOfFuel\<close> a bounded
  recursion that did not finish.\<close>

datatype lua_error =
    ErrRun string
  | ErrSyntax string
  | ErrMem
  | Undefined
  | OutOfFuel

type_synonym 'a res = "lua_error + 'a"

definition rbind :: "'a res \<Rightarrow> ('a \<Rightarrow> 'b res) \<Rightarrow> 'b res" where
  "rbind m f = (case m of Inl e \<Rightarrow> Inl e | Inr x \<Rightarrow> f x)"

lemma rbind_simps [simp]: "rbind (Inl e) f = Inl e" "rbind (Inr x) f = f x"
  by (simp_all add: rbind_def)

lemma rbind_Inr_iff: "rbind m f = Inr y \<longleftrightarrow> (\<exists>x. m = Inr x \<and> f x = Inr y)"
  by (cases m) auto

lemma rbind_Inl_iff:
  "rbind m f = Inl e \<longleftrightarrow> m = Inl e \<or> (\<exists>x. m = Inr x \<and> f x = Inl e)"
  by (cases m) auto

lemma rbind_cong [fundef_cong]:
  "m = m' \<Longrightarrow> (\<And>x. m' = Inr x \<Longrightarrow> f x = f' x) \<Longrightarrow> rbind m f = rbind m' f'"
  by (cases m') auto

lemma rbind_assoc: "rbind (rbind m f) g = rbind m (\<lambda>x. rbind (f x) g)"
  by (cases m) auto

text \<open>A loop whose body may fail: the state is threaded through the elements.\<close>

fun rfold :: "('b \<Rightarrow> 'a \<Rightarrow> 'a res) \<Rightarrow> 'b list \<Rightarrow> 'a \<Rightarrow> 'a res" where
  "rfold f [] s = Inr s"
| "rfold f (x # xs) s = rbind (f x s) (rfold f xs)"

lemma rfold_append: "rfold f (xs @ ys) s = rbind (rfold f xs s) (rfold f ys)"
  by (induction xs arbitrary: s) (auto simp: rbind_def split: sum.splits)

text \<open>Invariant rule: if every step succeeds and takes the invariant for the elements done to
  the invariant for one more, the loop succeeds with the invariant for all elements.\<close>

lemma rfold_rule:
  assumes "I [] s"
    and "\<And>xs x ys s. us = xs @ x # ys \<Longrightarrow> I xs s \<Longrightarrow> \<exists>s'. f x s = Inr s' \<and> I (xs @ [x]) s'"
  shows "\<exists>s'. rfold f us s = Inr s' \<and> I us s'"
proof -
  have "vs @ ws = us \<Longrightarrow> I vs r \<Longrightarrow> \<exists>s'. rfold f ws r = Inr s' \<and> I us s'" for vs ws r
  proof (induction ws arbitrary: vs r)
    case Nil
    then show ?case by simp
  next
    case (Cons w ws)
    then obtain r' where "f w r = Inr r'" "I (vs @ [w]) r'"
      using assms(2) [of vs w ws r] by auto
    then show ?case using Cons.IH [of "vs @ [w]" r'] Cons.prems by simp
  qed
  then show ?thesis using assms(1) by simp
qed

text \<open>Range of a C \<open>int\<close> and the conversions between \<open>int\<close> and \<open>unsigned int\<close>.\<close>

definition INT_MAX :: int where "INT_MAX = 2147483647"
definition INT_MIN :: int where "INT_MIN = - 2147483648"

definition is_cint :: "int \<Rightarrow> bool" where
  "is_cint i \<longleftrightarrow> INT_MIN \<le> i \<and> i \<le> INT_MAX"

definition to_cint :: "uint32 \<Rightarrow> int" where
  "to_cint w = sint w"

lemma to_cint_word_of_int: "is_cint i \<Longrightarrow> to_cint (word_of_int i) = i"
  by (simp add: to_cint_def is_cint_def INT_MIN_def INT_MAX_def sint_word_ariths
      signed_take_bit_int_eq_self sint_sbintrunc')

lemma is_cint_to_cint: "is_cint (to_cint w)"
  using sint_greater_eq [of w] sint_less [of w]
  by (simp add: to_cint_def is_cint_def INT_MIN_def INT_MAX_def)

lemma unat32_less: "unat (x :: uint32) < 4294967296"
proof -
  have "unat x < 2 ^ LENGTH(32)" by (rule unsigned_less)
  then show ?thesis by simp
qed

lemma small_word_cint: "unat y < 2 ^ 31 \<Longrightarrow> to_cint y = int (unat y)"
proof -
  assume y: "unat y < 2 ^ 31"
  then have "unat y \<le> 2147483647" by simp
  then have "int (unat y) \<le> INT_MAX" unfolding INT_MAX_def by linarith
  then have "to_cint (word_of_int (int (unat y))) = int (unat y)"
    by (intro to_cint_word_of_int, unfold is_cint_def INT_MIN_def) linarith
  then show ?thesis by simp
qed

section \<open>Bits of mathematical integers\<close>

lemma int_and_mask: "(i :: int) AND mask n = i mod 2 ^ n"
  by (simp flip: take_bit_eq_mask add: take_bit_eq_mod)

lemma int_and_masks:
  "(i :: int) AND 1 = i mod 2" "i AND 3 = i mod 4" "i AND 7 = i mod 8" "i AND 31 = i mod 32"
  "i AND 255 = i mod 256"
  using int_and_mask [of i 1] int_and_mask [of i 2] int_and_mask [of i 3]
    int_and_mask [of i 5] int_and_mask [of i 8]
  by (simp_all add: mask_eq_exp_minus_1)

lemma or_eq_add_low:
  assumes "0 \<le> r" and "r < 2 ^ n"
  shows "push_bit n (k :: int) OR r = push_bit n k + r"
proof -
  have r: "take_bit n r = r" using assms by (simp add: take_bit_int_eq_self)
  have "\<not> bit (push_bit n k) m \<or> \<not> bit r m" for m
    by (subst r [symmetric]) (auto simp: bit_simps)
  then show ?thesis by (simp add: disjunctive_add)
qed

section \<open>Lists\<close>

lemma map_upt_nth: "map ((!) xs) [0..<length xs] = xs"
  by (rule map_nth)

lemma nth_list_update_if:
  "i < length xs \<Longrightarrow> (xs[i := x]) ! j = (if i = j then x else xs ! j)"
  by auto

section \<open>Binary logarithm\<close>

text \<open>The integer part of the binary logarithm, the reference for \<open>luaO_log2\<close> and the
  normalisation of doubles.\<close>

fun ilog2 :: "int \<Rightarrow> nat" where
  "ilog2 n = (if n < 2 then 0 else Suc (ilog2 (n div 2)))"

declare ilog2.simps [simp del]

lemma ilog2_small [simp]: "n < 2 \<Longrightarrow> ilog2 n = 0"
  by (simp add: ilog2.simps)

lemma ilog2_lower: "0 < n \<Longrightarrow> 2 ^ ilog2 n \<le> n"
proof (induction n rule: ilog2.induct)
  case (1 n)
  show ?case
  proof (cases "n < 2")
    case True
    with 1 show ?thesis by simp
  next
    case False
    then have "2 ^ ilog2 (n div 2) \<le> n div 2" using 1 by simp
    with False show ?thesis by (subst ilog2.simps) simp
  qed
qed

lemma ilog2_upper: "n < 2 ^ Suc (ilog2 n)"
proof (induction n rule: ilog2.induct)
  case (1 n)
  show ?case
  proof (cases "n < 2")
    case False
    then have "n div 2 < 2 ^ Suc (ilog2 (n div 2))" using 1 by simp
    with False show ?thesis by (subst ilog2.simps) simp
  qed simp
qed

lemma power2_ineq_eq:
  assumes "(2::int) ^ a \<le> n" and "n < 2 ^ Suc a" and "2 ^ b \<le> n" and "n < 2 ^ Suc b"
  shows "a = b"
proof -
  have "(2::int) ^ a < 2 ^ Suc b" and "(2::int) ^ b < 2 ^ Suc a"
    using assms by (auto intro: le_less_trans)
  then have "a < Suc b" and "b < Suc a"
    by (metis one_less_numeral_iff power_strict_increasing_iff semiring_norm(76))+
  then show ?thesis by simp
qed

lemma ilog2_eqI: "2 ^ k \<le> n \<Longrightarrow> n < 2 ^ Suc k \<Longrightarrow> ilog2 n = k"
proof -
  assume a: "2 ^ k \<le> n" and b: "n < 2 ^ Suc k"
  have "(0::int) < 2 ^ k" by simp
  with a have "0 < n" by linarith
  then show ?thesis
    using power2_ineq_eq [OF ilog2_lower ilog2_upper a b] by simp
qed

end
