(* ===== verification/LuaNumber.thy ===== *)
theory LuaNumber
  imports Prelude
begin

text \<open>
  \<open>lua_Number\<close> as configured by \<open>sources/lua/luaconf.h.in\<close>: a C \<open>double\<close>. A number is the
  64-bit pattern of an IEEE 754 binary64 value; the comparison macros \<open>luai_numeq\<close>,
  \<open>luai_numlt\<close>, \<open>luai_numle\<close>, \<open>luai_numisnan\<close>, the conversion \<open>lua_number2int\<close> (the
  \<open>(int)(d)\<close> variant, with the value \<open>INT_MIN\<close> that SSE2 conversions give out of range) and
  \<open>cast_num\<close> of an \<open>int\<close> are defined on the pattern. The lemmas show that integers convert
  exactly, in both directions, which is what the table code relies on.
\<close>

type_synonym lua_Number = "64 word"

section \<open>Fields of the pattern\<close>

definition dbl_neg :: "lua_Number \<Rightarrow> bool" where
  "dbl_neg n \<longleftrightarrow> 2 ^ 63 \<le> uint n"

definition dbl_mag :: "lua_Number \<Rightarrow> int" where
  "dbl_mag n = uint n mod 2 ^ 63"

definition dbl_exp :: "lua_Number \<Rightarrow> int" where
  "dbl_exp n = dbl_mag n div 2 ^ 52"

definition dbl_frac :: "lua_Number \<Rightarrow> int" where
  "dbl_frac n = dbl_mag n mod 2 ^ 52"

text \<open>A value is NaN when all exponent bits are set and the fraction is not zero; the
  magnitude of an infinity is \<open>2047 * 2 ^ 52\<close>.\<close>

definition luai_numisnan :: "lua_Number \<Rightarrow> bool" where
  "luai_numisnan n \<longleftrightarrow> 2047 * 2 ^ 52 < dbl_mag n"

definition dbl_finite :: "lua_Number \<Rightarrow> bool" where
  "dbl_finite n \<longleftrightarrow> dbl_exp n < 2047"

section \<open>Comparison\<close>

text \<open>Sign and magnitude order: the pattern without its sign bit, negated for negative
  numbers. Both zeros have key 0.\<close>

definition dbl_key :: "lua_Number \<Rightarrow> int" where
  "dbl_key n = (if dbl_neg n then - dbl_mag n else dbl_mag n)"

definition luai_numeq :: "lua_Number \<Rightarrow> lua_Number \<Rightarrow> bool" where
  "luai_numeq a b \<longleftrightarrow> \<not> luai_numisnan a \<and> \<not> luai_numisnan b \<and> dbl_key a = dbl_key b"

definition luai_numlt :: "lua_Number \<Rightarrow> lua_Number \<Rightarrow> bool" where
  "luai_numlt a b \<longleftrightarrow> \<not> luai_numisnan a \<and> \<not> luai_numisnan b \<and> dbl_key a < dbl_key b"

definition luai_numle :: "lua_Number \<Rightarrow> lua_Number \<Rightarrow> bool" where
  "luai_numle a b \<longleftrightarrow> \<not> luai_numisnan a \<and> \<not> luai_numisnan b \<and> dbl_key a \<le> dbl_key b"

definition luai_numunm :: "lua_Number \<Rightarrow> lua_Number" where
  "luai_numunm a = a XOR (push_bit 63 1)"

lemma luai_numeq_refl_iff: "luai_numeq a a \<longleftrightarrow> \<not> luai_numisnan a"
  by (simp add: luai_numeq_def)

lemma luai_numeq_sym: "luai_numeq a b \<longleftrightarrow> luai_numeq b a"
  by (auto simp: luai_numeq_def)

lemma luai_numeq_trans: "luai_numeq a b \<Longrightarrow> luai_numeq b c \<Longrightarrow> luai_numeq a c"
  by (auto simp: luai_numeq_def)

section \<open>Conversion to and from int\<close>

text \<open>Truncation towards zero of a finite number: the significand (with its implicit bit
  unless the number is subnormal) scaled by the exponent.\<close>

definition dbl_trunc_mag :: "int \<Rightarrow> int" where
  "dbl_trunc_mag m =
     (let e = m div 2 ^ 52; f = m mod 2 ^ 52;
          s = (if e = 0 then f else f + 2 ^ 52);
          e' = (if e = 0 then 1 else e)
      in if 1075 \<le> e' then s * 2 ^ nat (e' - 1075) else s div 2 ^ nat (1075 - e'))"

definition dbl_trunc :: "lua_Number \<Rightarrow> int" where
  "dbl_trunc n =
     (if dbl_neg n then - dbl_trunc_mag (dbl_mag n) else dbl_trunc_mag (dbl_mag n))"

definition lua_number2int :: "lua_Number \<Rightarrow> int" where
  "lua_number2int n =
     (if dbl_finite n \<and> is_cint (dbl_trunc n) then dbl_trunc n else INT_MIN)"

text \<open>\<open>cast_num\<close> of an \<open>int\<close>: the leading bit moves to position 52, which is exact because
  the argument has at most 53 significant bits.\<close>

definition dbl_mag_of_int :: "int \<Rightarrow> int" where
  "dbl_mag_of_int m =
     (if m = 0 then 0
      else (let k = ilog2 m in (int k + 1023) * 2 ^ 52 + (m * 2 ^ (52 - k) - 2 ^ 52)))"

definition cast_num :: "int \<Rightarrow> lua_Number" where
  "cast_num i =
     (if i < 0 then word_of_int (2 ^ 63 + dbl_mag_of_int (- i))
      else word_of_int (dbl_mag_of_int i))"

subsection \<open>Exactness\<close>

lemma ilog2_bound: "m < 2 ^ 53 \<Longrightarrow> ilog2 m \<le> 52"
proof (rule ccontr)
  assume m: "m < 2 ^ 53" and "\<not> ilog2 m \<le> 52"
  then have "0 < m" by (metis ilog2_small le0 not_less linorder_neqE_linordered_idom
        zero_less_numeral order_less_trans)
  have "(2::int) ^ 53 \<le> 2 ^ ilog2 m"
    using \<open>\<not> ilog2 m \<le> 52\<close> by (intro power_increasing) auto
  also have "\<dots> \<le> m" by (rule ilog2_lower [OF \<open>0 < m\<close>])
  finally show False using m by simp
qed

lemma dbl_mag_of_int_parts:
  assumes "0 < m" and "m < 2 ^ 53"
  defines "k \<equiv> ilog2 m"
  shows "dbl_mag_of_int m div 2 ^ 52 = int k + 1023"
    and "dbl_mag_of_int m mod 2 ^ 52 + 2 ^ 52 = m * 2 ^ (52 - k)"
    and "0 \<le> dbl_mag_of_int m" and "dbl_mag_of_int m < 1076 * 2 ^ 52"
proof -
  have k: "k \<le> 52" using ilog2_bound [OF assms(2)] by (simp add: k_def)
  have lo: "2 ^ 52 \<le> m * 2 ^ (52 - k)"
  proof -
    have "(2::int) ^ 52 = 2 ^ k * 2 ^ (52 - k)" using k by (simp flip: power_add)
    also have "\<dots> \<le> m * 2 ^ (52 - k)"
      using ilog2_lower [OF assms(1)] by (intro mult_right_mono) (simp_all add: k_def)
    finally show ?thesis .
  qed
  have hi: "m * 2 ^ (52 - k) < 2 ^ 53"
  proof -
    have "m * 2 ^ (52 - k) < 2 ^ Suc k * 2 ^ (52 - k)"
      using ilog2_upper [of m] by (intro mult_strict_right_mono) (simp_all add: k_def)
    also have "\<dots> = 2 ^ 53" using k by (simp flip: power_add power_Suc)
    finally show ?thesis .
  qed
  define f where "f = m * 2 ^ (52 - k) - 2 ^ 52"
  have f: "0 \<le> f" "f < 2 ^ 52" "m * 2 ^ (52 - k) = f + 2 ^ 52"
    using hi lo by (simp_all add: f_def)
  have eq: "dbl_mag_of_int m = (int k + 1023) * 2 ^ 52 + f"
    using assms(1) by (simp add: dbl_mag_of_int_def k_def Let_def f_def)
  show "dbl_mag_of_int m div 2 ^ 52 = int k + 1023"
    using f(1,2) unfolding eq by (simp only: div_mult_self3) simp
  have "dbl_mag_of_int m mod 2 ^ 52 = f"
    using f(1,2) unfolding eq by (simp only: mod_mult_self3 mod_pos_pos_trivial)
  then show "dbl_mag_of_int m mod 2 ^ 52 + 2 ^ 52 = m * 2 ^ (52 - k)"
    using f(3) by simp
  show "0 \<le> dbl_mag_of_int m" and "dbl_mag_of_int m < 1076 * 2 ^ 52"
    using f(1,2) k by (simp_all add: eq)
qed

lemma dbl_mag_of_int_less:
  "0 \<le> m \<Longrightarrow> m < 2 ^ 53 \<Longrightarrow> 0 \<le> dbl_mag_of_int m \<and> dbl_mag_of_int m < 1076 * 2 ^ 52"
proof (cases "m = 0")
  case True
  then show ?thesis by (simp add: dbl_mag_of_int_def)
next
  case False
  assume "0 \<le> m" "m < 2 ^ 53"
  with False show ?thesis by (intro conjI dbl_mag_of_int_parts(3,4)) auto
qed

lemma dbl_trunc_mag_of_int: "0 \<le> m \<Longrightarrow> m < 2 ^ 53 \<Longrightarrow> dbl_trunc_mag (dbl_mag_of_int m) = m"
proof (cases "m = 0")
  case True
  then show ?thesis by (simp add: dbl_mag_of_int_def dbl_trunc_mag_def)
next
  case False
  assume m0: "0 \<le> m" and m: "m < 2 ^ 53"
  define k where "k = ilog2 m"
  have k: "k \<le> 52" using ilog2_bound [OF m] by (simp add: k_def)
  have m1: "0 < m" using m0 False by simp
  note p = dbl_mag_of_int_parts [OF m1 m, folded k_def]
  show ?thesis
  proof (cases "k = 52")
    case True
    then show ?thesis using p(1,2) by (simp add: dbl_trunc_mag_def Let_def)
  next
    case neq: False
    then have "nat (1075 - (int k + 1023)) = 52 - k" and "\<not> 1075 \<le> int k + 1023"
      using k by auto
    then show ?thesis using p(1,2) by (simp add: dbl_trunc_mag_def Let_def)
  qed
qed

lemma uint_word_of_int64: "0 \<le> m \<Longrightarrow> m < 2 ^ 64 \<Longrightarrow> uint (word_of_int m :: 64 word) = m"
  by (simp add: uint_word_of_int_eq take_bit_int_eq_self)

lemma dbl_word:
  assumes "0 \<le> m" and "m < 2 ^ 63"
  shows "dbl_mag (word_of_int m) = m" "dbl_mag (word_of_int (2 ^ 63 + m)) = m"
    and "\<not> dbl_neg (word_of_int m)" "dbl_neg (word_of_int (2 ^ 63 + m))"
proof -
  have "uint (word_of_int m :: 64 word) = m"
    using assms by (intro uint_word_of_int64) auto
  moreover have "uint (word_of_int (2 ^ 63 + m) :: 64 word) = 2 ^ 63 + m"
    using assms by (intro uint_word_of_int64) auto
  ultimately show "dbl_mag (word_of_int m) = m" "dbl_mag (word_of_int (2 ^ 63 + m)) = m"
    and "\<not> dbl_neg (word_of_int m)" "dbl_neg (word_of_int (2 ^ 63 + m))"
    using assms unfolding dbl_mag_def dbl_neg_def
    by (auto simp only: mod_pos_pos_trivial mod_add_self1)
qed

text \<open>The integers a double represents exactly around zero.\<close>

definition dbl_exact :: "int \<Rightarrow> bool" where
  "dbl_exact i \<longleftrightarrow> \<bar>i\<bar> < 2 ^ 53"

lemma is_cint_exact [simp]: "is_cint i \<Longrightarrow> dbl_exact i"
  by (auto simp: is_cint_def INT_MIN_def INT_MAX_def dbl_exact_def)

lemma dbl_exact_mag:
  "dbl_exact i \<Longrightarrow> 0 \<le> dbl_mag_of_int \<bar>i\<bar> \<and> dbl_mag_of_int \<bar>i\<bar> < 1076 * 2 ^ 52"
  by (rule dbl_mag_of_int_less) (auto simp: dbl_exact_def)

lemma cast_num_mag:
  assumes "dbl_exact i"
  shows "dbl_mag (cast_num i) = dbl_mag_of_int \<bar>i\<bar>"
    and "dbl_neg (cast_num i) \<longleftrightarrow> i < 0"
proof -
  have b: "0 \<le> dbl_mag_of_int \<bar>i\<bar>" "dbl_mag_of_int \<bar>i\<bar> < 2 ^ 63"
    using dbl_exact_mag [OF assms] by auto
  show "dbl_mag (cast_num i) = dbl_mag_of_int \<bar>i\<bar>"
    and "dbl_neg (cast_num i) \<longleftrightarrow> i < 0"
    using dbl_word [OF b] by (auto simp only: cast_num_def abs_if split: if_splits)
qed

lemma dbl_trunc_cast_num: "dbl_exact i \<Longrightarrow> dbl_trunc (cast_num i) = i"
proof -
  assume i: "dbl_exact i"
  then have "dbl_trunc_mag (dbl_mag_of_int \<bar>i\<bar>) = \<bar>i\<bar>"
    by (intro dbl_trunc_mag_of_int) (auto simp: dbl_exact_def)
  then show ?thesis
    using cast_num_mag [OF i] by (auto simp: dbl_trunc_def)
qed

lemma cast_num_finite: "dbl_exact i \<Longrightarrow> dbl_finite (cast_num i)"
proof -
  assume i: "dbl_exact i"
  then have "dbl_mag_of_int \<bar>i\<bar> div 2 ^ 52 < 1076"
    using dbl_exact_mag [OF i] by auto
  then show ?thesis by (simp add: dbl_finite_def dbl_exp_def cast_num_mag [OF i])
qed

lemma cast_num_not_nan: "dbl_exact i \<Longrightarrow> \<not> luai_numisnan (cast_num i)"
  using dbl_exact_mag by (fastforce simp: luai_numisnan_def cast_num_mag)

lemma number2int_cast_num [simp]: "is_cint i \<Longrightarrow> lua_number2int (cast_num i) = i"
  by (simp add: lua_number2int_def cast_num_finite dbl_trunc_cast_num)

lemma is_cint_number2int: "is_cint (lua_number2int n)"
  by (auto simp: lua_number2int_def is_cint_def INT_MIN_def INT_MAX_def)

text \<open>Equal numbers convert to the same integer: a number that compares equal to
  \<open>cast_num k\<close> converts to \<open>k\<close>.\<close>

lemma dbl_mag_nonneg: "0 \<le> dbl_mag n"
  by (simp add: dbl_mag_def)

lemma dbl_key_eq_mag: "dbl_key a = dbl_key b \<Longrightarrow> dbl_mag a = dbl_mag b"
  using dbl_mag_nonneg [of a] dbl_mag_nonneg [of b] by (auto simp: dbl_key_def split: if_splits)

lemma dbl_key_eq_neg: "dbl_key a = dbl_key b \<Longrightarrow> dbl_mag a \<noteq> 0 \<Longrightarrow> dbl_neg a = dbl_neg b"
  using dbl_mag_nonneg [of a] dbl_mag_nonneg [of b] by (auto simp: dbl_key_def split: if_splits)

lemma dbl_trunc_mag_0 [simp]: "dbl_trunc_mag 0 = 0"
  by (simp add: dbl_trunc_mag_def)

lemma luai_numeq_trunc: "luai_numeq a b \<Longrightarrow> dbl_trunc a = dbl_trunc b"
  using dbl_key_eq_mag [of a b] dbl_key_eq_neg [of a b]
  by (cases "dbl_mag a = 0") (auto simp: luai_numeq_def dbl_trunc_def)

lemma luai_numeq_number2int: "luai_numeq a b \<Longrightarrow> lua_number2int a = lua_number2int b"
  using luai_numeq_trunc [of a b] dbl_key_eq_mag [of a b]
  by (auto simp: lua_number2int_def luai_numeq_def dbl_finite_def dbl_exp_def)

lemma luai_numeq_cast_num: "is_cint k \<Longrightarrow> luai_numeq (cast_num k) n \<Longrightarrow> lua_number2int n = k"
  by (metis luai_numeq_number2int number2int_cast_num)

lemma cast_num_refl: "is_cint k \<Longrightarrow> luai_numeq (cast_num k) (cast_num k)"
  by (simp add: luai_numeq_refl_iff cast_num_not_nan)

lemma cast_num_inj:
  "is_cint i \<Longrightarrow> is_cint j \<Longrightarrow> luai_numeq (cast_num i) (cast_num j) \<longleftrightarrow> i = j"
  by (metis cast_num_refl luai_numeq_cast_num number2int_cast_num)

end
