(* ===== verification/LObject.thy ===== *)
theory LObject
  imports LuaNumber
begin

text \<open>
  The value representation of \<open>lobject.h\<close> and the generic functions of \<open>lobject.c\<close>: tagged
  values and their tests, raw equality, the "floating point byte" used by table sizes, the
  table-driven logarithm, and the chunk identification string of error messages.
  A \<open>TValue\<close> is polymorphic in the type \<open>'s\<close> that stands for a \<open>TString\<close> pointer: addresses
  where identity of strings matters, contents where the interning of \<open>LString\<close> makes the two
  coincide.
\<close>

section \<open>Tagged values\<close>

datatype 's gcvalue =
    GString 's
  | GTable addr
  | GFunction addr
  | GUserdata addr
  | GThread addr

datatype 's tvalue =
    TNil
  | TBoolean bool
  | TLightUserdata addr
  | TNumber lua_Number
  | TGC "'s gcvalue"
  | TDeadKey "'s gcvalue"

abbreviation TString :: "'s \<Rightarrow> 's tvalue" where "TString s \<equiv> TGC (GString s)"
abbreviation TTable :: "addr \<Rightarrow> 's tvalue" where "TTable a \<equiv> TGC (GTable a)"

definition ttisnil :: "'s tvalue \<Rightarrow> bool" where
  "ttisnil v = (case v of TNil \<Rightarrow> True | _ \<Rightarrow> False)"

definition ttisnumber :: "'s tvalue \<Rightarrow> bool" where
  "ttisnumber v = (case v of TNumber _ \<Rightarrow> True | _ \<Rightarrow> False)"

definition ttisstring :: "'s tvalue \<Rightarrow> bool" where
  "ttisstring v = (case v of TGC (GString _) \<Rightarrow> True | _ \<Rightarrow> False)"

definition iscollectable :: "'s tvalue \<Rightarrow> bool" where
  "iscollectable v = (case v of TGC _ \<Rightarrow> True | TDeadKey _ \<Rightarrow> True | _ \<Rightarrow> False)"

definition l_isfalse :: "'s tvalue \<Rightarrow> bool" where
  "l_isfalse v = (case v of TNil \<Rightarrow> True | TBoolean b \<Rightarrow> \<not> b | _ \<Rightarrow> False)"

text \<open>The tags of \<open>lua.h\<close> and \<open>lobject.h\<close>.\<close>

fun gctag :: "'s gcvalue \<Rightarrow> int" where
  "gctag (GString _) = 4"
| "gctag (GTable _) = 5"
| "gctag (GFunction _) = 6"
| "gctag (GUserdata _) = 7"
| "gctag (GThread _) = 8"

fun ttype :: "'s tvalue \<Rightarrow> int" where
  "ttype TNil = 0"
| "ttype (TBoolean _) = 1"
| "ttype (TLightUserdata _) = 2"
| "ttype (TNumber _) = 3"
| "ttype (TGC g) = gctag g"
| "ttype (TDeadKey _) = 11"

lemma ttisnil_simps [simp]:
  "ttisnil v \<longleftrightarrow> v = TNil"
  by (cases v) (auto simp: ttisnil_def)

lemma ttisnumber_iff: "ttisnumber v \<longleftrightarrow> (\<exists>n. v = TNumber n)"
  by (cases v) (auto simp: ttisnumber_def)

lemma ttisstring_iff: "ttisstring v \<longleftrightarrow> (\<exists>s. v = TString s)"
  by (auto simp: ttisstring_def split: tvalue.splits gcvalue.splits)

section \<open>Raw equality\<close>

text \<open>Different tags are different values; numbers compare with \<open>luai_numeq\<close>, everything
  else by its payload (collectable objects by pointer).\<close>

fun luaO_rawequalObj :: "'s tvalue \<Rightarrow> 's tvalue \<Rightarrow> bool" where
  "luaO_rawequalObj TNil TNil = True"
| "luaO_rawequalObj (TNumber a) (TNumber b) = luai_numeq a b"
| "luaO_rawequalObj (TBoolean a) (TBoolean b) = (a = b)"
| "luaO_rawequalObj (TLightUserdata a) (TLightUserdata b) = (a = b)"
| "luaO_rawequalObj (TGC a) (TGC b) = (a = b)"
| "luaO_rawequalObj (TDeadKey a) (TDeadKey b) = (a = b)"
| "luaO_rawequalObj _ _ = False"

lemma rawequal_sym: "luaO_rawequalObj a b = luaO_rawequalObj b a"
  by (cases a; cases b) (auto simp: luai_numeq_sym)

lemma rawequal_trans:
  "luaO_rawequalObj a b \<Longrightarrow> luaO_rawequalObj b c \<Longrightarrow> luaO_rawequalObj a c"
  by (cases a; cases b; cases c) (auto dest: luai_numeq_trans)

definition is_nan_value :: "'s tvalue \<Rightarrow> bool" where
  "is_nan_value v = (case v of TNumber n \<Rightarrow> luai_numisnan n | _ \<Rightarrow> False)"

lemma rawequal_refl_iff: "luaO_rawequalObj v v \<longleftrightarrow> \<not> is_nan_value v"
  by (cases v) (auto simp: is_nan_value_def luai_numeq_refl_iff)

lemma rawequal_ttype: "luaO_rawequalObj a b \<Longrightarrow> ttype a = ttype b"
  by (cases a; cases b) auto

lemma rawequal_cong:
  "luaO_rawequalObj a b \<Longrightarrow> luaO_rawequalObj a c = luaO_rawequalObj b c"
  by (metis rawequal_sym rawequal_trans)

lemma rawequal_TNil_iff [simp]: "luaO_rawequalObj a TNil \<longleftrightarrow> a = TNil"
  by (cases a) auto

section \<open>Floating point bytes\<close>

lemma unat_half: "unat (drop_bit 1 (x :: uint32)) = unat x div 2"
  by (simp only: unat_drop_bit_eq) (simp add: drop_bit_eq_div)

text \<open>The loop of \<open>luaO_int2fb\<close> halves an \<open>unsigned int\<close>, rounding up, until it is below
  16, counting the halvings.\<close>

function int2fb_loop :: "uint32 \<Rightarrow> nat \<Rightarrow> uint32 \<times> nat" where
  "int2fb_loop x e = (if 16 \<le> x then int2fb_loop (drop_bit 1 (x + 1)) (Suc e) else (x, e))"
  by pat_completeness auto
termination
proof (relation "measure (\<lambda>(x, e). unat x)")
  show "wf (measure (\<lambda>(x :: uint32, e :: nat). unat x))" by simp
next
  fix x :: uint32 and e :: nat
  assume "16 \<le> x"
  then have "16 \<le> unat x" by (simp add: word_le_nat_alt)
  moreover have "unat (drop_bit 1 (x + 1)) = unat (x + 1) div 2"
    by (rule unat_half)
  moreover have "unat (x + 1) \<le> unat x + 1"
    by (simp add: unat_word_ariths)
  ultimately show "((drop_bit 1 (x + 1), Suc e), (x, e)) \<in> measure (\<lambda>(x, e). unat x)"
    by simp
qed

declare int2fb_loop.simps [simp del]

definition luaO_int2fb :: "uint32 \<Rightarrow> int" where
  "luaO_int2fb x0 =
     (let (x, e) = int2fb_loop x0 0
      in if x < 8 then to_cint x
         else (push_bit 3 (int e + 1)) OR (to_cint x - 8))"

definition luaO_fb2int :: "int \<Rightarrow> int" where
  "luaO_fb2int x =
     (let e = (drop_bit 3 x) AND 31
      in if e = 0 then x else push_bit (nat (e - 1)) ((x AND 7) + 8))"

text \<open>The invariant of the loop, on natural numbers: the remaining significand times the
  power of two is the least multiple of that power not below the argument.\<close>

definition fb_inv :: "nat \<Rightarrow> nat \<Rightarrow> nat \<Rightarrow> bool" where
  "fb_inv n m e \<longleftrightarrow> n \<le> m * 2 ^ e \<and> m * 2 ^ e < n + 2 ^ e"

lemma fb_inv_step: "fb_inv n m e \<Longrightarrow> fb_inv n ((m + 1) div 2) (Suc e)"
proof -
  assume inv: "fb_inv n m e"
  define q where "q = (m + 1) div 2"
  have "m \<le> 2 * q" "2 * q \<le> m + 1" by (simp_all add: q_def)
  then have "m * 2 ^ e \<le> (2 * q) * 2 ^ e" and "(2 * q) * 2 ^ e \<le> (m + 1) * 2 ^ e"
    by (simp_all only: mult_le_mono1)
  moreover have "q * 2 ^ Suc e = (2 * q) * 2 ^ e" by simp
  moreover have "(m + 1) * 2 ^ e = m * 2 ^ e + 2 ^ e" by simp
  ultimately have "n \<le> q * 2 ^ Suc e" and "q * 2 ^ Suc e < n + 2 ^ Suc e"
    using inv unfolding fb_inv_def by (linarith, simp only: power_Suc, linarith)
  then show ?thesis unfolding fb_inv_def q_def by simp
qed

text \<open>Result of the loop for an argument below \<open>2 ^ 32 - 1\<close>: the significand ends in 8..15
  unless the argument already was below 8.\<close>

lemma int2fb_loop_spec:
  assumes "unat x < 2 ^ 32 - 1" and "fb_inv n (unat x) e" and "e = 0 \<or> 8 \<le> unat x"
    and "int2fb_loop x e = (y, k)"
  shows "fb_inv n (unat y) k \<and> unat y < 16 \<and> (k = 0 \<or> 8 \<le> unat y)"
  using assms
proof (induction x e rule: int2fb_loop.induct)
  case (1 x e)
  show ?case
  proof (cases "16 \<le> x")
    case False
    then have "unat x < 16" by (simp add: word_less_nat_alt word_le_nat_alt)
    with 1 False show ?thesis by (simp add: int2fb_loop.simps [of x e])
  next
    case True
    define x' :: uint32 where "x' = drop_bit 1 (x + 1)"
    have x16: "16 \<le> unat x" using True by (simp add: word_le_nat_alt)
    have "unat (x + 1) = unat x + 1"
      using "1.prems"(1) by (simp add: unat_word_ariths)
    then have u: "unat x' = (unat x + 1) div 2"
      unfolding x'_def by (simp only: unat_half)
    have lt: "unat x' < 2 ^ 32 - 1" and ge: "8 \<le> unat x'"
      using "1.prems"(1) x16 u by auto
    have inv: "fb_inv n (unat x') (Suc e)" using fb_inv_step [OF "1.prems"(2)] u by simp
    have loop: "int2fb_loop x' (Suc e) = (y, k)"
      using "1.prems"(4) True by (simp only: int2fb_loop.simps [of x e] x'_def if_True)
    show ?thesis
      using "1.IH" [OF True, folded x'_def, OF lt inv _ loop] ge by blast
  qed
qed

lemma int2fb_exponent_bound:
  assumes "fb_inv n m k" and "8 \<le> m" and "n < 2 ^ 32"
  shows "7 * 2 ^ k < n" and "k < 30"
proof -
  have "8 * 2 ^ k \<le> m * 2 ^ k" using assms(2) by (rule mult_le_mono1)
  then show less: "7 * 2 ^ k < n" using assms(1) unfolding fb_inv_def by linarith
  show "k < 30"
  proof (rule ccontr)
    assume "\<not> k < 30"
    then have "(2::nat) ^ 30 \<le> 2 ^ k" by (intro power_increasing) auto
    then show False using less assms(3) by simp
  qed
qed

text \<open>Encoding of a significand \<open>8 + r\<close> and its decoding.\<close>

lemma fb_pack: "r < 8 \<Longrightarrow> (push_bit 3 (int e + 1)) OR int r = 8 * (int e + 1) + int r"
  by (subst or_eq_add_low) (simp_all add: push_bit_eq_mult)

lemma fb2int_small: "n < 8 \<Longrightarrow> luaO_fb2int (int n) = int n"
  by (simp add: luaO_fb2int_def drop_bit_eq_div Let_def)

lemma fb2int_pack:
  assumes "r < 8" and "e < 31"
  shows "luaO_fb2int (8 * (int e + 1) + int r) = int ((8 + r) * 2 ^ e)"
proof -
  have d: "drop_bit 3 (8 * (int e + 1) + int r) = int e + 1"
    using assms(1) by (simp add: drop_bit_eq_div)
  have "(int e + 1) AND 31 = int e + 1"
    using assms(2) by (simp add: int_and_masks)
  moreover have "(8 * (int e + 1) + int r) AND 7 = int r"
    using assms(1) unfolding int_and_masks by (simp only: mod_mult_self4) simp
  ultimately show ?thesis using d by (simp add: luaO_fb2int_def push_bit_eq_mult Let_def)
qed

lemma int2fb_value:
  assumes x: "x \<noteq> - 1"
  shows "\<exists>v. luaO_fb2int (luaO_int2fb x) = int v \<and> unat x \<le> v \<and> 7 * (v - unat x) \<le> unat x"
    and "0 \<le> luaO_int2fb x \<and> luaO_int2fb x < 256"
proof -
  obtain y k where loop: "int2fb_loop x 0 = (y, k)" by fastforce
  have "unat x \<noteq> 2 ^ 32 - 1"
  proof
    assume "unat x = 2 ^ 32 - 1"
    then have "unat x = unat (- 1 :: uint32)" by (simp add: unsigned_minus_1_eq_mask mask_eq_exp_minus_1)
    with x show False by (simp only: word_unat_eq_iff)
  qed
  then have x: "unat x < 2 ^ 32 - 1" using unat32_less [of x] by simp
  have "fb_inv (unat x) (unat x) 0" by (simp add: fb_inv_def)
  from int2fb_loop_spec [OF x this _ loop]
  have inv: "fb_inv (unat x) (unat y) k" and y: "unat y < 16" and k: "k = 0 \<or> 8 \<le> unat y"
    by auto
  have yc: "to_cint y = int (unat y)" using y by (intro small_word_cint) auto
  show "\<exists>v. luaO_fb2int (luaO_int2fb x) = int v \<and> unat x \<le> v \<and> 7 * (v - unat x) \<le> unat x"
   and "0 \<le> luaO_int2fb x \<and> luaO_int2fb x < 256"
  proof (atomize (full), cases "unat y < 8")
    case True
    with k have k0: "k = 0" by simp
    then have "luaO_int2fb x = int (unat y)" "unat y = unat x"
      using loop True inv yc by (auto simp: luaO_int2fb_def fb_inv_def word_less_nat_alt)
    moreover have "luaO_fb2int (int (unat y)) = int (unat y)"
      by (rule fb2int_small [OF True])
    ultimately have f: "luaO_int2fb x = int (unat x)"
      "luaO_fb2int (int (unat x)) = int (unat x)" "unat x < 8"
      using True by metis+
    show "(\<exists>v. luaO_fb2int (luaO_int2fb x) = int v \<and> unat x \<le> v \<and>
        7 * (v - unat x) \<le> unat x) \<and> 0 \<le> luaO_int2fb x \<and> luaO_int2fb x < 256"
      unfolding f(1,2) using f(3) by (intro conjI exI [of _ "unat x"]) linarith+
  next
    case False
    define r where "r = unat y - 8"
    have r: "r < 8" "unat y = 8 + r" using False y by (simp_all add: r_def)
    have bnd: "7 * 2 ^ k < unat x" "k < 30"
      using int2fb_exponent_bound [OF inv] False x by auto
    have fb: "luaO_int2fb x = 8 * (int k + 1) + int r"
      using loop yc r fb_pack [OF r(1), of k]
      by (simp add: luaO_int2fb_def word_less_nat_alt)
    have rng: "0 \<le> luaO_int2fb x" "luaO_int2fb x < 256"
      unfolding fb using r(1) bnd(2) by simp_all
    have "luaO_fb2int (luaO_int2fb x) = int ((8 + r) * 2 ^ k)"
      unfolding fb using r bnd by (intro fb2int_pack) auto
    moreover have "unat x \<le> (8 + r) * 2 ^ k" and "(8 + r) * 2 ^ k < unat x + 2 ^ k"
      using inv r(2) by (simp_all add: fb_inv_def)
    ultimately show "(\<exists>v. luaO_fb2int (luaO_int2fb x) = int v \<and> unat x \<le> v \<and>
        7 * (v - unat x) \<le> unat x) \<and> 0 \<le> luaO_int2fb x \<and> luaO_int2fb x < 256"
      using bnd(1) rng by (intro conjI exI [of _ "(8 + r) * 2 ^ k"]) (assumption | linarith)+
  qed
qed

section \<open>The table-driven logarithm\<close>

text \<open>The table \<open>log_2\<close> of \<open>luaO_log2\<close>: one more than the binary logarithm of the index
  (and 0 at index 0), written as the runs of the source.\<close>

definition log_2_table :: "nat list" where
  "log_2_table =
     [0, 1] @ replicate 2 2 @ replicate 4 3 @ replicate 8 4 @ replicate 16 5 @
     replicate 32 6 @ replicate 64 7 @ replicate 128 8"

function luaO_log2_loop :: "uint32 \<Rightarrow> int \<Rightarrow> int" where
  "luaO_log2_loop x l =
     (if 256 \<le> x then luaO_log2_loop (drop_bit 8 x) (l + 8)
      else l + int (log_2_table ! unat x))"
  by pat_completeness auto
termination
proof (relation "measure (\<lambda>(x, l). unat x)")
  show "wf (measure (\<lambda>(x :: uint32, l :: int). unat x))" by simp
next
  fix x :: uint32 and l :: int
  assume "256 \<le> x"
  then have "256 \<le> unat x" by (simp add: word_le_nat_alt)
  moreover have "unat (drop_bit 8 x) = unat x div 256"
    by (simp only: unat_drop_bit_eq) (simp add: drop_bit_eq_div)
  ultimately show "((drop_bit 8 x, l + 8), (x, l)) \<in> measure (\<lambda>(x, l). unat x)" by simp
qed

declare luaO_log2_loop.simps [simp del]

definition luaO_log2 :: "uint32 \<Rightarrow> int" where
  "luaO_log2 x = luaO_log2_loop x (- 1)"

text \<open>The macro \<open>ceillog2\<close>.\<close>

definition ceillog2 :: "uint32 \<Rightarrow> int" where
  "ceillog2 x = luaO_log2 (x - 1) + 1"

lemma log_2_table_run:
  "2 ^ k \<le> i \<Longrightarrow> i < 2 ^ Suc k \<Longrightarrow> i < 256 \<Longrightarrow> log_2_table ! i = Suc k"
proof -
  assume i: "2 ^ k \<le> i" "i < 2 ^ Suc k" "i < 256"
  have "(2::nat) ^ k < 2 ^ 8" using i by simp
  then have "k < 8" by (simp only: power_strict_increasing_iff)
  then consider "k = 0" | "k = 1" | "k = 2" | "k = 3" | "k = 4" | "k = 5" | "k = 6" | "k = 7"
    by linarith
  then show ?thesis
    using i by cases (auto simp: log_2_table_def nth_append nth_Cons')
qed

lemma log_2_table_correct: "0 < i \<Longrightarrow> i < 256 \<Longrightarrow> log_2_table ! i = Suc (ilog2 (int i))"
proof (rule log_2_table_run)
  assume i: "0 < i"
  have "2 ^ ilog2 (int i) \<le> int i" using i by (intro ilog2_lower) simp
  then show "2 ^ ilog2 (int i) \<le> i" by (simp flip: of_nat_power of_nat_le_iff)
  have "int i < 2 ^ Suc (ilog2 (int i))" by (rule ilog2_upper)
  then have "int i < int (2 ^ Suc (ilog2 (int i)))" by simp
  then show "i < 2 ^ Suc (ilog2 (int i))" by (simp only: of_nat_less_iff)
qed

lemma ilog2_div256: "256 \<le> n \<Longrightarrow> ilog2 n = ilog2 (n div 256) + 8"
proof (rule ilog2_eqI)
  assume n: "256 \<le> n"
  have "2 ^ ilog2 (n div 256) \<le> n div 256" using n by (intro ilog2_lower) linarith
  then show "2 ^ (ilog2 (n div 256) + 8) \<le> n" by (simp add: power_add)
  have "n div 256 < 2 ^ Suc (ilog2 (n div 256))" by (rule ilog2_upper)
  then show "n < 2 ^ Suc (ilog2 (n div 256) + 8)" by (simp add: power_add)
qed

lemma take_bit_uint_32: "take_bit 32 (uint (x :: uint32)) = uint x"
  using uint_lt2p [of x] by (intro take_bit_int_eq_self) simp_all

lemma luaO_log2_loop_correct:
  "0 < uint x \<Longrightarrow> luaO_log2_loop x l = l + 1 + int (ilog2 (uint x))"
proof (induction x l rule: luaO_log2_loop.induct)
  case (1 x l)
  have u: "uint (drop_bit 8 x) = uint x div 256"
    by (simp only: unsigned_drop_bit_eq) (simp add: drop_bit_eq_div take_bit_uint_32)
  show ?case
  proof (cases "256 \<le> x")
    case True
    then have "256 \<le> uint x" by (simp add: word_le_def)
    then have "ilog2 (uint x) = ilog2 (uint (drop_bit 8 x)) + 8" and "0 < uint (drop_bit 8 x)"
      unfolding u by (simp_all add: ilog2_div256 pos_imp_zdiv_pos_iff)
    then show ?thesis
      using "1.IH" [OF True] True by (simp add: luaO_log2_loop.simps [of x])
  next
    case False
    then have "unat x < 256" by (simp add: word_le_nat_alt)
    moreover have "0 < unat x" using 1 by (auto simp: unat_gt_0)
    ultimately have "log_2_table ! unat x = Suc (ilog2 (uint x))"
      using log_2_table_correct [of "unat x"] by simp
    then show ?thesis using False by (simp add: luaO_log2_loop.simps [of x])
  qed
qed

lemma luaO_log2_correct: "x \<noteq> 0 \<Longrightarrow> luaO_log2 x = int (ilog2 (uint x))"
  by (simp add: luaO_log2_def luaO_log2_loop_correct word_neq_0_conv word_less_def)

lemma luaO_log2_0: "luaO_log2 0 = - 1"
  by (simp add: luaO_log2_def luaO_log2_loop.simps log_2_table_def)

text \<open>\<open>ceillog2 x\<close> is the least \<open>k\<close> with \<open>x \<le> 2 ^ k\<close>.\<close>

lemma ceillog2_spec:
  assumes "x \<noteq> 0"
  shows "\<exists>k. ceillog2 x = int k \<and> uint x \<le> 2 ^ k \<and> (k = 0 \<or> 2 ^ (k - 1) < uint x)"
proof (cases "x = 1")
  case True
  then show ?thesis by (simp add: ceillog2_def luaO_log2_0)
next
  case False
  have x0: "0 < uint x" using assms by (simp add: word_neq_0_conv word_less_def)
  have u: "uint (x - 1) = uint x - 1"
    using x0 by (subst uint_sub_lem [THEN iffD1]) simp_all
  have "uint x \<noteq> uint (1 :: uint32)" using False by (simp only: word_uint_eq_iff) simp
  then have p: "0 < uint (x - 1)" and ne: "x - 1 \<noteq> 0" using x0 u False by auto
  have "ceillog2 x = int (Suc (ilog2 (uint (x - 1))))"
    using luaO_log2_correct [OF ne] by (simp add: ceillog2_def)
  moreover have "uint x \<le> 2 ^ Suc (ilog2 (uint (x - 1)))"
    using ilog2_upper [of "uint (x - 1)"] u x0 by linarith
  moreover have "2 ^ ilog2 (uint (x - 1)) < uint x"
    using ilog2_lower [OF p] u x0 by linarith
  ultimately show ?thesis by (intro exI [of _ "Suc (ilog2 (uint (x - 1)))"]) simp
qed

section \<open>Hashing modulo a power of two\<close>

definition lmod :: "uint32 \<Rightarrow> nat \<Rightarrow> nat" where
  "lmod s sz = unat (s AND (word_of_nat sz - 1))"

lemma lmod_less: "lmod s (2 ^ l) < 2 ^ l"
proof -
  have w: "(word_of_nat (2 ^ l) - 1 :: uint32) = mask l" by (simp add: mask_eq_exp_minus_1)
  have "int (unat (s AND mask l)) < int (2 ^ l)" using and_mask_lt_2p [of s l] by simp
  then have "unat (s AND mask l) < 2 ^ l" by (simp only: of_nat_less_iff)
  then show ?thesis by (simp only: lmod_def w)
qed

end
