(* ===== verification/LOpcodes.thy ===== *)
theory LOpcodes
  imports LObject
begin

text \<open>
  \<open>lopcodes.h\<close> and \<open>lopcodes.c\<close>: the instruction word with its fields, the macros that read,
  write and build instructions, RK operands, the opcode enumeration and the mode table.
  The lemmas show that every field reads back what was written and that building and taking
  apart an instruction are inverse.
\<close>

type_synonym Instruction = uint32

section \<open>Sizes and positions\<close>

definition SIZE_C :: nat where "SIZE_C = 9"
definition SIZE_B :: nat where "SIZE_B = 9"
definition SIZE_Bx :: nat where "SIZE_Bx = SIZE_C + SIZE_B"
definition SIZE_A :: nat where "SIZE_A = 8"
definition SIZE_OP :: nat where "SIZE_OP = 6"
definition POS_OP :: nat where "POS_OP = 0"
definition POS_A :: nat where "POS_A = POS_OP + SIZE_OP"
definition POS_C :: nat where "POS_C = POS_A + SIZE_A"
definition POS_B :: nat where "POS_B = POS_C + SIZE_C"
definition POS_Bx :: nat where "POS_Bx = POS_C"

lemmas field_layout [lua_defs] = SIZE_C_def SIZE_B_def SIZE_Bx_def SIZE_A_def SIZE_OP_def
  POS_OP_def POS_A_def POS_C_def POS_B_def POS_Bx_def

definition MAXARG_Bx :: int where "MAXARG_Bx = 2 ^ SIZE_Bx - 1"
definition MAXARG_sBx :: int where "MAXARG_sBx = MAXARG_Bx div 2"
definition MAXARG_A :: int where "MAXARG_A = 2 ^ SIZE_A - 1"
definition MAXARG_B :: int where "MAXARG_B = 2 ^ SIZE_B - 1"
definition MAXARG_C :: int where "MAXARG_C = 2 ^ SIZE_C - 1"
definition NO_REG :: int where "NO_REG = MAXARG_A"

definition MASK1 :: "nat \<Rightarrow> nat \<Rightarrow> Instruction" where
  "MASK1 n p = push_bit p (NOT (push_bit n (NOT 0)))"

definition MASK0 :: "nat \<Rightarrow> nat \<Rightarrow> Instruction" where
  "MASK0 n p = NOT (MASK1 n p)"

section \<open>Field access\<close>

text \<open>The pattern all accessor macros share: shift down and mask, or clear the field and
  or the shifted value in.\<close>

definition get_field :: "nat \<Rightarrow> nat \<Rightarrow> Instruction \<Rightarrow> Instruction" where
  "get_field pos sz i = drop_bit pos i AND MASK1 sz 0"

definition set_field :: "nat \<Rightarrow> nat \<Rightarrow> Instruction \<Rightarrow> Instruction \<Rightarrow> Instruction" where
  "set_field pos sz i v = (i AND MASK0 sz pos) OR (push_bit pos v AND MASK1 sz pos)"

definition GET_OPCODE :: "Instruction \<Rightarrow> nat" where
  "GET_OPCODE i = unat (get_field POS_OP SIZE_OP i)"
definition SET_OPCODE :: "Instruction \<Rightarrow> nat \<Rightarrow> Instruction" where
  "SET_OPCODE i opc = set_field POS_OP SIZE_OP i (word_of_nat opc)"
definition GETARG_A :: "Instruction \<Rightarrow> int" where
  "GETARG_A i = uint (get_field POS_A SIZE_A i)"
definition SETARG_A :: "Instruction \<Rightarrow> int \<Rightarrow> Instruction" where
  "SETARG_A i u = set_field POS_A SIZE_A i (word_of_int u)"
definition GETARG_B :: "Instruction \<Rightarrow> int" where
  "GETARG_B i = uint (get_field POS_B SIZE_B i)"
definition SETARG_B :: "Instruction \<Rightarrow> int \<Rightarrow> Instruction" where
  "SETARG_B i b = set_field POS_B SIZE_B i (word_of_int b)"
definition GETARG_C :: "Instruction \<Rightarrow> int" where
  "GETARG_C i = uint (get_field POS_C SIZE_C i)"
definition SETARG_C :: "Instruction \<Rightarrow> int \<Rightarrow> Instruction" where
  "SETARG_C i b = set_field POS_C SIZE_C i (word_of_int b)"
definition GETARG_Bx :: "Instruction \<Rightarrow> int" where
  "GETARG_Bx i = uint (get_field POS_Bx SIZE_Bx i)"
definition SETARG_Bx :: "Instruction \<Rightarrow> int \<Rightarrow> Instruction" where
  "SETARG_Bx i b = set_field POS_Bx SIZE_Bx i (word_of_int b)"
definition GETARG_sBx :: "Instruction \<Rightarrow> int" where
  "GETARG_sBx i = GETARG_Bx i - MAXARG_sBx"
definition SETARG_sBx :: "Instruction \<Rightarrow> int \<Rightarrow> Instruction" where
  "SETARG_sBx i b = SETARG_Bx i (b + MAXARG_sBx)"

definition CREATE_ABC :: "nat \<Rightarrow> int \<Rightarrow> int \<Rightarrow> int \<Rightarrow> Instruction" where
  "CREATE_ABC opc a b c =
     push_bit POS_OP (word_of_nat opc) OR push_bit POS_A (word_of_int a) OR
     push_bit POS_B (word_of_int b) OR push_bit POS_C (word_of_int c)"

definition CREATE_ABx :: "nat \<Rightarrow> int \<Rightarrow> int \<Rightarrow> Instruction" where
  "CREATE_ABx opc a bc =
     push_bit POS_OP (word_of_nat opc) OR push_bit POS_A (word_of_int a) OR
     push_bit POS_Bx (word_of_int bc)"

lemmas instr_defs [lua_defs] = GET_OPCODE_def SET_OPCODE_def GETARG_A_def SETARG_A_def
  GETARG_B_def SETARG_B_def GETARG_C_def SETARG_C_def GETARG_Bx_def SETARG_Bx_def
  CREATE_ABC_def CREATE_ABx_def

subsection \<open>Bits of the fields\<close>

lemma MASK1_bit: "bit (MASK1 n p) k \<longleftrightarrow> k < 32 \<and> p \<le> k \<and> k < p + n"
  by (auto simp: MASK1_def bit_simps)

lemma MASK0_bit: "bit (MASK0 n p) k \<longleftrightarrow> k < 32 \<and> \<not> (p \<le> k \<and> k < p + n)"
  by (auto simp: MASK0_def MASK1_bit bit_simps)

lemma get_field_bit:
  "bit (get_field pos sz i) k \<longleftrightarrow> k < sz \<and> bit i (pos + k)"
  using bit_imp_le_length [of i "pos + k"]
  by (auto simp: get_field_def MASK1_bit bit_simps)

lemma set_field_bit:
  "bit (set_field pos sz i v) k \<longleftrightarrow>
     k < 32 \<and> (if pos \<le> k \<and> k < pos + sz then bit v (k - pos) else bit i k)"
  using bit_imp_le_length [of i k]
  by (auto simp: set_field_def MASK0_bit MASK1_bit bit_simps)

lemma get_set_same:
  "pos + sz \<le> 32 \<Longrightarrow> get_field pos sz (set_field pos sz i v) = take_bit sz v"
  by (rule bit_eqI) (auto simp: get_field_bit set_field_bit bit_simps)

lemma get_set_other:
  "pos + sz \<le> 32 \<Longrightarrow> p + s \<le> pos \<or> pos + sz \<le> p \<Longrightarrow> p + s \<le> 32 \<Longrightarrow>
   get_field p s (set_field pos sz i v) = get_field p s i"
  by (rule bit_eqI) (auto simp: get_field_bit set_field_bit bit_simps)

lemma uint_take_bit_word:
  "sz \<le> 32 \<Longrightarrow> uint (take_bit sz (word_of_int v :: Instruction)) = v mod 2 ^ sz"
  by (simp add: unsigned_take_bit_eq uint_word_of_int take_bit_eq_mod [symmetric]
      take_bit_eq_mod [of 32, simplified, symmetric] min_def)

lemma get_field_less: "sz < 32 \<Longrightarrow> unat (get_field pos sz i) < 2 ^ sz"
proof -
  assume "sz < 32"
  have "get_field pos sz i = take_bit sz (drop_bit pos i)"
    by (rule bit_eqI) (auto simp: get_field_bit bit_simps)
  then have "unat (get_field pos sz i) = take_bit sz (unat (drop_bit pos i))"
    by (simp add: unsigned_take_bit_eq)
  then show ?thesis by (simp only: take_bit_nat_less_exp)
qed

subsection \<open>Building and taking apart\<close>

lemma word_fits_bit:
  assumes "0 \<le> v" and "v < 2 ^ n" and "n \<le> k"
  shows "\<not> bit (word_of_int v :: Instruction) k"
proof -
  have "take_bit n v = v" using assms by (simp add: take_bit_int_eq_self)
  then have "\<not> bit v k" using assms(3) by (metis bit_take_bit_iff not_le)
  then show ?thesis by (simp add: bit_simps)
qed

lemma nat_fits_bit: "v < 2 ^ n \<Longrightarrow> n \<le> k \<Longrightarrow> \<not> bit (word_of_nat v :: Instruction) k"
  using word_fits_bit [of "int v" n k] by (simp flip: of_nat_less_iff)

lemma get_field_CREATE_ABC:
  assumes "opc < 64" and "0 \<le> a" "a < 256" and "0 \<le> b" "b < 512" and "0 \<le> c" "c < 512"
  shows "get_field POS_OP SIZE_OP (CREATE_ABC opc a b c) = word_of_nat opc"
    and "get_field POS_A SIZE_A (CREATE_ABC opc a b c) = word_of_int a"
    and "get_field POS_B SIZE_B (CREATE_ABC opc a b c) = word_of_int b"
    and "get_field POS_C SIZE_C (CREATE_ABC opc a b c) = word_of_int c"
proof -
  note o = nat_fits_bit [of opc 6] and a = word_fits_bit [of a 8]
    and b = word_fits_bit [of b 9] and c = word_fits_bit [of c 9]
  have l: "\<not> bit (word_of_nat opc :: Instruction) k" if "6 \<le> k" for k
    using o that assms by simp
  have la: "\<not> bit (word_of_int a :: Instruction) k" if "8 \<le> k" for k
    using a that assms by simp
  have lb: "\<not> bit (word_of_int b :: Instruction) k" if "9 \<le> k" for k
    using b that assms by simp
  have lc: "\<not> bit (word_of_int c :: Instruction) k" if "9 \<le> k" for k
    using c that assms by simp
  have bits: "bit (CREATE_ABC opc a b c) k \<longleftrightarrow> k < 32 \<and>
      (bit (word_of_nat opc :: Instruction) k \<or> 6 \<le> k \<and> bit (word_of_int a :: Instruction) (k - 6) \<or>
       23 \<le> k \<and> bit (word_of_int b :: Instruction) (k - 23) \<or>
       14 \<le> k \<and> bit (word_of_int c :: Instruction) (k - 14))" for k
    using bit_imp_le_length [of "word_of_nat opc :: Instruction" k]
    by (auto simp: CREATE_ABC_def field_layout bit_or_iff bit_push_bit_iff)
  show "get_field POS_OP SIZE_OP (CREATE_ABC opc a b c) = word_of_nat opc"
  proof (rule bit_word_eqI)
    fix n assume "n < LENGTH(32)"
    then show "bit (get_field POS_OP SIZE_OP (CREATE_ABC opc a b c)) n \<longleftrightarrow> bit (word_of_nat opc :: Instruction) n"
      using l [of n]
      by (cases "n < 6") (auto simp: get_field_bit bits field_layout)
  qed
  show "get_field POS_A SIZE_A (CREATE_ABC opc a b c) = word_of_int a"
  proof (rule bit_word_eqI)
    fix n assume "n < LENGTH(32)"
    then show "bit (get_field POS_A SIZE_A (CREATE_ABC opc a b c)) n \<longleftrightarrow> bit (word_of_int a :: Instruction) n"
      using l [of "6 + n"] la [of n]
      by (cases "n < 8") (auto simp: get_field_bit bits field_layout)
  qed
  show "get_field POS_B SIZE_B (CREATE_ABC opc a b c) = word_of_int b"
  proof (rule bit_word_eqI)
    fix n assume "n < LENGTH(32)"
    then show "bit (get_field POS_B SIZE_B (CREATE_ABC opc a b c)) n \<longleftrightarrow> bit (word_of_int b :: Instruction) n"
      using l [of "23 + n"] la [of "17 + n"] lb [of n] lc [of "9 + n"]
      by (cases "n < 9") (auto simp: get_field_bit bits field_layout)
  qed
  show "get_field POS_C SIZE_C (CREATE_ABC opc a b c) = word_of_int c"
  proof (rule bit_word_eqI)
    fix n assume "n < LENGTH(32)"
    then show "bit (get_field POS_C SIZE_C (CREATE_ABC opc a b c)) n \<longleftrightarrow> bit (word_of_int c :: Instruction) n"
      using l [of "14 + n"] la [of "8 + n"] lc [of n]
      by (cases "n < 9") (auto simp: get_field_bit bits field_layout)
  qed
qed

lemma CREATE_ABC_of_fields:
  "CREATE_ABC (GET_OPCODE i) (GETARG_A i) (GETARG_B i) (GETARG_C i) = i"
proof (rule bit_word_eqI)
  fix k assume "k < LENGTH(32)"
  then have k: "k < 32" by simp
  consider "k < 6" | "6 \<le> k" "k < 14" | "14 \<le> k" "k < 23" | "23 \<le> k" using k by linarith
  then show "bit (CREATE_ABC (GET_OPCODE i) (GETARG_A i) (GETARG_B i) (GETARG_C i)) k \<longleftrightarrow> bit i k"
    using k
    by cases (auto simp: CREATE_ABC_def instr_defs field_layout bit_or_iff bit_push_bit_iff
        get_field_bit)
qed

lemma CREATE_ABx_of_fields: "CREATE_ABx (GET_OPCODE i) (GETARG_A i) (GETARG_Bx i) = i"
proof (rule bit_word_eqI)
  fix k assume "k < LENGTH(32)"
  then have k: "k < 32" by simp
  consider "k < 6" | "6 \<le> k" "k < 14" | "14 \<le> k" using k by linarith
  then show "bit (CREATE_ABx (GET_OPCODE i) (GETARG_A i) (GETARG_Bx i)) k \<longleftrightarrow> bit i k"
    using k
    by cases (auto simp: CREATE_ABx_def instr_defs field_layout bit_or_iff bit_push_bit_iff
        get_field_bit)
qed

lemma uint_get_field_less: "sz < 32 \<Longrightarrow> uint (get_field pos sz i) < 2 ^ sz"
proof -
  assume "sz < 32"
  then have "int (unat (get_field pos sz i)) < int (2 ^ sz)"
    using get_field_less by (simp only: of_nat_less_iff)
  then show ?thesis by simp
qed

lemma instr_ranges:
  "GET_OPCODE i < 64"
  "0 \<le> GETARG_A i" "GETARG_A i < 256" "0 \<le> GETARG_B i" "GETARG_B i < 512"
  "0 \<le> GETARG_C i" "GETARG_C i < 512" "0 \<le> GETARG_Bx i" "GETARG_Bx i < 262144"
  using get_field_less [of SIZE_OP POS_OP i] uint_get_field_less [of SIZE_A POS_A i]
    uint_get_field_less [of SIZE_B POS_B i] uint_get_field_less [of SIZE_C POS_C i]
    uint_get_field_less [of SIZE_Bx POS_Bx i]
  by (simp_all add: instr_defs field_layout)

section \<open>RK operands\<close>

definition BITRK :: int where "BITRK = 2 ^ (SIZE_B - 1)"
definition MAXINDEXRK :: int where "MAXINDEXRK = BITRK - 1"

definition ISK :: "int \<Rightarrow> bool" where "ISK x \<longleftrightarrow> x AND BITRK \<noteq> 0"
definition INDEXK :: "int \<Rightarrow> int" where "INDEXK r = r AND NOT BITRK"
definition RKASK :: "int \<Rightarrow> int" where "RKASK x = x OR BITRK"

lemma BITRK_eq: "BITRK = 2 ^ 8"
  by (simp add: BITRK_def SIZE_B_def)

lemma bit8_iff: "0 \<le> x \<Longrightarrow> x < 512 \<Longrightarrow> bit (x :: int) 8 \<longleftrightarrow> 256 \<le> x"
proof -
  assume "0 \<le> x" "x < 512"
  then have "x div 256 = (if 256 \<le> x then 1 else 0)" by auto
  then show ?thesis by (simp add: bit_iff_odd)
qed

lemma ISK_iff: "0 \<le> x \<Longrightarrow> x < 512 \<Longrightarrow> ISK x \<longleftrightarrow> 256 \<le> x"
  unfolding ISK_def BITRK_eq by (simp only: and_exp_eq_0_iff_not_bit bit8_iff not_not)

lemma INDEXK_eq: "256 \<le> x \<Longrightarrow> x < 512 \<Longrightarrow> INDEXK x = x - 256"
proof -
  assume x: "256 \<le> x" "x < 512"
  have "INDEXK x = unset_bit 8 x"
    unfolding INDEXK_def BITRK_eq unset_bit_eq_and_not push_bit_eq_mult by simp
  also have "\<dots> = x - 256" using bit8_iff [of x] x by (simp add: unset_bit_eq)
  finally show ?thesis .
qed

lemma RKASK_eq: "0 \<le> x \<Longrightarrow> x < 256 \<Longrightarrow> RKASK x = x + 256"
proof -
  assume x: "0 \<le> x" "x < 256"
  have "RKASK x = set_bit 8 x"
    unfolding RKASK_def BITRK_eq set_bit_eq_or push_bit_eq_mult by simp
  also have "\<dots> = x + 256" using bit8_iff [of x] x by (simp add: set_bit_eq)
  finally show ?thesis .
qed

section \<open>Opcodes and their modes\<close>

datatype OpCode =
  OP_MOVE | OP_LOADK | OP_LOADBOOL | OP_LOADNIL | OP_GETUPVAL | OP_GETGLOBAL |
  OP_GETTABLE | OP_SETGLOBAL | OP_SETUPVAL | OP_SETTABLE | OP_NEWTABLE | OP_SELF | OP_ADD |
  OP_SUB | OP_MUL | OP_DIV | OP_MOD | OP_POW | OP_UNM | OP_NOT | OP_LEN | OP_CONCAT |
  OP_JMP | OP_EQ | OP_LT | OP_LE | OP_TEST | OP_TESTSET | OP_CALL | OP_TAILCALL |
  OP_RETURN | OP_FORLOOP | OP_FORPREP | OP_TFORLOOP | OP_SETLIST | OP_CLOSE | OP_CLOSURE |
  OP_VARARG

definition all_OpCodes :: "OpCode list" where
  "all_OpCodes =
    [OP_MOVE, OP_LOADK, OP_LOADBOOL, OP_LOADNIL, OP_GETUPVAL, OP_GETGLOBAL, OP_GETTABLE,
     OP_SETGLOBAL, OP_SETUPVAL, OP_SETTABLE, OP_NEWTABLE, OP_SELF, OP_ADD, OP_SUB, OP_MUL,
     OP_DIV, OP_MOD, OP_POW, OP_UNM, OP_NOT, OP_LEN, OP_CONCAT, OP_JMP, OP_EQ, OP_LT,
     OP_LE, OP_TEST, OP_TESTSET, OP_CALL, OP_TAILCALL, OP_RETURN, OP_FORLOOP, OP_FORPREP,
     OP_TFORLOOP, OP_SETLIST, OP_CLOSE, OP_CLOSURE, OP_VARARG]"

definition NUM_OPCODES :: nat where "NUM_OPCODES = length all_OpCodes"

text \<open>The enumeration value of an opcode is its position; a 6-bit opcode field may hold a
  number that is no enumeration value.\<close>

fun index_of :: "'a \<Rightarrow> 'a list \<Rightarrow> nat" where
  "index_of x [] = 0"
| "index_of x (y # ys) = (if x = y then 0 else Suc (index_of x ys))"

definition op_num :: "OpCode \<Rightarrow> nat" where
  "op_num opc = index_of opc all_OpCodes"

definition OpCode_of :: "nat \<Rightarrow> OpCode option" where
  "OpCode_of n = (if n < NUM_OPCODES then Some (all_OpCodes ! n) else None)"

datatype OpMode = iABC | iABx | iAsBx
datatype OpArgMask = OpArgN | OpArgU | OpArgR | OpArgK

fun OpMode_num :: "OpMode \<Rightarrow> byte" where
  "OpMode_num iABC = 0" | "OpMode_num iABx = 1" | "OpMode_num iAsBx = 2"

fun OpArgMask_num :: "OpArgMask \<Rightarrow> byte" where
  "OpArgMask_num OpArgN = 0" | "OpArgMask_num OpArgU = 1"
| "OpArgMask_num OpArgR = 2" | "OpArgMask_num OpArgK = 3"

definition OpMode_cast :: "byte \<Rightarrow> OpMode" where
  "OpMode_cast w = (if w = 0 then iABC else if w = 1 then iABx else iAsBx)"

definition OpArgMask_cast :: "byte \<Rightarrow> OpArgMask" where
  "OpArgMask_cast w =
     (if w = 0 then OpArgN else if w = 1 then OpArgU else if w = 2 then OpArgR else OpArgK)"

definition opmode :: "byte \<Rightarrow> byte \<Rightarrow> OpArgMask \<Rightarrow> OpArgMask \<Rightarrow> OpMode \<Rightarrow> byte" where
  "opmode t a b c m =
     push_bit 7 t OR push_bit 6 a OR push_bit 4 (OpArgMask_num b) OR
     push_bit 2 (OpArgMask_num c) OR OpMode_num m"

definition luaP_opmodes :: "byte list" where
  "luaP_opmodes =
     [opmode 0 1 OpArgR OpArgN iABC,
      opmode 0 1 OpArgK OpArgN iABx,
      opmode 0 1 OpArgU OpArgU iABC,
      opmode 0 1 OpArgR OpArgN iABC,
      opmode 0 1 OpArgU OpArgN iABC,
      opmode 0 1 OpArgK OpArgN iABx,
      opmode 0 1 OpArgR OpArgK iABC,
      opmode 0 0 OpArgK OpArgN iABx,
      opmode 0 0 OpArgU OpArgN iABC,
      opmode 0 0 OpArgK OpArgK iABC,
      opmode 0 1 OpArgU OpArgU iABC,
      opmode 0 1 OpArgR OpArgK iABC,
      opmode 0 1 OpArgK OpArgK iABC,
      opmode 0 1 OpArgK OpArgK iABC,
      opmode 0 1 OpArgK OpArgK iABC,
      opmode 0 1 OpArgK OpArgK iABC,
      opmode 0 1 OpArgK OpArgK iABC,
      opmode 0 1 OpArgK OpArgK iABC,
      opmode 0 1 OpArgR OpArgN iABC,
      opmode 0 1 OpArgR OpArgN iABC,
      opmode 0 1 OpArgR OpArgN iABC,
      opmode 0 1 OpArgR OpArgR iABC,
      opmode 0 0 OpArgR OpArgN iAsBx,
      opmode 1 0 OpArgK OpArgK iABC,
      opmode 1 0 OpArgK OpArgK iABC,
      opmode 1 0 OpArgK OpArgK iABC,
      opmode 1 1 OpArgR OpArgU iABC,
      opmode 1 1 OpArgR OpArgU iABC,
      opmode 0 1 OpArgU OpArgU iABC,
      opmode 0 1 OpArgU OpArgU iABC,
      opmode 0 0 OpArgU OpArgN iABC,
      opmode 0 1 OpArgR OpArgN iAsBx,
      opmode 0 1 OpArgR OpArgN iAsBx,
      opmode 1 0 OpArgN OpArgU iABC,
      opmode 0 0 OpArgU OpArgU iABC,
      opmode 0 0 OpArgN OpArgN iABC,
      opmode 0 1 OpArgU OpArgN iABx,
      opmode 0 1 OpArgU OpArgN iABC]"

definition getOpMode :: "OpCode \<Rightarrow> OpMode" where
  "getOpMode m = OpMode_cast (luaP_opmodes ! op_num m AND 3)"
definition getBMode :: "OpCode \<Rightarrow> OpArgMask" where
  "getBMode m = OpArgMask_cast (drop_bit 4 (luaP_opmodes ! op_num m) AND 3)"
definition getCMode :: "OpCode \<Rightarrow> OpArgMask" where
  "getCMode m = OpArgMask_cast (drop_bit 2 (luaP_opmodes ! op_num m) AND 3)"
definition testAMode :: "OpCode \<Rightarrow> bool" where
  "testAMode m \<longleftrightarrow> luaP_opmodes ! op_num m AND push_bit 6 1 \<noteq> 0"
definition testTMode :: "OpCode \<Rightarrow> bool" where
  "testTMode m \<longleftrightarrow> luaP_opmodes ! op_num m AND push_bit 7 1 \<noteq> 0"

lemma length_all_OpCodes: "NUM_OPCODES = 38"
  by (simp add: NUM_OPCODES_def all_OpCodes_def)

lemma OpCode_of_op_num: "OpCode_of (op_num m) = Some m"
  by (cases m) (simp_all add: OpCode_of_def op_num_def NUM_OPCODES_def all_OpCodes_def)

lemma index_of_nth: "distinct xs \<Longrightarrow> i < length xs \<Longrightarrow> index_of (xs ! i) xs = i"
proof (induction xs arbitrary: i)
  case (Cons x xs)
  then show ?case by (cases i) (auto simp: nth_mem)
qed simp

lemma distinct_all_OpCodes: "distinct all_OpCodes"
  by (simp add: all_OpCodes_def)

lemma op_num_OpCode_of: "OpCode_of n = Some m \<Longrightarrow> op_num m = n"
  by (auto simp: OpCode_of_def op_num_def NUM_OPCODES_def index_of_nth distinct_all_OpCodes
      split: if_splits)

lemma op_num_less: "op_num m < 38"
  using OpCode_of_op_num [of m]
  by (simp add: OpCode_of_def length_all_OpCodes split: if_splits)

text \<open>The numbers of the enumeration and the mode table read back, opcode by opcode.\<close>

lemma op_num_simps [simp]:
  "op_num OP_MOVE = 0" "op_num OP_LOADK = 1" "op_num OP_LOADBOOL = 2"
  "op_num OP_LOADNIL = 3" "op_num OP_GETUPVAL = 4" "op_num OP_GETGLOBAL = 5"
  "op_num OP_GETTABLE = 6" "op_num OP_SETGLOBAL = 7" "op_num OP_SETUPVAL = 8"
  "op_num OP_SETTABLE = 9" "op_num OP_NEWTABLE = 10" "op_num OP_SELF = 11"
  "op_num OP_ADD = 12" "op_num OP_SUB = 13" "op_num OP_MUL = 14" "op_num OP_DIV = 15"
  "op_num OP_MOD = 16" "op_num OP_POW = 17" "op_num OP_UNM = 18" "op_num OP_NOT = 19"
  "op_num OP_LEN = 20" "op_num OP_CONCAT = 21" "op_num OP_JMP = 22" "op_num OP_EQ = 23"
  "op_num OP_LT = 24" "op_num OP_LE = 25" "op_num OP_TEST = 26" "op_num OP_TESTSET = 27"
  "op_num OP_CALL = 28" "op_num OP_TAILCALL = 29" "op_num OP_RETURN = 30"
  "op_num OP_FORLOOP = 31" "op_num OP_FORPREP = 32" "op_num OP_TFORLOOP = 33"
  "op_num OP_SETLIST = 34" "op_num OP_CLOSE = 35" "op_num OP_CLOSURE = 36"
  "op_num OP_VARARG = 37"
  by (simp_all add: op_num_def all_OpCodes_def)

lemma luaP_opmodes_value:
  "luaP_opmodes =
     [96, 113, 84, 96, 80, 113, 108, 49, 16, 60, 84, 108, 124, 124, 124, 124, 124, 124, 96,
     96, 96, 104, 34, 188, 188, 188, 228, 228, 84, 84, 16, 98, 98, 132, 20, 0, 81, 80]"
  by (simp add: luaP_opmodes_def opmode_def push_bit_eq_mult)

lemmas mode_defs = getOpMode_def getBMode_def getCMode_def testAMode_def testTMode_def
  luaP_opmodes_value OpMode_cast_def OpArgMask_cast_def drop_bit_eq_div push_bit_eq_mult

lemma getOpMode_eq:
  "getOpMode m = (case m of OP_LOADK \<Rightarrow> iABx | OP_GETGLOBAL \<Rightarrow> iABx | OP_SETGLOBAL \<Rightarrow> iABx |
     OP_CLOSURE \<Rightarrow> iABx | OP_JMP \<Rightarrow> iAsBx | OP_FORLOOP \<Rightarrow> iAsBx | OP_FORPREP \<Rightarrow> iAsBx | _ \<Rightarrow> iABC)"
  by (cases m) (simp_all add: mode_defs)

lemma testTMode_eq:
  "testTMode m \<longleftrightarrow> m \<in> {OP_EQ, OP_LT, OP_LE, OP_TEST, OP_TESTSET, OP_TFORLOOP}"
  by (cases m) (simp_all add: mode_defs)

end
