(* ===== verification/LTable.thy ===== *)
theory LTable
  imports LObject
begin

text \<open>
  \<open>ltable.c\<close>: Lua tables. A table has an array part and a hash part, a chained scatter table
  with Brent's variation whose nodes link to each other by position. Node pointers are
  indices into the node vector, \<open>lastfree\<close> an index that the scan for a free node moves down
  (below 0 when it fails), a \<open>TValue *\<close> result the slot it points to. The reading of a
  string's hash and address from its header is the argument \<open>H\<close>. Allocation is taken to
  succeed. Loops over chains carry fuel, the number of nodes, and report \<open>OutOfFuel\<close>; the
  lemmas of \<open>LTableProps\<close> show that a well-formed table never runs out.
\<close>

section \<open>Data\<close>

record 's string_view =
  tsv_hash :: "'s \<Rightarrow> uint32"
  tsv_addr :: "'s \<Rightarrow> addr"

record 's Node =
  i_val :: "'s tvalue"
  i_key :: "'s tvalue"
  i_next :: "nat option"

record 's Table =
  flags :: byte
  lsizenode :: nat
  metatable :: "addr option"
  array :: "'s tvalue list"
  sizearray :: nat
  node :: "'s Node list"
  is_dummy :: bool
  lastfree :: int

datatype slot = SArray nat | SNode nat

definition MAXBITS :: nat where "MAXBITS = 26"
definition MAXASIZE :: int where "MAXASIZE = 2 ^ MAXBITS"
definition MAX_INT :: int where "MAX_INT = INT_MAX - 2"

definition sizenode :: "'s Table \<Rightarrow> nat" where
  "sizenode t = 2 ^ lsizenode t"

definition dummynode :: "'s Node" where
  "dummynode = \<lparr>i_val = TNil, i_key = TNil, i_next = None\<rparr>"

definition slot_val :: "'s Table \<Rightarrow> slot \<Rightarrow> 's tvalue" where
  "slot_val t s = (case s of SArray i \<Rightarrow> array t ! i | SNode i \<Rightarrow> i_val (node t ! i))"

definition set_slot :: "'s Table \<Rightarrow> slot \<Rightarrow> 's tvalue \<Rightarrow> 's Table" where
  "set_slot t s v =
     (case s of
        SArray i \<Rightarrow> t\<lparr>array := (array t)[i := v]\<rparr>
      | SNode i \<Rightarrow> t\<lparr>node := (node t)[i := (node t ! i)\<lparr>i_val := v\<rparr>]\<rparr>)"

section \<open>Hashing\<close>

text \<open>The three hash macros, for a table of \<open>2 ^ l\<close> nodes.\<close>

definition hashpow2 :: "nat \<Rightarrow> uint32 \<Rightarrow> nat" where
  "hashpow2 l n = lmod n (2 ^ l)"

definition hashmod :: "nat \<Rightarrow> uint32 \<Rightarrow> nat" where
  "hashmod l n = nat (uint n mod ((2 ^ l - 1) OR 1))"

definition IntPoint :: "addr \<Rightarrow> uint32" where
  "IntPoint p = word_of_nat p"

definition hashpointer :: "nat \<Rightarrow> addr \<Rightarrow> nat" where
  "hashpointer l p = hashmod l (IntPoint p)"

definition hashnum :: "nat \<Rightarrow> lua_Number \<Rightarrow> nat" where
  "hashnum l n =
     (if luai_numeq n (cast_num 0) then 0
      else hashmod l (ucast n + ucast (drop_bit 32 n)))"

fun gcaddr :: "'s string_view \<Rightarrow> 's gcvalue \<Rightarrow> addr" where
  "gcaddr H (GString s) = tsv_addr H s"
| "gcaddr H (GTable a) = a"
| "gcaddr H (GFunction a) = a"
| "gcaddr H (GUserdata a) = a"
| "gcaddr H (GThread a) = a"

fun mainpos :: "'s string_view \<Rightarrow> nat \<Rightarrow> 's tvalue \<Rightarrow> nat" where
  "mainpos H l (TNumber n) = hashnum l n"
| "mainpos H l (TGC (GString s)) = hashpow2 l (tsv_hash H s)"
| "mainpos H l (TBoolean b) = hashpow2 l (if b then 1 else 0)"
| "mainpos H l (TLightUserdata p) = hashpointer l p"
| "mainpos H l (TGC g) = hashpointer l (gcaddr H g)"
| "mainpos H l (TDeadKey g) = hashpointer l (gcaddr H g)"
| "mainpos H l TNil = hashpointer l 0"

definition mainposition :: "'s string_view \<Rightarrow> 's Table \<Rightarrow> 's tvalue \<Rightarrow> nat" where
  "mainposition H t key = mainpos H (lsizenode t) key"

definition arrayindex :: "'s tvalue \<Rightarrow> int" where
  "arrayindex key =
     (case key of
        TNumber n \<Rightarrow> (let k = lua_number2int n in if luai_numeq (cast_num k) n then k else - 1)
      | _ \<Rightarrow> - 1)"

section \<open>Search\<close>

text \<open>The \<open>do ... while (n)\<close> loop over a collision chain.\<close>

fun chain_find :: "('s Node \<Rightarrow> bool) \<Rightarrow> 's Node list \<Rightarrow> nat \<Rightarrow> nat option \<Rightarrow> nat option res" where
  "chain_find P nd fuel None = Inr None"
| "chain_find P nd 0 (Some i) = Inl OutOfFuel"
| "chain_find P nd (Suc fuel) (Some i) =
     (if P (nd ! i) then Inr (Some i) else chain_find P nd fuel (i_next (nd ! i)))"

definition search_chain :: "('s Node \<Rightarrow> bool) \<Rightarrow> 's Table \<Rightarrow> nat \<Rightarrow> slot option res" where
  "search_chain P t i =
     rbind (chain_find P (node t) (length (node t)) (Some i)) (\<lambda>r. Inr (map_option SNode r))"

definition luaH_getnum :: "'s Table \<Rightarrow> int \<Rightarrow> slot option res" where
  "luaH_getnum t key =
     (if (key - 1) mod 2 ^ 32 < int (sizearray t) then Inr (Some (SArray (nat ((key - 1) mod 2 ^ 32))))
      else (let nk = cast_num key
            in search_chain (\<lambda>n. case i_key n of TNumber m \<Rightarrow> luai_numeq m nk | _ \<Rightarrow> False) t
                 (hashnum (lsizenode t) nk)))"

definition luaH_getstr :: "'s string_view \<Rightarrow> 's Table \<Rightarrow> 's \<Rightarrow> slot option res" where
  "luaH_getstr H t key =
     search_chain (\<lambda>n. case i_key n of TGC (GString s) \<Rightarrow> s = key | _ \<Rightarrow> False) t
       (hashpow2 (lsizenode t) (tsv_hash H key))"

definition get_default :: "'s string_view \<Rightarrow> 's Table \<Rightarrow> 's tvalue \<Rightarrow> slot option res" where
  "get_default H t key =
     search_chain (\<lambda>n. luaO_rawequalObj (i_key n) key) t (mainposition H t key)"

definition luaH_get :: "'s string_view \<Rightarrow> 's Table \<Rightarrow> 's tvalue \<Rightarrow> slot option res" where
  "luaH_get H t key =
     (case key of
        TNil \<Rightarrow> Inr None
      | TGC (GString s) \<Rightarrow> luaH_getstr H t s
      | TNumber n \<Rightarrow>
          (let k = lua_number2int n
           in if luai_numeq (cast_num k) n then luaH_getnum t k else get_default H t key)
      | _ \<Rightarrow> get_default H t key)"

text \<open>The value a lookup yields: \<open>luaO_nilobject\<close> when there is no slot.\<close>

definition opt_val :: "'s Table \<Rightarrow> slot option \<Rightarrow> 's tvalue" where
  "opt_val t p = (case p of None \<Rightarrow> TNil | Some s \<Rightarrow> slot_val t s)"

section \<open>Traversal\<close>

definition findindex :: "'s string_view \<Rightarrow> 's Table \<Rightarrow> 's tvalue \<Rightarrow> int res" where
  "findindex H t key =
     (if ttisnil key then Inr (- 1)
      else (let i = arrayindex key
            in if 0 < i \<and> i \<le> int (sizearray t) then Inr (i - 1)
               else rbind
                 (chain_find (\<lambda>n. luaO_rawequalObj (i_key n) key \<or>
                      (case (i_key n, key) of
                         (TDeadKey g, TGC g') \<Rightarrow> gcaddr H g = gcaddr H g'
                       | (TDeadKey g, TDeadKey g') \<Rightarrow> gcaddr H g = gcaddr H g'
                       | _ \<Rightarrow> False))
                    (node t) (length (node t)) (Some (mainposition H t key)))
                 (\<lambda>r. case r of
                     Some n \<Rightarrow> Inr (int n + int (sizearray t))
                   | None \<Rightarrow> Inl (ErrRun ''invalid key to next''))))"

definition next_array :: "'s Table \<Rightarrow> nat \<Rightarrow> nat option" where
  "next_array t i = find (\<lambda>j. \<not> ttisnil (array t ! j)) [i..<sizearray t]"

definition next_node :: "'s Table \<Rightarrow> nat \<Rightarrow> nat option" where
  "next_node t i = find (\<lambda>j. \<not> ttisnil (i_val (node t ! j))) [i..<sizenode t]"

definition luaH_next :: "'s string_view \<Rightarrow> 's Table \<Rightarrow> 's tvalue \<Rightarrow> ('s tvalue \<times> 's tvalue) option res" where
  "luaH_next H t key =
     rbind (findindex H t key) (\<lambda>i0.
       let i = nat (i0 + 1)
       in case next_array t i of
            Some j \<Rightarrow> Inr (Some (TNumber (cast_num (int j + 1)), array t ! j))
          | None \<Rightarrow>
              (case next_node t (max i (sizearray t) - sizearray t) of
                 Some j \<Rightarrow> Inr (Some (i_key (node t ! j), i_val (node t ! j)))
               | None \<Rightarrow> Inr None))"

section \<open>Rehash\<close>

text \<open>\<open>computesizes\<close>: \<open>nums ! i\<close> counts the candidate keys in (2^(i-1), 2^i]. The result is
  the new \<open>*narray\<close> and the number of keys that go to the array.\<close>

function computesizes_loop :: "nat list \<Rightarrow> nat \<Rightarrow> nat \<Rightarrow> nat \<Rightarrow> nat \<Rightarrow> nat \<Rightarrow> nat \<times> nat" where
  "computesizes_loop nums narray i a na n =
     (if 2 ^ i div 2 < narray then
        (let a' = a + nums ! i;
             (na', n') = (if 0 < nums ! i \<and> 2 ^ i div 2 < a' then (a', 2 ^ i) else (na, n))
         in if a' = narray then (n', na') else computesizes_loop nums narray (Suc i) a' na' n')
      else (n, na))"
  by pat_completeness auto
termination
proof (relation "measure (\<lambda>(nums, narray, i, a, na, n). narray - 2 ^ i div 2)", goal_cases)
  case (2 nums narray i a na n)
  have "(2::nat) ^ i div 2 < 2 ^ Suc i div 2" by (cases i) auto
  then show ?case using 2 by (auto simp: diff_less_mono2)
qed simp

declare computesizes_loop.simps [simp del]

definition computesizes :: "nat list \<Rightarrow> nat \<Rightarrow> nat \<times> nat" where
  "computesizes nums narray = computesizes_loop nums narray 0 0 0 0"

text \<open>\<open>countint\<close> returns whether the key counted, with the updated counters.\<close>

definition countint :: "'s tvalue \<Rightarrow> nat list \<Rightarrow> nat \<times> nat list" where
  "countint key nums =
     (let k = arrayindex key
      in if 0 < k \<and> k \<le> MAXASIZE
         then (let c = nat (ceillog2 (word_of_int k)) in (1, nums[c := nums ! c + 1]))
         else (0, nums))"

function numusearray_loop :: "'s Table \<Rightarrow> nat \<Rightarrow> nat \<Rightarrow> nat \<Rightarrow> nat list \<Rightarrow> nat \<times> nat list" where
  "numusearray_loop t lg i ause nums =
     (if lg \<le> MAXBITS then
        (let ttlg = 2 ^ lg; lim = min ttlg (sizearray t)
         in if sizearray t < ttlg \<and> lim < i then (ause, nums)
            else (let lc = length (filter (\<lambda>j. \<not> ttisnil (array t ! (j - 1))) [i..<Suc lim])
                  in numusearray_loop t (Suc lg) (max i (Suc lim)) (ause + lc)
                       (nums[lg := nums ! lg + lc])))
      else (ause, nums))"
  by pat_completeness auto
termination by (relation "measure (\<lambda>(t, lg, i, ause, nums). Suc MAXBITS - lg)") auto

declare numusearray_loop.simps [simp del]

definition numusearray :: "'s Table \<Rightarrow> nat list \<Rightarrow> nat \<times> nat list" where
  "numusearray t nums = numusearray_loop t 0 1 0 nums"

text \<open>\<open>numusehash\<close> walks the nodes from the last to the first; the accumulator holds the
  total, the integer keys and the counters.\<close>

definition numusehash_step :: "'s Node \<Rightarrow> nat \<times> nat \<times> nat list \<Rightarrow> nat \<times> nat \<times> nat list" where
  "numusehash_step n acc =
     (case acc of (totaluse, ause, nums) \<Rightarrow>
        if ttisnil (i_val n) then acc
        else (case countint (i_key n) nums of (c, nums') \<Rightarrow> (totaluse + 1, ause + c, nums')))"

definition numusehash :: "'s Table \<Rightarrow> nat list \<Rightarrow> nat \<Rightarrow> nat \<times> nat \<times> nat list" where
  "numusehash t nums pnasize =
     (case fold numusehash_step (rev (node t)) (0, 0, nums) of
        (totaluse, ause, nums') \<Rightarrow> (totaluse, pnasize + ause, nums'))"

definition setarrayvector :: "'s Table \<Rightarrow> nat \<Rightarrow> 's Table" where
  "setarrayvector t sz =
     t\<lparr>array := take sz (array t) @ replicate (sz - sizearray t) TNil, sizearray := sz\<rparr>"

definition setnodevector :: "'s Table \<Rightarrow> nat \<Rightarrow> 's Table res" where
  "setnodevector t sz =
     (if sz = 0 then Inr (t\<lparr>node := [dummynode], is_dummy := True, lsizenode := 0, lastfree := 0\<rparr>)
      else (let lsize = nat (ceillog2 (word_of_nat sz))
            in if MAXBITS < lsize then Inl (ErrRun ''table overflow'')
               else Inr (t\<lparr>node := replicate (2 ^ lsize) dummynode, is_dummy := False,
                           lsizenode := lsize, lastfree := 2 ^ lsize\<rparr>)))"

text \<open>The functions from \<open>resize\<close> to \<open>luaH_set\<close> call each other; \<open>nk\<close> stands for \<open>newkey\<close>
  one level of nesting down.\<close>

type_synonym 's newkey_fun = "'s Table \<Rightarrow> 's tvalue \<Rightarrow> ('s Table \<times> slot) res"

definition luaH_set_by :: "'s newkey_fun \<Rightarrow> 's string_view \<Rightarrow> 's newkey_fun" where
  "luaH_set_by nk H t key =
     rbind (luaH_get H t key) (\<lambda>p.
       let t' = t\<lparr>flags := 0\<rparr>
       in case p of
            Some s \<Rightarrow> Inr (t', s)
          | None \<Rightarrow>
              if ttisnil key then Inl (ErrRun ''table index is nil'')
              else if is_nan_value key then Inl (ErrRun ''table index is NaN'')
              else nk t' key)"

definition luaH_setnum_by :: "'s newkey_fun \<Rightarrow> 's Table \<Rightarrow> int \<Rightarrow> ('s Table \<times> slot) res" where
  "luaH_setnum_by nk t key =
     rbind (luaH_getnum t key) (\<lambda>p.
       case p of Some s \<Rightarrow> Inr (t, s) | None \<Rightarrow> nk t (TNumber (cast_num key)))"

definition luaH_setstr_by :: "'s newkey_fun \<Rightarrow> 's string_view \<Rightarrow> 's Table \<Rightarrow> 's \<Rightarrow> ('s Table \<times> slot) res" where
  "luaH_setstr_by nk H t key =
     rbind (luaH_getstr H t key) (\<lambda>p.
       case p of Some s \<Rightarrow> Inr (t, s) | None \<Rightarrow> nk t (TString key))"

text \<open>The two re-insertion loops of \<open>resize\<close>.\<close>

definition reinsert_array :: "'s newkey_fun \<Rightarrow> nat \<Rightarrow> 's Table \<Rightarrow> 's Table res" where
  "reinsert_array nk i t =
     (if ttisnil (array t ! i) then Inr t
      else rbind (luaH_setnum_by nk t (int i + 1)) (\<lambda>(t', s). Inr (set_slot t' s (array t ! i))))"

definition reinsert_node :: "'s newkey_fun \<Rightarrow> 's string_view \<Rightarrow> 's Node \<Rightarrow> 's Table \<Rightarrow> 's Table res" where
  "reinsert_node nk H old t =
     (if ttisnil (i_val old) then Inr t
      else rbind (luaH_set_by nk H t (i_key old)) (\<lambda>(t', s). Inr (set_slot t' s (i_val old))))"

definition resize_table :: "'s newkey_fun \<Rightarrow> 's string_view \<Rightarrow> 's Table \<Rightarrow> nat \<Rightarrow> nat \<Rightarrow> 's Table res" where
  "resize_table nk H t nasize nhsize =
     (let oldasize = sizearray t;
          nold = node t;
          t1 = (if oldasize < nasize then setarrayvector t nasize else t)
      in rbind (setnodevector t1 nhsize) (\<lambda>t2.
         rbind (if nasize < oldasize
                then rbind (rfold (reinsert_array nk) [nasize..<oldasize] (t2\<lparr>sizearray := nasize\<rparr>))
                       (\<lambda>t3. Inr (t3\<lparr>array := take nasize (array t3)\<rparr>))
                else Inr t2) (\<lambda>t4.
         rfold (reinsert_node nk H) (rev nold) t4)))"

definition rehash :: "'s newkey_fun \<Rightarrow> 's string_view \<Rightarrow> 's Table \<Rightarrow> 's tvalue \<Rightarrow> 's Table res" where
  "rehash nk H t ek =
     (let (nasize0, nums0) = numusearray t (replicate (Suc MAXBITS) 0);
          (hashuse, nasize1, nums1) = numusehash t nums0 nasize0;
          (c, nums2) = countint ek nums1;
          totaluse = nasize0 + hashuse + 1;
          (nasize, na) = computesizes nums2 (nasize1 + c)
      in resize_table nk H t nasize (totaluse - na))"

section \<open>Insertion of a new key\<close>

function getfreepos_loop :: "'s Node list \<Rightarrow> int \<Rightarrow> int \<times> nat option" where
  "getfreepos_loop nd lf =
     (if 0 < lf then
        (if ttisnil (i_key (nd ! nat (lf - 1))) then (lf - 1, Some (nat (lf - 1)))
         else getfreepos_loop nd (lf - 1))
      else (lf - 1, None))"
  by pat_completeness auto
termination by (relation "measure (\<lambda>(nd, lf). nat lf)") auto

declare getfreepos_loop.simps [simp del]

definition getfreepos :: "'s Table \<Rightarrow> 's Table \<times> nat option" where
  "getfreepos t = (case getfreepos_loop (node t) (lastfree t) of (lf, r) \<Rightarrow> (t\<lparr>lastfree := lf\<rparr>, r))"

text \<open>\<open>while (gnext(othern) != mp) othern = gnext(othern)\<close>; following a null link is
  undefined.\<close>

fun find_previous :: "'s Node list \<Rightarrow> nat \<Rightarrow> nat \<Rightarrow> nat \<Rightarrow> nat res" where
  "find_previous nd mp 0 othern = Inl OutOfFuel"
| "find_previous nd mp (Suc fuel) othern =
     (case i_next (nd ! othern) of
        None \<Rightarrow> Inl Undefined
      | Some j \<Rightarrow> if j = mp then Inr othern else find_previous nd mp fuel j)"

definition put_key :: "'s Table \<Rightarrow> nat \<Rightarrow> 's tvalue \<Rightarrow> ('s Table \<times> slot) res" where
  "put_key t mp key = Inr (t\<lparr>node := (node t)[mp := (node t ! mp)\<lparr>i_key := key\<rparr>]\<rparr>, SNode mp)"

text \<open>The colliding node moves to the free position \<open>n\<close>; its place \<open>mp\<close> becomes free.\<close>

definition move_colliding :: "'s Table \<Rightarrow> nat \<Rightarrow> nat \<Rightarrow> nat \<Rightarrow> 's Table" where
  "move_colliding t mp n prev =
     (let nd1 = (node t)[prev := (node t ! prev)\<lparr>i_next := Some n\<rparr>];
          nd2 = nd1[n := nd1 ! mp];
          nd3 = nd2[mp := (nd2 ! mp)\<lparr>i_next := None, i_val := TNil\<rparr>]
      in t\<lparr>node := nd3\<rparr>)"

definition chain_free :: "'s Table \<Rightarrow> nat \<Rightarrow> nat \<Rightarrow> 's Table" where
  "chain_free t mp n =
     (let nd1 = (node t)[n := (node t ! n)\<lparr>i_next := i_next (node t ! mp)\<rparr>];
          nd2 = nd1[mp := (nd1 ! mp)\<lparr>i_next := Some n\<rparr>]
      in t\<lparr>node := nd2\<rparr>)"

definition newkey_by :: "'s newkey_fun \<Rightarrow> 's string_view \<Rightarrow> 's newkey_fun" where
  "newkey_by nk H t key =
     (let mp = mainposition H t key
      in if \<not> ttisnil (i_val (node t ! mp)) \<or> is_dummy t then
           (case getfreepos t of
              (t1, None) \<Rightarrow> rbind (rehash nk H t1 key) (\<lambda>t2. luaH_set_by nk H t2 key)
            | (t1, Some n) \<Rightarrow>
                (let othern = mainposition H t1 (i_key (node t1 ! mp))
                 in if othern \<noteq> mp then
                      rbind (find_previous (node t1) mp (length (node t1)) othern) (\<lambda>prev.
                        put_key (move_colliding t1 mp n prev) mp key)
                    else put_key (chain_free t1 mp n) n key))
         else put_key t mp key)"

primrec newkey :: "nat \<Rightarrow> 's string_view \<Rightarrow> 's newkey_fun" where
  "newkey 0 H = (\<lambda>t key. Inl OutOfFuel)"
| "newkey (Suc fuel) H = newkey_by (newkey fuel H) H"

text \<open>A rehash inside the re-insertions of a rehash never happens, so two levels of \<open>newkey\<close>
  suffice.\<close>

definition REHASH_DEPTH :: nat where "REHASH_DEPTH = 2"

definition luaH_set :: "'s string_view \<Rightarrow> 's newkey_fun" where
  "luaH_set H = luaH_set_by (newkey REHASH_DEPTH H) H"

definition luaH_setnum :: "'s string_view \<Rightarrow> 's Table \<Rightarrow> int \<Rightarrow> ('s Table \<times> slot) res" where
  "luaH_setnum H = luaH_setnum_by (newkey REHASH_DEPTH H)"

definition luaH_setstr :: "'s string_view \<Rightarrow> 's Table \<Rightarrow> 's \<Rightarrow> ('s Table \<times> slot) res" where
  "luaH_setstr H = luaH_setstr_by (newkey REHASH_DEPTH H) H"

definition luaH_new :: "nat \<Rightarrow> nat \<Rightarrow> 's Table res" where
  "luaH_new narray nhash =
     setnodevector
       (setarrayvector
          \<lparr>flags = NOT 0, lsizenode = 0, metatable = None, array = [], sizearray = 0,
           node = [dummynode], is_dummy = True, lastfree = 0\<rparr> narray) nhash"

definition luaH_resizearray :: "'s string_view \<Rightarrow> 's Table \<Rightarrow> nat \<Rightarrow> 's Table res" where
  "luaH_resizearray H t nasize =
     resize_table (newkey REHASH_DEPTH H) H t nasize (if is_dummy t then 0 else sizenode t)"

section \<open>Boundaries\<close>

definition num_nil :: "'s Table \<Rightarrow> int \<Rightarrow> bool res" where
  "num_nil t j = rbind (luaH_getnum t j) (\<lambda>p. Inr (ttisnil (opt_val t p)))"

text \<open>The binary searches of \<open>unbound_search\<close> and \<open>luaH_getn\<close>: \<open>isnil m\<close> tells whether index
  \<open>m\<close> is absent.\<close>

function boundary_search :: "(nat \<Rightarrow> bool res) \<Rightarrow> nat \<Rightarrow> nat \<Rightarrow> nat res" where
  "boundary_search isnil i j =
     (if 1 < j - i then
        (let m = (i + j) div 2
         in rbind (isnil m) (\<lambda>b. if b then boundary_search isnil i m else boundary_search isnil m j))
      else Inr i)"
  by pat_completeness auto
termination by (relation "measure (\<lambda>(isnil, i, j). j - i)") auto

declare boundary_search.simps [simp del]

text \<open>The linear search after an overflow, bounded by the number of entries.\<close>

fun linear_search :: "'s Table \<Rightarrow> nat \<Rightarrow> nat \<Rightarrow> nat res" where
  "linear_search t 0 i = Inl OutOfFuel"
| "linear_search t (Suc fuel) i =
     rbind (num_nil t (int i)) (\<lambda>b. if b then Inr (i - 1) else linear_search t fuel (i + 1))"

function unbound_loop :: "'s Table \<Rightarrow> nat \<Rightarrow> nat \<Rightarrow> nat res" where
  "unbound_loop t i j =
     (if j = 0 \<or> MAX_INT < int j then Inl Undefined
      else rbind (num_nil t (int j)) (\<lambda>b.
        if b then boundary_search (\<lambda>m. num_nil t (int m)) i j
        else if MAX_INT < 2 * int j
             then linear_search t (sizearray t + sizenode t + 1) 1
             else unbound_loop t j (2 * j)))"
  by pat_completeness auto
termination
  by (relation "measure (\<lambda>(t, i, j). nat (MAX_INT + 1) - j)") (auto simp: MAX_INT_def INT_MAX_def)

declare unbound_loop.simps [simp del]

definition unbound_search :: "'s Table \<Rightarrow> nat \<Rightarrow> nat res" where
  "unbound_search t j = unbound_loop t j (j + 1)"

definition luaH_getn :: "'s Table \<Rightarrow> nat res" where
  "luaH_getn t =
     (let j = sizearray t
      in if 0 < j \<and> ttisnil (array t ! (j - 1))
         then boundary_search (\<lambda>m. Inr (ttisnil (array t ! (m - 1)))) 0 j
         else if is_dummy t then Inr j
         else unbound_search t j)"

end
