(* ===== verification/Chain.thy ===== *)
theory Chain
  imports Prelude
begin

text \<open>
  Linked structures whose cells are numbered: \<open>nx\<close> gives the successor of a cell, and
  \<open>chain nx p xs\<close> says that following the links from \<open>p\<close> visits exactly the cells \<open>xs\<close> and
  then stops. Used for the collision chains of tables and strings and for the list of open
  upvalues.
\<close>

fun chain :: "(nat \<Rightarrow> nat option) \<Rightarrow> nat option \<Rightarrow> nat list \<Rightarrow> bool" where
  "chain nx p [] \<longleftrightarrow> p = None"
| "chain nx p (x # xs) \<longleftrightarrow> p = Some x \<and> chain nx (nx x) xs"

lemma chain_None [simp]: "chain nx None xs \<longleftrightarrow> xs = []"
  by (cases xs) auto

lemma chain_Some: "chain nx (Some x) xs \<longleftrightarrow> (\<exists>ys. xs = x # ys \<and> chain nx (nx x) ys)"
  by (cases xs) auto

lemma chain_unique: "chain nx p xs \<Longrightarrow> chain nx p ys \<Longrightarrow> xs = ys"
  by (induction xs arbitrary: p ys) (auto simp: chain_Some)

lemma chain_suffix: "chain nx p (us @ x # vs) \<Longrightarrow> chain nx (Some x) (x # vs)"
  by (induction us arbitrary: p) auto

lemma chain_hd_notin: "chain nx (Some x) (x # xs) \<Longrightarrow> x \<notin> set xs"
proof
  assume c: "chain nx (Some x) (x # xs)" and "x \<in> set xs"
  then obtain us vs where "xs = us @ x # vs" by (meson split_list)
  then have "chain nx (Some x) (x # vs)" using c chain_suffix [of nx "Some x" "x # us"] by simp
  then have "x # xs = x # vs" using c chain_unique by blast
  then show False using \<open>xs = us @ x # vs\<close> by simp
qed

lemma chain_distinct: "chain nx p xs \<Longrightarrow> distinct xs"
proof (induction xs arbitrary: p)
  case (Cons x xs)
  then have "chain nx (Some x) (x # xs)" by simp
  then show ?case using Cons chain_hd_notin by auto
qed simp

lemma chain_cong: "(\<And>x. x \<in> set xs \<Longrightarrow> nx x = nx' x) \<Longrightarrow> chain nx p xs = chain nx' p xs"
  by (induction xs arbitrary: p) auto

lemma chain_upd_notin: "a \<notin> set xs \<Longrightarrow> chain (nx(a := v)) p xs = chain nx p xs"
  by (rule chain_cong) auto

lemma chain_link:
  "chain nx p (us @ x # y # vs) \<Longrightarrow> nx x = Some y"
  by (induction us arbitrary: p) auto

text \<open>A cell \<open>n\<close> outside the chain is inserted after \<open>a\<close>.\<close>

lemma chain_insert_after:
  assumes "chain nx p xs" and "n \<notin> set xs" and "a \<in> set xs"
    and "nx' a = Some n" and "nx' n = nx a"
    and "\<And>x. x \<in> set xs \<Longrightarrow> x \<noteq> a \<Longrightarrow> nx' x = nx x"
  shows "\<exists>ys. chain nx' p ys \<and> set ys = insert n (set xs)"
  using assms
proof (induction xs arbitrary: p)
  case (Cons x xs)
  show ?case
  proof (cases "x = a")
    case True
    with Cons.prems have "a \<notin> set xs" using chain_hd_notin by auto
    then have "chain nx' (nx a) xs"
      using Cons.prems True by (subst chain_cong [of _ _ nx]) auto
    then show ?thesis
      using Cons.prems True by (intro exI [of _ "x # n # xs"]) auto
  next
    case False
    then obtain ys where "chain nx' (nx x) ys" "set ys = insert n (set xs)"
      using Cons by force
    then show ?thesis using Cons.prems False by (intro exI [of _ "x # ys"]) auto
  qed
qed simp

text \<open>A cell \<open>m\<close> of the chain, reached from \<open>a\<close>, is replaced by the outside cell \<open>n\<close>.\<close>

lemma chain_replace:
  assumes "chain nx p xs" and "n \<notin> set xs" and "m \<in> set xs" and "p \<noteq> Some m"
    and am: "nx a = Some m" and "\<And>x. x \<in> set xs \<Longrightarrow> nx x = Some m \<Longrightarrow> x = a"
    and an: "nx' a = Some n" and nm: "nx' n = nx m"
    and "\<And>x. x \<in> set xs \<Longrightarrow> x \<noteq> a \<Longrightarrow> x \<noteq> m \<Longrightarrow> nx' x = nx x"
  shows "\<exists>ys. chain nx' p ys \<and> set ys = insert n (set xs - {m})"
  using assms(1-4) assms(6) assms(9)
proof (induction xs arbitrary: p)
  case (Cons x xs)
  then have xm: "x \<noteq> m" and px: "p = Some x" and c: "chain nx (nx x) xs" by auto
  have d: "distinct (x # xs)" using Cons.prems(1) chain_distinct by blast
  show ?case
  proof (cases "nx x = Some m")
    case True
    then have xa: "x = a" using Cons.prems(5) by simp
    obtain zs where xs: "xs = m # zs" and cz: "chain nx (nx m) zs"
      using c True by (auto simp: chain_Some)
    have "chain nx' (nx m) zs = chain nx (nx m) zs"
      using Cons.prems(6) d xs xa by (intro chain_cong) auto
    then have "chain nx' p (x # n # zs)" using px xa an nm cz by simp
    moreover have "set (x # n # zs) = insert n (set (x # xs) - {m})"
      using d xs by auto
    ultimately show ?thesis by blast
  next
    case False
    then have xa: "x \<noteq> a" using am by auto
    have "\<exists>ys. chain nx' (nx x) ys \<and> set ys = insert n (set xs - {m})"
      using Cons.prems xm False by (intro Cons.IH c) auto
    then obtain ys where ys: "chain nx' (nx x) ys" "set ys = insert n (set xs - {m})" by blast
    have "nx' x = nx x" using Cons.prems(6) [of x] xa xm by simp
    then have "chain nx' p (x # ys)" using px ys(1) by simp
    moreover have "set (x # ys) = insert n (set (x # xs) - {m})" using ys(2) xm by auto
    ultimately show ?thesis by blast
  qed
qed simp

end
