(* ===== verification/LTableNodes.thy ===== *)
theory LTableNodes
  imports LTable Chain
begin

text \<open>
  The node vector of a table: its invariant and what insertion does to it. The invariant
  contains the one stated at the head of \<open>ltable.c\<close>: a node holding a key out of its main
  position shares its chain with a node that holds its own main position. The locale
  \<open>key_hashing\<close> is the contract between keys and the scatter table: key equality is an
  equivalence on the keys that may be stored and equal keys have the same main position.
\<close>

section \<open>The hashing contract\<close>

locale key_hashing =
  fixes eq :: "'k \<Rightarrow> 'k \<Rightarrow> bool"
    and main :: "nat \<Rightarrow> 'k \<Rightarrow> nat"
  assumes eq_sym: "eq a b \<Longrightarrow> eq b a"
    and eq_trans: "eq a b \<Longrightarrow> eq b c \<Longrightarrow> eq a c"
    and main_cong: "eq a b \<Longrightarrow> main l a = main l b"
    and main_less: "main l a < 2 ^ l"
begin

lemma eq_cong_right: "eq a b \<Longrightarrow> eq c a \<longleftrightarrow> eq c b"
  using eq_sym eq_trans by blast

lemma eq_cong_left: "eq a b \<Longrightarrow> eq a c \<longleftrightarrow> eq b c"
  using eq_sym eq_trans by blast

lemma eq_join: "eq a c \<Longrightarrow> eq b c \<Longrightarrow> eq a b"
  using eq_sym eq_trans by blast

text \<open>Two keys with different main positions are different.\<close>

lemma main_neq: "main l a \<noteq> main l b \<Longrightarrow> \<not> eq a b"
  using main_cong by blast

end

lemma odd_or_one: "0 < l \<Longrightarrow> (2 ^ l - 1 :: int) OR 1 = 2 ^ l - 1"
  by (simp add: or_one_eq)

lemma hashmod_less: "hashmod l n < 2 ^ l"
proof (cases "l = 0")
  case True
  then show ?thesis by (simp add: hashmod_def)
next
  case False
  then have p: "(0::int) < 2 ^ l - 1" by simp
  then have "uint n mod (2 ^ l - 1) < 2 ^ l - 1" by (rule pos_mod_bound)
  moreover have "0 \<le> uint n mod (2 ^ l - 1)" using p by (rule pos_mod_sign)
  ultimately have "nat (uint n mod (2 ^ l - 1)) < 2 ^ l" by (simp add: nat_less_iff)
  then show ?thesis using False by (simp add: hashmod_def odd_or_one)
qed

lemma mainpos_less: "mainpos H l k < 2 ^ l"
  by (cases "(H, l, k)" rule: mainpos.cases)
    (auto simp: hashnum_def hashpow2_def hashpointer_def lmod_less hashmod_less)

lemma num_zero_iff: "luai_numeq n (cast_num 0) \<longleftrightarrow> dbl_mag n = 0"
proof -
  have "cast_num 0 = 0" by (simp add: cast_num_def dbl_mag_of_int_def)
  then have z: "dbl_key (cast_num 0) = 0" "\<not> luai_numisnan (cast_num 0)"
    by (simp_all add: dbl_key_def dbl_mag_def luai_numisnan_def)
  show ?thesis using z by (auto simp: luai_numeq_def dbl_key_def [of n] luai_numisnan_def [of n])
qed

lemma word64_parts: "dbl_mag a = dbl_mag b \<Longrightarrow> dbl_neg a = dbl_neg b \<Longrightarrow> a = b"
proof -
  assume m: "dbl_mag a = dbl_mag b" and n: "dbl_neg a = dbl_neg b"
  have d: "uint x = dbl_mag x + (if dbl_neg x then 2 ^ 63 else 0)" for x :: lua_Number
  proof (cases "dbl_neg x")
    case True
    then have "2 ^ 63 \<le> uint x" by (simp add: dbl_neg_def)
    moreover have "uint x < 2 ^ 64" using uint_lt2p [of x] by simp
    ultimately have "(uint x - 2 ^ 63) mod 2 ^ 63 = uint x - 2 ^ 63"
      by (intro mod_pos_pos_trivial) simp_all
    then have "uint x mod 2 ^ 63 = uint x - 2 ^ 63" by (simp only: minus_mod_self2)
    then show ?thesis using True by (simp add: dbl_mag_def)
  next
    case False
    then show ?thesis by (simp add: dbl_mag_def dbl_neg_def mod_pos_pos_trivial)
  qed
  show ?thesis using d [of a] d [of b] m n by (simp add: word_uint_eq_iff)
qed

lemma hashnum_cong: "luai_numeq a b \<Longrightarrow> hashnum l a = hashnum l b"
proof -
  assume e: "luai_numeq a b"
  then have m: "dbl_mag a = dbl_mag b" by (auto simp: luai_numeq_def dest: dbl_key_eq_mag)
  show ?thesis
  proof (cases "dbl_mag a = 0")
    case True
    then show ?thesis using m by (simp add: hashnum_def num_zero_iff)
  next
    case False
    then have "dbl_neg a = dbl_neg b" using e by (auto simp: luai_numeq_def dest: dbl_key_eq_neg)
    then show ?thesis using m word64_parts by blast
  qed
qed

lemma mainpos_cong: "luaO_rawequalObj a b \<Longrightarrow> mainpos H l a = mainpos H l b"
  by (cases a; cases b) (auto intro: hashnum_cong)

interpretation lua_key: key_hashing luaO_rawequalObj "mainpos H" for H :: "'s string_view"
  by unfold_locales
    (auto simp: rawequal_sym intro: rawequal_trans mainpos_cong mainpos_less)

section \<open>The node invariant\<close>

definition proper :: "'s tvalue \<Rightarrow> bool" where
  "proper k \<longleftrightarrow> (case k of TNil \<Rightarrow> False | TDeadKey _ \<Rightarrow> False | _ \<Rightarrow> True)"

lemma proper_simps [simp]:
  "\<not> proper TNil" "\<not> proper (TDeadKey g)" "proper (TNumber n)" "proper (TBoolean b)"
  "proper (TLightUserdata p)" "proper (TGC c)"
  by (simp_all add: proper_def)

lemma rawequal_proper: "luaO_rawequalObj a b \<Longrightarrow> proper a \<longleftrightarrow> proper b"
  by (cases a; cases b) auto

abbreviation key_at :: "'s Node list \<Rightarrow> nat \<Rightarrow> 's tvalue" where "key_at nd i \<equiv> i_key (nd ! i)"
abbreviation val_at :: "'s Node list \<Rightarrow> nat \<Rightarrow> 's tvalue" where "val_at nd i \<equiv> i_val (nd ! i)"

definition nx :: "'s Node list \<Rightarrow> nat \<Rightarrow> nat option" where
  "nx nd i = (if i < length nd then i_next (nd ! i) else None)"

definition links_ok :: "'s Node list \<Rightarrow> bool" where
  "links_ok nd \<longleftrightarrow>
     (\<forall>i<length nd. \<forall>j. i_next (nd ! i) = Some j \<longrightarrow> j < length nd) \<and>
     (\<forall>i<length nd. \<exists>xs. chain (nx nd) (Some i) xs) \<and>
     (\<forall>i<length nd. \<forall>j<length nd. \<forall>k. i_next (nd ! i) = Some k \<longrightarrow> i_next (nd ! j) = Some k \<longrightarrow> i = j) \<and>
     (\<forall>i<length nd. key_at nd i = TNil \<longrightarrow>
        i_next (nd ! i) = None \<and> (\<forall>j<length nd. i_next (nd ! j) \<noteq> Some i))"

definition reaches :: "'s Node list \<Rightarrow> nat \<Rightarrow> nat \<Rightarrow> bool" where
  "reaches nd p i \<longleftrightarrow> (\<exists>xs. chain (nx nd) (Some p) xs \<and> i \<in> set xs)"

definition keys_ok :: "('s tvalue \<Rightarrow> nat) \<Rightarrow> 's Node list \<Rightarrow> bool" where
  "keys_ok mp nd \<longleftrightarrow>
     (\<forall>i<length nd. proper (key_at nd i) \<longrightarrow>
        reaches nd (mp (key_at nd i)) i \<and>
        key_at nd (mp (key_at nd i)) \<noteq> TNil \<and>
        (proper (key_at nd (mp (key_at nd i))) \<longrightarrow>
           mp (key_at nd (mp (key_at nd i))) = mp (key_at nd i))) \<and>
     (\<forall>i<length nd. \<not> proper (key_at nd i) \<longrightarrow> val_at nd i = TNil) \<and>
     (\<forall>i<length nd. \<forall>j<length nd. proper (key_at nd i) \<longrightarrow>
        luaO_rawequalObj (key_at nd i) (key_at nd j) \<longrightarrow> i = j) \<and>
     (\<forall>i<length nd. \<not> is_nan_value (key_at nd i))"

definition free_ok :: "'s Node list \<Rightarrow> int \<Rightarrow> bool" where
  "free_ok nd lf \<longleftrightarrow> lf \<le> int (length nd) \<and> (\<forall>i<length nd. lf \<le> int i \<longrightarrow> key_at nd i \<noteq> TNil)"

text \<open>The entries a node vector holds.\<close>

definition entries :: "'s Node list \<Rightarrow> ('s tvalue \<times> 's tvalue) set" where
  "entries nd = {(key_at nd i, val_at nd i) | i. i < length nd \<and> val_at nd i \<noteq> TNil}"

lemma entries_subset:
  assumes "\<And>i. i < length nd \<Longrightarrow> val_at nd i \<noteq> TNil \<Longrightarrow>
      \<exists>j<length nd'. key_at nd' j = key_at nd i \<and> val_at nd' j = val_at nd i"
  shows "entries nd \<subseteq> entries nd'"
proof
  fix e assume "e \<in> entries nd"
  then obtain i where "i < length nd" "val_at nd i \<noteq> TNil" "e = (key_at nd i, val_at nd i)"
    by (auto simp: entries_def)
  then obtain j where "j < length nd'" "e = (key_at nd' j, val_at nd' j)" "val_at nd' j \<noteq> TNil"
    using assms [of i] by auto
  then show "e \<in> entries nd'" by (auto simp: entries_def)
qed

definition nil_keys :: "'s Node list \<Rightarrow> nat" where
  "nil_keys nd = length (filter (\<lambda>n. ttisnil (i_key n)) nd)"


lemma nx_key_upd:
  "m < length nd \<Longrightarrow> nx (nd[m := (nd ! m)\<lparr>i_key := k\<rparr>]) = nx nd"
  by (rule ext) (auto simp: nx_def nth_list_update)

lemma nx_val_upd:
  "m < length nd \<Longrightarrow> nx (nd[m := (nd ! m)\<lparr>i_val := v\<rparr>]) = nx nd"
  by (rule ext) (auto simp: nx_def nth_list_update)

lemma key_at_val_upd [simp]: "key_at (nd[i := (nd ! i)\<lparr>i_val := v\<rparr>]) j = key_at nd j"
  by (cases "i < length nd"; cases "i = j") (auto simp: list_update_beyond)

lemma reaches_key_upd:
  "m < length nd \<Longrightarrow> reaches (nd[m := (nd ! m)\<lparr>i_key := k\<rparr>]) = reaches nd"
  by (intro ext) (simp add: reaches_def nx_key_upd)

lemma reaches_val_upd:
  "m < length nd \<Longrightarrow> reaches (nd[m := (nd ! m)\<lparr>i_val := v\<rparr>]) = reaches nd"
  by (intro ext) (simp add: reaches_def nx_val_upd)

lemma reachesI: "chain (nx nd) (Some p) xs \<Longrightarrow> i \<in> set xs \<Longrightarrow> reaches nd p i"
  by (auto simp: reaches_def)

lemma reaches_refl: "links_ok nd \<Longrightarrow> i < length nd \<Longrightarrow> reaches nd i i"
  unfolding links_ok_def reaches_def by (metis chain_Some list.set_intros(1))

text \<open>Introduction and elimination rules, one conjunct each.\<close>

lemma links_okI [wf_intros]:
  assumes "\<And>i j. i < length nd \<Longrightarrow> i_next (nd ! i) = Some j \<Longrightarrow> j < length nd"
    and "\<And>i. i < length nd \<Longrightarrow> \<exists>xs. chain (nx nd) (Some i) xs"
    and "\<And>i j k. i < length nd \<Longrightarrow> j < length nd \<Longrightarrow> i_next (nd ! i) = Some k \<Longrightarrow>
        i_next (nd ! j) = Some k \<Longrightarrow> i = j"
    and "\<And>i. i < length nd \<Longrightarrow> key_at nd i = TNil \<Longrightarrow> i_next (nd ! i) = None"
    and "\<And>i j. i < length nd \<Longrightarrow> key_at nd i = TNil \<Longrightarrow> j < length nd \<Longrightarrow> i_next (nd ! j) \<noteq> Some i"
  shows "links_ok nd"
  unfolding links_ok_def using assms by blast

lemma links_okD:
  assumes "links_ok nd"
  shows "i < length nd \<Longrightarrow> i_next (nd ! i) = Some j \<Longrightarrow> j < length nd"
    and "i < length nd \<Longrightarrow> \<exists>xs. chain (nx nd) (Some i) xs"
    and "i < length nd \<Longrightarrow> j < length nd \<Longrightarrow> i_next (nd ! i) = Some k \<Longrightarrow>
        i_next (nd ! j) = Some k \<Longrightarrow> i = j"
    and "i < length nd \<Longrightarrow> key_at nd i = TNil \<Longrightarrow> i_next (nd ! i) = None"
    and "i < length nd \<Longrightarrow> key_at nd i = TNil \<Longrightarrow> j < length nd \<Longrightarrow> i_next (nd ! j) \<noteq> Some i"
proof -
  note c = assms [unfolded links_ok_def]
  show "i < length nd \<Longrightarrow> i_next (nd ! i) = Some j \<Longrightarrow> j < length nd"
    using c [THEN conjunct1] by blast
  show "i < length nd \<Longrightarrow> \<exists>xs. chain (nx nd) (Some i) xs"
    using c [THEN conjunct2, THEN conjunct1] by blast
  show "i < length nd \<Longrightarrow> j < length nd \<Longrightarrow> i_next (nd ! i) = Some k \<Longrightarrow>
      i_next (nd ! j) = Some k \<Longrightarrow> i = j"
    using c [THEN conjunct2, THEN conjunct2, THEN conjunct1] by blast
  show "i < length nd \<Longrightarrow> key_at nd i = TNil \<Longrightarrow> i_next (nd ! i) = None"
    and "i < length nd \<Longrightarrow> key_at nd i = TNil \<Longrightarrow> j < length nd \<Longrightarrow> i_next (nd ! j) \<noteq> Some i"
    using c [THEN conjunct2, THEN conjunct2, THEN conjunct2] by blast+
qed

lemma keys_okI [wf_intros]:
  assumes "\<And>i. i < length nd \<Longrightarrow> proper (key_at nd i) \<Longrightarrow> reaches nd (mp (key_at nd i)) i"
    and "\<And>i. i < length nd \<Longrightarrow> proper (key_at nd i) \<Longrightarrow> key_at nd (mp (key_at nd i)) \<noteq> TNil"
    and "\<And>i. i < length nd \<Longrightarrow> proper (key_at nd i) \<Longrightarrow> proper (key_at nd (mp (key_at nd i))) \<Longrightarrow>
        mp (key_at nd (mp (key_at nd i))) = mp (key_at nd i)"
    and "\<And>i. i < length nd \<Longrightarrow> \<not> proper (key_at nd i) \<Longrightarrow> val_at nd i = TNil"
    and "\<And>i j. i < length nd \<Longrightarrow> j < length nd \<Longrightarrow> proper (key_at nd i) \<Longrightarrow>
        luaO_rawequalObj (key_at nd i) (key_at nd j) \<Longrightarrow> i = j"
    and "\<And>i. i < length nd \<Longrightarrow> \<not> is_nan_value (key_at nd i)"
  shows "keys_ok mp nd"
  unfolding keys_ok_def using assms by blast

lemma keys_okD:
  assumes "keys_ok mp nd"
  shows "i < length nd \<Longrightarrow> proper (key_at nd i) \<Longrightarrow> reaches nd (mp (key_at nd i)) i"
    and "i < length nd \<Longrightarrow> proper (key_at nd i) \<Longrightarrow> key_at nd (mp (key_at nd i)) \<noteq> TNil"
    and "i < length nd \<Longrightarrow> proper (key_at nd i) \<Longrightarrow> proper (key_at nd (mp (key_at nd i))) \<Longrightarrow>
        mp (key_at nd (mp (key_at nd i))) = mp (key_at nd i)"
    and "i < length nd \<Longrightarrow> \<not> proper (key_at nd i) \<Longrightarrow> val_at nd i = TNil"
    and "i < length nd \<Longrightarrow> j < length nd \<Longrightarrow> proper (key_at nd i) \<Longrightarrow>
        luaO_rawequalObj (key_at nd i) (key_at nd j) \<Longrightarrow> i = j"
    and "i < length nd \<Longrightarrow> \<not> is_nan_value (key_at nd i)"
proof -
  note c = assms [unfolded keys_ok_def]
  note c1 = c [THEN conjunct1, rule_format]
  show "i < length nd \<Longrightarrow> proper (key_at nd i) \<Longrightarrow> reaches nd (mp (key_at nd i)) i"
    using c1 [of i] by (simp only: simp_thms)
  show "i < length nd \<Longrightarrow> proper (key_at nd i) \<Longrightarrow> key_at nd (mp (key_at nd i)) \<noteq> TNil"
    using c1 [of i] by (simp only: simp_thms)
  show "i < length nd \<Longrightarrow> proper (key_at nd i) \<Longrightarrow> proper (key_at nd (mp (key_at nd i))) \<Longrightarrow>
      mp (key_at nd (mp (key_at nd i))) = mp (key_at nd i)"
    using c1 [of i] by (simp only: simp_thms)
  show "i < length nd \<Longrightarrow> \<not> proper (key_at nd i) \<Longrightarrow> val_at nd i = TNil"
    using c [THEN conjunct2, THEN conjunct1] by blast
  show "i < length nd \<Longrightarrow> j < length nd \<Longrightarrow> proper (key_at nd i) \<Longrightarrow>
      luaO_rawequalObj (key_at nd i) (key_at nd j) \<Longrightarrow> i = j"
    using c [THEN conjunct2, THEN conjunct2, THEN conjunct1] by blast
  show "i < length nd \<Longrightarrow> \<not> is_nan_value (key_at nd i)"
    using c [THEN conjunct2, THEN conjunct2, THEN conjunct2] by blast
qed

lemma chain_in_range:
  "links_ok nd \<Longrightarrow> chain (nx nd) p xs \<Longrightarrow> (\<And>i. p = Some i \<Longrightarrow> i < length nd) \<Longrightarrow> set xs \<subseteq> {..<length nd}"
proof (induction xs arbitrary: p)
  case (Cons x xs)
  then have x: "x < length nd" by auto
  have "set xs \<subseteq> {..<length nd}"
  proof (rule Cons.IH [of "nx nd x"])
    show "links_ok nd" by fact
    show "chain (nx nd) (nx nd x) xs" using Cons.prems(2) by simp
    show "i < length nd" if "nx nd x = Some i" for i
      using that x links_okD(1) [OF Cons.prems(1), of x i] by (simp add: nx_def)
  qed
  then show ?case using x by simp
qed simp

lemma nil_key_not_in_chain:
  assumes "links_ok nd" and "chain (nx nd) (Some p) xs" and "p < length nd"
    and "key_at nd n = TNil" and "n < length nd" and "n \<noteq> p"
  shows "n \<notin> set xs"
proof
  assume "n \<in> set xs"
  then obtain us vs where xs: "xs = us @ n # vs" by (meson split_list)
  then have "us \<noteq> []" using assms(2,6) by (cases us) auto
  then obtain us' a where us: "us = us' @ [a]" by (meson rev_exhaust)
  then have "nx nd a = Some n"
    using chain_link [of "nx nd" "Some p" us' a n vs] assms(2) xs by simp
  then have "a < length nd" "i_next (nd ! a) = Some n" by (simp_all add: nx_def split: if_splits)
  then show False using links_okD(5) [OF assms(1) assms(5,4)] by simp
qed

definition fresh_key :: "'s Node list \<Rightarrow> 's tvalue \<Rightarrow> bool" where
  "fresh_key nd k \<longleftrightarrow> proper k \<and> \<not> is_nan_value k \<and>
     (\<forall>i<length nd. \<not> luaO_rawequalObj (key_at nd i) k)"

lemma fresh_key_neq:
  "fresh_key nd k \<Longrightarrow> i < length nd \<Longrightarrow> \<not> luaO_rawequalObj (key_at nd i) k"
  "fresh_key nd k \<Longrightarrow> i < length nd \<Longrightarrow> \<not> luaO_rawequalObj k (key_at nd i)"
  by (auto simp: fresh_key_def rawequal_sym)

section \<open>Insertion\<close>

locale node_vector =
  fixes mp :: "'s tvalue \<Rightarrow> nat" and N :: nat
  assumes mp_less: "mp k < N"
    and mp_cong: "luaO_rawequalObj a b \<Longrightarrow> mp a = mp b"
begin

lemma set_val_ok:
  assumes "links_ok nd" and "keys_ok mp nd" and "length nd = N" and "m < N"
    and "proper (key_at nd m)" and nd': "nd' = nd[m := (nd ! m)\<lparr>i_val := v\<rparr>]"
  shows "links_ok nd'" and "keys_ok mp nd'"
proof -
  have l: "length nd' = length nd" by (simp add: nd')
  have k: "key_at nd' i = key_at nd i" and n: "i_next (nd' ! i) = i_next (nd ! i)"
    and v: "val_at nd' i = (if i = m then v else val_at nd i)" if "i < length nd" for i
    using that assms(3,4) by (auto simp: nd' nth_list_update)
  have nx: "nx nd' = nx nd" and r: "reaches nd' = reaches nd"
    using assms(3,4) by (simp_all add: nd' nx_val_upd reaches_val_upd)
  have mpl: "mp k < length nd" for k using mp_less assms(3) by simp
  note D = links_okD [OF assms(1)] and K = keys_okD [OF assms(2)]
  show "links_ok nd'"
  proof (rule links_okI, goal_cases)
    case (1 i j) then show ?case using D(1) [of i j] by (simp add: l n)
  next
    case (2 i) then show ?case using D(2) [of i] by (simp add: l nx)
  next
    case (3 i j k) then show ?case using D(3) [of i j k] by (simp add: l n)
  next
    case (4 i) then show ?case using D(4) [of i] by (simp add: l n k)
  next
    case (5 i j) then show ?case using D(5) [of i j] by (simp add: l n k)
  qed
  show "keys_ok mp nd'"
  proof (rule keys_okI, goal_cases)
    case (1 i) then show ?case using K(1) [of i] by (simp add: l k r)
  next
    case (2 i) then show ?case using K(2) [of i] by (simp add: l k mpl)
  next
    case (3 i) then show ?case using K(3) [of i] by (simp add: l k mpl)
  next
    case (4 i) then show ?case using K(4) [of i] assms(5) by (auto simp: l k v)
  next
    case (5 i j) then show ?case using K(5) [of i j] by (simp add: l k)
  next
    case (6 i) then show ?case using K(6) [of i] by (simp add: l k)
  qed
qed

text \<open>The main position is free: the key is stored there.\<close>

lemma put_main_ok:
  assumes "links_ok nd" and "keys_ok mp nd" and "length nd = N" and "fresh_key nd k"
    and "val_at nd (mp k) = TNil" and nd': "nd' = nd[mp k := (nd ! mp k)\<lparr>i_key := k\<rparr>]"
  shows "links_ok nd'" and "keys_ok mp nd'" and "entries nd' = entries nd"
proof -
  define m where "m = mp k"
  have m: "m < length nd" using mp_less assms(3) by (simp add: m_def)
  have l: "length nd' = length nd" by (simp add: nd')
  have key: "key_at nd' i = (if i = m then k else key_at nd i)"
    and n: "i_next (nd' ! i) = i_next (nd ! i)" and v: "val_at nd' i = val_at nd i"
    if "i < length nd" for i
    using that m by (auto simp: nd' nth_list_update m_def)
  have nx: "nx nd' = nx nd" and r: "reaches nd' = reaches nd"
    using m by (simp_all add: nd' m_def nx_key_upd reaches_key_upd)
  have mpl: "mp k < length nd" for k using mp_less assms(3) by simp
  have pk: "proper k" "k \<noteq> TNil" "\<not> is_nan_value k" using assms(4) by (auto simp: fresh_key_def)
  note D = links_okD [OF assms(1)] and K = keys_okD [OF assms(2)]
    and F = fresh_key_neq [OF assms(4)]
  have mm: "mp k = m" by (simp add: m_def)
  show "links_ok nd'"
  proof (rule links_okI, goal_cases)
    case (1 i j) then show ?case using D(1) [of i j] by (simp add: l n)
  next
    case (2 i) then show ?case using D(2) [of i] by (simp add: l nx)
  next
    case (3 i j k) then show ?case using D(3) [of i j k] by (simp add: l n)
  next
    case (4 i) then show ?case using D(4) [of i] pk by (simp add: l n key split: if_splits)
  next
    case (5 i j) then show ?case using D(5) [of i j] pk by (simp add: l n key split: if_splits)
  qed
  show "keys_ok mp nd'"
  proof (rule keys_okI, goal_cases)
    case (1 i) then show ?case
      using K(1) [of i] reaches_refl [OF assms(1) m] by (simp add: l key r mm split: if_splits)
  next
    case (2 i) then show ?case using K(2) [of i] pk by (simp add: l key mpl mm split: if_splits)
  next
    case (3 i) then show ?case
      using K(3) [of i] by (cases "i = m"; cases "mp (key_at nd i) = m") (simp_all add: l key mpl mm m)
  next
    case (4 i) then show ?case using K(4) [of i] pk by (simp add: l key v split: if_splits)
  next
    case (5 i j) then show ?case
      using K(5) [of i j] F(1) [of i] F(2) [of j] by (simp add: l key split: if_splits)
  next
    case (6 i) then show ?case using K(6) [of i] pk by (simp add: l key split: if_splits)
  qed
  show "entries nd' = entries nd"
  proof (intro equalityI entries_subset)
    fix i assume "i < length nd" "val_at nd i \<noteq> TNil"
    then show "\<exists>j<length nd'. key_at nd' j = key_at nd i \<and> val_at nd' j = val_at nd i"
      using assms(5) by (intro exI [of _ i]) (auto simp: l key v mm)
  next
    fix i assume "i < length nd'" "val_at nd' i \<noteq> TNil"
    then show "\<exists>j<length nd. key_at nd j = key_at nd' i \<and> val_at nd j = val_at nd' i"
      using assms(5) by (intro exI [of _ i]) (auto simp: l key v mm)
  qed
qed

text \<open>The main position \<open>m\<close> holds a key that belongs there: the new key goes to the free
  node \<open>n\<close>, which is linked after \<open>m\<close>.\<close>

lemma insert_after_ok:
  assumes "links_ok nd" and "keys_ok mp nd" and "length nd = N" and "fresh_key nd k"
    and m: "mp k = m" and n: "n < N" and nn: "key_at nd n = TNil"
    and mm: "proper (key_at nd m)" "mp (key_at nd m) = m"
    and l: "length nd' = length nd"
    and key: "\<And>i. i < length nd \<Longrightarrow> key_at nd' i = (if i = n then k else key_at nd i)"
    and val: "\<And>i. i < length nd \<Longrightarrow> val_at nd' i = val_at nd i"
    and nxt: "\<And>i. i < length nd \<Longrightarrow> i_next (nd' ! i) =
        (if i = m then Some n else if i = n then i_next (nd ! m) else i_next (nd ! i))"
  shows "links_ok nd'" and "keys_ok mp nd'" and "entries nd' = entries nd"
proof -
  have ml: "m < length nd" and nl: "n < length nd" and mpl: "mp k < length nd" for k
    using mp_less n assms(3) m by auto
  have mn: "m \<noteq> n" using mm nn by auto
  have pk: "proper k" "k \<noteq> TNil" "\<not> is_nan_value k" using assms(4) by (auto simp: fresh_key_def)
  note D = links_okD [OF assms(1)] and K = keys_okD [OF assms(2)]
    and F = fresh_key_neq [OF assms(4)]
  have nx: "nx nd' i = (if i = m then Some n else if i = n then nx nd m else nx nd i)" for i
    using nxt [of i] l ml nl by (auto simp: nx_def)
  have ch: "\<exists>ys. chain (nx nd') (Some i) ys \<and> set xs \<subseteq> set ys \<and> (m \<in> set xs \<longrightarrow> n \<in> set ys)"
    if i: "i < length nd" "i \<noteq> n" and c: "chain (nx nd) (Some i) xs" for i xs
  proof -
    have nxs: "n \<notin> set xs" using nil_key_not_in_chain [OF assms(1) c i(1) nn nl] i(2) by simp
    show ?thesis
    proof (cases "m \<in> set xs")
      case True
      have "\<exists>ys. chain (nx nd') (Some i) ys \<and> set ys = insert n (set xs)"
        using nxs mn by (intro chain_insert_after [OF c nxs True]) (auto simp: nx)
      then show ?thesis by auto
    next
      case False
      then have "chain (nx nd') (Some i) xs = chain (nx nd) (Some i) xs"
        using nxs by (intro chain_cong) (auto simp: nx)
      then show ?thesis using c False by blast
    qed
  qed
  obtain ms where ms: "chain (nx nd) (Some m) (m # ms)"
    using D(2) [OF ml] by (auto simp: chain_Some)
  have nms: "n \<notin> set ms" "m \<notin> set ms"
    using nil_key_not_in_chain [OF assms(1) ms ml nn nl] mn chain_distinct [OF ms] by auto
  have "chain (nx nd') (nx nd m) ms = chain (nx nd) (nx nd m) ms"
    using nms by (intro chain_cong) (auto simp: nx)
  then have cn: "chain (nx nd') (Some n) (n # ms)" and cm: "chain (nx nd') (Some m) (m # n # ms)"
    using ms mn by (simp_all add: nx)
  have r: "reaches nd' p i" if "reaches nd p i" "p < length nd" "p \<noteq> n" for p i
    using that ch unfolding reaches_def by blast
  show "links_ok nd'"
  proof (rule links_okI, goal_cases)
    case (1 i j) then show ?case
      using D(1) [of i j] D(1) [of m j] nl ml by (simp add: l nxt split: if_splits)
  next
    case (2 i)
    then obtain xs where "chain (nx nd) (Some i) xs" using D(2) [of i] by (auto simp: l)
    then show ?case using 2 ch [of i xs] cn by (cases "i = n") (simp only: l, blast)+
  next
    case (3 i j c) then show ?case
      using D(3) [of i j c] D(3) [of m j c] D(3) [of i m c] D(5) [OF nl nn] ml nl mn
      by (auto simp: l nxt split: if_splits)
  next
    case (4 i) then show ?case using D(4) [of i] mm pk by (auto simp: l nxt key split: if_splits)
  next
    case (5 i j) then show ?case
      using D(5) [of i j] D(5) [of i m] ml pk by (auto simp: l nxt key split: if_splits)
  qed
  have pn: "mp (key_at nd i) \<noteq> n" if "i < length nd" "proper (key_at nd i)" for i
    using K(2) [OF that] nn by auto
  show "keys_ok mp nd'"
  proof (rule keys_okI, goal_cases)
    case (1 i)
    show ?case
    proof (cases "i = n")
      case True
      have "reaches nd' m n" using cm by (rule reachesI) simp
      then show ?thesis using True m nl by (simp add: key)
    next
      case False
      then show ?thesis using 1 K(1) [of i] pn [of i] mpl by (auto simp: key l intro: r)
    qed
  next
    case (2 i) then show ?case
      using K(2) [of i] pk mm ml by (auto simp: l key mpl m split: if_splits)
  next
    case (3 i) then show ?case
      using K(3) [of i] pn [of i] mm ml mn by (auto simp: l key mpl m split: if_splits)
  next
    case (4 i) then show ?case using K(4) [of i] pk by (simp add: l key val split: if_splits)
  next
    case (5 i j) then show ?case
      using K(5) [of i j] F(1) [of i] F(2) [of j] by (simp add: l key split: if_splits)
  next
    case (6 i) then show ?case using K(6) [of i] pk by (simp add: l key split: if_splits)
  qed
  have vn: "val_at nd n = TNil" using K(4) [OF nl] nn by simp
  show "entries nd' = entries nd"
  proof (intro equalityI entries_subset)
    fix i assume "i < length nd" "val_at nd i \<noteq> TNil"
    then show "\<exists>j<length nd'. key_at nd' j = key_at nd i \<and> val_at nd' j = val_at nd i"
      using vn by (intro exI [of _ i]) (auto simp: l key val)
  next
    fix i assume "i < length nd'" "val_at nd' i \<noteq> TNil"
    then show "\<exists>j<length nd. key_at nd j = key_at nd' i \<and> val_at nd j = val_at nd' i"
      using vn by (intro exI [of _ i]) (auto simp: l key val)
  qed
qed

text \<open>The main position \<open>m\<close> holds a key whose main position is elsewhere: that node moves to
  the free node \<open>n\<close>, its predecessor \<open>prev\<close> is relinked, and the new key takes \<open>m\<close>.\<close>

lemma move_ok:
  assumes "links_ok nd" and "keys_ok mp nd" and "length nd = N" and "fresh_key nd k"
    and m: "mp k = m" and n: "n < N" and nn: "key_at nd n = TNil"
    and mm: "proper (key_at nd m)" "mp (key_at nd m) \<noteq> m"
    and prev: "prev < N" "i_next (nd ! prev) = Some m"
    and l: "length nd' = length nd"
    and key: "\<And>i. i < length nd \<Longrightarrow> key_at nd' i =
        (if i = m then k else if i = n then key_at nd m else key_at nd i)"
    and val: "\<And>i. i < length nd \<Longrightarrow> val_at nd' i =
        (if i = m then TNil else if i = n then val_at nd m else val_at nd i)"
    and nxt: "\<And>i. i < length nd \<Longrightarrow> i_next (nd' ! i) =
        (if i = m then None else if i = n then i_next (nd ! m)
         else if i = prev then Some n else i_next (nd ! i))"
  shows "links_ok nd'" and "keys_ok mp nd'" and "entries nd' = entries nd"
proof -
  have ml: "m < length nd" and nl: "n < length nd" and pl: "prev < length nd"
    and mpl: "mp k < length nd" for k
    using mp_less n assms(3) m prev by auto
  have mn: "m \<noteq> n" using mm nn by auto
  have pk: "proper k" "k \<noteq> TNil" "\<not> is_nan_value k" using assms(4) by (auto simp: fresh_key_def)
  note D = links_okD [OF assms(1)] and K = keys_okD [OF assms(2)]
    and F = fresh_key_neq [OF assms(4)]
  have prn: "prev \<noteq> n" using D(4) [OF nl nn] prev by auto
  have pm: "nx nd prev = Some m" using prev pl by (simp add: nx_def)
  obtain ps where ps: "chain (nx nd) (Some prev) (prev # ps)"
    using D(2) [OF pl] by (auto simp: chain_Some)
  have "m \<in> set ps" using ps prev pl by (cases ps) (auto simp: nx_def)
  then have prm: "prev \<noteq> m" using chain_distinct [OF ps] by auto
  have nx: "nx nd' i = (if i = m then None else if i = n then nx nd m
      else if i = prev then Some n else nx nd i)" for i
    using nxt [of i] l ml nl pl by (auto simp: nx_def)
  have only: "x = prev" if "nx nd x = Some m" for x
    using that D(3) [of x prev m] prev pl by (auto simp: nx_def split: if_splits)
  have ch: "\<exists>ys. chain (nx nd') (Some i) ys \<and> set xs - {m} \<subseteq> set ys \<and> (m \<in> set xs \<longrightarrow> n \<in> set ys)"
    if i: "i < length nd" "i \<noteq> n" "i \<noteq> m" and c: "chain (nx nd) (Some i) xs" for i xs
  proof -
    have nxs: "n \<notin> set xs" using nil_key_not_in_chain [OF assms(1) c i(1) nn nl] i(2) by simp
    show ?thesis
    proof (cases "m \<in> set xs")
      case True
      have "\<exists>ys. chain (nx nd') (Some i) ys \<and> set ys = insert n (set xs - {m})"
      proof (rule chain_replace [OF c nxs True, where a = prev])
        show "Some i \<noteq> Some m" using i(3) by simp
        show "nx nd prev = Some m" by (rule pm)
        show "x = prev" if "nx nd x = Some m" for x using that by (rule only)
        show "nx nd' prev = Some n" and "nx nd' n = nx nd m"
          using prn prm mn by (simp_all add: nx)
        show "nx nd' x = nx nd x" if "x \<in> set xs" "x \<noteq> prev" "x \<noteq> m" for x
          using that nxs by (auto simp: nx)
      qed
      then show ?thesis by auto
    next
      case False
      have "prev \<notin> set xs"
      proof
        assume "prev \<in> set xs"
        then obtain us vs where "xs = us @ prev # vs" by (meson split_list)
        then have "chain (nx nd) (Some prev) (prev # vs)" using c chain_suffix by blast
        then have "m \<in> set vs" using prev pl by (cases vs) (auto simp: nx_def)
        then show False using False \<open>xs = us @ prev # vs\<close> by simp
      qed
      then have "chain (nx nd') (Some i) xs = chain (nx nd) (Some i) xs"
        using nxs False by (intro chain_cong) (auto simp: nx)
      then show ?thesis using c False by blast
    qed
  qed
  obtain ms where ms: "chain (nx nd) (Some m) (m # ms)"
    using D(2) [OF ml] by (auto simp: chain_Some)
  have nms: "n \<notin> set ms" "m \<notin> set ms"
    using nil_key_not_in_chain [OF assms(1) ms ml nn nl] mn chain_distinct [OF ms] by auto
  have pms: "prev \<notin> set ms"
  proof
    assume "prev \<in> set ms"
    then obtain us vs where u: "ms = us @ prev # vs" by (meson split_list)
    then have "chain (nx nd) (Some prev) (prev # vs)"
      using ms chain_suffix [of "nx nd" "Some m" "m # us" prev vs] by simp
    then have "m \<in> set vs" using prev pl by (cases vs) (auto simp: nx_def)
    then show False using nms u by simp
  qed
  have "chain (nx nd') (nx nd m) ms = chain (nx nd) (nx nd m) ms"
    using nms pms by (intro chain_cong) (auto simp: nx)
  then have cn: "chain (nx nd') (Some n) (n # ms)" using ms mn by (simp add: nx)
  have cm: "chain (nx nd') (Some m) [m]" by (simp add: nx)
  show "links_ok nd'"
  proof (rule links_okI, goal_cases)
    case (1 i j) then show ?case
      using D(1) [of i j] D(1) [of m j] nl ml by (simp add: l nxt split: if_splits)
  next
    case (2 i)
    then obtain xs where "chain (nx nd) (Some i) xs" using D(2) [of i] by (auto simp: l)
    then have "i \<noteq> n \<Longrightarrow> i \<noteq> m \<Longrightarrow> \<exists>ys. chain (nx nd') (Some i) ys"
      using 2 ch [of i xs] by (auto simp: l)
    then show ?case using cn cm by metis
  next
    case (3 i j c) then show ?case
      using D(3) [of i j c] D(3) [of m j c] D(3) [of i m c] D(5) [OF nl nn] ml nl mn
      by (auto simp: l nxt split: if_splits)
  next
    case (4 i) then show ?case
      using D(4) [of i] D(5) [of i] prev pl ml mm pk by (auto simp: l nxt key split: if_splits)
  next
    case (5 i j) then show ?case
      using D(5) [of i j] D(5) [of i m] ml mm pk by (auto simp: l nxt key split: if_splits)
  qed
  have pn: "mp (key_at nd i) \<noteq> n" "mp (key_at nd i) \<noteq> m"
    if "i < length nd" "proper (key_at nd i)" for i
    using K(2) [OF that] K(3) [OF that] nn mm by auto
  show "keys_ok mp nd'"
  proof (rule keys_okI, goal_cases)
    case (1 i)
    consider "i = m" | "i = n" | "i \<noteq> m" "i \<noteq> n" by blast
    then show ?case
    proof cases
      case 1
      have "reaches nd' m m" using cm by (rule reachesI) simp
      then show ?thesis using 1 m ml by (simp add: key)
    next
      case 2
      obtain xs where "chain (nx nd) (Some (mp (key_at nd m))) xs" "m \<in> set xs"
        using K(1) [OF ml mm(1)] by (auto simp: reaches_def)
      then have "reaches nd' (mp (key_at nd m)) n"
        using ch [of "mp (key_at nd m)" xs] pn [OF ml mm(1)] mpl by (auto intro: reachesI)
      then show ?thesis using 2 nl mn by (simp add: key)
    next
      case 3
      then have i: "i < length nd" "proper (key_at nd i)" using 1 by (auto simp: key l)
      obtain xs where "chain (nx nd) (Some (mp (key_at nd i))) xs" "i \<in> set xs"
        using K(1) [OF i] by (auto simp: reaches_def)
      then have "reaches nd' (mp (key_at nd i)) i"
        using ch [of "mp (key_at nd i)" xs] pn [OF i] mpl 3 by (auto intro: reachesI)
      then show ?thesis using 3 i by (simp add: key)
    qed
  next
    case (2 i) then show ?case
      using K(2) [of i] K(2) [OF ml mm(1)] pn [of i] pn [OF ml mm(1)] pk m
      by (auto simp: l key mpl split: if_splits)
  next
    case (3 i) then show ?case
      using K(3) [of i] K(3) [OF ml mm(1)] pn [of i] pn [OF ml mm(1)] m
      by (auto simp: l key mpl split: if_splits)
  next
    case (4 i) then show ?case using K(4) [of i] K(4) [OF ml] pk
      by (simp add: l key val split: if_splits)
  next
    case (5 i j) then show ?case
      using K(5) [of i j] K(5) [of m j] K(5) [of i m] F(1) [of i] F(2) [of j] F(1) [of m]
        F(2) [of m] ml mm nn
      by (auto simp: l key split: if_splits)
  next
    case (6 i) then show ?case using K(6) [of i] K(6) [of m] pk ml
      by (simp add: l key split: if_splits)
  qed
  have vn: "val_at nd n = TNil" using K(4) [OF nl] nn by simp
  show "entries nd' = entries nd"
  proof (intro equalityI entries_subset)
    fix i assume "i < length nd" "val_at nd i \<noteq> TNil"
    then show "\<exists>j<length nd'. key_at nd' j = key_at nd i \<and> val_at nd' j = val_at nd i"
      using vn nl mn by (intro exI [of _ "if i = m then n else i"]) (auto simp: l key val)
  next
    fix i assume "i < length nd'" "val_at nd' i \<noteq> TNil"
    then show "\<exists>j<length nd. key_at nd j = key_at nd' i \<and> val_at nd j = val_at nd' i"
      using ml by (intro exI [of _ "if i = n then m else i"]) (auto simp: l key val split: if_splits)
  qed
qed

end

interpretation nodes: node_vector "mainpos H l" "2 ^ l" for H :: "'s string_view" and l
  by unfold_locales (rule lua_key.main_less, rule lua_key.main_cong)

end
