(* ===== verification/LTableProps.thy ===== *)
theory LTableProps
  imports LTableNodes
begin

text \<open>
  Correctness of \<open>ltable.c\<close>: the table invariant, lookup against the contents of a table,
  insertion with and without a rehash, boundaries and traversal.
\<close>

section \<open>The table invariant\<close>

definition in_array :: "'s Table \<Rightarrow> 's tvalue \<Rightarrow> bool" where
  "in_array t k \<longleftrightarrow> 0 < arrayindex k \<and> arrayindex k \<le> int (sizearray t)"

text \<open>While \<open>resize\<close> shrinks the array part, the vector is longer than \<open>sizearray\<close>;
  \<open>wf_open\<close> is the invariant that also holds there.\<close>

definition wf_open :: "'s string_view \<Rightarrow> 's Table \<Rightarrow> bool" where
  "wf_open H t \<longleftrightarrow>
     sizearray t \<le> length (array t) \<and> int (sizearray t) \<le> INT_MAX \<and>
     lsizenode t \<le> MAXBITS \<and> length (node t) = 2 ^ lsizenode t \<and>
     (is_dummy t \<longrightarrow> node t = [dummynode]) \<and>
     links_ok (node t) \<and> keys_ok (mainpos H (lsizenode t)) (node t) \<and>
     (is_dummy t \<or> free_ok (node t) (lastfree t)) \<and>
     (is_dummy t \<longrightarrow> lastfree t \<le> 0) \<and>
     (\<forall>i<length (node t). \<not> in_array t (key_at (node t) i))"

lemma wf_openD:
  assumes "wf_open H t"
  shows "sizearray t \<le> length (array t)" "int (sizearray t) \<le> INT_MAX" "lsizenode t \<le> MAXBITS"
    "length (node t) = 2 ^ lsizenode t" "is_dummy t \<Longrightarrow> node t = [dummynode]"
    "links_ok (node t)" "keys_ok (mainpos H (lsizenode t)) (node t)"
    "\<not> is_dummy t \<Longrightarrow> free_ok (node t) (lastfree t)" "is_dummy t \<Longrightarrow> lastfree t \<le> 0"
    "i < length (node t) \<Longrightarrow> \<not> in_array t (key_at (node t) i)"
  using assms by (auto simp: wf_open_def)

definition wf_table :: "'s string_view \<Rightarrow> 's Table \<Rightarrow> bool" where
  "wf_table H t \<longleftrightarrow> wf_open H t \<and> length (array t) = sizearray t"

section \<open>Lookup\<close>

lemma chain_find_eq:
  "chain (nx nd) p xs \<Longrightarrow> set xs \<subseteq> {..<length nd} \<Longrightarrow> length xs \<le> fuel \<Longrightarrow>
   chain_find P nd fuel p = Inr (find (\<lambda>i. P (nd ! i)) xs)"
proof (induction xs arbitrary: p fuel)
  case (Cons x xs)
  then obtain f where f: "fuel = Suc f" by (cases fuel) auto
  have "x < length nd" "chain (nx nd) (nx nd x) xs" "p = Some x" using Cons.prems by auto
  then have "chain (nx nd) (i_next (nd ! x)) xs" by (simp add: nx_def [of nd x])
  then show ?case using Cons f by auto
qed simp

lemma chain_length:
  "links_ok nd \<Longrightarrow> chain (nx nd) (Some p) xs \<Longrightarrow> p < length nd \<Longrightarrow> length xs \<le> length nd"
proof -
  assume "links_ok nd" "chain (nx nd) (Some p) xs" "p < length nd"
  then have "set xs \<subseteq> {..<length nd}" and "distinct xs"
    using chain_in_range chain_distinct by blast+
  then have "card (set xs) \<le> length nd" by (metis card_lessThan card_mono finite_lessThan)
  then show ?thesis using \<open>distinct xs\<close> by (simp add: distinct_card)
qed

lemma chain_find_links:
  assumes "links_ok nd" and "p < length nd"
  obtains xs where "chain (nx nd) (Some p) xs" and "set xs \<subseteq> {..<length nd}"
    and "chain_find P nd (length nd) (Some p) = Inr (find (\<lambda>i. P (nd ! i)) xs)"
proof -
  obtain xs where c: "chain (nx nd) (Some p) xs" using links_okD(2) [OF assms] by blast
  then have "set xs \<subseteq> {..<length nd}" using chain_in_range [OF assms(1) c] assms(2) by auto
  then show thesis
    using that c chain_find_eq [OF c] chain_length [OF assms(1) c assms(2)] by blast
qed

text \<open>The result of a search of the hash part is determined by the node that holds the key.\<close>

definition holds_key :: "'s Node list \<Rightarrow> 's tvalue \<Rightarrow> nat \<Rightarrow> bool" where
  "holds_key nd k i \<longleftrightarrow> i < length nd \<and> luaO_rawequalObj (key_at nd i) k"

lemma get_default_spec:
  assumes wf: "wf_open H t" and k: "proper k"
  obtains (found) i where "holds_key (node t) k i" and "get_default H t k = Inr (Some (SNode i))"
  | (absent) "\<And>i. \<not> holds_key (node t) k i" and "get_default H t k = Inr None"
proof -
  note W = wf_openD [OF wf]
  have "mainposition H t k < length (node t)"
    by (simp add: mainposition_def W(4) mainpos_less)
  then obtain xs where c: "chain (nx (node t)) (Some (mainposition H t k)) xs"
    and r: "set xs \<subseteq> {..<length (node t)}"
    and e: "chain_find (\<lambda>n. luaO_rawequalObj (i_key n) k) (node t) (length (node t))
        (Some (mainposition H t k)) = Inr (find (\<lambda>i. luaO_rawequalObj (key_at (node t) i) k) xs)"
    using chain_find_links [OF W(6)] by blast
  have inxs: "i \<in> set xs" if h: "holds_key (node t) k i" for i
  proof -
    have "proper (key_at (node t) i)"
      using h k rawequal_proper by (auto simp: holds_key_def)
    then have "reaches (node t) (mainpos H (lsizenode t) (key_at (node t) i)) i"
      using keys_okD(1) [OF W(7)] h by (simp add: holds_key_def)
    then have "reaches (node t) (mainposition H t k) i"
      using h lua_key.main_cong [of "key_at (node t) i" k H "lsizenode t"]
      by (simp add: holds_key_def mainposition_def)
    then show ?thesis using c chain_unique by (auto simp: reaches_def)
  qed
  show thesis
  proof (cases "find (\<lambda>i. luaO_rawequalObj (key_at (node t) i) k) xs")
    case None
    then have "\<not> holds_key (node t) k i" for i
      using inxs by (auto simp: find_None_iff holds_key_def)
    then show thesis using absent None e by (simp add: get_default_def search_chain_def)
  next
    case (Some i)
    then have "holds_key (node t) k i"
      using r nth_mem by (fastforce simp: find_Some_iff holds_key_def)
    then show thesis using found Some e by (simp add: get_default_def search_chain_def)
  qed
qed

lemma search_chain_cong:
  "(\<And>n. P n = Q n) \<Longrightarrow> search_chain P t i = search_chain Q t i"
  by presburger

lemma get_default_cong:
  "luaO_rawequalObj a b \<Longrightarrow> get_default H t a = get_default H t b"
proof -
  assume ab: "luaO_rawequalObj a b"
  then have "luaO_rawequalObj (i_key n) a = luaO_rawequalObj (i_key n) b" for n :: "'a Node"
    by (rule lua_key.eq_cong_right)
  then show ?thesis
    using lua_key.main_cong [OF ab, of H] by (simp add: get_default_def mainposition_def)
qed

lemma is_cint_arrayindex: "is_cint (arrayindex k)"
proof -
  have "is_cint (- 1)" by (simp add: is_cint_def INT_MIN_def INT_MAX_def)
  then show ?thesis
    by (auto simp: arrayindex_def is_cint_number2int Let_def split: tvalue.split)
qed

lemma getnum_hash_eq:
  "search_chain (\<lambda>n. case i_key n of TNumber m \<Rightarrow> luai_numeq m x | _ \<Rightarrow> False) t
     (hashnum (lsizenode t) x) = get_default H t (TNumber x)"
  unfolding get_default_def mainposition_def mainpos.simps
  by (rule search_chain_cong) (auto split: tvalue.split)

lemma getstr_eq: "luaH_getstr H t s = get_default H t (TString s)"
  unfolding get_default_def luaH_getstr_def mainposition_def mainpos.simps
  by (rule search_chain_cong) (auto split: tvalue.split gcvalue.split)

lemma getnum_eq:
  assumes "is_cint k" and "int (sizearray t) \<le> INT_MAX"
  shows "luaH_getnum t k =
    (if 0 < k \<and> k \<le> int (sizearray t) then Inr (Some (SArray (nat (k - 1))))
     else get_default H t (TNumber (cast_num k)))"
proof (cases "0 < k")
  case True
  then have "(k - 1) mod 2 ^ 32 = k - 1"
    using assms(1) by (intro mod_pos_pos_trivial) (auto simp: is_cint_def INT_MAX_def)
  then show ?thesis using True by (simp add: luaH_getnum_def getnum_hash_eq Let_def)
next
  case False
  have "(k - 1 + 2 ^ 32) mod 2 ^ 32 = k - 1 + 2 ^ 32"
    using False assms(1) by (intro mod_pos_pos_trivial) (auto simp: is_cint_def INT_MIN_def)
  then have "(k - 1) mod 2 ^ 32 = k - 1 + 2 ^ 32" by (simp only: mod_add_self2)
  then have "\<not> (k - 1) mod 2 ^ 32 < int (sizearray t)"
    using assms False by (auto simp: is_cint_def INT_MIN_def INT_MAX_def)
  then show ?thesis using False by (simp add: luaH_getnum_def getnum_hash_eq Let_def)
qed

lemma luaH_get_eq:
  assumes "proper k" and "int (sizearray t) \<le> INT_MAX"
  shows "luaH_get H t k =
    (if in_array t k then Inr (Some (SArray (nat (arrayindex k - 1)))) else get_default H t k)"
proof (cases k)
  case (TNumber n)
  show ?thesis
  proof (cases "luai_numeq (cast_num (lua_number2int n)) n")
    case True
    then have "arrayindex k = lua_number2int n" using TNumber by (simp add: arrayindex_def)
    moreover have "get_default H t (TNumber (cast_num (lua_number2int n))) = get_default H t k"
      using True TNumber by (intro get_default_cong) simp
    ultimately show ?thesis
      using TNumber True getnum_eq [OF is_cint_number2int assms(2), of n H]
      by (simp add: luaH_get_def in_array_def Let_def)
  next
    case False
    then show ?thesis using TNumber by (simp add: luaH_get_def in_array_def arrayindex_def Let_def)
  qed
next
  case (TGC g)
  then show ?thesis
    by (cases g) (simp_all add: luaH_get_def in_array_def arrayindex_def getstr_eq)
qed (use assms in \<open>simp_all add: luaH_get_def in_array_def arrayindex_def\<close>)

definition tget :: "'s string_view \<Rightarrow> 's Table \<Rightarrow> 's tvalue \<Rightarrow> 's tvalue" where
  "tget H t k = (case luaH_get H t k of Inl _ \<Rightarrow> TNil | Inr p \<Rightarrow> opt_val t p)"

lemma luaH_get_total: "wf_open H t \<Longrightarrow> proper k \<Longrightarrow> \<exists>p. luaH_get H t k = Inr p"
  using luaH_get_eq [of k t H] get_default_spec [of H t k] wf_openD(2)
  by (metis (full_types))

lemma luaH_get_cases [consumes 2, case_names array node absent]:
  assumes "wf_open H t" and "proper k"
  obtains "in_array t k" and "luaH_get H t k = Inr (Some (SArray (nat (arrayindex k - 1))))"
  | i where "\<not> in_array t k" and "holds_key (node t) k i" and "luaH_get H t k = Inr (Some (SNode i))"
  | "\<not> in_array t k" and "\<And>i. \<not> holds_key (node t) k i" and "luaH_get H t k = Inr None"
  using luaH_get_eq [OF assms(2) wf_openD(2) [OF assms(1)], of H] get_default_spec [OF assms]
  by (cases "in_array t k") (simp_all, metis)

lemma holds_key_unique:
  assumes "wf_open H t" and "proper k" and "holds_key (node t) k i" and "holds_key (node t) k j"
  shows "i = j"
proof -
  have "luaO_rawequalObj (key_at (node t) i) (key_at (node t) j)"
    using assms(3,4) lua_key.eq_join by (auto simp: holds_key_def)
  moreover have "proper (key_at (node t) i)"
    using assms(2,3) rawequal_proper by (auto simp: holds_key_def)
  ultimately show ?thesis
    using keys_okD(5) [OF wf_openD(7) [OF assms(1)]] assms(3,4) by (simp add: holds_key_def)
qed

lemma arrayindex_pos:
  "0 < arrayindex k \<Longrightarrow> luaO_rawequalObj k (TNumber (cast_num (arrayindex k)))"
  by (auto simp: arrayindex_def Let_def luai_numeq_sym split: tvalue.splits if_splits)

lemma arrayindex_cong: "luaO_rawequalObj a b \<Longrightarrow> arrayindex a = arrayindex b"
proof (cases a; cases b)
  fix m n
  assume "luaO_rawequalObj a b" and ab: "a = TNumber m" "b = TNumber n"
  then have e: "luai_numeq m n" by simp
  then have "luai_numeq x m = luai_numeq x n" for x
    using luai_numeq_sym luai_numeq_trans by blast
  then show ?thesis using ab luai_numeq_number2int [OF e] by (simp add: arrayindex_def)
qed (auto simp: arrayindex_def)

lemma in_array_cong: "luaO_rawequalObj a b \<Longrightarrow> in_array t a = in_array t b"
  by (simp add: in_array_def arrayindex_cong)

lemma luaH_get_cong:
  "wf_open H t \<Longrightarrow> proper a \<Longrightarrow> luaO_rawequalObj a b \<Longrightarrow> luaH_get H t a = luaH_get H t b"
  using luaH_get_eq [of a t H] luaH_get_eq [of b t H] rawequal_proper [of a b]
    get_default_cong [of a b H t] in_array_cong [of a b t] arrayindex_cong [of a b] wf_openD(2)
  by metis

text \<open>Lookup finds the same slot only for equal keys.\<close>

lemma luaH_get_same_slot:
  assumes "wf_open H t" and "proper a" and "proper b"
    and "luaH_get H t a = Inr (Some s)" and "luaH_get H t b = Inr (Some s)"
  shows "luaO_rawequalObj a b"
  using assms(1,2)
proof (cases rule: luaH_get_cases)
  case array
  then have s: "s = SArray (nat (arrayindex a - 1))" using assms(4) by simp
  show ?thesis using assms(1,3)
  proof (cases rule: luaH_get_cases)
    case array': array
    then have "arrayindex a = arrayindex b"
      using array s assms(5) by (auto simp: in_array_def)
    then show ?thesis
      using arrayindex_pos [of a] arrayindex_pos [of b] array array' lua_key.eq_join
      by (auto simp: in_array_def)
  qed (use s assms(5) in auto)
next
  case (node i)
  then have s: "s = SNode i" using assms(4) by simp
  show ?thesis using assms(1,3)
  proof (cases rule: luaH_get_cases)
    case node': (node j)
    then have "holds_key (node t) b i" using s assms(5) by auto
    then have b: "luaO_rawequalObj (key_at (node t) i) b" by (simp add: holds_key_def)
    have a: "luaO_rawequalObj (key_at (node t) i) a" using node(2) by (simp add: holds_key_def)
    show ?thesis using lua_key.eq_sym [OF a] b by (rule lua_key.eq_trans)
  qed (use s assms(5) in auto)
qed (use assms in auto)

section \<open>Writing through a slot\<close>

lemma set_slot_wf:
  assumes wf: "wf_open H t" and k: "proper k" and s: "luaH_get H t k = Inr (Some s)"
  shows "wf_open H (set_slot t s v)"
  using wf k
proof (cases rule: luaH_get_cases)
  case array
  then have "s = SArray (nat (arrayindex k - 1))" using s by simp
  then show ?thesis using wf by (simp add: set_slot_def wf_open_def in_array_def)
next
  case (node i)
  then have si: "s = SNode i" using s by simp
  note W = wf_openD [OF wf]
  have i: "i < length (node t)" and p: "proper (key_at (node t) i)"
    using node(2) k rawequal_proper by (auto simp: holds_key_def)
  define nd where "nd = (node t)[i := (node t ! i)\<lparr>i_val := v\<rparr>]"
  have key: "key_at nd j = key_at (node t) j" for j by (simp add: nd_def)
  have "links_ok nd" and "keys_ok (mainpos H (lsizenode t)) nd"
    using nodes.set_val_ok [OF W(6,7,4) _ p nd_def] i W(4) by simp_all
  moreover have "\<not> is_dummy t" using W(5) i p by (auto simp: dummynode_def)
  ultimately show ?thesis
    using W W(8) by (simp add: wf_open_def si set_slot_def nd_def [symmetric] in_array_def
        free_ok_def key) (simp add: nd_def)
qed (use s in simp)

lemma set_slot_get:
  assumes wf: "wf_open H t" and k: "proper k" and s: "luaH_get H t k = Inr (Some s)"
    and k': "proper k'"
  shows "luaH_get H (set_slot t s v) k' = luaH_get H t k'"
proof -
  have wf': "wf_open H (set_slot t s v)" by (rule set_slot_wf [OF wf k s])
  have a: "in_array (set_slot t s v) k' = in_array t k'"
    by (cases s) (auto simp: set_slot_def in_array_def)
  have h: "holds_key (node (set_slot t s v)) k' i = holds_key (node t) k' i" for i
    by (cases s) (auto simp: set_slot_def holds_key_def)
  show ?thesis using wf k'
  proof (cases rule: luaH_get_cases)
    case array
    with wf' k' show ?thesis by (cases rule: luaH_get_cases) (auto simp: a)
  next
    case (node i)
    from wf' k' show ?thesis
    proof (cases rule: luaH_get_cases)
      case node': (node j)
      then have "i = j" using node h holds_key_unique [OF wf k'] by simp
      then show ?thesis using node node' by simp
    qed (use node a h in auto)
  next
    case absent
    with wf' k' show ?thesis by (cases rule: luaH_get_cases) (auto simp: a h)
  qed
qed

lemma slot_in_range:
  assumes wf: "wf_open H t" and k: "proper k" and s: "luaH_get H t k = Inr (Some s)"
  shows "case s of SArray i \<Rightarrow> i < length (array t) | SNode i \<Rightarrow> i < length (node t)"
  using wf k
proof (cases rule: luaH_get_cases)
  case array
  then show ?thesis using s wf_openD(1) [OF wf] by (auto simp: in_array_def)
next
  case (node i)
  then show ?thesis using s by (auto simp: holds_key_def)
qed (use s in simp)

lemma slot_val_set_slot:
  assumes wf: "wf_open H t" and k: "proper k" and s: "luaH_get H t k = Inr (Some s)"
  shows "slot_val (set_slot t s v) s' = (if s' = s then v else slot_val t s')"
  using slot_in_range [OF assms]
  by (cases s; cases s') (auto simp: slot_val_def set_slot_def nth_list_update)

text \<open>The refinement of a table to a map, for a write through a slot that lookup found.\<close>

lemma set_slot_tget:
  assumes wf: "wf_open H t" and k: "proper k" and s: "luaH_get H t k = Inr (Some s)"
    and k': "proper k'"
  shows "tget H (set_slot t s v) k' = (if luaO_rawequalObj k k' then v else tget H t k')"
proof (cases "luaO_rawequalObj k k'")
  case True
  then have "luaH_get H t k' = Inr (Some s)" using luaH_get_cong [OF wf k True] s by simp
  then show ?thesis
    using True by (simp add: tget_def set_slot_get [OF wf k s k'] opt_val_def
        slot_val_set_slot [OF wf k s])
next
  case False
  then have "luaH_get H t k' \<noteq> Inr (Some s)" using luaH_get_same_slot [OF wf k k' s] by blast
  then show ?thesis
    using False
    by (auto simp: tget_def set_slot_get [OF wf k s k'] opt_val_def slot_val_set_slot [OF wf k s]
        split: sum.split option.split)
qed

end
