(* ===== verification/LTableInsert.thy ===== *)
theory LTableInsert
  imports LTableProps
begin

text \<open>
  Insertion of new keys: \<open>newkey\<close> while the node vector has room, the reconstruction of a
  table by \<open>resize\<close>, and \<open>luaH_set\<close> in general, including the fact that the re-insertions of
  a rehash never start another rehash.
\<close>

section \<open>Insertion with room\<close>

lemma getfreepos_spec:
  assumes "free_ok nd lf" and "i < length nd" and "key_at nd i = TNil"
  shows "\<exists>n. getfreepos_loop nd lf = (int n, Some n) \<and> n < length nd \<and> key_at nd n = TNil \<and>
    (\<forall>j<length nd. n < j \<longrightarrow> key_at nd j \<noteq> TNil)"
  using assms
proof (induction nd lf rule: getfreepos_loop.induct)
  case (1 nd lf)
  have "\<not> lf \<le> int i" using "1.prems" by (auto simp: free_ok_def)
  then have pos: "0 < lf" by simp
  have n: "nat (lf - 1) < length nd" using "1.prems" pos by (auto simp: free_ok_def)
  show ?case
  proof (cases "ttisnil (key_at nd (nat (lf - 1)))")
    case True
    then show ?thesis
      using "1.prems"(1) pos n
      by (subst getfreepos_loop.simps) (auto simp: free_ok_def)
  next
    case False
    have "free_ok nd (lf - 1)"
      unfolding free_ok_def
    proof (intro conjI allI impI)
      fix j assume "j < length nd" "lf - 1 \<le> int j"
      then show "key_at nd j \<noteq> TNil"
        using "1.prems"(1) False pos by (cases "j = nat (lf - 1)") (auto simp: free_ok_def)
    qed (use "1.prems"(1) in \<open>simp add: free_ok_def\<close>)
    then show ?thesis
      using "1.IH" [OF pos False _ "1.prems"(2,3)] pos False
      by (subst getfreepos_loop.simps) simp
  qed
qed

lemma find_previous_spec:
  assumes "links_ok nd" and "reaches nd p m" and "p \<noteq> m" and "p < length nd"
  shows "\<exists>prev. find_previous nd m (length nd) p = Inr prev \<and> prev < length nd \<and>
    i_next (nd ! prev) = Some m"
proof -
  obtain xs where c: "chain (nx nd) (Some p) xs" and m: "m \<in> set xs"
    using assms(2) by (auto simp: reaches_def)
  have len: "length xs \<le> length nd" using chain_length [OF assms(1) c assms(4)] .
  have r: "set xs \<subseteq> {..<length nd}" using chain_in_range [OF assms(1) c] assms(4) by auto
  have "\<exists>prev. find_previous nd m fuel p = Inr prev \<and> prev < length nd \<and> i_next (nd ! prev) = Some m"
    if "chain (nx nd) (Some p) xs" "m \<in> set xs" "p \<noteq> m" "length xs \<le> fuel" "set xs \<subseteq> {..<length nd}"
    for xs p fuel
    using that
  proof (induction xs arbitrary: p fuel)
    case (Cons x xs)
    then have x: "p = x" "x < length nd" by auto
    obtain f where f: "fuel = Suc f" using Cons.prems(4) by (cases fuel) auto
    have "m \<in> set xs" using Cons.prems(2,3) x by auto
    then obtain j ys where xs: "xs = j # ys" and j: "nx nd x = Some j"
      using Cons.prems(1) by (cases xs) auto
    then have n: "i_next (nd ! x) = Some j" using x by (simp add: nx_def)
    show ?case
    proof (cases "j = m")
      case True
      then show ?thesis using x n f by auto
    next
      case False
      have "chain (nx nd) (Some j) xs" using Cons.prems(1) j by simp
      then show ?thesis
        using Cons.IH [of j f] \<open>m \<in> set xs\<close> False Cons.prems(4,5) f x n by auto
    qed
  qed simp
  then show ?thesis using c m assms(3) len r by blast
qed

lemma links_no_loop: "links_ok nd \<Longrightarrow> i < length nd \<Longrightarrow> i_next (nd ! i) \<noteq> Some i"
proof
  assume l: "links_ok nd" "i < length nd" and "i_next (nd ! i) = Some i"
  then have n: "nx nd i = Some i" by (simp add: nx_def)
  obtain xs where c: "chain (nx nd) (Some i) xs" using links_okD(2) [OF l] by blast
  then obtain ys where xs: "xs = i # ys" "chain (nx nd) (nx nd i) ys" unfolding chain_Some by blast
  then have "xs = ys" using chain_unique [OF c, of ys] n by (simp only: n)
  then show False using xs(1) by simp
qed

text \<open>Tables that differ in their node vectors only, with the same entries.\<close>

definition same_shape :: "'s Table \<Rightarrow> 's Table \<Rightarrow> bool" where
  "same_shape t t' \<longleftrightarrow>
     array t' = array t \<and> sizearray t' = sizearray t \<and> lsizenode t' = lsizenode t \<and>
     is_dummy t' = is_dummy t \<and> metatable t' = metatable t \<and>
     length (node t') = length (node t) \<and> entries (node t') = entries (node t)"

text \<open>Lookup of a key that is not in the array part, read off the entries.\<close>

lemma tget_entries:
  assumes "wf_open H t" and "proper k" and "\<not> in_array t k" and "v \<noteq> TNil"
  shows "tget H t k = v \<longleftrightarrow> (\<exists>k'. (k', v) \<in> entries (node t) \<and> luaO_rawequalObj k' k)"
  using assms(1,2)
proof (cases rule: luaH_get_cases)
  case (node i)
  have "tget H t k = val_at (node t) i" using node by (simp add: tget_def opt_val_def slot_val_def)
  moreover have "j = i" if "j < length (node t)" "luaO_rawequalObj (key_at (node t) j) k" for j
    using holds_key_unique [OF assms(1,2)] node that by (simp add: holds_key_def)
  ultimately show ?thesis
    using node(2) assms(4) by (auto simp: entries_def holds_key_def)
next
  case absent
  then have "tget H t k = TNil" by (simp add: tget_def opt_val_def)
  then show ?thesis using absent(2) assms(4) by (auto simp: entries_def holds_key_def)
qed (use assms in simp)

lemma same_shape_tget:
  assumes "wf_open H t" and "wf_open H t'" and "same_shape t t'" and "proper k"
  shows "tget H t' k = tget H t k"
proof (cases "in_array t k")
  case True
  then have "in_array t' k" using assms(3) by (simp add: in_array_def same_shape_def)
  then show ?thesis
    using True assms(3) luaH_get_eq [OF assms(4) wf_openD(2) [OF assms(1)]]
      luaH_get_eq [OF assms(4) wf_openD(2) [OF assms(2)]]
    by (simp add: tget_def opt_val_def slot_val_def same_shape_def)
next
  case False
  then have "\<not> in_array t' k" using assms(3) by (simp add: in_array_def same_shape_def)
  then have "v \<noteq> TNil \<Longrightarrow> tget H t' k = v \<longleftrightarrow> tget H t k = v" for v
    using tget_entries [OF assms(1,4) False] tget_entries [OF assms(2,4)] assms(3)
    by (simp add: same_shape_def)
  then show ?thesis by (metis (full_types))
qed

lemma put_key_found:
  assumes "wf_open H t'" and "\<not> in_array t' key" and "proper key" and "\<not> is_nan_value key"
    and "j < length (node t')" and "key_at (node t') j = key"
  shows "luaH_get H t' key = Inr (Some (SNode j))"
proof -
  have h: "holds_key (node t') key j" using assms by (simp add: holds_key_def rawequal_refl_iff)
  from assms(1,3) show ?thesis
  proof (cases rule: luaH_get_cases)
    case (node i)
    then show ?thesis using holds_key_unique [OF assms(1,3) _ h] by blast
  qed (use assms h in auto)
qed

definition room :: "'s string_view \<Rightarrow> 's Table \<Rightarrow> 's tvalue \<Rightarrow> bool" where
  "room H t key \<longleftrightarrow>
     val_at (node t) (mainposition H t key) = TNil \<or> (\<exists>i<length (node t). key_at (node t) i = TNil)"

lemma nil_keys_card: "nil_keys nd = card {i. i < length nd \<and> key_at nd i = TNil}"
  by (simp add: nil_keys_def length_filter_conv_card)

lemma nil_keys_le:
  assumes "length nd' = length nd"
    and "\<And>i. i < length nd \<Longrightarrow> i \<noteq> n \<Longrightarrow> key_at nd i = TNil \<Longrightarrow> key_at nd' i = TNil"
  shows "nil_keys nd \<le> Suc (nil_keys nd')"
proof -
  have "{i. i < length nd \<and> key_at nd i = TNil} \<subseteq>
      insert n {i. i < length nd' \<and> key_at nd' i = TNil}"
    using assms by auto
  then have "nil_keys nd \<le> card (insert n {i. i < length nd' \<and> key_at nd' i = TNil})"
    unfolding nil_keys_card by (intro card_mono) auto
  also have "\<dots> \<le> Suc (nil_keys nd')"
    unfolding nil_keys_card by (intro card_insert_le_m1) auto
  finally show ?thesis .
qed

lemma newkey_room:
  assumes wf: "wf_open H t" and fresh: "fresh_key (node t) key" and na: "\<not> in_array t key"
    and nd: "\<not> is_dummy t" and room: "room H t key"
  shows "\<exists>t' j. newkey_by nk H t key = Inr (t', SNode j) \<and> same_shape t t' \<and> wf_open H t' \<and>
    j < length (node t') \<and> key_at (node t') j = key \<and>
    nil_keys (node t) \<le> Suc (nil_keys (node t'))"
proof -
  note W = wf_openD [OF wf]
  define m where "m = mainpos H (lsizenode t) key"
  have mp: "mainposition H t key = m" by (simp add: mainposition_def m_def)
  have ml: "m < length (node t)" by (simp add: m_def W(4) lua_key.main_less)
  have free: "free_ok (node t) (lastfree t)" using W(8) nd by blast
  have pk: "proper key" using fresh by (simp add: fresh_key_def)
  show ?thesis
  proof (cases "val_at (node t) m = TNil")
    case True
    define nd' where "nd' = (node t)[m := (node t ! m)\<lparr>i_key := key\<rparr>]"
    have ok: "links_ok nd'" "keys_ok (mainpos H (lsizenode t)) nd'" "entries nd' = entries (node t)"
      using nodes.put_main_ok [OF W(6,7,4) fresh, of nd'] True by (simp_all add: m_def nd'_def)
    have key: "key_at nd' i = (if i = m then key else key_at (node t) i)" if "i < length (node t)" for i
      using that ml by (auto simp: nd'_def nth_list_update)
    have l: "length nd' = length (node t)" by (simp add: nd'_def)
    define t' where "t' = t\<lparr>node := nd'\<rparr>"
    have "newkey_by nk H t key = Inr (t', SNode m)"
      using True nd by (simp add: newkey_by_def mp put_key_def t'_def nd'_def)
    moreover have "same_shape t t'" using ok l by (simp add: same_shape_def t'_def)
    moreover have "wf_open H t'"
      using W ok l key free pk na nd
      by (auto simp: wf_open_def t'_def free_ok_def in_array_def)
    moreover have "nil_keys (node t) \<le> Suc (nil_keys nd')"
      by (rule nil_keys_le [where n = m]) (auto simp: l key)
    ultimately show ?thesis using ml l key by (intro exI [of _ t'] exI [of _ m]) (simp add: t'_def)
  next
    case False
    then obtain i where i: "i < length (node t)" "key_at (node t) i = TNil"
      using room mp by (auto simp: room_def)
    obtain n where gf: "getfreepos_loop (node t) (lastfree t) = (int n, Some n)"
      and n: "n < length (node t)" "key_at (node t) n = TNil"
      and later: "\<And>j. j < length (node t) \<Longrightarrow> n < j \<Longrightarrow> key_at (node t) j \<noteq> TNil"
      using getfreepos_spec [OF free i] by blast
    define t1 where "t1 = t\<lparr>lastfree := int n\<rparr>"
    have pm: "proper (key_at (node t) m)" using keys_okD(4) [OF W(7) ml] False by blast
    have mn: "m \<noteq> n" using pm n by auto
    define o' where "o' = mainpos H (lsizenode t) (key_at (node t) m)"
    have ol: "o' < length (node t)" by (simp add: o'_def W(4) lua_key.main_less)
    have step: "newkey_by nk H t key =
        (if o' \<noteq> m then rbind (find_previous (node t) m (length (node t)) o')
            (\<lambda>prev. put_key (move_colliding t1 m n prev) m key)
         else put_key (chain_free t1 m n) n key)"
      using False
      by (simp add: newkey_by_def mp getfreepos_def gf t1_def o'_def mainposition_def m_def Let_def)
    have fin: ?thesis
      if ev: "newkey_by nk H t key = Inr (t1\<lparr>node := nd'\<rparr>, SNode j)" and ok: "links_ok nd'"
        "keys_ok (mainpos H (lsizenode t)) nd'" "entries nd' = entries (node t)"
        and l: "length nd' = length (node t)" and j: "j < length (node t)" "key_at nd' j = key"
        and key: "\<And>i. i < length (node t) \<Longrightarrow> key_at nd' i =
          (if i = j then key else if i = n then key_at (node t) m else key_at (node t) i)"
        and jn: "j = n \<or> key_at (node t) j \<noteq> TNil"
      for nd' j
    proof -
      define t' where "t' = t1\<lparr>node := nd'\<rparr>"
      have "same_shape t t'" using ok l by (simp add: same_shape_def t'_def t1_def)
      moreover have "free_ok nd' (int n)"
        using n later pk pm by (auto simp: free_ok_def l key)
      then have "wf_open H t'"
        using W ok l na nd ml by (auto simp: wf_open_def t'_def t1_def in_array_def key)
      moreover have "nil_keys (node t) \<le> Suc (nil_keys nd')"
        using jn by (intro nil_keys_le [where n = n]) (auto simp: l key)
      ultimately show ?thesis
        using ev j l by (intro exI [of _ t'] exI [of _ j]) (simp add: t'_def)
    qed
    show ?thesis
    proof (cases "o' = m")
      case True
      define nd1 where "nd1 = (node t)[n := (node t ! n)\<lparr>i_next := i_next (node t ! m)\<rparr>]"
      define nd2 where "nd2 = nd1[m := (nd1 ! m)\<lparr>i_next := Some n\<rparr>]"
      define nd' where "nd' = nd2[n := (nd2 ! n)\<lparr>i_key := key\<rparr>]"
      have l: "length nd' = length (node t)" by (simp add: nd'_def nd2_def nd1_def)
      have at: "nd' ! i = (if i = m then (node t ! m)\<lparr>i_next := Some n\<rparr>
          else if i = n then (node t ! n)\<lparr>i_next := i_next (node t ! m), i_key := key\<rparr>
          else node t ! i)" if "i < length (node t)" for i
        using that ml n mn by (simp add: nd'_def nd2_def nd1_def nth_list_update)
      have ok: "links_ok nd'" "keys_ok (mainpos H (lsizenode t)) nd'" "entries nd' = entries (node t)"
        using nodes.insert_after_ok [OF W(6,7,4) fresh m_def [symmetric] _ n(2) pm _ l] n W(4) True mn
        by (simp_all add: at o'_def)
      have ev: "newkey_by nk H t key = Inr (t1\<lparr>node := nd'\<rparr>, SNode n)"
        unfolding step
        using True by (simp add: put_key_def chain_free_def Let_def t1_def nd'_def nd2_def nd1_def)
      show ?thesis by (rule fin [OF ev ok l]) (use n mn in \<open>auto simp: at\<close>)
    next
      case False
      have "reaches (node t) o' m" using keys_okD(1) [OF W(7) ml pm] by (simp add: o'_def)
      then obtain prev where pv: "find_previous (node t) m (length (node t)) o' = Inr prev"
        "prev < length (node t)" "i_next (node t ! prev) = Some m"
        using find_previous_spec [OF W(6) _ False ol] by blast
      have prn: "prev \<noteq> n" using links_okD(4) [OF W(6) n] pv by auto
      have prm: "prev \<noteq> m" using links_no_loop [OF W(6) ml] pv(3) by auto
      define nd1 where "nd1 = (node t)[prev := (node t ! prev)\<lparr>i_next := Some n\<rparr>]"
      define nd2 where "nd2 = nd1[n := nd1 ! m]"
      define nd3 where "nd3 = nd2[m := (nd2 ! m)\<lparr>i_next := None, i_val := TNil\<rparr>]"
      define nd' where "nd' = nd3[m := (nd3 ! m)\<lparr>i_key := key\<rparr>]"
      have l: "length nd' = length (node t)" by (simp add: nd'_def nd3_def nd2_def nd1_def)
      have at: "nd' ! i = (if i = m then (node t ! m)\<lparr>i_next := None, i_val := TNil, i_key := key\<rparr>
          else if i = n then node t ! m
          else if i = prev then (node t ! i)\<lparr>i_next := Some n\<rparr> else node t ! i)"
        if "i < length (node t)" for i
        using that ml n mn pv prn prm by (simp add: nd'_def nd3_def nd2_def nd1_def nth_list_update)
      have ok: "links_ok nd'" "keys_ok (mainpos H (lsizenode t)) nd'" "entries nd' = entries (node t)"
        using nodes.move_ok [OF W(6,7,4) fresh m_def [symmetric] _ n(2) pm _ _ pv(3) l] n W(4) False mn pv
        by (simp_all add: at o'_def)
      have ev: "newkey_by nk H t key = Inr (t1\<lparr>node := nd'\<rparr>, SNode m)"
        unfolding step using False pv
        by (simp add: put_key_def move_colliding_def Let_def t1_def nd'_def nd3_def nd2_def nd1_def)
      show ?thesis by (rule fin [OF ev ok l]) (use n mn ml pm in \<open>auto simp: at\<close>)
    qed
  qed
qed

text \<open>Insertion of a key that lookup does not find, with room in the node vector.\<close>

lemma get_None_fresh:
  assumes "wf_open H t" and "proper k" and "\<not> is_nan_value k" and "luaH_get H t k = Inr None"
  shows "fresh_key (node t) k" and "\<not> in_array t k"
  using assms(1,2)
  by (cases rule: luaH_get_cases; use assms in \<open>auto simp: fresh_key_def holds_key_def\<close>)+

lemma newkey_set:
  assumes wf: "wf_open H t" and k: "proper k" "\<not> is_nan_value k"
    and none: "luaH_get H t k = Inr None" and nd: "\<not> is_dummy t" and room: "room H t k"
  obtains t' j where "newkey_by nk H t k = Inr (t', SNode j)" and "same_shape t t'"
    and "wf_open H t'" and "luaH_get H t' k = Inr (Some (SNode j))"
    and "nil_keys (node t) \<le> Suc (nil_keys (node t'))"
proof -
  note f = get_None_fresh [OF wf k none]
  obtain t' j where *: "newkey_by nk H t k = Inr (t', SNode j)" "same_shape t t'" "wf_open H t'"
    "j < length (node t')" "key_at (node t') j = k"
    "nil_keys (node t) \<le> Suc (nil_keys (node t'))"
    using newkey_room [OF wf f nd room] by blast
  have "\<not> in_array t' k" using f(2) *(2) by (simp add: in_array_def same_shape_def)
  then show thesis using that [OF *(1-3) _ *(6)] put_key_found [OF *(3) _ k *(4,5)] by blast
qed

end
