(* ===== verification/LTableResize.thy ===== *)
theory LTableResize
  imports LTableInsert
begin

text \<open>
  \<open>resize\<close> and \<open>rehash\<close> of \<open>ltable.c\<close>: the new vectors get every entry of the old ones
  (\<open>refill\<close> is the invariant of the two re-insertion loops), the counting functions size the
  hash part so that those insertions always find room, and \<open>computesizes\<close> picks the best array
  size.
\<close>

section \<open>Insertion during a rebuild\<close>

lemma opt_val_flags: "opt_val (t\<lparr>flags := x\<rparr>) = opt_val t"
  by (rule ext) (simp add: opt_val_def slot_val_def split: option.split slot.split)

lemma flags_simps [simp]:
  "wf_open H (t\<lparr>flags := x\<rparr>) = wf_open H t"
  "wf_table H (t\<lparr>flags := x\<rparr>) = wf_table H t"
  "luaH_get H (t\<lparr>flags := x\<rparr>) k = luaH_get H t k"
  "tget H (t\<lparr>flags := x\<rparr>) k = tget H t k"
  "same_shape (t\<lparr>flags := x\<rparr>) t' = same_shape t t'"
  "same_shape t (t'\<lparr>flags := x\<rparr>) = same_shape t t'"
  "room H (t\<lparr>flags := x\<rparr>) k = room H t k"
  "in_array (t\<lparr>flags := x\<rparr>) k = in_array t k"
proof -
  show a: "in_array (t\<lparr>flags := x\<rparr>) k = in_array t k" for k by (simp add: in_array_def)
  show w: "wf_open H (t\<lparr>flags := x\<rparr>) = wf_open H t" by (simp add: wf_open_def a)
  show "wf_table H (t\<lparr>flags := x\<rparr>) = wf_table H t" by (simp add: wf_table_def w)
  have "search_chain P (t\<lparr>flags := x\<rparr>) i = search_chain P t i" for P i
    by (simp add: search_chain_def)
  then have "luaH_getstr H (t\<lparr>flags := x\<rparr>) = luaH_getstr H t"
    "luaH_getnum (t\<lparr>flags := x\<rparr>) = luaH_getnum t" "get_default H (t\<lparr>flags := x\<rparr>) = get_default H t"
    by (intro ext; simp add: luaH_getstr_def luaH_getnum_def get_default_def mainposition_def)+
  then show g: "luaH_get H (t\<lparr>flags := x\<rparr>) k = luaH_get H t k" by (simp only: luaH_get_def)
  show "tget H (t\<lparr>flags := x\<rparr>) k = tget H t k"
    by (simp add: tget_def g opt_val_flags split: sum.split)
  show "same_shape (t\<lparr>flags := x\<rparr>) t' = same_shape t t'"
    "same_shape t (t'\<lparr>flags := x\<rparr>) = same_shape t t'" by (simp_all add: same_shape_def)
  show "room H (t\<lparr>flags := x\<rparr>) k = room H t k" by (simp add: room_def mainposition_def)
qed

lemma same_shape_refl [simp]: "same_shape t t"
  by (simp add: same_shape_def)

lemma nil_keys_pos: "0 < nil_keys nd \<Longrightarrow> \<exists>i<length nd. key_at nd i = TNil"
  by (auto simp: nil_keys_card card_gt_0_iff)

lemma arrayindex_cast: "is_cint k \<Longrightarrow> arrayindex (TNumber (cast_num k)) = k"
  by (simp add: arrayindex_def number2int_cast_num cast_num_refl)

lemma not_nan_cast: "is_cint k \<Longrightarrow> \<not> is_nan_value (TNumber (cast_num k))"
  by (simp add: is_nan_value_def cast_num_not_nan)

lemma getnum_get:
  assumes "wf_open H t" and "is_cint k"
  shows "luaH_getnum t k = luaH_get H t (TNumber (cast_num k))"
  using getnum_eq [OF assms(2) wf_openD(2) [OF assms(1)], of H]
    luaH_get_eq [OF _ wf_openD(2) [OF assms(1)], of "TNumber (cast_num k)" H]
  by (simp add: arrayindex_cast [OF assms(2)] in_array_def)

text \<open>What a successful search-or-insert of key \<open>k\<close> gives.\<close>

definition slot_for :: "'s string_view \<Rightarrow> 's Table \<Rightarrow> 's tvalue \<Rightarrow> 's Table \<Rightarrow> slot \<Rightarrow> bool" where
  "slot_for H t k t' s \<longleftrightarrow>
     wf_open H t' \<and> same_shape t t' \<and> luaH_get H t' k = Inr (Some s) \<and>
     nil_keys (node t) \<le> nil_keys (node t') + (if in_array t k then 0 else 1)"

lemma insert_slot_for:
  assumes wf: "wf_open H t" and k: "proper k" "\<not> is_nan_value k"
    and room: "\<not> in_array t k \<Longrightarrow> \<not> is_dummy t \<and> 0 < nil_keys (node t)"
  shows "(\<exists>s. luaH_get H t k = Inr (Some s) \<and> slot_for H t k t s) \<or>
    luaH_get H t k = Inr None \<and> (\<exists>t' s. newkey_by nk H t k = Inr (t', s) \<and> slot_for H t k t' s)"
proof (cases "luaH_get H t k = Inr None")
  case True
  then have "\<not> in_array t k" using get_None_fresh [OF wf k] by blast
  moreover then have "room H t k" using room nil_keys_pos by (auto simp: room_def)
  ultimately obtain t' j where "newkey_by nk H t k = Inr (t', SNode j)" "same_shape t t'"
    "wf_open H t'" "luaH_get H t' k = Inr (Some (SNode j))"
    "nil_keys (node t) \<le> Suc (nil_keys (node t'))"
    using newkey_set [OF wf k True] room by blast
  then show ?thesis using True \<open>\<not> in_array t k\<close> by (auto simp: slot_for_def)
next
  case False
  then obtain s where "luaH_get H t k = Inr (Some s)" using luaH_get_total [OF wf k(1)] by auto
  then show ?thesis using wf by (simp add: slot_for_def)
qed

lemma set_by_slot_for:
  assumes "wf_open H t" and "proper k" and "\<not> is_nan_value k"
    and "\<not> in_array t k \<Longrightarrow> \<not> is_dummy t \<and> 0 < nil_keys (node t)"
  shows "\<exists>t' s. luaH_set_by (newkey_by nk H) H t k = Inr (t', s) \<and> slot_for H t k t' s"
proof -
  have f: "slot_for H (t\<lparr>flags := 0\<rparr>) k = slot_for H t k"
    by (intro ext) (simp add: slot_for_def)
  have "k \<noteq> TNil" using assms(2) by auto
  then show ?thesis
    using insert_slot_for [of H "t\<lparr>flags := 0\<rparr>" k nk] assms f
    by (auto simp: luaH_set_by_def slot_for_def)
qed

lemma setnum_by_slot_for:
  assumes "wf_open H t" and "is_cint i" and "k = TNumber (cast_num i)"
    and "\<not> in_array t k \<Longrightarrow> \<not> is_dummy t \<and> 0 < nil_keys (node t)"
  shows "\<exists>t' s. luaH_setnum_by (newkey_by nk H) t i = Inr (t', s) \<and> slot_for H t k t' s"
proof -
  have "(\<exists>s. luaH_get H t k = Inr (Some s) \<and> slot_for H t k t s) \<or>
      luaH_get H t k = Inr None \<and> (\<exists>t' s. newkey_by nk H t k = Inr (t', s) \<and> slot_for H t k t' s)"
    using not_nan_cast [OF assms(2)] assms(3,4) by (intro insert_slot_for [OF assms(1)]) auto
  then show ?thesis
    using getnum_get [OF assms(1,2)] assms(3) by (auto simp: luaH_setnum_by_def)
qed

section \<open>The re-insertion loops\<close>

text \<open>\<open>D\<close> are the keys already re-inserted, \<open>t0\<close> is the table before the resize, \<open>t2\<close> the
  table with fresh vectors.\<close>

definition refill :: "'s string_view \<Rightarrow> 's Table \<Rightarrow> 's Table \<Rightarrow> 's tvalue list \<Rightarrow> 's Table \<Rightarrow> bool" where
  "refill H t0 t2 D t \<longleftrightarrow>
     wf_open H t \<and> metatable t = metatable t2 \<and> sizearray t = sizearray t2 \<and>
     lsizenode t = lsizenode t2 \<and> is_dummy t = is_dummy t2 \<and>
     (\<forall>k. proper k \<longrightarrow> tget H t k =
        (if \<exists>k'\<in>set D. luaO_rawequalObj k' k then tget H t0 k else tget H t2 k)) \<and>
     nil_keys (node t2) \<le> nil_keys (node t) + length (filter (\<lambda>k. \<not> in_array t2 k) D)"

lemma tget_cong:
  "wf_open H t \<Longrightarrow> proper a \<Longrightarrow> luaO_rawequalObj a b \<Longrightarrow> tget H t a = tget H t b"
  using luaH_get_cong [of H t a b] by (simp add: tget_def)

lemma set_slot_fields [simp]:
  "metatable (set_slot t s v) = metatable t" "sizearray (set_slot t s v) = sizearray t"
  "lsizenode (set_slot t s v) = lsizenode t" "is_dummy (set_slot t s v) = is_dummy t"
  "length (array (set_slot t s v)) = length (array t)"
  "length (node (set_slot t s v)) = length (node t)"
  by (cases s; simp add: set_slot_def)+

lemma nil_keys_set_slot [simp]: "nil_keys (node (set_slot t s v)) = nil_keys (node t)"
  by (cases s) (auto simp: set_slot_def nil_keys_card intro!: arg_cong [where f = card])

lemma refill_put:
  assumes r: "refill H t0 t2 D t" and wf0: "wf_open H t0" and k: "proper k"
    and s: "slot_for H t k t' s" and v: "v = tget H t0 k"
  shows "refill H t0 t2 (D @ [k]) (set_slot t' s v)"
proof -
  have wf: "wf_open H t" and wf': "wf_open H t'" and sh: "same_shape t t'"
    and g: "luaH_get H t' k = Inr (Some s)"
    using r s by (auto simp: refill_def slot_for_def)
  have ia: "in_array t2 k = in_array t k" using r by (simp add: in_array_def refill_def)
  have "tget H (set_slot t' s v) k' =
      (if \<exists>k''\<in>set (D @ [k]). luaO_rawequalObj k'' k' then tget H t0 k' else tget H t2 k')"
    if "proper k'" for k'
    using set_slot_tget [OF wf' k g that, of v] same_shape_tget [OF wf wf' sh that] r v
      tget_cong [OF wf0 k, of k'] that
    by (auto simp: refill_def)
  then show ?thesis
    using r s set_slot_wf [OF wf' k g, of v] by (auto simp: refill_def slot_for_def same_shape_def ia)
qed

lemma array_put:
  assumes "slot_for H t k t' s" and "proper k" and "sizearray t \<le> i"
  shows "array (set_slot t' s v) ! i = array t ! i"
proof -
  have wf: "wf_open H t'" and sh: "same_shape t t'" and g: "luaH_get H t' k = Inr (Some s)"
    using assms by (auto simp: slot_for_def)
  from wf assms(2) show ?thesis
    using g sh assms(3)
    by (cases rule: luaH_get_cases) (auto simp: set_slot_def in_array_def same_shape_def)
qed

section \<open>Fresh vectors\<close>

definition fresh_nodes :: "nat \<Rightarrow> 's Node list" where
  "fresh_nodes l = replicate (2 ^ l) dummynode"

lemma fresh_nodes_simps [simp]:
  "length (fresh_nodes l) = 2 ^ l"
  "i < 2 ^ l \<Longrightarrow> fresh_nodes l ! i = dummynode"
  by (simp_all add: fresh_nodes_def)

lemma fresh_nodes_ok:
  "links_ok (fresh_nodes l)" "keys_ok mp (fresh_nodes l)" "free_ok (fresh_nodes l) (2 ^ l)"
proof -
  have "nx (fresh_nodes l) i = None" for i by (simp add: nx_def dummynode_def)
  then have "\<exists>xs. chain (nx (fresh_nodes l)) (Some i) xs" for i
    by (intro exI [of _ "[i]"]) simp
  then show "links_ok (fresh_nodes l)"
    by (intro links_okI) (simp_all only: fresh_nodes_simps, auto simp: dummynode_def)
  show "keys_ok mp (fresh_nodes l)"
    by (intro keys_okI) (auto simp: dummynode_def is_nan_value_def)
  show "free_ok (fresh_nodes l) (2 ^ l)" by (simp add: free_ok_def)
qed

lemma nil_keys_fresh: "nil_keys (fresh_nodes l) = 2 ^ l"
  by (simp add: nil_keys_def fresh_nodes_def dummynode_def)

lemma setnodevector_eq:
  assumes "sz \<le> 2 ^ MAXBITS"
  obtains l where
    "setnodevector t sz = Inr (t\<lparr>node := fresh_nodes l, is_dummy := (sz = 0), lsizenode := l,
       lastfree := (if sz = 0 then 0 else 2 ^ l)\<rparr>)"
    "sz \<le> 2 ^ l" "l \<le> MAXBITS" "sz = 0 \<Longrightarrow> l = 0"
proof (cases "sz = 0")
  case True
  then show thesis by (intro that [of 0]) (simp_all add: setnodevector_def fresh_nodes_def)
next
  case False
  have u: "uint (word_of_nat sz :: uint32) = int sz"
    using assms by (simp add: MAXBITS_def unsigned_of_nat take_bit_nat_eq_self)
  have "(word_of_nat sz :: uint32) \<noteq> 0" using u False by (metis of_nat_0_eq_iff uint_0_iff)
  then obtain k where k: "ceillog2 (word_of_nat sz) = int k" "int sz \<le> 2 ^ k"
    "k = 0 \<or> 2 ^ (k - 1) < int sz"
    using ceillog2_spec [of "word_of_nat sz"] u by auto
  have "k \<le> MAXBITS"
  proof (rule ccontr)
    assume "\<not> k \<le> MAXBITS"
    then have "(2::int) ^ MAXBITS \<le> 2 ^ (k - 1)" "k \<noteq> 0" by auto
    moreover have "int sz \<le> 2 ^ MAXBITS" using assms by (metis of_nat_le_iff of_nat_numeral of_nat_power)
    ultimately show False using k(3) by linarith
  qed
  moreover have "sz \<le> 2 ^ k" using k(2) by (metis of_nat_le_iff of_nat_numeral of_nat_power)
  ultimately show thesis
    using False k(1) by (intro that [of k]) (simp_all add: setnodevector_def fresh_nodes_def)
qed

text \<open>A table with fresh nodes holds its array part only.\<close>

lemma fresh_table_wf:
  assumes "node t = fresh_nodes l" and "lsizenode t = l" and "l \<le> MAXBITS"
    and "is_dummy t \<Longrightarrow> l = 0 \<and> lastfree t = 0" and "\<not> is_dummy t \<Longrightarrow> lastfree t = 2 ^ l"
    and "sizearray t \<le> length (array t)" and "int (sizearray t) \<le> INT_MAX"
  shows "wf_open H t"
proof -
  have "\<not> in_array t (key_at (fresh_nodes l) i)" if "i < 2 ^ l" for i
    using that by (simp add: in_array_def arrayindex_def dummynode_def)
  then show ?thesis
    using assms fresh_nodes_ok(1) [of l] fresh_nodes_ok(2) [of "mainpos H l" l]
      fresh_nodes_ok(3) [of l]
    by (cases "is_dummy t") (auto simp: wf_open_def fresh_nodes_def)
qed

lemma fresh_table_tget:
  assumes "wf_open H t" and "node t = fresh_nodes l" and "proper k"
  shows "tget H t k = (if in_array t k then array t ! nat (arrayindex k - 1) else TNil)"
proof -
  have "\<not> holds_key (node t) k i" for i
    using assms(2,3) by (cases k) (auto simp: holds_key_def dummynode_def)
  with assms(1,3) show ?thesis
    by (cases rule: luaH_get_cases) (auto simp: tget_def opt_val_def slot_val_def)
qed

section \<open>Resize\<close>

text \<open>The keys with a value, in the order \<open>resize\<close> goes through them, and those among them
  that do not fit an array part of \<open>n\<close> slots.\<close>

definition array_keys :: "'s Table \<Rightarrow> nat \<Rightarrow> nat \<Rightarrow> 's tvalue list" where
  "array_keys t a b =
     map (\<lambda>i. TNumber (cast_num (int i + 1))) (filter (\<lambda>i. array t ! i \<noteq> TNil) [a..<b])"

definition node_keys :: "'s Node list \<Rightarrow> 's tvalue list" where
  "node_keys nd = map i_key (filter (\<lambda>n. i_val n \<noteq> TNil) nd)"

definition hashed :: "nat \<Rightarrow> 's tvalue \<Rightarrow> bool" where
  "hashed n k \<longleftrightarrow> \<not> (0 < arrayindex k \<and> arrayindex k \<le> int n)"

definition moved :: "'s Table \<Rightarrow> nat \<Rightarrow> 's tvalue list" where
  "moved t n = filter (hashed n) (array_keys t n (sizearray t) @ node_keys (rev (node t)))"

lemma node_keys_simps:
  "node_keys [] = []" "node_keys (xs @ ys) = node_keys xs @ node_keys ys"
  "node_keys [n] = (if i_val n = TNil then [] else [i_key n])"
  by (simp_all add: node_keys_def)

lemma array_keys_simps:
  "array_keys t a a = []"
  "a \<le> b \<Longrightarrow> array_keys t a (Suc b) =
     array_keys t a b @ (if array t ! b = TNil then [] else [TNumber (cast_num (int b + 1))])"
  by (simp_all add: array_keys_def)

lemma tget_array:
  assumes "wf_open H t" and "i < sizearray t"
  shows "tget H t (TNumber (cast_num (int i + 1))) = array t ! i"
proof -
  have c: "is_cint (int i + 1)"
    using assms wf_openD(2) [OF assms(1)] by (simp add: is_cint_def INT_MIN_def)
  then have "in_array t (TNumber (cast_num (int i + 1)))"
    using assms(2) by (simp add: in_array_def arrayindex_cast)
  then show ?thesis
    using luaH_get_eq [OF _ wf_openD(2) [OF assms(1)]] c
    by (simp add: tget_def opt_val_def slot_val_def arrayindex_cast)
qed

lemma node_key_ok:
  assumes "wf_open H t" and "n \<in> set (node t)" and "i_val n \<noteq> TNil"
  shows "proper (i_key n)" "\<not> is_nan_value (i_key n)" "tget H t (i_key n) = i_val n"
proof -
  obtain i where i: "i < length (node t)" "n = node t ! i" using assms(2) by (metis in_set_conv_nth)
  note K = keys_okD [OF wf_openD(7) [OF assms(1)] i(1)]
  show p: "proper (i_key n)" and nn: "\<not> is_nan_value (i_key n)" using K(4,6) i assms(3) by auto
  have "holds_key (node t) (i_key n) i" using i nn by (simp add: holds_key_def rawequal_refl_iff)
  moreover have "\<not> in_array t (i_key n)" using wf_openD(10) [OF assms(1) i(1)] i by simp
  ultimately show "tget H t (i_key n) = i_val n"
    using luaH_get_cases [OF assms(1) p] holds_key_unique [OF assms(1) p]
    by (metis (no_types, lifting) i(2) opt_val_def option.simps(5) slot.simps(6) slot_val_def
        sum.simps(6) tget_def)
qed

text \<open>One step of each loop.\<close>

lemma refill_step:
  assumes r: "refill H t0 t2 D t" and wf0: "wf_open H t0" and k: "proper k"
    and cap: "\<not> in_array t2 k \<Longrightarrow> \<not> is_dummy t2 \<and> length (filter (\<lambda>k. \<not> in_array t2 k) D) < nil_keys (node t2)"
  shows "\<not> is_nan_value k \<Longrightarrow> \<exists>t' s. luaH_set_by (newkey_by nk H) H t k = Inr (t', s) \<and>
      slot_for H t k t' s \<and> refill H t0 t2 (D @ [k]) (set_slot t' s (tget H t0 k))"
    and "is_cint i \<Longrightarrow> k = TNumber (cast_num i) \<Longrightarrow>
      \<exists>t' s. luaH_setnum_by (newkey_by nk H) t i = Inr (t', s) \<and>
      slot_for H t k t' s \<and> refill H t0 t2 (D @ [k]) (set_slot t' s (tget H t0 k))"
proof -
  have wf: "wf_open H t" using r by (simp add: refill_def)
  have cap': "\<not> is_dummy t \<and> 0 < nil_keys (node t)" if "\<not> in_array t k"
    using cap r that by (auto simp: refill_def in_array_def)
  note p = refill_put [OF r wf0 k _ refl]
  show "\<exists>t' s. luaH_set_by (newkey_by nk H) H t k = Inr (t', s) \<and>
      slot_for H t k t' s \<and> refill H t0 t2 (D @ [k]) (set_slot t' s (tget H t0 k))"
    if "\<not> is_nan_value k"
    using set_by_slot_for [OF wf k that cap', of nk] p by blast
  show "\<exists>t' s. luaH_setnum_by (newkey_by nk H) t i = Inr (t', s) \<and>
      slot_for H t k t' s \<and> refill H t0 t2 (D @ [k]) (set_slot t' s (tget H t0 k))"
    if "is_cint i" "k = TNumber (cast_num i)"
    using setnum_by_slot_for [OF wf that cap', of nk] p by blast
qed

lemma not_in_array: "sizearray t = n \<Longrightarrow> (\<not> in_array t k) = hashed n k"
  by (auto simp: in_array_def hashed_def)

lemma moved_cap:
  assumes "D @ k # E = array_keys t n (sizearray t) @ node_keys (rev (node t))" and "hashed n k"
  shows "length (filter (hashed n) D) < length (moved t n)"
proof -
  have "moved t n = filter (hashed n) (D @ k # E)" by (simp only: moved_def assms(1))
  then show ?thesis using assms(2) by simp
qed

lemma array_keys_split:
  assumes "a \<le> b" and "b < c"
  shows "array_keys t a c = array_keys t a b @
    (if array t ! b = TNil then [] else [TNumber (cast_num (int b + 1))]) @ array_keys t (Suc b) c"
proof -
  have "[a..<c] = [a..<b] @ b # [Suc b..<c]"
    using assms upt_add_eq_append [OF assms(1), of "c - b"] by (simp add: upt_conv_Cons)
  then show ?thesis by (simp add: array_keys_def)
qed

lemma reinsert_array_loop:
  assumes wf: "wf_open H t" and b: "sizearray b = n" and r: "refill H t b [] s0"
    and sz: "n \<le> sizearray t" and arr: "\<And>i. n \<le> i \<Longrightarrow> array s0 ! i = array t ! i"
    and cap: "length (moved t n) \<le> nil_keys (node b)" and dm: "is_dummy b \<Longrightarrow> moved t n = []"
  shows "\<exists>s. rfold (reinsert_array (newkey_by nk H)) [n..<sizearray t] s0 = Inr s \<and>
    refill H t b (array_keys t n (sizearray t)) s \<and> length (array s) = length (array s0)"
proof -
  define I where "I xs s \<longleftrightarrow> refill H t b (array_keys t n (n + length xs)) s \<and>
      (\<forall>i\<ge>n. array s ! i = array t ! i) \<and> length (array s) = length (array s0)"
    for xs :: "nat list" and s
  have "\<exists>s. rfold (reinsert_array (newkey_by nk H)) [n..<sizearray t] s0 = Inr s \<and>
      I [n..<sizearray t] s"
  proof (rule rfold_rule)
    show "I [] s0" using r arr by (simp add: I_def array_keys_simps)
    fix xs x ys s
    assume us: "[n..<sizearray t] = xs @ x # ys" and I: "I xs s"
    have "x = [n..<sizearray t] ! length xs" by (simp add: us)
    moreover have l: "length xs < sizearray t - n"
      using arg_cong [OF us, of length] by simp
    ultimately have x: "x = n + length xs" and xl: "x < sizearray t" by auto
    define k :: "'a tvalue" where "k = TNumber (cast_num (int x + 1))"
    define D where "D = array_keys t n x"
    have Dr: "refill H t b D s" and ax: "array s ! x = array t ! x" and bs: "sizearray s = n"
      using I x b by (auto simp: I_def D_def refill_def)
    have D': "array_keys t n (Suc x) = D @ (if array t ! x = TNil then [] else [k])"
      using x by (simp add: array_keys_simps D_def k_def)
    show "\<exists>s'. reinsert_array (newkey_by nk H) x s = Inr s' \<and> I (xs @ [x]) s'"
    proof (cases "array t ! x = TNil")
      case True
      then show ?thesis using I D' x by (simp add: reinsert_array_def ax I_def D_def)
    next
      case False
      have "D @ k # array_keys t (Suc x) (sizearray t) = array_keys t n (sizearray t)"
        using array_keys_split [of n x "sizearray t" t] x xl False by (simp add: D_def k_def)
      then have "D @ k # (array_keys t (Suc x) (sizearray t) @ node_keys (rev (node t))) =
          array_keys t n (sizearray t) @ node_keys (rev (node t))" by simp
      note c = moved_cap [OF this]
      have "is_cint (int x + 1)"
        using xl wf_openD(2) [OF wf] by (simp add: is_cint_def INT_MIN_def)
      moreover have "\<not> is_dummy b \<and> length (filter (\<lambda>k. \<not> in_array b k) D) < nil_keys (node b)"
        if "\<not> in_array b k"
        using c that cap dm by (auto simp: not_in_array [OF b])
      ultimately obtain t' s' where *: "luaH_setnum_by (newkey_by nk H) s (int x + 1) = Inr (t', s')"
        "slot_for H s k t' s'" "refill H t b (D @ [k]) (set_slot t' s' (tget H t k))"
        using refill_step(2) [OF Dr wf _ _ _ k_def, of nk] by (auto simp: k_def)
      have v: "tget H t k = array t ! x" unfolding k_def by (rule tget_array [OF wf xl])
      have "\<forall>i\<ge>n. array (set_slot t' s' (tget H t k)) ! i = array t ! i"
        using array_put [OF *(2), of _ "tget H t k"] I bs by (simp add: I_def k_def)
      moreover have "length (array t') = length (array s)"
        using *(2) by (simp add: slot_for_def same_shape_def)
      ultimately show ?thesis
        using * False D' I x v by (simp add: reinsert_array_def ax I_def)
    qed
  qed
  then show ?thesis using sz by (auto simp: I_def)
qed

lemma reinsert_node_loop:
  assumes wf: "wf_open H t" and b: "sizearray b = n"
    and r: "refill H t b (array_keys t n (sizearray t)) s0"
    and cap: "length (moved t n) \<le> nil_keys (node b)" and dm: "is_dummy b \<Longrightarrow> moved t n = []"
  shows "\<exists>s. rfold (reinsert_node (newkey_by nk H) H) (rev (node t)) s0 = Inr s \<and>
    refill H t b (array_keys t n (sizearray t) @ node_keys (rev (node t))) s \<and>
    length (array s) = length (array s0)"
proof -
  define A where "A = array_keys t n (sizearray t)"
  define I where "I xs s \<longleftrightarrow> refill H t b (A @ node_keys xs) s \<and> length (array s) = length (array s0)"
    for xs s
  have "\<exists>s. rfold (reinsert_node (newkey_by nk H) H) (rev (node t)) s0 = Inr s \<and> I (rev (node t)) s"
  proof (rule rfold_rule)
    show "I [] s0" using r by (simp add: I_def node_keys_simps A_def)
    fix xs x ys s
    assume us: "rev (node t) = xs @ x # ys" and I: "I xs s"
    show "\<exists>s'. reinsert_node (newkey_by nk H) H x s = Inr s' \<and> I (xs @ [x]) s'"
    proof (cases "i_val x = TNil")
      case True
      then show ?thesis using I by (simp add: reinsert_node_def I_def node_keys_simps)
    next
      case False
      define k where "k = i_key x"
      have "x \<in> set (node t)" using us by (metis in_set_conv_decomp set_rev)
      note kx = node_key_ok [OF wf this False, folded k_def]
      have "(A @ node_keys xs) @ k # node_keys ys = A @ node_keys (rev (node t))"
        using False by (simp add: us node_keys_def k_def)
      note c = moved_cap [OF this [unfolded A_def], folded A_def]
      have "\<not> is_dummy b \<and>
          length (filter (\<lambda>k. \<not> in_array b k) (A @ node_keys xs)) < nil_keys (node b)"
        if "\<not> in_array b k"
        using c that cap dm unfolding not_in_array [OF b] by auto
      then obtain t' s' where *: "luaH_set_by (newkey_by nk H) H s k = Inr (t', s')"
        "slot_for H s k t' s'"
        "refill H t b ((A @ node_keys xs) @ [k]) (set_slot t' s' (tget H t k))"
        using refill_step(1) [OF _ wf kx(1) _ kx(2), of b "A @ node_keys xs" s nk] I
        by (auto simp: I_def)
      have "length (array t') = length (array s)"
        using *(2) by (simp add: slot_for_def same_shape_def)
      then show ?thesis
        using * False I kx(3) by (simp add: reinsert_node_def I_def node_keys_simps k_def)
    qed
  qed
  then show ?thesis by (simp add: I_def A_def)
qed

lemma refill_base:
  "wf_open H b \<Longrightarrow> refill H t0 b [] b"
  by (simp add: refill_def)

lemma refill_shrink:
  assumes "refill H t0 b D t" and "sizearray t \<le> n"
  shows "refill H t0 b D (t\<lparr>array := take n (array t)\<rparr>)"
proof -
  define t' where "t' = t\<lparr>array := take n (array t)\<rparr>"
  have ia: "in_array t' k = in_array t k" for k by (simp add: t'_def in_array_def)
  have wf: "wf_open H t" using assms by (simp add: refill_def)
  then have wf': "wf_open H t'" using assms(2) by (auto simp: wf_open_def ia) (auto simp: t'_def)
  have "tget H t' k = tget H t k" if p: "proper k" for k
  proof -
    have "get_default H t' k = get_default H t k"
      by (simp add: t'_def get_default_def search_chain_def mainposition_def)
    then have g: "luaH_get H t' k = luaH_get H t k"
      using luaH_get_eq [OF p wf_openD(2) [OF wf]] luaH_get_eq [OF p wf_openD(2) [OF wf']] ia by simp
    from wf p show ?thesis
    proof (cases rule: luaH_get_cases)
      case array
      then have "nat (arrayindex k - 1) < n" using assms(2) by (auto simp: in_array_def)
      then show ?thesis using g array(2) by (simp add: tget_def opt_val_def slot_val_def t'_def)
    next
      case (node i)
      then show ?thesis using g by (simp add: tget_def opt_val_def slot_val_def t'_def)
    next
      case absent
      then show ?thesis using g by (simp add: tget_def opt_val_def)
    qed
  qed
  then show ?thesis using assms(1) wf' by (simp add: refill_def t'_def)
qed

text \<open>When every key with a value outside the common array range has been re-inserted, the
  contents are those of the old table.\<close>

lemma refill_complete:
  assumes wf: "wf_open H t" and b: "wf_open H b" "node b = fresh_nodes l" "sizearray b = n"
    and arr: "\<And>i. i < n \<Longrightarrow> array b ! i = (if i < sizearray t then array t ! i else TNil)"
    and r: "refill H t b (array_keys t n (sizearray t) @ node_keys (rev (node t))) t'"
    and p: "proper k"
  shows "tget H t' k = tget H t k"
proof -
  define L where "L = array_keys t n (sizearray t) @ node_keys (rev (node t))"
  have e: "tget H t' k = (if \<exists>k'\<in>set L. luaO_rawequalObj k' k then tget H t k else tget H b k)"
    using r p by (simp add: refill_def L_def)
  have bk: "tget H b k = (if in_array b k then array b ! nat (arrayindex k - 1) else TNil)"
    by (rule fresh_table_tget [OF b(1,2) p])
  from wf p show ?thesis
  proof (cases rule: luaH_get_cases)
    case array
    then have v: "tget H t k = array t ! nat (arrayindex k - 1)"
      by (simp add: tget_def opt_val_def slot_val_def)
    show ?thesis
    proof (cases "in_array b k")
      case True
      define i where "i = nat (arrayindex k - 1)"
      have "i < n" "i < sizearray t" using True array(1) b(3) by (auto simp: i_def in_array_def)
      then show ?thesis using e bk v arr [of i] True by (simp add: i_def)
    next
      case False
      define i where "i = nat (arrayindex k - 1)"
      have i: "arrayindex k = int i + 1" "n \<le> i" "i < sizearray t"
        using False array(1) b(3) by (auto simp: i_def in_array_def)
      have "\<exists>k'\<in>set L. luaO_rawequalObj k' k" if "array t ! i \<noteq> TNil"
      proof -
        have "TNumber (cast_num (int i + 1)) \<in> set L"
          using that i by (auto simp: L_def array_keys_def)
        moreover have "luaO_rawequalObj (TNumber (cast_num (int i + 1))) k"
          using arrayindex_pos [of k] i by (simp add: rawequal_sym)
        ultimately show ?thesis by blast
      qed
      then show ?thesis using e bk v False by (cases "array t ! i = TNil") (auto simp: i_def)
    qed
  next
    case (node i)
    then have v: "tget H t k = val_at (node t) i" by (simp add: tget_def opt_val_def slot_val_def)
    have "\<exists>k'\<in>set L. luaO_rawequalObj k' k" if "val_at (node t) i \<noteq> TNil"
      using that node(2) by (auto simp: L_def node_keys_def holds_key_def)
    moreover have "tget H b k = TNil" if "\<not> in_array t k"
      using bk arr b(3) that by (auto simp: in_array_def)
    ultimately show ?thesis using e v node(1) by (cases "val_at (node t) i = TNil") auto
  next
    case absent
    then have "tget H t k = TNil" by (simp add: tget_def opt_val_def)
    moreover have "tget H b k = TNil"
      using bk arr b(3) absent(1) by (auto simp: in_array_def)
    ultimately show ?thesis using e by simp
  qed
qed

lemma resize_ok:
  assumes wf: "wf_table H t" and n: "int n \<le> INT_MAX" and h: "h \<le> 2 ^ MAXBITS"
    and cap: "length (moved t n) \<le> h"
  obtains t' where "resize_table (newkey_by nk H) H t n h = Inr t'" and "wf_table H t'"
    and "sizearray t' = n" and "metatable t' = metatable t" and "is_dummy t' = (h = 0)"
    and "\<And>k. proper k \<Longrightarrow> tget H t' k = tget H t k"
    and "h \<le> nil_keys (node t') + length (moved t n)"
proof -
  have wo: "wf_open H t" and la: "length (array t) = sizearray t" using wf by (auto simp: wf_table_def)
  define t1 where "t1 = (if sizearray t < n then setarrayvector t n else t)"
  obtain l where sn: "setnodevector t1 h = Inr (t1\<lparr>node := fresh_nodes l, is_dummy := (h = 0),
      lsizenode := l, lastfree := (if h = 0 then 0 else 2 ^ l)\<rparr>)"
    and hl: "h \<le> 2 ^ l" "l \<le> MAXBITS" "h = 0 \<Longrightarrow> l = 0"
    using setnodevector_eq [OF h] by blast
  define t2 where "t2 = t1\<lparr>node := fresh_nodes l, is_dummy := (h = 0), lsizenode := l,
      lastfree := (if h = 0 then 0 else 2 ^ l)\<rparr>"
  define b where "b = t2\<lparr>sizearray := n\<rparr>"
  have bn: "sizearray b = n" "node b = fresh_nodes l" "is_dummy b = (h = 0)" "lsizenode b = l"
    "metatable b = metatable t" by (simp_all add: b_def t2_def t1_def setarrayvector_def)
  have ab: "array b = array t1" by (simp add: b_def t2_def)
  have al: "length (array b) = max n (sizearray t)"
    by (simp add: ab t1_def setarrayvector_def la)
  have ai: "array b ! i = (if i < sizearray t then array t ! i else TNil)" if "i < n" for i
    using that by (auto simp: ab t1_def setarrayvector_def nth_append la)
  have wb: "wf_open H b"
    by (rule fresh_table_wf [where l = l]) (use n hl al bn in \<open>auto simp: b_def t2_def\<close>)
  have nb: "nil_keys (node b) = 2 ^ l" by (simp add: bn nil_keys_fresh)
  have cb: "length (moved t n) \<le> nil_keys (node b)" "is_dummy b \<Longrightarrow> moved t n = []"
    using cap hl(1) nb bn by auto
  have "\<exists>t4. (if n < sizearray t
      then rbind (rfold (reinsert_array (newkey_by nk H)) [n..<sizearray t] (t2\<lparr>sizearray := n\<rparr>))
        (\<lambda>t3. Inr (t3\<lparr>array := take n (array t3)\<rparr>)) else Inr t2) = Inr t4 \<and>
      refill H t b (array_keys t n (sizearray t)) t4 \<and> length (array t4) = n"
  proof (cases "n < sizearray t")
    case True
    have "array b ! i = array t ! i" for i using True by (simp add: ab t1_def)
    then obtain s where s: "rfold (reinsert_array (newkey_by nk H)) [n..<sizearray t] b = Inr s"
      "refill H t b (array_keys t n (sizearray t)) s" "length (array s) = length (array b)"
      using reinsert_array_loop [OF wo bn(1) refill_base [OF wb] _ _ cb, of nk] True by auto
    have "sizearray s = n" using s(2) bn by (simp add: refill_def)
    then have "refill H t b (array_keys t n (sizearray t)) (s\<lparr>array := take n (array s)\<rparr>)"
      using refill_shrink [OF s(2)] by simp
    then show ?thesis using True s al by (simp add: b_def)
  next
    case False
    then have "b = t2" by (auto simp: b_def t2_def t1_def setarrayvector_def)
    then show ?thesis using False refill_base [OF wb] al by (auto simp: array_keys_def)
  qed
  then obtain t4 where t4: "(if n < sizearray t
      then rbind (rfold (reinsert_array (newkey_by nk H)) [n..<sizearray t] (t2\<lparr>sizearray := n\<rparr>))
        (\<lambda>t3. Inr (t3\<lparr>array := take n (array t3)\<rparr>)) else Inr t2) = Inr t4"
    "refill H t b (array_keys t n (sizearray t)) t4" "length (array t4) = n" by blast
  obtain t' where t': "rfold (reinsert_node (newkey_by nk H) H) (rev (node t)) t4 = Inr t'"
    "refill H t b (array_keys t n (sizearray t) @ node_keys (rev (node t))) t'"
    "length (array t') = n"
    using reinsert_node_loop [OF wo bn(1) t4(2) cb, of nk] t4(3) by auto
  have "resize_table (newkey_by nk H) H t n h = Inr t'"
    using t4(1) t'(1) sn by (simp add: resize_table_def t1_def [symmetric] t2_def [symmetric])
  moreover have "h \<le> nil_keys (node t') + length (moved t n)"
    using t'(2) hl(1) nb by (simp add: refill_def moved_def not_in_array [OF bn(1)])
  ultimately show thesis
    using t'(2,3) bn refill_complete [OF wo wb bn(2,1) ai t'(2)]
    by (intro that [of t']) (auto simp: refill_def wf_table_def)
qed

end
