(* ===== verification/LTableRehash.thy ===== *)
theory LTableRehash
  imports LTableResize
begin

text \<open>
  \<open>rehash\<close> and \<open>luaH_set\<close> of \<open>ltable.c\<close>: the counting functions against the list of the keys
  that have a value, the array size that \<open>computesizes\<close> chooses, and the refinement of
  \<open>luaH_set\<close> to an update of the map a table represents.
\<close>

section \<open>Counting candidates\<close>

text \<open>Slice \<open>j\<close> holds the integer keys in (2^(j-1), 2^j].\<close>

definition slice :: "nat \<Rightarrow> 's tvalue \<Rightarrow> bool" where
  "slice j k \<longleftrightarrow> 0 < arrayindex k \<and> arrayindex k \<le> 2 ^ j \<and> (j = 0 \<or> 2 ^ (j - 1) < arrayindex k)"

definition candidate :: "'s tvalue \<Rightarrow> bool" where
  "candidate k \<longleftrightarrow> 0 < arrayindex k \<and> arrayindex k \<le> MAXASIZE"

definition counts :: "nat list \<Rightarrow> 's tvalue list \<Rightarrow> bool" where
  "counts nums K \<longleftrightarrow> length nums = Suc MAXBITS \<and>
     (\<forall>j\<le>MAXBITS. nums ! j = length (filter (slice j) K))"

lemma slice_unique: "slice i k \<Longrightarrow> slice j k \<Longrightarrow> i = j"
proof (rule ccontr)
  have less: False if "slice a k" "slice b k" "a < b" for a b
  proof -
    have "(2::int) ^ a \<le> 2 ^ (b - 1)" using that(3) by (intro power_increasing) auto
    moreover have "arrayindex k \<le> 2 ^ a" "2 ^ (b - 1) < arrayindex k"
      using that by (simp_all add: slice_def)
    ultimately show False by linarith
  qed
  assume "slice i k" "slice j k" "i \<noteq> j"
  then show False using less [of i j] less [of j i] by linarith
qed

lemma not_candidate_slice: "j \<le> MAXBITS \<Longrightarrow> slice j k \<Longrightarrow> candidate k"
proof -
  assume j: "j \<le> MAXBITS" and s: "slice j k"
  have "(2::int) ^ j \<le> 2 ^ MAXBITS" using j by (intro power_increasing) auto
  moreover have "0 < arrayindex k" "arrayindex k \<le> 2 ^ j" using s by (simp_all add: slice_def)
  ultimately show ?thesis unfolding candidate_def MAXASIZE_def by (intro conjI) (auto intro: order_trans)
qed

lemma counts_snoc:
  assumes "counts nums K" and "slice c k" and "c \<le> MAXBITS"
  shows "counts (nums[c := nums ! c + 1]) (K @ [k])"
proof -
  have "slice j k = (j = c)" for j using slice_unique [OF assms(2), of j] assms(2) by blast
  then show ?thesis using assms by (simp add: counts_def nth_list_update)
qed

lemma counts_skip: "counts nums K \<Longrightarrow> \<not> candidate k \<Longrightarrow> counts nums (K @ [k])"
  using not_candidate_slice by (auto simp: counts_def)

lemma countint_counts:
  assumes "counts nums K"
  shows "\<exists>nums'. countint k nums = (if candidate k then 1 else 0, nums') \<and> counts nums' (K @ [k])"
proof (cases "candidate k")
  case True
  define i where "i = arrayindex k"
  have i: "0 < i" "i \<le> 2 ^ MAXBITS" using True by (simp_all add: candidate_def i_def MAXASIZE_def)
  have u: "uint (word_of_int i :: uint32) = i"
    using i by (simp add: MAXBITS_def unsigned_of_int take_bit_int_eq_self)
  then have "(word_of_int i :: uint32) \<noteq> 0" using i by (metis uint_0_iff less_irrefl)
  then obtain c where c: "ceillog2 (word_of_int i) = int c" "i \<le> 2 ^ c" "c = 0 \<or> 2 ^ (c - 1) < i"
    using ceillog2_spec [of "word_of_int i"] u by auto
  have "c \<le> MAXBITS"
  proof (rule ccontr)
    assume "\<not> c \<le> MAXBITS"
    then have "(2::int) ^ MAXBITS \<le> 2 ^ (c - 1)" "c \<noteq> 0" by (auto intro!: power_increasing)
    then show False using c i by linarith
  qed
  moreover have "slice c k" using c i by (simp add: slice_def i_def)
  ultimately show ?thesis
    using True counts_snoc [OF assms] c(1)
    by (simp add: countint_def candidate_def i_def [symmetric] Let_def)
next
  case False
  then show ?thesis using counts_skip [OF assms] by (auto simp: countint_def candidate_def Let_def)
qed

lemma numusehash_counts:
  assumes "counts nums K"
  shows "\<exists>nums'. numusehash t nums p =
      (length (node_keys (rev (node t))),
       p + length (filter candidate (node_keys (rev (node t)))), nums') \<and>
    counts nums' (K @ node_keys (rev (node t)))"
proof -
  have "\<exists>nums'. fold numusehash_step ns (u, a, nums) =
      (u + length (node_keys ns), a + length (filter candidate (node_keys ns)), nums') \<and>
      counts nums' (K @ node_keys ns)" if "counts nums K" for ns u a nums K
    using that
  proof (induction ns arbitrary: u a nums K)
    case Nil
    then show ?case by (simp add: node_keys_simps)
  next
    case (Cons n ns)
    show ?case
    proof (cases "i_val n = TNil")
      case True
      then show ?thesis using Cons by (simp add: numusehash_step_def node_keys_def)
    next
      case False
      obtain nums' where n: "countint (i_key n) nums = (if candidate (i_key n) then 1 else 0, nums')"
        "counts nums' (K @ [i_key n])"
        using countint_counts [OF Cons.prems] by blast
      show ?thesis
        using Cons.IH [OF n(2), of "u + 1" "a + (if candidate (i_key n) then 1 else 0)"] n(1) False
        by (auto simp: numusehash_step_def node_keys_def)
    qed
  qed
  from this [OF assms, of "rev (node t)" 0 0] show ?thesis
    by (auto simp: numusehash_def)
qed

lemma counts_append:
  assumes "counts nums K" and "c \<le> MAXBITS" and "\<And>k. k \<in> set ks \<Longrightarrow> slice c k"
  shows "counts (nums[c := nums ! c + length ks]) (K @ ks)"
proof -
  have "filter (slice j) ks = (if j = c then ks else [])" for j
    using assms(3) slice_unique by (auto simp: filter_id_conv filter_empty_conv)
  then show ?thesis using assms(1,2) by (auto simp: counts_def nth_list_update)
qed

lemma array_keys_append:
  "a \<le> b \<Longrightarrow> b \<le> c \<Longrightarrow> array_keys t a c = array_keys t a b @ array_keys t b c"
  unfolding array_keys_def using upt_add_eq_append [of a b "c - b"] by simp

lemma arrayindex_array_key:
  assumes "k \<in> set (array_keys t a b)" and "int b \<le> INT_MAX"
  shows "\<exists>j. a \<le> j \<and> j < b \<and> arrayindex k = int j + 1"
proof -
  obtain j where j: "a \<le> j" "j < b" "k = TNumber (cast_num (int j + 1))"
    using assms(1) by (auto simp: array_keys_def)
  moreover have "is_cint (int j + 1)"
    using j assms(2) by (simp add: is_cint_def INT_MIN_def)
  ultimately show ?thesis using arrayindex_cast by auto
qed

lemma array_key_range:
  "k \<in> set (array_keys t a b) \<Longrightarrow> int b \<le> INT_MAX \<Longrightarrow>
    int a < arrayindex k \<and> arrayindex k \<le> int b"
  using arrayindex_array_key [of k t a b] by linarith

lemma numusearray_loop_counts:
  assumes "int (sizearray t) \<le> MAXASIZE" and "counts nums (array_keys t 0 p)"
    and "p = (if lg = 0 then 0 else min (2 ^ (lg - 1)) (sizearray t))"
    and "lg \<le> Suc MAXBITS" and "ause = length (array_keys t 0 p)"
  shows "\<exists>nums'. numusearray_loop t lg (Suc p) ause nums =
      (length (array_keys t 0 (sizearray t)), nums') \<and> counts nums' (array_keys t 0 (sizearray t))"
  using assms(2-5)
proof (induction "Suc MAXBITS - lg" arbitrary: lg p ause nums)
  case 0
  have "int (sizearray t) \<le> int (2 ^ MAXBITS)" using assms(1) by (simp add: MAXASIZE_def)
  then have "sizearray t \<le> 2 ^ MAXBITS" by (simp only: of_nat_le_iff)
  moreover have "lg = Suc MAXBITS" using 0 by simp
  ultimately have "p = sizearray t" using 0 by (simp add: min_absorb2)
  moreover have "\<not> lg \<le> MAXBITS" using 0 by simp
  ultimately show ?case using 0 by (subst numusearray_loop.simps) simp
next
  case (Suc d)
  have lg: "lg \<le> MAXBITS" using Suc.hyps by simp
  define lim where "lim = min (2 ^ lg) (sizearray t)"
  have pw: "(2::nat) ^ (lg - 1) \<le> 2 ^ lg" by (intro power_increasing) auto
  have pl: "p \<le> lim" using Suc.prems(2) pw
    by (auto simp: lim_def intro: order_trans [OF min.cobounded1])
  show ?case
  proof (cases "sizearray t < 2 ^ lg \<and> lim < Suc p")
    case True
    then have "lim = sizearray t" by (simp add: lim_def)
    then have "p = sizearray t" using pl True by simp
    then show ?thesis
      using True Suc.prems lg by (subst numusearray_loop.simps) (simp add: lim_def)
  next
    case False
    define ks where "ks = array_keys t p lim"
    have ks: "slice lg k" if k: "k \<in> set ks" for k
    proof -
      have "int lim \<le> INT_MAX"
        using assms(1) by (simp add: lim_def MAXASIZE_def MAXBITS_def INT_MAX_def)
      then obtain j where j: "p \<le> j" "j < lim" "arrayindex k = int j + 1"
        using arrayindex_array_key [of k t p lim] k by (auto simp: ks_def)
      have "int j + 1 \<le> int (2 ^ lg)" using j(2) by (simp add: lim_def flip: of_nat_Suc del: of_nat_Suc of_nat_power)
      then have "arrayindex k \<le> 2 ^ lg" using j(3) by simp
      moreover have "2 ^ (lg - 1) < arrayindex k" if "lg \<noteq> 0"
      proof -
        have "p < sizearray t" using j by (simp add: lim_def)
        then have "2 ^ (lg - 1) \<le> j" using Suc.prems(2) that j(1) by (auto simp: min_def split: if_splits)
        then have "int (2 ^ (lg - 1)) \<le> int j" by (simp only: of_nat_le_iff)
        then show ?thesis using j(3) by simp
      qed
      ultimately show ?thesis using j(3) by (auto simp: slice_def)
    qed
    have "[Suc p..<Suc lim] = map Suc [p..<lim]" by (simp only: map_Suc_upt)
    then have lc: "length (filter (\<lambda>j. \<not> ttisnil (array t ! (j - 1))) [Suc p..<Suc lim]) = length ks"
      by (simp add: ks_def array_keys_def filter_map comp_def)
    have ak: "array_keys t 0 lim = array_keys t 0 p @ ks"
      unfolding ks_def using pl by (intro array_keys_append) auto
    have c: "counts (nums[lg := nums ! lg + length ks]) (array_keys t 0 lim)"
      unfolding ak by (rule counts_append [OF Suc.prems(1) lg ks])
    have "numusearray_loop t lg (Suc p) ause nums =
        numusearray_loop t (Suc lg) (Suc lim) (ause + length ks) (nums[lg := nums ! lg + length ks])"
      using False lg pl lc
      by (subst numusearray_loop.simps)
        (simp add: lim_def [symmetric] max_def Let_def del: upt_Suc ttisnil_simps, auto)
    moreover have "\<exists>nums'. numusearray_loop t (Suc lg) (Suc lim) (ause + length ks)
        (nums[lg := nums ! lg + length ks]) =
        (length (array_keys t 0 (sizearray t)), nums') \<and> counts nums' (array_keys t 0 (sizearray t))"
      by (rule Suc.hyps(1) [OF _ c]) (use Suc lg ak in \<open>auto simp: lim_def\<close>)
    ultimately show ?thesis by simp
  qed
qed

lemma numusearray_counts:
  assumes "int (sizearray t) \<le> MAXASIZE"
  shows "\<exists>nums. numusearray t (replicate (Suc MAXBITS) 0) =
      (length (array_keys t 0 (sizearray t)), nums) \<and> counts nums (array_keys t 0 (sizearray t))"
proof -
  have "counts (replicate (Suc MAXBITS) 0) []" by (simp add: counts_def del: replicate_Suc)
  then show ?thesis
    using numusearray_loop_counts [OF assms, of _ 0 0 0] unfolding numusearray_def
    by (simp add: array_keys_simps)
qed

section \<open>The size of the array part\<close>

definition csum :: "nat list \<Rightarrow> nat \<Rightarrow> nat" where
  "csum nums i = (\<Sum>j\<le>i. nums ! j)"

text \<open>\<open>(n, na)\<close> is the best choice among the powers of two up to \<open>2 ^ i\<close>: more than half of
  its slots are used, and no size that is so used holds more keys.\<close>

definition best_size :: "nat list \<Rightarrow> (nat \<Rightarrow> bool) \<Rightarrow> nat \<Rightarrow> nat \<Rightarrow> bool" where
  "best_size nums R n na \<longleftrightarrow>
     (n = 0 \<and> na = 0 \<or> (\<exists>i. R i \<and> n = 2 ^ i \<and> na = csum nums i \<and> n div 2 < na)) \<and>
     (\<forall>i. R i \<longrightarrow> 2 ^ i div 2 < csum nums i \<longrightarrow> csum nums i \<le> na)"

lemma csum_mono: "i \<le> j \<Longrightarrow> csum nums i \<le> csum nums j"
  unfolding csum_def by (rule sum_mono2) auto

lemma csum_Suc: "csum nums (Suc i) = csum nums i + nums ! Suc i"
  by (simp add: csum_def)

lemma best_size_upto:
  assumes "best_size nums R n na" and "\<And>i. R i \<Longrightarrow> R' i"
    and "\<And>j. R' j \<Longrightarrow> \<not> R j \<Longrightarrow> 2 ^ j div 2 < csum nums j \<Longrightarrow> csum nums j \<le> na"
  shows "best_size nums R' n na"
  using assms unfolding best_size_def by blast

lemma best_size_extend:
  assumes "best_size nums (\<lambda>j. j < i) n na" and a: "a' = csum nums i"
    and "(n', na') = (if 0 < nums ! i \<and> 2 ^ i div 2 < a' then (a' * 0 + 2 ^ i, a') else (n, na))"
  shows "best_size nums (\<lambda>j. j < Suc i) n' na'"
proof (cases "0 < nums ! i \<and> 2 ^ i div 2 < a'")
  case True
  then have "n' = 2 ^ i" "na' = a'" using assms(3) by auto
  then show ?thesis
    using True a csum_mono [of _ i nums] unfolding best_size_def by (auto simp: less_Suc_eq_le)
next
  case False
  then have e: "n' = n" "na' = na" using assms(3) by auto
  have "csum nums i \<le> na" if h: "2 ^ i div 2 < csum nums i"
  proof (cases i)
    case 0
    then show ?thesis using False h a by (simp add: csum_def)
  next
    case (Suc j)
    have z: "nums ! i = 0" using False h a by auto
    then have s: "csum nums i = csum nums j" using Suc by (simp add: csum_Suc)
    have "(2::nat) ^ j div 2 \<le> 2 ^ i div 2" using Suc by (intro div_le_mono) simp
    then have "2 ^ j div 2 < csum nums j" using h s by simp
    then show ?thesis using assms(1) s Suc by (auto simp: best_size_def)
  qed
  then show ?thesis using assms(1) e unfolding best_size_def by (auto simp: less_Suc_eq)
qed

lemma computesizes_loop_best:
  assumes "csum nums m = N" and "best_size nums (\<lambda>j. j < i) n na"
    and "a = (if i = 0 then 0 else csum nums (i - 1))" and "i = 0 \<or> a \<noteq> N" and "i \<le> Suc m"
  shows "case computesizes_loop nums N i a na n of (n', na') \<Rightarrow> best_size nums (\<lambda>j. j \<le> m) n' na'"
  using assms
proof (induction nums N i a na n rule: computesizes_loop.induct)
  case (1 nums N i a na n)
  have lim: "csum nums j \<le> N" if "j \<le> m" for j using csum_mono [OF that, of nums] "1.prems"(1) by simp
  have im: "i \<le> m"
    using "1.prems" by (cases "i = Suc m") auto
  show ?case
  proof (cases "2 ^ i div 2 < N")
    case False
    have "\<not> 2 ^ j div 2 < csum nums j" if "i \<le> j" "j \<le> m" for j
    proof -
      have "(2::nat) ^ i div 2 \<le> 2 ^ j div 2" using that by (intro div_le_mono power_increasing) auto
      then show ?thesis using False lim [OF that(2)] by linarith
    qed
    then have "best_size nums (\<lambda>j. j \<le> m) n na"
      using im by (intro best_size_upto [OF "1.prems"(2)]) auto
    then show ?thesis using False by (subst computesizes_loop.simps) simp
  next
    case True
    define a' where "a' = a + nums ! i"
    have a': "a' = csum nums i"
      using "1.prems"(3) by (cases i) (auto simp: a'_def csum_def)
    obtain n' na' where e: "(n', na') = (if 0 < nums ! i \<and> 2 ^ i div 2 < a' then (2 ^ i, a') else (n, na))"
      by (metis surj_pair)
    have b: "best_size nums (\<lambda>j. j < Suc i) n' na'"
      by (rule best_size_extend [OF "1.prems"(2) a']) (use e in simp)
    have e': "(if 0 < nums ! i \<and> 2 ^ i div 2 < a' then (a', 2 ^ i) else (na, n)) = (na', n')"
      using e by (auto split: if_splits)
    have step: "computesizes_loop nums N i a na n =
        (if a' = N then (n', na') else computesizes_loop nums N (Suc i) a' na' n')"
      by (subst computesizes_loop.simps) (simp only: Let_def a'_def [symmetric] e' prod.case True if_True)
    show ?thesis
    proof (cases "a' = N")
      case True
      have "csum nums j \<le> na'" if j: "j \<le> m" "\<not> j < Suc i" "2 ^ j div 2 < csum nums j" for j
      proof -
        have "csum nums j = csum nums i"
          using csum_mono [of i j nums] lim [OF j(1)] j(2) \<open>a' = N\<close> a' by simp
        moreover have "(2::nat) ^ i div 2 \<le> 2 ^ j div 2"
          using j(2) by (intro div_le_mono power_increasing) auto
        ultimately show ?thesis using b j(3) by (simp add: best_size_def)
      qed
      then have "best_size nums (\<lambda>j. j \<le> m) n' na'"
        using im by (intro best_size_upto [OF b]) auto
      then show ?thesis using step True by simp
    next
      case False
      have "case computesizes_loop nums N (Suc i) a' na' n' of
          (n'', na'') \<Rightarrow> best_size nums (\<lambda>j. j \<le> m) n'' na''"
        by (rule "1.IH" [OF True a'_def refl e' [symmetric] False "1.prems"(1) b])
          (use False a' im in auto)
      then show ?thesis using step False by simp
    qed
  qed
qed

lemma computesizes_best:
  assumes "csum nums MAXBITS = N" and "computesizes nums N = (n, na)"
  shows "best_size nums (\<lambda>j. j \<le> MAXBITS) n na"
  using computesizes_loop_best [OF assms(1), of 0 0 0 0] assms(2)
  by (simp add: computesizes_def best_size_def)

section \<open>Rehash\<close>

definition live_keys :: "'s Table \<Rightarrow> 's tvalue list" where
  "live_keys t = array_keys t 0 (sizearray t) @ node_keys (rev (node t))"

lemma length_filter_disjoint:
  "(\<And>x. x \<in> set xs \<Longrightarrow> R x \<longleftrightarrow> P x \<or> Q x) \<Longrightarrow> (\<And>x. x \<in> set xs \<Longrightarrow> \<not> (P x \<and> Q x)) \<Longrightarrow>
   length (filter R xs) = length (filter P xs) + length (filter Q xs)"
  by (induction xs) auto

lemma csum_counts:
  assumes "counts nums K" and "i \<le> MAXBITS"
  shows "csum nums i = length (filter (\<lambda>k. 0 < arrayindex k \<and> arrayindex k \<le> 2 ^ i) K)"
  using assms(2)
proof (induction i)
  case 0
  have "slice 0 = (\<lambda>k :: 'a tvalue. 0 < arrayindex k \<and> arrayindex k \<le> 2 ^ 0)"
    by (rule ext) (simp add: slice_def)
  then show ?case using assms(1) by (simp add: csum_def counts_def)
next
  case (Suc i)
  have "(2::int) ^ i \<le> 2 ^ Suc i" by simp
  then have "length (filter (\<lambda>k. 0 < arrayindex k \<and> arrayindex k \<le> 2 ^ Suc i) K) =
      length (filter (\<lambda>k. 0 < arrayindex k \<and> arrayindex k \<le> 2 ^ i) K) +
      length (filter (slice (Suc i)) K)"
    by (intro length_filter_disjoint) (auto simp: slice_def simp del: power_Suc intro: order_trans)
  then show ?case using Suc assms(1) by (simp add: csum_Suc counts_def del: power_Suc)
qed

lemma hashed_moved:
  assumes "int (sizearray t) \<le> INT_MAX"
  shows "filter (hashed n) (live_keys t) = moved t n"
proof -
  have none: "filter (hashed n) (array_keys t 0 b) = []" if "b \<le> n" "b \<le> sizearray t" for b
    using array_key_range [of _ t 0 b] that assms
    by (fastforce simp: filter_empty_conv hashed_def)
  have "filter (hashed n) (array_keys t 0 (sizearray t)) = filter (hashed n) (array_keys t n (sizearray t))"
  proof (cases "n \<le> sizearray t")
    case True
    then have "array_keys t 0 (sizearray t) = array_keys t 0 n @ array_keys t n (sizearray t)"
      by (intro array_keys_append) auto
    then show ?thesis using none [of n] True by simp
  next
    case False
    then show ?thesis using none [of "sizearray t"] by (simp add: array_keys_def)
  qed
  then show ?thesis by (simp add: live_keys_def moved_def)
qed

lemma rehash_eq:
  assumes "int (sizearray t) \<le> MAXASIZE"
  obtains n where "n \<le> 2 ^ MAXBITS"
    "rehash nk H t ek = resize_table nk H t n (length (filter (hashed n) (live_keys t @ [ek])))"
proof -
  define A where "A = array_keys t 0 (sizearray t)"
  define B where "B = node_keys (rev (node t))"
  define K where "K = (A @ B) @ [ek]"
  obtain nums0 where n0: "numusearray t (replicate (Suc MAXBITS) 0) = (length A, nums0)" "counts nums0 A"
    using numusearray_counts [OF assms] by (auto simp: A_def)
  obtain nums1 where n1: "numusehash t nums0 (length A) =
      (length B, length A + length (filter candidate B), nums1)" "counts nums1 (A @ B)"
    using numusehash_counts [OF n0(2), of t "length A"] by (auto simp: B_def)
  obtain nums2 where n2: "countint ek nums1 = (if candidate ek then 1 else 0, nums2)" "counts nums2 K"
    using countint_counts [OF n1(2), of ek] by (auto simp: K_def)
  have "INT_MAX \<ge> MAXASIZE" by (simp add: INT_MAX_def MAXASIZE_def MAXBITS_def)
  then have "filter candidate A = A"
    using array_key_range [of _ t 0 "sizearray t"] assms
    by (fastforce simp: filter_id_conv A_def candidate_def)
  then have N: "length A + length (filter candidate B) + (if candidate ek then 1 else 0) =
      length (filter candidate K)" by (simp add: K_def)
  obtain n na where cs: "computesizes nums2 (length (filter candidate K)) = (n, na)"
    by (metis surj_pair)
  have "csum nums2 MAXBITS = length (filter candidate K)"
    using csum_counts [OF n2(2), of MAXBITS] by (simp add: candidate_def [abs_def] MAXASIZE_def)
  then have best: "best_size nums2 (\<lambda>j. j \<le> MAXBITS) n na" using computesizes_best cs by blast
  have na: "length K - na = length (filter (hashed n) K) \<and> n \<le> 2 ^ MAXBITS"
  proof (cases "n = 0 \<and> na = 0")
    case True
    then have "hashed n k" for k :: "'a tvalue" by (simp add: hashed_def)
    then show ?thesis using True by simp
  next
    case False
    then obtain i where i: "i \<le> MAXBITS" "n = 2 ^ i" "na = csum nums2 i"
      using best by (auto simp: best_size_def)
    have "length (filter (hashed n) K) + length (filter (\<lambda>k. \<not> hashed n k) K) = length K"
      by (rule sum_length_filter_compl)
    moreover have "na = length (filter (\<lambda>k. \<not> hashed n k) K)"
      using csum_counts [OF n2(2) i(1)] i by (simp add: hashed_def)
    moreover have "(2::nat) ^ i \<le> 2 ^ MAXBITS" using i(1) by (intro power_increasing) auto
    ultimately show ?thesis using i by simp
  qed
  have l: "length A + length B + 1 = length K" by (simp add: K_def)
  have K: "K = live_keys t @ [ek]" by (simp add: K_def live_keys_def A_def B_def)
  have "rehash nk H t ek = resize_table nk H t n (length K - na)"
    using l by (simp add: rehash_def n0(1) n1(1) n2(1) N cs del: replicate_Suc)
  then have "rehash nk H t ek = resize_table nk H t n (length (filter (hashed n) (live_keys t @ [ek])))"
    using na by (simp only: K [symmetric])
  with na show thesis by (intro that [of n]) simp_all
qed

lemma live_keys_bound:
  assumes "wf_table H t" and "int (sizearray t) \<le> MAXASIZE"
  shows "length (live_keys t) \<le> 2 ^ Suc MAXBITS"
proof -
  have "length (array_keys t 0 (sizearray t)) \<le> sizearray t"
    unfolding array_keys_def using length_filter_le [of _ "[0..<sizearray t]"] by simp
  moreover have "int (sizearray t) \<le> int (2 ^ MAXBITS)" using assms(2) by (simp add: MAXASIZE_def)
  then have "sizearray t \<le> 2 ^ MAXBITS" by (simp only: of_nat_le_iff)
  moreover have "length (node_keys (rev (node t))) \<le> length (node t)"
    unfolding node_keys_def using length_filter_le [of _ "rev (node t)"] by simp
  moreover have "length (node t) \<le> 2 ^ MAXBITS"
    using assms(1) wf_openD(3,4) [of H t] by (simp add: wf_table_def)
  ultimately show ?thesis by (simp add: live_keys_def)
qed

section \<open>Insertion in general\<close>

lemma setnodevector_overflow:
  assumes "2 ^ MAXBITS < sz" and "sz < 2 ^ 32"
  shows "setnodevector t sz = Inl (ErrRun ''table overflow'')"
proof -
  have u: "uint (word_of_nat sz :: uint32) = int sz"
    using assms(2) by (simp add: unsigned_of_nat take_bit_nat_eq_self)
  then have "(word_of_nat sz :: uint32) \<noteq> 0" using assms by (metis uint_0_iff of_nat_0_eq_iff not_less0)
  then obtain k where k: "ceillog2 (word_of_nat sz) = int k" "int sz \<le> 2 ^ k"
    using ceillog2_spec [of "word_of_nat sz"] u by auto
  have "sz \<le> 2 ^ k" using k(2) by (metis of_nat_le_iff of_nat_numeral of_nat_power)
  then have "(2::nat) ^ MAXBITS < 2 ^ k" using assms(1) by linarith
  then have "MAXBITS < k" by (simp only: power_strict_increasing_iff)
  then show ?thesis using assms(1) k(1) by (simp add: setnodevector_def)
qed

lemma getfreepos_None:
  "getfreepos_loop nd lf = (lf', r) \<Longrightarrow> r = None \<Longrightarrow> free_ok nd lf \<Longrightarrow> free_ok nd lf' \<and> lf' < 0"
proof (induction nd lf arbitrary: lf' rule: getfreepos_loop.induct)
  case (1 nd lf)
  show ?case
  proof (cases "0 < lf")
    case True
    have kn: "key_at nd (nat (lf - 1)) \<noteq> TNil"
      using "1.prems" True by (subst (asm) getfreepos_loop.simps) (auto split: if_splits)
    have "free_ok nd (lf - 1)"
      unfolding free_ok_def
    proof (intro conjI allI impI)
      fix j assume "j < length nd" "lf - 1 \<le> int j"
      then show "key_at nd j \<noteq> TNil"
        using "1.prems"(3) kn True by (cases "j = nat (lf - 1)") (auto simp: free_ok_def)
    qed (use "1.prems"(3) in \<open>simp add: free_ok_def\<close>)
    then show ?thesis
      using "1.IH" [OF True _ _ "1.prems"(2)] "1.prems"(1) kn True
      by (subst (asm) (2) getfreepos_loop.simps) simp
  next
    case False
    then have "lf' = lf - 1" using "1.prems" by (subst (asm) getfreepos_loop.simps) simp
    then show ?thesis using "1.prems"(3) False by (auto simp: free_ok_def)
  qed
qed

lemma getfreepos_Some:
  "getfreepos_loop nd lf = (lf', Some n) \<Longrightarrow> lf \<le> int (length nd) \<Longrightarrow>
    n < length nd \<and> key_at nd n = TNil"
  by (induction nd lf arbitrary: lf' rule: getfreepos_loop.induct)
    (subst (asm) (2) getfreepos_loop.simps, auto split: if_splits)

text \<open>A table that needs a rehash: the search for a free node fails, and \<open>newkey\<close> continues
  with the rehashed table.\<close>

lemma newkey_rehash:
  assumes wf: "wf_table H t" and k: "proper k" and none: "luaH_get H t k = Inr None"
    and full: "is_dummy t \<or> \<not> room H t k"
  obtains lf where "newkey_by nk H t k =
      rbind (rehash nk H (t\<lparr>lastfree := lf\<rparr>) k) (\<lambda>t2. luaH_set_by nk H t2 k)"
    and "wf_table H (t\<lparr>lastfree := lf\<rparr>)"
proof -
  have wo: "wf_open H t" using wf by (simp add: wf_table_def)
  note W = wf_openD [OF wo]
  obtain lf r where g: "getfreepos_loop (node t) (lastfree t) = (lf, r)" by (metis surj_pair)
  have "r = None \<and> (is_dummy t \<and> lf \<le> 0 \<or> \<not> is_dummy t \<and> free_ok (node t) lf)"
  proof (cases "is_dummy t")
    case True
    then show ?thesis using W(9) g by (subst (asm) getfreepos_loop.simps) auto
  next
    case False
    have "r = None"
    proof (rule ccontr)
      assume "r \<noteq> None"
      then obtain n where "r = Some n" by blast
      then have "n < length (node t) \<and> key_at (node t) n = TNil"
        using g W(8) [OF False] by (intro getfreepos_Some) (auto simp: free_ok_def)
      then show False using full False by (auto simp: room_def)
    qed
    then show ?thesis using getfreepos_None [OF g _ W(8)] False by blast
  qed
  then have r: "r = None" and ok: "wf_table H (t\<lparr>lastfree := lf\<rparr>)"
    using wf by (auto simp: wf_table_def wf_open_def in_array_def)
  have "\<not> ttisnil (val_at (node t) (mainposition H t k)) \<or> is_dummy t"
    using full by (auto simp: room_def)
  then have "newkey_by nk H t k =
      rbind (rehash nk H (t\<lparr>lastfree := lf\<rparr>) k) (\<lambda>t2. luaH_set_by nk H t2 k)"
    using g r by (auto simp: newkey_by_def getfreepos_def Let_def)
  then show thesis using that ok by blast
qed

lemma slot_for_wf_table:
  assumes "wf_table H t" and "slot_for H t k t' s"
  shows "wf_table H t'" "sizearray t' = sizearray t" "metatable t' = metatable t"
    "proper k' \<Longrightarrow> tget H t' k' = tget H t k'"
  using assms same_shape_tget [of H t t' k']
  by (auto simp: wf_table_def slot_for_def same_shape_def)

lemma rehash_ok:
  assumes wf: "wf_table H t" and sz: "int (sizearray t) \<le> MAXASIZE" and k: "proper k"
    and small: "length (live_keys t) < 2 ^ MAXBITS"
  obtains t' where "rehash (newkey_by nk H) H t k = Inr t'" and "wf_table H t'"
    and "int (sizearray t') \<le> MAXASIZE" and "metatable t' = metatable t"
    and "\<And>k'. proper k' \<Longrightarrow> tget H t' k' = tget H t k'"
    and "\<not> in_array t' k \<Longrightarrow> \<not> is_dummy t' \<and> 0 < nil_keys (node t')"
proof -
  have mi: "MAXASIZE \<le> INT_MAX" by (simp add: MAXASIZE_def MAXBITS_def INT_MAX_def)
  obtain n where n: "n \<le> 2 ^ MAXBITS" "rehash (newkey_by nk H) H t k =
      resize_table (newkey_by nk H) H t n (length (filter (hashed n) (live_keys t @ [k])))"
    using rehash_eq [OF sz] by blast
  define h where "h = length (filter (hashed n) (live_keys t @ [k]))"
  have hm: "h = length (moved t n) + (if hashed n k then 1 else 0)"
    using hashed_moved [of t n] sz mi by (simp add: h_def)
  have "h \<le> length (live_keys t @ [k])" unfolding h_def by (rule length_filter_le)
  then have hs: "h \<le> 2 ^ MAXBITS" using small by simp
  have "int n \<le> int (2 ^ MAXBITS)" using n(1) by (simp only: of_nat_le_iff)
  then have nm: "int n \<le> MAXASIZE" by (simp add: MAXASIZE_def)
  obtain t' where t': "resize_table (newkey_by nk H) H t n h = Inr t'" "wf_table H t'"
    "sizearray t' = n" "metatable t' = metatable t" "is_dummy t' = (h = 0)"
    "\<And>k. proper k \<Longrightarrow> tget H t' k = tget H t k" "h \<le> nil_keys (node t') + length (moved t n)"
    using resize_ok [OF wf order_trans [OF nm mi] hs, of nk] hm by auto
  have "\<not> is_dummy t' \<and> 0 < nil_keys (node t')" if "\<not> in_array t' k"
    using that t'(3,5,7) hm by (simp add: not_in_array)
  then show thesis using n(2) t' nm that [of t'] by (simp add: h_def)
qed

text \<open>\<open>luaH_set\<close> finds or makes the slot of the key and changes no other entry.\<close>

lemma set_by_full:
  assumes wf: "wf_table H t" and sz: "int (sizearray t) \<le> MAXASIZE"
    and k: "proper k" "\<not> is_nan_value k" and small: "length (live_keys t) < 2 ^ MAXBITS"
    and none: "luaH_get H t k = Inr None"
  obtains t' s where "newkey REHASH_DEPTH H t k = Inr (t', s)" and "wf_table H t'"
    and "int (sizearray t') \<le> MAXASIZE" and "metatable t' = metatable t"
    and "luaH_get H t' k = Inr (Some s)"
    and "\<And>k'. proper k' \<Longrightarrow> tget H t' k' = tget H t k'"
proof -
  have nk2: "newkey REHASH_DEPTH H = newkey_by (newkey_by (newkey 0 H) H) H"
    by (simp add: REHASH_DEPTH_def numeral_2_eq_2)
  have wo: "wf_open H t" using wf by (simp add: wf_table_def)
  show thesis
  proof (cases "is_dummy t \<or> \<not> room H t k")
    case False
    obtain t' j where t': "newkey REHASH_DEPTH H t k = Inr (t', SNode j)" "same_shape t t'"
      "wf_open H t'" "luaH_get H t' k = Inr (Some (SNode j))"
      using newkey_set [OF wo k none] False unfolding nk2 by metis
    show thesis
      by (rule that [OF t'(1) _ _ _ t'(4)])
        (use wf sz t' same_shape_tget [OF wo t'(3,2)] in \<open>auto simp: wf_table_def same_shape_def\<close>)
  next
    case True
    obtain lf where step: "newkey REHASH_DEPTH H t k =
        rbind (rehash (newkey_by (newkey 0 H) H) H (t\<lparr>lastfree := lf\<rparr>) k)
          (\<lambda>t2. luaH_set_by (newkey_by (newkey 0 H) H) H t2 k)"
      and wl: "wf_table H (t\<lparr>lastfree := lf\<rparr>)"
      using newkey_rehash [OF wf k(1) none True] unfolding nk2 by metis
    have tl: "tget H (t\<lparr>lastfree := lf\<rparr>) k' = tget H t k'" if "proper k'" for k'
      using same_shape_tget [OF wo _ _ that, of "t\<lparr>lastfree := lf\<rparr>"] wl
      by (simp add: wf_table_def same_shape_def)
    have ll: "live_keys (t\<lparr>lastfree := lf\<rparr>) = live_keys t"
      by (simp add: live_keys_def array_keys_def)
    obtain t2 where t2: "rehash (newkey_by (newkey 0 H) H) H (t\<lparr>lastfree := lf\<rparr>) k = Inr t2"
      "wf_table H t2" "int (sizearray t2) \<le> MAXASIZE" "metatable t2 = metatable t"
      "\<And>k'. proper k' \<Longrightarrow> tget H t2 k' = tget H (t\<lparr>lastfree := lf\<rparr>) k'"
      "\<not> in_array t2 k \<Longrightarrow> \<not> is_dummy t2 \<and> 0 < nil_keys (node t2)"
      using rehash_ok [OF wl _ k(1), where nk = "newkey 0 H"] sz small ll by auto
    have "wf_open H t2" using t2(2) by (simp add: wf_table_def)
    then obtain t' s where t': "luaH_set_by (newkey_by (newkey 0 H) H) H t2 k = Inr (t', s)"
      "slot_for H t2 k t' s"
      using set_by_slot_for [OF _ k t2(6), where nk = "newkey 0 H"] by blast
    show thesis
      by (rule that [of t' s])
        (use step t2 t' tl slot_for_wf_table [OF t2(2) t'(2)] in \<open>auto simp: slot_for_def\<close>)
  qed
qed

lemma luaH_set_ok:
  assumes wf: "wf_table H t" and sz: "int (sizearray t) \<le> MAXASIZE"
    and k: "proper k" "\<not> is_nan_value k" and small: "length (live_keys t) < 2 ^ MAXBITS"
  obtains t' s where "luaH_set H t k = Inr (t', s)" and "wf_table H t'"
    and "int (sizearray t') \<le> MAXASIZE" and "metatable t' = metatable t"
    and "luaH_get H t' k = Inr (Some s)"
    and "\<And>k'. proper k' \<Longrightarrow> tget H t' k' = tget H t k'"
proof -
  have wo: "wf_open H t" using wf by (simp add: wf_table_def)
  obtain p where p: "luaH_get H t k = Inr p" using luaH_get_total [OF wo k(1)] by blast
  show thesis
  proof (cases p)
    case (Some s)
    then show thesis
      using p wf sz by (intro that [of "t\<lparr>flags := 0\<rparr>" s]) (auto simp: luaH_set_def luaH_set_by_def)
  next
    case None
    have ll: "live_keys (t\<lparr>flags := 0\<rparr>) = live_keys t"
      by (simp add: live_keys_def array_keys_def)
    have "k \<noteq> TNil" using k by auto
    moreover obtain t' s where "newkey REHASH_DEPTH H (t\<lparr>flags := 0\<rparr>) k = Inr (t', s)" "wf_table H t'"
      "int (sizearray t') \<le> MAXASIZE" "metatable t' = metatable t"
      "luaH_get H t' k = Inr (Some s)" "\<And>k'. proper k' \<Longrightarrow> tget H t' k' = tget H t k'"
      using set_by_full [of H "t\<lparr>flags := 0\<rparr>" k] wf sz k small p None ll by auto
    ultimately show thesis
      using p None k by (intro that [of t' s]) (auto simp: luaH_set_def luaH_set_by_def)
  qed
qed

end
