(* ===== verification/LTableSearch.thy ===== *)
theory LTableSearch
  imports LTableRehash
begin

text \<open>
  Boundaries and traversal of tables: \<open>luaH_getn\<close> returns a border in every case, the
  unbounded search included, and \<open>luaH_next\<close> goes through the entries in the order of their
  positions, each exactly once.
\<close>

section \<open>Integer keys\<close>

definition geti :: "'s string_view \<Rightarrow> 's Table \<Rightarrow> nat \<Rightarrow> 's tvalue" where
  "geti H t i = tget H t (TNumber (cast_num (int i)))"

definition border :: "(nat \<Rightarrow> bool) \<Rightarrow> nat \<Rightarrow> bool" where
  "border absent j \<longleftrightarrow> (j = 0 \<or> \<not> absent j) \<and> absent (j + 1)"

lemma num_nil_geti:
  assumes "wf_open H t" and "is_cint (int i)"
  shows "num_nil t (int i) = Inr (geti H t i = TNil)"
proof -
  obtain p where "luaH_get H t (TNumber (cast_num (int i))) = Inr p"
    using luaH_get_total [OF assms(1), of "TNumber (cast_num (int i))"] by auto
  then show ?thesis
    using getnum_get [OF assms] by (simp add: num_nil_def geti_def tget_def)
qed

lemma geti_array:
  "wf_open H t \<Longrightarrow> 0 < i \<Longrightarrow> i \<le> sizearray t \<Longrightarrow> geti H t i = array t ! (i - 1)"
  using tget_array [of H t "i - 1"] by (cases i) (auto simp: geti_def add.commute)

section \<open>The binary search\<close>

lemma boundary_search_border:
  assumes "\<And>m. i < m \<Longrightarrow> m < j \<Longrightarrow> isnil m = Inr (absent m)"
    and "i = 0 \<or> \<not> absent i" and "absent j" and "i < j"
  shows "\<exists>r. boundary_search isnil i j = Inr r \<and> border absent r"
  using assms
proof (induction isnil i j rule: boundary_search.induct)
  case (1 isnil i j)
  show ?case
  proof (cases "1 < j - i")
    case True
    define m where "m = (i + j) div 2"
    have m: "i < m" "m < j" using True by (auto simp: m_def)
    then have e: "isnil m = Inr (absent m)" by (rule "1.prems"(1))
    have "\<exists>r. boundary_search isnil i m = Inr r \<and> border absent r" if "absent m"
      by (rule "1.IH"(1) [OF True m_def e]) (use "1.prems" that m in auto)
    moreover have "\<exists>r. boundary_search isnil m j = Inr r \<and> border absent r" if "\<not> absent m"
      by (rule "1.IH"(2) [OF True m_def e]) (use "1.prems" that m in auto)
    ultimately show ?thesis
      using True e by (subst boundary_search.simps) (auto simp: m_def [symmetric] Let_def)
  next
    case False
    then have "j = i + 1" using "1.prems"(4) by simp
    then show ?thesis using False "1.prems" by (subst boundary_search.simps) (auto simp: border_def)
  qed
qed

section \<open>The linear search\<close>

text \<open>A table has at most as many integer keys as slots.\<close>

definition slots :: "'s Table \<Rightarrow> slot set" where
  "slots t = SArray ` {..<sizearray t} \<union> SNode ` {..<length (node t)}"

lemma card_slots: "finite (slots t)" "card (slots t) \<le> sizearray t + length (node t)"
proof -
  show "finite (slots t)" by (simp add: slots_def)
  have "card (slots t) \<le> card (SArray ` {..<sizearray t}) + card (SNode ` {..<length (node t)})"
    unfolding slots_def by (rule card_Un_le)
  also have "\<dots> \<le> sizearray t + length (node t)"
    by (intro add_mono order_trans [OF card_image_le]) auto
  finally show "card (slots t) \<le> sizearray t + length (node t)" .
qed

lemma present_slot:
  assumes "wf_open H t" and "proper k" and "tget H t k \<noteq> TNil"
  shows "\<exists>s. luaH_get H t k = Inr (Some s) \<and> s \<in> slots t"
  using assms(1,2)
proof (cases rule: luaH_get_cases)
  case array
  then show ?thesis by (auto simp: slots_def in_array_def)
next
  case (node i)
  then show ?thesis by (simp add: slots_def holds_key_def)
qed (use assms(3) in \<open>simp add: tget_def opt_val_def\<close>)

lemma present_bound:
  assumes wf: "wf_open H t" and c: "int n \<le> INT_MAX"
    and all: "\<And>i. 0 < i \<Longrightarrow> i \<le> n \<Longrightarrow> geti H t i \<noteq> TNil"
  shows "n \<le> sizearray t + length (node t)"
proof -
  define f where "f i = (SOME s. luaH_get H t (TNumber (cast_num (int i))) = Inr (Some s) \<and> s \<in> slots t)" for i
  have f: "luaH_get H t (TNumber (cast_num (int i))) = Inr (Some (f i)) \<and> f i \<in> slots t"
    if "i \<in> {1..n}" for i
  proof -
    have "tget H t (TNumber (cast_num (int i))) \<noteq> TNil" using all [of i] that by (simp add: geti_def)
    then show ?thesis
      unfolding f_def using present_slot [OF wf, of "TNumber (cast_num (int i))"]
      by (intro someI_ex [where P = "\<lambda>s. luaH_get H t (TNumber (cast_num (int i))) = Inr (Some s) \<and> s \<in> slots t"]) simp
  qed
  have "inj_on f {1..n}"
  proof (rule inj_onI)
    fix i j assume ij: "i \<in> {1..n}" "j \<in> {1..n}" "f i = f j"
    then have "luaO_rawequalObj (TNumber (cast_num (int i)) :: 'a tvalue) (TNumber (cast_num (int j)))"
      using f [of i] f [of j] by (intro luaH_get_same_slot [OF wf]) auto
    moreover have "is_cint (int i)" "is_cint (int j)" using ij c by (auto simp: is_cint_def INT_MIN_def)
    ultimately show "i = j" using cast_num_inj [of "int i" "int j"] by simp
  qed
  then have "card {1..n} \<le> card (slots t)"
    using f card_slots(1) by (intro card_inj_on_le [of f]) auto
  then show ?thesis using card_slots(2) [of t] by simp
qed

lemma linear_search_border:
  assumes wf: "wf_open H t" and sz: "int (sizearray t + length (node t)) < INT_MAX"
    and pre: "\<And>j. 0 < j \<Longrightarrow> j < i \<Longrightarrow> geti H t j \<noteq> TNil" and i: "0 < i"
    and fuel: "fuel + i = sizearray t + length (node t) + 2"
  shows "\<exists>r. linear_search t fuel i = Inr r \<and> border (\<lambda>j. geti H t j = TNil) r"
  using pre i fuel
proof (induction fuel arbitrary: i)
  case 0
  have "sizearray t + length (node t) + 1 \<le> sizearray t + length (node t)"
    using 0 sz by (intro present_bound [OF wf]) auto
  then show ?case by simp
next
  case (Suc fuel)
  have "is_cint (int i)" using Suc.prems sz by (simp add: is_cint_def INT_MIN_def)
  note e = num_nil_geti [OF wf this]
  show ?case
  proof (cases "geti H t i = TNil")
    case True
    then show ?thesis using e Suc.prems(1) [of "i - 1"] Suc.prems(2) by (auto simp: border_def)
  next
    case False
    then have "\<exists>r. linear_search t fuel (i + 1) = Inr r \<and> border (\<lambda>j. geti H t j = TNil) r"
      using Suc.prems by (intro Suc.IH) (auto simp: less_Suc_eq)
    then show ?thesis using e False by simp
  qed
qed

section \<open>The unbounded search\<close>

lemma sizenode_length: "wf_open H t \<Longrightarrow> sizenode t = length (node t)"
  using wf_openD(4) [of H t] by (simp add: sizenode_def)

lemma unbound_loop_border:
  assumes wf: "wf_open H t" and sz: "int (sizearray t + length (node t)) < INT_MAX"
    and i: "i = 0 \<or> geti H t i \<noteq> TNil" and ij: "i < j" and j: "int j \<le> MAX_INT"
  shows "\<exists>r. unbound_loop t i j = Inr r \<and> border (\<lambda>j. geti H t j = TNil) r"
  using wf sz i ij j
proof (induction t i j rule: unbound_loop.induct)
  case (1 t i j)
  have c: "is_cint (int m)" if "m \<le> j" for m
    using that "1.prems"(5) by (simp add: is_cint_def MAX_INT_def INT_MIN_def)
  note e = num_nil_geti [OF "1.prems"(1) c]
  have ok: "\<not> (j = 0 \<or> MAX_INT < int j)" using "1.prems" by simp
  show ?case
  proof (cases "geti H t j = TNil")
    case True
    have "\<exists>r. boundary_search (\<lambda>m. num_nil t (int m)) i j = Inr r \<and> border (\<lambda>j. geti H t j = TNil) r"
      by (rule boundary_search_border) (use e "1.prems" True in auto)
    then show ?thesis using True ok e [of j] by (subst unbound_loop.simps) simp
  next
    case False
    show ?thesis
    proof (cases "MAX_INT < 2 * int j")
      case True
      have "\<exists>r. linear_search t (sizearray t + length (node t) + 1) 1 = Inr r \<and>
          border (\<lambda>j. geti H t j = TNil) r"
        by (rule linear_search_border [OF "1.prems"(1,2)]) auto
      then show ?thesis
        using True False ok e [of j] sizenode_length [OF "1.prems"(1)]
        by (subst unbound_loop.simps) simp
    next
      case small: False
      have "num_nil t (int j) = Inr False" using e [of j] False by simp
      then have "\<exists>r. unbound_loop t j (2 * j) = Inr r \<and> border (\<lambda>j. geti H t j = TNil) r"
        by (rule "1.IH" [OF ok _ _ small]) (use "1.prems" False small ok in auto)
      then show ?thesis using small False ok e [of j] by (subst unbound_loop.simps) simp
    qed
  qed
qed

lemma luaH_getn_border:
  assumes wf: "wf_table H t" and sz: "int (sizearray t + length (node t)) < MAX_INT"
  obtains r where "luaH_getn t = Inr r" and "border (\<lambda>j. geti H t j = TNil) r"
proof -
  have wo: "wf_open H t" using wf by (simp add: wf_table_def)
  have m: "MAX_INT < INT_MAX" by (simp add: MAX_INT_def)
  show thesis
  proof (cases "0 < sizearray t \<and> array t ! (sizearray t - 1) = TNil")
    case True
    have "\<exists>r. boundary_search (\<lambda>m. Inr (ttisnil (array t ! (m - 1)))) 0 (sizearray t) = Inr r \<and>
        border (\<lambda>j. geti H t j = TNil) r"
      by (rule boundary_search_border) (use True geti_array [OF wo] in auto)
    then show thesis using that True by (auto simp: luaH_getn_def Let_def)
  next
    case False
    then have p: "sizearray t = 0 \<or> geti H t (sizearray t) \<noteq> TNil"
      using geti_array [OF wo, of "sizearray t"] by auto
    show thesis
    proof (cases "is_dummy t")
      case True
      define k :: "'a tvalue" where "k = TNumber (cast_num (int (sizearray t + 1)))"
      have "is_cint (int (sizearray t + 1))"
        using sz m by (simp add: is_cint_def INT_MIN_def)
      then have "\<not> in_array t k" unfolding k_def in_array_def by (simp add: arrayindex_cast)
      moreover have "proper k" "\<not> holds_key (node t) k i" for i
        using wf_openD(5) [OF wo True] by (auto simp: holds_key_def dummynode_def k_def)
      ultimately have "luaH_get H t k = Inr None"
        using luaH_get_cases [OF wo, of k] by metis
      then have "geti H t (sizearray t + 1) = TNil"
        by (simp only: geti_def k_def [symmetric]) (simp add: tget_def opt_val_def)
      then show thesis
        using that [of "sizearray t"] p False True by (auto simp: luaH_getn_def Let_def border_def)
    next
      case nd: False
      have nl: "0 < length (node t)" by (simp add: wf_openD(4) [OF wo])
      have "\<exists>r. unbound_loop t (sizearray t) (sizearray t + 1) = Inr r \<and>
          border (\<lambda>j. geti H t j = TNil) r"
        using sz m p nl by (intro unbound_loop_border [OF wo]) auto
      then show thesis
        using that False nd by (auto simp: luaH_getn_def unbound_search_def Let_def)
    qed
  qed
qed

section \<open>Traversal\<close>

text \<open>Positions: the array slots, then the nodes.\<close>

definition pos_val :: "'s Table \<Rightarrow> nat \<Rightarrow> 's tvalue" where
  "pos_val t p = (if p < sizearray t then array t ! p else i_val (node t ! (p - sizearray t)))"

definition pos_key :: "'s Table \<Rightarrow> nat \<Rightarrow> 's tvalue" where
  "pos_key t p =
     (if p < sizearray t then TNumber (cast_num (int p + 1)) else i_key (node t ! (p - sizearray t)))"

definition positions :: "'s Table \<Rightarrow> nat \<Rightarrow> nat list" where
  "positions t p = filter (\<lambda>q. pos_val t q \<noteq> TNil) [p..<sizearray t + length (node t)]"

definition pos_pair :: "'s Table \<Rightarrow> nat \<Rightarrow> 's tvalue \<times> 's tvalue" where
  "pos_pair t p = (pos_key t p, pos_val t p)"

text \<open>No dead key has the address of a collectable key in use.\<close>

definition dead_apart :: "'s string_view \<Rightarrow> 's Table \<Rightarrow> bool" where
  "dead_apart H t \<longleftrightarrow> (\<forall>n\<in>set (node t). \<forall>m\<in>set (node t). \<forall>g g'.
     i_key n = TDeadKey g \<longrightarrow> i_key m = TGC g' \<longrightarrow> i_val m \<noteq> TNil \<longrightarrow> gcaddr H g \<noteq> gcaddr H g')"

lemma find_upt_filter:
  "find P [a..<b] = (case filter P [a..<b] of [] \<Rightarrow> None | x # _ \<Rightarrow> Some x)"
proof -
  have "find P xs = (case filter P xs of [] \<Rightarrow> None | x # _ \<Rightarrow> Some x)" for xs :: "nat list"
    by (induction xs) auto
  then show ?thesis .
qed

lemma filter_shift:
  "filter P [c + a..<c + b] = map (\<lambda>j. c + j) (filter (\<lambda>j. P (c + j)) [a..<b])"
proof -
  have "[c + a..<c + b] = map (\<lambda>j. c + j) [a..<b]"
    by (induction b) (auto simp: not_le)
  then show ?thesis by (simp add: filter_map comp_def)
qed

lemma luaH_next_positions:
  assumes wo: "wf_open H t" and f: "findindex H t key = Inr (int p - 1)"
    and p: "p \<le> sizearray t + length (node t)"
  shows "luaH_next H t key =
    Inr (case positions t p of [] \<Rightarrow> None | q # _ \<Rightarrow> Some (pos_pair t q))"
proof -
  define c where "c = sizearray t"
  define A where "A = filter (\<lambda>j. array t ! j \<noteq> TNil) [p..<c]"
  define B where "B = filter (\<lambda>j. i_val (node t ! j) \<noteq> TNil) [max p c - c..<length (node t)]"
  have sn: "sizenode t = length (node t)" by (rule sizenode_length [OF wo])
  have "[p..<c + length (node t)] = [p..<c] @ [c + (max p c - c)..<c + length (node t)]"
  proof (cases "p \<le> c")
    case True
    then show ?thesis using upt_add_eq_append [of p c "length (node t)"] by (simp add: max_def)
  next
    case False
    then show ?thesis by (simp add: max_def)
  qed
  then have "positions t p = filter (\<lambda>q. pos_val t q \<noteq> TNil) [p..<c] @
      map (\<lambda>j. c + j) (filter (\<lambda>j. pos_val t (c + j) \<noteq> TNil) [max p c - c..<length (node t)])"
    unfolding positions_def c_def [symmetric] by (simp only: filter_append filter_shift)
  moreover have "filter (\<lambda>q. pos_val t q \<noteq> TNil) [p..<c] = A"
    unfolding A_def by (rule filter_cong) (auto simp: pos_val_def c_def)
  moreover have "filter (\<lambda>j. pos_val t (c + j) \<noteq> TNil) [max p c - c..<length (node t)] = B"
    unfolding B_def by (rule filter_cong) (auto simp: pos_val_def c_def)
  ultimately have pos: "positions t p = A @ map (\<lambda>j. c + j) B" by simp
  have na: "next_array t p = (case A of [] \<Rightarrow> None | x # _ \<Rightarrow> Some x)"
    by (simp add: next_array_def find_upt_filter A_def c_def)
  have nn: "next_node t (max p c - c) = (case B of [] \<Rightarrow> None | x # _ \<Rightarrow> Some x)"
    by (simp add: next_node_def find_upt_filter B_def sn)
  have "x < c" if "A = x # xs" for x xs
  proof -
    have "x \<in> set A" using that by simp
    then show ?thesis by (simp add: A_def)
  qed
  then have ap: "pos_pair t x = (TNumber (cast_num (int x + 1)), array t ! x)" if "A = x # xs" for x xs
    using that by (simp add: pos_pair_def pos_key_def pos_val_def c_def)
  have bp: "pos_pair t (c + x) = (i_key (node t ! x), i_val (node t ! x))" for x
    by (simp add: pos_pair_def pos_key_def pos_val_def c_def)
  show ?thesis
    using f na nn pos ap bp
    by (cases A; cases B) (simp_all add: luaH_next_def Let_def c_def [symmetric])
qed

lemma findindex_pos:
  assumes wo: "wf_open H t" and d: "dead_apart H t"
    and p: "p < sizearray t + length (node t)" and v: "pos_val t p \<noteq> TNil"
  shows "findindex H t (pos_key t p) = Inr (int p)"
proof (cases "p < sizearray t")
  case True
  then have "is_cint (int p + 1)" using wf_openD(2) [OF wo] by (simp add: is_cint_def INT_MIN_def)
  then show ?thesis
    using True by (simp add: findindex_def pos_key_def arrayindex_cast Let_def)
next
  case False
  define i where "i = p - sizearray t"
  define k where "k = key_at (node t) i"
  have i: "i < length (node t)" "val_at (node t) i \<noteq> TNil" "p = i + sizearray t"
    using p v False by (auto simp: i_def pos_val_def)
  then have m: "node t ! i \<in> set (node t)" by simp
  note kk = node_key_ok [OF wo m i(2), folded k_def]
  have na: "\<not> in_array t k" using wf_openD(10) [OF wo i(1)] by (simp add: k_def)
  have hk: "holds_key (node t) k i"
    using i(1) kk(2) by (simp add: holds_key_def k_def rawequal_refl_iff)
  define P where "P n = (luaO_rawequalObj (i_key n) k \<or>
      (case (i_key n, k) of
         (TDeadKey g, TGC g') \<Rightarrow> gcaddr H g = gcaddr H g'
       | (TDeadKey g, TDeadKey g') \<Rightarrow> gcaddr H g = gcaddr H g'
       | _ \<Rightarrow> False))" for n :: "'a Node"
  have Pn: "P n = luaO_rawequalObj (i_key n) k" if "n \<in> set (node t)" for n
    using d m that i(2) kk(1) unfolding dead_apart_def P_def
    by (cases "i_key n"; cases k) (auto simp: k_def)
  have mp: "mainposition H t k < length (node t)"
    by (simp add: mainposition_def wf_openD(4) [OF wo] mainpos_less)
  obtain xs where xs: "set xs \<subseteq> {..<length (node t)}"
    "chain (nx (node t)) (Some (mainposition H t k)) xs"
    "chain_find P (node t) (length (node t)) (Some (mainposition H t k)) = Inr (find (\<lambda>i. P (node t ! i)) xs)"
    using chain_find_links [OF wf_openD(6) [OF wo] mp] by blast
  then have "chain_find P (node t) (length (node t)) (Some (mainposition H t k)) =
      Inr (find (\<lambda>i. luaO_rawequalObj (key_at (node t) i) k) xs)"
    using Pn by (auto intro!: find_cong)
  moreover have "chain_find (\<lambda>n. luaO_rawequalObj (i_key n) k) (node t) (length (node t))
      (Some (mainposition H t k)) = Inr (find (\<lambda>i. luaO_rawequalObj (key_at (node t) i) k) xs)"
    using chain_find_eq [OF xs(2,1) chain_length [OF wf_openD(6) [OF wo] xs(2) mp]] by simp
  moreover have "luaH_get H t k = Inr (Some (SNode i))"
    by (rule put_key_found [OF wo na kk(1,2) i(1)]) (simp add: k_def)
  then have "get_default H t k = Inr (Some (SNode i))"
    using luaH_get_eq [OF kk(1) wf_openD(2) [OF wo]] na by simp
  ultimately have "chain_find P (node t) (length (node t)) (Some (mainposition H t k)) = Inr (Some i)"
    by (auto simp: get_default_def search_chain_def rbind_Inr_iff)
  moreover have "pos_key t p = k" using False by (simp add: pos_key_def k_def i_def)
  moreover have "k \<noteq> TNil" using kk(1) by auto
  ultimately show ?thesis
    using na i(3) unfolding findindex_def P_def [abs_def] by (auto simp: in_array_def Let_def)
qed

text \<open>The loop a script runs with \<open>next\<close>.\<close>

fun traverse :: "'s string_view \<Rightarrow> 's Table \<Rightarrow> nat \<Rightarrow> 's tvalue \<Rightarrow> ('s tvalue \<times> 's tvalue) list res" where
  "traverse H t 0 key = Inl OutOfFuel"
| "traverse H t (Suc fuel) key =
     rbind (luaH_next H t key) (\<lambda>r. case r of
         None \<Rightarrow> Inr []
       | Some (k, v) \<Rightarrow> rbind (traverse H t fuel k) (\<lambda>es. Inr ((k, v) # es)))"

lemma positions_Cons:
  "positions t p = q # qs \<Longrightarrow> p \<le> q \<and> q < sizearray t + length (node t) \<and>
    pos_val t q \<noteq> TNil \<and> qs = positions t (Suc q)"
proof -
  assume a: "positions t p = q # qs"
  let ?n = "sizearray t + length (node t)"
  have "q \<in> set (positions t p)" using a by simp
  then have q: "p \<le> q" "q < ?n" "pos_val t q \<noteq> TNil" by (auto simp: positions_def)
  have s: "sorted_wrt (<) (q # qs)"
    unfolding a [symmetric] positions_def by (intro sorted_wrt_filter) simp
  have "[p..<?n] = [p..<q] @ q # [Suc q..<?n]"
    using q upt_add_eq_append [of p q "?n - q"] by (simp add: upt_conv_Cons)
  then have e: "positions t p = filter (\<lambda>j. pos_val t j \<noteq> TNil) [p..<q] @ q # positions t (Suc q)"
    using q(3) by (simp add: positions_def)
  have "filter (\<lambda>j. pos_val t j \<noteq> TNil) [p..<q] = []"
  proof (cases "filter (\<lambda>j. pos_val t j \<noteq> TNil) [p..<q]")
    case (Cons x xs)
    then have "x = q" using e a by simp
    moreover have "x \<in> set (filter (\<lambda>j. pos_val t j \<noteq> TNil) [p..<q])" using Cons by simp
    ultimately show ?thesis by simp
  qed simp
  then show ?thesis using e a q by simp
qed

lemma traverse_positions:
  assumes wo: "wf_open H t" and d: "dead_apart H t"
  shows "findindex H t key = Inr (int p - 1) \<Longrightarrow> p \<le> sizearray t + length (node t) \<Longrightarrow>
    length (positions t p) < fuel \<Longrightarrow> traverse H t fuel key = Inr (map (pos_pair t) (positions t p))"
proof (induction fuel arbitrary: key p)
  case (Suc fuel)
  note n = luaH_next_positions [OF wo Suc.prems(1,2)]
  show ?case
  proof (cases "positions t p")
    case Nil
    then show ?thesis using n by simp
  next
    case (Cons q qs)
    note q = positions_Cons [OF Cons]
    then have "findindex H t (pos_key t q) = Inr (int (Suc q) - 1)"
      using findindex_pos [OF wo d] by simp
    then have "traverse H t fuel (pos_key t q) = Inr (map (pos_pair t) (positions t (Suc q)))"
      using q Suc.prems Cons by (intro Suc.IH) auto
    then show ?thesis using n Cons q by (simp add: pos_pair_def)
  qed
qed simp

end
