(* ===== verification/LTableSpec.thy ===== *)
theory LTableSpec
  imports LTableSearch
begin

text \<open>
  What \<open>ltable.c\<close> promises its callers: a table is a finite map from the keys up to raw
  equality to values, \<open>luaH_get\<close> reads it, \<open>luaH_set\<close> followed by a store through the slot
  updates it, resizing leaves it alone, \<open>luaH_getn\<close> finds a border and \<open>luaH_next\<close> goes
  through it. The tables of the witnesses are built here too.
\<close>

section \<open>Two small tables\<close>

definition id_view :: "nat string_view" where
  "id_view = \<lparr>tsv_hash = word_of_nat, tsv_addr = (\<lambda>s. s)\<rparr>"

definition pair_table :: "nat Table" where
  "pair_table =
     \<lparr>flags = NOT 0, lsizenode = 0, metatable = None,
      array = [TBoolean True, TString 7, TNil], sizearray = 3,
      node = [dummynode], is_dummy = True, lastfree = 0\<rparr>"

lemma fresh_nodes_0: "fresh_nodes 0 = [dummynode]"
  by (simp add: fresh_nodes_def)

lemma pair_table_wf: "wf_table id_view pair_table"
proof -
  have "wf_open id_view pair_table"
    by (rule fresh_table_wf [where l = 0])
      (simp_all add: pair_table_def fresh_nodes_0 INT_MAX_def)
  then show ?thesis by (simp add: wf_table_def pair_table_def)
qed

lemma pair_table_size:
  "int (sizearray pair_table) \<le> MAXASIZE" "length (live_keys pair_table) < 2 ^ MAXBITS"
  by (simp_all add: pair_table_def MAXASIZE_def MAXBITS_def live_keys_def array_keys_def
      node_keys_def dummynode_def upt_rec)

lemma tget_proper_nil: "wf_open H t \<Longrightarrow> luaH_get H t k = Inr None \<Longrightarrow> tget H t k = TNil"
  by (simp add: tget_def opt_val_def)

section \<open>Insertion\<close>

text \<open>C1: \<open>luaH_set\<close> finds or creates the slot of its key, rehashing when the node vector is
  full; a value stored through that slot is what every later lookup of an equal key reads, and
  no other key changes its value. In particular a rehash loses no entry.\<close>

theorem luaH_set_updates_map:
  assumes "wf_table H t" and "int (sizearray t) \<le> MAXASIZE" and "length (live_keys t) < 2 ^ MAXBITS"
    and "proper k" and "\<not> is_nan_value k"
  shows "\<exists>t' s. luaH_set H t k = Inr (t', s) \<and>
    (\<forall>v k'. proper k' \<longrightarrow>
       tget H (set_slot t' s v) k' = (if luaO_rawequalObj k k' then v else tget H t k'))"
proof -
  obtain t' s where t': "luaH_set H t k = Inr (t', s)" "wf_table H t'"
    "luaH_get H t' k = Inr (Some s)" "\<And>k'. proper k' \<Longrightarrow> tget H t' k' = tget H t k'"
    using luaH_set_ok [OF assms(1,2,4,5,3)] by blast
  then have "wf_open H t'" by (simp add: wf_table_def)
  then show ?thesis using t' set_slot_tget [OF _ assms(4) t'(3)] by auto
qed

lemma luaH_set_updates_map_witness:
  "\<exists>t' s. luaH_set id_view pair_table (TString 5) = Inr (t', s) \<and>
    tget id_view (set_slot t' s (TBoolean False)) (TString 5) = TBoolean False \<and>
    tget id_view (set_slot t' s (TBoolean False)) (TNumber (cast_num 2)) = TString 7"
proof -
  have "tget id_view pair_table (TNumber (cast_num 2)) = TString 7"
    using tget_array [of id_view pair_table 1] pair_table_wf
    by (simp add: wf_table_def pair_table_def)
  then show ?thesis
    using luaH_set_updates_map [OF pair_table_wf pair_table_size, of "TString 5"]
    by (force simp: is_nan_value_def)
qed

text \<open>C5: \<open>luaH_set\<close> and the store through its slot keep the table invariant: the chains are
  acyclic, every key is reachable from its main position, a key that had to move away shares
  its chain with a key in its own main position, keys are distinct, the free pointer is above
  every free node, and integer keys of the array range are not in the hash part. The metatable
  stays.\<close>

theorem luaH_set_keeps_invariant:
  assumes "wf_table H t" and "int (sizearray t) \<le> MAXASIZE" and "length (live_keys t) < 2 ^ MAXBITS"
    and "proper k" and "\<not> is_nan_value k" and "luaH_set H t k = Inr (t', s)"
  shows "wf_table H (set_slot t' s v) \<and> int (sizearray (set_slot t' s v)) \<le> MAXASIZE \<and>
    metatable (set_slot t' s v) = metatable t"
proof -
  have t': "wf_table H t'" "int (sizearray t') \<le> MAXASIZE" "metatable t' = metatable t"
    "luaH_get H t' k = Inr (Some s)"
    using luaH_set_ok [OF assms(1,2,4,5,3)] assms(6) by (metis Inr_inject prod.inject)+
  have "wf_open H t'" using t'(1) by (simp add: wf_table_def)
  then show ?thesis using t' set_slot_wf [OF _ assms(4) t'(4)] by (simp add: wf_table_def)
qed

lemma luaH_set_keeps_invariant_witness:
  "\<exists>t' s. luaH_set id_view pair_table (TNumber (cast_num 2)) = Inr (t', s) \<and>
    wf_table id_view (set_slot t' s TNil)"
proof -
  have n: "\<not> is_nan_value (TNumber (cast_num 2) :: nat tvalue)" by (rule not_nan_cast) (simp add: is_cint_def INT_MIN_def INT_MAX_def)
  obtain t' s where "luaH_set id_view pair_table (TNumber (cast_num 2)) = Inr (t', s)"
    using luaH_set_ok [OF pair_table_wf pair_table_size(1) _ n pair_table_size(2)]
    by (metis proper_simps(3))
  then show ?thesis
    using luaH_set_keeps_invariant [OF pair_table_wf pair_table_size _ n] by auto
qed

text \<open>C6: \<open>luaH_set\<close> refuses the keys nil and NaN with the errors of \<open>luaG_runerror\<close>.\<close>

theorem luaH_set_errors:
  assumes "wf_table H t" and "luai_numisnan n"
  shows "luaH_set H t TNil = Inl (ErrRun ''table index is nil'') \<and>
    luaH_set H t (TNumber n) = Inl (ErrRun ''table index is NaN'')"
proof -
  have wo: "wf_open H t" using assms(1) by (simp add: wf_table_def)
  have n: "\<not> luai_numeq x n" for x using assms(2) by (simp add: luai_numeq_def)
  then have na: "\<not> in_array t (TNumber n)" by (simp add: in_array_def arrayindex_def Let_def)
  have "\<not> luaO_rawequalObj k (TNumber n)" for k :: "'a tvalue" using n by (cases k) auto
  then have nh: "\<not> holds_key (node t) (TNumber n) i" for i by (simp add: holds_key_def)
  have "luaH_get H t (TNumber n) = Inr None"
    by (rule luaH_get_cases [OF wo, of "TNumber n"]) (use na nh in auto)
  then show ?thesis
    using assms(2) by (simp add: luaH_set_def luaH_set_by_def is_nan_value_def luaH_get_def)
qed

lemma luaH_set_errors_witness:
  "luaH_set id_view pair_table (TNumber 0x7FF8000000000000) = Inl (ErrRun ''table index is NaN'')"
proof -
  have "luai_numisnan 0x7FF8000000000000" by (simp add: luai_numisnan_def dbl_mag_def)
  then show ?thesis using luaH_set_errors [OF pair_table_wf] by blast
qed

section \<open>Sizes\<close>

text \<open>C7: for counters \<open>nums\<close> of the candidate keys per power-of-two slice, \<open>computesizes\<close>
  returns 0 or a power of two more than half of whose slots will be used, with the number of
  keys that go to the array, and no other such size takes more keys.\<close>

theorem computesizes_optimal:
  assumes "computesizes nums (csum nums MAXBITS) = (n, na)"
  shows "best_size nums (\<lambda>i. i \<le> MAXBITS) n na"
  by (rule computesizes_best [OF refl assms])

lemma computesizes_optimal_witness:
  "best_size ([1, 1, 2, 3] @ replicate 23 0) (\<lambda>i. i \<le> MAXBITS) 8 7"
proof (rule computesizes_optimal)
  show "computesizes ([1, 1, 2, 3] @ replicate 23 0) (csum ([1, 1, 2, 3] @ replicate 23 0) MAXBITS) = (8, 7)"
    by code_simp
qed

text \<open>C8: growing the array part (\<open>luaH_resizearray\<close>, as \<open>OP_SETLIST\<close> does) succeeds, gives
  the array the requested size, and changes no entry.\<close>

theorem luaH_resizearray_preserves:
  assumes "wf_table H t" and "sizearray t \<le> n" and "int n \<le> MAXASIZE"
  shows "\<exists>t'. luaH_resizearray H t n = Inr t' \<and> wf_table H t' \<and> sizearray t' = n \<and>
    (\<forall>k. proper k \<longrightarrow> tget H t' k = tget H t k)"
proof -
  have wo: "wf_open H t" using assms(1) by (simp add: wf_table_def)
  note W = wf_openD [OF wo]
  have mi: "MAXASIZE \<le> INT_MAX" by (simp add: MAXASIZE_def MAXBITS_def INT_MAX_def)
  define h where "h = (if is_dummy t then 0 else sizenode t)"
  have "length (moved t n) \<le> length (node_keys (rev (node t)))"
    using assms(2) length_filter_le [of "hashed n" "node_keys (rev (node t))"]
    by (simp add: moved_def array_keys_def)
  moreover have "length (node_keys (rev (node t))) \<le> length (node t)"
    unfolding node_keys_def using length_filter_le [of _ "rev (node t)"] by simp
  moreover have "node_keys (rev (node t)) = []" if "is_dummy t"
    using W(5) [OF that] by (simp add: node_keys_def dummynode_def)
  ultimately have "length (moved t n) \<le> h" using sizenode_length [OF wo] by (auto simp: h_def)
  moreover have "(2::nat) ^ lsizenode t \<le> 2 ^ MAXBITS" using W(3) by (intro power_increasing) auto
  then have "h \<le> 2 ^ MAXBITS" by (simp add: h_def sizenode_def)
  ultimately obtain t' where
    "resize_table (newkey_by (newkey 1 H) H) H t n h = Inr t'" "wf_table H t'" "sizearray t' = n"
    "\<And>k. proper k \<Longrightarrow> tget H t' k = tget H t k"
    using resize_ok [OF assms(1) order_trans [OF assms(3) mi], where nk = "newkey 1 H" and h = h] by blast
  then show ?thesis
    by (simp add: luaH_resizearray_def h_def REHASH_DEPTH_def numeral_2_eq_2)
qed

lemma luaH_resizearray_preserves_witness:
  "\<exists>t'. luaH_resizearray id_view pair_table 5 = Inr t' \<and> sizearray t' = 5 \<and>
    tget id_view t' (TBoolean True) = tget id_view pair_table (TBoolean True)"
  using luaH_resizearray_preserves [OF pair_table_wf, of 5]
  by (force simp: pair_table_def MAXASIZE_def MAXBITS_def)

text \<open>A new table satisfies the invariant, has the requested array size and no entry; a
  hash part of more than 2^26 nodes is refused.\<close>

theorem luaH_new_empty:
  fixes H :: "'s string_view"
  assumes "int narray \<le> INT_MAX" and "nhash < 2 ^ 32"
  shows "(nhash \<le> 2 ^ MAXBITS \<longrightarrow> (\<exists>t. luaH_new narray nhash = Inr t \<and> wf_table H t \<and>
      sizearray t = narray \<and> nhash \<le> sizenode t \<and> (\<forall>k. proper k \<longrightarrow> tget H t k = TNil))) \<and>
    (2 ^ MAXBITS < nhash \<longrightarrow> (luaH_new narray nhash :: 's Table res) = Inl (ErrRun ''table overflow''))"
proof (intro conjI impI)
  define t0 :: "'s Table" where "t0 = setarrayvector
      \<lparr>flags = NOT 0, lsizenode = 0, metatable = None, array = [], sizearray = 0,
       node = [dummynode], is_dummy = True, lastfree = 0\<rparr> narray"
  have n: "luaH_new narray nhash = setnodevector t0 nhash" by (simp add: luaH_new_def t0_def)
  show "(luaH_new narray nhash :: 's Table res) = Inl (ErrRun ''table overflow'')" if "2 ^ MAXBITS < nhash"
    unfolding n by (rule setnodevector_overflow [OF that assms(2)])
  assume "nhash \<le> 2 ^ MAXBITS"
  then obtain l where l: "setnodevector t0 nhash = Inr (t0\<lparr>node := fresh_nodes l, is_dummy := (nhash = 0),
      lsizenode := l, lastfree := (if nhash = 0 then 0 else 2 ^ l)\<rparr>)"
    "nhash \<le> 2 ^ l" "l \<le> MAXBITS" "nhash = 0 \<Longrightarrow> l = 0"
    using setnodevector_eq by blast
  define t where "t = t0\<lparr>node := fresh_nodes l, is_dummy := (nhash = 0),
      lsizenode := l, lastfree := (if nhash = 0 then 0 else 2 ^ l)\<rparr>"
  have a: "array t = replicate narray TNil" "sizearray t = narray" "node t = fresh_nodes l"
    by (simp_all add: t_def t0_def setarrayvector_def)
  have w: "wf_open H t"
    by (rule fresh_table_wf [where l = l]) (use a l assms(1) in \<open>auto simp: t_def\<close>)
  have "tget H t k = TNil" if "proper k" for k
    using fresh_table_tget [OF w a(3) that] a by (auto simp: in_array_def)
  then show "\<exists>t. luaH_new narray nhash = Inr t \<and> wf_table H t \<and> sizearray t = narray \<and>
      nhash \<le> sizenode t \<and> (\<forall>k. proper k \<longrightarrow> tget H t k = TNil)"
    using n l w a by (intro exI [of _ t]) (auto simp: t_def wf_table_def sizenode_def)
qed

lemma luaH_new_empty_witness:
  "(\<exists>t. luaH_new 4 3 = Inr t \<and> wf_table id_view t \<and> sizearray t = 4) \<and>
    (luaH_new 0 70000000 :: nat Table res) = Inl (ErrRun ''table overflow'')"
  using luaH_new_empty [of 4 3 id_view] luaH_new_empty [of 0 70000000 id_view]
  by (auto simp: INT_MAX_def MAXBITS_def)

section \<open>Borders and traversal\<close>

text \<open>C9: \<open>luaH_getn\<close>, the length operator, returns a border: 0 or the index of a value that is
  not nil, such that the value at the next index is nil. It always returns, also when the
  doubling search overflows and the linear search takes over.\<close>

theorem luaH_getn_is_border:
  assumes "wf_table H t" and "int (sizearray t + length (node t)) < MAX_INT"
  shows "\<exists>n. luaH_getn t = Inr n \<and> (n = 0 \<or> geti H t n \<noteq> TNil) \<and> geti H t (n + 1) = TNil"
proof -
  obtain n where "luaH_getn t = Inr n" "border (\<lambda>j. geti H t j = TNil) n"
    using luaH_getn_border [OF assms] by blast
  then show ?thesis unfolding border_def by blast
qed

lemma luaH_getn_is_border_witness:
  "luaH_getn pair_table = Inr 2 \<and> geti id_view pair_table 2 \<noteq> TNil \<and> geti id_view pair_table 3 = TNil"
proof -
  have "luaH_getn pair_table = Inr 2" by code_simp
  then show ?thesis
    using luaH_getn_is_border [OF pair_table_wf]
    by (auto simp: pair_table_def MAX_INT_def INT_MAX_def)
qed

text \<open>C10: starting from nil and following \<open>luaH_next\<close>, a traversal ends and yields the pairs at
  the occupied positions, array part first, each exactly once (when no dead key that the collector has
  left in the node part has the address of a live key, \<open>dead_apart\<close>).\<close>

theorem luaH_next_traverses:
  assumes "wf_table H t" and "dead_apart H t" and "length (positions t 0) < fuel"
  shows "traverse H t fuel TNil = Inr (map (pos_pair t) (positions t 0)) \<and> distinct (positions t 0)"
proof -
  have "wf_open H t" using assms(1) by (simp add: wf_table_def)
  then show ?thesis
    using traverse_positions [OF _ assms(2), of TNil 0 fuel] assms(3)
    by (simp add: findindex_def positions_def)
qed

lemma luaH_next_traverses_witness:
  "traverse id_view pair_table 3 TNil =
    Inr [(TNumber (cast_num 1), TBoolean True), (TNumber (cast_num 2), TString 7)]"
proof -
  have p: "positions pair_table 0 = [0, 1]" by code_simp
  have "dead_apart id_view pair_table" by (simp add: dead_apart_def pair_table_def dummynode_def)
  from luaH_next_traverses [OF pair_table_wf this, of 3] show ?thesis
    by (simp add: p) (simp add: pos_pair_def pos_key_def pos_val_def pair_table_def)
qed

end
