(* ===== verification/LZio.thy ===== *)
theory LZio
  imports Prelude
begin

text \<open>
  \<open>lzio.c\<close>: buffered input. A \<open>lua_Reader\<close> is a function of its own data, which returns a
  buffer (\<open>None\<close> for NULL) and the new data. \<open>zbuf\<close> are the bytes from \<open>z->p\<close> to the end of
  the reader's buffer, \<open>zn\<close> is \<open>z->n\<close>, which counts them as long as the end of the stream was
  not passed with \<open>zgetc\<close>; reading a byte that is not there is \<open>Undefined\<close>.
\<close>

section \<open>The stream\<close>

type_synonym 'd lua_Reader = "'d \<Rightarrow> byte list option \<times> 'd"

record 'd ZIO =
  zn :: size_t
  zbuf :: "byte list"
  zdata :: 'd

definition EOZ :: int where "EOZ = - 1"

definition char2int :: "byte \<Rightarrow> int" where "char2int c = uint c"

definition luaZ_init :: "'d \<Rightarrow> 'd ZIO" where
  "luaZ_init data = \<lparr>zn = 0, zbuf = [], zdata = data\<rparr>"

definition luaZ_fill :: "'d lua_Reader \<Rightarrow> 'd ZIO \<Rightarrow> int \<times> 'd ZIO" where
  "luaZ_fill reader z =
     (case reader (zdata z) of (buff, d) \<Rightarrow>
        let z' = z\<lparr>zdata := d\<rparr>
        in case buff of
             None \<Rightarrow> (EOZ, z')
           | Some bs \<Rightarrow>
               let size = word_of_nat (length bs) :: size_t
               in if size = 0 then (EOZ, z')
                  else (char2int (hd bs), z'\<lparr>zn := size - 1, zbuf := tl bs\<rparr>))"

text \<open>The macro \<open>zgetc\<close>: the counter is decremented before it is known whether there is a
  byte.\<close>

definition zgetc :: "'d lua_Reader \<Rightarrow> 'd ZIO \<Rightarrow> (int \<times> 'd ZIO) res" where
  "zgetc reader z =
     (let z' = z\<lparr>zn := zn z - 1\<rparr>
      in if 0 < zn z then
           (case zbuf z of
              [] \<Rightarrow> Inl Undefined
            | b # bs \<Rightarrow> Inr (char2int b, z'\<lparr>zbuf := bs\<rparr>))
         else Inr (luaZ_fill reader z'))"

definition peek :: "'d ZIO \<Rightarrow> (int \<times> 'd ZIO) res" where
  "peek z = (case zbuf z of [] \<Rightarrow> Inl Undefined | b # bs \<Rightarrow> Inr (char2int b, z))"

definition luaZ_lookahead :: "'d lua_Reader \<Rightarrow> 'd ZIO \<Rightarrow> (int \<times> 'd ZIO) res" where
  "luaZ_lookahead reader z =
     (if zn z = 0 then
        (case luaZ_fill reader z of (c, z') \<Rightarrow>
           if c = EOZ then Inr (EOZ, z')
           else peek (z'\<lparr>zn := zn z' + 1, zbuf := word_of_int c # zbuf z'\<rparr>))
      else peek z)"

text \<open>\<open>luaZ_read\<close> returns the number of missing bytes, the bytes it stored, and the stream.\<close>

function luaZ_read :: "'d lua_Reader \<Rightarrow> 'd ZIO \<Rightarrow> nat \<Rightarrow> (nat \<times> byte list \<times> 'd ZIO) res" where
  "luaZ_read reader z n =
     (if n = 0 then Inr (0, [], z)
      else rbind (luaZ_lookahead reader z) (\<lambda>(c, z').
        if c = EOZ then Inr (n, [], z')
        else (let m = min n (unat (zn z'))
              in if m = 0 \<or> length (zbuf z') < m then Inl Undefined
                 else rbind (luaZ_read reader
                        (z'\<lparr>zn := zn z' - word_of_nat m, zbuf := drop m (zbuf z')\<rparr>) (n - m))
                   (\<lambda>(r, bs, z''). Inr (r, take m (zbuf z') @ bs, z'')))))"
  by pat_completeness auto
termination by (relation "measure (\<lambda>(reader, z, n). n)") auto

declare luaZ_read.simps [simp del]

section \<open>The bytes a stream delivers\<close>

text \<open>From data \<open>d\<close> the reader delivers \<open>bs\<close> and then reports the end.\<close>

inductive delivers :: "'d lua_Reader \<Rightarrow> 'd \<Rightarrow> byte list \<Rightarrow> bool" for R where
  stop: "R d = (None, d') \<Longrightarrow> delivers R d []"
| stop_empty: "R d = (Some bs, d') \<Longrightarrow> (word_of_nat (length bs) :: size_t) = 0 \<Longrightarrow> delivers R d []"
| chunk: "R d = (Some bs, d') \<Longrightarrow> length bs < 2 ^ 64 \<Longrightarrow> bs \<noteq> [] \<Longrightarrow> delivers R d' cs \<Longrightarrow>
    delivers R d (bs @ cs)"

inductive_simps delivers_iff: "delivers R d bs"

definition holds :: "'d lua_Reader \<Rightarrow> 'd ZIO \<Rightarrow> byte list \<Rightarrow> bool" where
  "holds R z bs \<longleftrightarrow> unat (zn z) = length (zbuf z) \<and>
     (\<exists>cs. bs = zbuf z @ cs \<and> delivers R (zdata z) cs)"

lemma size_t_chunk:
  assumes "length bs < 2 ^ 64" and "bs \<noteq> []"
  shows "(word_of_nat (length bs) :: size_t) \<noteq> 0"
    and "unat (word_of_nat (length bs) :: size_t) = length bs"
    and "unat (word_of_nat (length bs) - 1 :: size_t) = length (tl bs)"
proof -
  show u: "unat (word_of_nat (length bs) :: size_t) = length bs"
    using assms(1) by (simp add: unsigned_of_nat take_bit_nat_eq_self)
  then show n: "(word_of_nat (length bs) :: size_t) \<noteq> 0" using assms(2) by auto
  have "1 \<le> (word_of_nat (length bs) :: size_t)" using n by (simp add: word_le_nat_alt u) (use assms(2) in \<open>simp add: Suc_le_eq\<close>)
  then show "unat (word_of_nat (length bs) - 1 :: size_t) = length (tl bs)"
    using u by (simp add: unat_sub)
qed

lemma fill_cases:
  assumes "delivers R (zdata z) bs"
  obtains (eoz) z' where "bs = []" and "luaZ_fill R z = (EOZ, z')" and "zn z' = zn z" and "zbuf z' = zbuf z"
  | (byte) b z' where "luaZ_fill R z = (char2int b, z')" and "unat (zn z') = length (zbuf z')"
      and "Suc (length (zbuf z')) < 2 ^ 64" and "holds R z' (tl bs)" and "bs \<noteq> []" and "hd bs = b"
  using assms
proof cases
  case (stop d')
  then show thesis by (intro eoz [of "z\<lparr>zdata := d'\<rparr>"]) (simp_all add: luaZ_fill_def)
next
  case (stop_empty cs d')
  then show thesis by (intro eoz [of "z\<lparr>zdata := d'\<rparr>"]) (simp_all add: luaZ_fill_def)
next
  case (chunk c d' cs)
  note s = size_t_chunk [OF chunk(3,4)]
  show thesis
  proof (rule byte)
    show "luaZ_fill R z = (char2int (hd c),
        z\<lparr>zdata := d', zn := word_of_nat (length c) - 1, zbuf := tl c\<rparr>)"
      using chunk s by (simp add: luaZ_fill_def Let_def)
  qed (use chunk s in \<open>auto simp: holds_def\<close>)
qed

lemma char2int_not_EOZ: "char2int b \<noteq> EOZ"
proof -
  have "0 \<le> uint b" by simp
  then show ?thesis unfolding char2int_def EOZ_def by linarith
qed

lemma lookahead_holds:
  assumes "holds R z (b # bs)"
  obtains z' where "luaZ_lookahead R z = Inr (char2int b, z')" and "holds R z' (b # bs)"
    and "zbuf z' \<noteq> []" and "unat (zn z') = length (zbuf z')"
proof (cases "zbuf z")
  case (Cons c cs)
  then have "zn z \<noteq> 0" "c = b" using assms by (auto simp: holds_def)
  then show thesis
    using assms Cons by (intro that [of z]) (auto simp: luaZ_lookahead_def peek_def holds_def)
next
  case Nil
  then have z: "zn z = 0" and d: "delivers R (zdata z) (b # bs)"
    using assms by (auto simp: holds_def unat_eq_0)
  from d show thesis
  proof (cases rule: fill_cases)
    case (byte c z')
    define z2 where "z2 = z'\<lparr>zn := zn z' + 1, zbuf := b # zbuf z'\<rparr>"
    have c: "c = b" using byte by simp
    have "unat (zn z' + 1) = Suc (unat (zn z'))"
      using byte(2,3) by (simp add: unat_word_ariths(1) unat_of_nat)
    then have "holds R z2 (b # bs)" "unat (zn z2) = length (zbuf z2)"
      using byte by (auto simp: holds_def z2_def)
    then show thesis
      using byte(1) c z char2int_not_EOZ [of b]
      by (intro that [of z2]) (auto simp: luaZ_lookahead_def peek_def z2_def char2int_def)
  qed simp
qed

lemma lookahead_end:
  assumes "holds R z []"
  obtains z' where "luaZ_lookahead R z = Inr (EOZ, z')" and "zbuf z' = []" and "zn z' = 0"
proof -
  have z: "zn z = 0" "zbuf z = []" and d: "delivers R (zdata z) []"
    using assms by (auto simp: holds_def unat_eq_0)
  from d show thesis
  proof (cases rule: fill_cases)
    case (eoz z')
    then show thesis using z by (intro that [of z']) (simp_all add: luaZ_lookahead_def)
  qed simp
qed

lemma luaZ_read_holds:
  "holds R z bs \<Longrightarrow> \<exists>z'. luaZ_read R z n = Inr (n - length bs, take n bs, z') \<and>
    (n \<le> length bs \<longrightarrow> holds R z' (drop n bs))"
proof (induction R z n arbitrary: bs rule: luaZ_read.induct)
  case (1 R z n)
  show ?case
  proof (cases "n = 0")
    case True
    then show ?thesis using "1.prems" by (subst luaZ_read.simps) simp
  next
    case n: False
    show ?thesis
    proof (cases bs)
      case Nil
      then obtain z' where "luaZ_lookahead R z = Inr (EOZ, z')"
        using lookahead_end "1.prems" by blast
      then show ?thesis using n Nil by (subst luaZ_read.simps) simp
    next
      case (Cons b cs)
      then obtain z' where l: "luaZ_lookahead R z = Inr (char2int b, z')" "holds R z' bs"
        "zbuf z' \<noteq> []" "unat (zn z') = length (zbuf z')"
        using lookahead_holds "1.prems" by blast
      define m where "m = min n (unat (zn z'))"
      have m: "m \<noteq> 0" "\<not> length (zbuf z') < m" "m \<le> n" using n l by (auto simp: m_def)
      define z2 where "z2 = z'\<lparr>zn := zn z' - word_of_nat m, zbuf := drop m (zbuf z')\<rparr>"
      have "unat (zn z') < 2 ^ 64" using unsigned_less [of "zn z'"] by simp
      then have mu: "unat (word_of_nat m :: size_t) = m"
        by (simp add: m_def unsigned_of_nat take_bit_nat_eq_self)
      have "unat (zn z' - word_of_nat m) = unat (zn z') - m"
        using mu by (simp add: unat_sub word_le_nat_alt m_def)
      then have h: "holds R z2 (drop m bs)"
        using l m by (auto simp: holds_def z2_def)
      have le: "m \<le> length bs" and tk: "take m bs = take m (zbuf z')"
        using l(2,4) by (auto simp: holds_def m_def)
      obtain z3 where z3: "luaZ_read R z2 (n - m) =
          Inr (n - m - length (drop m bs), take (n - m) (drop m bs), z3)"
        "n - m \<le> length (drop m bs) \<longrightarrow> holds R z3 (drop (n - m) (drop m bs))"
        using "1.IH" [OF n l(1) refl _ m_def _ h [unfolded z2_def]] m char2int_not_EOZ
        by (auto simp: z2_def)
      have "luaZ_read R z n = Inr (n - m - length (drop m bs), take m (zbuf z') @ take (n - m) (drop m bs), z3)"
        by (subst luaZ_read.simps)
          (simp only: l(1) n rbind_simps prod.case Let_def m_def [symmetric] z2_def [symmetric]
            char2int_not_EOZ if_False m simp_thms z3(1))
      moreover have "take m (zbuf z') @ take (n - m) (drop m bs) = take n bs"
        using m(3) by (simp add: tk [symmetric] take_add [symmetric])
      ultimately show ?thesis using z3(2) le m(3) by (auto simp: add.commute)
    qed
  qed
qed

lemma zgetc_cases:
  assumes "holds R z bs"
  shows "case bs of
      b # cs \<Rightarrow> \<exists>z'. zgetc R z = Inr (char2int b, z') \<and> holds R z' cs
    | [] \<Rightarrow> \<exists>z'. zgetc R z = Inr (EOZ, z') \<and> zgetc R z' = Inl Undefined"
proof (cases "zbuf z")
  case (Cons c cs)
  then have n: "unat (zn z) = Suc (length cs)" and "\<exists>ds. bs = c # cs @ ds \<and> delivers R (zdata z) ds"
    using assms by (auto simp: holds_def)
  then obtain ds where bs: "bs = c # cs @ ds" "delivers R (zdata z) ds" by blast
  have p: "0 < zn z" using n by (simp add: word_less_nat_alt)
  then have "unat (zn z - 1) = length cs" using n by (simp add: unat_sub word_le_nat_alt)
  then have "holds R (z\<lparr>zn := zn z - 1, zbuf := cs\<rparr>) (cs @ ds)" using bs by (auto simp: holds_def)
  then show ?thesis using bs Cons p by (auto simp: zgetc_def)
next
  case Nil
  then have z: "zn z = 0" and d: "delivers R (zdata z) bs" using assms by (auto simp: holds_def unat_eq_0)
  define z1 where "z1 = z\<lparr>zn := zn z - 1\<rparr>"
  have g: "zgetc R z = Inr (luaZ_fill R z1)" using z by (simp add: zgetc_def z1_def Let_def)
  have "delivers R (zdata z1) bs" using d by (simp add: z1_def)
  then show ?thesis
  proof (cases rule: fill_cases)
    case (eoz z')
    then have "zgetc R z' = Inl Undefined" using Nil z by (simp add: zgetc_def z1_def Let_def word_gt_0)
    then show ?thesis using g eoz by simp
  next
    case (byte b z')
    then show ?thesis using g by (cases bs) auto
  qed
qed

section \<open>Growing buffers\<close>

text \<open>\<open>Mbuffer\<close>; the contents beyond what was written are not modelled.\<close>

record Mbuffer =
  mbuffer :: "byte list"
  buffsize :: nat

definition LUA_MINBUFFER :: nat where "LUA_MINBUFFER = 32"

definition luaZ_resizebuffer :: "Mbuffer \<Rightarrow> nat \<Rightarrow> Mbuffer" where
  "luaZ_resizebuffer buff sz = buff\<lparr>mbuffer := take sz (mbuffer buff), buffsize := sz\<rparr>"

definition luaZ_openspace :: "Mbuffer \<Rightarrow> nat \<Rightarrow> Mbuffer" where
  "luaZ_openspace buff n =
     (if buffsize buff < n then luaZ_resizebuffer buff (if n < LUA_MINBUFFER then LUA_MINBUFFER else n)
      else buff)"

lemma luaZ_openspace_room:
  "n \<le> buffsize (luaZ_openspace buff n) \<and> buffsize buff \<le> buffsize (luaZ_openspace buff n) \<and>
   (length (mbuffer buff) \<le> buffsize buff \<longrightarrow> mbuffer (luaZ_openspace buff n) = mbuffer buff)"
  by (auto simp: luaZ_openspace_def luaZ_resizebuffer_def LUA_MINBUFFER_def)

section \<open>Properties\<close>

text \<open>C11: whatever the sizes of the chunks the reader delivers, \<open>luaZ_read\<close> of \<open>n\<close> bytes
  stores the next \<open>n\<close> bytes of the stream, or all that are left with the number of those
  missing, and in the first case leaves the stream right after them.\<close>

theorem luaZ_read_takes:
  assumes "holds R z bs"
  shows "\<exists>z'. luaZ_read R z n = Inr (n - length bs, take n bs, z') \<and>
    (n \<le> length bs \<longrightarrow> holds R z' (drop n bs))"
  by (rule luaZ_read_holds [OF assms])

text \<open>A reader that hands out the elements of a list of chunks, as \<open>generic_reader\<close> does for
  the pieces a script returns.\<close>

definition list_reader :: "byte list list lua_Reader" where
  "list_reader d = (case d of [] \<Rightarrow> (None, []) | c # cs \<Rightarrow> (Some c, cs))"

lemma list_reader_delivers:
  "(\<And>c. c \<in> set cs \<Longrightarrow> c \<noteq> [] \<and> length c < 2 ^ 64) \<Longrightarrow> delivers list_reader cs (concat cs)"
proof (induction cs)
  case Nil
  show ?case unfolding concat.simps
    by (rule delivers.stop [of _ _ "[]"]) (simp add: list_reader_def)
next
  case (Cons c cs)
  then have "delivers list_reader cs (concat cs)" by simp
  moreover have "list_reader (c # cs) = (Some c, cs)" by (simp add: list_reader_def)
  ultimately show ?case using Cons.prems [of c] by (auto intro: delivers.chunk)
qed

lemma list_reader_holds:
  "(\<And>c. c \<in> set cs \<Longrightarrow> c \<noteq> [] \<and> length c < 2 ^ 64) \<Longrightarrow>
    holds list_reader (luaZ_init cs) (concat cs)"
  using list_reader_delivers [of cs] by (simp add: holds_def luaZ_init_def)

lemma luaZ_read_takes_witness:
  "\<exists>z'. luaZ_read list_reader (luaZ_init [[1, 2], [3], [4, 5]]) 4 = Inr (0, [1, 2, 3, 4], z') \<and>
    holds list_reader z' [5]"
proof -
  have "holds list_reader (luaZ_init [[1, 2], [3], [4, 5]]) (concat [[1, 2], [3], [4, 5]])"
    by (rule list_reader_holds) auto
  from luaZ_read_takes [OF this, of 4] show ?thesis by simp
qed

text \<open>C12: \<open>zgetc\<close> delivers the bytes one by one and reports the end once; it has then
  decremented the counter below 0, so that a second \<open>zgetc\<close> reads outside the buffer.\<close>

theorem zgetc_spec:
  assumes "holds R z bs"
  shows "case bs of
      b # cs \<Rightarrow> \<exists>z'. zgetc R z = Inr (char2int b, z') \<and> holds R z' cs
    | [] \<Rightarrow> \<exists>z'. zgetc R z = Inr (EOZ, z') \<and> zgetc R z' = Inl Undefined"
  by (rule zgetc_cases [OF assms])

lemma zgetc_spec_witness:
  "\<exists>z'. zgetc list_reader (luaZ_init [[65]]) = Inr (65, z') \<and> holds list_reader z' []"
proof -
  have "holds list_reader (luaZ_init [[65]]) (concat [[65]])"
    by (rule list_reader_holds) auto
  from zgetc_spec [OF this] show ?thesis by (simp add: char2int_def)
qed

end
