(* ===== verification/LMem.thy ===== *)
theory LMem
  imports Prelude
begin

text \<open>
  \<open>lmem.c\<close>: the interface to the host's allocator and the growth of vectors. The allocator
  \<open>frealloc\<close> is a function of its own state; what \<open>lmem.c\<close> asks of it in its leading comment
  is the locale \<open>lua_allocator\<close>, and \<open>l_alloc\<close> of \<open>lauxlib.c\<close> over a bounded C heap is an
  instance.
\<close>

section \<open>Allocation\<close>

type_synonym 'm lua_Alloc = "'m \<Rightarrow> addr option \<Rightarrow> nat \<Rightarrow> nat \<Rightarrow> addr option \<times> 'm"

record 'm mem_state =
  totalbytes :: size_t
  alloc_ud :: 'm

definition MAX_SIZET :: size_t where "MAX_SIZET = NOT 0 - 2"

definition luaM_realloc :: "'m lua_Alloc \<Rightarrow> 'm mem_state \<Rightarrow> addr option \<Rightarrow> nat \<Rightarrow> nat \<Rightarrow>
    (addr option \<times> 'm mem_state) res" where
  "luaM_realloc frealloc g block osize nsize =
     (case frealloc (alloc_ud g) block osize nsize of (block', ud) \<Rightarrow>
        if block' = None \<and> 0 < nsize then Inl ErrMem
        else Inr (block', g\<lparr>alloc_ud := ud,
               totalbytes := (totalbytes g - word_of_nat osize) + word_of_nat nsize\<rparr>))"

definition luaM_toobig :: "'a res" where
  "luaM_toobig = Inl (ErrRun ''memory allocation error: block too big'')"

text \<open>The macro \<open>luaM_reallocv\<close>: \<open>on\<close> and \<open>n\<close> count elements of \<open>e\<close> bytes.\<close>

definition luaM_reallocv :: "'m lua_Alloc \<Rightarrow> 'm mem_state \<Rightarrow> addr option \<Rightarrow> nat \<Rightarrow> nat \<Rightarrow> nat \<Rightarrow>
    (addr option \<times> 'm mem_state) res" where
  "luaM_reallocv frealloc g block on n e =
     (if n + 1 \<le> unat MAX_SIZET div e then luaM_realloc frealloc g block (on * e) (n * e)
      else luaM_toobig)"

definition MINSIZEARRAY :: int where "MINSIZEARRAY = 4"

text \<open>The new size that \<open>luaM_growaux_\<close> computes, and the whole function; \<open>size\<close> and
  \<open>limit\<close> are C ints.\<close>

definition growaux_size :: "int \<Rightarrow> int \<Rightarrow> string \<Rightarrow> int res" where
  "growaux_size sz limit errormsg =
     (if limit div 2 \<le> sz then
        (if limit \<le> sz then Inl (ErrRun errormsg) else Inr limit)
      else (let newsize = sz * 2
            in Inr (if newsize < MINSIZEARRAY then MINSIZEARRAY else newsize)))"

definition luaM_growaux :: "'m lua_Alloc \<Rightarrow> 'm mem_state \<Rightarrow> addr option \<Rightarrow> int \<Rightarrow> nat \<Rightarrow> int \<Rightarrow> string \<Rightarrow>
    (addr option \<times> int \<times> 'm mem_state) res" where
  "luaM_growaux frealloc g block sz size_elems limit errormsg =
     rbind (growaux_size sz limit errormsg) (\<lambda>newsize.
     rbind (luaM_reallocv frealloc g block (nat sz) (nat newsize) size_elems) (\<lambda>(newblock, g').
       Inr (newblock, newsize, g')))"

section \<open>The allocator contract\<close>

text \<open>\<open>owns m p n\<close>: in state \<open>m\<close> the allocator has given out block \<open>p\<close> with \<open>n\<close> bytes.\<close>

locale lua_allocator =
  fixes frealloc :: "'m lua_Alloc"
    and owns :: "'m \<Rightarrow> addr \<Rightarrow> nat \<Rightarrow> bool"
  assumes free_null: "frealloc m block osize 0 = (b, m') \<Longrightarrow> b = None"
    and shrink: "owns m p osize \<Longrightarrow> 0 < nsize \<Longrightarrow> nsize \<le> osize \<Longrightarrow>
      frealloc m (Some p) osize nsize = (b, m') \<Longrightarrow> b \<noteq> None"
    and gives: "frealloc m block osize nsize = (Some q, m') \<Longrightarrow>
      (case block of None \<Rightarrow> osize = 0 | Some p \<Rightarrow> owns m p osize) \<Longrightarrow> owns m' q nsize"
begin

text \<open>Releasing and shrinking never raise a memory error.\<close>

lemma realloc_down:
  assumes "nsize = 0 \<or> owns (alloc_ud g) p osize \<and> nsize \<le> osize"
  shows "\<exists>b g'. luaM_realloc frealloc g (Some p) osize nsize = Inr (b, g') \<and> (b = None \<longleftrightarrow> nsize = 0) \<and>
    totalbytes g' = totalbytes g - word_of_nat osize + word_of_nat nsize"
  using assms free_null shrink
  by (cases "frealloc (alloc_ud g) (Some p) osize nsize"; cases "nsize = 0")
    (auto simp: luaM_realloc_def)

lemma realloc_owns:
  assumes "luaM_realloc frealloc g block osize nsize = Inr (Some q, g')"
    and "case block of None \<Rightarrow> osize = 0 | Some p \<Rightarrow> owns (alloc_ud g) p osize"
  shows "owns (alloc_ud g') q nsize"
  using assms gives by (auto simp: luaM_realloc_def split: prod.splits if_splits)

end

section \<open>\<open>l_alloc\<close> over a bounded heap\<close>

text \<open>The C heap: the blocks in use with their sizes, the next address, and the bytes there
  are. \<open>free\<close> and \<open>realloc\<close> as the C standard has them: \<open>realloc\<close> fails, leaving the block,
  only for lack of memory.\<close>

record c_heap =
  blocks :: "(addr \<times> nat) list"
  next_addr :: addr
  heap_limit :: nat

definition heap_used :: "(addr \<times> nat) list \<Rightarrow> nat" where
  "heap_used bs = sum_list (map snd bs)"

definition without :: "addr option \<Rightarrow> (addr \<times> nat) list \<Rightarrow> (addr \<times> nat) list" where
  "without p bs = filter (\<lambda>b. p \<noteq> Some (fst b)) bs"

definition c_free :: "c_heap \<Rightarrow> addr option \<Rightarrow> c_heap" where
  "c_free h p = h\<lparr>blocks := without p (blocks h)\<rparr>"

definition c_realloc :: "c_heap \<Rightarrow> addr option \<Rightarrow> nat \<Rightarrow> addr option \<times> c_heap" where
  "c_realloc h p n =
     (let rest = without p (blocks h)
      in if heap_used rest + n \<le> heap_limit h
         then (Some (next_addr h), h\<lparr>blocks := (next_addr h, n) # rest, next_addr := next_addr h + 1\<rparr>)
         else (None, h))"

definition l_alloc :: "c_heap lua_Alloc" where
  "l_alloc ud ptr osize nsize =
     (if nsize = 0 then (None, c_free ud ptr) else c_realloc ud ptr nsize)"

definition heap_owns :: "c_heap \<Rightarrow> addr \<Rightarrow> nat \<Rightarrow> bool" where
  "heap_owns h p n \<longleftrightarrow> (p, n) \<in> set (blocks h) \<and> heap_used (blocks h) \<le> heap_limit h"

lemma used_without:
  "(p, n) \<in> set bs \<Longrightarrow> heap_used (without (Some p) bs) + n \<le> heap_used bs"
proof (induction bs)
  case (Cons b bs)
  show ?case
  proof (cases "b = (p, n)")
    case True
    have "heap_used (without (Some p) bs) \<le> heap_used bs"
      by (induction bs) (auto simp: heap_used_def without_def)
    then show ?thesis using True by (simp add: heap_used_def without_def)
  next
    case False
    then show ?thesis using Cons by (auto simp: heap_used_def without_def)
  qed
qed simp

interpretation c_alloc: lua_allocator l_alloc heap_owns
proof unfold_locales
  show "b = None" if "l_alloc m block osize 0 = (b, m')" for m block osize b m'
    using that by (simp add: l_alloc_def)
  show "b \<noteq> None" if o: "heap_owns m p osize" and n: "0 < nsize" "nsize \<le> osize"
    and r: "l_alloc m (Some p) osize nsize = (b, m')" for m p osize nsize b m'
  proof -
    have "heap_used (without (Some p) (blocks m)) + osize \<le> heap_limit m"
      using o used_without [of p osize "blocks m"] by (auto simp: heap_owns_def)
    then show ?thesis using n r by (auto simp: l_alloc_def c_realloc_def Let_def split: if_splits)
  qed
  show "heap_owns m' q nsize" if "l_alloc m block osize nsize = (Some q, m')" for m block osize nsize q m'
    using that by (auto simp: l_alloc_def c_realloc_def heap_owns_def heap_used_def Let_def split: if_splits)
qed

section \<open>Accounting\<close>

text \<open>The states a sequence of allocations, reallocations and releases leads to, with the
  blocks in use.\<close>

inductive mem_reach :: "'m lua_Alloc \<Rightarrow> 'm mem_state \<Rightarrow> (addr \<times> nat) list \<Rightarrow> bool"
  for frealloc :: "'m lua_Alloc" where
  start: "totalbytes g = 0 \<Longrightarrow> mem_reach frealloc g []"
| alloc: "mem_reach frealloc g live \<Longrightarrow> luaM_realloc frealloc g None 0 n = Inr (Some p, g') \<Longrightarrow>
    mem_reach frealloc g' ((p, n) # live)"
| resize: "mem_reach frealloc g (xs @ (p, n) # ys) \<Longrightarrow>
    luaM_realloc frealloc g (Some p) n n' = Inr (Some p', g') \<Longrightarrow>
    mem_reach frealloc g' (xs @ (p', n') # ys)"
| release: "mem_reach frealloc g (xs @ (p, n) # ys) \<Longrightarrow>
    luaM_realloc frealloc g (Some p) n 0 = Inr (None, g') \<Longrightarrow> mem_reach frealloc g' (xs @ ys)"

lemma realloc_total:
  "luaM_realloc frealloc g block osize nsize = Inr (b, g') \<Longrightarrow>
    totalbytes g' = totalbytes g - word_of_nat osize + word_of_nat nsize"
  by (auto simp: luaM_realloc_def split: prod.splits if_splits)

section \<open>Properties\<close>

text \<open>C13: \<open>totalbytes\<close>, which drives the garbage collector, is the sum of the sizes of the
  blocks in use (modulo the width of \<open>size_t\<close>) after any sequence of allocations, resizes and
  releases.\<close>

theorem totalbytes_accounts:
  assumes "mem_reach frealloc g live"
  shows "totalbytes g = word_of_nat (heap_used live)"
  using assms
  by (induction rule: mem_reach.induct) (auto simp: heap_used_def dest!: realloc_total)

lemma totalbytes_accounts_witness:
  "\<exists>g p. luaM_realloc l_alloc \<lparr>totalbytes = 0, alloc_ud = \<lparr>blocks = [], next_addr = 8, heap_limit = 100\<rparr>\<rparr>
      None 0 40 = Inr (Some p, g) \<and> totalbytes g = word_of_nat (heap_used [(p, 40)])"
proof -
  let ?g = "\<lparr>totalbytes = 0, alloc_ud = \<lparr>blocks = [], next_addr = 8, heap_limit = 100\<rparr>\<rparr>"
  obtain g where g: "luaM_realloc l_alloc ?g None 0 40 = Inr (Some 8, g)"
    by (simp add: luaM_realloc_def l_alloc_def c_realloc_def heap_used_def without_def)
  have "mem_reach l_alloc g [(8, 40)]" by (rule mem_reach.alloc [OF _ g]) (simp add: mem_reach.start)
  then show ?thesis using g totalbytes_accounts by blast
qed

text \<open>With the allocator of \<open>lauxlib.c\<close>, releasing or shrinking a block never raises a
  memory error, however full the heap is.\<close>

theorem shrink_never_fails:
  assumes "heap_owns (alloc_ud g) p osize" and "nsize \<le> osize"
  shows "\<exists>b g'. luaM_realloc l_alloc g (Some p) osize nsize = Inr (b, g') \<and> (b = None \<longleftrightarrow> nsize = 0) \<and>
    totalbytes g' = totalbytes g - word_of_nat osize + word_of_nat nsize"
  by (rule c_alloc.realloc_down) (use assms in blast)

lemma shrink_never_fails_witness:
  "\<exists>b g'. luaM_realloc l_alloc
      \<lparr>totalbytes = 100, alloc_ud = \<lparr>blocks = [(4, 60), (5, 40)], next_addr = 8, heap_limit = 100\<rparr>\<rparr>
      (Some 4) 60 59 = Inr (b, g') \<and> totalbytes g' = 99"
  using shrink_never_fails
    [of "\<lparr>totalbytes = 100, alloc_ud = \<lparr>blocks = [(4, 60), (5, 40)], next_addr = 8, heap_limit = 100\<rparr>\<rparr>" 4 60 59]
  by (auto simp: heap_owns_def heap_used_def)

text \<open>growing a vector that has not reached its limit at least doubles it, up to the
  limit, with 4 elements as a minimum; at the limit it raises the given error. A limit of at
  least 4 is never exceeded.\<close>

theorem growaux_size_bounds:
  assumes "0 \<le> sz"
  shows "if limit \<le> sz then growaux_size sz limit msg = Inl (ErrRun msg)
    else \<exists>n. growaux_size sz limit msg = Inr n \<and> sz < n \<and> (2 * sz \<le> n \<or> n = limit) \<and>
      (4 \<le> limit \<longrightarrow> n \<le> limit)"
  using assms by (auto simp: growaux_size_def MINSIZEARRAY_def Let_def)

lemma growaux_size_bounds_witness:
  "growaux_size 250 250 ''too many'' = Inl (ErrRun ''too many'') \<and>
    (\<exists>n. growaux_size 130 250 ''too many'' = Inr n \<and> 130 < n \<and> n \<le> 250)"
  using growaux_size_bounds [of 250 250 "''too many''"] growaux_size_bounds [of 130 250 "''too many''"]
  by auto

end
