(* ===== verification/LString.thy ===== *)
theory LString
  imports LObject LMem "HOL-Library.Multiset"
begin

text \<open>
  \<open>lstring.c\<close>: the global table of interned strings. A bucket is a list of string headers in
  the order of their chain; \<open>next_ts\<close> is the address the next header will get. The lemmas show
  that equal contents always give the same header, so that the rest of the system may compare
  strings by address.
\<close>

section \<open>Marks\<close>

definition WHITEBITS :: byte where "WHITEBITS = 3"

definition otherwhite :: "byte \<Rightarrow> byte" where "otherwhite currentwhite = currentwhite XOR WHITEBITS"

definition isdead :: "byte \<Rightarrow> byte \<Rightarrow> bool" where
  "isdead currentwhite marked \<longleftrightarrow> marked AND otherwhite currentwhite AND WHITEBITS \<noteq> 0"

definition changewhite :: "byte \<Rightarrow> byte" where "changewhite marked = marked XOR WHITEBITS"

definition luaC_white :: "byte \<Rightarrow> byte" where "luaC_white currentwhite = currentwhite AND WHITEBITS"

lemma isdead_bit:
  "w AND 3 = 1 \<Longrightarrow> isdead w m \<longleftrightarrow> bit m 1"
  "w AND 3 = 2 \<Longrightarrow> isdead w m \<longleftrightarrow> bit m 0"
proof -
  have e: "m AND otherwhite w AND WHITEBITS = m AND ((w AND 3) XOR 3)"
    unfolding otherwhite_def WHITEBITS_def by (rule bit_word_eqI) (auto simp: bit_simps)
  have b: "(m AND push_bit i 1 \<noteq> 0) = bit m i" if "i < 8" for i
  proof -
    have "m AND push_bit i 1 = (if bit m i then push_bit i 1 else 0)"
      by (rule bit_word_eqI) (auto simp: bit_simps)
    moreover have "(push_bit i 1 :: byte) \<noteq> 0" using that by (simp add: push_bit_eq_mult)
    ultimately show ?thesis by simp
  qed
  show "isdead w m \<longleftrightarrow> bit m 1" if "w AND 3 = 1"
    using b [of 1] that by (simp add: isdead_def e)
  show "isdead w m \<longleftrightarrow> bit m 0" if "w AND 3 = 2"
    using b [of 0] that by (simp add: isdead_def e)
qed

lemma changewhite_alive:
  assumes "w AND 3 = 1 \<or> w AND 3 = 2" and "isdead w m"
  shows "\<not> isdead w (changewhite m)"
proof -
  have "bit (3 :: byte) 0" "bit (3 :: byte) 1" by simp_all
  then show ?thesis
    using assms isdead_bit [of w] by (auto simp: changewhite_def WHITEBITS_def bit_xor_iff)
qed

lemma luaC_white_alive: "w AND 3 = 1 \<or> w AND 3 = 2 \<Longrightarrow> \<not> isdead w (luaC_white w)"
  using isdead_bit [of w "w AND 3"] by (auto simp: luaC_white_def WHITEBITS_def)

section \<open>The string table\<close>

record TStr =
  ts_addr :: addr
  ts_hash :: uint32
  ts_marked :: byte
  ts_reserved :: byte
  ts_str :: "byte list"

record stringtable =
  strt_hash :: "TStr list list"
  strt_nuse :: nat
  currentwhite :: byte
  sweepstring :: bool
  next_ts :: addr

definition strt_size :: "stringtable \<Rightarrow> nat" where "strt_size S = length (strt_hash S)"

definition SIZEOF_TString :: nat where "SIZEOF_TString = 24"

text \<open>The hash loop of \<open>luaS_newlstr\<close>: every \<open>step\<close>-th byte, from the end.\<close>

function hash_loop :: "byte list \<Rightarrow> nat \<Rightarrow> nat \<Rightarrow> uint32 \<Rightarrow> uint32" where
  "hash_loop str step l1 h =
     (if 0 < step \<and> step \<le> l1
      then hash_loop str step (l1 - step)
             (h XOR (push_bit 5 h + drop_bit 2 h + ucast (str ! (l1 - 1))))
      else h)"
  by pat_completeness auto
termination by (relation "measure (\<lambda>(str, step, l1, h). l1)") auto

declare hash_loop.simps [simp del]

definition luaS_hash :: "byte list \<Rightarrow> uint32" where
  "luaS_hash str = hash_loop str (length str div 32 + 1) (length str) (word_of_nat (length str))"

text \<open>\<open>luaS_resize\<close> puts every header at the front of its new bucket, in the order of the old
  buckets.\<close>

definition chain_in :: "TStr \<Rightarrow> TStr list list \<Rightarrow> TStr list list" where
  "chain_in ts buckets =
     (let h = lmod (ts_hash ts) (length buckets) in buckets[h := ts # buckets ! h])"

definition luaS_resize :: "stringtable \<Rightarrow> nat \<Rightarrow> stringtable" where
  "luaS_resize S newsize =
     (if sweepstring S then S
      else S\<lparr>strt_hash := fold chain_in (concat (strt_hash S)) (replicate newsize [])\<rparr>)"

definition newlstr :: "stringtable \<Rightarrow> byte list \<Rightarrow> uint32 \<Rightarrow> (TStr \<times> stringtable) res" where
  "newlstr S str h =
     (if unat MAX_SIZET - SIZEOF_TString < length str + 1 then luaM_toobig
      else
        (let ts = \<lparr>ts_addr = next_ts S, ts_hash = h, ts_marked = luaC_white (currentwhite S),
                   ts_reserved = 0, ts_str = str\<rparr>;
             S1 = S\<lparr>strt_hash := chain_in ts (strt_hash S), strt_nuse := strt_nuse S + 1,
                    next_ts := next_ts S + 1\<rparr>
         in Inr (ts,
              if strt_size S1 < strt_nuse S1 \<and> int (strt_size S1) \<le> (INT_MAX - 2) div 2
              then luaS_resize S1 (strt_size S1 * 2) else S1)))"

text \<open>The search of a bucket resurrects a dead string it finds. The result is the header and
  the bucket with its new mark.\<close>

fun find_str :: "byte \<Rightarrow> byte list \<Rightarrow> TStr list \<Rightarrow> (TStr \<times> TStr list) option" where
  "find_str w str [] = None"
| "find_str w str (ts # rest) =
     (if length (ts_str ts) = length str \<and> ts_str ts = str then
        (let ts' = (if isdead w (ts_marked ts) then ts\<lparr>ts_marked := changewhite (ts_marked ts)\<rparr> else ts)
         in Some (ts', ts' # rest))
      else map_option (\<lambda>(r, rest'). (r, ts # rest')) (find_str w str rest))"

definition luaS_newlstr :: "stringtable \<Rightarrow> byte list \<Rightarrow> (TStr \<times> stringtable) res" where
  "luaS_newlstr S str =
     (let h = luaS_hash str;
          i = lmod h (strt_size S)
      in case find_str (currentwhite S) str (strt_hash S ! i) of
           Some (ts, bucket) \<Rightarrow> Inr (ts, S\<lparr>strt_hash := (strt_hash S)[i := bucket]\<rparr>)
         | None \<Rightarrow> newlstr S str h)"

section \<open>The invariant\<close>

definition strings :: "stringtable \<Rightarrow> TStr list" where
  "strings S = concat (strt_hash S)"

definition bucket_ok :: "nat \<Rightarrow> nat \<Rightarrow> TStr \<Rightarrow> bool" where
  "bucket_ok n i ts \<longleftrightarrow> ts_hash ts = luaS_hash (ts_str ts) \<and> lmod (ts_hash ts) n = i"

definition buckets_ok :: "TStr list list \<Rightarrow> bool" where
  "buckets_ok B \<longleftrightarrow> (\<exists>k. length B = 2 ^ k) \<and>
     (\<forall>i<length B. \<forall>ts\<in>set (B ! i). bucket_ok (length B) i ts)"

definition strt_ok :: "stringtable \<Rightarrow> bool" where
  "strt_ok S \<longleftrightarrow> buckets_ok (strt_hash S) \<and> distinct (map ts_str (strings S)) \<and>
     distinct (map ts_addr (strings S)) \<and> (\<forall>ts\<in>set (strings S). ts_addr ts < next_ts S) \<and>
     strt_nuse S = length (strings S)"

text \<open>The interned contents and their addresses.\<close>

definition interned :: "stringtable \<Rightarrow> (byte list \<times> addr) set" where
  "interned S = (\<lambda>ts. (ts_str ts, ts_addr ts)) ` set (strings S)"

lemma lmod_bucket: "buckets_ok B \<Longrightarrow> lmod h (length B) < length B"
  using lmod_less by (auto simp: buckets_ok_def)

lemma mset_concat_update:
  "i < length B \<Longrightarrow> mset (concat (B[i := xs])) + mset (B ! i) = mset (concat B) + mset xs"
proof (induction B arbitrary: i)
  case (Cons b B)
  then show ?case by (cases i) (auto simp: ac_simps)
qed simp

lemma mset_chain_in:
  assumes "lmod (ts_hash ts) (length B) < length B"
  shows "mset (concat (chain_in ts B)) = add_mset ts (mset (concat B))"
  using mset_concat_update [OF assms, of "ts # B ! lmod (ts_hash ts) (length B)"]
  by (simp add: chain_in_def Let_def)

lemma length_chain_in [simp]: "length (chain_in ts B) = length B"
  by (simp add: chain_in_def Let_def)

lemma chain_in_ok:
  assumes "buckets_ok B" and "ts_hash ts = luaS_hash (ts_str ts)"
  shows "buckets_ok (chain_in ts B)"
proof -
  define h where "h = lmod (ts_hash ts) (length B)"
  have h: "h < length B" unfolding h_def by (rule lmod_bucket [OF assms(1)])
  have c: "chain_in ts B = B[h := ts # B ! h]" by (simp add: chain_in_def h_def Let_def)
  have new: "bucket_ok (length B) h ts" using assms(2) by (simp add: bucket_ok_def h_def)
  have old: "\<And>i u. i < length B \<Longrightarrow> u \<in> set (B ! i) \<Longrightarrow> bucket_ok (length B) i u"
    and k: "\<exists>k. length B = 2 ^ k" using assms(1) by (auto simp: buckets_ok_def)
  have "bucket_ok (length B) i u" if "i < length B" "u \<in> set (B[h := ts # B ! h] ! i)" for i u
    using that old new h by (cases "i = h") auto
  then show ?thesis using k unfolding buckets_ok_def c by simp
qed

lemma fold_chain_in:
  assumes "buckets_ok B" and "\<And>ts. ts \<in> set tss \<Longrightarrow> ts_hash ts = luaS_hash (ts_str ts)"
  shows "buckets_ok (fold chain_in tss B) \<and>
    mset (concat (fold chain_in tss B)) = mset tss + mset (concat B)"
  using assms
proof (induction tss arbitrary: B)
  case (Cons ts tss)
  have "mset (concat (chain_in ts B)) = add_mset ts (mset (concat B))"
    by (rule mset_chain_in) (rule lmod_bucket [OF Cons.prems(1)])
  then show ?case
    using Cons.IH [OF chain_in_ok [OF Cons.prems(1)]] Cons.prems(2) by simp
qed simp

lemma replicate_ok: "buckets_ok (replicate (2 ^ k) [])"
  by (auto simp: buckets_ok_def)

lemma hash_of_string: "buckets_ok B \<Longrightarrow> ts \<in> set (concat B) \<Longrightarrow> ts_hash ts = luaS_hash (ts_str ts)"
  by (force simp: buckets_ok_def bucket_ok_def in_set_conv_nth)

lemma strt_ok_mset:
  assumes "strt_ok S" and "buckets_ok (strt_hash S')" and "mset (strings S') = mset (strings S)"
    and "next_ts S' = next_ts S" and "strt_nuse S' = strt_nuse S"
  shows "strt_ok S'" and "interned S' = interned S"
proof -
  have f: "distinct (map f (strings S')) = distinct (map f (strings S))" for f :: "TStr \<Rightarrow> 'b"
    using assms(3) by (intro mset_eq_imp_distinct_iff) simp
  have s: "set (strings S') = set (strings S)" using assms(3) by (rule mset_eq_setD)
  have l: "length (strings S') = length (strings S)" using assms(3) by (rule mset_eq_length)
  show "strt_ok S'" using assms s l by (simp add: strt_ok_def f)
  show "interned S' = interned S" by (simp add: interned_def s)
qed

lemma luaS_resize_ok:
  assumes "strt_ok S" and "n = 2 ^ k"
  shows "strt_ok (luaS_resize S n)" and "interned (luaS_resize S n) = interned S"
    and "\<not> sweepstring S \<Longrightarrow> strt_size (luaS_resize S n) = n"
proof -
  have "buckets_ok (fold chain_in (strings S) (replicate n [])) \<and>
      mset (concat (fold chain_in (strings S) (replicate n []))) = mset (strings S) + mset (concat (replicate n []))"
    using assms hash_of_string [of "strt_hash S"] replicate_ok
    by (intro fold_chain_in) (auto simp: strings_def strt_ok_def)
  then have "buckets_ok (strt_hash (luaS_resize S n)) \<and> mset (strings (luaS_resize S n)) = mset (strings S)"
    using assms(1) by (auto simp: luaS_resize_def strings_def strt_ok_def)
  then show "strt_ok (luaS_resize S n)" "interned (luaS_resize S n) = interned S"
    using strt_ok_mset [OF assms(1), of "luaS_resize S n"] by (simp_all add: luaS_resize_def)
  have "length (fold chain_in tss B) = length B" for tss B
    by (induction tss arbitrary: B) auto
  then show "\<not> sweepstring S \<Longrightarrow> strt_size (luaS_resize S n) = n"
    by (simp add: luaS_resize_def strt_size_def)
qed

section \<open>Interning\<close>

lemma find_str_None: "find_str w str xs = None \<longleftrightarrow> str \<notin> ts_str ` set xs"
  by (induction xs) (auto split: option.splits simp: Let_def)

lemma find_str_Some:
  "find_str w str xs = Some (r, ys) \<Longrightarrow>
    ts_str r = str \<and> r \<in> set ys \<and>
    map (\<lambda>t. (ts_str t, ts_addr t, ts_hash t)) ys = map (\<lambda>t. (ts_str t, ts_addr t, ts_hash t)) xs"
  by (induction xs arbitrary: r ys) (auto split: if_splits option.splits simp: Let_def)

text \<open>Marks play no role in the invariant.\<close>

lemma map_concat_cong:
  "length B = length B' \<Longrightarrow> (\<And>i. i < length B \<Longrightarrow> map f (B' ! i) = map f (B ! i)) \<Longrightarrow>
    map f (concat B') = map f (concat B)"
proof (induction B arbitrary: B')
  case (Cons b B)
  then obtain c C where B': "B' = c # C" by (cases B') auto
  have "map f c = map f b" using Cons.prems(2) [of 0] B' by simp
  moreover have "map f (concat C) = map f (concat B)"
    using Cons.prems B' by (intro Cons.IH) (simp, metis Suc_less_eq length_Cons nth_Cons_Suc)
  ultimately show ?case by (simp add: B')
qed simp

lemma strt_ok_marks:
  assumes ok: "strt_ok S" and i: "i < strt_size S"
    and m: "map (\<lambda>t. (ts_str t, ts_addr t, ts_hash t)) ys =
      map (\<lambda>t. (ts_str t, ts_addr t, ts_hash t)) (strt_hash S ! i)"
  shows "strt_ok (S\<lparr>strt_hash := (strt_hash S)[i := ys]\<rparr>)"
    and "interned (S\<lparr>strt_hash := (strt_hash S)[i := ys]\<rparr>) = interned S"
proof -
  define S' where "S' = S\<lparr>strt_hash := (strt_hash S)[i := ys]\<rparr>"
  let ?f = "\<lambda>t. (ts_str t, ts_addr t, ts_hash t)"
  have il: "i < length (strt_hash S)" using i by (simp add: strt_size_def)
  have c: "map ?f (strings S') = map ?f (strings S)"
    unfolding strings_def
  proof (rule map_concat_cong)
    show "map ?f (strt_hash S' ! j) = map ?f (strt_hash S ! j)" if "j < length (strt_hash S)" for j
      using that m il by (cases "j = i") (auto simp: S'_def)
  qed (simp add: S'_def)
  have e: "map ts_str (strings S') = map ts_str (strings S)"
    "map ts_addr (strings S') = map ts_addr (strings S)"
    using arg_cong [OF c, of "map fst"] arg_cong [OF c, of "map (\<lambda>x. fst (snd x))"]
    by (simp_all only: map_map comp_def fst_conv snd_conv)
  have st: "?f ` set (strings S') = ?f ` set (strings S)" using arg_cong [OF c, of set] by (simp only: set_map)
  have b: "bucket_ok n j t' = bucket_ok n j t" if "?f t' = ?f t" for n j t t'
    using that by (simp add: bucket_ok_def)
  have "buckets_ok (strt_hash S')"
    unfolding buckets_ok_def
  proof (intro conjI allI impI ballI)
    show "\<exists>k. length (strt_hash S') = 2 ^ k" using ok by (simp add: strt_ok_def buckets_ok_def S'_def)
    fix j t assume j: "j < length (strt_hash S')" and t: "t \<in> set (strt_hash S' ! j)"
    have "map ?f (strt_hash S' ! j) = map ?f (strt_hash S ! j)"
      using j m il by (cases "j = i") (auto simp: S'_def)
    from arg_cong [OF this, of set] have "?f ` set (strt_hash S' ! j) = ?f ` set (strt_hash S ! j)"
      by (simp only: set_map)
    then obtain t0 where t0: "t0 \<in> set (strt_hash S ! j)" "?f t = ?f t0" using t by blast
    have l: "length (strt_hash S') = length (strt_hash S)" by (simp add: S'_def)
    then have "bucket_ok (length (strt_hash S)) j t0"
      using ok j t0(1) by (simp add: strt_ok_def buckets_ok_def)
    then show "bucket_ok (length (strt_hash S')) j t" using b [OF t0(2)] l by simp
  qed
  moreover have "\<forall>t\<in>set (strings S'). ts_addr t < next_ts S'"
  proof
    fix t assume "t \<in> set (strings S')"
    then obtain t0 where "t0 \<in> set (strings S)" "?f t = ?f t0" using st by blast
    then show "ts_addr t < next_ts S'" using ok by (simp add: strt_ok_def S'_def)
  qed
  moreover have "length (strings S') = length (strings S)" using arg_cong [OF c, of length] by simp
  moreover have "strt_nuse S' = strt_nuse S" by (simp add: S'_def)
  ultimately have "strt_ok S'" using ok e by (simp add: strt_ok_def)
  then show "strt_ok (S\<lparr>strt_hash := (strt_hash S)[i := ys]\<rparr>)" by (simp add: S'_def)
  have "(\<lambda>t. (ts_str t, ts_addr t)) ` set (strings S') = (\<lambda>t. (ts_str t, ts_addr t)) ` set (strings S)"
    using arg_cong [OF st, of "image (\<lambda>(a, b, c). (a, b))"] by (simp add: image_image)
  then show "interned (S\<lparr>strt_hash := (strt_hash S)[i := ys]\<rparr>) = interned S"
    by (simp add: interned_def S'_def)
qed

lemma newlstr_ok:
  assumes ok: "strt_ok S" and new: "str \<notin> ts_str ` set (strings S)"
    and len: "length str + 1 \<le> unat MAX_SIZET - SIZEOF_TString"
  obtains ts S' where "newlstr S str (luaS_hash str) = Inr (ts, S')" and "strt_ok S'"
    and "ts_str ts = str" and "ts_addr ts = next_ts S"
    and "interned S' = insert (str, next_ts S) (interned S)"
proof -
  define ts where "ts = \<lparr>ts_addr = next_ts S, ts_hash = luaS_hash str,
      ts_marked = luaC_white (currentwhite S), ts_reserved = 0, ts_str = str\<rparr>"
  define S1 where "S1 = S\<lparr>strt_hash := chain_in ts (strt_hash S), strt_nuse := strt_nuse S + 1,
      next_ts := next_ts S + 1\<rparr>"
  have bo: "buckets_ok (strt_hash S)" using ok by (simp add: strt_ok_def)
  have b1: "buckets_ok (strt_hash S1)"
    using chain_in_ok [OF bo, of ts] by (simp add: S1_def ts_def)
  have ms: "mset (strings S1) = add_mset ts (mset (strings S))"
    using mset_chain_in [OF lmod_bucket [OF bo]] by (simp add: strings_def S1_def)
  then have "mset (strings S1) = mset (ts # strings S)" by simp
  then have d: "distinct (map f (strings S1)) = distinct (map f (ts # strings S))" for f :: "TStr \<Rightarrow> 'b"
    by (intro mset_eq_imp_distinct_iff) (metis mset_map)
  have st: "set (strings S1) = insert ts (set (strings S))"
    using mset_eq_setD [of "strings S1" "ts # strings S"] ms by simp
  have ln: "length (strings S1) = Suc (length (strings S))"
    using mset_eq_length [of "strings S1" "ts # strings S"] ms by simp
  have ok1: "strt_ok S1"
    using ok b1 st ln new by (auto simp: strt_ok_def d) (auto simp: S1_def ts_def less_Suc_eq)
  have in1: "interned S1 = insert (str, next_ts S) (interned S)"
    by (simp add: interned_def st ts_def)
  obtain k where k: "strt_size S1 * 2 = 2 ^ k"
    using b1 by (metis buckets_ok_def mult.commute power_Suc strt_size_def)
  define S' where "S' = (if strt_size S1 < strt_nuse S1 \<and> int (strt_size S1) \<le> (INT_MAX - 2) div 2
      then luaS_resize S1 (strt_size S1 * 2) else S1)"
  have "newlstr S str (luaS_hash str) = Inr (ts, S')"
    using len by (simp add: newlstr_def ts_def S1_def S'_def Let_def)
  moreover have "strt_ok S'" "interned S' = interned S1"
    using luaS_resize_ok [OF ok1 k] ok1 by (auto simp: S'_def)
  ultimately show thesis using in1 by (intro that [of ts S']) (simp_all add: ts_def)
qed

section \<open>Properties\<close>

text \<open>C14: \<open>luaS_newlstr\<close> interns: the header it returns has the given contents; if these
  contents were in the table, it is the header that was there and the table keeps its contents,
  otherwise it is a new header, added to the table, and every other string keeps its header,
  also across the resize that may follow.\<close>

theorem luaS_newlstr_interns:
  assumes "strt_ok S" and "length str + 1 \<le> unat MAX_SIZET - SIZEOF_TString"
  shows "\<exists>ts S'. luaS_newlstr S str = Inr (ts, S') \<and> strt_ok S' \<and> ts_str ts = str \<and>
    (str, ts_addr ts) \<in> interned S' \<and>
    interned S' = (if \<exists>a. (str, a) \<in> interned S then interned S else insert (str, next_ts S) (interned S))"
proof -
  define i where "i = lmod (luaS_hash str) (strt_size S)"
  have bo: "buckets_ok (strt_hash S)" using assms(1) by (simp add: strt_ok_def)
  have i: "i < strt_size S" unfolding i_def strt_size_def by (rule lmod_bucket [OF bo])
  have il: "i < length (strt_hash S)" using i by (simp add: strt_size_def)
  have sub: "set (strt_hash S ! i) \<subseteq> set (strings S)" using il nth_mem by (fastforce simp: strings_def)
  have here: "t \<in> set (strt_hash S ! i)" if t: "t \<in> set (strings S)" "ts_str t = str" for t
  proof -
    obtain j where j: "j < length (strt_hash S)" "t \<in> set (strt_hash S ! j)"
      using t(1) unfolding strings_def by (auto simp: in_set_conv_nth [of _ "strt_hash S"])
    then have "bucket_ok (length (strt_hash S)) j t" using bo by (simp add: buckets_ok_def)
    then show ?thesis using j t(2) by (auto simp: bucket_ok_def i_def strt_size_def)
  qed
  have inS: "(\<exists>a. (str, a) \<in> interned S) \<longleftrightarrow> str \<in> ts_str ` set (strings S)"
    by (auto simp: interned_def)
  show ?thesis
  proof (cases "find_str (currentwhite S) str (strt_hash S ! i)")
    case None
    then have new: "str \<notin> ts_str ` set (strings S)" using here by (auto simp: find_str_None)
    obtain ts S' where n: "newlstr S str (luaS_hash str) = Inr (ts, S')" "strt_ok S'"
      "ts_str ts = str" "ts_addr ts = next_ts S" "interned S' = insert (str, next_ts S) (interned S)"
      using newlstr_ok [OF assms(1) new assms(2)] by blast
    then show ?thesis
      using None new inS by (auto simp: luaS_newlstr_def Let_def i_def [symmetric])
  next
    case (Some p)
    then obtain ts ys where p: "find_str (currentwhite S) str (strt_hash S ! i) = Some (ts, ys)"
      by (cases p) auto
    note f = find_str_Some [OF p]
    define S' where "S' = S\<lparr>strt_hash := (strt_hash S)[i := ys]\<rparr>"
    have S': "strt_ok S'" "interned S' = interned S"
      using strt_ok_marks [OF assms(1) i] f by (simp_all add: S'_def)
    have "ts \<in> set (strings S')" using f il by (auto simp: strings_def S'_def set_update_memI)
    then have "(str, ts_addr ts) \<in> interned S'" using f by (auto simp: interned_def)
    moreover have "luaS_newlstr S str = Inr (ts, S')"
      using p by (simp add: luaS_newlstr_def Let_def i_def [symmetric] S'_def)
    ultimately show ?thesis using S' f by auto
  qed
qed

definition empty_strt :: stringtable where
  "empty_strt = \<lparr>strt_hash = replicate 32 [], strt_nuse = 0, currentwhite = 1, sweepstring = False, next_ts = 1000\<rparr>"

lemma empty_strt_ok: "strt_ok empty_strt"
  using replicate_ok [of 5] by (simp add: strt_ok_def empty_strt_def strings_def)

lemma luaS_newlstr_interns_witness:
  "\<exists>ts S'. luaS_newlstr empty_strt [97, 98, 99] = Inr (ts, S') \<and> strt_ok S' \<and>
    ([97, 98, 99], ts_addr ts) \<in> interned S'"
  using luaS_newlstr_interns [OF empty_strt_ok, of "[97, 98, 99]"]
  by (force simp: MAX_SIZET_def SIZEOF_TString_def)

text \<open>interned strings are equal exactly when their headers are: in a table in order, two
  headers with the same contents are the same header, and so are two with the same address.\<close>

theorem interned_injective:
  assumes "strt_ok S" and "(s, a) \<in> interned S" and "(s', a') \<in> interned S"
  shows "s = s' \<longleftrightarrow> a = a'"
proof -
  obtain t t' where t: "t \<in> set (strings S)" "t' \<in> set (strings S)"
    "s = ts_str t" "a = ts_addr t" "s' = ts_str t'" "a' = ts_addr t'"
    using assms(2,3) by (auto simp: interned_def)
  have "inj_on ts_str (set (strings S))" "inj_on ts_addr (set (strings S))"
    using assms(1) by (auto simp: strt_ok_def distinct_map)
  then show ?thesis using t by (auto simp: inj_on_def)
qed

lemma interned_injective_witness:
  "\<exists>S. newlstr empty_strt [120] (luaS_hash [120]) = Inr (fst S, snd S) \<and>
    ([120], 1000) \<in> interned (snd S) \<and> (\<forall>a. ([120], a) \<in> interned (snd S) \<longrightarrow> a = 1000)"
proof -
  obtain ts S where S: "newlstr empty_strt [120] (luaS_hash [120]) = Inr (ts, S)" "strt_ok S"
    "interned S = insert ([120], next_ts empty_strt) (interned empty_strt)"
  proof (rule newlstr_ok [OF empty_strt_ok, of "[120]"])
    show "[120] \<notin> ts_str ` set (strings empty_strt)" by (simp add: empty_strt_def strings_def)
    show "length [120 :: byte] + 1 \<le> unat MAX_SIZET - SIZEOF_TString"
      by (simp add: MAX_SIZET_def SIZEOF_TString_def)
  qed blast
  then have m: "([120], 1000) \<in> interned S" by (simp add: empty_strt_def)
  show ?thesis
    using interned_injective [OF S(2) m] S(1) m by (intro exI [of _ "(ts, S)"]) auto
qed

end
