(* ===== verification/LFunc.thy ===== *)
theory LFunc
  imports LOpcodes LString
begin

text \<open>
  \<open>lfunc.c\<close>: function prototypes and upvalues. A \<open>Proto\<close> is the tree of a function and the
  functions inside it; the \<open>size...\<close> fields are the lengths of the lists. The strings of a
  prototype are given by their contents, \<open>None\<close> standing for a null pointer. The second part
  models the list of open upvalues of a thread: an upvalue is open while it refers to a stack
  slot and closed when it holds its own value.
\<close>

section \<open>Prototypes\<close>

type_synonym lstr = "byte list option"

record LocVar =
  varname :: lstr
  startpc :: int
  endpc :: int

datatype Proto =
  Proto (pk: "lstr tvalue list") (pcode: "Instruction list") (pp: "Proto list")
    (plineinfo: "int list") (plocvars: "LocVar list") (pupvalues: "lstr list") (psource: lstr)
    (plinedefined: int) (plastlinedefined: int)
    (pnups: byte) (pnumparams: byte) (pis_vararg: byte) (pmaxstacksize: byte)

definition VARARG_HASARG :: byte where "VARARG_HASARG = 1"
definition VARARG_ISVARARG :: byte where "VARARG_ISVARARG = 2"
definition VARARG_NEEDSARG :: byte where "VARARG_NEEDSARG = 4"

definition luaF_newproto :: Proto where
  "luaF_newproto = Proto [] [] [] [] [] [] None 0 0 0 0 0 0"

text \<open>\<open>luaF_getlocalname\<close>: the table is sorted by \<open>startpc\<close>, so the loop stops at the first
  variable that starts later.\<close>

fun getlocalname_loop :: "LocVar list \<Rightarrow> int \<Rightarrow> int \<Rightarrow> lstr" where
  "getlocalname_loop [] local_number pc = None"
| "getlocalname_loop (v # vs) local_number pc =
     (if startpc v \<le> pc then
        (if pc < endpc v then
           (if local_number - 1 = 0 then varname v
            else getlocalname_loop vs (local_number - 1) pc)
         else getlocalname_loop vs local_number pc)
      else None)"

definition luaF_getlocalname :: "Proto \<Rightarrow> int \<Rightarrow> int \<Rightarrow> lstr" where
  "luaF_getlocalname f local_number pc = getlocalname_loop (plocvars f) local_number pc"

section \<open>Upvalues\<close>

record 's UpVal =
  uv_level :: "nat option"
  uv_value :: "'s tvalue"
  uv_marked :: byte

text \<open>\<open>openupval\<close> is the list \<open>L->openupval\<close>, \<open>uvhead\<close> the doubly linked list of all open
  upvalues, \<open>stk\<close> the stack; a level is an index into it.\<close>

record 's upstate =
  uvs :: "addr \<Rightarrow> 's UpVal option"
  openupval :: "addr list"
  uvhead :: "addr list"
  stk :: "'s tvalue list"
  uwhite :: byte
  next_uv :: addr

definition level_of :: "'s upstate \<Rightarrow> addr \<Rightarrow> nat" where
  "level_of st p = (case uvs st p of Some u \<Rightarrow> (case uv_level u of Some l \<Rightarrow> l | None \<Rightarrow> 0) | None \<Rightarrow> 0)"

text \<open>The search through \<open>openupval\<close>: the upvalue found, or the list with \<open>new\<close> linked in
  its place.\<close>

fun findupval_loop :: "(addr \<Rightarrow> nat) \<Rightarrow> nat \<Rightarrow> addr \<Rightarrow> addr list \<Rightarrow> addr option \<times> addr list" where
  "findupval_loop lv level new [] = (None, [new])"
| "findupval_loop lv level new (p # rest) =
     (if level \<le> lv p then
        (if lv p = level then (Some p, p # rest)
         else (case findupval_loop lv level new rest of (r, rest') \<Rightarrow> (r, p # rest')))
      else (None, new # p # rest))"

definition upd_uv :: "addr \<Rightarrow> ('s UpVal \<Rightarrow> 's UpVal) \<Rightarrow> 's upstate \<Rightarrow> 's upstate" where
  "upd_uv p f st = st\<lparr>uvs := (uvs st)(p := map_option f (uvs st p))\<rparr>"

definition luaF_findupval :: "'s upstate \<Rightarrow> nat \<Rightarrow> addr \<times> 's upstate" where
  "luaF_findupval st level =
     (case findupval_loop (level_of st) level (next_uv st) (openupval st) of
        (Some p, _) \<Rightarrow>
          (p, upd_uv p (\<lambda>u. if isdead (uwhite st) (uv_marked u)
                            then u\<lparr>uv_marked := changewhite (uv_marked u)\<rparr> else u) st)
      | (None, l) \<Rightarrow>
          (next_uv st,
           st\<lparr>uvs := (uvs st)(next_uv st \<mapsto> \<lparr>uv_level = Some level, uv_value = TNil,
                 uv_marked = luaC_white (uwhite st)\<rparr>),
              openupval := l, uvhead := next_uv st # uvhead st, next_uv := next_uv st + 1\<rparr>))"

definition unlinkupval :: "addr \<Rightarrow> 's upstate \<Rightarrow> 's upstate" where
  "unlinkupval p st = st\<lparr>uvhead := filter (\<lambda>q. q \<noteq> p) (uvhead st)\<rparr>"

definition luaF_freeupval :: "addr \<Rightarrow> 's upstate \<Rightarrow> 's upstate" where
  "luaF_freeupval p st =
     (let st' = (case uvs st p of
                   Some u \<Rightarrow> if uv_level u \<noteq> None then unlinkupval p st else st
                 | None \<Rightarrow> st)
      in st'\<lparr>uvs := (uvs st')(p := None)\<rparr>)"

definition close_one :: "addr \<Rightarrow> 's upstate \<Rightarrow> 's upstate" where
  "close_one p st =
     (case uvs st p of
        None \<Rightarrow> st
      | Some u \<Rightarrow>
          if isdead (uwhite st) (uv_marked u) then luaF_freeupval p st
          else upd_uv p (\<lambda>u. u\<lparr>uv_value := stk st ! level_of st p, uv_level := None\<rparr>) (unlinkupval p st))"

fun close_loop :: "nat \<Rightarrow> addr list \<Rightarrow> 's upstate \<Rightarrow> 's upstate" where
  "close_loop level [] st = st\<lparr>openupval := []\<rparr>"
| "close_loop level (p # rest) st =
     (if level \<le> level_of st p then close_loop level rest (close_one p (st\<lparr>openupval := rest\<rparr>))
      else st\<lparr>openupval := p # rest\<rparr>)"

definition luaF_close :: "'s upstate \<Rightarrow> nat \<Rightarrow> 's upstate" where
  "luaF_close st level = close_loop level (openupval st) st"

section \<open>The invariant of the open list\<close>

definition is_open :: "'s upstate \<Rightarrow> addr \<Rightarrow> nat \<Rightarrow> bool" where
  "is_open st p l \<longleftrightarrow> (\<exists>u. uvs st p = Some u \<and> uv_level u = Some l)"

definition upvals_ok :: "'s upstate \<Rightarrow> bool" where
  "upvals_ok st \<longleftrightarrow>
     sorted_wrt (\<lambda>p q. level_of st q < level_of st p) (openupval st) \<and>
     (\<forall>p l. is_open st p l \<longrightarrow> p \<in> set (openupval st) \<and> l < length (stk st)) \<and>
     (\<forall>p\<in>set (openupval st). \<exists>l. is_open st p l) \<and>
     set (uvhead st) = set (openupval st) \<and> distinct (uvhead st) \<and>
     (\<forall>p. uvs st p \<noteq> None \<longrightarrow> p < next_uv st)"

text \<open>What a closure reads through an upvalue.\<close>

definition uv_read :: "'s upstate \<Rightarrow> addr \<Rightarrow> 's tvalue option" where
  "uv_read st p =
     (case uvs st p of
        None \<Rightarrow> None
      | Some u \<Rightarrow> Some (case uv_level u of Some l \<Rightarrow> stk st ! l | None \<Rightarrow> uv_value u))"

definition alive :: "'s upstate \<Rightarrow> addr \<Rightarrow> bool" where
  "alive st p \<longleftrightarrow> (\<exists>u. uvs st p = Some u \<and> \<not> isdead (uwhite st) (uv_marked u))"

lemma level_of_open: "is_open st p l \<Longrightarrow> level_of st p = l"
  by (auto simp: is_open_def level_of_def)

lemma upvals_okD:
  assumes "upvals_ok st"
  shows "sorted_wrt (\<lambda>p q. level_of st q < level_of st p) (openupval st)"
    "is_open st p l \<Longrightarrow> p \<in> set (openupval st)" "is_open st p l \<Longrightarrow> l < length (stk st)"
    "p \<in> set (openupval st) \<Longrightarrow> is_open st p (level_of st p)"
    "set (uvhead st) = set (openupval st)" "distinct (uvhead st)"
    "uvs st p \<noteq> None \<Longrightarrow> p < next_uv st"
  using assms level_of_open unfolding upvals_ok_def by blast+

lemma findupval_loop_Some:
  "findupval_loop lv level new ps = (Some p, l) \<Longrightarrow> p \<in> set ps \<and> lv p = level"
  by (induction ps arbitrary: l) (auto split: if_splits prod.splits)

lemma findupval_loop_None:
  "findupval_loop lv level new ps = (None, l) \<Longrightarrow> sorted_wrt (\<lambda>p q. lv q < lv p) ps \<Longrightarrow>
    level \<notin> lv ` set ps \<and> set l = insert new (set ps) \<and>
    (lv new = level \<longrightarrow> sorted_wrt (\<lambda>p q. lv q < lv p) l)"
proof (induction ps arbitrary: l)
  case (Cons p ps)
  show ?case
  proof (cases "level \<le> lv p")
    case True
    then have ne: "lv p \<noteq> level" using Cons.prems(1) by (auto split: if_splits)
    then obtain l' where l': "findupval_loop lv level new ps = (None, l')" "l = p # l'"
      using Cons.prems(1) True by (auto split: prod.splits)
    have "sorted_wrt (\<lambda>p q. lv q < lv p) ps" using Cons.prems(2) by simp
    note IH = Cons.IH [OF l'(1) this]
    then show ?thesis using l'(2) True ne Cons.prems(2) by auto
  next
    case False
    then have "l = new # p # ps" using Cons.prems(1) by simp
    then show ?thesis using False Cons.prems(2) by force
  qed
qed auto

text \<open>The state after inserting a new upvalue for \<open>level\<close>.\<close>

lemma level_of_upd_mark:
  "level_of (upd_uv p (\<lambda>u. if b u then u\<lparr>uv_marked := m u\<rparr> else u) st) q = level_of st q"
  by (auto simp: level_of_def upd_uv_def split: option.splits)

lemma is_open_upd_mark:
  "is_open (upd_uv p (\<lambda>u. if b u then u\<lparr>uv_marked := m u\<rparr> else u) st) q l = is_open st q l"
  by (cases "q = p"; cases "uvs st p") (auto simp: is_open_def upd_uv_def)

lemma upvals_ok_upd_mark:
  "upvals_ok st \<Longrightarrow> upvals_ok (upd_uv p (\<lambda>u. if b u then u\<lparr>uv_marked := m u\<rparr> else u) st)"
  unfolding upvals_ok_def level_of_upd_mark is_open_upd_mark
  by (auto simp: upd_uv_def split: if_splits)

lemma sorted_levels_inj:
  "sorted_wrt (\<lambda>p q. lv q < lv p) ps \<Longrightarrow> p \<in> set ps \<Longrightarrow> q \<in> set ps \<Longrightarrow>
    lv p = (lv q :: nat) \<Longrightarrow> p = q"
  by (induction ps) auto

lemma open_unique: "upvals_ok st \<Longrightarrow> is_open st p l \<Longrightarrow> is_open st q l \<Longrightarrow> p = q"
proof -
  assume ok: "upvals_ok st" and o: "is_open st p l" "is_open st q l"
  then have "p \<in> set (openupval st)" "q \<in> set (openupval st)" "level_of st p = level_of st q"
    by (auto simp: level_of_open intro: upvals_okD(2) [OF ok])
  then show "p = q" by (rule sorted_levels_inj [OF upvals_okD(1) [OF ok]])
qed

lemma findupval_new:
  assumes ok: "upvals_ok st" and l: "level < length (stk st)"
    and r: "findupval_loop (level_of st) level (next_uv st) (openupval st) = (None, ps)"
    and st': "st' = st\<lparr>uvs := (uvs st)(next_uv st \<mapsto> \<lparr>uv_level = Some level, uv_value = TNil,
                 uv_marked = luaC_white (uwhite st)\<rparr>),
              openupval := ps, uvhead := next_uv st # uvhead st, next_uv := next_uv st + 1\<rparr>"
  shows "upvals_ok st'" and "is_open st' (next_uv st) level"
    and "p \<noteq> next_uv st \<Longrightarrow> uv_read st' p = uv_read st p"
proof -
  note O = upvals_okD [OF ok]
  define n where "n = next_uv st"
  have fresh: "uvs st n = None" using O(7) [of n] by (cases "uvs st n") (simp_all add: n_def)
  then have nin: "n \<notin> set (openupval st)" using O(4) [of n] by (auto simp: is_open_def)
  have lv: "level_of st' p = (if p = n then level else level_of st p)" for p
    by (simp add: st' level_of_def n_def)
  have op: "is_open st' p l = (if p = n then l = level else is_open st p l)" for p l
    by (auto simp: st' is_open_def n_def)
  have "findupval_loop (level_of st') level n (openupval st) = (None, ps)"
  proof -
    have "findupval_loop (level_of st') level n qs = findupval_loop (level_of st) level n qs"
      if "n \<notin> set qs" for qs
      using that by (induction qs) (auto simp: lv)
    then show ?thesis using r nin by (simp add: n_def)
  qed
  moreover have "sorted_wrt (\<lambda>p q. level_of st' q < level_of st' p) (openupval st)"
    using O(1) nin by (auto simp: lv intro!: sorted_wrt_mono_rel [OF _ O(1)])
  ultimately have ps: "set ps = insert n (set (openupval st))"
    "sorted_wrt (\<lambda>p q. level_of st' q < level_of st' p) ps"
    using findupval_loop_None [of "level_of st'" level n "openupval st" ps] lv by auto
  have "n \<notin> set (uvhead st)" using O(5) nin by simp
  moreover have f: "openupval st' = ps" "stk st' = stk st" "uvhead st' = n # uvhead st" "next_uv st' = n + 1"
    by (simp_all add: st' n_def)
  moreover have "\<forall>p l. is_open st' p l \<longrightarrow> p \<in> set (openupval st') \<and> l < length (stk st')"
    using O(2,3) l by (auto simp: op f ps(1))
  moreover have "\<forall>p\<in>set (openupval st'). \<exists>l. is_open st' p l"
    using O(4) by (auto simp: op f ps(1))
  moreover have "\<forall>p. uvs st' p \<noteq> None \<longrightarrow> p < next_uv st'"
    using O(7) by (auto simp: st' n_def less_Suc_eq split: if_splits)
  ultimately show "upvals_ok st'"
    unfolding upvals_ok_def using ps O(5,6) by simp
  show "is_open st' (next_uv st) level" by (simp add: op n_def)
  show "p \<noteq> next_uv st \<Longrightarrow> uv_read st' p = uv_read st p"
    by (simp add: st' uv_read_def split: option.splits)
qed

lemma close_one_ok:
  assumes ok: "upvals_ok st" and o: "openupval st = p # rest"
    and st': "st' = close_one p (st\<lparr>openupval := rest\<rparr>)"
  shows "upvals_ok st'" and "openupval st' = rest" and "stk st' = stk st" and "uwhite st' = uwhite st"
    and "q \<noteq> p \<Longrightarrow> uvs st' q = uvs st q"
    and "alive st q \<Longrightarrow> alive st' q \<and> uv_read st' q = uv_read st q"
    and "\<not> is_open st' p l"
proof -
  note O = upvals_okD [OF ok]
  have "is_open st p (level_of st p)" using O(4) [of p] o by simp
  then obtain u where u: "uvs st p = Some u" "uv_level u = Some (level_of st p)"
    by (auto simp: is_open_def)
  have pr: "p \<notin> set rest" using O(1) o by auto
  have lp: "level_of (st\<lparr>openupval := rest\<rparr>) p = level_of st p" by (simp add: level_of_def)
  have f: "openupval st' = rest \<and> stk st' = stk st \<and> uwhite st' = uwhite st \<and> next_uv st' = next_uv st \<and>
      uvhead st' = filter (\<lambda>q. q \<noteq> p) (uvhead st) \<and>
      uvs st' = (uvs st)(p := if isdead (uwhite st) (uv_marked u) then None
        else Some (u\<lparr>uv_value := stk st ! level_of st p, uv_level := None\<rparr>))"
    using u by (simp add: st' close_one_def luaF_freeupval_def unlinkupval_def upd_uv_def lp)
  show "openupval st' = rest" "stk st' = stk st" "uwhite st' = uwhite st" using f by simp_all
  show other: "q \<noteq> p \<Longrightarrow> uvs st' q = uvs st q" for q using f by simp
  show np: "\<not> is_open st' p l" for l using f by (simp add: is_open_def)
  have op: "is_open st' q l = (q \<noteq> p \<and> is_open st q l)" for q l
    using np other by (cases "q = p") (simp_all add: is_open_def)
  have lv: "level_of st' q = level_of st q" if "q \<noteq> p" for q using that other by (simp add: level_of_def)
  have "sorted_wrt (\<lambda>a b. level_of st b < level_of st a) rest" using O(1) o by simp
  moreover have "level_of st' y < level_of st' x"
    if "x \<in> set rest" "y \<in> set rest" "level_of st y < level_of st x" for x y
  proof -
    have "x \<noteq> p" "y \<noteq> p" using that pr by auto
    then show ?thesis using that lv by simp
  qed
  ultimately have "sorted_wrt (\<lambda>a b. level_of st' b < level_of st' a) rest"
    by (rule sorted_wrt_mono_rel [rotated])
  moreover have "\<forall>q l. is_open st' q l \<longrightarrow> q \<in> set (openupval st') \<and> l < length (stk st')"
    using O(2,3) o f by (auto simp: op)
  moreover have "\<exists>l. is_open st' q l" if "q \<in> set (openupval st')" for q
  proof -
    have "q \<in> set (openupval st)" "q \<noteq> p" using that f o pr by auto
    then show ?thesis using O(4) by (auto simp: op)
  qed
  moreover have "\<forall>q. uvs st' q \<noteq> None \<longrightarrow> q < next_uv st'"
    using O(7) f u by (auto split: if_splits)
  moreover have "set (uvhead st') = set (openupval st')" "distinct (uvhead st')"
    using O(5,6) f o pr by auto
  ultimately show "upvals_ok st'" unfolding upvals_ok_def using f by simp
  show "alive st' q \<and> uv_read st' q = uv_read st q" if "alive st q"
    using that f u by (cases "q = p") (auto simp: alive_def uv_read_def split: option.split)
qed

lemma close_loop_ok:
  assumes "upvals_ok st" and "openupval st = ps"
  shows "upvals_ok (close_loop level ps st) \<and> stk (close_loop level ps st) = stk st \<and>
    uwhite (close_loop level ps st) = uwhite st \<and>
    (\<forall>p l. is_open (close_loop level ps st) p l \<longrightarrow> l < level) \<and>
    (\<forall>p. alive st p \<longrightarrow> alive (close_loop level ps st) p \<and>
       uv_read (close_loop level ps st) p = uv_read st p)"
  using assms
proof (induction ps arbitrary: st)
  case Nil
  then have e: "close_loop level [] st = st" by simp
  show ?case unfolding e using Nil upvals_okD(2) [OF Nil(1)] by auto
next
  case (Cons p rest)
  show ?case
  proof (cases "level \<le> level_of st p")
    case True
    define st1 where "st1 = close_one p (st\<lparr>openupval := rest\<rparr>)"
    note C = close_one_ok [OF Cons.prems st1_def]
    have lp: "level_of (st\<lparr>openupval := rest\<rparr>) p = level_of st p" by (simp add: level_of_def)
    have "close_loop level (p # rest) st = close_loop level rest st1"
      using True by (simp add: st1_def)
    then show ?thesis using Cons.IH [OF C(1,2)] C(3,4,6) by auto
  next
    case False
    have "st\<lparr>openupval := p # rest\<rparr> = st" using Cons.prems(2) by simp
    moreover have "l < level" if "is_open st q l" for q l
    proof -
      have "q \<in> set (p # rest)" using upvals_okD(2) [OF Cons.prems(1) that] Cons.prems(2) by simp
      moreover have "sorted_wrt (\<lambda>a b. level_of st b < level_of st a) (p # rest)"
        using upvals_okD(1) [OF Cons.prems(1)] Cons.prems(2) by simp
      ultimately have "level_of st q \<le> level_of st p" by auto
      then show ?thesis using False level_of_open [OF that] by simp
    qed
    ultimately show ?thesis using False Cons.prems(1) by auto
  qed
qed

text \<open>What \<open>close_loop\<close> leaves: the list below the level, every object that is not in the list or is
  below the level, and none of the dead upvalues it passes.\<close>

lemma close_one_frame:
  "openupval (close_one p st) = openupval st" "q \<noteq> p \<Longrightarrow> uvs (close_one p st) q = uvs st q"
  "uvs st p \<noteq> None \<Longrightarrow> \<not> alive st p \<Longrightarrow> uvs (close_one p st) p = None"
  "uvs st p = None \<Longrightarrow> uvs (close_one p st) p = None"
  by (auto simp: close_one_def luaF_freeupval_def unlinkupval_def upd_uv_def alive_def Let_def split: option.split)

lemma close_one_white: "uwhite (close_one p st) = uwhite st"
  by (simp add: close_one_def luaF_freeupval_def unlinkupval_def upd_uv_def Let_def split: option.split)

lemma level_of_cong: "uvs st' q = uvs st q \<Longrightarrow> level_of st' q = level_of st q"
  by (simp add: level_of_def)

lemma alive_cong: "uvs st' q = uvs st q \<Longrightarrow> uwhite st' = uwhite st \<Longrightarrow> alive st' q = alive st q"
  by (simp add: alive_def)

lemma close_loop_frame:
  assumes "sorted_wrt (\<lambda>p q. level_of st q < level_of st p) ps"
  shows "openupval (close_loop level ps st) = filter (\<lambda>q. level_of st q < level) ps \<and>
    (\<forall>q. q \<notin> set ps \<or> level_of st q < level \<longrightarrow> uvs (close_loop level ps st) q = uvs st q) \<and>
    (\<forall>q\<in>set ps. level \<le> level_of st q \<longrightarrow> \<not> alive st q \<longrightarrow> uvs (close_loop level ps st) q = None)"
  using assms
proof (induction ps arbitrary: st)
  case Nil
  then show ?case by simp
next
  case (Cons p rest)
  show ?case
  proof (cases "level \<le> level_of st p")
    case True
    define st1 where "st1 = close_one p (st\<lparr>openupval := rest\<rparr>)"
    have p: "p \<notin> set rest" using Cons.prems by auto
    have u: "uvs st1 q = uvs st q" if "q \<noteq> p" for q
      using close_one_frame(2) [OF that, of "st\<lparr>openupval := rest\<rparr>"] by (simp add: st1_def)
    have w: "uwhite st1 = uwhite st" using close_one_white [of p "st\<lparr>openupval := rest\<rparr>"] by (simp add: st1_def)
    have lv: "level_of st1 q = level_of st q" if "q \<in> set rest" for q
      using level_of_cong [OF u] p that by metis
    have al: "alive st1 q = alive st q" if "q \<in> set rest" for q
      using alive_cong [OF u w] p that by metis
    have "sorted_wrt (\<lambda>a b. level_of st b < level_of st a) rest" using Cons.prems by simp
    then have "sorted_wrt (\<lambda>a b. level_of st1 b < level_of st1 a) rest"
      by (rule sorted_wrt_mono_rel [rotated]) (simp add: lv)
    note IH = Cons.IH [OF this]
    have e: "close_loop level (p # rest) st = close_loop level rest st1" using True by (simp add: st1_def)
    have f: "filter (\<lambda>q. level_of st1 q < level) rest = filter (\<lambda>q. level_of st q < level) rest"
      by (rule filter_cong) (simp_all add: lv)
    have dead: "uvs (close_loop level rest st1) p = None" if "\<not> alive st p"
    proof -
      have "uvs st1 p = None"
        using close_one_frame(3,4) [of "st\<lparr>openupval := rest\<rparr>" p] that by (auto simp: st1_def alive_def)
      then show ?thesis using IH p by simp
    qed
    have keep: "uvs (close_loop level rest st1) q = uvs st q" if "q \<notin> set (p # rest) \<or> level_of st q < level" for q
    proof -
      have "q \<noteq> p" using that True by auto
      moreover have "q \<notin> set rest \<or> level_of st1 q < level" using that lv by auto
      ultimately show ?thesis using IH u by simp
    qed
    show ?thesis unfolding e using IH f dead keep True lv al by simp
  next
    case False
    have "level_of st q < level" if "q \<in> set (p # rest)" for q
      using Cons.prems False that by fastforce
    then have "filter (\<lambda>q. level_of st q < level) (p # rest) = p # rest" by (simp add: filter_id_conv)
    then show ?thesis using False Cons.prems by fastforce
  qed
qed

section \<open>Local variable names\<close>

definition active :: "int \<Rightarrow> LocVar \<Rightarrow> bool" where
  "active pc v \<longleftrightarrow> startpc v \<le> pc \<and> pc < endpc v"

lemma getlocalname_sorted:
  assumes "sorted (map startpc vs)"
  shows "getlocalname_loop vs n pc =
    (let as = filter (active pc) vs
     in if 1 \<le> n \<and> n \<le> int (length as) then varname (as ! nat (n - 1)) else None)"
  using assms
proof (induction vs arbitrary: n)
  case (Cons v vs)
  have none: "filter (active pc) vs = []" if "pc < startpc v"
    using Cons.prems that by (auto simp: filter_empty_conv active_def)
  consider (active) "active pc v" | (over) "\<not> active pc v" "startpc v \<le> pc" "\<not> pc < endpc v"
    | (later) "\<not> active pc v" "\<not> startpc v \<le> pc"
    by (auto simp: active_def)
  then show ?case
  proof cases
    case active
    then have "startpc v \<le> pc" "pc < endpc v" by (simp_all add: active_def)
    moreover have "nat (n - 1) = Suc (nat (n - 2))" if "2 \<le> n" using that by simp
    ultimately show ?thesis
      using Cons active by (cases "n = 1") (auto simp: Let_def nth_Cons')
  next
    case over
    then show ?thesis using Cons by (simp add: Let_def)
  next
    case later
    then show ?thesis using none by (cases "1 \<le> n") (simp_all add: Let_def)
  qed
next
  case Nil
  show ?case by (cases "1 \<le> n") simp_all
qed

section \<open>Properties\<close>

text \<open>C15: \<open>luaF_findupval\<close> gives the one open upvalue of a stack slot, so that closures that
  capture the same variable share it: the upvalue is open for the slot, no other is, it is not
  dead even when the collector had condemned it, what every upvalue reads is unchanged, and an
  existing one is reused.\<close>

theorem luaF_findupval_shares:
  assumes "upvals_ok st" and "level < length (stk st)"
    and "uwhite st AND 3 = 1 \<or> uwhite st AND 3 = 2" and "luaF_findupval st level = (p, st')"
  shows "upvals_ok st' \<and> is_open st' p level \<and> (\<forall>q. is_open st' q level \<longrightarrow> q = p) \<and> alive st' p \<and>
    uv_read st' p = Some (stk st ! level) \<and>
    (\<forall>q. uvs st q \<noteq> None \<longrightarrow> uv_read st' q = uv_read st q) \<and>
    (\<forall>q. is_open st q level \<longrightarrow> q = p)"
proof -
  obtain r ps where loop: "findupval_loop (level_of st) level (next_uv st) (openupval st) = (r, ps)"
    by (metis surj_pair)
  have "upvals_ok st' \<and> is_open st' p level \<and> alive st' p \<and> stk st' = stk st \<and>
    (\<forall>q. uvs st q \<noteq> None \<longrightarrow> uv_read st' q = uv_read st q) \<and> (\<forall>q. is_open st q level \<longrightarrow> q = p)"
  proof (cases r)
    case (Some q)
    then have q: "q \<in> set (openupval st)" "level_of st q = level"
      using findupval_loop_Some [of _ level _ _ q ps] loop by auto
    then have o: "is_open st q level" using upvals_okD(4) [OF assms(1)] by blast
    then obtain u where u: "uvs st q = Some u" "uv_level u = Some level" by (auto simp: is_open_def)
    have st': "p = q" "st' = upd_uv q (\<lambda>u. if isdead (uwhite st) (uv_marked u)
        then u\<lparr>uv_marked := changewhite (uv_marked u)\<rparr> else u) st"
      using assms(4) loop Some by (auto simp: luaF_findupval_def)
    have "alive st' q" using u changewhite_alive [OF assms(3)] by (simp add: st' alive_def upd_uv_def)
    moreover have "uv_read st' x = uv_read st x" for x
      by (cases "x = q") (use u in \<open>auto simp: st' uv_read_def upd_uv_def split: option.split\<close>)
    moreover have "upvals_ok st'" unfolding st'(2) by (rule upvals_ok_upd_mark [OF assms(1)])
    moreover have "is_open st' q level" unfolding st'(2) is_open_upd_mark by (rule o)
    moreover have "stk st' = stk st" by (simp add: st' upd_uv_def)
    ultimately show ?thesis using st'(1) open_unique [OF assms(1) _ o] by blast
  next
    case None
    define n where "n = next_uv st"
    have st': "p = n" "st' = st\<lparr>uvs := (uvs st)(n \<mapsto> \<lparr>uv_level = Some level, uv_value = TNil,
        uv_marked = luaC_white (uwhite st)\<rparr>), openupval := ps, uvhead := n # uvhead st, next_uv := n + 1\<rparr>"
      using assms(4) loop None by (auto simp: luaF_findupval_def n_def)
    note N = findupval_new [OF assms(1,2) loop [unfolded None] st'(2) [unfolded n_def]]
    have "uvs st n = None" using upvals_okD(7) [OF assms(1), of n] by (cases "uvs st n") (simp_all add: n_def)
    moreover have "\<not> is_open st q level" for q
    proof
      assume "is_open st q level"
      then have "q \<in> set (openupval st)" "level_of st q = level"
        using upvals_okD(2) [OF assms(1)] level_of_open by auto
      then show False
        using findupval_loop_None [OF loop [unfolded None] upvals_okD(1) [OF assms(1)]] by blast
    qed
    moreover have "alive st' n"
      using luaC_white_alive [OF assms(3)] by (simp add: st'(2) alive_def)
    moreover have "stk st' = stk st" by (simp add: st'(2))
    ultimately show ?thesis using N st'(1) n_def by metis
  qed
  then have "upvals_ok st'" "is_open st' p level" "alive st' p" "stk st' = stk st"
    and rest: "\<forall>q. uvs st q \<noteq> None \<longrightarrow> uv_read st' q = uv_read st q" "\<forall>q. is_open st q level \<longrightarrow> q = p"
    by blast+
  moreover have "uv_read st' p = Some (stk st ! level)"
    using \<open>is_open st' p level\<close> \<open>stk st' = stk st\<close> by (auto simp: is_open_def uv_read_def)
  ultimately show ?thesis using open_unique [of st' _ level p] by blast
qed

definition two_slots :: "unit upstate" where
  "two_slots = \<lparr>uvs = (\<lambda>_. None), openupval = [], uvhead = [], stk = [TBoolean True, TBoolean False],
     uwhite = 33, next_uv = 1\<rparr>"

lemma two_slots_ok: "upvals_ok two_slots"
  by (simp add: upvals_ok_def two_slots_def is_open_def)

lemma luaF_findupval_shares_witness:
  "is_open (snd (luaF_findupval two_slots 1)) (fst (luaF_findupval two_slots 1)) 1 \<and>
    uv_read (snd (luaF_findupval two_slots 1)) 1 = Some (TBoolean False)"
proof -
  have "luaF_findupval two_slots 1 = (1, snd (luaF_findupval two_slots 1))"
    by (simp add: luaF_findupval_def two_slots_def)
  from luaF_findupval_shares [OF two_slots_ok _ _ this] show ?thesis
    by (simp add: luaF_findupval_def two_slots_def)
qed

text \<open>C16: \<open>luaF_close\<close> closes exactly the upvalues at or above the given level: an upvalue is open
  afterwards iff it was open below the level, and those objects are untouched and stay in the list in
  their order; of the others the dead ones are freed, and a live one reads what it read before
  without depending on the stack any more.\<close>

theorem luaF_close_preserves:
  assumes "upvals_ok st"
  shows "upvals_ok (luaF_close st level) \<and>
    openupval (luaF_close st level) = filter (\<lambda>p. level_of st p < level) (openupval st) \<and>
    (\<forall>p l. is_open (luaF_close st level) p l \<longleftrightarrow> is_open st p l \<and> l < level) \<and>
    (\<forall>p. \<not> (\<exists>l\<ge>level. is_open st p l) \<longrightarrow> uvs (luaF_close st level) p = uvs st p) \<and>
    (\<forall>p l. is_open st p l \<longrightarrow> level \<le> l \<longrightarrow> \<not> alive st p \<longrightarrow> uvs (luaF_close st level) p = None) \<and>
    (\<forall>p. alive st p \<longrightarrow> alive (luaF_close st level) p \<and> uv_read (luaF_close st level) p = uv_read st p \<and>
       (\<forall>l\<ge>level. is_open st p l \<longrightarrow> (\<forall>s. uv_read ((luaF_close st level)\<lparr>stk := s\<rparr>) p = uv_read st p)))"
proof -
  define st' where "st' = luaF_close st level"
  have L: "upvals_ok st'" "\<forall>p l. is_open st' p l \<longrightarrow> l < level"
      "\<forall>p. alive st p \<longrightarrow> alive st' p \<and> uv_read st' p = uv_read st p"
    using close_loop_ok [OF assms refl, of level] by (simp_all add: luaF_close_def st'_def)
  have F: "openupval st' = filter (\<lambda>p. level_of st p < level) (openupval st)"
      "\<forall>q. q \<notin> set (openupval st) \<or> level_of st q < level \<longrightarrow> uvs st' q = uvs st q"
      "\<forall>q\<in>set (openupval st). level \<le> level_of st q \<longrightarrow> \<not> alive st q \<longrightarrow> uvs st' q = None"
    using close_loop_frame [OF upvals_okD(1) [OF assms], of level] by (simp_all add: luaF_close_def st'_def)
  note mem = upvals_okD(2) [OF assms] and lv = level_of_open
  have keep: "uvs st' p = uvs st p" if "\<not> (\<exists>l\<ge>level. is_open st p l)" for p
    using F(2) that upvals_okD(4) [OF assms, of p] by (meson not_le)
  have op: "is_open st' p l \<longleftrightarrow> is_open st p l \<and> l < level" for p l
  proof
    assume o: "is_open st' p l"
    then have l: "l < level" and "p \<in> set (openupval st')" using L(2) upvals_okD(2) [OF L(1)] by blast+
    then have "p \<in> set (openupval st)" "level_of st p < level" using F(1) by auto
    then have "uvs st' p = uvs st p" using F(2) by blast
    then show "is_open st p l \<and> l < level" using o l by (simp add: is_open_def)
  next
    assume o: "is_open st p l \<and> l < level"
    then have "uvs st' p = uvs st p" using F(2) lv by blast
    then show "is_open st' p l" using o by (simp add: is_open_def)
  qed
  have "uv_read (st'\<lparr>stk := s\<rparr>) p = uv_read st p" if p: "alive st p" "is_open st p l" "level \<le> l" for p l s
  proof -
    obtain u where u: "uvs st' p = Some u" using L(3) p(1) by (auto simp: alive_def)
    have "uv_level u = None"
    proof (rule ccontr)
      assume "uv_level u \<noteq> None"
      then obtain k where "is_open st' p k" using u by (auto simp: is_open_def)
      then have "is_open st p k" "k < level" using op by blast+
      then show False using lv [of st p k] lv [OF p(2)] p(3) by simp
    qed
    then show ?thesis using L(3) p(1) u by (auto simp: uv_read_def)
  qed
  moreover have "uvs st' p = None" if "is_open st p l" "level \<le> l" "\<not> alive st p" for p l
    using F(3) mem [OF that(1)] lv [OF that(1)] that(2,3) by blast
  ultimately show ?thesis using L F(1) op keep unfolding st'_def [symmetric] by blast
qed

definition two_open :: "unit upstate" where
  "two_open = \<lparr>uvs = (\<lambda>_. None)(1 \<mapsto> \<lparr>uv_level = Some 0, uv_value = TNil, uv_marked = 1\<rparr>,
       2 \<mapsto> \<lparr>uv_level = Some 1, uv_value = TNil, uv_marked = 1\<rparr>),
     openupval = [2, 1], uvhead = [2, 1], stk = [TBoolean True, TBoolean False], uwhite = 33, next_uv = 3\<rparr>"

lemma luaF_close_preserves_witness:
  "openupval (luaF_close two_open 1) = [1] \<and> is_open (luaF_close two_open 1) 1 0 \<and>
    uv_read ((luaF_close two_open 1)\<lparr>stk := []\<rparr>) 2 = Some (TBoolean False)"
proof -
  have ok: "upvals_ok two_open" by (auto simp: upvals_ok_def two_open_def is_open_def level_of_def split: if_splits)
  have o: "is_open two_open 1 0" "is_open two_open 2 1" by (simp_all add: is_open_def two_open_def)
  have a: "alive two_open 2" by (simp add: alive_def two_open_def isdead_def otherwhite_def WHITEBITS_def)
  have r: "uv_read two_open 2 = Some (TBoolean False)" by (simp add: uv_read_def two_open_def)
  have f: "filter (\<lambda>p. level_of two_open p < 1) (openupval two_open) = [1]"
    by (simp add: level_of_def two_open_def)
  note P = luaF_close_preserves [OF ok, of 1]
  have "openupval (luaF_close two_open 1) = [1]" using P f by metis
  moreover have "is_open (luaF_close two_open 1) 1 0" using P o(1) by (meson zero_less_one)
  moreover have "uv_read ((luaF_close two_open 1)\<lparr>stk := []\<rparr>) 2 = Some (TBoolean False)"
    using P o(2) a r by (metis order_refl)
  ultimately show ?thesis by blast
qed

text \<open>In a prototype whose local variables are sorted by their first instruction,
  \<open>luaF_getlocalname\<close> with number \<open>n\<close> gives the name of the \<open>n\<close>-th variable active at \<open>pc\<close>,
  and null when there are fewer.\<close>

theorem luaF_getlocalname_nth:
  assumes "sorted (map startpc (plocvars f))"
  shows "luaF_getlocalname f n pc =
    (let as = filter (active pc) (plocvars f)
     in if 1 \<le> n \<and> n \<le> int (length as) then varname (as ! nat (n - 1)) else None)"
  unfolding luaF_getlocalname_def by (rule getlocalname_sorted [OF assms])

definition two_locals :: Proto where
  "two_locals = Proto [] [] [] [] [\<lparr>varname = Some [97], startpc = 0, endpc = 2\<rparr>,
     \<lparr>varname = Some [98], startpc = 1, endpc = 9\<rparr>, \<lparr>varname = Some [99], startpc = 5, endpc = 9\<rparr>]
     [] None 0 0 0 0 0 2"

lemma luaF_getlocalname_nth_witness:
  "luaF_getlocalname two_locals 1 3 = Some [98] \<and> luaF_getlocalname two_locals 2 3 = None"
proof -
  have s: "sorted (map startpc (plocvars two_locals))" by (simp add: two_locals_def)
  show ?thesis
    using luaF_getlocalname_nth [OF s, of 1 3] luaF_getlocalname_nth [OF s, of 2 3]
    by (simp add: two_locals_def active_def Let_def)
qed

end
