(* ===== verification/LDebug.thy ===== *)
theory LDebug
  imports LFunc
begin

text \<open>
  The code checker of \<open>ldebug.c\<close>: \<open>symbexec\<close> runs over the instructions of a prototype,
  checks each one and, when tracing a register, finds the last instruction that changed it.
  A failed \<open>check\<close>, which returns 0, is \<open>Inr None\<close>; reading outside the code is
  \<open>Undefined\<close>.
\<close>

section \<open>Checks\<close>

definition MAXSTACK :: int where "MAXSTACK = 250"
definition LUA_MULTRET :: int where "LUA_MULTRET = - 1"
definition EXTRA_STACK :: int where "EXTRA_STACK = 5"

definition sizecode :: "Proto \<Rightarrow> int" where "sizecode pt = int (length (pcode pt))"
definition sizek :: "Proto \<Rightarrow> int" where "sizek pt = int (length (pk pt))"

definition opcode_at :: "Proto \<Rightarrow> int \<Rightarrow> Instruction res" where
  "opcode_at pt pc = (if 0 \<le> pc \<and> pc < sizecode pt then Inr (pcode pt ! nat pc) else Inl Undefined)"

definition is_op :: "OpCode \<Rightarrow> Instruction \<Rightarrow> bool" where
  "is_op op i \<longleftrightarrow> GET_OPCODE i = op_num op"

definition checkreg :: "Proto \<Rightarrow> int \<Rightarrow> bool" where
  "checkreg pt reg \<longleftrightarrow> reg < uint (pmaxstacksize pt)"

definition precheck :: "Proto \<Rightarrow> bool" where
  "precheck pt \<longleftrightarrow>
     uint (pmaxstacksize pt) \<le> MAXSTACK \<and>
     uint (pnumparams pt) + uint (pis_vararg pt AND VARARG_HASARG) \<le> uint (pmaxstacksize pt) \<and>
     (pis_vararg pt AND VARARG_NEEDSARG = 0 \<or> pis_vararg pt AND VARARG_HASARG \<noteq> 0) \<and>
     int (length (pupvalues pt)) \<le> uint (pnups pt) \<and>
     (length (plineinfo pt) = length (pcode pt) \<or> length (plineinfo pt) = 0) \<and>
     0 < sizecode pt \<and> is_op OP_RETURN (pcode pt ! nat (sizecode pt - 1))"

definition luaG_checkopenop :: "Instruction \<Rightarrow> bool" where
  "luaG_checkopenop i \<longleftrightarrow>
     (is_op OP_CALL i \<or> is_op OP_TAILCALL i \<or> is_op OP_RETURN i \<or> is_op OP_SETLIST i) \<and> GETARG_B i = 0"

fun checkArgMode :: "Proto \<Rightarrow> int \<Rightarrow> OpArgMask \<Rightarrow> bool" where
  "checkArgMode pt r OpArgN = (r = 0)"
| "checkArgMode pt r OpArgU = True"
| "checkArgMode pt r OpArgR = checkreg pt r"
| "checkArgMode pt r OpArgK = (if ISK r then INDEXK r < sizek pt else checkreg pt r)"

text \<open>A failed check ends the run with 0.\<close>

type_synonym 'a chk = "'a option res"

definition check :: "bool \<Rightarrow> 'a chk \<Rightarrow> 'a chk" where
  "check x k = (if x then k else Inr None)"

definition cbind :: "'a chk \<Rightarrow> ('a \<Rightarrow> 'b chk) \<Rightarrow> 'b chk" where
  "cbind m f = rbind m (\<lambda>r. case r of None \<Rightarrow> Inr None | Some x \<Rightarrow> f x)"

definition check_read :: "Proto \<Rightarrow> int \<Rightarrow> (Instruction \<Rightarrow> bool) \<Rightarrow> 'a chk \<Rightarrow> 'a chk" where
  "check_read pt pc P k = rbind (opcode_at pt pc) (\<lambda>i. check (P i) k)"

text \<open>The words before \<open>dest\<close> that look like a SETLIST whose count is in the next word: the
  loop over \<open>j\<close>.\<close>

definition is_setlist0 :: "Instruction \<Rightarrow> bool" where
  "is_setlist0 d \<longleftrightarrow> is_op OP_SETLIST d \<and> GETARG_C d = 0"

definition setlist_run :: "Proto \<Rightarrow> int \<Rightarrow> nat" where
  "setlist_run pt dest = length (takeWhile is_setlist0 (rev (take (nat dest) (pcode pt))))"

text \<open>The arguments of an instruction, checked by mode: the first \<open>switch\<close>.\<close>

definition check_args :: "Proto \<Rightarrow> int \<Rightarrow> Instruction \<Rightarrow> OpCode \<Rightarrow> (int \<times> int) chk" where
  "check_args pt pc i op =
     (case getOpMode op of
        iABC \<Rightarrow>
          check (checkArgMode pt (GETARG_B i) (getBMode op))
            (check (checkArgMode pt (GETARG_C i) (getCMode op)) (Inr (Some (GETARG_B i, GETARG_C i))))
      | iABx \<Rightarrow>
          check (getBMode op = OpArgK \<longrightarrow> GETARG_Bx i < sizek pt) (Inr (Some (GETARG_Bx i, 0)))
      | iAsBx \<Rightarrow>
          (let b = GETARG_sBx i; dest = pc + 1 + b
           in check (getBMode op = OpArgR \<longrightarrow>
                0 \<le> dest \<and> dest < sizecode pt \<and> (0 < dest \<longrightarrow> even (setlist_run pt dest)))
                (Inr (Some (b, 0)))))"

definition nups_at :: "Proto \<Rightarrow> int \<Rightarrow> int" where
  "nups_at pt b = uint (pnups (pp pt ! nat b))"

definition jump_target :: "int \<Rightarrow> int \<Rightarrow> int \<Rightarrow> int \<Rightarrow> int" where
  "jump_target lastpc reg pc b =
     (if reg \<noteq> NO_REG \<and> pc < pc + 1 + b \<and> pc + 1 + b \<le> lastpc then pc + b else pc)"

text \<open>The loop that checks the pseudo-instructions after a CLOSURE.\<close>

fun check_pseudo :: "Proto \<Rightarrow> int \<Rightarrow> nat \<Rightarrow> nat \<Rightarrow> 'a chk \<Rightarrow> 'a chk" where
  "check_pseudo pt pc j 0 k = k"
| "check_pseudo pt pc j (Suc n) k =
     check_read pt (pc + int j) (\<lambda>i. is_op OP_GETUPVAL i \<or> is_op OP_MOVE i)
       (check_pseudo pt pc (Suc j) n k)"

text \<open>The second \<open>switch\<close>: the new \<open>pc\<close>, before the increment, and the new \<open>last\<close>.\<close>

fun check_op :: "Proto \<Rightarrow> int \<Rightarrow> int \<Rightarrow> int \<Rightarrow> OpCode \<Rightarrow> int \<Rightarrow> int \<Rightarrow> int \<Rightarrow> int \<Rightarrow> (int \<times> int) chk" where
  "check_op pt lastpc reg pc OP_LOADBOOL a b c lst =
     (if c = 1 then
        check (pc + 2 < sizecode pt)
          (check_read pt (pc + 1) (\<lambda>i. \<not> is_op OP_SETLIST i \<or> GETARG_C i \<noteq> 0) (Inr (Some (pc, lst))))
      else Inr (Some (pc, lst)))"
| "check_op pt lastpc reg pc OP_LOADNIL a b c lst =
     Inr (Some (pc, if a \<le> reg \<and> reg \<le> b then pc else lst))"
| "check_op pt lastpc reg pc OP_GETUPVAL a b c lst =
     check (b < uint (pnups pt)) (Inr (Some (pc, lst)))"
| "check_op pt lastpc reg pc OP_SETUPVAL a b c lst =
     check (b < uint (pnups pt)) (Inr (Some (pc, lst)))"
| "check_op pt lastpc reg pc OP_GETGLOBAL a b c lst =
     check (ttisstring (pk pt ! nat b)) (Inr (Some (pc, lst)))"
| "check_op pt lastpc reg pc OP_SETGLOBAL a b c lst =
     check (ttisstring (pk pt ! nat b)) (Inr (Some (pc, lst)))"
| "check_op pt lastpc reg pc OP_SELF a b c lst =
     check (checkreg pt (a + 1)) (Inr (Some (pc, if reg = a + 1 then pc else lst)))"
| "check_op pt lastpc reg pc OP_CONCAT a b c lst = check (b < c) (Inr (Some (pc, lst)))"
| "check_op pt lastpc reg pc OP_TFORLOOP a b c lst =
     check (1 \<le> c) (check (checkreg pt (a + 2 + c))
       (Inr (Some (pc, if a + 2 \<le> reg then pc else lst))))"
| "check_op pt lastpc reg pc OP_FORLOOP a b c lst =
     check (checkreg pt (a + 3)) (Inr (Some (jump_target lastpc reg pc b, lst)))"
| "check_op pt lastpc reg pc OP_FORPREP a b c lst =
     check (checkreg pt (a + 3)) (Inr (Some (jump_target lastpc reg pc b, lst)))"
| "check_op pt lastpc reg pc OP_JMP a b c lst = Inr (Some (jump_target lastpc reg pc b, lst))"
| "check_op pt lastpc reg pc OP_CALL a b c lst =
     check (b \<noteq> 0 \<longrightarrow> checkreg pt (a + b - 1))
       (let nr = c - 1; fin = Inr (Some (pc, if a \<le> reg then pc else lst))
        in if nr = LUA_MULTRET then check_read pt (pc + 1) luaG_checkopenop fin
           else check (nr \<noteq> 0 \<longrightarrow> checkreg pt (a + nr - 1)) fin)"
| "check_op pt lastpc reg pc OP_TAILCALL a b c lst =
     check (b \<noteq> 0 \<longrightarrow> checkreg pt (a + b - 1))
       (let nr = c - 1; fin = Inr (Some (pc, if a \<le> reg then pc else lst))
        in if nr = LUA_MULTRET then check_read pt (pc + 1) luaG_checkopenop fin
           else check (nr \<noteq> 0 \<longrightarrow> checkreg pt (a + nr - 1)) fin)"
| "check_op pt lastpc reg pc OP_RETURN a b c lst =
     check (0 < b - 1 \<longrightarrow> checkreg pt (a + (b - 1) - 1)) (Inr (Some (pc, lst)))"
| "check_op pt lastpc reg pc OP_SETLIST a b c lst =
     check (0 < b \<longrightarrow> checkreg pt (a + b))
       (if c = 0 then check (pc + 1 < sizecode pt - 1) (Inr (Some (pc + 1, lst)))
        else Inr (Some (pc, lst)))"
| "check_op pt lastpc reg pc OP_CLOSURE a b c lst =
     check (b < int (length (pp pt)))
       (let nup = nups_at pt b
        in check (pc + nup < sizecode pt)
             (check_pseudo pt pc 1 (nat nup)
                (Inr (Some (if reg \<noteq> NO_REG then pc + nup else pc, lst)))))"
| "check_op pt lastpc reg pc OP_VARARG a b c lst =
     check (pis_vararg pt AND VARARG_ISVARARG \<noteq> 0 \<and> pis_vararg pt AND VARARG_NEEDSARG = 0)
       (let nb = b - 1;
            rest = check (checkreg pt (a + nb - 1)) (Inr (Some (pc, lst)))
        in if nb = LUA_MULTRET then check_read pt (pc + 1) luaG_checkopenop rest else rest)"
| "check_op pt lastpc reg pc _ a b c lst = Inr (Some (pc, lst))"

text \<open>One turn of the loop.\<close>

definition symbexec_step :: "Proto \<Rightarrow> int \<Rightarrow> int \<Rightarrow> int \<Rightarrow> int \<Rightarrow> (int \<times> int) chk" where
  "symbexec_step pt lastpc reg pc lst =
     rbind (opcode_at pt pc) (\<lambda>i.
       case OpCode_of (GET_OPCODE i) of
         None \<Rightarrow> Inr None
       | Some op \<Rightarrow>
           (let a = GETARG_A i
            in check (checkreg pt a)
              (cbind (check_args pt pc i op) (\<lambda>(b, c).
                let last1 = (if testAMode op \<and> a = reg then pc else lst);
                    rest = check_op pt lastpc reg pc op a b c last1
                in if testTMode op
                   then check (pc + 2 < sizecode pt) (check_read pt (pc + 1) (is_op OP_JMP) rest)
                   else rest))))"

lemma check_simps [simp]: "check True k = k" "check False k = Inr None"
  by (simp_all add: check_def)

lemma check_eq_Some: "check x k = Inr (Some r) \<longleftrightarrow> x \<and> k = Inr (Some r)"
  by (simp add: check_def)

lemma check_read_eq_Some:
  "check_read pt pc P k = Inr (Some r) \<longleftrightarrow>
     0 \<le> pc \<and> pc < sizecode pt \<and> P (pcode pt ! nat pc) \<and> k = Inr (Some r)"
  by (auto simp: check_read_def opcode_at_def check_def)

lemma cbind_eq_Some: "cbind m f = Inr (Some r) \<longleftrightarrow> (\<exists>x. m = Inr (Some x) \<and> f x = Inr (Some r))"
  by (auto simp: cbind_def rbind_Inr_iff split: option.splits)

lemma check_pseudo_eq_Some:
  "check_pseudo pt pc j n k = Inr (Some r) \<longleftrightarrow>
     (\<forall>i. j \<le> i \<longrightarrow> i < j + n \<longrightarrow> 0 \<le> pc + int i \<and> pc + int i < sizecode pt \<and>
        (is_op OP_GETUPVAL (pcode pt ! nat (pc + int i)) \<or> is_op OP_MOVE (pcode pt ! nat (pc + int i)))) \<and>
     k = Inr (Some r)"
proof (induction n arbitrary: j)
  case (Suc n)
  have "(j \<le> i \<longrightarrow> i < j + Suc n \<longrightarrow> Q) \<longleftrightarrow>
      (i = j \<longrightarrow> Q) \<and> (Suc j \<le> i \<longrightarrow> i < Suc j + n \<longrightarrow> Q)" for i Q
    by (cases "i = j") auto
  then have split_first: "(\<forall>i. j \<le> i \<longrightarrow> i < j + Suc n \<longrightarrow> P i) \<longleftrightarrow>
      P j \<and> (\<forall>i. Suc j \<le> i \<longrightarrow> i < Suc j + n \<longrightarrow> P i)" for P by auto
  show ?case
    unfolding check_pseudo.simps check_read_eq_Some Suc.IH split_first by (simp only: conj_assoc)
qed simp

lemmas chk_eq_Some = check_eq_Some check_read_eq_Some cbind_eq_Some check_pseudo_eq_Some

lemma nups_at_nonneg: "0 \<le> nups_at pt b"
  by (simp add: nups_at_def)

lemma jump_target_ge: "pc \<le> jump_target lastpc reg pc b"
  by (auto simp: jump_target_def)

lemma check_op_Some:
  assumes "check_op pt lastpc reg pc op a b c lst = Inr (Some (pc', lst'))"
  shows "pc \<le> pc'" and "lst' = lst \<or> lst' = pc \<and>
    (op = OP_LOADNIL \<and> a \<le> reg \<and> reg \<le> b \<or> op = OP_SELF \<and> reg = a + 1 \<or>
     op = OP_TFORLOOP \<or> op = OP_CALL \<or> op = OP_TAILCALL)"
  using assms nups_at_nonneg [of pt b] jump_target_ge [of pc lastpc reg b]
  by (cases op; auto simp: chk_eq_Some Let_def split: if_splits)+

lemma symbexec_step_ge: "symbexec_step pt lastpc reg pc lst = Inr (Some (pc', lst')) \<Longrightarrow> pc \<le> pc'"
  by (auto simp: symbexec_step_def rbind_Inr_iff Let_def chk_eq_Some
      dest!: check_op_Some(1) split: option.splits if_splits)

function symbexec_loop :: "Proto \<Rightarrow> int \<Rightarrow> int \<Rightarrow> int \<Rightarrow> int \<Rightarrow> int chk" where
  "symbexec_loop pt lastpc reg pc lst =
     (if pc < lastpc then
        (case symbexec_step pt lastpc reg pc lst of
           Inl e \<Rightarrow> Inl e
         | Inr None \<Rightarrow> Inr None
         | Inr (Some (pc', lst')) \<Rightarrow> symbexec_loop pt lastpc reg (pc' + 1) lst')
      else Inr (Some lst))"
  by pat_completeness auto
termination
  by (relation "measure (\<lambda>(pt, lastpc, reg, pc, lst). nat (lastpc - pc))")
    (auto dest: symbexec_step_ge)

declare symbexec_loop.simps [simp del]

definition symbexec :: "Proto \<Rightarrow> int \<Rightarrow> int \<Rightarrow> Instruction chk" where
  "symbexec pt lastpc reg =
     check (precheck pt)
       (cbind (symbexec_loop pt lastpc reg 0 (sizecode pt - 1)) (\<lambda>lst.
          rbind (opcode_at pt lst) (\<lambda>i. Inr (Some i))))"

definition luaG_checkcode :: "Proto \<Rightarrow> bool res" where
  "luaG_checkcode pt =
     rbind (symbexec pt (sizecode pt) NO_REG) (\<lambda>r. Inr (case r of None \<Rightarrow> False | Some i \<Rightarrow> i \<noteq> 0))"

section \<open>The checker stays inside the code\<close>

definition safe :: "'a res \<Rightarrow> bool" where "safe m \<longleftrightarrow> (\<exists>r. m = Inr r)"

lemma safe_Inr [simp]: "safe (Inr r)"
  by (simp add: safe_def)





lemma precheck_return:
  assumes "precheck pt"
  shows "0 < sizecode pt" and "GET_OPCODE (pcode pt ! nat (sizecode pt - 1)) = 30"
    and "uint (pmaxstacksize pt) \<le> 250"
  using assms by (simp_all add: precheck_def is_op_def MAXSTACK_def)

lemma not_last:
  assumes "precheck pt" and "0 \<le> pc" and "pc < sizecode pt"
    and "OpCode_of (GET_OPCODE (pcode pt ! nat pc)) = Some op" and "op \<noteq> OP_RETURN"
  shows "pc + 1 < sizecode pt"
proof -
  have "pc \<noteq> sizecode pt - 1"
  proof
    assume "pc = sizecode pt - 1"
    then have "OpCode_of 30 = Some op" using precheck_return(2) [OF assms(1)] assms(4) by simp
    then show False using OpCode_of_op_num [of OP_RETURN] assms(5) by simp
  qed
  then show ?thesis using assms(3) by linarith
qed



lemma step_Some_cases:
  assumes "symbexec_step pt lastpc reg pc lst = Inr (Some (pc', lst'))"
  obtains op b c lst1 where "OpCode_of (GET_OPCODE (pcode pt ! nat pc)) = Some op"
    and "0 \<le> pc" and "pc < sizecode pt"
    and "checkreg pt (GETARG_A (pcode pt ! nat pc))"
    and "check_args pt pc (pcode pt ! nat pc) op = Inr (Some (b, c))"
    and "lst1 = (if testAMode op \<and> GETARG_A (pcode pt ! nat pc) = reg then pc else lst)"
    and "check_op pt lastpc reg pc op (GETARG_A (pcode pt ! nat pc)) b c lst1 = Inr (Some (pc', lst'))"
    and "testTMode op \<Longrightarrow> pc + 2 < sizecode pt \<and> is_op OP_JMP (pcode pt ! nat (pc + 1))"
proof -
  have pc: "0 \<le> pc" "pc < sizecode pt"
    using assms by (auto simp: symbexec_step_def opcode_at_def split: if_splits)
  obtain op where op: "OpCode_of (GET_OPCODE (pcode pt ! nat pc)) = Some op"
    using assms pc by (auto simp: symbexec_step_def opcode_at_def split: option.splits)
  show thesis
    using that [OF op pc] assms pc op
    by (auto simp: symbexec_step_def opcode_at_def chk_eq_Some Let_def split: if_splits)
qed




section \<open>What the interpreter does with a checked instruction\<close>

text \<open>
  The control flow of \<open>luaV_execute\<close> as a function from a program counter to the counters it
  may continue with (\<open>ra\<close>, tests and loops may go either way), and the registers, constants,
  upvalues and nested prototypes the instruction at \<open>pc\<close> uses.
\<close>

definition code_word :: "Proto \<Rightarrow> int \<Rightarrow> Instruction" where
  "code_word pt pc = pcode pt ! nat pc"

fun op_succs :: "Proto \<Rightarrow> int \<Rightarrow> Instruction \<Rightarrow> OpCode \<Rightarrow> int list" where
  "op_succs pt pc i OP_LOADBOOL = (if GETARG_C i \<noteq> 0 then [pc + 2] else [pc + 1])"
| "op_succs pt pc i OP_JMP = [pc + 1 + GETARG_sBx i]"
| "op_succs pt pc i OP_FORPREP = [pc + 1 + GETARG_sBx i]"
| "op_succs pt pc i OP_FORLOOP = [pc + 1, pc + 1 + GETARG_sBx i]"
| "op_succs pt pc i OP_RETURN = []"
| "op_succs pt pc i OP_SETLIST = (if GETARG_C i = 0 then [pc + 2] else [pc + 1])"
| "op_succs pt pc i OP_CLOSURE = [pc + 1 + nups_at pt (GETARG_Bx i)]"
| "op_succs pt pc i op =
     (if op \<in> {OP_EQ, OP_LT, OP_LE, OP_TEST, OP_TESTSET, OP_TFORLOOP}
      then [pc + 2, pc + 2 + GETARG_sBx (code_word pt (pc + 1))] else [pc + 1])"

definition vm_succs :: "Proto \<Rightarrow> int \<Rightarrow> int list" where
  "vm_succs pt pc =
     (case OpCode_of (GET_OPCODE (code_word pt pc)) of
        None \<Rightarrow> [pc + 1]
      | Some op \<Rightarrow> op_succs pt pc (code_word pt pc) op)"

definition rk_regs :: "int \<Rightarrow> int list" where
  "rk_regs x = (if ISK x then [] else [x])"

definition rk_consts :: "int \<Rightarrow> int list" where
  "rk_consts x = (if ISK x then [INDEXK x] else [])"

text \<open>Registers above \<open>ra\<close> that the operation names; a run of registers is given by its
  last one.\<close>

fun op_regs :: "int \<Rightarrow> int \<Rightarrow> int \<Rightarrow> OpCode \<Rightarrow> int list" where
  "op_regs a b c OP_MOVE = [b]"
| "op_regs a b c OP_LOADNIL = [b]"
| "op_regs a b c OP_GETTABLE = b # rk_regs c"
| "op_regs a b c OP_SETTABLE = rk_regs b @ rk_regs c"
| "op_regs a b c OP_SELF = (a + 1) # b # rk_regs c"
| "op_regs a b c OP_UNM = [b]"
| "op_regs a b c OP_NOT = [b]"
| "op_regs a b c OP_LEN = [b]"
| "op_regs a b c OP_CONCAT = [b, c]"
| "op_regs a b c OP_TESTSET = [b]"
| "op_regs a b c OP_CALL =
     (if b \<noteq> 0 then [a + b - 1] else []) @ (if 1 < c then [a + c - 2] else [])"
| "op_regs a b c OP_TAILCALL = (if b \<noteq> 0 then [a + b - 1] else [])"
| "op_regs a b c OP_RETURN = (if 1 < b then [a + b - 2] else [])"
| "op_regs a b c OP_FORLOOP = [a + 3]"
| "op_regs a b c OP_FORPREP = [a + 3]"
| "op_regs a b c OP_TFORLOOP = [a + 2 + c]"
| "op_regs a b c OP_SETLIST = (if 0 < b then [a + b] else [])"
| "op_regs a b c OP_VARARG = (if 1 < b then [a + b - 2] else [])"
| "op_regs a b c op =
     (if op \<in> {OP_ADD, OP_SUB, OP_MUL, OP_DIV, OP_MOD, OP_POW, OP_EQ, OP_LT, OP_LE}
      then rk_regs b @ rk_regs c else [])"

definition op_consts :: "Instruction \<Rightarrow> OpCode \<Rightarrow> int list" where
  "op_consts i op =
     (if op \<in> {OP_LOADK, OP_GETGLOBAL, OP_SETGLOBAL} then [GETARG_Bx i]
      else if op \<in> {OP_GETTABLE, OP_SELF} then rk_consts (GETARG_C i)
      else if op \<in> {OP_SETTABLE, OP_ADD, OP_SUB, OP_MUL, OP_DIV, OP_MOD, OP_POW, OP_EQ, OP_LT, OP_LE}
      then rk_consts (GETARG_B i) @ rk_consts (GETARG_C i) else [])"

text \<open>A pseudo-instruction after CLOSURE, which captures a register or an upvalue of the enclosing
  function.\<close>

definition captured_ok :: "Proto \<Rightarrow> Instruction \<Rightarrow> bool" where
  "captured_ok pt i \<longleftrightarrow>
     is_op OP_MOVE i \<and> GETARG_B i < uint (pmaxstacksize pt) \<or> is_op OP_GETUPVAL i \<and> GETARG_B i < uint (pnups pt)"

text \<open>All that \<open>luaV_execute\<close> assumes of the operands of the instruction at \<open>pc\<close>. TFORLOOP reads at
  least one result, and copies the function and its two arguments to the registers from \<open>a + 3\<close> to
  \<open>a + 5\<close>, which may lie in the slots that every stack has beyond its frames.\<close>

definition operands_ok :: "Proto \<Rightarrow> int \<Rightarrow> bool" where
  "operands_ok pt pc \<longleftrightarrow>
     (let i = code_word pt pc; a = GETARG_A i; b = GETARG_B i; c = GETARG_C i; bx = GETARG_Bx i
      in case OpCode_of (GET_OPCODE i) of
           None \<Rightarrow> False
         | Some op \<Rightarrow>
             (\<forall>r \<in> set (a # op_regs a b c op). r < uint (pmaxstacksize pt)) \<and>
             (\<forall>k \<in> set (op_consts i op). 0 \<le> k \<and> k < sizek pt) \<and>
             (op \<in> {OP_GETGLOBAL, OP_SETGLOBAL} \<longrightarrow> ttisstring (pk pt ! nat bx)) \<and>
             (op \<in> {OP_GETUPVAL, OP_SETUPVAL} \<longrightarrow> b < uint (pnups pt)) \<and>
             (op \<in> {OP_EQ, OP_LT, OP_LE, OP_TEST, OP_TESTSET, OP_TFORLOOP} \<longrightarrow>
                is_op OP_JMP (code_word pt (pc + 1))) \<and>
             (op = OP_CLOSURE \<longrightarrow> bx < int (length (pp pt)) \<and>
                (\<forall>j \<in> set [0..<nat (nups_at pt bx)]. pc + 1 + int j < sizecode pt \<and>
                   captured_ok pt (code_word pt (pc + 1 + int j)))) \<and>
             (op = OP_TFORLOOP \<longrightarrow> 1 \<le> c \<and> a + 5 < uint (pmaxstacksize pt) + EXTRA_STACK) \<and>
             (op = OP_CALL \<and> c = 0 \<or> op = OP_VARARG \<and> b = 0 \<longrightarrow>
                luaG_checkopenop (code_word pt (pc + 1))))"

inductive vm_reach :: "Proto \<Rightarrow> int \<Rightarrow> bool" for pt where
  vm_start: "vm_reach pt 0"
| vm_next: "vm_reach pt pc \<Longrightarrow> pc' \<in> set (vm_succs pt pc) \<Longrightarrow> vm_reach pt pc'"

text \<open>The code generator writes 0 or 1 in the skip flag of LOADBOOL.\<close>

definition loadbool_flags :: "Proto \<Rightarrow> bool" where
  "loadbool_flags pt \<longleftrightarrow> (\<forall>i \<in> set (pcode pt). is_op OP_LOADBOOL i \<longrightarrow> GETARG_C i \<le> 1)"

section \<open>Checked code is safe to run\<close>

lemma setlist_run_Suc:
  assumes "0 \<le> pc" and "pc < sizecode pt"
  shows "setlist_run pt (pc + 1) = (if is_setlist0 (code_word pt pc) then Suc (setlist_run pt pc) else 0)"
proof -
  have "nat (pc + 1) = Suc (nat pc)" "nat pc < length (pcode pt)" using assms by (auto simp: sizecode_def)
  then have "take (nat (pc + 1)) (pcode pt) = take (nat pc) (pcode pt) @ [pcode pt ! nat pc]"
    by (simp add: take_Suc_conv_app_nth)
  then show ?thesis by (simp add: setlist_run_def code_word_def)
qed

lemma setlist_run_0 [simp]: "setlist_run pt 0 = 0"
  by (simp add: setlist_run_def)

text \<open>The positions that hold instructions, not the count of a SETLIST.\<close>

definition instr_pos :: "Proto \<Rightarrow> int \<Rightarrow> bool" where
  "instr_pos pt pc \<longleftrightarrow> 0 \<le> pc \<and> pc < sizecode pt \<and> even (setlist_run pt pc)"

abbreviation check_step :: "Proto \<Rightarrow> int \<Rightarrow> int \<Rightarrow> (int \<times> int) chk" where
  "check_step pt \<equiv> symbexec_step pt (sizecode pt) NO_REG"

lemma NO_REG_value: "NO_REG = 255"
  by (simp add: NO_REG_def MAXARG_A_def SIZE_A_def)

lemma jump_target_NO_REG [simp]: "jump_target lastpc NO_REG pc b = pc"
  by (simp add: jump_target_def)

lemma check_args_iABC:
  "getOpMode op = iABC \<Longrightarrow> check_args pt pc i op = Inr (Some (b, c)) \<longleftrightarrow>
     b = GETARG_B i \<and> c = GETARG_C i \<and> checkArgMode pt b (getBMode op) \<and> checkArgMode pt c (getCMode op)"
  by (auto simp: check_args_def check_eq_Some)

lemma check_args_iABx:
  "getOpMode op = iABx \<Longrightarrow> check_args pt pc i op = Inr (Some (b, c)) \<longleftrightarrow>
     b = GETARG_Bx i \<and> c = 0 \<and> (getBMode op = OpArgK \<longrightarrow> b < sizek pt)"
  by (auto simp: check_args_def check_eq_Some)

lemma check_args_iAsBx:
  "getOpMode op = iAsBx \<Longrightarrow> check_args pt pc i op = Inr (Some (b, c)) \<longleftrightarrow>
     b = GETARG_sBx i \<and> c = 0 \<and>
     (getBMode op = OpArgR \<longrightarrow> 0 \<le> pc + 1 + b \<and> pc + 1 + b < sizecode pt \<and>
        (0 < pc + 1 + b \<longrightarrow> even (setlist_run pt (pc + 1 + b))))"
  by (auto simp: check_args_def check_eq_Some Let_def)

lemmas check_args_iff = check_args_iABC check_args_iABx check_args_iAsBx

lemma is_op_iff: "OpCode_of (GET_OPCODE i) = Some op \<Longrightarrow> is_op op' i \<longleftrightarrow> op' = op"
  using op_num_OpCode_of [of "GET_OPCODE i" op] OpCode_of_op_num [of op'] by (auto simp: is_op_def)

lemma is_op_OpCode: "is_op op i \<Longrightarrow> OpCode_of (GET_OPCODE i) = Some op"
  by (simp add: is_op_def OpCode_of_op_num)

lemma check_step_next:
  assumes "check_step pt pc lst = Inr (Some (pc', lst'))"
  shows "pc' = (if is_setlist0 (code_word pt pc) then pc + 1 else pc)"
  using assms
proof (cases rule: step_Some_cases)
  case (1 op b c lst1)
  have i: "is_setlist0 (code_word pt pc) \<longleftrightarrow> op = OP_SETLIST \<and> GETARG_C (code_word pt pc) = 0"
    using is_op_iff [OF 1(1)] by (auto simp: is_setlist0_def code_word_def)
  have "op = OP_SETLIST \<Longrightarrow> c = GETARG_C (code_word pt pc)"
    using 1(5) by (simp add: check_args_iff getOpMode_eq code_word_def)
  then show ?thesis
    using 1(7) i by (cases op) (auto simp: chk_eq_Some Let_def split: if_splits)
qed

lemma loop_checks_all:
  "symbexec_loop pt (sizecode pt) NO_REG pc lst = Inr (Some r) \<Longrightarrow> instr_pos pt pc \<Longrightarrow>
    pc \<le> q \<Longrightarrow> instr_pos pt q \<Longrightarrow> \<exists>lst pc' lst'. check_step pt q lst = Inr (Some (pc', lst'))"
proof (induction pt "sizecode pt" NO_REG pc lst rule: symbexec_loop.induct)
  case (1 pt pc lst)
  have pc: "0 \<le> pc" "pc < sizecode pt" "even (setlist_run pt pc)"
    using "1.prems"(2) by (simp_all add: instr_pos_def)
  obtain pc' lst' where s: "check_step pt pc lst = Inr (Some (pc', lst'))"
    "symbexec_loop pt (sizecode pt) NO_REG (pc' + 1) lst' = Inr (Some r)"
    using "1.prems"(1) pc by (subst (asm) symbexec_loop.simps) (auto split: sum.splits option.splits)
  show ?case
  proof (cases "q = pc")
    case True
    then show ?thesis using s(1) by blast
  next
    case False
    have run: "setlist_run pt (pc + 1) =
        (if is_setlist0 (code_word pt pc) then Suc (setlist_run pt pc) else 0)"
      by (rule setlist_run_Suc [OF pc(1,2)])
    have q: "pc' + 1 \<le> q"
      using check_step_next [OF s(1)] False "1.prems"(3,4) pc(3) run
      by (cases "q = pc + 1") (auto simp: instr_pos_def split: if_splits)
    then have "pc' + 1 < sizecode pt" using "1.prems"(4) by (simp add: instr_pos_def)
    then have "instr_pos pt (pc' + 1)"
      using check_step_next [OF s(1)] pc run setlist_run_Suc [of "pc + 1" pt]
      by (auto simp: instr_pos_def algebra_simps split: if_splits)
    then show ?thesis
      using "1.hyps" [OF pc(2) s(1) refl refl s(2)] q "1.prems"(4) by blast
  qed
qed

lemma checked_step:
  assumes "luaG_checkcode pt = Inr True" and "instr_pos pt pc"
  obtains lst pc' lst' where "check_step pt pc lst = Inr (Some (pc', lst'))"
proof -
  obtain r where l: "symbexec_loop pt (sizecode pt) NO_REG 0 (sizecode pt - 1) = Inr (Some r)"
    and p: "precheck pt"
    using assms(1)
    by (auto simp: luaG_checkcode_def symbexec_def rbind_Inr_iff chk_eq_Some split: option.splits)
  have "instr_pos pt 0" using precheck_return(1) [OF p] by (simp add: instr_pos_def)
  then show thesis
    using loop_checks_all [OF l] assms(2) that by (auto simp: instr_pos_def)
qed

lemma checked_precheck: "luaG_checkcode pt = Inr True \<Longrightarrow> precheck pt"
  by (auto simp: luaG_checkcode_def symbexec_def rbind_Inr_iff chk_eq_Some split: option.splits)

lemma getBMode_eq:
  "getBMode m =
     (if m \<in> {OP_MOVE, OP_LOADNIL, OP_GETTABLE, OP_SELF, OP_UNM, OP_NOT, OP_LEN, OP_CONCAT, OP_JMP,
           OP_TEST, OP_TESTSET, OP_FORLOOP, OP_FORPREP} then OpArgR
      else if m \<in> {OP_LOADK, OP_GETGLOBAL, OP_SETGLOBAL, OP_SETTABLE, OP_ADD, OP_SUB, OP_MUL, OP_DIV,
           OP_MOD, OP_POW, OP_EQ, OP_LT, OP_LE} then OpArgK
      else if m \<in> {OP_TFORLOOP, OP_CLOSE} then OpArgN else OpArgU)"
  by (cases m) (simp_all add: mode_defs)

lemma getCMode_eq:
  "getCMode m =
     (if m \<in> {OP_GETTABLE, OP_SETTABLE, OP_SELF, OP_ADD, OP_SUB, OP_MUL, OP_DIV, OP_MOD, OP_POW,
           OP_EQ, OP_LT, OP_LE} then OpArgK
      else if m = OP_CONCAT then OpArgR
      else if m \<in> {OP_LOADBOOL, OP_NEWTABLE, OP_TEST, OP_TESTSET, OP_CALL, OP_TAILCALL,
           OP_TFORLOOP, OP_SETLIST} then OpArgU else OpArgN)"
  by (cases m) (simp_all add: mode_defs)

lemma rk_ok:
  assumes "checkArgMode pt r OpArgK" and "0 \<le> r" and "r < 512"
  shows "\<forall>x \<in> set (rk_regs r). x < uint (pmaxstacksize pt)"
    and "\<forall>k \<in> set (rk_consts r). 0 \<le> k \<and> k < sizek pt"
  using assms by (auto simp: rk_regs_def rk_consts_def ISK_iff INDEXK_eq checkreg_def)

lemma checked_modes:
  assumes "check_args pt pc i op = Inr (Some (b, c))" and "getOpMode op = iABC"
  shows "b = GETARG_B i" and "c = GETARG_C i"
    and "getBMode op = OpArgR \<Longrightarrow> GETARG_B i < uint (pmaxstacksize pt)"
    and "getCMode op = OpArgR \<Longrightarrow> GETARG_C i < uint (pmaxstacksize pt)"
    and "getBMode op = OpArgK \<Longrightarrow> (\<forall>x \<in> set (rk_regs (GETARG_B i)). x < uint (pmaxstacksize pt)) \<and>
      (\<forall>k \<in> set (rk_consts (GETARG_B i)). 0 \<le> k \<and> k < sizek pt)"
    and "getCMode op = OpArgK \<Longrightarrow> (\<forall>x \<in> set (rk_regs (GETARG_C i)). x < uint (pmaxstacksize pt)) \<and>
      (\<forall>k \<in> set (rk_consts (GETARG_C i)). 0 \<le> k \<and> k < sizek pt)"
proof -
  have m: "b = GETARG_B i" "c = GETARG_C i" "checkArgMode pt (GETARG_B i) (getBMode op)"
    "checkArgMode pt (GETARG_C i) (getCMode op)"
    using assms by (auto simp: check_args_iff)
  show "b = GETARG_B i" and "c = GETARG_C i" by fact+
  show "getBMode op = OpArgR \<Longrightarrow> GETARG_B i < uint (pmaxstacksize pt)"
    and "getCMode op = OpArgR \<Longrightarrow> GETARG_C i < uint (pmaxstacksize pt)"
    using m(3,4) by (simp_all add: checkreg_def)
  show "getBMode op = OpArgK \<Longrightarrow> (\<forall>x \<in> set (rk_regs (GETARG_B i)). x < uint (pmaxstacksize pt)) \<and>
      (\<forall>k \<in> set (rk_consts (GETARG_B i)). 0 \<le> k \<and> k < sizek pt)"
    using rk_ok [OF _ instr_ranges(4,5), of pt i] m(3) by metis
  show "getCMode op = OpArgK \<Longrightarrow> (\<forall>x \<in> set (rk_regs (GETARG_C i)). x < uint (pmaxstacksize pt)) \<and>
      (\<forall>k \<in> set (rk_consts (GETARG_C i)). 0 \<le> k \<and> k < sizek pt)"
    using rk_ok [OF _ instr_ranges(6,7), of pt i] m(4) by metis
qed

lemma checked_regs:
  assumes "check_args pt pc i op = Inr (Some (b, c))"
    and "check_op pt lastpc reg pc op a b c lst = Inr (Some r)"
  shows "\<forall>x \<in> set (op_regs a (GETARG_B i) (GETARG_C i) op). x < uint (pmaxstacksize pt)"
proof -
  note m = checked_modes [OF assms(1)]
  consider (runs) "op \<in> {OP_CALL, OP_TAILCALL, OP_RETURN, OP_TFORLOOP, OP_SETLIST, OP_VARARG}"
    | (loops) "op \<in> {OP_FORLOOP, OP_FORPREP}" | (self) "op = OP_SELF"
    | (rk) "op \<in> {OP_GETTABLE, OP_SETTABLE, OP_ADD, OP_SUB, OP_MUL, OP_DIV, OP_MOD, OP_POW, OP_EQ, OP_LT, OP_LE}"
    | (reg) "op \<in> {OP_MOVE, OP_LOADNIL, OP_UNM, OP_NOT, OP_LEN, OP_CONCAT, OP_TESTSET}"
    | (none) "op_regs a (GETARG_B i) (GETARG_C i) op = []"
    by (cases op) auto
  then show ?thesis
  proof cases
    case runs
    then have "b = GETARG_B i" "c = GETARG_C i" using m(1,2) by (auto simp: getOpMode_eq)
    then show ?thesis
      using assms(2) runs
      by (elim insertE emptyE; hypsubst)
        (auto simp: chk_eq_Some checkreg_def LUA_MULTRET_def Let_def split: if_splits)
  next
    case loops
    then show ?thesis using assms(2) by (auto simp: chk_eq_Some checkreg_def)
  next
    case self
    then show ?thesis using m(3,6) assms(2)
      by (auto simp: getOpMode_eq getBMode_eq getCMode_eq chk_eq_Some checkreg_def)
  next
    case rk
    then show ?thesis using m(3,5,6) by (auto simp: getOpMode_eq getBMode_eq getCMode_eq)
  next
    case reg
    then show ?thesis using m(3,4) by (auto simp: getOpMode_eq getBMode_eq getCMode_eq)
  next
    case none
    then show ?thesis by simp
  qed
qed

lemma checked_consts:
  assumes "check_args pt pc i op = Inr (Some (b, c))"
  shows "\<forall>k \<in> set (op_consts i op). 0 \<le> k \<and> k < sizek pt"
proof -
  note m = checked_modes(5,6) [OF assms]
  consider (bx) "op \<in> {OP_LOADK, OP_GETGLOBAL, OP_SETGLOBAL}" | (c) "op \<in> {OP_GETTABLE, OP_SELF}"
    | (bc) "op \<in> {OP_SETTABLE, OP_ADD, OP_SUB, OP_MUL, OP_DIV, OP_MOD, OP_POW, OP_EQ, OP_LT, OP_LE}"
    | (none) "op_consts i op = []"
    by (cases op) (auto simp: op_consts_def)
  then show ?thesis
  proof cases
    case bx
    then have "getOpMode op = iABx" "getBMode op = OpArgK" by (auto simp: getOpMode_eq getBMode_eq)
    then show ?thesis
      using bx assms instr_ranges(8) [of i] by (auto simp: op_consts_def check_args_iABx)
  next
    case c
    then show ?thesis using m(2) by (auto simp: op_consts_def getOpMode_eq getCMode_eq)
  next
    case bc
    then have "getOpMode op = iABC" "getBMode op = OpArgK" "getCMode op = OpArgK"
      by (auto simp: getOpMode_eq getBMode_eq getCMode_eq)
    then show ?thesis using bc m by (auto simp: op_consts_def)
  next
    case none
    then show ?thesis by simp
  qed
qed

lemma checked_closure:
  assumes "check_args pt pc i OP_CLOSURE = Inr (Some (b, c))"
    and "check_op pt lastpc reg pc OP_CLOSURE a b c lst = Inr (Some r)"
  shows "GETARG_Bx i < int (length (pp pt))"
    and "pc + nups_at pt (GETARG_Bx i) < sizecode pt"
    and "j < nat (nups_at pt (GETARG_Bx i)) \<Longrightarrow> pc + 1 + int j < sizecode pt \<and>
      (is_op OP_GETUPVAL (code_word pt (pc + 1 + int j)) \<or> is_op OP_MOVE (code_word pt (pc + 1 + int j)))"
proof -
  have "b = GETARG_Bx i" using assms(1) by (simp add: check_args_iff getOpMode_eq)
  then have c: "GETARG_Bx i < int (length (pp pt))" "pc + nups_at pt (GETARG_Bx i) < sizecode pt"
    "\<forall>k. 1 \<le> k \<longrightarrow> k < 1 + nat (nups_at pt (GETARG_Bx i)) \<longrightarrow> 0 \<le> pc + int k \<and> pc + int k < sizecode pt \<and>
       (is_op OP_GETUPVAL (pcode pt ! nat (pc + int k)) \<or> is_op OP_MOVE (pcode pt ! nat (pc + int k)))"
    using assms(2) by (simp_all add: chk_eq_Some Let_def)
  show "GETARG_Bx i < int (length (pp pt))" "pc + nups_at pt (GETARG_Bx i) < sizecode pt" by fact+
  assume "j < nat (nups_at pt (GETARG_Bx i))"
  then show "pc + 1 + int j < sizecode pt \<and>
      (is_op OP_GETUPVAL (code_word pt (pc + 1 + int j)) \<or> is_op OP_MOVE (code_word pt (pc + 1 + int j)))"
    using c(3) [rule_format, of "Suc j"] by (simp add: code_word_def add.assoc)
qed

lemma instr_pos_Suc:
  assumes "0 \<le> pc" and "pc + 1 < sizecode pt" and "\<not> is_setlist0 (code_word pt pc)"
  shows "instr_pos pt (pc + 1)"
  using assms setlist_run_Suc [of pc pt] by (simp add: instr_pos_def)

lemma is_setlist0_op: "OpCode_of (GET_OPCODE i) = Some op \<Longrightarrow> is_setlist0 i \<longleftrightarrow> op = OP_SETLIST \<and> GETARG_C i = 0"
  using is_op_iff [of i op OP_SETLIST] by (auto simp: is_setlist0_def)

lemma not_setlist0: "is_op op i \<Longrightarrow> op \<noteq> OP_SETLIST \<Longrightarrow> \<not> is_setlist0 i"
  using is_setlist0_op [OF is_op_OpCode] by blast

text \<open>The words after a CLOSURE are checked like any other instruction.\<close>

lemma checked_capture:
  assumes "luaG_checkcode pt = Inr True" and "instr_pos pt q"
    and "is_op OP_GETUPVAL (code_word pt q) \<or> is_op OP_MOVE (code_word pt q)"
  shows "captured_ok pt (code_word pt q)"
proof -
  obtain lst q' lst' where "check_step pt q lst = Inr (Some (q', lst'))"
    using checked_step [OF assms(1,2)] by blast
  then show ?thesis
  proof (cases rule: step_Some_cases)
    case (1 op b c lst1)
    have "op = OP_GETUPVAL \<or> op = OP_MOVE" using is_op_iff [OF 1(1)] assms(3) by (auto simp: code_word_def)
    then show ?thesis
    proof
      assume op: "op = OP_GETUPVAL"
      then have "b = GETARG_B (code_word pt q)" "b < uint (pnups pt)"
        using 1(5,7) by (auto simp: check_args_iff getOpMode_eq chk_eq_Some code_word_def)
      then show ?thesis using is_op_iff [OF 1(1), of OP_GETUPVAL] op by (simp add: captured_ok_def code_word_def)
    next
      assume op: "op = OP_MOVE"
      then have "GETARG_B (code_word pt q) < uint (pmaxstacksize pt)"
        using checked_modes(3) [OF 1(5)] by (simp add: getOpMode_eq getBMode_eq code_word_def)
      then show ?thesis using is_op_iff [OF 1(1), of OP_MOVE] op by (simp add: captured_ok_def code_word_def)
    qed
  qed
qed

lemma checked_captures:
  assumes pt: "luaG_checkcode pt = Inr True" and pos: "instr_pos pt pc" and i: "\<not> is_setlist0 (code_word pt pc)"
    and w: "\<And>j. j < n \<Longrightarrow> pc + 1 + int j < sizecode pt \<and>
      (is_op OP_GETUPVAL (code_word pt (pc + 1 + int j)) \<or> is_op OP_MOVE (code_word pt (pc + 1 + int j)))"
    and j: "j < n"
  shows "captured_ok pt (code_word pt (pc + 1 + int j))"
proof -
  have "instr_pos pt (pc + 1 + int k)" if "k < n" for k
    using that
  proof (induction k)
    case 0
    then show ?case using instr_pos_Suc [of pc pt] pos i w [of 0] by (simp add: instr_pos_def)
  next
    case (Suc k)
    then have k: "instr_pos pt (pc + 1 + int k)" by simp
    have "\<not> is_setlist0 (code_word pt (pc + 1 + int k))" using w [of k] Suc.prems not_setlist0 by fastforce
    moreover have "0 \<le> pc + 1 + int k" using k by (simp add: instr_pos_def)
    moreover have "pc + 1 + int k + 1 < sizecode pt" using w [of "Suc k"] Suc.prems by (simp add: add.assoc)
    ultimately have "instr_pos pt (pc + 1 + int k + 1)" by (intro instr_pos_Suc)
    then show ?case by (simp add: algebra_simps)
  qed
  then show ?thesis using checked_capture [OF pt] w j by blast
qed

lemma checked_operands:
  assumes "check_step pt pc lst = Inr (Some (pc', lst'))" and pt: "luaG_checkcode pt = Inr True" and pos: "instr_pos pt pc"
  shows "operands_ok pt pc"
  using assms(1)
proof (cases rule: step_Some_cases)
  case (1 op b c lst1)
  let ?i = "code_word pt pc"
  have args: "check_args pt pc ?i op = Inr (Some (b, c))"
    and cop: "check_op pt (sizecode pt) NO_REG pc op (GETARG_A ?i) b c lst1 = Inr (Some (pc', lst'))"
    using 1(5,7) by (simp_all add: code_word_def)
  have a: "GETARG_A ?i < uint (pmaxstacksize pt)" using 1(4) by (simp add: checkreg_def code_word_def)
  have jmp: "op \<in> {OP_EQ, OP_LT, OP_LE, OP_TEST, OP_TESTSET, OP_TFORLOOP} \<Longrightarrow>
      is_op OP_JMP (code_word pt (pc + 1))"
    using 1(8) by (simp add: testTMode_eq code_word_def)
  have str: "op \<in> {OP_GETGLOBAL, OP_SETGLOBAL} \<Longrightarrow> ttisstring (pk pt ! nat (GETARG_Bx ?i))"
    and upv: "op \<in> {OP_GETUPVAL, OP_SETUPVAL} \<Longrightarrow> GETARG_B ?i < uint (pnups pt)"
    and open_call: "op = OP_CALL \<and> GETARG_C ?i = 0 \<or> op = OP_VARARG \<and> GETARG_B ?i = 0 \<Longrightarrow>
      luaG_checkopenop (code_word pt (pc + 1))"
    using args cop
    by (auto simp: check_args_iff getOpMode_eq chk_eq_Some Let_def LUA_MULTRET_def code_word_def)
  have clos: "op = OP_CLOSURE \<Longrightarrow> GETARG_Bx ?i < int (length (pp pt)) \<and>
      (\<forall>j < nat (nups_at pt (GETARG_Bx ?i)). pc + 1 + int j < sizecode pt \<and> captured_ok pt (code_word pt (pc + 1 + int j)))"
  proof -
    assume op: "op = OP_CLOSURE"
    note cl = checked_closure [of pt pc ?i b c, OF args [unfolded op] cop [unfolded op]]
    have "\<not> is_setlist0 ?i" using is_op_iff [OF 1(1), of OP_SETLIST] op by (simp add: is_setlist0_def code_word_def)
    then show ?thesis using cl checked_captures [OF pt pos _ cl(3)] by blast
  qed
  have tfor: "op = OP_TFORLOOP \<Longrightarrow> 1 \<le> GETARG_C ?i \<and> GETARG_A ?i + 5 < uint (pmaxstacksize pt) + EXTRA_STACK"
    using args cop by (auto simp: check_args_iff getOpMode_eq chk_eq_Some checkreg_def EXTRA_STACK_def)
  show ?thesis
    using 1(1) a checked_regs [OF args cop] checked_consts [OF args] jmp str upv open_call clos tfor
    by (simp add: operands_ok_def Let_def code_word_def [symmetric] ball_Un)
qed

text \<open>Where the interpreter may go from a checked instruction.\<close>

lemma jump_dest:
  assumes "check_args pt pc i op = Inr (Some (b, c))" and "op \<in> {OP_JMP, OP_FORLOOP, OP_FORPREP}"
  shows "instr_pos pt (pc + 1 + GETARG_sBx i)"
proof -
  have "getOpMode op = iAsBx" "getBMode op = OpArgR" using assms(2) by (auto simp: getOpMode_eq getBMode_eq)
  then have "0 \<le> pc + 1 + GETARG_sBx i" "pc + 1 + GETARG_sBx i < sizecode pt"
    "0 < pc + 1 + GETARG_sBx i \<Longrightarrow> even (setlist_run pt (pc + 1 + GETARG_sBx i))"
    using assms(1) by (auto simp: check_args_iff)
  then show ?thesis
    by (cases "pc + 1 + GETARG_sBx i = 0") (auto simp: instr_pos_def)
qed

lemma checked_jump:
  assumes "luaG_checkcode pt = Inr True" and "instr_pos pt pc" and "is_op OP_JMP (code_word pt pc)"
  shows "instr_pos pt (pc + 1 + GETARG_sBx (code_word pt pc))"
proof -
  obtain lst pc' lst' where "check_step pt pc lst = Inr (Some (pc', lst'))"
    using checked_step [OF assms(1,2)] by blast
  then show ?thesis
  proof (cases rule: step_Some_cases)
    case (1 op b c lst1)
    have "op = OP_JMP" using is_op_iff [OF 1(1)] assms(3) by (simp add: code_word_def)
    then show ?thesis using jump_dest [OF 1(5)] by (simp add: code_word_def)
  qed
qed

lemma checked_succs:
  assumes pt: "luaG_checkcode pt = Inr True" and "loadbool_flags pt" and pos: "instr_pos pt pc"
    and "pc' \<in> set (vm_succs pt pc)"
  shows "instr_pos pt pc'"
proof -
  have pre: "precheck pt" using checked_precheck [OF pt] .
  obtain lst p1 lst1 where "check_step pt pc lst = Inr (Some (p1, lst1))"
    using checked_step [OF pt pos] by blast
  then show ?thesis
  proof (cases rule: step_Some_cases)
    case (1 op b c lst2)
    let ?i = "code_word pt pc"
    have i: "OpCode_of (GET_OPCODE ?i) = Some op"
      and args: "check_args pt pc ?i op = Inr (Some (b, c))"
      and cop: "check_op pt (sizecode pt) NO_REG pc op (GETARG_A ?i) b c lst2 = Inr (Some (p1, lst1))"
      using 1(1,5,7) by (simp_all add: code_word_def)
    have lb: "op = OP_LOADBOOL \<Longrightarrow> GETARG_C ?i \<noteq> 0 \<Longrightarrow> GETARG_C ?i = 1"
    proof -
      assume "op = OP_LOADBOOL" "GETARG_C ?i \<noteq> 0"
      moreover have "?i \<in> set (pcode pt)" using 1(2,3) by (simp add: code_word_def sizecode_def nth_mem)
      ultimately have "GETARG_C ?i \<le> 1"
        using assms(2) is_op_iff [OF i] unfolding loadbool_flags_def by blast
      then show "GETARG_C ?i = 1" using instr_ranges(6) [of ?i] \<open>GETARG_C ?i \<noteq> 0\<close> by linarith
    qed
    have nxt: "op \<noteq> OP_RETURN \<Longrightarrow> \<not> is_setlist0 ?i \<Longrightarrow> instr_pos pt (pc + 1)"
      using not_last [OF pre 1(2,3,1)] instr_pos_Suc [of pc pt] 1(2) by blast
    note sl = is_setlist0_op [OF i]
    have fwd: "pc + 2 = pc + 1 + 1" by simp
    have test: "instr_pos pt (pc + 2)" "instr_pos pt (pc + 2 + GETARG_sBx (code_word pt (pc + 1)))"
      if "testTMode op"
    proof -
      have j: "pc + 2 < sizecode pt" "is_op OP_JMP (code_word pt (pc + 1))"
        using 1(8) that by (auto simp: code_word_def)
      have p: "instr_pos pt (pc + 1)" using nxt sl that by (auto simp: testTMode_eq)
      show "instr_pos pt (pc + 2)"
        using instr_pos_Suc [of "pc + 1" pt] j 1(2) not_setlist0 [OF j(2)] by (simp add: add.commute)
      show "instr_pos pt (pc + 2 + GETARG_sBx (code_word pt (pc + 1)))"
        using checked_jump [OF pt p j(2)] by (simp add: add.commute add.left_commute)
    qed
    show ?thesis
    proof (cases op)
      case OP_LOADBOOL
      have "pc + 2 < sizecode pt \<and> \<not> is_setlist0 (code_word pt (pc + 1))" if "GETARG_C ?i = 1"
        using args cop that OP_LOADBOOL
        by (auto simp: check_args_iff getOpMode_eq chk_eq_Some code_word_def is_setlist0_def)
      then have "instr_pos pt (pc + 2)" if "GETARG_C ?i = 1"
        using instr_pos_Suc [of "pc + 1" pt] 1(2) that by (simp add: add.commute)
      then show ?thesis
        using assms(4) OP_LOADBOOL i lb nxt sl by (auto simp: vm_succs_def split: if_splits)
    next
      case OP_SETLIST
      have "pc + 2 < sizecode pt" if "GETARG_C ?i = 0"
        using args cop that OP_SETLIST by (auto simp: check_args_iff getOpMode_eq chk_eq_Some)
      moreover have "even (setlist_run pt (pc + 2))" if "pc + 2 < sizecode pt" "GETARG_C ?i = 0"
        using setlist_run_Suc [of pc pt] setlist_run_Suc [of "pc + 1" pt] that 1(2,3) pos sl OP_SETLIST
        by (simp add: instr_pos_def add.commute)
      ultimately show ?thesis
        using assms(4) OP_SETLIST i nxt sl 1(2) by (auto simp: vm_succs_def instr_pos_def split: if_splits)
    next
      case OP_CLOSURE
      note cl = checked_closure [OF args [unfolded OP_CLOSURE] cop [unfolded OP_CLOSURE]]
      show ?thesis
      proof (cases "nups_at pt (GETARG_Bx ?i) = 0")
        case True
        then show ?thesis using assms(4) OP_CLOSURE i nxt sl by (simp add: vm_succs_def)
      next
        case False
        let ?j = "nat (nups_at pt (GETARG_Bx ?i) - 1)" and ?q = "pc + nups_at pt (GETARG_Bx ?i)"
        have q: "pc + 1 + int ?j = ?q" "?j < nat (nups_at pt (GETARG_Bx ?i))"
          using False nups_at_nonneg [of pt "GETARG_Bx ?i"] by simp_all
        then have ops: "is_op OP_GETUPVAL (code_word pt ?q) \<or> is_op OP_MOVE (code_word pt ?q)"
          using cl(3) [of ?j] by simp
        have "?q \<noteq> sizecode pt - 1"
          using precheck_return(2) [OF pre] ops by (auto simp: is_op_def code_word_def)
        moreover have "\<not> is_setlist0 (code_word pt ?q)" using ops not_setlist0 by blast
        ultimately have "instr_pos pt (?q + 1)"
          using instr_pos_Suc [of ?q pt] cl(2) 1(2) nups_at_nonneg [of pt "GETARG_Bx ?i"] by simp
        then show ?thesis using assms(4) OP_CLOSURE i by (simp add: vm_succs_def algebra_simps)
      qed
    qed (use assms(4) i nxt sl test jump_dest [OF args] in
        \<open>auto simp: vm_succs_def testTMode_eq\<close>)
  qed
qed

lemma reach_instr_pos:
  "vm_reach pt pc \<Longrightarrow> luaG_checkcode pt = Inr True \<Longrightarrow> loadbool_flags pt \<Longrightarrow> instr_pos pt pc"
proof (induction rule: vm_reach.induct)
  case vm_start
  then show ?case using precheck_return(1) [OF checked_precheck] by (simp add: instr_pos_def)
next
  case (vm_next pc pc')
  then show ?case using checked_succs by blast
qed

section \<open>Properties\<close>


definition skip_code :: "Instruction list \<Rightarrow> Proto" where
  "skip_code code = Proto [] code [] [] [] [] None 0 0 0 0 2 2"


text \<open>C18: What \<open>luaG_checkcode\<close> promises to the interpreter: in a function it accepts, whose
  LOADBOOL instructions have a skip flag of 0 or 1, every program counter the interpreter can
  reach from the first instruction holds an instruction of the code, and what this instruction uses
  exists: its registers (those TFORLOOP uses for its call at worst in the extra slots of the stack),
  constants, upvalues, nested functions, the instructions that must follow it, and the registers and
  upvalues that a CLOSURE captures.\<close>

theorem checked_code_is_safe:
  assumes "luaG_checkcode pt = Inr True" and "loadbool_flags pt" and "vm_reach pt pc"
  shows "0 \<le> pc \<and> pc < sizecode pt \<and> operands_ok pt pc"
proof -
  have pos: "instr_pos pt pc" using reach_instr_pos [OF assms(3,1,2)] .
  then obtain lst pc' lst' where "check_step pt pc lst = Inr (Some (pc', lst'))"
    using checked_step [OF assms(1)] by blast
  then show ?thesis using pos checked_operands [OF _ assms(1) pos] by (simp add: instr_pos_def)
qed

definition skip_ok :: Proto where
  "skip_ok = skip_code [CREATE_ABC 2 0 1 1, CREATE_ABC 2 0 0 0, CREATE_ABC 30 0 2 0]"

lemma skip_ok_reach: "vm_reach skip_ok 2"
proof -
  have "2 \<in> set (vm_succs skip_ok 0)" by code_simp
  then show ?thesis using vm_next [OF vm_start] by blast
qed

lemma checked_code_is_safe_witness: "2 < sizecode skip_ok \<and> operands_ok skip_ok 2"
proof -
  have "luaG_checkcode skip_ok = Inr True" "loadbool_flags skip_ok" by code_simp+
  then show ?thesis using checked_code_is_safe [OF _ _ skip_ok_reach] by blast
qed

definition skip_bad :: Proto where
  "skip_bad = skip_code [CREATE_ABC 2 0 0 2, CREATE_ABC 30 0 1 0]"

text \<open>C19: The restriction on LOADBOOL is needed: the checker tests the skip only when the flag
  is 1, the interpreter skips for any flag but 0, and so the interpreter runs past the end of
  this accepted function.\<close>

theorem checked_code_can_run_off_the_end:
  "luaG_checkcode skip_bad = Inr True \<and> vm_reach skip_bad (sizecode skip_bad)"
proof
  show "luaG_checkcode skip_bad = Inr True" by code_simp
  have "sizecode skip_bad \<in> set (vm_succs skip_bad 0)" by code_simp
  then show "vm_reach skip_bad (sizecode skip_bad)" using vm_next [OF vm_start] by blast
qed

end
