(* ===== verification/LuaArith.thy ===== *)
theory LuaArith
  imports LuaNumber
begin

text \<open>
  The arithmetic macros of \<open>luaconf.h.in\<close> on IEEE doubles, rounding to nearest with ties to
  even. The value of a finite pattern is an integer multiple of \<open>2^-1074\<close>, the least positive
  double; \<open>dbl_units\<close> is that integer, so sums are exact integers and products and quotients
  exact fractions before they are rounded. NaN results are one pattern. \<open>pow\<close> is a function of
  the C mathematical library and a parameter where it is used.
\<close>

section \<open>Values and rounding\<close>

definition dbl_units_mag :: "int \<Rightarrow> int" where
  "dbl_units_mag m =
     (let e = m div 2 ^ 52; f = m mod 2 ^ 52
      in if e = 0 then f else (f + 2 ^ 52) * 2 ^ nat (e - 1))"

definition dbl_units :: "lua_Number \<Rightarrow> int" where
  "dbl_units n = (if dbl_neg n then - dbl_units_mag (dbl_mag n) else dbl_units_mag (dbl_mag n))"

text \<open>The number 1 in units.\<close>

definition DBL_ONE :: int where "DBL_ONE = 2 ^ 1074"

lemma DBL_ONE_pos [simp]: "0 < DBL_ONE" "\<not> DBL_ONE < 0" "DBL_ONE \<noteq> 0" "\<bar>DBL_ONE\<bar> = DBL_ONE"
  by (simp_all add: DBL_ONE_def)

definition dbl_isinf :: "lua_Number \<Rightarrow> bool" where
  "dbl_isinf n \<longleftrightarrow> dbl_mag n = 2047 * 2 ^ 52"

definition dbl_make :: "bool \<Rightarrow> int \<Rightarrow> lua_Number" where
  "dbl_make neg m = word_of_int (if neg then 2 ^ 63 + m else m)"

definition dbl_nan :: lua_Number where "dbl_nan = dbl_make False (4095 * 2 ^ 51)"
definition dbl_inf :: "bool \<Rightarrow> lua_Number" where "dbl_inf neg = dbl_make neg (2047 * 2 ^ 52)"
definition dbl_zero :: "bool \<Rightarrow> lua_Number" where "dbl_zero neg = dbl_make neg 0"

definition round_even :: "int \<Rightarrow> int \<Rightarrow> int" where
  "round_even num den =
     (let q = num div den; r = num mod den
      in if 2 * r < den \<or> 2 * r = den \<and> even q then q else q + 1)"

text \<open>The magnitude of \<open>num / den\<close> units: above \<open>2^53\<close> units the low bits are rounded away,
  and a carry out of the significand raises the exponent by itself.\<close>

definition round_mag :: "int \<Rightarrow> int \<Rightarrow> int" where
  "round_mag num den =
     (let k = ilog2 (num div den) - 52
      in min (2047 * 2 ^ 52) (int k * 2 ^ 52 + round_even num (den * 2 ^ k)))"

section \<open>Operations\<close>

definition luai_numadd :: "lua_Number \<Rightarrow> lua_Number \<Rightarrow> lua_Number" where
  "luai_numadd a b =
     (if luai_numisnan a \<or> luai_numisnan b then dbl_nan
      else if dbl_isinf a then (if dbl_isinf b \<and> dbl_neg a \<noteq> dbl_neg b then dbl_nan else a)
      else if dbl_isinf b then b
      else (let s = dbl_units a + dbl_units b
            in if s = 0 then dbl_zero (dbl_neg a \<and> dbl_neg b) else dbl_make (s < 0) (round_mag \<bar>s\<bar> 1)))"

definition luai_numsub :: "lua_Number \<Rightarrow> lua_Number \<Rightarrow> lua_Number" where
  "luai_numsub a b = luai_numadd a (luai_numunm b)"

definition luai_nummul :: "lua_Number \<Rightarrow> lua_Number \<Rightarrow> lua_Number" where
  "luai_nummul a b =
     (let neg = (dbl_neg a \<noteq> dbl_neg b)
      in if luai_numisnan a \<or> luai_numisnan b then dbl_nan
         else if dbl_isinf a \<or> dbl_isinf b
         then (if dbl_mag a = 0 \<or> dbl_mag b = 0 then dbl_nan else dbl_inf neg)
         else dbl_make neg (round_mag \<bar>dbl_units a * dbl_units b\<bar> (DBL_ONE)))"

definition luai_numdiv :: "lua_Number \<Rightarrow> lua_Number \<Rightarrow> lua_Number" where
  "luai_numdiv a b =
     (let neg = (dbl_neg a \<noteq> dbl_neg b)
      in if luai_numisnan a \<or> luai_numisnan b then dbl_nan
         else if dbl_isinf a then (if dbl_isinf b then dbl_nan else dbl_inf neg)
         else if dbl_isinf b then dbl_zero neg
         else if dbl_mag b = 0 then (if dbl_mag a = 0 then dbl_nan else dbl_inf neg)
         else dbl_make neg (round_mag (\<bar>dbl_units a\<bar> * DBL_ONE) \<bar>dbl_units b\<bar>))"

definition c_floor :: "lua_Number \<Rightarrow> lua_Number" where
  "c_floor a =
     (if luai_numisnan a \<or> dbl_isinf a then a
      else (let f = dbl_units a div DBL_ONE * DBL_ONE
            in dbl_make (dbl_neg a) (round_mag \<bar>f\<bar> 1)))"

definition luai_nummod :: "lua_Number \<Rightarrow> lua_Number \<Rightarrow> lua_Number" where
  "luai_nummod a b = luai_numsub a (luai_nummul (c_floor (luai_numdiv a b)) b)"

section \<open>Exactness\<close>

lemma dbl_mag_bounds: "0 \<le> dbl_mag n" "dbl_mag n < 2 ^ 63"
  by (simp_all add: dbl_mag_def)

lemma dbl_make_parts:
  assumes "0 \<le> m" and "m < 2 ^ 63"
  shows "dbl_mag (dbl_make neg m) = m" and "dbl_neg (dbl_make neg m) \<longleftrightarrow> neg"
  using dbl_word [OF assms] by (simp_all add: dbl_make_def)

lemma dbl_make_of_parts: "dbl_make (dbl_neg n) (dbl_mag n) = n"
proof -
  have u: "0 \<le> uint n" "uint n < 2 ^ 64" using uint_lt2p [of n] by simp_all
  have "(if dbl_neg n then 2 ^ 63 + dbl_mag n else dbl_mag n) = uint n"
  proof (cases "dbl_neg n")
    case True
    then have "uint n mod 2 ^ 63 = uint n - 2 ^ 63"
      using u mod_pos_pos_trivial [of "uint n - 2 ^ 63" "2 ^ 63"] mod_add_self2 [of "uint n - 2 ^ 63" "2 ^ 63"]
      by (simp add: dbl_neg_def)
    then show ?thesis using True by (simp add: dbl_mag_def)
  next
    case False
    then show ?thesis using u by (simp add: dbl_neg_def dbl_mag_def mod_pos_pos_trivial)
  qed
  then show ?thesis by (simp add: dbl_make_def)
qed

lemma round_even_exact: "0 < den \<Longrightarrow> round_even (q * den) den = q"
  by (simp add: round_even_def)

text \<open>A representable value rounds to itself.\<close>

lemma round_mag_units:
  assumes "0 \<le> m" and "m < 2047 * 2 ^ 52"
  shows "round_mag (dbl_units_mag m) 1 = m"
proof -
  define e f where "e = m div 2 ^ 52" and "f = m mod 2 ^ 52"
  have f: "0 \<le> f" "f < 2 ^ 52" and m: "m = e * 2 ^ 52 + f" and e: "0 \<le> e"
    using assms by (simp_all add: e_def f_def pos_imp_zdiv_nonneg_iff)
  have u: "dbl_units_mag m = (if e = 0 then f else (f + 2 ^ 52) * 2 ^ nat (e - 1))"
    unfolding dbl_units_mag_def Let_def e_def f_def by (rule refl)
  show ?thesis
  proof (cases "e = 0")
    case True
    have "ilog2 f - 52 = 0" using ilog2_bound [of f] f by simp
    then have "round_mag f 1 = f" using f by (simp add: round_mag_def round_even_def)
    then show ?thesis using u True m by simp
  next
    case False
    define j where "j = nat (e - 1)"
    have j: "int j = e - 1" using False e by (simp add: j_def)
    have "ilog2 ((f + 2 ^ 52) * 2 ^ j) = 52 + j"
    proof (rule ilog2_eqI)
      show "2 ^ (52 + j) \<le> (f + 2 ^ 52) * 2 ^ j" using f by (simp add: power_add)
      have "(f + 2 ^ 52) * 2 ^ j < 2 ^ 53 * 2 ^ j" using f by simp
      then show "(f + 2 ^ 52) * 2 ^ j < 2 ^ Suc (52 + j)" by (simp add: power_add)
    qed
    then have "round_mag ((f + 2 ^ 52) * 2 ^ j) 1 = min (2047 * 2 ^ 52) (int j * 2 ^ 52 + (f + 2 ^ 52))"
      using round_even_exact [of "2 ^ j" "f + 2 ^ 52"] by (simp add: round_mag_def)
    also have "\<dots> = m" using assms m j by (simp add: algebra_simps)
    finally show ?thesis
      using False by (simp add: u flip: j_def)
  qed
qed

lemma round_even_scale:
  assumes "0 < d"
  shows "round_even (n * d) (d * e) = round_even n e"
proof -
  have "n * d div (d * e) = n div e" "n * d mod (d * e) = d * (n mod e)"
    using assms div_mult_mult2 [of d n e] mod_mult_mult2 [of n d e] by (simp_all only: mult.commute)
  moreover have "2 * (d * r) < d * e \<longleftrightarrow> 2 * r < e" "2 * (d * r) = d * e \<longleftrightarrow> 2 * r = e" for r
    using assms mult_less_cancel_left_pos [OF assms, of "2 * r" e] mult_cancel_left [of d "2 * r" e]
    by (simp_all only: mult.left_commute [of 2 d]) simp_all
  ultimately show ?thesis by (simp only: round_even_def Let_def)
qed

lemma round_mag_scale: "0 < d \<Longrightarrow> round_mag (n * d) d = round_mag n 1"
  using round_even_scale [of d n] by (simp add: round_mag_def Let_def)

lemma dbl_units_cast_num:
  assumes "dbl_exact i"
  shows "dbl_units (cast_num i) = i * DBL_ONE"
proof (cases "i = 0")
  case True
  then show ?thesis
    using cast_num_mag [OF assms] by (simp add: dbl_units_def dbl_mag_of_int_def dbl_units_mag_def)
next
  case False
  define k where "k = ilog2 \<bar>i\<bar>"
  have b: "0 < \<bar>i\<bar>" "\<bar>i\<bar> < 2 ^ 53" using False assms by (simp_all add: dbl_exact_def)
  have k: "k \<le> 52" using ilog2_bound [OF b(2)] by (simp add: k_def)
  note p = dbl_mag_of_int_parts(1,2) [OF b, folded k_def]
  have n: "nat (int k + 1023 - 1) = k + 1022" by simp
  have "(2::int) ^ (52 - k) * 2 ^ (k + 1022) = DBL_ONE"
    using k unfolding DBL_ONE_def by (subst power_add [symmetric]) simp
  then have "dbl_units_mag (dbl_mag_of_int \<bar>i\<bar>) = \<bar>i\<bar> * DBL_ONE"
    unfolding dbl_units_mag_def Let_def p n by (simp add: mult.assoc)
  then show ?thesis
    using cast_num_mag [OF assms] by (cases "i < 0") (simp_all only: dbl_units_def abs_if if_True if_False minus_mult_left minus_minus)
qed

lemma round_mag_cast_num:
  assumes "dbl_exact i"
  shows "dbl_make (i < 0) (round_mag \<bar>i * DBL_ONE\<bar> 1) = cast_num i"
proof -
  let ?m = "dbl_mag (cast_num i)"
  have m: "0 \<le> ?m" "?m < 2047 * 2 ^ 52"
    using dbl_exact_mag [OF assms] cast_num_mag [OF assms] by auto
  have "0 \<le> dbl_units_mag ?m"
    using m(1) by (simp add: dbl_units_mag_def Let_def)
  then have "\<bar>i * DBL_ONE\<bar> = dbl_units_mag ?m"
    using dbl_units_cast_num [OF assms] by (simp add: dbl_units_def split: if_splits)
  then show ?thesis
    using round_mag_units [OF m] cast_num_mag(2) [OF assms] dbl_make_of_parts [of "cast_num i"] by simp
qed

lemma cast_num_not_inf: "dbl_exact i \<Longrightarrow> \<not> dbl_isinf (cast_num i)"
  using dbl_exact_mag [of i] cast_num_mag(1) [of i] by (auto simp: dbl_isinf_def)

lemma cast_num_0: "cast_num 0 = dbl_zero False"
  by (simp add: cast_num_def dbl_zero_def dbl_make_def dbl_mag_of_int_def)

lemma add_cast_num:
  assumes "dbl_exact i" and "dbl_exact j" and "dbl_exact (i + j)"
  shows "luai_numadd (cast_num i) (cast_num j) = cast_num (i + j)"
proof -
  have s: "dbl_units (cast_num i) + dbl_units (cast_num j) = (i + j) * DBL_ONE"
    using assms by (simp only: dbl_units_cast_num distrib_right)
  show ?thesis
  proof (cases "i + j = 0")
    case True
    then have "\<not> (i < 0 \<and> j < 0)" by linarith
    then have "(i < 0 \<and> j < 0) = False" by simp
    then show ?thesis
      using assms True s
      by (simp add: luai_numadd_def cast_num_0 cast_num_not_nan cast_num_not_inf cast_num_mag(2) del: de_Morgan_conj)
  next
    case False
    then show ?thesis
      using assms s False round_mag_cast_num [OF assms(3)]
      by (simp add: luai_numadd_def Let_def mult_less_0_iff cast_num_not_nan cast_num_not_inf)
  qed
qed

lemma unm_cast_num:
  assumes "dbl_exact i" and "i \<noteq> 0"
  shows "luai_numunm (cast_num i) = cast_num (- i)"
proof -
  have "0 \<le> dbl_mag_of_int \<bar>i\<bar>" "dbl_mag_of_int \<bar>i\<bar> < 2 ^ 63" using dbl_exact_mag [OF assms(1)] by auto
  have flip: "(word_of_int m :: 64 word) XOR push_bit 63 1 = word_of_int (2 ^ 63 + m)"
    "(word_of_int (2 ^ 63 + m) :: 64 word) XOR push_bit 63 1 = word_of_int m"
    if "0 \<le> m" "m < 2 ^ 63" for m :: int
  proof -
    have "\<not> bit m 63" using that by (simp add: bit_iff_odd)
    then have *: "2 ^ 63 + m = set_bit 63 m" by (simp add: set_bit_eq)
    have 63: "w XOR push_bit 63 1 = flip_bit 63 w" for w :: "64 word" by (simp only: flip_bit_eq_xor)
    show "(word_of_int m :: 64 word) XOR push_bit 63 1 = word_of_int (2 ^ 63 + m)"
      unfolding * 63 using \<open>\<not> bit m 63\<close> by (intro bit_word_eqI) (auto simp: bit_simps)
    show "(word_of_int (2 ^ 63 + m) :: 64 word) XOR push_bit 63 1 = word_of_int m"
      unfolding * 63 using \<open>\<not> bit m 63\<close> by (intro bit_word_eqI) (auto simp: bit_simps)
  qed
  show ?thesis
    using flip [of "dbl_mag_of_int \<bar>i\<bar>"] \<open>0 \<le> _\<close> \<open>_ < 2 ^ 63\<close> assms(2)
    by (auto simp: luai_numunm_def cast_num_def abs_if)
qed

lemma mul_cast_num:
  assumes "dbl_exact i" and "dbl_exact j" and "dbl_exact (i * j)" and "i * j \<noteq> 0"
  shows "luai_nummul (cast_num i) (cast_num j) = cast_num (i * j)"
proof -
  have "\<bar>dbl_units (cast_num i) * dbl_units (cast_num j)\<bar> = \<bar>i * j * DBL_ONE\<bar> * DBL_ONE"
    using assms(1,2) by (simp add: dbl_units_cast_num abs_mult)
  then have "round_mag \<bar>dbl_units (cast_num i) * dbl_units (cast_num j)\<bar> (DBL_ONE) =
      round_mag \<bar>i * j * DBL_ONE\<bar> 1"
    using round_mag_scale [of "DBL_ONE"] by simp
  moreover have "(i < 0) \<noteq> (j < 0) \<longleftrightarrow> i * j < 0"
    using assms(4) by (auto simp: mult_less_0_iff)
  ultimately show ?thesis
    using assms round_mag_cast_num [OF assms(3)]
    by (simp add: luai_nummul_def Let_def cast_num_mag(2) cast_num_not_nan cast_num_not_inf)
qed

text \<open>As long as operands and results are integers below \<open>2^53\<close> in absolute value, the
  floating-point addition, subtraction and multiplication of Lua numbers are exact integer
  arithmetic (a zero product may be the negative zero and is excluded).\<close>

theorem integer_arithmetic_is_exact:
  assumes "dbl_exact i" and "dbl_exact j"
  shows "(dbl_exact (i + j) \<longrightarrow> luai_numadd (cast_num i) (cast_num j) = cast_num (i + j)) \<and>
    (j \<noteq> 0 \<longrightarrow> dbl_exact (i - j) \<longrightarrow> luai_numsub (cast_num i) (cast_num j) = cast_num (i - j)) \<and>
    (i * j \<noteq> 0 \<longrightarrow> dbl_exact (i * j) \<longrightarrow> luai_nummul (cast_num i) (cast_num j) = cast_num (i * j))"
proof -
  have "dbl_exact (- j)" using assms(2) by (simp add: dbl_exact_def)
  then show ?thesis
    using assms add_cast_num [of i j] add_cast_num [of i "- j"] unm_cast_num [of j] mul_cast_num [of i j]
    by (simp add: luai_numsub_def)
qed

lemma integer_arithmetic_is_exact_witness:
  "luai_numadd (cast_num 2147483647) (cast_num 1) = cast_num 2147483648 \<and>
   luai_numsub (cast_num 1) (cast_num 3) = cast_num (- 2) \<and>
   luai_nummul (cast_num 3000000) (cast_num 2000000) = cast_num 6000000000000"
  using integer_arithmetic_is_exact [of 2147483647 1] integer_arithmetic_is_exact [of 1 3]
    integer_arithmetic_is_exact [of 3000000 2000000]
  by (simp add: dbl_exact_def)

end
