(* ===== verification/StateRes.thy ===== *)
theory StateRes
  imports Prelude
begin

text \<open>
  Computations on a state that may fail: the shape of the C functions that update a structure
  reached through a pointer and may raise an error. A failure keeps no state, as a Lua error
  unwinds past every caller that could read it.
\<close>

text \<open>The limit of \<open>luaconf.h\<close> on nested C calls and on syntactical nesting.\<close>

definition LUAI_MAXCCALLS :: int where "LUAI_MAXCCALLS = 200"

type_synonym ('s, 'a) sm = "'s \<Rightarrow> ('a \<times> 's) res"

definition sret :: "'a \<Rightarrow> ('s, 'a) sm" where
  "sret x s = Inr (x, s)"

definition sbind :: "('s, 'a) sm \<Rightarrow> ('a \<Rightarrow> ('s, 'b) sm) \<Rightarrow> ('s, 'b) sm" where
  "sbind m f s = (case m s of Inl e \<Rightarrow> Inl e | Inr (x, s') \<Rightarrow> f x s')"

abbreviation sthen :: "('s, 'a) sm \<Rightarrow> ('s, 'b) sm \<Rightarrow> ('s, 'b) sm" where
  "sthen m n \<equiv> sbind m (\<lambda>_. n)"

definition serror :: "lua_error \<Rightarrow> ('s, 'a) sm" where
  "serror e s = Inl e"

definition sget :: "('s \<Rightarrow> 'a) \<Rightarrow> ('s, 'a) sm" where
  "sget f s = Inr (f s, s)"

definition supd :: "('s \<Rightarrow> 's) \<Rightarrow> ('s, unit) sm" where
  "supd f s = Inr ((), f s)"

definition slift :: "'a res \<Rightarrow> ('s, 'a) sm" where
  "slift r s = rbind r (\<lambda>x. Inr (x, s))"

lemma sbind_cong [fundef_cong]:
  "s = s' \<Longrightarrow> m s' = m' s' \<Longrightarrow> (\<And>x s''. m' s' = Inr (x, s'') \<Longrightarrow> f x s'' = f' x s'') \<Longrightarrow>
    sbind m f s = sbind m' f' s'"
  by (auto simp: sbind_def split: sum.split)

lemma sm_simps [simp]:
  "sret x s = Inr (x, s)" "serror e s = Inl e" "sget g s = Inr (g s, s)" "supd h s = Inr ((), h s)"
  by (simp_all add: sret_def serror_def sget_def supd_def)

lemma sbind_simps [simp]:
  "m s = Inr (x, s') \<Longrightarrow> sbind m f s = f x s'" "m s = Inl e \<Longrightarrow> sbind m f s = Inl e"
  by (simp_all add: sbind_def)

lemma sbind_Inr_iff: "sbind m f s = Inr r \<longleftrightarrow> (\<exists>x s'. m s = Inr (x, s') \<and> f x s' = Inr r)"
  by (auto simp: sbind_def split: sum.splits)

lemma slift_simps [simp]: "slift (Inr x) s = Inr (x, s)" "slift (Inl e) s = Inl e"
  by (simp_all add: slift_def)

lemma slift_Inr_iff: "slift r s = Inr (x, s') \<longleftrightarrow> r = Inr x \<and> s' = s"
  by (cases r) auto

text \<open>An invariant kept by every successful run.\<close>

definition keeps :: "('s \<Rightarrow> bool) \<Rightarrow> ('s, 'a) sm \<Rightarrow> bool" where
  "keeps I m \<longleftrightarrow> (\<forall>s x s'. I s \<longrightarrow> m s = Inr (x, s') \<longrightarrow> I s')"

named_theorems keeps_intros "preservation rules of invariants"

lemma keepsI: "(\<And>s x s'. I s \<Longrightarrow> m s = Inr (x, s') \<Longrightarrow> I s') \<Longrightarrow> keeps I m"
  by (auto simp: keeps_def)

lemma keepsD: "keeps I m \<Longrightarrow> m s = Inr (x, s') \<Longrightarrow> I s \<Longrightarrow> I s'"
  unfolding keeps_def by blast

lemma keeps_sbind [keeps_intros]:
  "keeps I m \<Longrightarrow> (\<And>x. keeps I (f x)) \<Longrightarrow> keeps I (sbind m f)"
  unfolding keeps_def sbind_Inr_iff by blast

lemma keeps_basic [keeps_intros]:
  "keeps I (sret x)" "keeps I (serror e)" "keeps I (sget g)" "keeps I (slift r)"
  by (auto simp: keeps_def slift_Inr_iff)

lemma keeps_supd [keeps_intros]: "(\<And>s. I s \<Longrightarrow> I (h s)) \<Longrightarrow> keeps I (supd h)"
  by (auto simp: keeps_def)

lemma keeps_if [keeps_intros]: "keeps I m \<Longrightarrow> keeps I n \<Longrightarrow> keeps I (if b then m else n)"
  by simp

end
