(* ===== verification/LCode.thy ===== *)
theory LCode
  imports LDebug LuaArith LTable LMem StateRes
begin

text \<open>
  \<open>lcode.c\<close>: the code generator. A \<open>FuncState\<close> holds the function under construction: the
  words of \<open>f->code\<close> below \<open>pc\<close>, the constants below \<open>nk\<close> (the length of \<open>fs_k\<close>) with the
  table \<open>h\<close> that finds a constant again, the registers and the pending jumps. \<open>fs_H\<close> is the
  reading of string headers the table code needs, \<open>fs_haddr\<close> the address of \<open>h\<close>, \<open>fs_pow\<close> the
  function \<open>pow\<close> of the C library, \<open>fs_lastline\<close> the field \<open>lastline\<close> of the lexer. Reading
  or writing outside the code is \<open>Undefined\<close>; allocation is taken to succeed, the growth
  limits are those of \<open>luaM_growaux_\<close>.
\<close>

section \<open>State\<close>

datatype expkind =
  VVOID | VNIL | VTRUE | VFALSE | VK | VKNUM | VLOCAL | VUPVAL | VGLOBAL | VINDEXED | VJMP |
  VRELOCABLE | VNONRELOC | VCALL | VVARARG

record expdesc =
  ek :: expkind
  einfo :: int
  eaux :: int
  enval :: lua_Number
  et :: int
  ef :: int

datatype BinOpr =
  OPR_ADD | OPR_SUB | OPR_MUL | OPR_DIV | OPR_MOD | OPR_POW | OPR_CONCAT | OPR_NE | OPR_EQ |
  OPR_LT | OPR_LE | OPR_GT | OPR_GE | OPR_AND | OPR_OR | OPR_NOBINOPR

datatype UnOpr = OPR_MINUS | OPR_NOT | OPR_LEN | OPR_NOUNOPR

record 's FuncState =
  fs_code :: "Instruction list"
  fs_sizecode :: int
  fs_lineinfo :: "int list"
  fs_sizelineinfo :: int
  fs_k :: "'s tvalue list"
  fs_sizek :: int
  fs_h :: "'s Table"
  fs_haddr :: addr
  fs_H :: "'s string_view"
  fs_pow :: "lua_Number \<Rightarrow> lua_Number \<Rightarrow> lua_Number"
  fs_lastline :: int
  fs_pc :: int
  fs_lasttarget :: int
  fs_jpc :: int
  fs_freereg :: int
  fs_nactvar :: int
  fs_maxstacksize :: int

type_synonym ('s, 'a) cg = "('s FuncState, 'a) sm"

definition NO_JUMP :: int where "NO_JUMP = - 1"
definition LFIELDS_PER_FLUSH :: int where "LFIELDS_PER_FLUSH = 50"

definition fs_nk :: "'s FuncState \<Rightarrow> int" where "fs_nk fs = int (length (fs_k fs))"

definition hasjumps :: "expdesc \<Rightarrow> bool" where
  "hasjumps e \<longleftrightarrow> et e \<noteq> ef e"

definition isnumeral :: "expdesc \<Rightarrow> bool" where
  "isnumeral e \<longleftrightarrow> ek e = VKNUM \<and> et e = NO_JUMP \<and> ef e = NO_JUMP"

text \<open>Access to a word of the code.\<close>

definition code_at :: "int \<Rightarrow> ('s, Instruction) cg" where
  "code_at pc fs =
     (if 0 \<le> pc \<and> pc < int (length (fs_code fs)) then Inr (fs_code fs ! nat pc, fs) else Inl Undefined)"

definition set_code :: "int \<Rightarrow> Instruction \<Rightarrow> ('s, unit) cg" where
  "set_code pc i fs =
     (if 0 \<le> pc \<and> pc < int (length (fs_code fs))
      then Inr ((), fs\<lparr>fs_code := (fs_code fs)[nat pc := i]\<rparr>) else Inl Undefined)"

definition getcode :: "expdesc \<Rightarrow> ('s, Instruction) cg" where
  "getcode e = code_at (einfo e)"

text \<open>\<open>testTMode\<close> of an opcode read from the code: the mode table has no entry beyond
  \<open>NUM_OPCODES\<close>.\<close>

definition test_mode :: "Instruction \<Rightarrow> bool res" where
  "test_mode i = (case OpCode_of (GET_OPCODE i) of None \<Rightarrow> Inl Undefined | Some op \<Rightarrow> Inr (testTMode op))"

definition grow :: "int \<Rightarrow> int \<Rightarrow> int \<Rightarrow> string \<Rightarrow> int res" where
  "grow nelems sz limit errormsg = (if sz < nelems + 1 then growaux_size sz limit errormsg else Inr sz)"

section \<open>Jump lists\<close>

definition fixjump :: "int \<Rightarrow> int \<Rightarrow> ('s, unit) cg" where
  "fixjump pc dest =
     sbind (code_at pc) (\<lambda>jmp.
       let offset = dest - (pc + 1)
       in if MAXARG_sBx < \<bar>offset\<bar> then serror (ErrSyntax ''control structure too long'')
          else set_code pc (SETARG_sBx jmp offset))"

definition luaK_getlabel :: "('s, int) cg" where
  "luaK_getlabel = sthen (supd (\<lambda>fs. fs\<lparr>fs_lasttarget := fs_pc fs\<rparr>)) (sget fs_pc)"

definition getjump :: "int \<Rightarrow> ('s, int) cg" where
  "getjump pc =
     sbind (code_at pc) (\<lambda>i.
       let offset = GETARG_sBx i
       in sret (if offset = NO_JUMP then NO_JUMP else (pc + 1) + offset))"

text \<open>The position \<open>getjumpcontrol\<close> returns a pointer to.\<close>

definition getjumpcontrol :: "int \<Rightarrow> ('s, int) cg" where
  "getjumpcontrol pc =
     (if 1 \<le> pc then
        sbind (code_at (pc - 1)) (\<lambda>i. sbind (slift (test_mode i)) (\<lambda>t. sret (if t then pc - 1 else pc)))
      else sret pc)"

text \<open>Loops over a jump list: a list cannot be longer than the code.\<close>

definition list_fuel :: "'s FuncState \<Rightarrow> nat" where
  "list_fuel fs = Suc (length (fs_code fs))"

fun need_value_loop :: "nat \<Rightarrow> int \<Rightarrow> ('s, bool) cg" where
  "need_value_loop 0 l = serror OutOfFuel"
| "need_value_loop (Suc fuel) l =
     (if l = NO_JUMP then sret False
      else sbind (getjumpcontrol l) (\<lambda>p. sbind (code_at p) (\<lambda>i.
        if \<not> is_op OP_TESTSET i then sret True
        else sbind (getjump l) (need_value_loop fuel))))"

definition need_value :: "int \<Rightarrow> ('s, bool) cg" where
  "need_value l = sbind (sget list_fuel) (\<lambda>fuel. need_value_loop fuel l)"

definition patchtestreg :: "int \<Rightarrow> int \<Rightarrow> ('s, bool) cg" where
  "patchtestreg nd reg =
     sbind (getjumpcontrol nd) (\<lambda>p. sbind (code_at p) (\<lambda>i.
       if \<not> is_op OP_TESTSET i then sret False
       else if reg \<noteq> NO_REG \<and> reg \<noteq> GETARG_B i then sthen (set_code p (SETARG_A i reg)) (sret True)
       else sthen (set_code p (CREATE_ABC (op_num OP_TEST) (GETARG_B i) 0 (GETARG_C i))) (sret True)))"

fun removevalues_loop :: "nat \<Rightarrow> int \<Rightarrow> ('s, unit) cg" where
  "removevalues_loop 0 l = serror OutOfFuel"
| "removevalues_loop (Suc fuel) l =
     (if l = NO_JUMP then sret ()
      else sthen (patchtestreg l NO_REG) (sbind (getjump l) (removevalues_loop fuel)))"

definition removevalues :: "int \<Rightarrow> ('s, unit) cg" where
  "removevalues l = sbind (sget list_fuel) (\<lambda>fuel. removevalues_loop fuel l)"

fun patchlist_loop :: "nat \<Rightarrow> int \<Rightarrow> int \<Rightarrow> int \<Rightarrow> int \<Rightarrow> ('s, unit) cg" where
  "patchlist_loop 0 l vtarget reg dtarget = serror OutOfFuel"
| "patchlist_loop (Suc fuel) l vtarget reg dtarget =
     (if l = NO_JUMP then sret ()
      else sbind (getjump l) (\<lambda>next. sbind (patchtestreg l reg) (\<lambda>b.
        sthen (fixjump l (if b then vtarget else dtarget))
          (patchlist_loop fuel next vtarget reg dtarget))))"

definition patchlistaux :: "int \<Rightarrow> int \<Rightarrow> int \<Rightarrow> int \<Rightarrow> ('s, unit) cg" where
  "patchlistaux l vtarget reg dtarget =
     sbind (sget list_fuel) (\<lambda>fuel. patchlist_loop fuel l vtarget reg dtarget)"

definition dischargejpc :: "('s, unit) cg" where
  "dischargejpc =
     sbind (sget fs_jpc) (\<lambda>jpc. sbind (sget fs_pc) (\<lambda>pc.
       sthen (patchlistaux jpc pc NO_REG pc) (supd (\<lambda>fs. fs\<lparr>fs_jpc := NO_JUMP\<rparr>))))"

fun last_jump :: "nat \<Rightarrow> int \<Rightarrow> ('s, int) cg" where
  "last_jump 0 l = serror OutOfFuel"
| "last_jump (Suc fuel) l = sbind (getjump l) (\<lambda>next. if next = NO_JUMP then sret l else last_jump fuel next)"

text \<open>\<open>luaK_concat\<close> returns the new value of \<open>*l1\<close>.\<close>

definition luaK_concat :: "int \<Rightarrow> int \<Rightarrow> ('s, int) cg" where
  "luaK_concat l1 l2 =
     (if l2 = NO_JUMP then sret l1
      else if l1 = NO_JUMP then sret l2
      else sbind (sget list_fuel) (\<lambda>fuel. sbind (last_jump fuel l1) (\<lambda>l.
        sthen (fixjump l l2) (sret l1))))"

definition luaK_patchtohere :: "int \<Rightarrow> ('s, unit) cg" where
  "luaK_patchtohere l =
     sthen luaK_getlabel (sbind (sget fs_jpc) (\<lambda>jpc. sbind (luaK_concat jpc l) (\<lambda>jpc'.
       supd (\<lambda>fs. fs\<lparr>fs_jpc := jpc'\<rparr>))))"

definition luaK_patchlist :: "int \<Rightarrow> int \<Rightarrow> ('s, unit) cg" where
  "luaK_patchlist l target =
     sbind (sget fs_pc) (\<lambda>pc.
       if target = pc then luaK_patchtohere l else patchlistaux l target NO_REG target)"

section \<open>Emission\<close>

definition luaK_code :: "Instruction \<Rightarrow> int \<Rightarrow> ('s, int) cg" where
  "luaK_code i line =
     sthen dischargejpc (sbind (sget fs_pc) (\<lambda>pc.
       sbind (sget fs_sizecode) (\<lambda>sc. sbind (slift (grow pc sc MAX_INT ''code size overflow'')) (\<lambda>sc'.
       sbind (sget fs_sizelineinfo) (\<lambda>sl. sbind (slift (grow pc sl MAX_INT ''code size overflow'')) (\<lambda>sl'.
         sthen (supd (\<lambda>fs. fs\<lparr>fs_code := take (nat pc) (fs_code fs) @ [i], fs_sizecode := sc',
                     fs_lineinfo := take (nat pc) (fs_lineinfo fs) @ [line], fs_sizelineinfo := sl',
                     fs_pc := pc + 1\<rparr>))
           (sret pc)))))))"

definition luaK_codeABC :: "OpCode \<Rightarrow> int \<Rightarrow> int \<Rightarrow> int \<Rightarrow> ('s, int) cg" where
  "luaK_codeABC opc a b c =
     sbind (sget fs_lastline) (\<lambda>line. luaK_code (CREATE_ABC (op_num opc) a b c) line)"

definition luaK_codeABx :: "OpCode \<Rightarrow> int \<Rightarrow> int \<Rightarrow> ('s, int) cg" where
  "luaK_codeABx opc a bc =
     sbind (sget fs_lastline) (\<lambda>line. luaK_code (CREATE_ABx (op_num opc) a bc) line)"

definition luaK_codeAsBx :: "OpCode \<Rightarrow> int \<Rightarrow> int \<Rightarrow> ('s, int) cg" where
  "luaK_codeAsBx opc a sbx = luaK_codeABx opc a (sbx + MAXARG_sBx)"

definition luaK_fixline :: "int \<Rightarrow> ('s, unit) cg" where
  "luaK_fixline line =
     sbind (sget fs_pc) (\<lambda>pc. sbind (sget fs_lineinfo) (\<lambda>ls.
       if 0 \<le> pc - 1 \<and> pc - 1 < int (length ls)
       then supd (\<lambda>fs. fs\<lparr>fs_lineinfo := (fs_lineinfo fs)[nat (pc - 1) := line]\<rparr>) else serror Undefined))"

definition luaK_nil :: "int \<Rightarrow> int \<Rightarrow> ('s, unit) cg" where
  "luaK_nil from n =
     (let code_nil = sthen (luaK_codeABC OP_LOADNIL from (from + n - 1) 0) (sret ())
      in sbind (sget fs_pc) (\<lambda>pc. sbind (sget fs_lasttarget) (\<lambda>target. sbind (sget fs_nactvar) (\<lambda>nactvar.
        if target < pc then
          (if pc = 0 then (if nactvar \<le> from then sret () else code_nil)
           else sbind (code_at (pc - 1)) (\<lambda>previous.
             if is_op OP_LOADNIL previous then
               (let pfrom = GETARG_A previous; pto = GETARG_B previous
                in if pfrom \<le> from \<and> from \<le> pto + 1 then
                     (if pto < from + n - 1 then set_code (pc - 1) (SETARG_B previous (from + n - 1))
                      else sret ())
                   else code_nil)
             else code_nil))
        else code_nil))))"

definition luaK_jump :: "('s, int) cg" where
  "luaK_jump =
     sbind (sget fs_jpc) (\<lambda>jpc.
       sthen (supd (\<lambda>fs. fs\<lparr>fs_jpc := NO_JUMP\<rparr>))
         (sbind (luaK_codeAsBx OP_JMP 0 NO_JUMP) (\<lambda>j. luaK_concat j jpc)))"

definition luaK_ret :: "int \<Rightarrow> int \<Rightarrow> ('s, unit) cg" where
  "luaK_ret first nret = sthen (luaK_codeABC OP_RETURN first (nret + 1) 0) (sret ())"

definition condjump :: "OpCode \<Rightarrow> int \<Rightarrow> int \<Rightarrow> int \<Rightarrow> ('s, int) cg" where
  "condjump opc a b c = sthen (luaK_codeABC opc a b c) luaK_jump"

section \<open>Registers\<close>

definition luaK_checkstack :: "int \<Rightarrow> ('s, unit) cg" where
  "luaK_checkstack n =
     sbind (sget fs_freereg) (\<lambda>fr. sbind (sget fs_maxstacksize) (\<lambda>ms.
       let newstack = fr + n
       in if ms < newstack then
            (if MAXSTACK \<le> newstack then serror (ErrSyntax ''function or expression too complex'')
             else supd (\<lambda>fs. fs\<lparr>fs_maxstacksize := newstack\<rparr>))
          else sret ()))"

definition luaK_reserveregs :: "int \<Rightarrow> ('s, unit) cg" where
  "luaK_reserveregs n =
     sthen (luaK_checkstack n) (supd (\<lambda>fs. fs\<lparr>fs_freereg := fs_freereg fs + n\<rparr>))"

definition freereg :: "int \<Rightarrow> ('s, unit) cg" where
  "freereg reg =
     sbind (sget fs_nactvar) (\<lambda>nactvar.
       if \<not> ISK reg \<and> nactvar \<le> reg then supd (\<lambda>fs. fs\<lparr>fs_freereg := fs_freereg fs - 1\<rparr>)
       else sret ())"

definition freeexp :: "expdesc \<Rightarrow> ('s, unit) cg" where
  "freeexp e = (if ek e = VNONRELOC then freereg (einfo e) else sret ())"

section \<open>Constants\<close>

definition addk :: "'s tvalue \<Rightarrow> 's tvalue \<Rightarrow> ('s, int) cg" where
  "addk k v fs =
     (case luaH_set (fs_H fs) (fs_h fs) k of
        Inl e \<Rightarrow> Inl e
      | Inr (h, idx) \<Rightarrow>
          (case slot_val h idx of
             TNumber n \<Rightarrow> Inr (lua_number2int n, fs\<lparr>fs_h := h\<rparr>)
           | _ \<Rightarrow>
               rbind (grow (fs_nk fs) (fs_sizek fs) MAXARG_Bx ''constant table overflow'') (\<lambda>sizek.
                 Inr (fs_nk fs, fs\<lparr>fs_h := set_slot h idx (TNumber (cast_num (fs_nk fs))),
                                   fs_sizek := sizek, fs_k := fs_k fs @ [v]\<rparr>))))"

text \<open>The lexer keeps a new string alive in the same table: \<open>luaX_newstring\<close> enters it with the value
  true unless it has an entry already. Such entries are no indices, hence the test in \<open>addk\<close>.\<close>

definition luaX_anchor :: "'s \<Rightarrow> ('s, unit) cg" where
  "luaX_anchor ts fs =
     rbind (luaH_setstr (fs_H fs) (fs_h fs) ts) (\<lambda>(h, e).
       Inr ((), fs\<lparr>fs_h := (if slot_val h e = TNil then set_slot h e (TBoolean True) else h)\<rparr>))"

definition luaK_stringK :: "'s \<Rightarrow> ('s, int) cg" where
  "luaK_stringK s = addk (TString s) (TString s)"

definition luaK_numberK :: "lua_Number \<Rightarrow> ('s, int) cg" where
  "luaK_numberK r = addk (TNumber r) (TNumber r)"

definition boolK :: "bool \<Rightarrow> ('s, int) cg" where
  "boolK b = addk (TBoolean b) (TBoolean b)"

definition nilK :: "('s, int) cg" where
  "nilK = sbind (sget fs_haddr) (\<lambda>a. addk (TTable a) TNil)"

section \<open>Expressions to registers\<close>

definition luaK_setreturns :: "expdesc \<Rightarrow> int \<Rightarrow> ('s, unit) cg" where
  "luaK_setreturns e nresults =
     (if ek e = VCALL then
        sbind (getcode e) (\<lambda>i. set_code (einfo e) (SETARG_C i (nresults + 1)))
      else if ek e = VVARARG then
        sbind (getcode e) (\<lambda>i. sthen (set_code (einfo e) (SETARG_B i (nresults + 1)))
          (sbind (sget fs_freereg) (\<lambda>fr. sbind (getcode e) (\<lambda>i.
            sthen (set_code (einfo e) (SETARG_A i fr)) (luaK_reserveregs 1)))))
      else sret ())"

definition luaK_setoneret :: "expdesc \<Rightarrow> ('s, expdesc) cg" where
  "luaK_setoneret e =
     (if ek e = VCALL then
        sbind (getcode e) (\<lambda>i. sret (e\<lparr>ek := VNONRELOC, einfo := GETARG_A i\<rparr>))
      else if ek e = VVARARG then
        sbind (getcode e) (\<lambda>i. sthen (set_code (einfo e) (SETARG_B i 2)) (sret (e\<lparr>ek := VRELOCABLE\<rparr>)))
      else sret e)"

definition luaK_dischargevars :: "expdesc \<Rightarrow> ('s, expdesc) cg" where
  "luaK_dischargevars e =
     (case ek e of
        VLOCAL \<Rightarrow> sret (e\<lparr>ek := VNONRELOC\<rparr>)
      | VUPVAL \<Rightarrow>
          sbind (luaK_codeABC OP_GETUPVAL 0 (einfo e) 0) (\<lambda>pc. sret (e\<lparr>einfo := pc, ek := VRELOCABLE\<rparr>))
      | VGLOBAL \<Rightarrow>
          sbind (luaK_codeABx OP_GETGLOBAL 0 (einfo e)) (\<lambda>pc. sret (e\<lparr>einfo := pc, ek := VRELOCABLE\<rparr>))
      | VINDEXED \<Rightarrow>
          sthen (freereg (eaux e)) (sthen (freereg (einfo e))
            (sbind (luaK_codeABC OP_GETTABLE 0 (einfo e) (eaux e)) (\<lambda>pc.
              sret (e\<lparr>einfo := pc, ek := VRELOCABLE\<rparr>))))
      | VVARARG \<Rightarrow> luaK_setoneret e
      | VCALL \<Rightarrow> luaK_setoneret e
      | _ \<Rightarrow> sret e)"

definition code_label :: "int \<Rightarrow> int \<Rightarrow> int \<Rightarrow> ('s, int) cg" where
  "code_label a b jmp = sthen luaK_getlabel (luaK_codeABC OP_LOADBOOL a b jmp)"

definition discharge2reg :: "expdesc \<Rightarrow> int \<Rightarrow> ('s, expdesc) cg" where
  "discharge2reg e0 reg =
     sbind (luaK_dischargevars e0) (\<lambda>e.
       let in_reg = e\<lparr>einfo := reg, ek := VNONRELOC\<rparr>
       in case ek e of
            VNIL \<Rightarrow> sthen (luaK_nil reg 1) (sret in_reg)
          | VFALSE \<Rightarrow> sthen (luaK_codeABC OP_LOADBOOL reg 0 0) (sret in_reg)
          | VTRUE \<Rightarrow> sthen (luaK_codeABC OP_LOADBOOL reg 1 0) (sret in_reg)
          | VK \<Rightarrow> sthen (luaK_codeABx OP_LOADK reg (einfo e)) (sret in_reg)
          | VKNUM \<Rightarrow>
              sbind (luaK_numberK (enval e)) (\<lambda>k. sthen (luaK_codeABx OP_LOADK reg k) (sret in_reg))
          | VRELOCABLE \<Rightarrow>
              sbind (getcode e) (\<lambda>i. sthen (set_code (einfo e) (SETARG_A i reg)) (sret in_reg))
          | VNONRELOC \<Rightarrow>
              (if reg \<noteq> einfo e then sthen (luaK_codeABC OP_MOVE reg (einfo e) 0) (sret in_reg)
               else sret in_reg)
          | _ \<Rightarrow> sret e)"

definition discharge2anyreg :: "expdesc \<Rightarrow> ('s, expdesc) cg" where
  "discharge2anyreg e =
     (if ek e \<noteq> VNONRELOC then
        sthen (luaK_reserveregs 1) (sbind (sget fs_freereg) (\<lambda>fr. discharge2reg e (fr - 1)))
      else sret e)"

text \<open>The part of \<open>exp2reg\<close> that gives the jumps of a condition their values.\<close>

definition exp2reg_values :: "expdesc \<Rightarrow> int \<Rightarrow> ('s, int \<times> int) cg" where
  "exp2reg_values e reg =
     sbind (need_value (et e)) (\<lambda>nt. sbind (if nt then sret True else need_value (ef e)) (\<lambda>nv.
       if nv then
         sbind (if ek e = VJMP then sret NO_JUMP else luaK_jump) (\<lambda>fj.
         sbind (code_label reg 0 1) (\<lambda>p_f. sbind (code_label reg 1 0) (\<lambda>p_t.
           sthen (luaK_patchtohere fj) (sret (p_f, p_t)))))
       else sret (NO_JUMP, NO_JUMP)))"

definition exp2reg :: "expdesc \<Rightarrow> int \<Rightarrow> ('s, expdesc) cg" where
  "exp2reg e0 reg =
     sbind (discharge2reg e0 reg) (\<lambda>e1.
     sbind (if ek e1 = VJMP then sbind (luaK_concat (et e1) (einfo e1)) (\<lambda>t. sret (e1\<lparr>et := t\<rparr>))
            else sret e1) (\<lambda>e.
     sthen (if hasjumps e then
              sbind (exp2reg_values e reg) (\<lambda>(p_f, p_t).
              sbind luaK_getlabel (\<lambda>final.
                sthen (patchlistaux (ef e) final reg p_f) (patchlistaux (et e) final reg p_t)))
            else sret ())
       (sret (e\<lparr>ef := NO_JUMP, et := NO_JUMP, einfo := reg, ek := VNONRELOC\<rparr>))))"

definition luaK_exp2nextreg :: "expdesc \<Rightarrow> ('s, expdesc) cg" where
  "luaK_exp2nextreg e0 =
     sbind (luaK_dischargevars e0) (\<lambda>e. sthen (freeexp e) (sthen (luaK_reserveregs 1)
       (sbind (sget fs_freereg) (\<lambda>fr. exp2reg e (fr - 1)))))"

definition luaK_exp2anyreg :: "expdesc \<Rightarrow> ('s, expdesc) cg" where
  "luaK_exp2anyreg e0 =
     sbind (luaK_dischargevars e0) (\<lambda>e. sbind (sget fs_nactvar) (\<lambda>nactvar.
       if ek e = VNONRELOC \<and> \<not> hasjumps e then sret e
       else if ek e = VNONRELOC \<and> nactvar \<le> einfo e then exp2reg e (einfo e)
       else luaK_exp2nextreg e))"

definition luaK_exp2val :: "expdesc \<Rightarrow> ('s, expdesc) cg" where
  "luaK_exp2val e = (if hasjumps e then luaK_exp2anyreg e else luaK_dischargevars e)"

definition exp2k :: "expdesc \<Rightarrow> ('s, int) cg" where
  "exp2k e =
     (case ek e of VNIL \<Rightarrow> nilK | VKNUM \<Rightarrow> luaK_numberK (enval e) | _ \<Rightarrow> boolK (ek e = VTRUE))"

text \<open>\<open>luaK_exp2RK\<close> returns the operand and the updated expression.\<close>

definition luaK_exp2RK :: "expdesc \<Rightarrow> ('s, int \<times> expdesc) cg" where
  "luaK_exp2RK e0 =
     sbind (luaK_exp2val e0) (\<lambda>e.
       let in_reg = sbind (luaK_exp2anyreg e) (\<lambda>e'. sret (einfo e', e'))
       in if ek e \<in> {VKNUM, VTRUE, VFALSE, VNIL} then
            sbind (sget fs_nk) (\<lambda>nk.
              if nk \<le> MAXINDEXRK then
                sbind (exp2k e) (\<lambda>k. sret (RKASK k, e\<lparr>einfo := k, ek := VK\<rparr>))
              else in_reg)
          else if ek e = VK \<and> einfo e \<le> MAXINDEXRK then sret (RKASK (einfo e), e)
          else in_reg)"

section \<open>Stores, calls and conditions\<close>

definition luaK_storevar :: "expdesc \<Rightarrow> expdesc \<Rightarrow> ('s, unit) cg" where
  "luaK_storevar var ex =
     (case ek var of
        VLOCAL \<Rightarrow> sthen (freeexp ex) (sthen (exp2reg ex (einfo var)) (sret ()))
      | VUPVAL \<Rightarrow>
          sbind (luaK_exp2anyreg ex) (\<lambda>ex'.
            sthen (luaK_codeABC OP_SETUPVAL (einfo ex') (einfo var) 0) (freeexp ex'))
      | VGLOBAL \<Rightarrow>
          sbind (luaK_exp2anyreg ex) (\<lambda>ex'.
            sthen (luaK_codeABx OP_SETGLOBAL (einfo ex') (einfo var)) (freeexp ex'))
      | VINDEXED \<Rightarrow>
          sbind (luaK_exp2RK ex) (\<lambda>(e, ex').
            sthen (luaK_codeABC OP_SETTABLE (einfo var) (eaux var) e) (freeexp ex'))
      | _ \<Rightarrow> freeexp ex)"

definition luaK_self :: "expdesc \<Rightarrow> expdesc \<Rightarrow> ('s, expdesc) cg" where
  "luaK_self e0 key =
     sbind (luaK_exp2anyreg e0) (\<lambda>e. sthen (freeexp e) (sbind (sget fs_freereg) (\<lambda>func.
       sthen (luaK_reserveregs 2) (sbind (luaK_exp2RK key) (\<lambda>(k, key').
         sthen (luaK_codeABC OP_SELF func (einfo e) k) (sthen (freeexp key')
           (sret (e\<lparr>einfo := func, ek := VNONRELOC\<rparr>))))))))"

definition invertjump :: "expdesc \<Rightarrow> ('s, unit) cg" where
  "invertjump e =
     sbind (getjumpcontrol (einfo e)) (\<lambda>p. sbind (code_at p) (\<lambda>i.
       set_code p (SETARG_A i (if GETARG_A i = 0 then 1 else 0))))"

definition jumponcond :: "expdesc \<Rightarrow> int \<Rightarrow> ('s, int) cg" where
  "jumponcond e0 cond =
     (let in_reg =
            sbind (discharge2anyreg e0) (\<lambda>e. sthen (freeexp e)
              (condjump OP_TESTSET NO_REG (einfo e) cond))
      in if ek e0 = VRELOCABLE then
           sbind (getcode e0) (\<lambda>ie.
             if is_op OP_NOT ie then
               sthen (supd (\<lambda>fs. fs\<lparr>fs_pc := fs_pc fs - 1\<rparr>))
                 (condjump OP_TEST (GETARG_B ie) 0 (if cond = 0 then 1 else 0))
             else in_reg)
         else in_reg)"

definition luaK_goiftrue :: "expdesc \<Rightarrow> ('s, expdesc) cg" where
  "luaK_goiftrue e0 =
     sbind (luaK_dischargevars e0) (\<lambda>e.
     sbind (case ek e of
              VK \<Rightarrow> sret NO_JUMP
            | VKNUM \<Rightarrow> sret NO_JUMP
            | VTRUE \<Rightarrow> sret NO_JUMP
            | VFALSE \<Rightarrow> luaK_jump
            | VJMP \<Rightarrow> sthen (invertjump e) (sret (einfo e))
            | _ \<Rightarrow> jumponcond e 0) (\<lambda>pc.
     sbind (luaK_concat (ef e) pc) (\<lambda>f.
       sthen (luaK_patchtohere (et e)) (sret (e\<lparr>ef := f, et := NO_JUMP\<rparr>)))))"

definition luaK_goiffalse :: "expdesc \<Rightarrow> ('s, expdesc) cg" where
  "luaK_goiffalse e0 =
     sbind (luaK_dischargevars e0) (\<lambda>e.
     sbind (case ek e of
              VNIL \<Rightarrow> sret NO_JUMP
            | VFALSE \<Rightarrow> sret NO_JUMP
            | VTRUE \<Rightarrow> luaK_jump
            | VJMP \<Rightarrow> sret (einfo e)
            | _ \<Rightarrow> jumponcond e 1) (\<lambda>pc.
     sbind (luaK_concat (et e) pc) (\<lambda>t.
       sthen (luaK_patchtohere (ef e)) (sret (e\<lparr>et := t, ef := NO_JUMP\<rparr>)))))"

definition codenot :: "expdesc \<Rightarrow> ('s, expdesc) cg" where
  "codenot e0 =
     sbind (luaK_dischargevars e0) (\<lambda>e1.
     sbind (case ek e1 of
              VNIL \<Rightarrow> sret (e1\<lparr>ek := VTRUE\<rparr>)
            | VFALSE \<Rightarrow> sret (e1\<lparr>ek := VTRUE\<rparr>)
            | VK \<Rightarrow> sret (e1\<lparr>ek := VFALSE\<rparr>)
            | VKNUM \<Rightarrow> sret (e1\<lparr>ek := VFALSE\<rparr>)
            | VTRUE \<Rightarrow> sret (e1\<lparr>ek := VFALSE\<rparr>)
            | VJMP \<Rightarrow> sthen (invertjump e1) (sret e1)
            | VRELOCABLE \<Rightarrow>
                sbind (discharge2anyreg e1) (\<lambda>e2. sthen (freeexp e2)
                  (sbind (luaK_codeABC OP_NOT 0 (einfo e2) 0) (\<lambda>pc.
                    sret (e2\<lparr>einfo := pc, ek := VRELOCABLE\<rparr>))))
            | VNONRELOC \<Rightarrow>
                sbind (discharge2anyreg e1) (\<lambda>e2. sthen (freeexp e2)
                  (sbind (luaK_codeABC OP_NOT 0 (einfo e2) 0) (\<lambda>pc.
                    sret (e2\<lparr>einfo := pc, ek := VRELOCABLE\<rparr>))))
            | _ \<Rightarrow> sret e1) (\<lambda>e.
       let e' = e\<lparr>ef := et e, et := ef e\<rparr>
       in sthen (removevalues (ef e')) (sthen (removevalues (et e')) (sret e'))))"

definition luaK_indexed :: "expdesc \<Rightarrow> expdesc \<Rightarrow> ('s, expdesc) cg" where
  "luaK_indexed t k = sbind (luaK_exp2RK k) (\<lambda>(rk, _). sret (t\<lparr>eaux := rk, ek := VINDEXED\<rparr>))"

section \<open>Operators\<close>

text \<open>\<open>constfolding\<close>: the folded number, or None when the operation stays in the code.\<close>

definition fold_value :: "(lua_Number \<Rightarrow> lua_Number \<Rightarrow> lua_Number) \<Rightarrow> OpCode \<Rightarrow> lua_Number \<Rightarrow> lua_Number \<Rightarrow> lua_Number" where
  "fold_value pw opc v1 v2 =
     (case opc of
        OP_ADD \<Rightarrow> luai_numadd v1 v2
      | OP_SUB \<Rightarrow> luai_numsub v1 v2
      | OP_MUL \<Rightarrow> luai_nummul v1 v2
      | OP_DIV \<Rightarrow> luai_numdiv v1 v2
      | OP_MOD \<Rightarrow> luai_nummod v1 v2
      | OP_POW \<Rightarrow> pw v1 v2
      | OP_UNM \<Rightarrow> luai_numunm v1
      | _ \<Rightarrow> cast_num 0)"

definition constfolding :: "(lua_Number \<Rightarrow> lua_Number \<Rightarrow> lua_Number) \<Rightarrow> OpCode \<Rightarrow> expdesc \<Rightarrow> expdesc \<Rightarrow> lua_Number option" where
  "constfolding pw opc e1 e2 =
     (if \<not> isnumeral e1 \<or> \<not> isnumeral e2 then None
      else if opc \<in> {OP_DIV, OP_MOD} \<and> luai_numeq (enval e2) (cast_num 0) then None
      else if opc = OP_LEN then None
      else (let r = fold_value pw opc (enval e1) (enval e2)
            in if luai_numisnan r then None else Some r))"

definition codearith :: "OpCode \<Rightarrow> expdesc \<Rightarrow> expdesc \<Rightarrow> ('s, expdesc) cg" where
  "codearith opc e1 e2 =
     sbind (sget fs_pow) (\<lambda>pw.
       case constfolding pw opc e1 e2 of
         Some r \<Rightarrow> sret (e1\<lparr>enval := r\<rparr>)
       | None \<Rightarrow>
           sbind (if opc \<noteq> OP_UNM \<and> opc \<noteq> OP_LEN then luaK_exp2RK e2 else sret (0, e2)) (\<lambda>(o2, e2').
           sbind (luaK_exp2RK e1) (\<lambda>(o1, e1').
           sthen (if o2 < o1 then sthen (freeexp e1') (freeexp e2') else sthen (freeexp e2') (freeexp e1'))
             (sbind (luaK_codeABC opc 0 o1 o2) (\<lambda>pc. sret (e1'\<lparr>einfo := pc, ek := VRELOCABLE\<rparr>))))))"

definition codecomp :: "OpCode \<Rightarrow> int \<Rightarrow> expdesc \<Rightarrow> expdesc \<Rightarrow> ('s, expdesc) cg" where
  "codecomp opc cond e1 e2 =
     sbind (luaK_exp2RK e1) (\<lambda>(o1, e1'). sbind (luaK_exp2RK e2) (\<lambda>(o2, e2').
       sthen (freeexp e2') (sthen (freeexp e1')
         (sbind (if cond = 0 \<and> opc \<noteq> OP_EQ then condjump opc 1 o2 o1 else condjump opc cond o1 o2) (\<lambda>pc.
           sret (e1'\<lparr>einfo := pc, ek := VJMP\<rparr>))))))"

definition zero_exp :: expdesc where
  "zero_exp = \<lparr>ek = VKNUM, einfo = 0, eaux = 0, enval = cast_num 0, et = NO_JUMP, ef = NO_JUMP\<rparr>"

definition luaK_prefix :: "UnOpr \<Rightarrow> expdesc \<Rightarrow> ('s, expdesc) cg" where
  "luaK_prefix opr e =
     (case opr of
        OPR_MINUS \<Rightarrow>
          sbind (if isnumeral e then sret e else luaK_exp2anyreg e) (\<lambda>e'. codearith OP_UNM e' zero_exp)
      | OPR_NOT \<Rightarrow> codenot e
      | OPR_LEN \<Rightarrow> sbind (luaK_exp2anyreg e) (\<lambda>e'. codearith OP_LEN e' zero_exp)
      | OPR_NOUNOPR \<Rightarrow> sret e)"

definition luaK_infix :: "BinOpr \<Rightarrow> expdesc \<Rightarrow> ('s, expdesc) cg" where
  "luaK_infix opr v =
     (if opr = OPR_AND then luaK_goiftrue v
      else if opr = OPR_OR then luaK_goiffalse v
      else if opr = OPR_CONCAT then luaK_exp2nextreg v
      else if opr \<in> {OPR_ADD, OPR_SUB, OPR_MUL, OPR_DIV, OPR_MOD, OPR_POW} \<and> isnumeral v then sret v
      else sbind (luaK_exp2RK v) (\<lambda>(_, v'). sret v'))"

definition posfix_concat :: "expdesc \<Rightarrow> expdesc \<Rightarrow> ('s, expdesc) cg" where
  "posfix_concat e1 e20 =
     sbind (luaK_exp2val e20) (\<lambda>e2.
       let new_op = sbind (luaK_exp2nextreg e2) (\<lambda>e2'. codearith OP_CONCAT e1 e2')
       in if ek e2 = VRELOCABLE then
            sbind (getcode e2) (\<lambda>i.
              if is_op OP_CONCAT i then
                sthen (freeexp e1) (sthen (set_code (einfo e2) (SETARG_B i (einfo e1)))
                  (sret (e1\<lparr>ek := VRELOCABLE, einfo := einfo e2\<rparr>)))
              else new_op)
          else new_op)"

definition luaK_posfix :: "BinOpr \<Rightarrow> expdesc \<Rightarrow> expdesc \<Rightarrow> ('s, expdesc) cg" where
  "luaK_posfix opr e1 e2 =
     (case opr of
        OPR_AND \<Rightarrow>
          sbind (luaK_dischargevars e2) (\<lambda>e2'. sbind (luaK_concat (ef e2') (ef e1)) (\<lambda>f. sret (e2'\<lparr>ef := f\<rparr>)))
      | OPR_OR \<Rightarrow>
          sbind (luaK_dischargevars e2) (\<lambda>e2'. sbind (luaK_concat (et e2') (et e1)) (\<lambda>t. sret (e2'\<lparr>et := t\<rparr>)))
      | OPR_CONCAT \<Rightarrow> posfix_concat e1 e2
      | OPR_ADD \<Rightarrow> codearith OP_ADD e1 e2
      | OPR_SUB \<Rightarrow> codearith OP_SUB e1 e2
      | OPR_MUL \<Rightarrow> codearith OP_MUL e1 e2
      | OPR_DIV \<Rightarrow> codearith OP_DIV e1 e2
      | OPR_MOD \<Rightarrow> codearith OP_MOD e1 e2
      | OPR_POW \<Rightarrow> codearith OP_POW e1 e2
      | OPR_EQ \<Rightarrow> codecomp OP_EQ 1 e1 e2
      | OPR_NE \<Rightarrow> codecomp OP_EQ 0 e1 e2
      | OPR_LT \<Rightarrow> codecomp OP_LT 1 e1 e2
      | OPR_LE \<Rightarrow> codecomp OP_LE 1 e1 e2
      | OPR_GT \<Rightarrow> codecomp OP_LT 0 e1 e2
      | OPR_GE \<Rightarrow> codecomp OP_LE 0 e1 e2
      | OPR_NOBINOPR \<Rightarrow> sret e1)"

text \<open>C division truncates.\<close>

definition c_div :: "int \<Rightarrow> int \<Rightarrow> int" where
  "c_div a b = sgn a * sgn b * (\<bar>a\<bar> div \<bar>b\<bar>)"

definition luaK_setlist :: "int \<Rightarrow> int \<Rightarrow> int \<Rightarrow> ('s, unit) cg" where
  "luaK_setlist base nelems tostore =
     (let c = c_div (nelems - 1) LFIELDS_PER_FLUSH + 1;
          b = (if tostore = LUA_MULTRET then 0 else tostore)
      in sthen (if c \<le> MAXARG_C then sthen (luaK_codeABC OP_SETLIST base b c) (sret ())
                else sthen (luaK_codeABC OP_SETLIST base b 0)
                  (sbind (sget fs_lastline) (\<lambda>line. sthen (luaK_code (word_of_int c) line) (sret ()))))
           (supd (\<lambda>fs. fs\<lparr>fs_freereg := base + 1\<rparr>)))"

end
