(* ===== verification/LCodeProps.thy ===== *)
theory LCodeProps
  imports LCode LTableSpec
begin

text \<open>
  The code generator against what it is for. A jump list is threaded through the code by the
  displacements of its jumps: \<open>jumps C l ps\<close> reads it off. \<open>luaK_concat\<close> appends lists,
  \<open>patchlistaux\<close> sends every jump of a list to its target and touches nothing else.
\<close>

section \<open>Jump lists\<close>

definition jump_next :: "Instruction list \<Rightarrow> int \<Rightarrow> int" where
  "jump_next C p = (let offset = GETARG_sBx (C ! nat p) in if offset = NO_JUMP then NO_JUMP else p + 1 + offset)"

fun jumps :: "Instruction list \<Rightarrow> int \<Rightarrow> int list \<Rightarrow> bool" where
  "jumps C l [] \<longleftrightarrow> l = NO_JUMP"
| "jumps C l (p # ps) \<longleftrightarrow> l = p \<and> 0 \<le> p \<and> p < int (length C) \<and> jumps C (jump_next C p) ps"

lemma jumps_range: "jumps C l ps \<Longrightarrow> p \<in> set ps \<Longrightarrow> 0 \<le> p \<and> p < int (length C)"
  by (induction ps arbitrary: l) auto

lemma jumps_unique: "jumps C l ps \<Longrightarrow> jumps C l qs \<Longrightarrow> ps = qs"
proof (induction ps arbitrary: l qs)
  case Nil
  then show ?case by (cases qs) (auto simp: NO_JUMP_def)
next
  case (Cons p ps)
  then show ?case by (cases qs) (auto simp: NO_JUMP_def)
qed

lemma jumps_suffix: "jumps C l (ps @ q # qs) \<Longrightarrow> jumps C q (q # qs)"
  by (induction ps arbitrary: l) auto

lemma jumps_distinct: "jumps C l ps \<Longrightarrow> distinct ps"
proof (induction ps arbitrary: l)
  case (Cons p ps)
  have "p \<notin> set ps"
  proof
    assume "p \<in> set ps"
    then obtain xs ys where ps: "ps = xs @ p # ys" by (meson split_list)
    have "jumps C p (p # ys)" using Cons.prems ps jumps_suffix [of C "jump_next C p" xs p ys] by (simp only: jumps.simps)
    moreover have "jumps C p (p # ps)" using Cons.prems by simp
    ultimately show False using jumps_unique [of C p "p # ys" "p # ps"] ps by simp
  qed
  then show ?case using Cons by auto
qed simp

lemma jumps_length: "jumps C l ps \<Longrightarrow> length ps \<le> length C"
proof -
  assume j: "jumps C l ps"
  have "inj_on nat (set ps)" using jumps_range [OF j] by (metis inj_onI nat_0_le)
  then have "length ps = card (nat ` set ps)" using jumps_distinct [OF j] by (simp add: card_image distinct_card)
  also have "\<dots> \<le> card {..<length C}" using jumps_range [OF j] by (intro card_mono) (auto simp: nat_less_iff)
  finally show ?thesis by simp
qed

lemma jumps_cong:
  "jumps C l ps \<Longrightarrow> length C' = length C \<Longrightarrow> (\<And>p. p \<in> set ps \<Longrightarrow> GETARG_sBx (C' ! nat p) = GETARG_sBx (C ! nat p)) \<Longrightarrow>
    jumps C' l ps"
  by (induction ps arbitrary: l) (auto simp: jump_next_def Let_def)

lemma getjump_eq: "0 \<le> p \<Longrightarrow> p < int (length (fs_code fs)) \<Longrightarrow> getjump p fs = Inr (jump_next (fs_code fs) p, fs)"
  by (simp add: getjump_def code_at_def sbind_def jump_next_def Let_def)

lemma last_jump_eq:
  "jumps (fs_code fs) l ps \<Longrightarrow> ps \<noteq> [] \<Longrightarrow> length ps \<le> n \<Longrightarrow> last_jump n l fs = Inr (last ps, fs)"
proof (induction ps arbitrary: l n)
  case (Cons p ps)
  then obtain k where k: "n = Suc k" by (cases n) auto
  show ?case
  proof (cases ps)
    case Nil
    then show ?thesis using Cons.prems by (simp add: k sbind_def getjump_eq)
  next
    case (Cons q qs)
    then have "jump_next (fs_code fs) p \<noteq> NO_JUMP" using Cons.prems by (auto simp: NO_JUMP_def)
    then show ?thesis using Cons.IH Cons.prems Cons k by (simp add: sbind_def getjump_eq)
  qed
qed simp

text \<open>\<open>fixjump\<close> writes a displacement, or fails when it does not fit in the instruction.\<close>

definition fits :: "int \<Rightarrow> int \<Rightarrow> bool" where
  "fits pc dest \<longleftrightarrow> \<bar>dest - (pc + 1)\<bar> \<le> MAXARG_sBx"

definition jump_word :: "Instruction \<Rightarrow> int \<Rightarrow> int \<Rightarrow> Instruction" where
  "jump_word i pc dest = SETARG_sBx i (dest - (pc + 1))"

lemma fixjump_eq:
  "0 \<le> p \<Longrightarrow> p < int (length (fs_code fs)) \<Longrightarrow>
    fixjump p dest fs = (if fits p dest then Inr ((), fs\<lparr>fs_code := (fs_code fs)[nat p := jump_word (fs_code fs ! nat p) p dest]\<rparr>)
      else Inl (ErrSyntax ''control structure too long''))"
  by (simp add: fixjump_def code_at_def set_code_def sbind_def fits_def jump_word_def Let_def)

lemma sBx_get_set:
  "\<bar>b\<bar> \<le> MAXARG_sBx \<Longrightarrow> GETARG_sBx (SETARG_sBx i b) = b"
proof -
  assume b: "\<bar>b\<bar> \<le> MAXARG_sBx"
  then have "GETARG_Bx (SETARG_Bx i (b + MAXARG_sBx)) = b + MAXARG_sBx"
    unfolding GETARG_Bx_def SETARG_Bx_def
    by (subst get_set_same) (simp_all add: field_layout MAXARG_sBx_def MAXARG_Bx_def uint_take_bit_word del: of_int_add)
  then show "GETARG_sBx (SETARG_sBx i b) = b" by (simp add: GETARG_sBx_def SETARG_sBx_def)
qed

lemma jump_next_word:
  assumes "fits p dest" and "0 \<le> p" "p < int (length C)" and "dest \<noteq> p"
  shows "jump_next (C[nat p := jump_word i p dest]) p = dest"
  using assms by (simp add: jump_next_def jump_word_def fits_def sBx_get_set NO_JUMP_def)

text \<open>Appending a list to the last jump of another.\<close>

lemma jumps_append:
  assumes "jumps C l (ps @ [p])" and "jumps C q qs" and "qs \<noteq> []" and "set (ps @ [p]) \<inter> set qs = {}" and "fits p q"
  shows "jumps (C[nat p := jump_word i p q]) l (ps @ p # qs)"
  using assms
proof (induction ps arbitrary: l)
  case Nil
  have p: "0 \<le> p" "p < int (length C)" "l = p" using Nil(1) by auto
  have q: "q \<in> set qs" using Nil(2,3) by (cases qs) auto
  have ne: "nat r \<noteq> nat p" if "r \<in> set qs" for r
    using jumps_range [OF Nil(2) that] p Nil(4) that by (metis disjoint_iff list.set_intros(1) nat_eq_iff2 append_Nil)
  have "jumps (C[nat p := jump_word i p q]) q qs"
    by (rule jumps_cong [OF Nil(2)]) (use ne in \<open>auto simp: nth_list_update_neq dest!: ne [symmetric]\<close>)
  moreover have "jump_next (C[nat p := jump_word i p q]) p = q"
    by (rule jump_next_word) (use p q Nil(4,5) in auto)
  ultimately show ?case using p by simp
next
  case (Cons x xs)
  have d: "distinct (x # xs @ [p])" using jumps_distinct Cons.prems(1) by (metis append_Cons)
  have x: "0 \<le> x" "x < int (length C)" "l = x" "0 \<le> p" using Cons.prems(1) jumps_range [OF Cons.prems(1), of p] by auto
  then have "nat x \<noteq> nat p" using d by (auto simp: nat_eq_iff)
  then have "jump_next (C[nat p := jump_word i p q]) x = jump_next C x" by (simp add: jump_next_def)
  then show ?case using Cons.IH [of "jump_next C x"] Cons.prems x by simp
qed

lemma concat_eq:
  assumes l1: "jumps (fs_code fs) l1 ps" and l2: "jumps (fs_code fs) l2 qs" and disj: "set ps \<inter> set qs = {}"
  shows "case luaK_concat l1 l2 fs of
      Inl e \<Rightarrow> e = ErrSyntax ''control structure too long'' \<and> ps \<noteq> [] \<and> qs \<noteq> [] \<and> \<not> fits (last ps) l2
    | Inr (l, fs') \<Rightarrow> jumps (fs_code fs') l (ps @ qs) \<and> length (fs_code fs') = length (fs_code fs) \<and>
        fs' = fs\<lparr>fs_code := fs_code fs'\<rparr> \<and>
        (\<forall>i < length (fs_code fs). int i \<noteq> last ps \<longrightarrow> fs_code fs' ! i = fs_code fs ! i)"
proof (cases "l2 = NO_JUMP \<or> l1 = NO_JUMP")
  case True
  then show ?thesis
  proof
    assume "l2 = NO_JUMP"
    then have "qs = []" using l2 by (cases qs) (auto simp: NO_JUMP_def)
    then show ?thesis using \<open>l2 = NO_JUMP\<close> l1 by (simp add: luaK_concat_def)
  next
    assume "l1 = NO_JUMP"
    then have "ps = []" using l1 by (cases ps) (auto simp: NO_JUMP_def)
    then show ?thesis using \<open>l1 = NO_JUMP\<close> l1 l2 by (auto simp: luaK_concat_def NO_JUMP_def)
  qed
next
  case False
  then have ne: "ps \<noteq> []" "qs \<noteq> []" using l1 l2 by auto
  define p where "p = last ps"
  obtain xs where ps: "ps = xs @ [p]" using ne(1) by (metis append_butlast_last_id p_def)
  have p: "0 \<le> p" "p < int (length (fs_code fs))" using jumps_range [OF l1, of p] ps by auto
  have last: "last_jump (list_fuel fs) l1 fs = Inr (p, fs)"
    using last_jump_eq [OF l1 ne(1), of "list_fuel fs"] jumps_length [OF l1] by (simp add: list_fuel_def p_def)
  show ?thesis
  proof (cases "fits p l2")
    case True
    have "jumps ((fs_code fs)[nat p := jump_word (fs_code fs ! nat p) p l2]) l1 (xs @ p # qs)"
      by (rule jumps_append) (use l1 l2 ne disj True ps in auto)
    then show ?thesis
      using False True last fixjump_eq [OF p, of l2] p ps by (auto simp: luaK_concat_def sbind_def nat_eq_iff)
  next
    case notfits: False
    then show ?thesis using False last fixjump_eq [OF p, of l2] ne p_def by (simp add: luaK_concat_def sbind_def)
  qed
qed

section \<open>Patching a list\<close>

text \<open>The jump at \<open>p\<close> belongs to a test that also produces a value.\<close>

definition has_testset :: "Instruction list \<Rightarrow> int \<Rightarrow> bool" where
  "has_testset C p \<longleftrightarrow> 1 \<le> p \<and> is_op OP_TESTSET (C ! nat (p - 1))"

definition patch_test :: "int \<Rightarrow> Instruction \<Rightarrow> Instruction" where
  "patch_test reg i =
     (if reg \<noteq> NO_REG \<and> reg \<noteq> GETARG_B i then SETARG_A i reg
      else CREATE_ABC (op_num OP_TEST) (GETARG_B i) 0 (GETARG_C i))"

text \<open>The word at position \<open>i\<close> after patching the jumps \<open>ps\<close>.\<close>

definition patched :: "Instruction list \<Rightarrow> int set \<Rightarrow> int \<Rightarrow> int \<Rightarrow> int \<Rightarrow> nat \<Rightarrow> Instruction" where
  "patched C ps v reg d i =
     (if int i \<in> ps then jump_word (C ! i) (int i) (if has_testset C (int i) then v else d)
      else if int i + 1 \<in> ps \<and> is_op OP_TESTSET (C ! i) then patch_test reg (C ! i)
      else C ! i)"

text \<open>A list of \<open>OP_JMP\<close> instructions, each preceded by a word with an opcode of the table.\<close>

definition jmp_list :: "Instruction list \<Rightarrow> int \<Rightarrow> int list \<Rightarrow> bool" where
  "jmp_list C l ps \<longleftrightarrow> jumps C l ps \<and>
     (\<forall>p \<in> set ps. is_op OP_JMP (C ! nat p) \<and> (1 \<le> p \<longrightarrow> OpCode_of (GET_OPCODE (C ! nat (p - 1))) \<noteq> None))"

lemma opcode_jump_word [simp]: "GET_OPCODE (jump_word i p d) = GET_OPCODE i"
  unfolding jump_word_def SETARG_sBx_def SETARG_Bx_def GET_OPCODE_def
  by (subst get_set_other) (simp_all add: field_layout)

lemma is_op_jump_word [simp]: "is_op op (jump_word i p d) = is_op op i"
  by (simp add: is_op_def)

lemma is_op_unique: "is_op a i \<Longrightarrow> is_op b i \<Longrightarrow> a = b"
  by (metis is_op_OpCode option.inject)

lemma code_access [simp]:
  "0 \<le> p \<Longrightarrow> p < int (length (fs_code fs)) \<Longrightarrow> code_at p fs = Inr (fs_code fs ! nat p, fs)"
  "0 \<le> p \<Longrightarrow> p < int (length (fs_code fs)) \<Longrightarrow> set_code p i fs = Inr ((), fs\<lparr>fs_code := (fs_code fs)[nat p := i]\<rparr>)"
  by (simp_all add: code_at_def set_code_def)

lemma patchtestreg_at:
  assumes "getjumpcontrol p fs = Inr (q, fs)" and "0 \<le> q" "q < int (length (fs_code fs))"
  shows "patchtestreg p reg fs =
    (if is_op OP_TESTSET (fs_code fs ! nat q)
     then Inr (True, fs\<lparr>fs_code := (fs_code fs)[nat q := patch_test reg (fs_code fs ! nat q)]\<rparr>) else Inr (False, fs))"
  using assms by (simp add: patchtestreg_def patch_test_def sbind_simps)

lemma patchtestreg_eq:
  assumes p: "0 \<le> p" "p < int (length (fs_code fs))" and jmp: "is_op OP_JMP (fs_code fs ! nat p)"
    and control: "1 \<le> p \<longrightarrow> OpCode_of (GET_OPCODE (fs_code fs ! nat (p - 1))) \<noteq> None"
  shows "patchtestreg p reg fs =
    (if has_testset (fs_code fs) p
     then Inr (True, fs\<lparr>fs_code := (fs_code fs)[nat (p - 1) := patch_test reg (fs_code fs ! nat (p - 1))]\<rparr>) else Inr (False, fs))"
proof -
  have nt: "\<not> is_op OP_TESTSET (fs_code fs ! nat p)" using jmp is_op_unique by blast
  show ?thesis
  proof (cases "1 \<le> p")
    case True
    then obtain op where op: "OpCode_of (GET_OPCODE (fs_code fs ! nat (p - 1))) = Some op" using control by auto
    have ts: "is_op OP_TESTSET (fs_code fs ! nat (p - 1)) \<longleftrightarrow> op = OP_TESTSET"
      using is_op_iff [OF op] by auto
    have "getjumpcontrol p fs = Inr (if testTMode op then p - 1 else p, fs)"
      using True p op by (simp add: getjumpcontrol_def test_mode_def sbind_simps)
    from patchtestreg_at [OF this] show ?thesis
      using True p ts nt by (cases "testTMode op") (auto simp: has_testset_def testTMode_eq)
  next
    case False
    then have "getjumpcontrol p fs = Inr (p, fs)" by (simp add: getjumpcontrol_def)
    from patchtestreg_at [OF this] show ?thesis using p nt False by (simp add: has_testset_def)
  qed
qed

text \<open>One round of the loop: the words after the jump at \<open>p\<close> is patched.\<close>

definition patch_one :: "Instruction list \<Rightarrow> int \<Rightarrow> int \<Rightarrow> int \<Rightarrow> int \<Rightarrow> Instruction list" where
  "patch_one C p v reg d =
     (let C1 = (if has_testset C p then C[nat (p - 1) := patch_test reg (C ! nat (p - 1))] else C)
      in C1[nat p := jump_word (C ! nat p) p (if has_testset C p then v else d)])"

lemma length_patch_one [simp]: "length (patch_one C p v reg d) = length C"
  by (simp add: patch_one_def Let_def)

lemma nth_patch_one:
  assumes "0 \<le> p" "p < int (length C)" and "i < length C"
  shows "patch_one C p v reg d ! i =
    (if int i = p then jump_word (C ! i) p (if has_testset C p then v else d)
     else if int i + 1 = p \<and> is_op OP_TESTSET (C ! i) then patch_test reg (C ! i) else C ! i)"
proof -
  have "nat p = i \<longleftrightarrow> int i = p" "1 \<le> p \<Longrightarrow> nat (p - 1) = i \<longleftrightarrow> int i + 1 = p" using assms by auto
  then show ?thesis using assms by (auto simp: patch_one_def Let_def has_testset_def nth_list_update)
qed

lemma patch_round:
  assumes p: "0 \<le> p" "p < int (length (fs_code fs))" and jmp: "is_op OP_JMP (fs_code fs ! nat p)"
    and control: "1 \<le> p \<longrightarrow> OpCode_of (GET_OPCODE (fs_code fs ! nat (p - 1))) \<noteq> None"
    and f: "fits p v" "fits p d"
  shows "sbind (patchtestreg p reg) (\<lambda>b. fixjump p (if b then v else d)) fs =
    Inr ((), fs\<lparr>fs_code := patch_one (fs_code fs) p v reg d\<rparr>)"
proof (cases "has_testset (fs_code fs) p")
  case True
  then have "1 \<le> p" by (simp add: has_testset_def)
  then have ne: "nat (p - 1) \<noteq> nat p" by simp
  then show ?thesis
    using True p f fixjump_eq [of p "fs\<lparr>fs_code := (fs_code fs)[nat (p - 1) := patch_test reg (fs_code fs ! nat (p - 1))]\<rparr>" v]
    by (simp add: sbind_simps patchtestreg_eq [OF p jmp control] patch_one_def)
next
  case False
  then show ?thesis
    using p f fixjump_eq [of p fs d] by (simp add: sbind_simps patchtestreg_eq [OF p jmp control] patch_one_def)
qed

lemma jmp_list_step:
  assumes "jmp_list C l (p # ps)"
  shows "jmp_list (patch_one C p v reg d) (jump_next C p) ps"
    and "\<And>q. q \<in> set ps \<Longrightarrow> has_testset (patch_one C p v reg d) q = has_testset C q"
proof -
  define C' where "C' = patch_one C p v reg d"
  have j: "jumps C (jump_next C p) ps" and p: "0 \<le> p" "p < int (length C)" "is_op OP_JMP (C ! nat p)"
    and d: "p \<notin> set ps" using assms jumps_distinct [of C l "p # ps"] by (auto simp: jmp_list_def)
  have ops: "is_op OP_JMP (C ! nat q)" "1 \<le> q \<Longrightarrow> OpCode_of (GET_OPCODE (C ! nat (q - 1))) \<noteq> None" "0 \<le> q" "q < int (length C)" "q \<noteq> p"
    if "q \<in> set ps" for q using assms that jumps_range [OF j that] d by (auto simp: jmp_list_def)
  have at: "C' ! nat q = C ! nat q" if "q \<in> set ps" for q
    using nth_patch_one [OF p(1,2), of "nat q" v reg d] ops [OF that] is_op_unique [of OP_TESTSET "C ! nat q" OP_JMP]
    by (auto simp: C'_def)
  have before: "GET_OPCODE (C' ! nat (q - 1)) = GET_OPCODE (C ! nat (q - 1))" if "q \<in> set ps" "1 \<le> q" for q
    using nth_patch_one [OF p(1,2), of "nat (q - 1)" v reg d] ops [OF that(1)] that(2) by (auto simp: C'_def)
  show "jmp_list (patch_one C p v reg d) (jump_next C p) ps"
    unfolding jmp_list_def C'_def [symmetric]
    using ops at before jumps_cong [OF j, of C'] by (auto simp: C'_def)
  show "has_testset (patch_one C p v reg d) q = has_testset C q" if "q \<in> set ps" for q
    using before [OF that] by (auto simp: has_testset_def is_op_def C'_def)
qed

lemma patched_step:
  assumes "jmp_list C l (p # ps)" and "i < length C"
  shows "patched (patch_one C p v reg d) (set ps) v reg d i = patched C (set (p # ps)) v reg d i"
proof -
  have p: "0 \<le> p" "p < int (length C)" "is_op OP_JMP (C ! nat p)" and d: "p \<notin> set ps"
    using assms(1) jumps_distinct [of C l "p # ps"] by (auto simp: jmp_list_def)
  have jmp: "is_op OP_JMP (C ! i) \<and> \<not> is_op OP_TESTSET (C ! i)" if "int i \<in> set (p # ps)"
    using assms(1) that is_op_unique [of OP_TESTSET "C ! i" OP_JMP] by (auto simp: jmp_list_def)
  have d': "int i \<in> set ps \<Longrightarrow> int i \<noteq> p" using d by auto
  have n: "patch_one C p v reg d ! i =
    (if int i = p then jump_word (C ! i) p (if has_testset C p then v else d)
     else if int i + 1 = p \<and> is_op OP_TESTSET (C ! i) then patch_test reg (C ! i) else C ! i)"
    by (rule nth_patch_one [OF p(1,2) assms(2)])
  show ?thesis
  proof (cases "int i \<in> set ps")
    case True
    then show ?thesis using n d' jmp jmp_list_step(2) [OF assms(1) True] by (simp add: patched_def)
  next
    case False
    then show ?thesis using n jmp d by (auto simp: patched_def)
  qed
qed

lemma patched_none: "patched C {} v reg d i = C ! i"
  by (simp add: patched_def)

lemma patchlist_loop_eq:
  "jmp_list (fs_code fs) l ps \<Longrightarrow> length ps < n \<Longrightarrow> (\<And>p. p \<in> set ps \<Longrightarrow> fits p v \<and> fits p d) \<Longrightarrow>
    patchlist_loop n l v reg d fs =
      Inr ((), fs\<lparr>fs_code := map (patched (fs_code fs) (set ps) v reg d) [0..<length (fs_code fs)]\<rparr>)"
proof (induction ps arbitrary: n l fs)
  case Nil
  then obtain k where k: "n = Suc k" by (cases n) auto
  have "map (patched (fs_code fs) {} v reg d) [0..<length (fs_code fs)] = fs_code fs"
    by (rule nth_equalityI) (simp_all add: patched_none)
  then show ?case using Nil by (simp add: k jmp_list_def)
next
  case (Cons p ps)
  then obtain k where k: "n = Suc k" by (cases n) auto
  define C where "C = fs_code fs"
  define C' where "C' = patch_one C p v reg d"
  have j: "jmp_list C l (p # ps)" and l: "l = p" and p: "0 \<le> p" "p < int (length C)" "is_op OP_JMP (C ! nat p)"
    and control: "1 \<le> p \<longrightarrow> OpCode_of (GET_OPCODE (C ! nat (p - 1))) \<noteq> None"
    using Cons.prems(1) by (auto simp: jmp_list_def C_def)
  have round: "sbind (patchtestreg p reg) (\<lambda>b. fixjump p (if b then v else d)) fs = Inr ((), fs\<lparr>fs_code := C'\<rparr>)"
    unfolding C'_def C_def by (rule patch_round) (use p control Cons.prems(3) in \<open>auto simp: C_def\<close>)
  have "patchlist_loop k (jump_next C p) v reg d (fs\<lparr>fs_code := C'\<rparr>) =
      Inr ((), fs\<lparr>fs_code := map (patched C' (set ps) v reg d) [0..<length C]\<rparr>)"
    using Cons.IH [of "fs\<lparr>fs_code := C'\<rparr>" "jump_next C p" k] jmp_list_step(1) [OF j] Cons.prems k
    by (simp add: C'_def)
  also have "map (patched C' (set ps) v reg d) [0..<length C] = map (patched C (set (p # ps)) v reg d) [0..<length C]"
    using patched_step [OF j] by (simp add: C'_def)
  finally have rest: "patchlist_loop k (jump_next C p) v reg d (fs\<lparr>fs_code := C'\<rparr>) =
      Inr ((), fs\<lparr>fs_code := map (patched C (set (p # ps)) v reg d) [0..<length C]\<rparr>)" .
  have "l \<noteq> NO_JUMP" using l p by (simp add: NO_JUMP_def)
  then have "patchlist_loop n l v reg d fs =
      sbind (sbind (patchtestreg p reg) (\<lambda>b. fixjump p (if b then v else d)))
        (\<lambda>_. patchlist_loop k (jump_next C p) v reg d) fs"
    using getjump_eq [of p fs] p l by (auto simp: k sbind_def C_def split: sum.splits)
  then show ?case using rest round by (simp add: sbind_def C_def)
qed

section \<open>Constants\<close>

lemma ttisnumber_simps [simp]: "ttisnumber (TNumber n)" "\<not> ttisnumber TNil" "\<not> ttisnumber (TBoolean b)"
  by (simp_all add: ttisnumber_def)

text \<open>The key under which a constant is registered: nil cannot be a key, the table itself stands
  for it. The invariant of the constant table: every number found in \<open>h\<close> is the index of a
  constant with an equal key. Other entries of \<open>h\<close> are not indices: the lexer puts true there.\<close>

definition const_key :: "'s FuncState \<Rightarrow> 's tvalue \<Rightarrow> 's tvalue" where
  "const_key fs v = (if v = TNil then TTable (fs_haddr fs) else v)"

definition consts_ok :: "'s FuncState \<Rightarrow> bool" where
  "consts_ok fs \<longleftrightarrow> wf_table (fs_H fs) (fs_h fs) \<and> int (sizearray (fs_h fs)) \<le> MAXASIZE \<and>
     fs_nk fs \<le> fs_sizek fs \<and> fs_sizek fs \<le> MAXARG_Bx \<and>
     (\<forall>k. proper k \<longrightarrow> \<not> ttisnumber (tget (fs_H fs) (fs_h fs) k) \<or>
        (\<exists>i < length (fs_k fs). tget (fs_H fs) (fs_h fs) k = TNumber (cast_num (int i)) \<and>
           luaO_rawequalObj (const_key fs (fs_k fs ! i)) k))"

text \<open>Every constant is found under its key.\<close>

definition consts_indexed :: "'s FuncState \<Rightarrow> bool" where
  "consts_indexed fs \<longleftrightarrow> (\<forall>i < length (fs_k fs). proper (const_key fs (fs_k fs ! i)) \<and>
     tget (fs_H fs) (fs_h fs) (const_key fs (fs_k fs ! i)) = TNumber (cast_num (int i)))"

lemma consts_distinct:
  assumes "consts_ok fs" and "consts_indexed fs" and "i < length (fs_k fs)" "j < length (fs_k fs)"
    and eq: "luaO_rawequalObj (const_key fs (fs_k fs ! i)) (const_key fs (fs_k fs ! j))"
  shows "i = j"
proof -
  have w: "wf_open (fs_H fs) (fs_h fs)" and sz: "fs_nk fs \<le> MAXARG_Bx" using assms(1) by (simp_all add: consts_ok_def wf_table_def)
  have "cast_num (int i) = cast_num (int j)"
    using tget_cong [OF w _ eq] assms(2,3,4) by (simp add: consts_indexed_def)
  moreover have "is_cint (int i)" "is_cint (int j)"
    using assms(3,4) sz by (simp_all add: is_cint_def INT_MIN_def INT_MAX_def fs_nk_def MAXARG_Bx_def field_layout)
  ultimately have "int i = int j" by (metis number2int_cast_num)
  then show ?thesis by simp
qed

lemma grow_MAXARG_Bx:
  assumes "0 \<le> n" "n \<le> sz" "sz \<le> MAXARG_Bx"
  shows "case grow n sz MAXARG_Bx msg of Inl e \<Rightarrow> e = ErrRun msg \<and> n = MAXARG_Bx
    | Inr sz' \<Rightarrow> n + 1 \<le> sz' \<and> sz' \<le> MAXARG_Bx"
proof -
  have m: "MAXARG_Bx = 262143" by (simp add: MAXARG_Bx_def field_layout)
  show ?thesis
    using assms by (auto simp: grow_def growaux_size_def MINSIZEARRAY_def Let_def m)
qed

lemma addk_eq:
  assumes ok: "consts_ok fs" and k: "proper k" "\<not> is_nan_value k" and v: "k = const_key fs v"
    and small: "length (live_keys (fs_h fs)) < 2 ^ MAXBITS"
  shows "case addk k v fs of
      Inl e \<Rightarrow> e = ErrRun ''constant table overflow'' \<and> fs_nk fs = MAXARG_Bx \<and> \<not> ttisnumber (tget (fs_H fs) (fs_h fs) k)
    | Inr (i, fs') \<Rightarrow> consts_ok fs' \<and> 0 \<le> i \<and> i < fs_nk fs' \<and> i \<le> fs_nk fs \<and>
        luaO_rawequalObj (const_key fs' (fs_k fs' ! nat i)) k \<and>
        tget (fs_H fs') (fs_h fs') k = TNumber (cast_num i) \<and>
        fs_k fs' = (if i < fs_nk fs then fs_k fs else fs_k fs @ [v]) \<and>
        (if i < fs_nk fs then tget (fs_H fs) (fs_h fs) k = TNumber (cast_num i)
         else \<not> ttisnumber (tget (fs_H fs) (fs_h fs) k)) \<and>
        (consts_indexed fs \<longrightarrow> consts_indexed fs')"
proof -
  define H where "H = fs_H fs"
  have wf: "wf_table H (fs_h fs)" "int (sizearray (fs_h fs)) \<le> MAXASIZE" and sz: "fs_nk fs \<le> fs_sizek fs" "fs_sizek fs \<le> MAXARG_Bx"
    using ok by (simp_all add: consts_ok_def H_def)
  have inv: "\<not> ttisnumber (tget H (fs_h fs) k') \<or> (\<exists>i < length (fs_k fs). tget H (fs_h fs) k' = TNumber (cast_num (int i)) \<and>
      luaO_rawequalObj (const_key fs (fs_k fs ! i)) k')" if "proper k'" for k'
    using ok that by (simp add: consts_ok_def H_def)
  have wf0: "wf_open H (fs_h fs)" using wf(1) by (simp add: wf_table_def)
  obtain h s where h: "luaH_set H (fs_h fs) k = Inr (h, s)" "wf_table H h" "int (sizearray h) \<le> MAXASIZE"
    "luaH_get H h k = Inr (Some s)" and get: "\<And>k'. proper k' \<Longrightarrow> tget H h k' = tget H (fs_h fs) k'"
    using luaH_set_ok [OF wf k small] by blast
  have slot: "slot_val h s = tget H (fs_h fs) k" using h(4) get [OF k(1)] by (simp add: tget_def opt_val_def)
  have m: "MAXARG_Bx = 262143" by (simp add: MAXARG_Bx_def field_layout)
  have cint: "is_cint (int i)" if "i \<le> length (fs_k fs)" for i
    using that sz by (simp add: is_cint_def INT_MIN_def INT_MAX_def fs_nk_def m)
  have refl: "luaO_rawequalObj k k" using k by (simp add: rawequal_refl_iff)
  show ?thesis
  proof (cases "ttisnumber (tget H (fs_h fs) k)")
    case True
    then obtain i where i: "i < length (fs_k fs)" "tget H (fs_h fs) k = TNumber (cast_num (int i))"
      "luaO_rawequalObj (const_key fs (fs_k fs ! i)) k" using inv [OF k(1)] by auto
    have "addk k v fs = Inr (int i, fs\<lparr>fs_h := h\<rparr>)"
      using h(1) slot i(2) cint [of i] i(1) by (simp add: addk_def H_def)
    moreover have ck: "const_key (fs\<lparr>fs_h := h\<rparr>) w = const_key fs w" for w by (simp add: const_key_def)
    then have "consts_ok (fs\<lparr>fs_h := h\<rparr>)"
      using ok h get by (simp add: consts_ok_def H_def fs_nk_def)
    moreover have "consts_indexed fs \<longrightarrow> consts_indexed (fs\<lparr>fs_h := h\<rparr>)"
      using ck get by (simp add: consts_indexed_def H_def)
    ultimately show ?thesis using i get [OF k(1)] ck by (simp add: fs_nk_def H_def)
  next
    case False
    define n where "n = length (fs_k fs)"
    define h' where "h' = set_slot h s (TNumber (cast_num (int n)))"
    have wo: "wf_open H h" using h(2) by (simp add: wf_table_def)
    have get': "tget H h' k' = (if luaO_rawequalObj k k' then TNumber (cast_num (int n)) else tget H (fs_h fs) k')" if "proper k'" for k'
      using set_slot_tget [OF wo k(1) h(4) that, of "TNumber (cast_num (int n))"] get [OF that] by (simp add: h'_def)
    have wf': "wf_table H h'" "int (sizearray h') \<le> MAXASIZE"
      using set_slot_wf [OF wo k(1) h(4)] h(2,3) by (simp_all add: h'_def wf_table_def)
    have g: "case grow (fs_nk fs) (fs_sizek fs) MAXARG_Bx ''constant table overflow'' of
        Inl e \<Rightarrow> e = ErrRun ''constant table overflow'' \<and> fs_nk fs = MAXARG_Bx
      | Inr sz' \<Rightarrow> fs_nk fs + 1 \<le> sz' \<and> sz' \<le> MAXARG_Bx"
      by (rule grow_MAXARG_Bx) (use sz in \<open>simp_all add: fs_nk_def\<close>)
    show ?thesis
    proof (cases "grow (fs_nk fs) (fs_sizek fs) MAXARG_Bx ''constant table overflow''")
      case (Inl e)
      then show ?thesis using g h(1) slot False by (auto simp: addk_def H_def split: tvalue.splits)
    next
      case (Inr sz')
      define fs' where "fs' = fs\<lparr>fs_h := h', fs_sizek := sz', fs_k := fs_k fs @ [v]\<rparr>"
      have a: "addk k v fs = Inr (int n, fs')"
        using Inr h(1) slot False by (auto simp: addk_def H_def fs'_def h'_def n_def fs_nk_def split: tvalue.splits)
      have key: "const_key fs' (fs_k fs' ! i) = (if i = n then k else const_key fs (fs_k fs ! i))" if "i \<le> n" for i
        using that v by (auto simp: fs'_def const_key_def nth_append n_def)
      have "\<not> ttisnumber (tget H h' k') \<or> (\<exists>i < length (fs_k fs'). tget H h' k' = TNumber (cast_num (int i)) \<and>
          luaO_rawequalObj (const_key fs' (fs_k fs' ! i)) k')" if "proper k'" for k'
      proof (cases "luaO_rawequalObj k k'")
        case True
        then show ?thesis using get' [OF that] key [of n] by (auto simp: fs'_def n_def intro!: exI [of _ n])
      next
        case False
        have "i < n \<Longrightarrow> const_key fs' (fs_k fs' ! i) = const_key fs (fs_k fs ! i)" for i using key [of i] by simp
        then show ?thesis using False get' [OF that] inv [OF that] by (fastforce simp: fs'_def n_def)
      qed
      then have "consts_ok fs'"
        using wf' g Inr by (simp add: consts_ok_def fs'_def H_def fs_nk_def)
      moreover have "consts_indexed fs'" if ci: "consts_indexed fs"
        unfolding consts_indexed_def
      proof (intro allI impI conjI)
        fix i assume "i < length (fs_k fs')"
        then have i: "i \<le> n" by (simp add: fs'_def n_def)
        then show p: "proper (const_key fs' (fs_k fs' ! i))"
          using key [OF i] k(1) ci by (auto simp: consts_indexed_def n_def)
        show "tget (fs_H fs') (fs_h fs') (const_key fs' (fs_k fs' ! i)) = TNumber (cast_num (int i))"
        proof (cases "i = n")
          case True
          then show ?thesis using key [OF i] get' [OF p] refl by (simp add: fs'_def H_def)
        next
          case old: False
          then have t: "tget H (fs_h fs) (const_key fs (fs_k fs ! i)) = TNumber (cast_num (int i))"
            using ci i by (simp add: consts_indexed_def n_def H_def)
          then have "\<not> luaO_rawequalObj k (const_key fs (fs_k fs ! i))"
            using tget_cong [OF wf0 k(1)] False by auto
          then show ?thesis using old t key [OF i] get' [OF p] by (simp add: fs'_def H_def)
        qed
      qed
      ultimately show ?thesis using a key [of n] refl False get' [OF k(1)]
        by (simp add: fs'_def n_def fs_nk_def H_def)
    qed
  qed
qed

lemma luaH_setstr_ok:
  assumes wf: "wf_table H t" "int (sizearray t) \<le> MAXASIZE" and small: "length (live_keys t) < 2 ^ MAXBITS"
  obtains t' e where "luaH_setstr H t ts = Inr (t', e)" "wf_table H t'" "int (sizearray t') \<le> MAXASIZE"
    "luaH_get H t' (TString ts) = Inr (Some e)" "\<And>k. proper k \<Longrightarrow> tget H t' k = tget H t k"
proof -
  have k: "proper (TString ts)" "\<not> is_nan_value (TString ts)" by (simp_all add: is_nan_value_def)
  obtain p where p: "luaH_get H t (TString ts) = Inr p"
    using luaH_get_total [OF _ k(1)] wf(1) by (auto simp: wf_table_def)
  then have g: "luaH_getstr H t ts = Inr p" by (simp add: luaH_get_def)
  show thesis
  proof (cases p)
    case None
    then show thesis
      using set_by_full [OF wf k small, of thesis] p g that by (auto simp: luaH_setstr_def luaH_setstr_by_def)
  next
    case (Some e)
    then show thesis using p g wf by (intro that [of t e]) (simp_all add: luaH_setstr_def luaH_setstr_by_def)
  qed
qed

text \<open>Anchoring a string keeps the invariant, and no index changes.\<close>

lemma luaX_anchor_ok:
  assumes ok: "consts_ok fs" and small: "length (live_keys (fs_h fs)) < 2 ^ MAXBITS"
  obtains h where "luaX_anchor ts fs = Inr ((), fs\<lparr>fs_h := h\<rparr>)" "consts_ok (fs\<lparr>fs_h := h\<rparr>)"
    "consts_indexed fs \<Longrightarrow> consts_indexed (fs\<lparr>fs_h := h\<rparr>)" "tget (fs_H fs) h (TString ts) \<noteq> TNil"
proof -
  define H where "H = fs_H fs"
  have wf: "wf_table H (fs_h fs)" "int (sizearray (fs_h fs)) \<le> MAXASIZE" using ok by (simp_all add: consts_ok_def H_def)
  obtain h e where h: "luaH_setstr H (fs_h fs) ts = Inr (h, e)" "wf_table H h" "int (sizearray h) \<le> MAXASIZE"
    "luaH_get H h (TString ts) = Inr (Some e)" and get: "\<And>k. proper k \<Longrightarrow> tget H h k = tget H (fs_h fs) k"
    using luaH_setstr_ok [OF wf small] by blast
  have wo: "wf_open H h" using h(2) by (simp add: wf_table_def)
  have slot: "slot_val h e = tget H (fs_h fs) (TString ts)" using h(4) get [of "TString ts"] by (simp add: tget_def opt_val_def)
  define h' where "h' = (if slot_val h e = TNil then set_slot h e (TBoolean True) else h)"
  have wf': "wf_table H h'" "int (sizearray h') \<le> MAXASIZE"
    using set_slot_wf [OF wo _ h(4)] h(2,3) by (simp_all add: h'_def wf_table_def)
  have get': "tget H h' k = (if slot_val h e = TNil \<and> luaO_rawequalObj (TString ts) k then TBoolean True else tget H (fs_h fs) k)"
    if "proper k" for k
    using set_slot_tget [OF wo _ h(4) that, of "TBoolean True"] get [OF that] by (simp add: h'_def)
  have nil: "tget H (fs_h fs) k = TNil" if "slot_val h e = TNil" "luaO_rawequalObj (TString ts) k" for k
    using tget_cong [of H "fs_h fs" "TString ts" k] wf(1) that slot by (simp add: wf_table_def)
  show thesis
  proof (rule that [of h'])
    show "luaX_anchor ts fs = Inr ((), fs\<lparr>fs_h := h'\<rparr>)" using h(1) by (simp add: luaX_anchor_def H_def h'_def)
    have ck: "const_key (fs\<lparr>fs_h := h'\<rparr>) w = const_key fs w" for w by (simp add: const_key_def)
    have "\<not> ttisnumber (tget H h' k) \<or> (\<exists>i < length (fs_k fs). tget H h' k = TNumber (cast_num (int i)) \<and>
        luaO_rawequalObj (const_key fs (fs_k fs ! i)) k)" if "proper k" for k
      using ok get' [OF that] that by (simp add: consts_ok_def H_def)
    then show "consts_ok (fs\<lparr>fs_h := h'\<rparr>)"
      using ok wf' ck by (simp add: consts_ok_def H_def fs_nk_def)
    show "consts_indexed (fs\<lparr>fs_h := h'\<rparr>)" if "consts_indexed fs"
      using that get' nil ck by (fastforce simp: consts_indexed_def H_def)
    show "tget (fs_H fs) h' (TString ts) \<noteq> TNil" using get' [of "TString ts"] slot by (auto simp: H_def)
  qed
qed

section \<open>Properties\<close>

text \<open>C28: \<open>luaK_concat\<close> appends jump lists: the result is threaded through all jumps of the first
  list and then those of the second, and no word but the last jump of the first list changes. It fails
  only when that jump cannot reach the second list.\<close>

theorem luaK_concat_appends:
  assumes "jumps (fs_code fs) l1 ps" and "jumps (fs_code fs) l2 qs" and "set ps \<inter> set qs = {}"
  shows "case luaK_concat l1 l2 fs of
      Inl e \<Rightarrow> e = ErrSyntax ''control structure too long'' \<and> ps \<noteq> [] \<and> qs \<noteq> [] \<and> \<not> fits (last ps) l2
    | Inr (l, fs') \<Rightarrow> jumps (fs_code fs') l (ps @ qs) \<and> length (fs_code fs') = length (fs_code fs) \<and>
        fs' = fs\<lparr>fs_code := fs_code fs'\<rparr> \<and>
        (\<forall>i < length (fs_code fs). int i \<noteq> last ps \<longrightarrow> fs_code fs' ! i = fs_code fs ! i)"
  by (rule concat_eq [OF assms])

text \<open>C27: \<open>patchlistaux\<close> ends and rewrites exactly the jumps of the list and the tests in front of
  them: a jump whose test produces a value goes to \<open>vtarget\<close> and its test stores into \<open>reg\<close> (or
  becomes a plain test), every other jump goes to \<open>dtarget\<close>, and the rest of the code stays.\<close>

theorem patchlistaux_patches:
  assumes "jmp_list (fs_code fs) l ps" and "\<And>p. p \<in> set ps \<Longrightarrow> fits p v \<and> fits p d"
  shows "patchlistaux l v reg d fs =
    Inr ((), fs\<lparr>fs_code := map (patched (fs_code fs) (set ps) v reg d) [0..<length (fs_code fs)]\<rparr>)"
proof -
  have "length ps < list_fuel fs" using assms(1) jumps_length by (auto simp: jmp_list_def list_fuel_def less_Suc_eq_le)
  then show ?thesis using patchlist_loop_eq [OF assms(1) _ assms(2)] by (simp add: patchlistaux_def)
qed

text \<open>C29: The constant table has no two equal constants, and an index always finds its constant
  again, whatever strings the lexer has anchored in the same table: \<open>addk\<close> returns the index of
  a constant that is equal to the one asked for, adds it only when no equal constant is there, keeps
  the others in place, and fails only for a new constant when all \<open>2^18 - 1\<close> indices are taken.
  (For nil the key is the table itself.)\<close>

theorem addk_finds_or_adds:
  assumes "consts_ok fs" and "consts_indexed fs" and "k = const_key fs v" and "proper k" "\<not> is_nan_value k"
    and "length (live_keys (fs_h fs)) < 2 ^ MAXBITS"
  shows "case addk k v fs of
      Inl e \<Rightarrow> e = ErrRun ''constant table overflow'' \<and> fs_nk fs = MAXARG_Bx \<and>
        (\<forall>w \<in> set (fs_k fs). \<not> luaO_rawequalObj (const_key fs w) k)
    | Inr (i, fs') \<Rightarrow> consts_ok fs' \<and> consts_indexed fs' \<and> 0 \<le> i \<and> i < fs_nk fs' \<and>
        luaO_rawequalObj (const_key fs' (fs_k fs' ! nat i)) k \<and>
        tget (fs_H fs') (fs_h fs') k = TNumber (cast_num i) \<and>
        fs_k fs' = (if \<exists>w \<in> set (fs_k fs). luaO_rawequalObj (const_key fs w) k then fs_k fs else fs_k fs @ [v]) \<and>
        (\<forall>p < length (fs_k fs'). \<forall>q < length (fs_k fs').
           luaO_rawequalObj (const_key fs' (fs_k fs' ! p)) (const_key fs' (fs_k fs' ! q)) \<longrightarrow> p = q)"
proof -
  have w: "wf_open (fs_H fs) (fs_h fs)" using assms(1) by (simp add: consts_ok_def wf_table_def)
  have num: "ttisnumber (tget (fs_H fs) (fs_h fs) k)" if "w \<in> set (fs_k fs)" "luaO_rawequalObj (const_key fs w) k" for w
  proof -
    obtain i where "i < length (fs_k fs)" "w = fs_k fs ! i" using \<open>w \<in> set (fs_k fs)\<close> by (auto simp: in_set_conv_nth)
    then have "proper (const_key fs w)" "tget (fs_H fs) (fs_h fs) (const_key fs w) = TNumber (cast_num (int i))"
      using assms(2) by (simp_all add: consts_indexed_def)
    then show ?thesis using tget_cong [OF w _ that(2)] by (metis ttisnumber_simps(1))
  qed
  have old: "\<exists>w \<in> set (fs_k fs). luaO_rawequalObj (const_key fs w) k" if "ttisnumber (tget (fs_H fs) (fs_h fs) k)"
    using assms(1,4) that by (fastforce simp: consts_ok_def)
  note eq = addk_eq [OF assms(1,4,5,3,6)]
  show ?thesis
  proof (cases "addk k v fs")
    case (Inl e)
    then show ?thesis using eq num by auto
  next
    case (Inr r)
    obtain i fs' where r: "r = (i, fs')" by fastforce
    then have ok: "consts_ok fs'" "consts_indexed fs'" using eq assms(2) Inr by simp_all
    have "p = q" if "p < length (fs_k fs')" "q < length (fs_k fs')"
      "luaO_rawequalObj (const_key fs' (fs_k fs' ! p)) (const_key fs' (fs_k fs' ! q))" for p q
      using consts_distinct [OF ok that] .
    moreover have "(i < fs_nk fs) = (\<exists>w \<in> set (fs_k fs). luaO_rawequalObj (const_key fs w) k)"
      using eq Inr r num old by (auto split: if_splits)
    moreover have "0 \<le> i" "i < fs_nk fs'" "luaO_rawequalObj (const_key fs' (fs_k fs' ! nat i)) k"
      "tget (fs_H fs') (fs_h fs') k = TNumber (cast_num i)"
      "fs_k fs' = (if i < fs_nk fs then fs_k fs else fs_k fs @ [v])"
      using eq unfolding Inr r sum.case prod.case by blast+
    ultimately show ?thesis using ok unfolding Inr r sum.case prod.case by metis
  qed
qed

section \<open>A function to start from\<close>

definition fresh_table :: "nat Table" where
  "fresh_table = \<lparr>flags = NOT 0, lsizenode = 0, metatable = None, array = [], sizearray = 0,
      node = [dummynode], is_dummy = True, lastfree = 0\<rparr>"

definition start_fs :: "nat FuncState" where
  "start_fs = \<lparr>fs_code = [], fs_sizecode = 0, fs_lineinfo = [], fs_sizelineinfo = 0, fs_k = [], fs_sizek = 0,
     fs_h = fresh_table, fs_haddr = 9, fs_H = id_view, fs_pow = (\<lambda>a b. a), fs_lastline = 1, fs_pc = 0, fs_lasttarget = - 1,
     fs_jpc = NO_JUMP, fs_freereg = 0, fs_nactvar = 0, fs_maxstacksize = 2\<rparr>"

lemma start_fs_simps [simp]:
  "fs_code start_fs = []" "fs_k start_fs = []" "fs_h start_fs = fresh_table" "fs_H start_fs = id_view" "fs_nk start_fs = 0"
  "fs_sizek start_fs = 0" "fs_haddr start_fs = 9"
  by (simp_all add: start_fs_def fs_nk_def)

lemma fresh_table_ok:
  "wf_table id_view fresh_table" "int (sizearray fresh_table) \<le> MAXASIZE" "length (live_keys fresh_table) < 2 ^ MAXBITS"
  "proper k \<Longrightarrow> tget id_view fresh_table k = TNil"
proof -
  have "wf_open id_view fresh_table"
    by (rule fresh_table_wf [where l = 0]) (simp_all add: fresh_table_def fresh_nodes_0 INT_MAX_def)
  moreover have "\<not> in_array fresh_table k" by (simp add: in_array_def fresh_table_def)
  ultimately show "wf_table id_view fresh_table" "proper k \<Longrightarrow> tget id_view fresh_table k = TNil"
    using fresh_table_tget [of id_view fresh_table 0 k] by (simp_all add: wf_table_def fresh_table_def fresh_nodes_0)
qed (simp_all add: fresh_table_def MAXASIZE_def MAXBITS_def live_keys_def array_keys_def node_keys_def dummynode_def upt_rec)

lemma start_fs_ok: "consts_ok start_fs"
  using fresh_table_ok by (simp add: consts_ok_def MAXARG_Bx_def field_layout)

text \<open>A function in which the lexer has read the string 5: its constant is still to be added.\<close>

lemma addk_finds_or_adds_witness:
  "\<exists>fs fs'. luaX_anchor 5 start_fs = Inr ((), fs) \<and> tget (fs_H fs) (fs_h fs) (TString 5) = TBoolean True \<and>
     addk (TString 5) (TString 5) fs = Inr (0, fs') \<and> consts_ok fs' \<and> fs_k fs' = [TString 5]"
proof -
  have "consts_indexed start_fs" by (simp add: consts_indexed_def)
  then obtain h where h: "luaX_anchor 5 start_fs = Inr ((), start_fs\<lparr>fs_h := h\<rparr>)"
      "consts_ok (start_fs\<lparr>fs_h := h\<rparr>)" "consts_indexed (start_fs\<lparr>fs_h := h\<rparr>)"
    using luaX_anchor_ok [OF start_fs_ok, of 5] fresh_table_ok(3) by auto
  have "case luaX_anchor 5 start_fs of Inl e \<Rightarrow> False
      | Inr (_, fs) \<Rightarrow> length (live_keys (fs_h fs)) = 1 \<and> tget (fs_H fs) (fs_h fs) (TString 5) = TBoolean True"
    by code_simp
  then have t: "length (live_keys h) < 2 ^ MAXBITS" "tget id_view h (TString 5) = TBoolean True"
    using h(1) by (simp_all add: MAXBITS_def)
  have "case addk (TString 5) (TString 5) (start_fs\<lparr>fs_h := h\<rparr>) of Inl e \<Rightarrow> False
      | Inr (i, fs') \<Rightarrow> i = 0 \<and> consts_ok fs' \<and> fs_k fs' = [TString 5]"
    using addk_finds_or_adds [OF h(2,3), of "TString 5" "TString 5"] t(1)
    by (auto simp: const_key_def is_nan_value_def fs_nk_def MAXARG_Bx_def field_layout split: sum.splits)
  then show ?thesis using h(1) t(2) by (auto split: sum.splits)
qed

text \<open>C30: The constants \<open>0\<close> and \<open>-0\<close> are merged: after the numeral \<open>0\<close>, the constant folded
  from \<open>-0\<close> gets the index of \<open>0\<close>, so the sign is lost, although the two differ under division.\<close>

theorem negative_zero_is_lost:
  assumes "consts_ok fs" and "length (live_keys (fs_h fs)) < 2 ^ MAXBITS"
    and "luaK_numberK 0 fs = Inr (i, fs1)" and "length (live_keys (fs_h fs1)) < 2 ^ MAXBITS"
  shows "\<exists>fs2. luaK_numberK (luai_numunm 0) fs1 = Inr (i, fs2) \<and> fs_k fs2 = fs_k fs1"
proof -
  define m where "m = (TNumber (luai_numunm 0) :: 'a tvalue)"
  have nan: "\<not> is_nan_value (TNumber 0 :: 'a tvalue)" "\<not> is_nan_value m" and eq: "luaO_rawequalObj (TNumber 0) m"
    by (simp_all add: is_nan_value_def m_def luai_numunm_def luai_numisnan_def dbl_mag_def luai_numeq_def dbl_key_def dbl_neg_def)
  have 1: "consts_ok fs1" "i < fs_nk fs1" "0 \<le> i" "tget (fs_H fs1) (fs_h fs1) (TNumber 0) = TNumber (cast_num i)"
    using addk_eq [OF assms(1) _ nan(1) _ assms(2), of "TNumber 0"] assms(3)
    by (simp_all add: luaK_numberK_def const_key_def)
  have wo: "wf_open (fs_H fs1) (fs_h fs1)" using 1(1) by (simp add: consts_ok_def wf_table_def)
  have t: "tget (fs_H fs1) (fs_h fs1) m = TNumber (cast_num i)"
    using tget_cong [OF wo _ eq] 1(4) by simp
  have m: "const_key fs1 m = m" "proper m" by (simp_all add: const_key_def m_def)
  have bound: "fs_nk fs1 \<le> MAXARG_Bx" using 1(1) by (simp add: consts_ok_def)
  have "\<exists>j fs2. addk m m fs1 = Inr (j, fs2) \<and> fs_k fs2 = fs_k fs1 \<and> 0 \<le> j \<and> j < fs_nk fs1 \<and> cast_num i = cast_num j"
    using addk_eq [OF 1(1) m(2) nan(2) m(1) [symmetric] assms(4)] unfolding t by (auto split: sum.splits if_splits)
  then obtain j fs2 where j: "addk m m fs1 = Inr (j, fs2)" "fs_k fs2 = fs_k fs1" "0 \<le> j" "j < fs_nk fs1" "cast_num i = cast_num j"
    by blast
  have "is_cint i" "is_cint j"
    using 1(2,3) j(3,4) bound by (simp_all add: is_cint_def INT_MIN_def INT_MAX_def MAXARG_Bx_def field_layout)
  then have "i = j" using j(5) by (metis number2int_cast_num)
  then show ?thesis using j by (simp add: luaK_numberK_def m_def)
qed

lemma negative_zero_is_lost_witness:
  "\<exists>fs1 fs2. luaK_numberK 0 start_fs = Inr (0, fs1) \<and> luaK_numberK (luai_numunm 0) fs1 = Inr (0, fs2) \<and> fs_k fs2 = [TNumber 0]"
proof -
  have nan: "\<not> is_nan_value (TNumber 0 :: nat tvalue)" by (simp add: is_nan_value_def luai_numisnan_def dbl_mag_def)
  obtain fs1 where fs1: "luaK_numberK 0 start_fs = Inr (0, fs1)" "fs_k fs1 = [TNumber 0]"
    using addk_eq [OF start_fs_ok _ nan, of "TNumber 0"] fresh_table_ok(3,4)
    by (auto simp: luaK_numberK_def const_key_def MAXARG_Bx_def field_layout split: sum.splits prod.splits)
  moreover have "case luaK_numberK 0 start_fs of Inl e \<Rightarrow> False | Inr (i, fs) \<Rightarrow> length (live_keys (fs_h fs)) = 1"
    by code_simp
  then have "length (live_keys (fs_h fs1)) < 2 ^ MAXBITS" using fs1(1) by (simp add: MAXBITS_def)
  ultimately show ?thesis
    using negative_zero_is_lost [OF start_fs_ok _ fs1(1)] fresh_table_ok(3) by auto
qed

definition jump_pair :: "nat FuncState" where
  "jump_pair = start_fs\<lparr>fs_code := [CREATE_ABx 22 0 (NO_JUMP + MAXARG_sBx), CREATE_ABx 22 0 (NO_JUMP + MAXARG_sBx)], fs_pc := 2\<rparr>"

lemma luaK_concat_appends_witness:
  "\<exists>fs'. luaK_concat 0 1 jump_pair = Inr (0, fs') \<and> jumps (fs_code fs') 0 [0, 1]"
proof -
  have "jumps (fs_code jump_pair) 0 [0]" "jumps (fs_code jump_pair) 1 [1]" "fits 0 1" "set [0::int] \<inter> set [1] = {}"
    by code_simp+
  moreover have "case luaK_concat 0 1 jump_pair of Inl e \<Rightarrow> False | Inr (l, fs') \<Rightarrow> l = 0" by code_simp
  ultimately show ?thesis
    using luaK_concat_appends [of jump_pair 0 "[0]" 1 "[1]"] by (auto split: sum.splits)
qed

lemma patchlistaux_patches_witness:
  "patchlistaux 0 5 NO_REG 7 jump_pair =
    Inr ((), jump_pair\<lparr>fs_code := map (patched (fs_code jump_pair) {0} 5 NO_REG 7) [0..<2]\<rparr>)"
proof -
  have "jmp_list (fs_code jump_pair) 0 [0]" "fits 0 5 \<and> fits 0 7" "length (fs_code jump_pair) = 2" by code_simp+
  then show ?thesis using patchlistaux_patches [of jump_pair 0 "[0]" 5 7 NO_REG] by simp
qed

end
