(* ===== verification/LStr.thy ===== *)
theory LStr
  imports LuaArith
begin

text \<open>
  Strings as the C code sees them: lists of bytes. Literals, the character classes of
  \<open>ctype.h\<close> in the C locale, decimal printing, the conversions \<open>strtod\<close> and \<open>strtoul\<close> of the C
  library, and the functions of \<open>lobject.c\<close> built on them: \<open>luaO_str2d\<close>, which reads a numeral,
  and \<open>luaO_chunkid\<close>, which names a chunk in messages. A C string stops at its first zero.
\<close>

definition bytes :: "string \<Rightarrow> byte list" where "bytes s = map of_char s"

definition chars :: "byte list \<Rightarrow> string" where "chars bs = map (\<lambda>b. char_of (unat b)) bs"

definition c_str :: "byte list \<Rightarrow> byte list" where "c_str bs = takeWhile (\<lambda>b. b \<noteq> 0) bs"

section \<open>Character classes\<close>

definition isdigit :: "int \<Rightarrow> bool" where "isdigit c \<longleftrightarrow> 48 \<le> c \<and> c \<le> 57"
definition isupper :: "int \<Rightarrow> bool" where "isupper c \<longleftrightarrow> 65 \<le> c \<and> c \<le> 90"
definition islower :: "int \<Rightarrow> bool" where "islower c \<longleftrightarrow> 97 \<le> c \<and> c \<le> 122"
definition isalpha :: "int \<Rightarrow> bool" where "isalpha c \<longleftrightarrow> isupper c \<or> islower c"
definition isalnum :: "int \<Rightarrow> bool" where "isalnum c \<longleftrightarrow> isalpha c \<or> isdigit c"
definition isspace :: "int \<Rightarrow> bool" where "isspace c \<longleftrightarrow> 9 \<le> c \<and> c \<le> 13 \<or> c = 32"
definition iscntrl :: "int \<Rightarrow> bool" where "iscntrl c \<longleftrightarrow> 0 \<le> c \<and> c < 32 \<or> c = 127"
definition isxdigit :: "int \<Rightarrow> bool" where
  "isxdigit c \<longleftrightarrow> isdigit c \<or> 65 \<le> c \<and> c \<le> 70 \<or> 97 \<le> c \<and> c \<le> 102"
definition ispunct :: "int \<Rightarrow> bool" where
  "ispunct c \<longleftrightarrow> 33 \<le> c \<and> c \<le> 126 \<and> \<not> isalnum c"
definition tolower :: "int \<Rightarrow> int" where "tolower c = (if isupper c then c + 32 else c)"

definition digit_val :: "byte \<Rightarrow> int" where
  "digit_val b =
     (let c = uint b
      in if isdigit c then c - 48 else if 97 \<le> c then c - 87 else c - 55)"

section \<open>Printing and reading numbers\<close>

function dec_digits :: "nat \<Rightarrow> byte list" where
  "dec_digits n =
     (if n < 10 then [word_of_nat (48 + n)] else dec_digits (n div 10) @ [word_of_nat (48 + n mod 10)])"
  by pat_completeness auto
termination by (relation "measure id") auto

declare dec_digits.simps [simp del]

definition dec_int :: "int \<Rightarrow> byte list" where
  "dec_int i = (if i < 0 then 45 # dec_digits (nat (- i)) else dec_digits (nat i))"

definition read_nat :: "int \<Rightarrow> byte list \<Rightarrow> int" where
  "read_nat base ds = foldl (\<lambda>a d. a * base + digit_val d) 0 ds"

definition is_digit_b :: "byte \<Rightarrow> bool" where "is_digit_b b = isdigit (uint b)"
definition is_xdigit_b :: "byte \<Rightarrow> bool" where "is_xdigit_b b = isxdigit (uint b)"
definition is_space_b :: "byte \<Rightarrow> bool" where "is_space_b b = isspace (uint b)"
definition lower_b :: "byte \<Rightarrow> byte" where "lower_b b = word_of_int (tolower (uint b))"

text \<open>The double nearest to \<open>m * base ^ e\<close>.\<close>

definition dbl_scaled :: "bool \<Rightarrow> int \<Rightarrow> int \<Rightarrow> int \<Rightarrow> lua_Number" where
  "dbl_scaled neg m base e =
     dbl_make neg (if m = 0 then 0
       else if 0 \<le> e then round_mag (m * base ^ nat e * DBL_ONE) 1
       else round_mag (m * DBL_ONE) (base ^ nat (- e)))"

definition split_sign :: "byte list \<Rightarrow> bool \<times> byte list" where
  "split_sign s = (case s of [] \<Rightarrow> (False, s)
     | c # r \<Rightarrow> if c = 45 then (True, r) else if c = 43 then (False, r) else (False, s))"

text \<open>Digits with an optional fraction: the digits, the number of those after the point, and
  the rest.\<close>

definition mantissa :: "(byte \<Rightarrow> bool) \<Rightarrow> byte \<Rightarrow> byte list \<Rightarrow> byte list \<times> nat \<times> byte list" where
  "mantissa P dp s =
     (let i = takeWhile P s; r = dropWhile P s
      in case r of
           [] \<Rightarrow> (i, 0, r)
         | c # r' \<Rightarrow> if c = dp then (i @ takeWhile P r', length (takeWhile P r'), dropWhile P r')
                    else (i, 0, r))"

text \<open>An optional exponent; without digits it is not part of the number.\<close>

definition exponent :: "byte \<Rightarrow> byte list \<Rightarrow> int \<times> byte list" where
  "exponent mark s =
     (case s of [] \<Rightarrow> (0, s)
      | c # r \<Rightarrow>
          if lower_b c = mark then
            (case split_sign r of (neg, r') \<Rightarrow>
               let ds = takeWhile is_digit_b r'
               in if ds = [] then (0, s)
                  else (if neg then - read_nat 10 ds else read_nat 10 ds, dropWhile is_digit_b r'))
          else (0, s))"

definition match_word :: "string \<Rightarrow> byte list \<Rightarrow> byte list option" where
  "match_word w s =
     (if map lower_b (take (length w) s) = bytes w then Some (drop (length w) s) else None)"

text \<open>\<open>strtod\<close>: the value and the rest of the string; None when there is no number.\<close>

definition strtod_hex :: "bool \<Rightarrow> byte \<Rightarrow> byte list \<Rightarrow> (lua_Number \<times> byte list) option" where
  "strtod_hex neg dp s =
     (case s of
        z # x # r \<Rightarrow>
          if z = 48 \<and> lower_b x = 120 then
            (case mantissa is_xdigit_b dp r of (ds, nf, r') \<Rightarrow>
               if ds = [] then None
               else (case exponent 112 r' of (e, r'') \<Rightarrow>
                 Some (dbl_scaled neg (read_nat 16 ds) 2 (e - 4 * int nf), r'')))
          else None
      | _ \<Rightarrow> None)"

definition strtod_dec :: "bool \<Rightarrow> byte \<Rightarrow> byte list \<Rightarrow> (lua_Number \<times> byte list) option" where
  "strtod_dec neg dp s =
     (case mantissa is_digit_b dp s of (ds, nf, r) \<Rightarrow>
        if ds = [] then None
        else (case exponent 101 r of (e, r') \<Rightarrow>
          Some (dbl_scaled neg (read_nat 10 ds) 10 (e - int nf), r')))"

definition strtod_word :: "bool \<Rightarrow> byte list \<Rightarrow> (lua_Number \<times> byte list) option" where
  "strtod_word neg s =
     (case match_word ''infinity'' s of
        Some r \<Rightarrow> Some (dbl_inf neg, r)
      | None \<Rightarrow>
          (case match_word ''inf'' s of
             Some r \<Rightarrow> Some (dbl_inf neg, r)
           | None \<Rightarrow> map_option (\<lambda>r. (dbl_nan, r)) (match_word ''nan'' s)))"

definition c_strtod :: "byte \<Rightarrow> byte list \<Rightarrow> (lua_Number \<times> byte list) option" where
  "c_strtod dp s =
     (case split_sign (dropWhile is_space_b s) of (neg, r) \<Rightarrow>
        case strtod_hex neg dp r of
          Some v \<Rightarrow> Some v
        | None \<Rightarrow> (case strtod_dec neg dp r of Some v \<Rightarrow> Some v | None \<Rightarrow> strtod_word neg r))"

text \<open>\<open>strtoul\<close> in base 16: the \<open>unsigned long\<close> and the rest; no digits give 0 and the string.\<close>

definition c_strtoul16 :: "byte list \<Rightarrow> int \<times> byte list" where
  "c_strtoul16 s =
     (case split_sign (dropWhile is_space_b s) of (neg, r) \<Rightarrow>
        let r' = (case r of z # x # d # _ \<Rightarrow> if z = 48 \<and> lower_b x = 120 \<and> is_xdigit_b d then drop 2 r else r
                  | _ \<Rightarrow> r);
            ds = takeWhile is_xdigit_b r'; v = read_nat 16 ds
        in if ds = [] then (0, s)
           else ((if 2 ^ 64 \<le> v then 2 ^ 64 - 1 else if neg then (- v) mod 2 ^ 64 else v),
                 dropWhile is_xdigit_b r'))"

section \<open>lobject.c\<close>

text \<open>\<open>luaO_str2d\<close> on a C string; \<open>dp\<close> is the decimal point of the locale.\<close>

definition luaO_str2d :: "byte \<Rightarrow> byte list \<Rightarrow> lua_Number option" where
  "luaO_str2d dp s0 =
     (let s = c_str s0
      in case c_strtod dp s of
           None \<Rightarrow> None
         | Some (v, endp) \<Rightarrow>
             (let (v', endp') =
                (case endp of
                   x # _ \<Rightarrow> if lower_b x = 120
                      then (case c_strtoul16 s of (u, r) \<Rightarrow> (dbl_scaled False u 10 0, r))
                      else (v, endp)
                 | [] \<Rightarrow> (v, endp))
              in if dropWhile is_space_b endp' = [] then Some v' else None))"

text \<open>\<open>luaO_chunkid\<close>: the contents of \<open>out\<close> for a source name and the size of the buffer.\<close>

definition luaO_chunkid :: "byte list \<Rightarrow> nat \<Rightarrow> byte list" where
  "luaO_chunkid source0 bufflen =
     (let source = c_str source0
      in if source \<noteq> [] \<and> hd source = 61 then take (bufflen - 1) (tl source)
         else if source \<noteq> [] \<and> hd source = 64 then
           (let s = tl source; n = bufflen - 8; l = length s
            in if n < l then bytes ''...'' @ drop (l - n) s else s)
         else
           (let len0 = length (takeWhile (\<lambda>b. b \<noteq> 10 \<and> b \<noteq> 13) source);
                n = bufflen - 17; len = min len0 n
            in bytes ''[string '' @ [34] @
               (if len < length source then take len source @ bytes ''...'' else source) @ [34, 93]))"

end
