(* ===== verification/LLex.thy ===== *)
theory LLex
  imports LZio LStr StateRes
begin

text \<open>
  \<open>llex.c\<close>: the lexical analyser, over the stream of \<open>LZio\<close>. A token carries its number or the
  contents of its string; \<open>luaX_newstring\<close> interns those, which \<open>LString\<close> models, so here it is the
  identity; its other half, the entry that keeps the string alive in the constant table of the
  function being compiled, is \<open>luaX_anchor\<close> in \<open>LCode\<close>, made by \<open>next_token\<close> of \<open>LParser\<close>. Each loop over the input carries
  \<open>ls_fuel\<close>, a bound on the characters it may read, and fails with \<open>OutOfFuel\<close> beyond it; more
  than the length of the input is always enough. \<open>LUA_COMPAT_LSTR\<close> is 1, as configured.
  \<open>ls_locale\<close> is the decimal point \<open>localeconv\<close> reports.
\<close>

section \<open>Tokens\<close>

definition FIRST_RESERVED :: int where "FIRST_RESERVED = 257"
definition NUM_RESERVED :: int where "NUM_RESERVED = 21"

definition luaX_tokens :: "string list" where
  "luaX_tokens =
     [''and'', ''break'', ''do'', ''else'', ''elseif'', ''end'', ''false'', ''for'', ''function'',
      ''if'', ''in'', ''local'', ''nil'', ''not'', ''or'', ''repeat'', ''return'', ''then'',
      ''true'', ''until'', ''while'', ''..'', ''...'', ''=='', ''>='', ''<='', ''~='',
      ''<number>'', ''<name>'', ''<string>'', ''<eof>'']"

definition TK_AND :: int where "TK_AND = 257"
definition TK_BREAK :: int where "TK_BREAK = 258"
definition TK_DO :: int where "TK_DO = 259"
definition TK_ELSE :: int where "TK_ELSE = 260"
definition TK_ELSEIF :: int where "TK_ELSEIF = 261"
definition TK_END :: int where "TK_END = 262"
definition TK_FALSE :: int where "TK_FALSE = 263"
definition TK_FOR :: int where "TK_FOR = 264"
definition TK_FUNCTION :: int where "TK_FUNCTION = 265"
definition TK_IF :: int where "TK_IF = 266"
definition TK_IN :: int where "TK_IN = 267"
definition TK_LOCAL :: int where "TK_LOCAL = 268"
definition TK_NIL :: int where "TK_NIL = 269"
definition TK_NOT :: int where "TK_NOT = 270"
definition TK_OR :: int where "TK_OR = 271"
definition TK_REPEAT :: int where "TK_REPEAT = 272"
definition TK_RETURN :: int where "TK_RETURN = 273"
definition TK_THEN :: int where "TK_THEN = 274"
definition TK_TRUE :: int where "TK_TRUE = 275"
definition TK_UNTIL :: int where "TK_UNTIL = 276"
definition TK_WHILE :: int where "TK_WHILE = 277"
definition TK_CONCAT :: int where "TK_CONCAT = 278"
definition TK_DOTS :: int where "TK_DOTS = 279"
definition TK_EQ :: int where "TK_EQ = 280"
definition TK_GE :: int where "TK_GE = 281"
definition TK_LE :: int where "TK_LE = 282"
definition TK_NE :: int where "TK_NE = 283"
definition TK_NUMBER :: int where "TK_NUMBER = 284"
definition TK_NAME :: int where "TK_NAME = 285"
definition TK_STRING :: int where "TK_STRING = 286"
definition TK_EOS :: int where "TK_EOS = 287"

text \<open>\<open>SemInfo\<close> is a union; a token without a value has the constructor \<open>NoInfo\<close>.\<close>

datatype SemInfo = NoInfo | SemR lua_Number | SemTs "byte list"

record Token =
  token :: int
  seminfo :: SemInfo

section \<open>State\<close>

record 'd LexState =
  current :: int
  linenumber :: int
  lastline :: int
  ls_t :: Token
  lookahead :: Token
  ls_z :: "'d ZIO"
  ls_reader :: "'d lua_Reader"
  ls_buff :: Mbuffer
  ls_source :: "byte list"
  decpoint :: byte
  ls_locale :: byte
  ls_fuel :: nat

type_synonym ('d, 'a) lx = "('d LexState, 'a) sm"

definition next_char :: "('d, unit) lx" where
  "next_char ls =
     rbind (zgetc (ls_reader ls) (ls_z ls)) (\<lambda>(c, z). Inr ((), ls\<lparr>current := c, ls_z := z\<rparr>))"

definition currIsNewline :: "'d LexState \<Rightarrow> bool" where
  "currIsNewline ls \<longleftrightarrow> current ls = 10 \<or> current ls = 13"

section \<open>Errors\<close>

definition MAXSRC :: nat where "MAXSRC = 80"

definition luaX_token2str :: "int \<Rightarrow> byte list" where
  "luaX_token2str tok =
     (if tok < FIRST_RESERVED then
        (if iscntrl tok then bytes ''char('' @ dec_int tok @ bytes '')'' else [word_of_int tok])
      else bytes (luaX_tokens ! nat (tok - FIRST_RESERVED)))"

definition txtToken :: "int \<Rightarrow> 'd LexState \<Rightarrow> byte list" where
  "txtToken tok ls =
     (if tok = TK_NAME \<or> tok = TK_STRING \<or> tok = TK_NUMBER then c_str (mbuffer (ls_buff ls))
      else luaX_token2str tok)"

text \<open>The message of a syntax error; token 0 stands for no token. Saving the final zero of the
  token text cannot itself fail here: the buffer grows by doubling and \<open>save\<close> checks only for
  an element of half the address space.\<close>

definition lex_message :: "string \<Rightarrow> int \<Rightarrow> 'd LexState \<Rightarrow> byte list" where
  "lex_message msg tok ls =
     luaO_chunkid (ls_source ls) MAXSRC @ [58] @ dec_int (linenumber ls) @ bytes '': '' @ bytes msg @
     (if tok \<noteq> 0 then bytes '' near '' @ [39] @ c_str (txtToken tok ls) @ [39] else [])"

definition luaX_lexerror :: "string \<Rightarrow> int \<Rightarrow> ('d, 'a) lx" where
  "luaX_lexerror msg tok ls = Inl (ErrSyntax (chars (lex_message msg tok ls)))"

definition luaX_syntaxerror :: "string \<Rightarrow> ('d, 'a) lx" where
  "luaX_syntaxerror msg ls = luaX_lexerror msg (token (ls_t ls)) ls"

section \<open>The token buffer\<close>

text \<open>\<open>b->buffer[b->n++] = c\<close>: a store past the end of the buffer is undefined.\<close>

definition put_char :: "Mbuffer \<Rightarrow> int \<Rightarrow> Mbuffer res" where
  "put_char b c =
     (if length (mbuffer b) < buffsize b then Inr (b\<lparr>mbuffer := mbuffer b @ [word_of_int c]\<rparr>)
      else Inl Undefined)"

definition save :: "int \<Rightarrow> ('d, unit) lx" where
  "save c ls =
     (let b = ls_buff ls; n = length (mbuffer b)
      in if buffsize b < n + 1 \<and> (2 ^ 64 - 3) div 2 \<le> buffsize b then
           luaX_lexerror ''lexical element too long'' 0 ls
         else (let b' = (if buffsize b < n + 1 then luaZ_resizebuffer b (buffsize b * 2) else b)
           in rbind (put_char b' c) (\<lambda>b'. Inr ((), ls\<lparr>ls_buff := b'\<rparr>))))"

definition save_and_next :: "('d, unit) lx" where
  "save_and_next = sbind (sget current) (\<lambda>c. sthen (save c) next_char)"

definition luaZ_resetbuffer :: "('d, unit) lx" where
  "luaZ_resetbuffer = supd (\<lambda>ls. ls\<lparr>ls_buff := (ls_buff ls)\<lparr>mbuffer := []\<rparr>\<rparr>)"

definition luaX_newstring :: "byte list \<Rightarrow> ('d, byte list) lx" where
  "luaX_newstring str = sret str"

text \<open>\<open>while (P(ls->current)) save_and_next(ls)\<close>, and the same without saving.\<close>

fun save_while :: "(int \<Rightarrow> bool) \<Rightarrow> nat \<Rightarrow> ('d, unit) lx" where
  "save_while P 0 = serror OutOfFuel"
| "save_while P (Suc fuel) =
     sbind (sget current) (\<lambda>c. if P c then sthen save_and_next (save_while P fuel) else sret ())"

fun skip_while :: "(int \<Rightarrow> bool) \<Rightarrow> nat \<Rightarrow> ('d, unit) lx" where
  "skip_while P 0 = serror OutOfFuel"
| "skip_while P (Suc fuel) =
     sbind (sget current) (\<lambda>c. if P c then sthen next_char (skip_while P fuel) else sret ())"

section \<open>Elements\<close>

definition inclinenumber :: "('d, unit) lx" where
  "inclinenumber =
     sbind (sget current) (\<lambda>old.
     sthen next_char
       (sbind (sget (\<lambda>ls. currIsNewline ls \<and> current ls \<noteq> old)) (\<lambda>pair.
       sthen (if pair then next_char else sret ())
         (sthen (supd (\<lambda>ls. ls\<lparr>linenumber := linenumber ls + 1\<rparr>))
           (sbind (sget linenumber) (\<lambda>n.
             if INT_MAX - 2 \<le> n then luaX_syntaxerror ''chunk has too many lines'' else sret ()))))))"

text \<open>\<open>strchr\<close> also finds the terminator of the set: a zero character always matches.\<close>

definition strchr :: "string \<Rightarrow> int \<Rightarrow> bool" where
  "strchr s c \<longleftrightarrow> (word_of_int c :: byte) \<in> set (bytes s @ [0])"

definition check_next :: "string \<Rightarrow> ('d, bool) lx" where
  "check_next s =
     sbind (sget current) (\<lambda>c. if strchr s c then sthen save_and_next (sret True) else sret False)"

definition buffreplace :: "byte \<Rightarrow> byte \<Rightarrow> ('d, unit) lx" where
  "buffreplace from to =
     supd (\<lambda>ls. ls\<lparr>ls_buff := (ls_buff ls)\<lparr>mbuffer :=
       map (\<lambda>b. if b = from then to else b) (mbuffer (ls_buff ls))\<rparr>\<rparr>)"

definition buff_str2d :: "('d, lua_Number option) lx" where
  "buff_str2d = sget (\<lambda>ls. luaO_str2d (ls_locale ls) (mbuffer (ls_buff ls)))"

definition trydecpoint :: "('d, SemInfo) lx" where
  "trydecpoint =
     sbind (sget decpoint) (\<lambda>old.
     sthen (supd (\<lambda>ls. ls\<lparr>decpoint := ls_locale ls\<rparr>))
       (sbind (sget decpoint) (\<lambda>dp. sthen (buffreplace old dp)
         (sbind buff_str2d (\<lambda>r. case r of
            Some v \<Rightarrow> sret (SemR v)
          | None \<Rightarrow> sthen (buffreplace dp 46) (luaX_lexerror ''malformed number'' TK_NUMBER))))))"

definition read_numeral :: "('d, SemInfo) lx" where
  "read_numeral =
     sbind (sget ls_fuel) (\<lambda>fuel.
     sthen save_and_next (sthen (save_while (\<lambda>c. isdigit c \<or> c = 46) fuel)
       (sbind (check_next ''Ee'') (\<lambda>e.
       sthen (if e then sthen (check_next ''+-'') (sret ()) else sret ())
         (sthen (save_while (\<lambda>c. isalnum c \<or> c = 95) fuel)
           (sthen (save 0)
             (sbind (sget decpoint) (\<lambda>dp. sthen (buffreplace 46 dp)
               (sbind buff_str2d (\<lambda>r. case r of Some v \<Rightarrow> sret (SemR v) | None \<Rightarrow> trydecpoint))))))))))"

definition skip_sep :: "('d, int) lx" where
  "skip_sep =
     sbind (sget current) (\<lambda>s. sbind (sget ls_fuel) (\<lambda>fuel.
     sthen save_and_next
       (sbind (sget (\<lambda>ls. length (mbuffer (ls_buff ls)))) (\<lambda>n0.
       sthen (save_while (\<lambda>c. c = 61) fuel)
         (sbind (sget (\<lambda>ls. length (mbuffer (ls_buff ls)))) (\<lambda>n.
         sbind (sget current) (\<lambda>c.
           let count = int n - int n0 in sret (if c = s then count else - count - 1))))))))"

text \<open>\<open>keep\<close> tells a string from a comment (\<open>seminfo\<close> not NULL).\<close>

fun long_string_loop :: "bool \<Rightarrow> int \<Rightarrow> nat \<Rightarrow> ('d, unit) lx" where
  "long_string_loop keep sep 0 = serror OutOfFuel"
| "long_string_loop keep sep (Suc fuel) =
     sbind (sget current) (\<lambda>c.
       if c = EOZ then
         luaX_lexerror (if keep then ''unfinished long string'' else ''unfinished long comment'') TK_EOS
       else if c = 91 then
         sbind skip_sep (\<lambda>s.
           if s = sep then
             sthen save_and_next
               (if sep = 0 then luaX_lexerror ''nesting of [[...]] is deprecated'' 91
                else long_string_loop keep sep fuel)
           else long_string_loop keep sep fuel)
       else if c = 93 then
         sbind skip_sep (\<lambda>s. if s = sep then save_and_next else long_string_loop keep sep fuel)
       else if c = 10 \<or> c = 13 then
         sthen (save 10) (sthen inclinenumber
           (sthen (if keep then sret () else luaZ_resetbuffer) (long_string_loop keep sep fuel)))
       else sthen (if keep then save_and_next else next_char) (long_string_loop keep sep fuel))"

text \<open>The contents between delimiters of \<open>d\<close> characters each.\<close>

definition inner_string :: "nat \<Rightarrow> ('d, SemInfo) lx" where
  "inner_string d =
     sbind (sget (\<lambda>ls. mbuffer (ls_buff ls))) (\<lambda>buf.
     sbind (luaX_newstring (take (length buf - 2 * d) (drop d buf))) (\<lambda>ts. sret (SemTs ts)))"

definition read_long_string :: "bool \<Rightarrow> int \<Rightarrow> ('d, SemInfo) lx" where
  "read_long_string keep sep =
     sthen save_and_next
       (sbind (sget currIsNewline) (\<lambda>nl.
       sthen (if nl then inclinenumber else sret ())
         (sbind (sget ls_fuel) (\<lambda>fuel.
         sthen (long_string_loop keep sep fuel)
           (if keep then inner_string (nat (2 + sep)) else sret NoInfo)))))"

definition simple_escape :: "int \<Rightarrow> int option" where
  "simple_escape c =
     map_of [(97, 7), (98, 8), (102, 12), (110, 10), (114, 13), (116, 9), (118, 11)] c"

text \<open>A decimal escape: \<open>i\<close> more digits at most, \<open>c\<close> their value so far.\<close>

fun decimal_escape :: "nat \<Rightarrow> int \<Rightarrow> ('d, int) lx" where
  "decimal_escape 0 c = sret c"
| "decimal_escape (Suc i) c =
     sbind (sget current) (\<lambda>d.
       if isdigit d then sthen next_char (decimal_escape i (10 * c + (d - 48))) else sret c)"

definition read_escape :: "('d, unit) lx" where
  "read_escape =
     sthen next_char
       (sbind (sget current) (\<lambda>c.
          case simple_escape c of
            Some e \<Rightarrow> sthen (save e) next_char
          | None \<Rightarrow>
              if c = 10 \<or> c = 13 then sthen (save 10) inclinenumber
              else if c = EOZ then sret ()
              else if \<not> isdigit c then save_and_next
              else sbind (decimal_escape 3 0) (\<lambda>v.
                if 255 < v then luaX_lexerror ''escape sequence too large'' TK_STRING else save v)))"

fun string_loop :: "int \<Rightarrow> nat \<Rightarrow> ('d, unit) lx" where
  "string_loop del 0 = serror OutOfFuel"
| "string_loop del (Suc fuel) =
     sbind (sget current) (\<lambda>c.
       if c = del then sret ()
       else if c = EOZ then luaX_lexerror ''unfinished string'' TK_EOS
       else if c = 10 \<or> c = 13 then luaX_lexerror ''unfinished string'' TK_STRING
       else if c = 92 then sthen read_escape (string_loop del fuel)
       else sthen save_and_next (string_loop del fuel))"

definition read_string :: "int \<Rightarrow> ('d, SemInfo) lx" where
  "read_string del =
     sthen save_and_next (sbind (sget ls_fuel) (\<lambda>fuel.
     sthen (string_loop del fuel) (sthen save_and_next (inner_string 1))))"

section \<open>The analyser\<close>

text \<open>The position of a reserved word in the token names.\<close>

definition reserved :: "byte list \<Rightarrow> int option" where
  "reserved ts =
     (case filter (\<lambda>i. bytes (luaX_tokens ! i) = ts) [0..<nat NUM_RESERVED] of
        [] \<Rightarrow> None | i # _ \<Rightarrow> Some (int i))"

definition tok2 :: "int \<Rightarrow> int \<Rightarrow> int \<Rightarrow> ('d, int \<times> SemInfo) lx" where
  "tok2 second one two =
     sthen next_char (sbind (sget current) (\<lambda>c.
       if c \<noteq> second then sret (one, NoInfo) else sthen next_char (sret (two, NoInfo))))"

definition name_or_reserved :: "('d, int \<times> SemInfo) lx" where
  "name_or_reserved =
     sbind (sget ls_fuel) (\<lambda>fuel.
     sthen save_and_next (sthen (save_while (\<lambda>c. isalnum c \<or> c = 95) fuel)
       (sbind (sget (\<lambda>ls. mbuffer (ls_buff ls))) (\<lambda>buf. sbind (luaX_newstring buf) (\<lambda>ts.
         sret (case reserved ts of Some i \<Rightarrow> (i + FIRST_RESERVED, NoInfo) | None \<Rightarrow> (TK_NAME, SemTs ts)))))))"

text \<open>A comment, after the second dash.\<close>

definition skip_comment :: "('d, unit) lx" where
  "skip_comment =
     sthen next_char (sbind (sget ls_fuel) (\<lambda>fuel.
       let short_comment = skip_while (\<lambda>c. c \<noteq> 10 \<and> c \<noteq> 13 \<and> c \<noteq> EOZ) fuel
       in sbind (sget current) (\<lambda>c.
         if c = 91 then
           sbind skip_sep (\<lambda>sep. sthen luaZ_resetbuffer
             (if 0 \<le> sep then sthen (read_long_string False sep) luaZ_resetbuffer else short_comment))
         else short_comment)))"

fun llex_loop :: "nat \<Rightarrow> ('d, int \<times> SemInfo) lx" where
  "llex_loop 0 = serror OutOfFuel"
| "llex_loop (Suc fuel) =
     sbind (sget current) (\<lambda>c.
       if c = 10 \<or> c = 13 then sthen inclinenumber (llex_loop fuel)
       else if c = 45 then
         sthen next_char (sbind (sget current) (\<lambda>c2.
           if c2 \<noteq> 45 then sret (45, NoInfo) else sthen skip_comment (llex_loop fuel)))
       else if c = 91 then
         sbind skip_sep (\<lambda>sep.
           if 0 \<le> sep then sbind (read_long_string True sep) (\<lambda>s. sret (TK_STRING, s))
           else if sep = - 1 then sret (91, NoInfo)
           else luaX_lexerror ''invalid long string delimiter'' TK_STRING)
       else if c = 61 then tok2 61 61 TK_EQ
       else if c = 60 then tok2 61 60 TK_LE
       else if c = 62 then tok2 61 62 TK_GE
       else if c = 126 then tok2 61 126 TK_NE
       else if c = 34 \<or> c = 39 then sbind (read_string c) (\<lambda>s. sret (TK_STRING, s))
       else if c = 46 then
         sthen save_and_next (sbind (check_next ''.'') (\<lambda>d.
           if d then sbind (check_next ''.'') (\<lambda>d2. sret (if d2 then TK_DOTS else TK_CONCAT, NoInfo))
           else sbind (sget current) (\<lambda>c2.
             if \<not> isdigit c2 then sret (46, NoInfo)
             else sbind read_numeral (\<lambda>r. sret (TK_NUMBER, r)))))
       else if c = EOZ then sret (TK_EOS, NoInfo)
       else if isspace c then sthen next_char (llex_loop fuel)
       else if isdigit c then sbind read_numeral (\<lambda>r. sret (TK_NUMBER, r))
       else if isalpha c \<or> c = 95 then name_or_reserved
       else sthen next_char (sret (c, NoInfo)))"

definition llex :: "('d, int \<times> SemInfo) lx" where
  "llex = sthen luaZ_resetbuffer (sbind (sget ls_fuel) llex_loop)"

section \<open>Interface to the parser\<close>

definition no_token :: Token where "no_token = \<lparr>token = TK_EOS, seminfo = NoInfo\<rparr>"

definition luaX_next :: "('d, unit) lx" where
  "luaX_next =
     sthen (supd (\<lambda>ls. ls\<lparr>lastline := linenumber ls\<rparr>))
       (sbind (sget lookahead) (\<lambda>la.
         if token la \<noteq> TK_EOS then supd (\<lambda>ls. ls\<lparr>ls_t := la, lookahead := la\<lparr>token := TK_EOS\<rparr>\<rparr>)
         else sbind llex (\<lambda>(t, s). supd (\<lambda>ls. ls\<lparr>ls_t := \<lparr>token = t, seminfo = s\<rparr>\<rparr>))))"

definition luaX_lookahead :: "('d, unit) lx" where
  "luaX_lookahead = sbind llex (\<lambda>(t, s). supd (\<lambda>ls. ls\<lparr>lookahead := \<lparr>token = t, seminfo = s\<rparr>\<rparr>))"

definition luaX_setinput :: "'d lua_Reader \<Rightarrow> 'd ZIO \<Rightarrow> Mbuffer \<Rightarrow> byte list \<Rightarrow> byte \<Rightarrow> nat \<Rightarrow> 'd LexState res" where
  "luaX_setinput reader z buff source locale fuel =
     rbind (next_char \<lparr>current = 0, linenumber = 1, lastline = 1, ls_t = no_token, lookahead = no_token,
         ls_z = z, ls_reader = reader, ls_buff = luaZ_resizebuffer buff LUA_MINBUFFER,
         ls_source = source, decpoint = 46, ls_locale = locale, ls_fuel = fuel\<rparr>)
       (\<lambda>(_, ls). Inr ls)"

text \<open>All tokens of a text: the calls of \<open>luaX_next\<close> up to the end of the stream.\<close>

fun lex_all :: "nat \<Rightarrow> 'd LexState \<Rightarrow> Token list res" where
  "lex_all 0 ls = Inl OutOfFuel"
| "lex_all (Suc n) ls =
     rbind (luaX_next ls) (\<lambda>(_, ls').
       if token (ls_t ls') = TK_EOS then Inr []
       else rbind (lex_all n ls') (\<lambda>ts. Inr (ls_t ls' # ts)))"

definition lex_bytes :: "byte list \<Rightarrow> Token list res" where
  "lex_bytes bs =
     rbind (luaX_setinput list_reader (luaZ_init [bs]) \<lparr>mbuffer = [], buffsize = 0\<rparr> (bytes ''=in'') 46
         (length bs + 2)) (lex_all (length bs + 2))"

end
