(* ===== verification/LLexSafe.thy ===== *)
theory LLexSafe
  imports LLex "HOL-Library.Sublist"
begin

text \<open>
  The lexical analyser on any input: it ends, reads nothing beyond the end of its stream, and
  fails only with a syntax error. \<open>runs E m ls bs Q\<close>: from a lexer \<open>ls\<close> whose remaining input is
  \<open>bs\<close>, the operation \<open>m\<close> either fails with an error in \<open>E\<close>, or leaves a suffix of \<open>bs\<close> and
  establishes \<open>Q\<close>. There is one rule per operation, applied backwards.
\<close>

section \<open>The remaining input\<close>

text \<open>The token buffer is not empty and holds no more than its size.\<close>

definition buffer_ok :: "Mbuffer \<Rightarrow> bool" where
  "buffer_ok b \<longleftrightarrow> 0 < buffsize b \<and> length (mbuffer b) \<le> buffsize b"

text \<open>The character already read, and the bytes the stream still delivers.\<close>

definition ahead :: "'d LexState \<Rightarrow> byte list \<Rightarrow> bool" where
  "ahead ls bs \<longleftrightarrow> buffer_ok (ls_buff ls) \<and>
     (case bs of [] \<Rightarrow> current ls = EOZ
      | b # cs \<Rightarrow> current ls = char2int b \<and> holds (ls_reader ls) (ls_z ls) cs)"

text \<open>What the operations below leave alone.\<close>

definition same_frame :: "'d LexState \<Rightarrow> 'd LexState \<Rightarrow> bool" where
  "same_frame ls ls' \<longleftrightarrow> ls_fuel ls' = ls_fuel ls \<and> lookahead ls' = lookahead ls"

definition runs ::
    "(lua_error \<Rightarrow> bool) \<Rightarrow> ('d, 'a) lx \<Rightarrow> 'd LexState \<Rightarrow> byte list \<Rightarrow>
      ('a \<Rightarrow> 'd LexState \<Rightarrow> byte list \<Rightarrow> bool) \<Rightarrow> bool" where
  "runs E m ls bs Q \<longleftrightarrow>
     (ahead ls bs \<longrightarrow>
       (case m ls of
          Inl e \<Rightarrow> E e
        | Inr (x, ls') \<Rightarrow> same_frame ls ls' \<and> (\<exists>cs. suffix cs bs \<and> ahead ls' cs \<and> Q x ls' cs)))"

lemma ahead_Nil: "ahead ls [] \<longleftrightarrow> buffer_ok (ls_buff ls) \<and> current ls = EOZ" by (simp add: ahead_def)

lemma ahead_Cons: "ahead ls (b # cs) \<longleftrightarrow> buffer_ok (ls_buff ls) \<and> current ls = uint b \<and> holds (ls_reader ls) (ls_z ls) cs"
  by (simp add: ahead_def char2int_def)

lemma ahead_current:
  "ahead ls bs \<Longrightarrow> current ls = (case bs of [] \<Rightarrow> - 1 | b # _ \<Rightarrow> uint b)"
  by (simp add: ahead_def char2int_def EOZ_def split: list.splits)

lemma ahead_EOZ_iff: "ahead ls bs \<Longrightarrow> current ls = EOZ \<longleftrightarrow> bs = []"
  using char2int_not_EOZ by (auto simp: ahead_def split: list.splits)

lemma ahead_cong:
  "current ls' = current ls \<Longrightarrow> ls_z ls' = ls_z ls \<Longrightarrow> ls_reader ls' = ls_reader ls \<Longrightarrow>
    buffer_ok (ls_buff ls) \<Longrightarrow> ahead ls' bs \<longleftrightarrow> ahead ls bs \<and> buffer_ok (ls_buff ls')"
  by (auto simp: ahead_def split: list.split)

section \<open>Rules\<close>

lemma runsI:
  "(ahead ls bs \<Longrightarrow> \<exists>x ls' cs. m ls = Inr (x, ls') \<and> same_frame ls ls' \<and> suffix cs bs \<and> ahead ls' cs \<and> Q x ls' cs)
    \<Longrightarrow> runs E m ls bs Q"
  by (fastforce simp: runs_def)

lemma runs_at: "(ahead ls bs \<Longrightarrow> runs E m ls bs Q) \<Longrightarrow> runs E m ls bs Q"
  by (auto simp: runs_def)

lemma runs_bind:
  assumes "runs E m ls bs R"
    and "\<And>x ls' cs. R x ls' cs \<Longrightarrow> ahead ls' cs \<Longrightarrow> suffix cs bs \<Longrightarrow> same_frame ls ls' \<Longrightarrow>
      runs E (f x) ls' cs Q"
  shows "runs E (sbind m f) ls bs Q"
  unfolding runs_def
proof (intro impI)
  assume a: "ahead ls bs"
  show "case sbind m f ls of Inl e \<Rightarrow> E e | Inr (x, ls') \<Rightarrow> same_frame ls ls' \<and>
      (\<exists>cs. suffix cs bs \<and> ahead ls' cs \<and> Q x ls' cs)"
  proof (cases "m ls")
    case (Inl e)
    then show ?thesis using assms(1) a by (simp add: runs_def)
  next
    case (Inr r)
    obtain x l1 where r: "r = (x, l1)" by fastforce
    then obtain cs where "same_frame ls l1" "suffix cs bs" "ahead l1 cs" "R x l1 cs"
      using assms(1) a Inr by (auto simp: runs_def)
    with assms(2) [of x l1 cs] show ?thesis
      by (auto simp: Inr r runs_def same_frame_def intro: suffix_order.trans split: sum.splits prod.splits)
  qed
qed

lemma runs_weaken:
  "runs E m ls bs R \<Longrightarrow> (\<And>x ls' cs. R x ls' cs \<Longrightarrow> ahead ls' cs \<Longrightarrow> suffix cs bs \<Longrightarrow> Q x ls' cs) \<Longrightarrow> runs E m ls bs Q"
  by (fastforce simp: runs_def split: sum.splits prod.splits)

lemma runs_ret: "Q x ls bs \<Longrightarrow> runs E (sret x) ls bs Q" by (auto simp: runs_def same_frame_def)

lemma runs_get: "Q (g ls) ls bs \<Longrightarrow> runs E (sget g) ls bs Q" by (auto simp: runs_def same_frame_def)

lemma runs_error: "E e \<Longrightarrow> runs E (serror e) ls bs Q" by (simp add: runs_def)

lemma ahead_buffer: "ahead ls bs \<Longrightarrow> buffer_ok (ls_buff ls)" by (simp add: ahead_def)

lemma runs_upd:
  "current (h ls) = current ls \<Longrightarrow> ls_z (h ls) = ls_z ls \<Longrightarrow> ls_reader (h ls) = ls_reader ls \<Longrightarrow>
    same_frame ls (h ls) \<Longrightarrow> (buffer_ok (ls_buff ls) \<Longrightarrow> buffer_ok (ls_buff (h ls))) \<Longrightarrow>
    Q () (h ls) bs \<Longrightarrow> runs E (supd h) ls bs Q"
  using ahead_cong [of "h ls" ls bs] by (auto simp: runs_def dest: ahead_buffer)

lemma runs_get_bind [simp]: "runs E (sbind (sget g) f) ls bs Q \<longleftrightarrow> runs E (f (g ls)) ls bs Q"
  by (simp add: runs_def)

lemma runs_if: "(b \<Longrightarrow> runs E m ls bs Q) \<Longrightarrow> (\<not> b \<Longrightarrow> runs E n ls bs Q) \<Longrightarrow> runs E (if b then m else n) ls bs Q"
  by simp

lemma runs_next:
  assumes Q: "\<And>c cs z. bs = c # cs \<Longrightarrow> Q () (ls\<lparr>current := (case cs of [] \<Rightarrow> - 1 | d # _ \<Rightarrow> uint d), ls_z := z\<rparr>) cs"
    and ne: "bs \<noteq> []"
  shows "runs E next_char ls bs Q"
proof (rule runsI)
  assume a: "ahead ls bs"
  obtain c cs where bs: "bs = c # cs" using ne by (cases bs) auto
  then have h: "holds (ls_reader ls) (ls_z ls) cs" and b: "buffer_ok (ls_buff ls)" using a by (simp_all add: ahead_Cons)
  define d where "d = (case cs of [] \<Rightarrow> - 1 | d # _ \<Rightarrow> uint d)"
  obtain z where z: "zgetc (ls_reader ls) (ls_z ls) = Inr (d, z)" "cs \<noteq> [] \<Longrightarrow> holds (ls_reader ls) z (tl cs)"
    using zgetc_cases [OF h] by (cases cs) (auto simp: EOZ_def char2int_def d_def)
  have "ahead (ls\<lparr>current := d, ls_z := z\<rparr>) cs"
    using b z(2) by (cases cs) (simp_all add: ahead_Nil ahead_Cons d_def EOZ_def)
  then show "\<exists>x ls' ds. next_char ls = Inr (x, ls') \<and> same_frame ls ls' \<and> suffix ds bs \<and> ahead ls' ds \<and> Q x ls' ds"
    using Q [OF bs, of z, folded d_def] z(1) bs
    by (intro exI [of _ "()"] exI [of _ "ls\<lparr>current := d, ls_z := z\<rparr>"] exI [of _ cs])
      (simp add: next_char_def suffix_Cons same_frame_def)
qed

section \<open>Syntax errors only\<close>

definition is_syntax :: "lua_error \<Rightarrow> bool" where "is_syntax e \<longleftrightarrow> (\<exists>m. e = ErrSyntax m)"

abbreviation safe :: "('d, 'a) lx \<Rightarrow> 'd LexState \<Rightarrow> byte list \<Rightarrow> ('a \<Rightarrow> 'd LexState \<Rightarrow> byte list \<Rightarrow> bool) \<Rightarrow> bool" where
  "safe \<equiv> runs is_syntax"

lemma safe_lexerror: "safe (luaX_lexerror msg tok) ls bs Q"
  by (simp add: runs_def luaX_lexerror_def is_syntax_def)

lemma safe_syntaxerror: "safe (luaX_syntaxerror msg) ls bs Q"
  by (simp add: runs_def luaX_syntaxerror_def luaX_lexerror_def is_syntax_def)

text \<open>\<open>safe\<close> with nothing to say of the state left: what matters is how much input is.\<close>

abbreviation leaves :: "('d, 'a) lx \<Rightarrow> 'd LexState \<Rightarrow> byte list \<Rightarrow> (byte list \<Rightarrow> bool) \<Rightarrow> bool" where
  "leaves m ls bs P \<equiv> safe m ls bs (\<lambda>_ _. P)"

lemma safe_save:
  assumes "\<And>b. mbuffer b = mbuffer (ls_buff ls) @ [word_of_int c] \<Longrightarrow> Q () (ls\<lparr>ls_buff := b\<rparr>) bs"
  shows "safe (save c) ls bs Q"
proof (rule runs_at)
  assume a: "ahead ls bs"
  have ok: "ahead (ls\<lparr>ls_buff := b\<rparr>) bs" if "buffer_ok b" for b
    using ahead_cong [of "ls\<lparr>ls_buff := b\<rparr>" ls bs] a that by (auto dest: ahead_buffer)
  show ?thesis
    using ahead_buffer [OF a]
    by (auto simp: runs_def save_def put_char_def rbind_def luaX_lexerror_def is_syntax_def Let_def buffer_ok_def
        luaZ_resizebuffer_def same_frame_def intro!: assms ok)
qed

lemma leaves_save: "P bs \<Longrightarrow> leaves (save c) ls bs P"
  by (rule safe_save)

lemma leaves_next: "bs \<noteq> [] \<Longrightarrow> P (tl bs) \<Longrightarrow> leaves next_char ls bs P"
  by (rule runs_next) auto

lemma safe_save_and_next:
  assumes "bs \<noteq> []"
    and "\<And>b c z. mbuffer b = mbuffer (ls_buff ls) @ [hd bs] \<Longrightarrow> Q () (ls\<lparr>ls_buff := b, current := c, ls_z := z\<rparr>) (tl bs)"
  shows "safe save_and_next ls bs Q"
proof (rule runs_at)
  assume "ahead ls bs"
  then have c: "word_of_int (current ls) = hd bs" using assms(1) by (cases bs) (simp_all add: ahead_Cons)
  show ?thesis
    unfolding save_and_next_def runs_get_bind
    by (rule runs_bind [OF safe_save [where Q = "\<lambda>_ ls' cs. cs = bs \<and>
          (\<exists>b. ls' = ls\<lparr>ls_buff := b\<rparr> \<and> mbuffer b = mbuffer (ls_buff ls) @ [hd bs])"]])
      (use c assms in \<open>auto intro!: runs_next\<close>)
qed

lemma leaves_save_and_next: "bs \<noteq> [] \<Longrightarrow> P (tl bs) \<Longrightarrow> leaves save_and_next ls bs P"
  by (rule safe_save_and_next)

text \<open>What the current character says of the input.\<close>

lemma ahead_nonempty: "ahead ls bs \<Longrightarrow> 0 \<le> current ls \<Longrightarrow> bs \<noteq> []"
  by (auto dest: ahead_current)

lemma ahead_not_EOZ: "ahead ls bs \<Longrightarrow> current ls \<noteq> EOZ \<Longrightarrow> bs \<noteq> []"
  by (simp add: ahead_EOZ_iff)

lemma tl_shorter: "bs \<noteq> [] \<Longrightarrow> suffix cs (tl bs) \<Longrightarrow> length cs < length bs"
  by (cases bs) (auto dest: suffix_length_le)

lemma suffix_tl_trans: "suffix cs (tl bs) \<Longrightarrow> suffix cs bs"
  using suffix_order.trans suffix_tl by blast

text \<open>The loops over one class of characters.\<close>

lemma runs_loop:
  assumes eoz: "\<not> P EOZ" and refl: "\<And>ls. G ls ls" and trans: "\<And>l1 l2 l3. G l1 l2 \<Longrightarrow> G l2 l3 \<Longrightarrow> G l1 l3"
    and loop: "\<And>n. loop (Suc n) = sbind (sget current) (\<lambda>c. if P c then sthen body (loop n) else sret ())"
    and body: "\<And>ls bs. bs \<noteq> [] \<Longrightarrow> safe body ls bs (\<lambda>_ ls' cs. cs = tl bs \<and> G ls ls')"
  shows "length bs < n \<Longrightarrow> safe (loop n) ls bs (\<lambda>_ ls' _. G ls ls')"
proof (induction n arbitrary: ls bs)
  case (Suc n)
  show ?case
  proof (rule runs_at)
    assume a: "ahead ls bs"
    show ?thesis
    proof (cases "P (current ls)")
      case False
      then show ?thesis by (auto simp: runs_def loop refl same_frame_def)
    next
      case True
      then have ne: "bs \<noteq> []" using eoz by (metis ahead_not_EOZ [OF a])
      then have "length (tl bs) < n" using Suc.prems by (cases bs) auto
      then have "safe (sthen body (loop n)) ls bs (\<lambda>_ ls' _. G ls ls')"
        using ne by (intro runs_bind [OF body]) (auto intro!: runs_weaken [OF Suc.IH] elim: trans)
      then show ?thesis using True by (simp add: runs_def loop)
    qed
  qed
qed simp

lemma safe_save_while:
  "\<not> P EOZ \<Longrightarrow> length bs < n \<Longrightarrow> safe (save_while P n) ls bs
    (\<lambda>_ ls' _. length (mbuffer (ls_buff ls)) \<le> length (mbuffer (ls_buff ls')))"
  by (rule runs_loop [of P _ "save_while P" save_and_next]) (auto intro!: safe_save_and_next)

lemma leaves_save_while: "\<not> P EOZ \<Longrightarrow> length bs < n \<Longrightarrow> leaves (save_while P n) ls bs (\<lambda>_. True)"
  by (rule runs_weaken [OF safe_save_while]) auto

lemma leaves_skip_while: "\<not> P EOZ \<Longrightarrow> length bs < n \<Longrightarrow> leaves (skip_while P n) ls bs (\<lambda>_. True)"
  by (rule runs_loop [of P "\<lambda>_ _. True" "skip_while P" next_char]) (auto intro: leaves_next)

section \<open>Elements\<close>

abbreviation keeps_on :: "('d, 'a) lx \<Rightarrow> 'd LexState \<Rightarrow> byte list \<Rightarrow> bool" where
  "keeps_on m ls bs \<equiv> leaves m ls bs (\<lambda>_. True)"

abbreviation eats :: "('d, 'a) lx \<Rightarrow> 'd LexState \<Rightarrow> byte list \<Rightarrow> bool" where
  "eats m ls bs \<equiv> leaves m ls bs (\<lambda>cs. length cs < length bs)"

lemma eats_bind:
  assumes "eats m ls bs"
    and "\<And>x ls' cs. ahead ls' cs \<Longrightarrow> length cs < length bs \<Longrightarrow> ls_fuel ls' = ls_fuel ls \<Longrightarrow> keeps_on (f x) ls' cs"
  shows "eats (sbind m f) ls bs"
  by (rule runs_bind [OF assms(1)], rule runs_weaken [OF assms(2)]) (auto dest: suffix_length_le simp: same_frame_def)

lemma keeps_on_bind:
  assumes "keeps_on m ls bs"
    and "\<And>x ls' cs. ahead ls' cs \<Longrightarrow> length cs \<le> length bs \<Longrightarrow> ls_fuel ls' = ls_fuel ls \<Longrightarrow> keeps_on (f x) ls' cs"
  shows "keeps_on (sbind m f) ls bs"
  by (rule runs_bind [OF assms(1)]) (auto dest: suffix_length_le intro: assms(2) simp: same_frame_def)

lemma eats_keeps_on: "eats m ls bs \<Longrightarrow> keeps_on m ls bs"
  by (erule runs_weaken) simp

lemma eats_next: "bs \<noteq> [] \<Longrightarrow> eats next_char ls bs"
  by (rule leaves_next) auto

lemma eats_save_and_next: "bs \<noteq> [] \<Longrightarrow> eats save_and_next ls bs"
  by (rule leaves_save_and_next) auto

lemmas simple_steps = runs_ret runs_get safe_lexerror safe_syntaxerror leaves_save
  eats_next eats_save_and_next eats_keeps_on [OF eats_next] eats_keeps_on [OF eats_save_and_next]

lemma eats_inclinenumber: "bs \<noteq> [] \<Longrightarrow> eats inclinenumber ls bs"
  unfolding inclinenumber_def runs_get_bind
  by (rule eats_bind [OF eats_next], assumption, simp only: runs_get_bind)
    (intro keeps_on_bind runs_if simple_steps runs_upd,
      auto simp: currIsNewline_def same_frame_def intro!: simple_steps dest: ahead_nonempty)

lemma char_classes_EOZ [simp]:
  "\<not> isdigit EOZ" "\<not> isalpha EOZ" "\<not> isalnum EOZ" "\<not> isspace EOZ"
  by (simp_all add: isdigit_def isalpha_def isalnum_def isspace_def isupper_def islower_def EOZ_def)

lemma EOZ_numeral [simp]: "EOZ \<noteq> numeral n" "numeral n \<noteq> EOZ" "EOZ \<noteq> 0" "0 \<noteq> EOZ"
  using zero_le_numeral [of n, where ?'a = int] unfolding EOZ_def by linarith+

lemma strchr_EOZ [simp]: "\<not> strchr ''Ee'' EOZ" "\<not> strchr ''+-'' EOZ" "\<not> strchr ''.'' EOZ"
  by (simp_all add: strchr_def bytes_def EOZ_def of_char_def)

lemma keeps_on_check_next: "\<not> strchr s EOZ \<Longrightarrow> keeps_on (check_next s) ls bs"
  unfolding check_next_def runs_get_bind
  by (rule runs_at, intro runs_if keeps_on_bind runs_ret eats_keeps_on [OF eats_save_and_next])
    (auto dest: ahead_not_EOZ)

lemma keeps_on_buffreplace: "keeps_on (buffreplace from to) ls bs"
  unfolding buffreplace_def by (rule runs_upd) (auto simp: buffer_ok_def same_frame_def)

lemma keeps_on_trydecpoint: "keeps_on trydecpoint ls bs"
  unfolding trydecpoint_def buff_str2d_def runs_get_bind
  by (rule keeps_on_bind, rule runs_upd, simp_all add: same_frame_def,
      intro keeps_on_bind keeps_on_buffreplace, auto split: option.split
      intro!: simple_steps keeps_on_bind keeps_on_buffreplace)

lemma eats_read_numeral:
  "bs \<noteq> [] \<Longrightarrow> length bs < ls_fuel ls \<Longrightarrow> eats read_numeral ls bs"
  unfolding read_numeral_def buff_str2d_def runs_get_bind
  by (rule eats_bind [OF eats_save_and_next], assumption,
      intro keeps_on_bind keeps_on_check_next leaves_save_while runs_if)
    (auto split: option.split intro!: simple_steps keeps_on_bind keeps_on_buffreplace keeps_on_trydecpoint keeps_on_check_next)

lemma safe_skip_sep:
  assumes ne: "bs \<noteq> []" and f: "length bs < ls_fuel ls"
  shows "safe skip_sep ls bs (\<lambda>s ls' cs. length cs < length bs \<and> (0 \<le> s \<longrightarrow> current ls' = current ls))"
  unfolding skip_sep_def runs_get_bind
proof (rule runs_bind [OF eats_save_and_next [OF ne]], simp only: runs_get_bind)
  fix x l1 and cs :: "byte list" assume c: "length cs < length bs" "same_frame ls l1"
  have n: "length cs < ls_fuel ls" using c(1) f by simp
  show "safe (sthen (save_while (\<lambda>c. c = 61) (ls_fuel ls))
      (sbind (sget (\<lambda>ls. length (mbuffer (ls_buff ls)))) (\<lambda>n. sbind (sget current) (\<lambda>c.
        let count = int n - int (length (mbuffer (ls_buff l1)))
        in sret (if c = current ls then count else - count - 1)))))
      l1 cs (\<lambda>s ls' cs. length cs < length bs \<and> (0 \<le> s \<longrightarrow> current ls' = current ls))"
    by (rule runs_bind [OF safe_save_while [OF _ n]])
      (use c(1) in \<open>auto simp: Let_def intro!: runs_ret dest: suffix_length_le\<close>)
qed

lemma runs_buffer_reset [simp]: "keeps_on luaZ_resetbuffer ls bs"
  unfolding luaZ_resetbuffer_def by (rule runs_upd) (auto simp: buffer_ok_def same_frame_def)

lemma safe_long_string_loop:
  fixes ls :: "'d LexState"
  assumes sep: "0 \<le> sep"
  shows "length bs < n \<Longrightarrow> length bs < ls_fuel ls \<Longrightarrow> keeps_on (long_string_loop keep sep n) ls bs"
proof (induction n arbitrary: ls bs)
  case (Suc n)
  have IH: "keeps_on (long_string_loop keep sep n) l1 cs" if "length cs < length bs" "ls_fuel l1 = ls_fuel ls"
    for l1 :: "'d LexState" and cs
    using Suc.IH [of cs l1] Suc.prems that by simp
  have rest: "keeps_on (sthen m (long_string_loop keep sep n)) ls bs" if "eats m ls bs" for m :: "('d, unit) lx"
    by (rule eats_keeps_on, rule eats_bind [OF that], rule IH)
  show ?case
  proof (rule runs_at)
    assume a: "ahead ls bs"
    have ne: "bs \<noteq> []" if "current ls \<noteq> EOZ" using ahead_not_EOZ [OF a that] .
    have bracket: "keeps_on (sbind skip_sep f) ls bs" if "current ls = c" "c = 91 \<or> c = 93"
      and "\<And>s l1 cs. length cs < length bs \<Longrightarrow> ls_fuel l1 = ls_fuel ls \<Longrightarrow> s = sep \<longrightarrow> cs \<noteq> [] \<Longrightarrow> keeps_on (f s) l1 cs"
      for f :: "int \<Rightarrow> ('d, unit) lx" and c
    proof (rule runs_bind [OF safe_skip_sep])
      show "bs \<noteq> []" using ne that(1,2) by auto
    qed (use Suc.prems that(1,2) sep in \<open>auto intro!: that(3) simp: same_frame_def dest: ahead_nonempty\<close>)
    have n1: "keeps_on (sthen save_and_next (long_string_loop keep sep n)) l1 cs"
      if "length cs < length bs" "ls_fuel l1 = ls_fuel ls" "cs \<noteq> []" for l1 :: "'d LexState" and cs
      by (rule keeps_on_bind [OF eats_keeps_on [OF eats_save_and_next [OF that(3)]]]) (use that in \<open>auto intro: IH\<close>)
    have nl: "keeps_on (sthen (save 10) (sthen inclinenumber
          (sthen (if keep then sret () else luaZ_resetbuffer) (long_string_loop keep sep n)))) ls bs" if "bs \<noteq> []"
      by (rule runs_bind [OF leaves_save [where P = "\<lambda>cs. cs = bs"]], simp,
          rule eats_keeps_on, rule eats_bind [OF eats_inclinenumber], simp add: that, rule keeps_on_bind)
        (auto intro!: runs_ret IH simp: same_frame_def)
    show ?thesis
      unfolding long_string_loop.simps runs_get_bind
      by (intro runs_if safe_lexerror bracket nl rest ne; (assumption | simp)?)
        (auto intro: IH n1 eats_keeps_on simp: safe_lexerror
          intro!: eats_save_and_next eats_next ne keeps_on_bind [OF eats_keeps_on [OF eats_save_and_next]])
  qed
qed simp

lemma keeps_on_inner_string: "keeps_on (inner_string d) ls bs"
  unfolding inner_string_def luaX_newstring_def by (auto intro!: keeps_on_bind runs_ret)

lemma keeps_on_read_long_string:
  assumes "bs \<noteq> []" "0 \<le> sep" "length bs < ls_fuel ls"
  shows "eats (read_long_string keep sep) ls bs"
  unfolding read_long_string_def
  by (rule eats_bind [OF eats_save_and_next], simp add: assms, simp only: runs_get_bind, rule keeps_on_bind)
    (use assms in \<open>auto simp: currIsNewline_def intro!: keeps_on_bind safe_long_string_loop keeps_on_inner_string
      runs_ret eats_keeps_on [OF eats_inclinenumber] dest: ahead_nonempty\<close>)

lemma safe_decimal_escape: "keeps_on (decimal_escape i v) ls bs"
proof (induction i arbitrary: v ls bs)
  case (Suc i)
  show ?case
    unfolding decimal_escape.simps runs_get_bind
    by (rule runs_at, intro runs_if keeps_on_bind [OF eats_keeps_on [OF eats_next]] Suc.IH runs_ret)
      (auto dest: ahead_not_EOZ)
qed (simp add: runs_ret)

lemma simple_escape_EOZ [simp]: "simple_escape EOZ = None"
  by (simp add: simple_escape_def)

lemma eats_read_escape: "bs \<noteq> [] \<Longrightarrow> eats read_escape ls bs"
  unfolding read_escape_def
proof (rule eats_bind [OF eats_next], assumption, simp only: runs_get_bind)
  fix l1 and cs :: "byte list" assume a: "ahead l1 cs"
  have ne: "cs \<noteq> []" if "current l1 \<noteq> EOZ" using ahead_not_EOZ [OF a that] .
  show "keeps_on (case simple_escape (current l1) of
      Some e \<Rightarrow> sthen (save e) next_char
    | None \<Rightarrow>
        if current l1 = 10 \<or> current l1 = 13 then sthen (save 10) inclinenumber
        else if current l1 = EOZ then sret ()
        else if \<not> isdigit (current l1) then save_and_next
        else sbind (decimal_escape 3 0) (\<lambda>v.
          if 255 < v then luaX_lexerror ''escape sequence too large'' TK_STRING else save v)) l1 cs"
  proof (cases "simple_escape (current l1)")
    case (Some e)
    then have "cs \<noteq> []" using ne by (cases "current l1 = EOZ") auto
    then show ?thesis using Some
      by (auto intro!: runs_bind [OF leaves_save [where P = "\<lambda>ds. ds = cs"]] eats_keeps_on [OF eats_next])
  next
    case None
    then show ?thesis using ne
      by (auto intro!: runs_bind [OF leaves_save [where P = "\<lambda>ds. ds = cs"]] eats_keeps_on [OF eats_inclinenumber]
          eats_keeps_on [OF eats_save_and_next] simple_steps keeps_on_bind [OF safe_decimal_escape])
  qed
qed

lemma safe_string_loop:
  fixes ls :: "'d LexState"
  assumes "del \<noteq> EOZ"
  shows "length bs < n \<Longrightarrow> safe (string_loop del n) ls bs (\<lambda>_ _ cs. cs \<noteq> [])"
proof (induction n arbitrary: ls bs)
  case (Suc n)
  have rest: "safe (sthen m (string_loop del n)) ls bs (\<lambda>_ _ cs. cs \<noteq> [])" if "eats m ls bs" for m :: "('d, unit) lx"
    by (rule runs_bind [OF that], rule Suc.IH) (use Suc.prems in simp)
  show ?case
  proof (rule runs_at)
    assume a: "ahead ls bs"
    have ne: "bs \<noteq> []" if "current ls \<noteq> EOZ" using ahead_not_EOZ [OF a that] .
    show ?thesis
      unfolding string_loop.simps runs_get_bind
      using assms ne
      by (auto intro!: runs_ret safe_lexerror rest eats_read_escape eats_save_and_next)
  qed
qed simp

lemma eats_read_string:
  assumes "bs \<noteq> []" "del \<noteq> EOZ" "length bs < ls_fuel ls"
  shows "eats (read_string del) ls bs"
  unfolding read_string_def
  by (rule eats_bind [OF eats_save_and_next], simp add: assms, simp only: runs_get_bind,
      rule runs_bind [OF safe_string_loop])
    (use assms in \<open>auto intro!: keeps_on_bind [OF eats_keeps_on [OF eats_save_and_next]] keeps_on_inner_string\<close>)

section \<open>The analyser\<close>

lemma eats_tok2: "bs \<noteq> [] \<Longrightarrow> second \<noteq> EOZ \<Longrightarrow> eats (tok2 second one two) ls bs"
  unfolding tok2_def
  by (rule eats_bind [OF eats_next], assumption, simp only: runs_get_bind)
    (auto intro!: runs_ret keeps_on_bind [OF eats_keeps_on [OF eats_next]] dest: ahead_nonempty simp: ahead_Nil)

lemma eats_name_or_reserved: "bs \<noteq> [] \<Longrightarrow> length bs < ls_fuel ls \<Longrightarrow> eats name_or_reserved ls bs"
  unfolding name_or_reserved_def runs_get_bind
  by (rule eats_bind [OF eats_save_and_next], assumption, rule keeps_on_bind [OF leaves_save_while])
    (auto simp: luaX_newstring_def intro!: keeps_on_bind runs_ret)

lemma keeps_on_short_comment:
  "length bs < n \<Longrightarrow> keeps_on (skip_while (\<lambda>c. c \<noteq> 10 \<and> c \<noteq> 13 \<and> c \<noteq> EOZ) n) ls bs"
  by (rule leaves_skip_while) auto

lemma keeps_on_skip_comment:
  fixes ls :: "'d LexState"
  assumes "bs \<noteq> []" "length bs < ls_fuel ls"
  shows "eats skip_comment ls bs"
  unfolding skip_comment_def Let_def
proof (rule eats_bind [OF eats_next [OF assms(1)]], simp only: runs_get_bind)
  fix l1 :: "'d LexState" and cs :: "byte list" assume a: "ahead l1 cs" "length cs < length bs" "ls_fuel l1 = ls_fuel ls"
  have f: "length cs < ls_fuel l1" "length cs < ls_fuel ls" using a(2,3) assms(2) by simp_all
  have ne: "cs \<noteq> []" if "current l1 = 91" using a(1) that by (auto dest: ahead_nonempty)
  show "keeps_on (if current l1 = 91 then sbind skip_sep (\<lambda>sep. sthen luaZ_resetbuffer
        (if 0 \<le> sep then sthen (read_long_string False sep) luaZ_resetbuffer
         else skip_while (\<lambda>c. c \<noteq> 10 \<and> c \<noteq> 13 \<and> c \<noteq> EOZ) (ls_fuel ls)))
      else skip_while (\<lambda>c. c \<noteq> 10 \<and> c \<noteq> 13 \<and> c \<noteq> EOZ) (ls_fuel ls)) l1 cs"
  proof (rule runs_if)
    assume c: "current l1 = 91"
    show "keeps_on (sbind skip_sep (\<lambda>sep. sthen luaZ_resetbuffer
        (if 0 \<le> sep then sthen (read_long_string False sep) luaZ_resetbuffer
         else skip_while (\<lambda>c. c \<noteq> 10 \<and> c \<noteq> 13 \<and> c \<noteq> EOZ) (ls_fuel ls)))) l1 cs"
    proof (rule runs_bind [OF safe_skip_sep [OF ne [OF c] f(1)]])
      fix s :: int and l2 :: "'d LexState" and ds :: "byte list"
      assume s: "length ds < length cs \<and> (0 \<le> s \<longrightarrow> current l2 = current l1)" "ahead l2 ds" "same_frame l1 l2"
      have "safe luaZ_resetbuffer l2 ds (\<lambda>_ l3 es. es = ds)"
        unfolding luaZ_resetbuffer_def by (rule runs_upd) (auto simp: buffer_ok_def same_frame_def)
      then show "keeps_on (sthen luaZ_resetbuffer
          (if 0 \<le> s then sthen (read_long_string False s) luaZ_resetbuffer
           else skip_while (\<lambda>c. c \<noteq> 10 \<and> c \<noteq> 13 \<and> c \<noteq> EOZ) (ls_fuel ls))) l2 ds"
        by (rule runs_bind)
          (use s f c in \<open>auto simp: same_frame_def dest: ahead_nonempty
            intro!: keeps_on_bind [OF eats_keeps_on [OF keeps_on_read_long_string]] keeps_on_short_comment\<close>)
    qed
  qed (rule keeps_on_short_comment [OF f(2)])
qed

text \<open>Every token but the end of the stream takes at least one character.\<close>

abbreviation token_eaten :: "byte list \<Rightarrow> int \<times> SemInfo \<Rightarrow> 'd LexState \<Rightarrow> byte list \<Rightarrow> bool" where
  "token_eaten bs \<equiv> \<lambda>r _ cs. fst r \<noteq> TK_EOS \<longrightarrow> length cs < length bs"

lemma eats_token: "eats m ls bs \<Longrightarrow> safe m ls bs (token_eaten bs)"
  by (erule runs_weaken) simp

lemma safe_llex_loop:
  fixes ls :: "'d LexState"
  shows "length bs < n \<Longrightarrow> length bs < ls_fuel ls \<Longrightarrow> safe (llex_loop n) ls bs (token_eaten bs)"
proof (induction n arbitrary: ls bs)
  case (Suc n)
  have rest: "safe (sthen m (llex_loop n)) ls bs (token_eaten bs)" if "eats m ls bs" for m :: "('d, unit) lx"
    by (rule runs_bind [OF that], rule runs_weaken [OF Suc.IH]) (use Suc.prems in \<open>auto simp: same_frame_def\<close>)
  have IH: "safe (llex_loop n) l1 cs (token_eaten bs)" if "length cs < length bs" "ls_fuel l1 = ls_fuel ls"
    for l1 :: "'d LexState" and cs
    by (rule runs_weaken [OF Suc.IH]) (use Suc.prems that in auto)
  show ?case
  proof (rule runs_at)
    assume a: "ahead ls bs"
    have ne: "bs \<noteq> []" if "current ls \<noteq> EOZ" using ahead_not_EOZ [OF a that] .
    have minus: "safe (sthen next_char (sbind (sget current) (\<lambda>c2.
           if c2 \<noteq> 45 then sret (45, NoInfo) else sthen skip_comment (llex_loop n)))) ls bs (token_eaten bs)"
      if "bs \<noteq> []"
    proof (rule runs_bind [OF eats_next [OF that]], simp only: runs_get_bind, rule runs_if)
      fix l1 :: "'d LexState" and cs :: "byte list" assume l1: "length cs < length bs" "ahead l1 cs" "same_frame ls l1" "\<not> current l1 \<noteq> 45"
      show "safe (sthen skip_comment (llex_loop n)) l1 cs (token_eaten bs)"
        by (rule runs_bind [OF keeps_on_skip_comment], rule_tac [3] IH)
          (use l1 Suc.prems in \<open>auto simp: same_frame_def dest: ahead_nonempty\<close>)
    qed (simp add: runs_ret)
    have bracket: "safe (sbind skip_sep (\<lambda>sep.
          if 0 \<le> sep then sbind (read_long_string True sep) (\<lambda>s. sret (TK_STRING, s))
          else if sep = - 1 then sret (91, NoInfo)
          else luaX_lexerror ''invalid long string delimiter'' TK_STRING)) ls bs (token_eaten bs)"
      if "current ls = 91"
    proof (rule runs_bind [OF safe_skip_sep])
      fix s :: int and l1 :: "'d LexState" and cs :: "byte list"
      assume s: "length cs < length bs \<and> (0 \<le> s \<longrightarrow> current l1 = current ls)" "ahead l1 cs" "same_frame ls l1"
      then have "cs \<noteq> []" "length cs < ls_fuel l1" if "0 \<le> s"
        using that \<open>current ls = 91\<close> Suc.prems by (auto simp: same_frame_def dest: ahead_nonempty)
      then show "safe (if 0 \<le> s then sbind (read_long_string True s) (\<lambda>s. sret (TK_STRING, s))
          else if s = - 1 then sret (91, NoInfo)
          else luaX_lexerror ''invalid long string delimiter'' TK_STRING) l1 cs (token_eaten bs)"
        using s(1)
        by (auto intro!: runs_ret safe_lexerror runs_bind [OF keeps_on_read_long_string])
    qed (use that ne Suc.prems in auto)
    have dot: "safe (sthen save_and_next (sbind (check_next ''.'') (\<lambda>d.
           if d then sbind (check_next ''.'') (\<lambda>d2. sret (if d2 then TK_DOTS else TK_CONCAT, NoInfo))
           else sbind (sget current) (\<lambda>c2.
             if \<not> isdigit c2 then sret (46, NoInfo)
             else sbind read_numeral (\<lambda>r. sret (TK_NUMBER, r)))))) ls bs (token_eaten bs)"
      if "bs \<noteq> []"
      by (rule eats_token, rule eats_bind [OF eats_save_and_next [OF that]], rule keeps_on_bind [OF keeps_on_check_next], simp)
        (use Suc.prems in \<open>auto intro!: runs_ret keeps_on_bind [OF keeps_on_check_next] keeps_on_bind [OF eats_keeps_on [OF eats_read_numeral]]
            dest!: ahead_not_EOZ\<close>)
    have str: "safe (sbind m (\<lambda>s. sret (t, s))) ls bs (token_eaten bs)" if "eats m ls bs" for m :: "('d, SemInfo) lx" and t
      by (rule eats_token, rule eats_bind [OF that]) (simp add: runs_ret)
    show ?thesis
      unfolding llex_loop.simps runs_get_bind
      by (intro runs_if rest minus bracket dot str)
        (use Suc.prems ne in \<open>auto intro!: runs_ret eats_inclinenumber eats_token [OF eats_tok2] eats_token [OF eats_name_or_reserved]
            eats_read_string eats_read_numeral eats_next eats_token [OF eats_bind [OF eats_next]]\<close>)
  qed
qed simp

lemma safe_llex: "length bs < ls_fuel ls \<Longrightarrow> safe llex ls bs (token_eaten bs)"
proof -
  assume f: "length bs < ls_fuel ls"
  have "safe luaZ_resetbuffer ls bs (\<lambda>_ l1 cs. cs = bs \<and> ls_fuel l1 = ls_fuel ls)"
    unfolding luaZ_resetbuffer_def by (rule runs_upd) (auto simp: buffer_ok_def same_frame_def)
  then show ?thesis
    unfolding llex_def by (rule runs_bind) (use f in \<open>auto intro: safe_llex_loop\<close>)
qed

text \<open>A lexer between two tokens with no token looked ahead.\<close>

definition lex_ready :: "'d LexState \<Rightarrow> byte list \<Rightarrow> bool" where
  "lex_ready ls bs \<longleftrightarrow> ahead ls bs \<and> token (lookahead ls) = TK_EOS \<and> length bs < ls_fuel ls"

lemma luaX_next_total:
  assumes "lex_ready ls bs"
  shows "case luaX_next ls of
      Inl e \<Rightarrow> is_syntax e
    | Inr (_, ls') \<Rightarrow> \<exists>cs. lex_ready ls' cs \<and> length cs \<le> length bs \<and>
        (token (ls_t ls') \<noteq> TK_EOS \<longrightarrow> length cs < length bs)"
proof -
  define l0 where "l0 = ls\<lparr>lastline := linenumber ls\<rparr>"
  have a: "ahead l0 bs" and l: "token (lookahead l0) = TK_EOS" "length bs < ls_fuel l0"
    using assms by (auto simp: lex_ready_def l0_def ahead_def split: list.splits)
  have n: "luaX_next ls = sbind llex (\<lambda>(t, s). supd (\<lambda>ls. ls\<lparr>ls_t := \<lparr>token = t, seminfo = s\<rparr>\<rparr>)) l0"
    using l(1) by (simp add: luaX_next_def l0_def sbind_def)
  from safe_llex [OF l(2)] a have "case llex l0 of Inl e \<Rightarrow> is_syntax e
    | Inr (r, l1) \<Rightarrow> same_frame l0 l1 \<and> (\<exists>cs. suffix cs bs \<and> ahead l1 cs \<and> (fst r \<noteq> TK_EOS \<longrightarrow> length cs < length bs))"
    by (simp add: runs_def)
  then show ?thesis
  proof (cases "llex l0")
    case (Inr r)
    then obtain t s l1 cs where r: "llex l0 = Inr ((t, s), l1)" "same_frame l0 l1" "suffix cs bs" "ahead l1 cs"
      "t \<noteq> TK_EOS \<longrightarrow> length cs < length bs"
      using safe_llex [OF l(2)] a by (cases r; cases "fst r") (fastforce simp: runs_def)+
    have "ahead (l1\<lparr>ls_t := \<lparr>token = t, seminfo = s\<rparr>\<rparr>) cs" using r(4) by (auto simp: ahead_def split: list.splits)
    then show ?thesis
      using r l suffix_length_le [OF r(3)] by (auto simp: n lex_ready_def same_frame_def sbind_def intro!: exI [of _ cs])
  qed (simp add: n sbind_def)
qed

lemma lex_all_total:
  "lex_ready ls bs \<Longrightarrow> length bs < n \<Longrightarrow>
    (case lex_all n ls of Inl e \<Rightarrow> is_syntax e | Inr ts \<Rightarrow> length ts \<le> length bs)"
proof (induction n arbitrary: ls bs)
  case (Suc n)
  show ?case
  proof (cases "luaX_next ls")
    case (Inl e)
    then show ?thesis using luaX_next_total [OF Suc.prems(1)] by simp
  next
    case (Inr r)
    then obtain l1 cs where r: "luaX_next ls = Inr ((), l1)" "lex_ready l1 cs"
      "token (ls_t l1) \<noteq> TK_EOS \<longrightarrow> length cs < length bs"
      using luaX_next_total [OF Suc.prems(1)] by (cases r) auto
    show ?thesis
    proof (cases "token (ls_t l1) = TK_EOS")
      case False
      then have "case lex_all n l1 of Inl e \<Rightarrow> is_syntax e | Inr ts \<Rightarrow> length ts \<le> length cs"
        using Suc.IH [OF r(2)] r(3) Suc.prems(2) by auto
      then show ?thesis using False r by (auto simp: rbind_def split: sum.splits)
    qed (simp add: r)
  qed
qed simp

lemma luaX_setinput_ready:
  assumes "holds R z bs" and "length bs < fuel"
  shows "\<exists>ls. luaX_setinput R z buff source locale fuel = Inr ls \<and> lex_ready ls bs \<and> linenumber ls = 1"
proof -
  define l0 where "l0 = \<lparr>current = 0, linenumber = 1, lastline = 1, ls_t = no_token, lookahead = no_token,
         ls_z = z, ls_reader = R, ls_buff = luaZ_resizebuffer buff LUA_MINBUFFER,
         ls_source = source, decpoint = 46, ls_locale = locale, ls_fuel = fuel\<rparr>"
  have b: "buffer_ok (ls_buff l0)"
    by (simp add: l0_def buffer_ok_def luaZ_resizebuffer_def LUA_MINBUFFER_def)
  then have "ahead l0 (0 # bs)" using assms(1) by (simp add: ahead_Cons l0_def)
  moreover have "runs (\<lambda>_. False) next_char l0 (0 # bs) (\<lambda>_ l1 cs. cs = bs \<and> (\<exists>c z. l1 = l0\<lparr>current := c, ls_z := z\<rparr>))"
    by (rule runs_next) auto
  ultimately obtain c z' where n: "next_char l0 = Inr ((), l0\<lparr>current := c, ls_z := z'\<rparr>)"
    "ahead (l0\<lparr>current := c, ls_z := z'\<rparr>) bs" by (auto simp: runs_def split: sum.splits)
  have "luaX_setinput R z buff source locale fuel = Inr (l0\<lparr>current := c, ls_z := z'\<rparr>)"
    using n(1) by (simp add: luaX_setinput_def l0_def)
  then show ?thesis using n(2) assms(2) by (auto simp: lex_ready_def l0_def no_token_def)
qed

section \<open>Properties\<close>

text \<open>C20: The lexical analyser is total and memory safe. On any input, however the reader cuts
  it into chunks, the calls of \<open>luaX_next\<close> reach the end of the stream after at most one token
  per byte, or one of them raises a syntax error: no loop runs forever, nothing is read after
  the end of the stream, and no character is stored outside the token buffer (a store past its
  end is the error \<open>Undefined\<close>, which is not a syntax error).\<close>

theorem lexer_total:
  assumes "holds R z bs" and "length bs < fuel"
  shows "case rbind (luaX_setinput R z buff source locale fuel) (lex_all fuel) of
      Inl e \<Rightarrow> is_syntax e | Inr ts \<Rightarrow> length ts \<le> length bs"
proof -
  obtain ls where "luaX_setinput R z buff source locale fuel = Inr ls" "lex_ready ls bs"
    using luaX_setinput_ready [OF assms] by blast
  then show ?thesis using lex_all_total assms(2) by simp
qed

lemma lexer_total_witness:
  "case rbind (luaX_setinput list_reader (luaZ_init [bytes ''x='', bytes ''1'']) \<lparr>mbuffer = [], buffsize = 0\<rparr>
       (bytes ''=in'') 46 4) (lex_all 4) of Inl e \<Rightarrow> is_syntax e | Inr ts \<Rightarrow> length ts \<le> 3"
proof -
  have h: "holds list_reader (luaZ_init [bytes ''x='', bytes ''1'']) (concat [bytes ''x='', bytes ''1''])"
    by (rule list_reader_holds) (auto simp: bytes_def)
  have n: "length (concat [bytes ''x='', bytes ''1'']) = 3" by (simp add: bytes_def)
  show ?thesis
    by (rule lexer_total [OF h, of 4, unfolded n]) simp
qed

end
