(* ===== verification/LLexPrint.thy ===== *)
theory LLexPrint
  imports LLexSafe
begin

text \<open>
  Reading back a printed list of tokens. \<open>lexes F N m bs buf x bs' buf'\<close>: with fuel \<open>F\<close> and a
  token buffer of size at most \<open>N\<close>, the operation \<open>m\<close> started with \<open>bs\<close> to read and \<open>buf\<close>
  in the buffer returns \<open>x\<close> and leaves \<open>bs'\<close> and \<open>buf'\<close>. The rules are exact, one per operation.
\<close>

section \<open>Exact runs\<close>

definition lex_at :: "nat \<Rightarrow> nat \<Rightarrow> 'd LexState \<Rightarrow> byte list \<Rightarrow> byte list \<Rightarrow> bool" where
  "lex_at F N ls bs buf \<longleftrightarrow> ahead ls bs \<and> mbuffer (ls_buff ls) = buf \<and> ls_fuel ls = F \<and>
     token (lookahead ls) = TK_EOS \<and> buffsize (ls_buff ls) \<le> N \<and> N < 2 ^ 62"

definition lexes ::
    "nat \<Rightarrow> nat \<Rightarrow> ('d, 'a) lx \<Rightarrow> byte list \<Rightarrow> byte list \<Rightarrow> 'a \<Rightarrow> byte list \<Rightarrow> byte list \<Rightarrow> bool" where
  "lexes F N m bs buf x bs' buf' \<longleftrightarrow>
     (\<forall>ls. lex_at F N ls bs buf \<longrightarrow> (\<exists>ls'. m ls = Inr (x, ls') \<and> lex_at F N ls' bs' buf'))"

named_theorems lexes_intros "exact runs of the lexer"

lemma lexes_bind:
  "lexes F N m bs buf x bs1 buf1 \<Longrightarrow> lexes F N (f x) bs1 buf1 y bs2 buf2 \<Longrightarrow>
    lexes F N (sbind m f) bs buf y bs2 buf2"
  unfolding lexes_def by fastforce

lemma lexes_ret [simp]: "lexes F N (sret x) bs buf x bs buf"
  by (simp add: lexes_def)

definition cur :: "byte list \<Rightarrow> int" where
  "cur bs = (case bs of [] \<Rightarrow> - 1 | b # _ \<Rightarrow> uint b)"

lemma cur_simps [simp]: "cur [] = - 1" "cur (b # bs) = uint b"
  by (simp_all add: cur_def)

lemma lexes_get_by:
  "(\<And>ls. lex_at F N ls bs buf \<Longrightarrow> g ls = v) \<Longrightarrow>
    lexes F N (sbind (sget g) f) bs buf y bs2 buf2 \<longleftrightarrow> lexes F N (f v) bs buf y bs2 buf2"
  unfolding lexes_def sbind_def sget_def by auto

lemma lexes_get_bind [simp]:
  "lexes F N (sbind (sget current) f) bs buf y bs2 buf2 \<longleftrightarrow> lexes F N (f (cur bs)) bs buf y bs2 buf2"
  "lexes F N (sbind (sget ls_fuel) g) bs buf y bs2 buf2 \<longleftrightarrow> lexes F N (g F) bs buf y bs2 buf2"
  "lexes F N (sbind (sget (\<lambda>ls. mbuffer (ls_buff ls))) h) bs buf y bs2 buf2 \<longleftrightarrow> lexes F N (h buf) bs buf y bs2 buf2"
  "lexes F N (sbind (sget (\<lambda>ls. length (mbuffer (ls_buff ls)))) k) bs buf y bs2 buf2 \<longleftrightarrow>
    lexes F N (k (length buf)) bs buf y bs2 buf2"
  by (rule lexes_get_by, fastforce simp: lex_at_def cur_def dest: ahead_current)+

lemma lexes_next: "lexes F N next_char (b # bs) buf () bs buf"
  unfolding lexes_def
proof (intro allI impI)
  fix ls :: "'a LexState" assume l: "lex_at F N ls (b # bs) buf"
  have "runs (\<lambda>_. False) next_char ls (b # bs) (\<lambda>_ l1 cs. cs = bs \<and> (\<exists>c z. l1 = ls\<lparr>current := c, ls_z := z\<rparr>))"
    by (rule runs_next) auto
  with l show "\<exists>ls'. next_char ls = Inr ((), ls') \<and> lex_at F N ls' bs buf"
    by (auto simp: runs_def lex_at_def split: sum.splits)
qed

lemma lexes_save:
  assumes room: "2 * length buf < N"
  shows "lexes F N (save c) bs buf () bs (buf @ [word_of_int c])"
  unfolding lexes_def
proof (intro allI impI)
  fix ls :: "'a LexState" assume l: "lex_at F N ls bs buf"
  have u: "ahead (ls\<lparr>ls_buff := b\<rparr>) bs" if "buffer_ok b" for b
    using ahead_cong [of "ls\<lparr>ls_buff := b\<rparr>" ls bs] l that by (auto simp: lex_at_def dest: ahead_buffer)
  have "buffer_ok (ls_buff ls)" using l by (auto simp: lex_at_def dest: ahead_buffer)
  then show "\<exists>ls'. save c ls = Inr ((), ls') \<and> lex_at F N ls' bs (buf @ [word_of_int c])"
    using l room by (auto simp: save_def put_char_def rbind_def lex_at_def Let_def luaZ_resizebuffer_def buffer_ok_def intro!: u)
qed

lemma lexes_reset: "lexes F N luaZ_resetbuffer bs buf () bs []"
  unfolding lexes_def luaZ_resetbuffer_def
proof (intro allI impI)
  fix ls :: "'a LexState" assume l: "lex_at F N ls bs buf"
  then have "ahead (ls\<lparr>ls_buff := (ls_buff ls)\<lparr>mbuffer := []\<rparr>\<rparr>) bs"
    using ahead_cong [of "ls\<lparr>ls_buff := (ls_buff ls)\<lparr>mbuffer := []\<rparr>\<rparr>" ls bs]
    by (auto simp: lex_at_def buffer_ok_def dest: ahead_buffer)
  then show "\<exists>ls'. supd (\<lambda>ls. ls\<lparr>ls_buff := (ls_buff ls)\<lparr>mbuffer := []\<rparr>\<rparr>) ls = Inr ((), ls') \<and> lex_at F N ls' bs []"
    using l by (simp add: lex_at_def)
qed

lemma lexes_save_and_next: "2 * length buf < N \<Longrightarrow> lexes F N save_and_next (b # bs) buf () bs (buf @ [b])"
  unfolding save_and_next_def lexes_get_bind
  by (rule lexes_bind [OF _ lexes_next]) (use lexes_save [of buf N F "uint b" "b # bs"] in simp)

lemma lexes_save_while:
  "(\<And>b. b \<in> set ws \<Longrightarrow> P (uint b)) \<Longrightarrow> \<not> P (cur rest) \<Longrightarrow> length ws < n \<Longrightarrow>
    2 * (length buf + length ws) < N \<Longrightarrow>
    lexes F N (save_while P n :: ('d, unit) lx) (ws @ rest) buf () rest (buf @ ws)"
proof (induction ws arbitrary: buf n)
  case Nil
  then obtain k where k: "n = Suc k" by (cases n) auto
  show ?case using Nil(2) unfolding k save_while.simps by (simp only: lexes_get_bind) simp
next
  case (Cons w ws)
  then obtain k where k: "n = Suc k" by (cases n) auto
  have "lexes F N (save_while P k :: ('d, unit) lx) (ws @ rest) (buf @ [w]) () rest ((buf @ [w]) @ ws)"
    by (rule Cons.IH) (use Cons.prems k in auto)
  moreover have "lexes F N (save_and_next :: ('d, unit) lx) (w # ws @ rest) buf () (ws @ rest) (buf @ [w])"
    by (rule lexes_save_and_next) (use Cons.prems in auto)
  ultimately have "lexes F N (sthen save_and_next (save_while P k) :: ('d, unit) lx) (w # ws @ rest) buf () rest (buf @ w # ws)"
    by (intro lexes_bind) auto
  then show ?case using Cons.prems(1) unfolding k save_while.simps by (simp only: lexes_get_bind) simp
qed

section \<open>Strings and names\<close>

text \<open>A byte as a decimal escape of three digits, and a string between double quotes.\<close>

definition escape :: "byte \<Rightarrow> byte list" where
  "escape b = [92, word_of_int (48 + uint b div 100), word_of_int (48 + uint b div 10 mod 10), word_of_int (48 + uint b mod 10)]"

definition quote :: "byte list \<Rightarrow> byte list" where
  "quote s = 34 # concat (map escape s) @ [34]"

lemma lexes_lift_if: "b \<Longrightarrow> lexes F N m bs buf x bs' buf' \<Longrightarrow> lexes F N (if b then m else n) bs buf x bs' buf'"
  "\<not> b \<Longrightarrow> lexes F N n bs buf x bs' buf' \<Longrightarrow> lexes F N (if b then m else n) bs buf x bs' buf'"
  by simp_all

lemma decimal_digit:
  assumes "0 \<le> v" "v < 10"
  shows "uint (word_of_int (48 + v) :: byte) = 48 + v" and "isdigit (48 + v)"
proof -
  have "uint (word_of_int (48 + v) :: byte) = (48 + v) mod 256"
    by (simp only: uint_word_of_int) simp
  then show "uint (word_of_int (48 + v) :: byte) = 48 + v" using assms by simp
qed (use assms in \<open>simp add: isdigit_def\<close>)

lemma byte_digits:
  fixes b :: byte
  shows "0 \<le> uint b div 100" "uint b div 100 < 10" "0 \<le> uint b div 10 mod 10" "uint b div 10 mod 10 < 10"
    "0 \<le> uint b mod 10" "uint b mod 10 < 10"
    "10 * (10 * (uint b div 100) + uint b div 10 mod 10) + uint b mod 10 = uint b"
proof -
  define u where "u = uint b"
  have u: "0 \<le> u" "u < 256" using uint_lt2p [of b] by (simp_all add: u_def)
  have q: "u div 100 = u div 10 div 10" using div_mult2_eq [of "nat u" 10 10] by simp
  show "0 \<le> uint b div 100" "uint b div 100 < 10" "0 \<le> uint b div 10 mod 10" "uint b div 10 mod 10 < 10"
    "0 \<le> uint b mod 10" "uint b mod 10 < 10"
    using u unfolding u_def [symmetric] by simp_all
  show "10 * (10 * (uint b div 100) + uint b div 10 mod 10) + uint b mod 10 = uint b"
    unfolding u_def [symmetric] q by simp
qed

lemma lexes_decimal_escape:
  fixes b :: byte
  shows "lexes F N (decimal_escape 3 0)
      (word_of_int (48 + uint b div 100) # word_of_int (48 + uint b div 10 mod 10) # word_of_int (48 + uint b mod 10) # rest)
      buf (uint b) rest buf"
proof -
  note d = byte_digits [of b]
  note step = lexes_get_bind cur_simps decimal_digit d(1-6) if_True
  have "lexes F N (decimal_escape (Suc (Suc (Suc 0))) 0)
      (word_of_int (48 + uint b div 100) # word_of_int (48 + uint b div 10 mod 10) # word_of_int (48 + uint b mod 10) # rest)
      buf (10 * (10 * (10 * 0 + (48 + uint b div 100 - 48)) + (48 + uint b div 10 mod 10 - 48)) + (48 + uint b mod 10 - 48)) rest buf"
    unfolding decimal_escape.simps
    by (simp only: step, rule lexes_bind [OF lexes_next], simp only: step, rule lexes_bind [OF lexes_next],
        simp only: step, rule lexes_bind [OF lexes_next], rule lexes_ret)
  then show ?thesis using d(7) by (simp add: numeral_3_eq_3)
qed

lemma digit_not_special:
  assumes "0 \<le> v" "v < 10"
  shows "simple_escape (48 + v) = None" "48 + v \<noteq> EOZ" "\<not> (48 + v = 10 \<or> 48 + v = 13)"
  using assms by (auto simp: simple_escape_def EOZ_def)

lemma lexes_read_escape:
  assumes "2 * length buf < N"
  shows "lexes F N read_escape (escape b @ rest) buf () rest (buf @ [b])"
proof -
  note d = byte_digits [of b]
  note dd = decimal_digit [OF d(1,2)] digit_not_special [OF d(1,2)]
  have "lexes F N (save (uint b)) rest buf () rest (buf @ [b])"
    using lexes_save [OF assms, of F "uint b" rest] by simp
  moreover have "\<not> 255 < uint b" using uint_lt2p [of b] by simp
  ultimately show ?thesis
    unfolding read_escape_def escape_def append_Cons append_Nil
    by (intro lexes_bind [OF lexes_next])
      (simp only: lexes_get_bind cur_simps dd option.case if_False if_True not_True_eq_False,
        rule lexes_bind [OF lexes_decimal_escape], simp)
qed

lemma lexes_string_loop:
  "length s < n \<Longrightarrow> 2 * (length buf + length s) < N \<Longrightarrow>
    lexes F N (string_loop 34 n :: ('d, unit) lx) (concat (map escape s) @ 34 # rest) buf () (34 # rest) (buf @ s)"
proof (induction s arbitrary: buf n)
  case Nil
  then obtain k where k: "n = Suc k" by (cases n) auto
  show ?case unfolding k string_loop.simps by (simp only: lexes_get_bind) simp
next
  case (Cons b s)
  then obtain k where k: "n = Suc k" by (cases n) auto
  have "lexes F N (string_loop 34 k :: ('d, unit) lx) (concat (map escape s) @ 34 # rest) (buf @ [b]) () (34 # rest) ((buf @ [b]) @ s)"
    by (rule Cons.IH) (use Cons.prems k in auto)
  moreover have "lexes F N (read_escape :: ('d, unit) lx) (escape b @ concat (map escape s) @ 34 # rest) buf ()
      (concat (map escape s) @ 34 # rest) (buf @ [b])"
    by (rule lexes_read_escape) (use Cons.prems in auto)
  ultimately have "lexes F N (sthen read_escape (string_loop 34 k) :: ('d, unit) lx) (escape b @ concat (map escape s) @ 34 # rest)
      buf () (34 # rest) (buf @ b # s)"
    by (intro lexes_bind) auto
  then show ?case unfolding k string_loop.simps by (simp only: lexes_get_bind) (simp add: escape_def)
qed

lemma lexes_read_string:
  assumes "length s < F" and "2 * length s + 4 < N"
  shows "lexes F N (read_string 34) (quote s @ rest) [] (SemTs s) rest (34 # s @ [34])"
proof -
  have "lexes F N (inner_string 1) rest (34 # s @ [34]) (SemTs s) rest (34 # s @ [34])"
    by (simp add: inner_string_def luaX_newstring_def lexes_bind [OF lexes_ret])
  moreover have "lexes F N save_and_next (34 # rest) (34 # s) () rest (34 # s @ [34])"
    using lexes_save_and_next [of "34 # s" N F 34 rest] assms by simp
  moreover have "lexes F N (string_loop 34 F) (concat (map escape s) @ 34 # rest) [34] () (34 # rest) (34 # s)"
    using lexes_string_loop [of s F "[34]" N F rest] assms by simp
  moreover have "lexes F N save_and_next (34 # concat (map escape s) @ 34 # rest) [] ()
      (concat (map escape s) @ 34 # rest) [34]"
    using lexes_save_and_next [of "[]" N F 34] assms by simp
  ultimately show ?thesis
    unfolding read_string_def quote_def append_Cons append_assoc append_Nil
    by (intro lexes_bind [of F N save_and_next]) (auto simp only: lexes_get_bind intro: lexes_bind)
qed

definition word_char :: "int \<Rightarrow> bool" where "word_char c \<longleftrightarrow> isalnum c \<or> c = 95"

definition is_word :: "byte list \<Rightarrow> bool" where
  "is_word s \<longleftrightarrow> (case s of [] \<Rightarrow> False | b # _ \<Rightarrow> isalpha (uint b) \<or> uint b = 95) \<and> list_all (\<lambda>b. word_char (uint b)) s"

lemma lexes_word:
  assumes "is_word s" and "length s < F" and "2 * length s < N" and "\<not> word_char (cur rest)"
  shows "lexes F N name_or_reserved (s @ rest) [] (case reserved s of Some i \<Rightarrow> (i + FIRST_RESERVED, NoInfo) | None \<Rightarrow> (TK_NAME, SemTs s)) rest s"
proof -
  obtain b cs where s: "s = b # cs" using assms(1) by (cases s) (auto simp: is_word_def)
  have a: "lexes F N save_and_next (b # cs @ rest) [] () (cs @ rest) [b]"
    using lexes_save_and_next [of "[]" N F b "cs @ rest"] assms s by simp
  have b: "lexes F N (save_while (\<lambda>c. isalnum c \<or> c = 95) F) (cs @ rest) [b] () rest ([b] @ cs)"
    by (rule lexes_save_while) (use assms s in \<open>auto simp: is_word_def list_all_iff word_char_def\<close>)
  show ?thesis
    unfolding name_or_reserved_def luaX_newstring_def s append_Cons
    by (simp only: lexes_get_bind, rule lexes_bind [OF a], rule lexes_bind [OF b], simp only: lexes_get_bind append.simps,
        rule lexes_bind [OF lexes_ret], rule lexes_ret)
qed

lemma lexes_tok2:
  "uint b = second \<Longrightarrow> lexes F N (tok2 second one two) (a # b # rest) buf (two, NoInfo) rest buf"
  "cur bs \<noteq> second \<Longrightarrow> lexes F N (tok2 second one two) (a # bs) buf (one, NoInfo) bs buf"
  unfolding tok2_def
  by (rule lexes_bind [OF lexes_next], simp only: lexes_get_bind, simp, rule lexes_bind [OF lexes_next], simp)
    (rule lexes_bind [OF lexes_next], simp only: lexes_get_bind, simp)

lemma lexes_check_next:
  "strchr str (uint b) \<Longrightarrow> 2 * length buf < N \<Longrightarrow> lexes F N (check_next str) (b # bs) buf True bs (buf @ [b])"
  "\<not> strchr str (cur bs) \<Longrightarrow> lexes F N (check_next str) bs buf False bs buf"
  unfolding check_next_def
  by (simp only: lexes_get_bind, simp, rule lexes_bind [OF lexes_save_and_next], simp_all)

section \<open>Tokens\<close>

text \<open>The text of a token: names as they are, strings quoted, the rest by the table of names.\<close>

definition tok_text :: "Token \<Rightarrow> byte list" where
  "tok_text t =
     (case seminfo t of
        SemTs s \<Rightarrow> if token t = TK_NAME then s else quote s
      | _ \<Rightarrow> if token t < FIRST_RESERVED then [word_of_int (token t)]
             else bytes (luaX_tokens ! nat (token t - FIRST_RESERVED)))"

text \<open>Tokens of one character, reserved words and operators, names that are not reserved, and
  strings. Numerals are left out.\<close>

definition single_char :: "int \<Rightarrow> bool" where
  "single_char c \<longleftrightarrow> 0 \<le> c \<and> c < 256 \<and> \<not> word_char c \<and> \<not> isspace c \<and> c \<noteq> 34 \<and> c \<noteq> 39"

definition tok_ok :: "Token \<Rightarrow> bool" where
  "tok_ok t \<longleftrightarrow>
     (case seminfo t of
        NoInfo \<Rightarrow> single_char (token t) \<or> TK_AND \<le> token t \<and> token t \<le> TK_NE
      | SemTs s \<Rightarrow> token t = TK_STRING \<or> token t = TK_NAME \<and> is_word s \<and> reserved s = None
      | SemR r \<Rightarrow> False)"

lemma filter_eq_upt: "i < n \<Longrightarrow> filter (\<lambda>j. j = i) [0..<n] = [i]"
  by (induction n) (auto simp: filter_empty_conv less_Suc_eq)

lemma filter_nth_distinct:
  assumes "distinct xs" "i < length xs"
  shows "filter (\<lambda>j. xs ! j = xs ! i) [0..<length xs] = [i]"
proof -
  have "filter (\<lambda>j. xs ! j = xs ! i) [0..<length xs] = filter (\<lambda>j. j = i) [0..<length xs]"
    using assms by (intro filter_cong) (auto simp: nth_eq_iff_index_eq)
  then show ?thesis using filter_eq_upt assms(2) by simp
qed

lemma reserved_words:
  assumes "i < 21"
  shows "is_word (bytes (luaX_tokens ! i))" and "reserved (bytes (luaX_tokens ! i)) = Some (int i)"
proof -
  have "list_all (\<lambda>i. is_word (bytes (luaX_tokens ! i))) [0..<21]"
    by (simp add: upt_rec luaX_tokens_def bytes_def is_word_def word_char_def isalpha_def isalnum_def
        isupper_def islower_def isdigit_def)
  then show "is_word (bytes (luaX_tokens ! i))" using assms by (simp add: list_all_iff)
  define ws where "ws = map bytes (take 21 luaX_tokens)"
  have "length luaX_tokens = 31" by (simp add: luaX_tokens_def)
  moreover have "distinct ws" by (simp add: ws_def bytes_def luaX_tokens_def)
  ultimately have ws: "length ws = 21" "\<And>j. j < 21 \<Longrightarrow> ws ! j = bytes (luaX_tokens ! j)" "distinct ws"
    by (simp_all add: ws_def)
  have "filter (\<lambda>j. bytes (luaX_tokens ! j) = bytes (luaX_tokens ! i)) [0..<21] = filter (\<lambda>j. ws ! j = ws ! i) [0..<21]"
    using ws assms by (intro filter_cong) auto
  then show "reserved (bytes (luaX_tokens ! i)) = Some (int i)"
    using filter_nth_distinct [OF ws(3), of i] assms ws(1) by (simp add: reserved_def NUM_RESERVED_def)
qed

lemma space_facts [simp]: "cur (32 # bs) = 32" by simp

lemma lexes_operator:
  assumes "21 \<le> i" "i < 27" and "40 < N"
  shows "\<exists>buf. lexes F N (llex_loop (Suc n)) (bytes (luaX_tokens ! i) @ 32 # rest) [] (257 + int i, NoInfo) (32 # rest) buf"
proof -
  have dot: "lexes F N save_and_next (46 # bs) [] () bs [46]" for bs
    using lexes_save_and_next [of "[]" N F 46 bs] assms(3) by simp
  have ne: "\<not> strchr ''.'' 32" and eq: "strchr ''.'' 46" by (simp_all add: strchr_def bytes_def)
  consider "i = 21" | "i = 22" | "i = 23" | "i = 24" | "i = 25" | "i = 26" using assms(1,2) by linarith
  then show ?thesis
  proof cases
    case 1
    have "lexes F N (check_next ''.'') (46 # 32 # rest) [46] True (32 # rest) ([46] @ [46])"
      by (rule lexes_check_next) (use eq assms(3) in auto)
    moreover have "lexes F N (check_next ''.'') (32 # rest) [46, 46] False (32 # rest) [46, 46]"
      by (rule lexes_check_next) (use ne in auto)
    ultimately show ?thesis
      unfolding 1 by (intro exI [of _ "[46, 46]"]) (simp add: luaX_tokens_def bytes_def TK_CONCAT_def TK_DOTS_def,
        rule lexes_bind [OF dot], rule lexes_bind, assumption, simp, rule lexes_bind, assumption, simp add: TK_CONCAT_def TK_DOTS_def)
  next
    case 2
    have "lexes F N (check_next ''.'') (46 # 46 # 32 # rest) [46] True (46 # 32 # rest) ([46] @ [46])"
      by (rule lexes_check_next) (use eq assms(3) in auto)
    moreover have "lexes F N (check_next ''.'') (46 # 32 # rest) [46, 46] True (32 # rest) ([46, 46] @ [46])"
      by (rule lexes_check_next) (use eq assms(3) in auto)
    ultimately show ?thesis
      unfolding 2 by (intro exI [of _ "[46, 46, 46]"]) (simp add: luaX_tokens_def bytes_def TK_CONCAT_def TK_DOTS_def,
        rule lexes_bind [OF dot], rule lexes_bind, assumption, simp, rule lexes_bind, assumption, simp add: TK_CONCAT_def TK_DOTS_def)
  qed (auto intro!: exI [of _ "[]"] lexes_tok2(1) simp: luaX_tokens_def bytes_def TK_EQ_def TK_GE_def TK_LE_def TK_NE_def)
qed

lemma lexes_single:
  assumes c: "single_char (uint b)" and N: "4 < N" and F: "0 < F"
  shows "\<exists>buf. lexes F N (llex_loop (Suc n)) (b # 32 # rest) [] (uint b, NoInfo) (32 # rest) buf"
proof -
  define c where "c = uint b"
  have s: "\<not> isalnum c" "\<not> isdigit c" "\<not> isalpha c" "\<not> isspace c" "c \<noteq> 10" "c \<noteq> 13" "c \<noteq> EOZ" "c \<noteq> 34" "c \<noteq> 39" "c \<noteq> 95"
    using c char2int_not_EOZ [of b]
    by (auto simp: c_def single_char_def word_char_def isalnum_def isspace_def char2int_def)
  have save: "lexes F N save_and_next (b # bs) [] () bs [b]" for bs
    using lexes_save_and_next [of "[]" N F b bs] N by simp
  have cur: "cur (b # bs) = c" for bs by (simp add: c_def)
  consider (minus) "c = 45" | (bracket) "c = 91" | (dot) "c = 46" | (tok2) "c \<in> {61, 60, 62, 126}"
    | (other) "c \<notin> {45, 91, 46, 61, 60, 62, 126}" by auto
  then have "\<exists>buf. lexes F N (llex_loop (Suc n)) (b # 32 # rest) [] (c, NoInfo) (32 # rest) buf"
  proof cases
    case minus
    then show ?thesis unfolding llex_loop.simps
      by (intro exI [of _ "[]"]) (simp only: lexes_get_bind cur, simp, rule lexes_bind [OF lexes_next], simp only: lexes_get_bind, simp)
  next
    case bracket
    have w: "lexes F N (save_while (\<lambda>c. c = 61) F) ([] @ 32 # rest) [b] () (32 # rest) ([b] @ [])"
      by (rule lexes_save_while) (use F N in auto)
    have "lexes F N skip_sep (b # 32 # rest) [] (- 1) (32 # rest) [b]"
      unfolding skip_sep_def Let_def
      by (simp only: lexes_get_bind cur, rule lexes_bind [OF save], simp only: lexes_get_bind,
          rule lexes_bind [OF w [unfolded append_Nil append_Nil2]], simp only: lexes_get_bind)
        (use bracket in simp)
    then show ?thesis unfolding llex_loop.simps using bracket
      by (intro exI [of _ "[b]"]) (simp only: lexes_get_bind cur, simp, rule lexes_bind, assumption, simp)
  next
    case dot
    have k: "lexes F N (check_next ''.'') (32 # rest) [b] False (32 # rest) [b]"
      by (rule lexes_check_next) (simp add: strchr_def bytes_def)
    show ?thesis unfolding llex_loop.simps using dot
      by (intro exI [of _ "[b]"]) (simp only: lexes_get_bind cur, simp, rule lexes_bind [OF save],
          rule lexes_bind [OF k], simp only: lexes_get_bind if_False, simp add: isdigit_def)
  next
    case tok2
    then show ?thesis unfolding llex_loop.simps
      by (intro exI [of _ "[]"]) (simp only: lexes_get_bind cur, auto intro!: lexes_tok2(2))
  next
    case other
    then show ?thesis unfolding llex_loop.simps using s
      by (intro exI [of _ "[]"]) (simp only: lexes_get_bind cur, simp, rule lexes_bind [OF lexes_next], simp)
  qed
  then show ?thesis by (simp add: c_def)
qed

lemma is_word_start:
  assumes "is_word s"
  shows "\<exists>b cs. s = b # cs \<and> (isalpha (uint b) \<or> uint b = 95) \<and> uint b \<notin> {10, 13, 45, 91, 61, 60, 62, 126, 34, 39, 46, EOZ} \<and>
    \<not> isspace (uint b) \<and> \<not> isdigit (uint b)"
proof -
  obtain b cs where s: "s = b # cs" "isalpha (uint b) \<or> uint b = 95" using assms by (cases s) (auto simp: is_word_def)
  then have "65 \<le> uint b" "uint b \<le> 122" "uint b \<noteq> 91"
    unfolding isalpha_def isupper_def islower_def by linarith+
  then show ?thesis using s unfolding isspace_def isdigit_def EOZ_def by simp
qed

lemma lexes_token_word:
  assumes "is_word s" and "length s < F" and "2 * length s < N"
  shows "lexes F N (llex_loop (Suc n)) (s @ 32 # rest) []
    (case reserved s of Some i \<Rightarrow> (i + FIRST_RESERVED, NoInfo) | None \<Rightarrow> (TK_NAME, SemTs s)) (32 # rest) s"
proof -
  obtain b cs where s: "s = b # cs" and b: "isalpha (uint b) \<or> uint b = 95" "\<not> isspace (uint b)" "\<not> isdigit (uint b)"
    "uint b \<notin> {10, 13, 45, 91, 61, 60, 62, 126, 34, 39, 46, EOZ}"
    using is_word_start [OF assms(1)] by blast
  have "lexes F N name_or_reserved (s @ 32 # rest) []
    (case reserved s of Some i \<Rightarrow> (i + FIRST_RESERVED, NoInfo) | None \<Rightarrow> (TK_NAME, SemTs s)) (32 # rest) s"
    by (rule lexes_word [OF assms])
      (simp add: word_char_def isalnum_def isalpha_def isupper_def islower_def isdigit_def)
  then show ?thesis
    unfolding llex_loop.simps using b s by (simp only: lexes_get_bind append_Cons cur_simps) simp
qed

lemma length_quote: "length (quote s) = 4 * length s + 2"
proof -
  have "length (escape b) = 4" for b unfolding escape_def by (simp only: list.size)
  then have "length (concat (map escape s)) = 4 * length s" by (induction s) simp_all
  then show ?thesis by (simp add: quote_def)
qed

lemma lexes_token:
  assumes ok: "tok_ok t" and F: "length (tok_text t) < F" and N: "2 * length (tok_text t) + 40 < N"
  shows "\<exists>buf. lexes F N (llex_loop (Suc n)) (tok_text t @ 32 # rest) [] (token t, seminfo t) (32 # rest) buf"
proof (cases "seminfo t")
  case NoInfo
  show ?thesis
  proof (cases "single_char (token t)")
    case True
    define b where "b = (word_of_int (token t) :: byte)"
    have b: "uint b = token t" using True by (simp add: b_def single_char_def uint_word_of_int)
    have "tok_text t = [b]" using True NoInfo by (simp add: tok_text_def b_def single_char_def FIRST_RESERVED_def)
    then show ?thesis using lexes_single [of b N F n rest] True b N F NoInfo by auto
  next
    case False
    then have r: "TK_AND \<le> token t" "token t \<le> TK_NE" using ok NoInfo by (auto simp: tok_ok_def)
    define i where "i = nat (token t - 257)"
    have i: "token t = 257 + int i" "i < 27" using r by (auto simp: i_def TK_AND_def TK_NE_def)
    have x: "tok_text t = bytes (luaX_tokens ! i)" using i NoInfo by (simp add: tok_text_def FIRST_RESERVED_def)
    show ?thesis
    proof (cases "i < 21")
      case True
      note r = reserved_words [OF True]
      have "lexes F N (llex_loop (Suc n)) (tok_text t @ 32 # rest) [] (int i + FIRST_RESERVED, NoInfo) (32 # rest) (tok_text t)"
        unfolding x by (rule lexes_token_word [OF r(1), unfolded r(2) option.case]) (use F N x in simp_all)
      then show ?thesis unfolding NoInfo i(1) FIRST_RESERVED_def by (auto simp: add.commute)
    next
      case False
      then show ?thesis unfolding NoInfo i(1) x using i(2) N by (intro lexes_operator) simp_all
    qed
  qed
next
  case (SemTs s)
  show ?thesis
  proof (cases "token t = TK_NAME")
    case True
    then have w: "is_word s" and r: "reserved s = None" and s: "tok_text t = s"
      using ok SemTs by (auto simp: tok_ok_def tok_text_def TK_NAME_def TK_STRING_def)
    show ?thesis
      unfolding SemTs True s by (rule exI, rule lexes_token_word [OF w, unfolded r option.case]) (use F N s in simp_all)
  next
    case False
    then have t: "token t = TK_STRING" "tok_text t = quote s" using ok SemTs by (auto simp: tok_ok_def tok_text_def)
    have "lexes F N (read_string 34) (quote s @ 32 # rest) [] (SemTs s) (32 # rest) (34 # s @ [34])"
      by (rule lexes_read_string) (use F N in \<open>auto simp: t length_quote\<close>)
    moreover have "cur (quote s @ 32 # rest) = 34" by (simp add: quote_def)
    ultimately show ?thesis
      unfolding t llex_loop.simps SemTs
      by (intro exI [of _ "34 # s @ [34]"]) (simp only: lexes_get_bind, simp, rule lexes_bind, assumption, simp)
  qed
qed (use ok in \<open>simp add: tok_ok_def\<close>)

lemma lexes_space:
  "lexes F N (llex_loop n :: ('d, int \<times> SemInfo) lx) bs [] r bs' buf' \<Longrightarrow>
    lexes F N (llex_loop (Suc n) :: ('d, int \<times> SemInfo) lx) (32 # bs) [] r bs' buf'"
  unfolding llex_loop.simps
  by (simp only: lexes_get_bind, simp add: isspace_def) (rule lexes_bind [OF lexes_next])

lemma lexes_end: "lexes F N (llex_loop (Suc n)) [] [] (TK_EOS, NoInfo) [] []"
  unfolding llex_loop.simps by (simp only: lexes_get_bind) (simp add: EOZ_def)

section \<open>The whole text\<close>

definition tokens_text :: "Token list \<Rightarrow> byte list" where
  "tokens_text ts = concat (map (\<lambda>t. tok_text t @ [32]) ts)"

lemma lexes_llex:
  "lexes F N (llex_loop F :: ('d, int \<times> SemInfo) lx) bs [] r bs' buf' \<Longrightarrow> lexes F N (llex :: ('d, int \<times> SemInfo) lx) bs buf r bs' buf'"
  unfolding llex_def by (rule lexes_bind [OF lexes_reset]) (simp only: lexes_get_bind)

lemma luaX_next_lexes:
  assumes "\<exists>buf'. lexes F N (llex :: ('d, int \<times> SemInfo) lx) bs buf (t, s) bs' buf'" and "lex_at F N (ls :: 'd LexState) bs buf"
  shows "\<exists>ls' buf'. luaX_next ls = Inr ((), ls') \<and> ls_t ls' = \<lparr>token = t, seminfo = s\<rparr> \<and> lex_at F N ls' bs' buf'"
proof -
  define l0 where "l0 = ls\<lparr>lastline := linenumber ls\<rparr>"
  have "lex_at F N l0 bs buf"
    using assms(2) by (auto simp: l0_def lex_at_def ahead_def split: list.splits)
  then obtain l1 buf' where l1: "llex l0 = Inr ((t, s), l1)" "lex_at F N l1 bs' buf'"
    using assms(1) by (auto simp: lexes_def)
  have "luaX_next ls = Inr ((), l1\<lparr>ls_t := \<lparr>token = t, seminfo = s\<rparr>\<rparr>)"
    using assms(2) l1(1) by (simp add: luaX_next_def l0_def sbind_def lex_at_def)
  moreover have "lex_at F N (l1\<lparr>ls_t := \<lparr>token = t, seminfo = s\<rparr>\<rparr>) bs' buf'"
    using l1(2) by (auto simp: lex_at_def ahead_def split: list.splits)
  ultimately show ?thesis by auto
qed

lemma tok_ok_not_EOS: "tok_ok t \<Longrightarrow> token t \<noteq> TK_EOS"
  by (auto simp: tok_ok_def TK_EOS_def TK_NE_def TK_STRING_def TK_NAME_def single_char_def split: SemInfo.splits)

text \<open>A text cut into pieces with a space after each, and the token each piece is read as.\<close>

definition pieces_text :: "(byte list \<times> Token) list \<Rightarrow> byte list" where
  "pieces_text ps = concat (map (\<lambda>(w, _). w @ [32]) ps)"

lemma pieces_text_simps [simp]:
  "pieces_text [] = []" "pieces_text ((w, t) # ps) = w @ 32 # pieces_text ps"
  "pieces_text (ps @ qs) = pieces_text ps @ pieces_text qs"
  by (simp_all add: pieces_text_def)

text \<open>With fuel \<open>F\<close> and buffer \<open>N\<close> the lexer reads a piece as its token and stops behind it.\<close>

definition reads_in :: "nat \<Rightarrow> nat \<Rightarrow> byte list \<times> Token \<Rightarrow> bool" where
  "reads_in F N = (\<lambda>(w, t). token t \<noteq> TK_EOS \<and>
     (\<forall>n rest. \<exists>buf. lexes F N (llex_loop (Suc n) :: (byte list list, int \<times> SemInfo) lx) (w @ 32 # rest) []
        (token t, seminfo t) (32 # rest) buf))"

lemma lex_all_pieces:
  fixes ls :: "byte list list LexState"
  assumes "list_all (reads_in F N) ps" and "2 \<le> F" and "length ps < n" and "lex_at F N ls bs buf" and "bs = pieces_text ps \<or> bs = 32 # pieces_text ps"
  shows "lex_all n ls = Inr (map snd ps)"
  using assms
proof (induction ps arbitrary: n ls bs buf)
  case Nil
  then obtain k where k: "n = Suc k" by (cases n) auto
  obtain f where f: "F = Suc (Suc f)" by (rule that [of "F - 2"]) (use Nil(2) in simp)
  have "lexes F N (llex_loop F :: (byte list list, int \<times> SemInfo) lx) bs [] (TK_EOS, NoInfo) [] []"
  proof (cases "bs = []")
    case True
    show ?thesis unfolding True by (subst (2) f) (rule lexes_end)
  next
    case False
    then have b: "bs = [32]" using Nil(5) by simp
    show ?thesis unfolding b by (subst (2) f, rule lexes_space) (rule lexes_end)
  qed
  then have "lexes F N (llex :: (byte list list, int \<times> SemInfo) lx) bs buf (TK_EOS, NoInfo) [] []" by (rule lexes_llex)
  then obtain l1 where "luaX_next ls = Inr ((), l1)" "ls_t l1 = \<lparr>token = TK_EOS, seminfo = NoInfo\<rparr>"
    using luaX_next_lexes Nil(4) by blast
  then show ?case by (simp add: k)
next
  case (Cons p ps)
  then obtain k where k: "n = Suc k" by (cases n) auto
  obtain w t where p: "p = (w, t)" by fastforce
  obtain f where f: "F = Suc (Suc f)" by (rule that [of "F - 2"]) (use Cons(3) in simp)
  have t: "token t \<noteq> TK_EOS" "\<exists>buf. lexes F N (llex_loop (Suc n) :: (byte list list, int \<times> SemInfo) lx) (w @ 32 # rest) []
      (token t, seminfo t) (32 # rest) buf" for n rest
    using Cons(2) by (auto simp only: p list.pred_inject reads_in_def prod.case)
  have "\<exists>buf. lexes F N (llex_loop F :: (byte list list, int \<times> SemInfo) lx) bs [] (token t, seminfo t) (32 # pieces_text ps) buf"
  proof (cases "bs = pieces_text (p # ps)")
    case True
    then have b: "bs = w @ 32 # pieces_text ps" by (simp add: p)
    show ?thesis using t(2) unfolding b by (subst (2) f)
  next
    case False
    then have b: "bs = 32 # w @ 32 # pieces_text ps" using Cons(6) by (simp add: p)
    obtain buf1 where "lexes F N (llex_loop (Suc f) :: (byte list list, int \<times> SemInfo) lx) (w @ 32 # pieces_text ps) []
        (token t, seminfo t) (32 # pieces_text ps) buf1"
      using t(2) by blast
    then show ?thesis unfolding b by (subst (2) f) (blast intro: lexes_space)
  qed
  then have "\<exists>buf'. lexes F N (llex :: (byte list list, int \<times> SemInfo) lx) bs buf (token t, seminfo t) (32 # pieces_text ps) buf'"
    using lexes_llex by blast
  from luaX_next_lexes [OF this Cons(5)] obtain l1 buf1 where l1: "luaX_next ls = Inr ((), l1)" "ls_t l1 = t"
    "lex_at F N l1 (32 # pieces_text ps) buf1" by auto
  have "lex_all k l1 = Inr (map snd ps)"
    by (rule Cons.IH [OF _ _ _ l1(3)]) (use Cons(2,3,4) k in simp_all)
  then show ?case using l1 t(1) by (simp add: k p)
qed

lemma luaX_setinput_at:
  assumes "holds R z bs" and "length bs < fuel" and "LUA_MINBUFFER \<le> N" "N < 2 ^ 62"
  shows "\<exists>ls. luaX_setinput R z \<lparr>mbuffer = [], buffsize = 0\<rparr> source locale fuel = Inr ls \<and> lex_at fuel N ls bs []"
proof -
  obtain ls where ls: "luaX_setinput R z \<lparr>mbuffer = [], buffsize = 0\<rparr> source locale fuel = Inr ls" "lex_ready ls bs"
    using luaX_setinput_ready [OF assms(1,2)] by blast
  have "mbuffer (ls_buff ls) = []" "buffsize (ls_buff ls) = LUA_MINBUFFER" "ls_fuel ls = fuel"
    using ls(1) by (auto simp: luaX_setinput_def next_char_def rbind_def luaZ_resizebuffer_def split: sum.splits)
  then show ?thesis using ls assms(3,4) by (auto simp: lex_at_def lex_ready_def)
qed

lemma list_reader_one: "length bs < 2 ^ 64 \<Longrightarrow> holds list_reader (luaZ_init [bs]) bs"
proof (cases "bs = []")
  case True
  have "delivers list_reader [[]] []" by (rule delivers.stop_empty [of _ _ "[]" "[]"]) (simp_all add: list_reader_def)
  then show ?thesis using True by (simp add: holds_def luaZ_init_def)
qed (use list_reader_holds [of "[bs]"] in auto)

lemma piece_within: "(w, t) \<in> set ps \<Longrightarrow> length w < length (pieces_text ps)"
  by (induction ps) auto

lemma pieces_count: "length ps \<le> length (pieces_text ps)"
  by (induction ps) auto

text \<open>A piece is read as its token whenever there are fuel and buffer for it.\<close>

definition reads_as :: "byte list \<Rightarrow> Token \<Rightarrow> bool" where
  "reads_as w t \<longleftrightarrow> (\<forall>F N. length w < F \<longrightarrow> 2 * length w + 40 < N \<longrightarrow> reads_in F N (w, t))"

lemma lex_bytes_pieces:
  assumes "\<And>w t. (w, t) \<in> set ps \<Longrightarrow> reads_as w t" and "length (pieces_text ps) < 2 ^ 60"
  shows "lex_bytes (pieces_text ps) = Inr (map snd ps)"
proof -
  define bs where "bs = pieces_text ps"
  have h: "holds list_reader (luaZ_init [bs]) bs" using assms(2) by (intro list_reader_one) (simp add: bs_def)
  have n: "2 * length bs + 100 < 2 ^ 62" using assms(2) by (simp add: bs_def)
  obtain ls where ls: "lex_at (length bs + 2) (2 * length bs + 100) ls bs []"
      "luaX_setinput list_reader (luaZ_init [bs]) \<lparr>mbuffer = [], buffsize = 0\<rparr> (bytes ''=in'') 46 (length bs + 2) = Inr ls"
    using luaX_setinput_at [OF h _ _ n, of "length bs + 2" "bytes ''=in''" 46] by (force simp: LUA_MINBUFFER_def)
  have "list_all (reads_in (length bs + 2) (2 * length bs + 100)) ps"
    unfolding list_all_iff
  proof clarify
    fix w t assume "(w, t) \<in> set ps"
    then show "reads_in (length bs + 2) (2 * length bs + 100) (w, t)"
      using assms(1) [of w t] piece_within [of w t ps] by (simp add: bs_def reads_as_def)
  qed
  then have "lex_all (length bs + 2) ls = Inr (map snd ps)"
    by (rule lex_all_pieces [OF _ _ _ ls(1)]) (use pieces_count [of ps] in \<open>simp_all add: bs_def\<close>)
  then show ?thesis using ls(2) by (simp add: lex_bytes_def bs_def [symmetric])
qed

lemma token_reads_as: "tok_ok t \<Longrightarrow> reads_as (tok_text t) t"
  unfolding reads_as_def reads_in_def prod.case using lexes_token tok_ok_not_EOS by blast

definition token_pieces :: "Token list \<Rightarrow> (byte list \<times> Token) list" where
  "token_pieces = map (\<lambda>t. (tok_text t, t))"

lemma token_pieces_simps [simp]:
  "pieces_text (token_pieces ts) = tokens_text ts" "map snd (token_pieces ts) = ts"
  by (induction ts) (simp_all add: token_pieces_def tokens_text_def)

lemma token_pieces_read: "list_all tok_ok ts \<Longrightarrow> (w, t) \<in> set (token_pieces ts) \<Longrightarrow> reads_as w t"
  by (auto simp: token_pieces_def list_all_iff token_reads_as)

text \<open>A dot and a byte that \<open>check_next\<close> takes for a dot.\<close>

lemma dots_read_as:
  assumes "d = 0 \<or> d = 46"
  shows "reads_as [46, d] \<lparr>token = TK_CONCAT, seminfo = NoInfo\<rparr>"
proof -
  have "lexes F N (llex_loop (Suc n) :: (byte list list, int \<times> SemInfo) lx) ([46, d] @ 32 # rest) []
      (TK_CONCAT, NoInfo) (32 # rest) [46, d]" if N: "40 < N" for F N n rest
  proof -
    have dot: "lexes F N (save_and_next :: (byte list list, unit) lx) (46 # d # 32 # rest) [] () (d # 32 # rest) [46]"
      using lexes_save_and_next [of "[]" N F 46] N by simp
    have one: "lexes F N (check_next ''.'' :: (byte list list, bool) lx) (d # 32 # rest) [46] True (32 # rest) [46, d]"
      using lexes_check_next(1) [of "''.''" d "[46]" N] assms N by (auto simp: strchr_def bytes_def)
    have two: "lexes F N (check_next ''.'' :: (byte list list, bool) lx) (32 # rest) [46, d] False (32 # rest) [46, d]"
      by (rule lexes_check_next) (simp add: strchr_def bytes_def)
    show ?thesis
      unfolding llex_loop.simps
      by (simp only: append_Cons append_Nil lexes_get_bind) (simp, rule lexes_bind [OF dot], rule lexes_bind [OF one],
          simp, rule lexes_bind [OF two], simp)
  qed
  moreover have "TK_CONCAT \<noteq> TK_EOS" by (simp add: TK_CONCAT_def TK_EOS_def)
  ultimately have "reads_in F N ([46, d], \<lparr>token = TK_CONCAT, seminfo = NoInfo\<rparr>)" if "40 < N" for F N
    using that unfolding reads_in_def prod.case Token.select_convs by blast
  then show ?thesis by (simp add: reads_as_def)
qed

section \<open>Properties\<close>

text \<open>C21: Lexing undoes printing. Any list of tokens without numerals (reserved words, operators,
  single characters, names, and strings of arbitrary bytes quoted with decimal escapes) written
  with a space after each token is read back as the same list.\<close>

theorem lex_print_roundtrip:
  assumes "list_all tok_ok ts" and "length (tokens_text ts) < 2 ^ 60"
  shows "lex_bytes (tokens_text ts) = Inr ts"
  using lex_bytes_pieces [of "token_pieces ts"] token_pieces_read [OF assms(1)] assms(2) by simp

lemma lex_print_roundtrip_witness:
  "lex_bytes (tokens_text [\<lparr>token = TK_RETURN, seminfo = NoInfo\<rparr>, \<lparr>token = TK_STRING, seminfo = SemTs [10, 0]\<rparr>]) =
    Inr [\<lparr>token = TK_RETURN, seminfo = NoInfo\<rparr>, \<lparr>token = TK_STRING, seminfo = SemTs [10, 0]\<rparr>]"
proof -
  have "list_all tok_ok [\<lparr>token = TK_RETURN, seminfo = NoInfo\<rparr>, \<lparr>token = TK_STRING, seminfo = SemTs [10, 0]\<rparr>]"
    by code_simp
  moreover have "length (tokens_text [\<lparr>token = TK_RETURN, seminfo = NoInfo\<rparr>, \<lparr>token = TK_STRING, seminfo = SemTs [10, 0]\<rparr>]) = 18"
    by code_simp
  ultimately show ?thesis by (intro lex_print_roundtrip) simp_all
qed

text \<open>C22: \<open>check_next\<close> tests a character with \<open>strchr\<close>, which also finds the terminator of the
  set, so a zero byte after a dot is taken for a second dot: between any two texts of tokens,
  writing the concatenation operator with a zero byte for its second dot gives exactly the
  tokens that the text with the operator gives.\<close>

theorem zero_byte_is_a_dot:
  assumes "list_all tok_ok ts" and "list_all tok_ok us"
    and "length (tokens_text ts) + length (tokens_text us) + 3 < 2 ^ 60"
  shows "lex_bytes (tokens_text ts @ [46, 0, 32] @ tokens_text us) =
      Inr (ts @ [\<lparr>token = TK_CONCAT, seminfo = NoInfo\<rparr>] @ us) \<and>
    lex_bytes (tokens_text ts @ [46, 46, 32] @ tokens_text us) =
      Inr (ts @ [\<lparr>token = TK_CONCAT, seminfo = NoInfo\<rparr>] @ us)"
proof -
  have "lex_bytes (tokens_text ts @ [46, d, 32] @ tokens_text us) =
      Inr (ts @ [\<lparr>token = TK_CONCAT, seminfo = NoInfo\<rparr>] @ us)" if d: "d = 0 \<or> d = 46" for d
    using lex_bytes_pieces [of "token_pieces ts @ ([46, d], \<lparr>token = TK_CONCAT, seminfo = NoInfo\<rparr>) # token_pieces us"]
      token_pieces_read [OF assms(1)] token_pieces_read [OF assms(2)] dots_read_as [OF d] assms(3) by auto
  then show ?thesis by blast
qed

lemma zero_byte_is_a_dot_witness:
  "lex_bytes (tokens_text [\<lparr>token = TK_NAME, seminfo = SemTs (bytes ''a'')\<rparr>] @ [46, 0, 32] @
      tokens_text [\<lparr>token = TK_STRING, seminfo = SemTs [7]\<rparr>]) =
    Inr [\<lparr>token = TK_NAME, seminfo = SemTs (bytes ''a'')\<rparr>, \<lparr>token = TK_CONCAT, seminfo = NoInfo\<rparr>,
      \<lparr>token = TK_STRING, seminfo = SemTs [7]\<rparr>]"
proof -
  have "list_all tok_ok [\<lparr>token = TK_NAME, seminfo = SemTs (bytes ''a'')\<rparr>]"
    "list_all tok_ok [\<lparr>token = TK_STRING, seminfo = SemTs [7]\<rparr>]"
    "length (tokens_text [\<lparr>token = TK_NAME, seminfo = SemTs (bytes ''a'')\<rparr>]) = 2"
    "length (tokens_text [\<lparr>token = TK_STRING, seminfo = SemTs [7]\<rparr>]) = 7" by code_simp+
  then show ?thesis using zero_byte_is_a_dot by fastforce
qed

end
