(* ===== verification/LParser.thy ===== *)
theory LParser
  imports LLex LCode
begin

text \<open>
  \<open>lparser.c\<close>: the recursive descent parser, which drives the lexer of \<open>LLex\<close> and the code
  generator of \<open>LCode\<close>. The chain of \<open>FuncState\<close>s is a list, the function being compiled first;
  each holds its code generator state and what the parser adds: nested prototypes, local
  variables, upvalues and blocks. The two mutually recursive entries \<open>subexpr\<close> and \<open>chunk\<close> are
  parameters of the rules and tied together at the end over the nesting depth, which the code
  itself limits to \<open>LUAI_MAXCCALLS\<close>; loops over lists of items carry \<open>ls_fuel\<close>.
\<close>

section \<open>State\<close>

definition LUAI_MAXVARS :: int where "LUAI_MAXVARS = 200"
definition LUAI_MAXUPVALUES :: int where "LUAI_MAXUPVALUES = 60"
definition SHRT_MAX :: int where "SHRT_MAX = 32767"

record BlockCnt =
  breaklist :: int
  bl_nactvar :: int
  bl_upval :: bool
  isbreakable :: bool

record Func =
  fn_cg :: "byte list FuncState"
  fn_p :: "Proto list"
  fn_sizep :: int
  fn_locvars :: "LocVar list"
  fn_sizelocvars :: int
  fn_upnames :: "byte list list"
  fn_sizeupvalues :: int
  fn_upvalues :: "(expkind \<times> int) list"
  fn_actvar :: "nat list"
  fn_bl :: "BlockCnt list"
  fn_is_vararg :: byte
  fn_numparams :: byte
  fn_linedefined :: int
  fn_lastlinedefined :: int

record 'd PS =
  ps_lex :: "'d LexState"
  ps_fs :: "Func list"
  ps_nCcalls :: int
  ps_H :: "byte list string_view"
  ps_pow :: "lua_Number \<Rightarrow> lua_Number \<Rightarrow> lua_Number"
  ps_haddr :: addr

type_synonym ('d, 'a) pm = "('d PS, 'a) sm"

definition lx :: "('d, 'a) lx \<Rightarrow> ('d, 'a) pm" where
  "lx m ps = rbind (m (ps_lex ps)) (\<lambda>(x, ls). Inr (x, ps\<lparr>ps_lex := ls\<rparr>))"

text \<open>The code generator reports syntax errors through \<open>luaX_syntaxerror(fs->ls, msg)\<close> and reads
  \<open>fs->ls->lastline\<close>.\<close>

definition syntax_err :: "string \<Rightarrow> int \<Rightarrow> 'd LexState \<Rightarrow> lua_error" where
  "syntax_err msg tok ls = ErrSyntax (chars (lex_message msg tok ls))"

definition cg :: "(byte list, 'a) cg \<Rightarrow> ('d, 'a) pm" where
  "cg m ps =
     (case ps_fs ps of
        [] \<Rightarrow> Inl Undefined
      | f # fs \<Rightarrow>
          (case m ((fn_cg f)\<lparr>fs_lastline := lastline (ps_lex ps)\<rparr>) of
             Inl (ErrSyntax msg) \<Rightarrow> Inl (syntax_err msg (token (ls_t (ps_lex ps))) (ps_lex ps))
           | Inl e \<Rightarrow> Inl e
           | Inr (x, c) \<Rightarrow> Inr (x, ps\<lparr>ps_fs := f\<lparr>fn_cg := c\<rparr> # fs\<rparr>)))"

text \<open>Reading and updating the current function.\<close>

definition fget :: "(Func \<Rightarrow> 'a) \<Rightarrow> ('d, 'a) pm" where
  "fget g ps = (case ps_fs ps of [] \<Rightarrow> Inl Undefined | f # fs \<Rightarrow> Inr (g f, ps))"

definition fupd :: "(Func \<Rightarrow> Func) \<Rightarrow> ('d, unit) pm" where
  "fupd g ps = (case ps_fs ps of [] \<Rightarrow> Inl Undefined | f # fs \<Rightarrow> Inr ((), ps\<lparr>ps_fs := g f # fs\<rparr>))"

definition cget :: "(byte list FuncState \<Rightarrow> 'a) \<Rightarrow> ('d, 'a) pm" where
  "cget g = fget (\<lambda>f. g (fn_cg f))"

definition cur_token :: "('d, int) pm" where "cur_token = sget (\<lambda>ps. token (ls_t (ps_lex ps)))"
definition cur_line :: "('d, int) pm" where "cur_line = sget (\<lambda>ps. linenumber (ps_lex ps))"

definition syntaxerror :: "string \<Rightarrow> ('d, 'a) pm" where "syntaxerror msg = lx (luaX_syntaxerror msg)"

definition nactvar :: "Func \<Rightarrow> int" where "nactvar f = fs_nactvar (fn_cg f)"

definition set_nactvar :: "int \<Rightarrow> Func \<Rightarrow> Func" where
  "set_nactvar n f = f\<lparr>fn_cg := (fn_cg f)\<lparr>fs_nactvar := n\<rparr>\<rparr>"

definition set_freereg :: "int \<Rightarrow> ('d, unit) pm" where
  "set_freereg r = fupd (\<lambda>f. f\<lparr>fn_cg := (fn_cg f)\<lparr>fs_freereg := r\<rparr>\<rparr>)"

definition luaY_grow :: "int \<Rightarrow> int \<Rightarrow> int \<Rightarrow> string \<Rightarrow> ('d, int) pm" where
  "luaY_grow nelems sz limit msg = slift (grow nelems sz limit msg)"

section \<open>Tokens\<close>

definition quoted :: "byte list \<Rightarrow> string" where "quoted s = chars ([39] @ s @ [39])"

definition error_expected :: "int \<Rightarrow> ('d, 'a) pm" where
  "error_expected tok = syntaxerror (quoted (luaX_token2str tok) @ '' expected'')"

definition limit_message :: "Func \<Rightarrow> int \<Rightarrow> string \<Rightarrow> string" where
  "limit_message f limit what =
     (if fn_linedefined f = 0 then ''main function has more than '' @ chars (dec_int limit) @ '' '' @ what
      else ''function at line '' @ chars (dec_int (fn_linedefined f)) @ '' has more than '' @
        chars (dec_int limit) @ '' '' @ what)"

definition errorlimit :: "int \<Rightarrow> string \<Rightarrow> ('d, 'a) pm" where
  "errorlimit limit what = sbind (fget (\<lambda>f. f)) (\<lambda>f. lx (luaX_lexerror (limit_message f limit what) 0))"

definition luaY_checklimit :: "int \<Rightarrow> int \<Rightarrow> string \<Rightarrow> ('d, unit) pm" where
  "luaY_checklimit v l m = (if l < v then errorlimit l m else sret ())"

text \<open>\<open>luaX_next\<close> and \<open>luaX_lookahead\<close> with the other half of \<open>luaX_newstring\<close>: a name, a string or
  a reserved word that has just been read is entered into the constant table of the current
  function. A token that was looked ahead was entered then.\<close>

definition token_string :: "Token \<Rightarrow> byte list option" where
  "token_string t =
     (case seminfo t of SemTs ts \<Rightarrow> Some ts
      | _ \<Rightarrow> if FIRST_RESERVED \<le> token t \<and> token t < FIRST_RESERVED + NUM_RESERVED
             then Some (bytes (luaX_tokens ! nat (token t - FIRST_RESERVED))) else None)"

definition anchor_new :: "Token \<Rightarrow> ('d, unit) pm" where
  "anchor_new t = (case token_string t of None \<Rightarrow> sret () | Some ts \<Rightarrow> cg (luaX_anchor ts))"

definition next_token :: "('d, unit) pm" where
  "next_token =
     sbind (sget (\<lambda>ps. token (lookahead (ps_lex ps)) \<noteq> TK_EOS)) (\<lambda>ahead.
     sthen (lx luaX_next)
       (if ahead then sret () else sbind (sget (\<lambda>ps. ls_t (ps_lex ps))) anchor_new))"

definition lookahead_token :: "('d, unit) pm" where
  "lookahead_token = sthen (lx luaX_lookahead) (sbind (sget (\<lambda>ps. lookahead (ps_lex ps))) anchor_new)"

definition anchor_token :: "('d, unit) pm" where
  "anchor_token =
     sbind (sget (\<lambda>ps. ls_t (ps_lex ps))) (\<lambda>t.
       if token t = TK_NAME \<or> token t = TK_STRING then anchor_new t else sret ())"

definition testnext :: "int \<Rightarrow> ('d, bool) pm" where
  "testnext c = sbind cur_token (\<lambda>t. if t = c then sthen next_token (sret True) else sret False)"

definition check_tok :: "int \<Rightarrow> ('d, unit) pm" where
  "check_tok c = sbind cur_token (\<lambda>t. if t \<noteq> c then error_expected c else sret ())"

definition checknext :: "int \<Rightarrow> ('d, unit) pm" where
  "checknext c = sthen (check_tok c) next_token"

definition check_match :: "int \<Rightarrow> int \<Rightarrow> int \<Rightarrow> ('d, unit) pm" where
  "check_match what who where_line =
     sbind (testnext what) (\<lambda>b. if b then sret () else
       sbind cur_line (\<lambda>line.
         if where_line = line then error_expected what
         else syntaxerror (quoted (luaX_token2str what) @ '' expected (to close '' @
                quoted (luaX_token2str who) @ '' at line '' @ chars (dec_int where_line) @ '')'')))"

definition token_str :: "('d, byte list) pm" where
  "token_str = sbind (sget (\<lambda>ps. seminfo (ls_t (ps_lex ps)))) (\<lambda>s.
     case s of SemTs ts \<Rightarrow> sret ts | _ \<Rightarrow> serror Undefined)"

definition str_checkname :: "('d, byte list) pm" where
  "str_checkname = sthen (check_tok TK_NAME) (sbind token_str (\<lambda>ts. sthen next_token (sret ts)))"

definition init_exp :: "expkind \<Rightarrow> int \<Rightarrow> expdesc" where
  "init_exp k i = \<lparr>ek = k, einfo = i, eaux = 0, enval = cast_num 0, et = NO_JUMP, ef = NO_JUMP\<rparr>"

definition codestring :: "byte list \<Rightarrow> ('d, expdesc) pm" where
  "codestring s = sbind (cg (luaK_stringK s)) (\<lambda>k. sret (init_exp VK k))"

definition checkname :: "('d, expdesc) pm" where
  "checkname = sbind str_checkname codestring"

definition hasmultret :: "expkind \<Rightarrow> bool" where
  "hasmultret k \<longleftrightarrow> k = VCALL \<or> k = VVARARG"

section \<open>Local variables and upvalues\<close>

definition registerlocalvar :: "byte list \<Rightarrow> ('d, nat) pm" where
  "registerlocalvar name =
     sbind (fget (\<lambda>f. (length (fn_locvars f), fn_sizelocvars f))) (\<lambda>(n, sz).
     sbind (luaY_grow (int n) sz SHRT_MAX ''too many local variables'') (\<lambda>sz'.
     sthen (fupd (\<lambda>f. f\<lparr>fn_sizelocvars := sz',
              fn_locvars := fn_locvars f @ [\<lparr>varname = Some name, startpc = 0, endpc = 0\<rparr>]\<rparr>))
       (sret n)))"

definition new_localvar :: "byte list \<Rightarrow> int \<Rightarrow> ('d, unit) pm" where
  "new_localvar name n =
     sbind (fget nactvar) (\<lambda>na.
     sthen (luaY_checklimit (na + n + 1) LUAI_MAXVARS ''local variables'')
       (sbind (registerlocalvar name) (\<lambda>i.
         fupd (\<lambda>f. f\<lparr>fn_actvar := (fn_actvar f)[nat (na + n) := i]\<rparr>))))"

definition new_localvarliteral :: "string \<Rightarrow> int \<Rightarrow> ('d, unit) pm" where
  "new_localvarliteral v n = sthen (cg (luaX_anchor (bytes v))) (new_localvar (bytes v) n)"

definition set_locvar :: "int \<Rightarrow> (LocVar \<Rightarrow> LocVar) \<Rightarrow> Func \<Rightarrow> Func" where
  "set_locvar i g f =
     (let j = fn_actvar f ! nat i in f\<lparr>fn_locvars := (fn_locvars f)[j := g (fn_locvars f ! j)]\<rparr>)"

definition adjust_vars :: "int \<Rightarrow> Func \<Rightarrow> Func" where
  "adjust_vars nvars f =
     (let na = (nactvar f + nvars) mod 256; pc = fs_pc (fn_cg f)
      in fold (\<lambda>i. set_locvar (na - nvars + int i) (\<lambda>v. v\<lparr>startpc := pc\<rparr>)) [0..<nat nvars] (set_nactvar na f))"

definition adjustlocalvars :: "int \<Rightarrow> ('d, unit) pm" where
  "adjustlocalvars nvars = fupd (adjust_vars nvars)"

definition remove_vars :: "int \<Rightarrow> Func \<Rightarrow> Func" where
  "remove_vars tolevel f =
     (let pc = fs_pc (fn_cg f); n = nat (nactvar f - tolevel)
      in fold (\<lambda>i g. set_locvar (nactvar g - 1) (\<lambda>v. v\<lparr>endpc := pc\<rparr>) (set_nactvar (nactvar g - 1) g)
)
           [0..<n] f)"

definition removevars :: "int \<Rightarrow> ('d, unit) pm" where
  "removevars tolevel = fupd (remove_vars tolevel)"

text \<open>The functions on the chain of \<open>FuncState\<close>s work on the list of functions.\<close>

definition find_upvalue :: "expkind \<Rightarrow> int \<Rightarrow> Func \<Rightarrow> nat option" where
  "find_upvalue k i f = find (\<lambda>j. fn_upvalues f ! j = (k, i)) [0..<length (fn_upvalues f)]"

definition indexupvalue :: "'d LexState \<Rightarrow> Func \<Rightarrow> byte list \<Rightarrow> expdesc \<Rightarrow> (int \<times> Func) res" where
  "indexupvalue ls f name v =
     (case find_upvalue (ek v) (einfo v) f of
        Some i \<Rightarrow> Inr (int i, f)
      | None \<Rightarrow>
          (let nups = int (length (fn_upvalues f))
           in if LUAI_MAXUPVALUES < nups + 1
              then Inl (syntax_err (limit_message f LUAI_MAXUPVALUES ''upvalues'') 0 ls)
              else rbind (grow nups (fn_sizeupvalues f) MAX_INT '''') (\<lambda>sz.
                Inr (nups, f\<lparr>fn_sizeupvalues := sz, fn_upnames := fn_upnames f @ [name],
                             fn_upvalues := fn_upvalues f @ [(ek v, einfo v mod 256)]\<rparr>))))"

definition searchvar :: "Func \<Rightarrow> byte list \<Rightarrow> int" where
  "searchvar f n =
     (case find (\<lambda>i. varname (fn_locvars f ! (fn_actvar f ! i)) = Some n) (rev [0..<nat (nactvar f)]) of
        Some i \<Rightarrow> int i | None \<Rightarrow> - 1)"

fun mark_block :: "int \<Rightarrow> BlockCnt list \<Rightarrow> BlockCnt list" where
  "mark_block level [] = []"
| "mark_block level (bl # bls) =
     (if level < bl_nactvar bl then bl # mark_block level bls else bl\<lparr>bl_upval := True\<rparr> # bls)"

definition markupval :: "Func \<Rightarrow> int \<Rightarrow> Func" where
  "markupval f level = f\<lparr>fn_bl := mark_block level (fn_bl f)\<rparr>"

fun singlevaraux :: "'d LexState \<Rightarrow> Func list \<Rightarrow> byte list \<Rightarrow> bool \<Rightarrow> (expdesc \<times> Func list) res" where
  "singlevaraux ls [] n base = Inr (init_exp VGLOBAL NO_REG, [])"
| "singlevaraux ls (f # fs) n base =
     (let v = searchvar f n
      in if 0 \<le> v then Inr (init_exp VLOCAL v, (if base then f else markupval f v) # fs)
         else rbind (singlevaraux ls fs n False) (\<lambda>(var, fs').
           if ek var = VGLOBAL then Inr (var, f # fs')
           else rbind (indexupvalue ls f n var) (\<lambda>(i, f').
             Inr (var\<lparr>einfo := i, ek := VUPVAL\<rparr>, f' # fs'))))"

definition singlevar :: "('d, expdesc) pm" where
  "singlevar =
     sbind str_checkname (\<lambda>name.
     sbind (\<lambda>ps. rbind (singlevaraux (ps_lex ps) (ps_fs ps) name True) (\<lambda>(v, fs).
              Inr (v, ps\<lparr>ps_fs := fs\<rparr>))) (\<lambda>var.
       if ek var = VGLOBAL then sbind (cg (luaK_stringK name)) (\<lambda>k. sret (var\<lparr>einfo := k\<rparr>))
       else sret var))"

definition adjust_assign :: "int \<Rightarrow> int \<Rightarrow> expdesc \<Rightarrow> ('d, unit) pm" where
  "adjust_assign nvars nexps e =
     (let extra = nvars - nexps
      in if hasmultret (ek e) then
           (let extra1 = (if extra + 1 < 0 then 0 else extra + 1)
            in sthen (cg (luaK_setreturns e extra1))
                 (if 1 < extra1 then cg (luaK_reserveregs (extra1 - 1)) else sret ()))
         else
           sthen (if ek e \<noteq> VVOID then sthen (cg (luaK_exp2nextreg e)) (sret ()) else sret ())
             (if 0 < extra then
                sbind (cget fs_freereg) (\<lambda>reg. sthen (cg (luaK_reserveregs extra)) (cg (luaK_nil reg extra)))
              else sret ()))"

section \<open>Levels, blocks and functions\<close>

definition enterlevel :: "('d, unit) pm" where
  "enterlevel =
     sthen (supd (\<lambda>ps. ps\<lparr>ps_nCcalls := ps_nCcalls ps + 1\<rparr>))
       (sbind (sget ps_nCcalls) (\<lambda>n.
         if LUAI_MAXCCALLS < n then lx (luaX_lexerror ''chunk has too many syntax levels'' 0) else sret ()))"

definition leavelevel :: "('d, unit) pm" where
  "leavelevel = supd (\<lambda>ps. ps\<lparr>ps_nCcalls := ps_nCcalls ps - 1\<rparr>)"

definition enterblock :: "bool \<Rightarrow> ('d, unit) pm" where
  "enterblock breakable =
     fupd (\<lambda>f. f\<lparr>fn_bl := \<lparr>breaklist = NO_JUMP, bl_nactvar = nactvar f, bl_upval = False,
                         isbreakable = breakable\<rparr> # fn_bl f\<rparr>)"

definition leaveblock :: "('d, unit) pm" where
  "leaveblock =
     sbind (fget fn_bl) (\<lambda>bls.
       case bls of
         [] \<Rightarrow> serror Undefined
       | bl # rest \<Rightarrow>
           sthen (fupd (\<lambda>f. f\<lparr>fn_bl := rest\<rparr>))
             (sthen (removevars (bl_nactvar bl))
               (sthen (if bl_upval bl then sthen (cg (luaK_codeABC OP_CLOSE (bl_nactvar bl) 0 0)) (sret ())
                       else sret ())
                 (sbind (fget nactvar) (\<lambda>na. sthen (set_freereg na)
                   (cg (luaK_patchtohere (breaklist bl))))))))"

fun code_upvalues :: "(expkind \<times> int) list \<Rightarrow> (byte list, unit) cg" where
  "code_upvalues [] = sret ()"
| "code_upvalues ((k, i) # us) =
     sthen (luaK_codeABC (if k = VLOCAL then OP_MOVE else OP_GETUPVAL) 0 i 0) (code_upvalues us)"

definition pushclosure :: "Proto \<Rightarrow> (expkind \<times> int) list \<Rightarrow> ('d, expdesc) pm" where
  "pushclosure p upvs =
     sbind (fget (\<lambda>f. (int (length (fn_p f)), fn_sizep f))) (\<lambda>(np, sz).
     sbind (luaY_grow np sz MAXARG_Bx ''constant table overflow'') (\<lambda>sz'.
     sthen (fupd (\<lambda>f. f\<lparr>fn_p := fn_p f @ [p], fn_sizep := sz'\<rparr>))
       (sbind (cg (luaK_codeABx OP_CLOSURE 0 np)) (\<lambda>pc.
         sthen (cg (code_upvalues upvs)) (sret (init_exp VRELOCABLE pc))))))"

definition open_func :: "('d, unit) pm" where
  "open_func ps =
     rbind (luaH_new 0 0) (\<lambda>h.
       Inr ((), ps\<lparr>ps_fs :=
         \<lparr>fn_cg = \<lparr>fs_code = [], fs_sizecode = 0, fs_lineinfo = [], fs_sizelineinfo = 0, fs_k = [],
            fs_sizek = 0, fs_h = h, fs_haddr = ps_haddr ps, fs_H = ps_H ps, fs_pow = ps_pow ps,
            fs_lastline = 0, fs_pc = 0, fs_lasttarget = - 1, fs_jpc = NO_JUMP, fs_freereg = 0,
            fs_nactvar = 0, fs_maxstacksize = 2\<rparr>,
          fn_p = [], fn_sizep = 0, fn_locvars = [], fn_sizelocvars = 0, fn_upnames = [],
          fn_sizeupvalues = 0, fn_upvalues = [], fn_actvar = replicate (nat LUAI_MAXVARS) 0, fn_bl = [],
          fn_is_vararg = 0, fn_numparams = 0, fn_linedefined = 0, fn_lastlinedefined = 0\<rparr> # ps_fs ps\<rparr>))"

text \<open>The strings of a prototype are given by their contents.\<close>

definition func_proto :: "byte list \<Rightarrow> Func \<Rightarrow> Proto" where
  "func_proto source f =
     (let c = fn_cg f; n = nat (fs_pc c)
      in Proto (map (map_tvalue Some) (fs_k c)) (take n (fs_code c)) (fn_p f) (take n (fs_lineinfo c))
           (fn_locvars f) (map Some (fn_upnames f)) (Some source) (fn_linedefined f)
           (fn_lastlinedefined f) (word_of_nat (length (fn_upvalues f))) (fn_numparams f)
           (fn_is_vararg f) (word_of_int (fs_maxstacksize c)))"

definition close_func :: "('d, Proto \<times> (expkind \<times> int) list) pm" where
  "close_func =
     sthen (removevars 0) (sthen (cg (luaK_ret 0 0))
       (sbind (fget (\<lambda>f. f)) (\<lambda>f. sbind (sget (\<lambda>ps. ls_source (ps_lex ps))) (\<lambda>source.
         sthen (supd (\<lambda>ps. ps\<lparr>ps_fs := tl (ps_fs ps)\<rparr>))
           (sthen anchor_token (sret (func_proto source f, fn_upvalues f)))))))"

section \<open>Expressions\<close>

text \<open>\<open>se\<close> stands for \<open>subexpr\<close> and \<open>ch\<close> for \<open>chunk\<close>, one level of nesting deeper.\<close>

type_synonym 'd subexpr = "nat \<Rightarrow> ('d, expdesc \<times> BinOpr) pm"

definition expr :: "'d subexpr \<Rightarrow> ('d, expdesc) pm" where
  "expr se = sbind (se 0) (\<lambda>(v, _). sret v)"

definition lex_fuel :: "('d, nat) pm" where "lex_fuel = sget (\<lambda>ps. ls_fuel (ps_lex ps))"

definition field :: "expdesc \<Rightarrow> ('d, expdesc) pm" where
  "field v =
     sbind (cg (luaK_exp2anyreg v)) (\<lambda>v'. sthen next_token
       (sbind checkname (\<lambda>key. cg (luaK_indexed v' key))))"

definition yindex :: "'d subexpr \<Rightarrow> ('d, expdesc) pm" where
  "yindex se =
     sthen next_token (sbind (expr se) (\<lambda>v. sbind (cg (luaK_exp2val v)) (\<lambda>v'.
       sthen (checknext 93) (sret v'))))"

record ConsControl =
  cc_v :: expdesc
  cc_t :: expdesc
  cc_nh :: int
  cc_na :: int
  cc_tostore :: int

definition recfield :: "'d subexpr \<Rightarrow> ConsControl \<Rightarrow> ('d, ConsControl) pm" where
  "recfield se cc =
     sbind (cget fs_freereg) (\<lambda>reg. sbind cur_token (\<lambda>t.
     sbind (if t = TK_NAME then sthen (luaY_checklimit (cc_nh cc) MAX_INT ''items in a constructor'') checkname
            else yindex se) (\<lambda>key.
     sthen (checknext 61)
       (sbind (cg (luaK_exp2RK key)) (\<lambda>(rkkey, _).
       sbind (expr se) (\<lambda>val. sbind (cg (luaK_exp2RK val)) (\<lambda>(rkval, _).
         sthen (cg (luaK_codeABC OP_SETTABLE (einfo (cc_t cc)) rkkey rkval))
           (sthen (set_freereg reg) (sret (cc\<lparr>cc_nh := cc_nh cc + 1\<rparr>))))))))))"

definition closelistfield :: "ConsControl \<Rightarrow> ('d, ConsControl) pm" where
  "closelistfield cc =
     (if ek (cc_v cc) = VVOID then sret cc
      else sbind (cg (luaK_exp2nextreg (cc_v cc))) (\<lambda>v.
        let cc' = cc\<lparr>cc_v := v\<lparr>ek := VVOID\<rparr>\<rparr>
        in if cc_tostore cc = LFIELDS_PER_FLUSH
           then sthen (cg (luaK_setlist (einfo (cc_t cc)) (cc_na cc) (cc_tostore cc)))
                  (sret (cc'\<lparr>cc_tostore := 0\<rparr>))
           else sret cc'))"

definition lastlistfield :: "ConsControl \<Rightarrow> ('d, ConsControl) pm" where
  "lastlistfield cc =
     (if cc_tostore cc = 0 then sret cc
      else if hasmultret (ek (cc_v cc)) then
        sthen (cg (luaK_setreturns (cc_v cc) LUA_MULTRET))
          (sthen (cg (luaK_setlist (einfo (cc_t cc)) (cc_na cc) LUA_MULTRET))
            (sret (cc\<lparr>cc_na := cc_na cc - 1\<rparr>)))
      else
        sthen (if ek (cc_v cc) \<noteq> VVOID then sthen (cg (luaK_exp2nextreg (cc_v cc))) (sret ()) else sret ())
          (sthen (cg (luaK_setlist (einfo (cc_t cc)) (cc_na cc) (cc_tostore cc))) (sret cc)))"

definition listfield :: "'d subexpr \<Rightarrow> ConsControl \<Rightarrow> ('d, ConsControl) pm" where
  "listfield se cc =
     sbind (expr se) (\<lambda>v. sthen (luaY_checklimit (cc_na cc) MAX_INT ''items in a constructor'')
       (sret (cc\<lparr>cc_v := v, cc_na := cc_na cc + 1, cc_tostore := cc_tostore cc + 1\<rparr>)))"

fun constructor_items :: "'d subexpr \<Rightarrow> nat \<Rightarrow> ConsControl \<Rightarrow> ('d, ConsControl) pm" where
  "constructor_items se 0 cc = serror OutOfFuel"
| "constructor_items se (Suc fuel) cc =
     sbind cur_token (\<lambda>t.
       if t = 125 then sret cc
       else sbind (closelistfield cc) (\<lambda>cc1.
         sbind (if t = TK_NAME then
                  sthen lookahead_token
                    (sbind (sget (\<lambda>ps. token (lookahead (ps_lex ps)))) (\<lambda>la.
                      if la \<noteq> 61 then listfield se cc1 else recfield se cc1))
                else if t = 91 then recfield se cc1 else listfield se cc1) (\<lambda>cc2.
         sbind (testnext 44) (\<lambda>b. sbind (if b then sret True else testnext 59) (\<lambda>more.
           if more then constructor_items se fuel cc2 else sret cc2)))))"

definition constructor :: "'d subexpr \<Rightarrow> ('d, expdesc) pm" where
  "constructor se =
     sbind cur_line (\<lambda>line. sbind (cg (luaK_codeABC OP_NEWTABLE 0 0 0)) (\<lambda>pc.
     sbind (cg (luaK_exp2nextreg (init_exp VRELOCABLE pc))) (\<lambda>t.
     sthen (checknext 123)
       (sbind lex_fuel (\<lambda>fuel.
       sbind (constructor_items se fuel \<lparr>cc_v = init_exp VVOID 0, cc_t = t, cc_nh = 0, cc_na = 0,
                cc_tostore = 0\<rparr>) (\<lambda>cc.
       sthen (check_match 125 123 line)
         (sbind (lastlistfield cc) (\<lambda>cc'.
         sthen (cg (sbind (code_at pc) (\<lambda>i.
                  set_code pc (SETARG_C (SETARG_B i (luaO_int2fb (word_of_int (cc_na cc'))))
                    (luaO_int2fb (word_of_int (cc_nh cc')))))))
           (sret t)))))))))"

fun parlist_items :: "nat \<Rightarrow> int \<Rightarrow> ('d, int) pm" where
  "parlist_items 0 nparams = serror OutOfFuel"
| "parlist_items (Suc fuel) nparams =
     sbind cur_token (\<lambda>t.
       if t = TK_NAME then
         sbind str_checkname (\<lambda>n. sthen (new_localvar n nparams)
           (sbind (testnext 44) (\<lambda>b. if b then parlist_items fuel (nparams + 1) else sret (nparams + 1))))
       else if t = TK_DOTS then
         sthen next_token (sthen (new_localvarliteral ''arg'' nparams)
           (sthen (fupd (\<lambda>f. f\<lparr>fn_is_vararg := (VARARG_HASARG OR VARARG_NEEDSARG) OR VARARG_ISVARARG\<rparr>))
             (sret (nparams + 1))))
       else syntaxerror (''<name> or '' @ quoted (bytes ''...'') @ '' expected''))"

definition parlist :: "('d, unit) pm" where
  "parlist =
     sthen (fupd (\<lambda>f. f\<lparr>fn_is_vararg := 0\<rparr>))
       (sbind cur_token (\<lambda>t. sbind lex_fuel (\<lambda>fuel.
       sbind (if t \<noteq> 41 then parlist_items fuel 0 else sret 0) (\<lambda>nparams.
       sthen (adjustlocalvars nparams)
         (sthen (fupd (\<lambda>f. f\<lparr>fn_numparams :=
             word_of_int (nactvar f - uint (fn_is_vararg f AND VARARG_HASARG))\<rparr>))
           (sbind (fget nactvar) (\<lambda>na. cg (luaK_reserveregs na))))))))"

definition body :: "('d, unit) pm \<Rightarrow> bool \<Rightarrow> int \<Rightarrow> ('d, expdesc) pm" where
  "body ch needself line =
     sthen open_func
       (sthen (fupd (\<lambda>f. f\<lparr>fn_linedefined := line\<rparr>))
       (sthen (checknext 40)
       (sthen (if needself then sthen (new_localvarliteral ''self'' 0) (adjustlocalvars 1) else sret ())
       (sthen parlist
       (sthen (checknext 41)
       (sthen ch
       (sbind cur_line (\<lambda>ll.
       sthen (fupd (\<lambda>f. f\<lparr>fn_lastlinedefined := ll\<rparr>))
         (sthen (check_match TK_END TK_FUNCTION line)
           (sbind close_func (\<lambda>(p, upvs). pushclosure p upvs)))))))))))"

fun explist_more :: "'d subexpr \<Rightarrow> nat \<Rightarrow> int \<Rightarrow> expdesc \<Rightarrow> ('d, int \<times> expdesc) pm" where
  "explist_more se 0 n v = serror OutOfFuel"
| "explist_more se (Suc fuel) n v =
     sbind (testnext 44) (\<lambda>b.
       if b then sthen (cg (luaK_exp2nextreg v)) (sbind (expr se) (\<lambda>v'. explist_more se fuel (n + 1) v'))
       else sret (n, v))"

definition explist1 :: "'d subexpr \<Rightarrow> ('d, int \<times> expdesc) pm" where
  "explist1 se = sbind (expr se) (\<lambda>v. sbind lex_fuel (\<lambda>fuel. explist_more se fuel 1 v))"

definition args_in_parens :: "'d subexpr \<Rightarrow> int \<Rightarrow> ('d, expdesc) pm" where
  "args_in_parens se line =
     sbind (sget (\<lambda>ps. lastline (ps_lex ps))) (\<lambda>lastl.
     sthen (if line \<noteq> lastl then syntaxerror ''ambiguous syntax (function call x new statement)''
            else sret ())
       (sthen next_token
         (sbind cur_token (\<lambda>t.
         sbind (if t = 41 then sret (init_exp VVOID 0)
                else sbind (explist1 se) (\<lambda>(n, args).
                  sthen (cg (luaK_setreturns args LUA_MULTRET)) (sret args))) (\<lambda>args.
         sthen (check_match 41 40 line) (sret args))))))"

definition funcargs :: "'d subexpr \<Rightarrow> expdesc \<Rightarrow> ('d, expdesc) pm" where
  "funcargs se f =
     sbind cur_line (\<lambda>line. sbind cur_token (\<lambda>t.
     sbind (if t = 40 then args_in_parens se line
            else if t = 123 then constructor se
            else if t = TK_STRING then
              sbind token_str (\<lambda>s. sbind (codestring s) (\<lambda>e. sthen next_token (sret e)))
            else syntaxerror ''function arguments expected'') (\<lambda>args.
     let base = einfo f
     in sbind (if hasmultret (ek args) then sret LUA_MULTRET
               else sthen (if ek args \<noteq> VVOID then sthen (cg (luaK_exp2nextreg args)) (sret ()) else sret ())
                      (sbind (cget fs_freereg) (\<lambda>fr. sret (fr - (base + 1))))) (\<lambda>nparams.
        sbind (cg (luaK_codeABC OP_CALL base (nparams + 1) 2)) (\<lambda>pc.
        sthen (cg (luaK_fixline line))
          (sthen (set_freereg (base + 1)) (sret (init_exp VCALL pc))))))))"

definition prefixexp :: "'d subexpr \<Rightarrow> ('d, expdesc) pm" where
  "prefixexp se =
     sbind cur_token (\<lambda>t.
       if t = 40 then
         sbind cur_line (\<lambda>line. sthen next_token (sbind (expr se) (\<lambda>v.
           sthen (check_match 41 40 line) (cg (luaK_dischargevars v)))))
       else if t = TK_NAME then singlevar
       else syntaxerror ''unexpected symbol'')"

fun primary_suffixes :: "'d subexpr \<Rightarrow> nat \<Rightarrow> expdesc \<Rightarrow> ('d, expdesc) pm" where
  "primary_suffixes se 0 v = serror OutOfFuel"
| "primary_suffixes se (Suc fuel) v =
     sbind cur_token (\<lambda>t.
       if t = 46 then sbind (field v) (primary_suffixes se fuel)
       else if t = 91 then
         sbind (cg (luaK_exp2anyreg v)) (\<lambda>v'. sbind (yindex se) (\<lambda>key.
           sbind (cg (luaK_indexed v' key)) (primary_suffixes se fuel)))
       else if t = 58 then
         sthen next_token (sbind checkname (\<lambda>key. sbind (cg (luaK_self v key)) (\<lambda>v'.
           sbind (funcargs se v') (primary_suffixes se fuel))))
       else if t = 40 \<or> t = TK_STRING \<or> t = 123 then
         sbind (cg (luaK_exp2nextreg v)) (\<lambda>v'. sbind (funcargs se v') (primary_suffixes se fuel))
       else sret v)"

definition primaryexp :: "'d subexpr \<Rightarrow> ('d, expdesc) pm" where
  "primaryexp se = sbind (prefixexp se) (\<lambda>v. sbind lex_fuel (\<lambda>fuel. primary_suffixes se fuel v))"

definition vararg_exp :: "('d, expdesc) pm" where
  "vararg_exp =
     sbind (fget fn_is_vararg) (\<lambda>va.
     sthen (if va = 0 then syntaxerror (''cannot use '' @ quoted (bytes ''...'') @ '' outside a vararg function'')
            else sret ())
       (sthen (fupd (\<lambda>f. f\<lparr>fn_is_vararg := fn_is_vararg f AND NOT VARARG_NEEDSARG\<rparr>))
         (sbind (cg (luaK_codeABC OP_VARARG 0 1 0)) (\<lambda>pc. sret (init_exp VVARARG pc)))))"

definition simpleexp :: "'d subexpr \<Rightarrow> ('d, unit) pm \<Rightarrow> ('d, expdesc) pm" where
  "simpleexp se ch =
     (let then_next = (\<lambda>m. sbind m (\<lambda>v. sthen next_token (sret v)))
      in sbind cur_token (\<lambda>t.
        if t = TK_NUMBER then
          then_next (sbind (sget (\<lambda>ps. seminfo (ls_t (ps_lex ps)))) (\<lambda>s.
            case s of SemR r \<Rightarrow> sret ((init_exp VKNUM 0)\<lparr>enval := r\<rparr>) | _ \<Rightarrow> serror Undefined))
        else if t = TK_STRING then then_next (sbind token_str codestring)
        else if t = TK_NIL then then_next (sret (init_exp VNIL 0))
        else if t = TK_TRUE then then_next (sret (init_exp VTRUE 0))
        else if t = TK_FALSE then then_next (sret (init_exp VFALSE 0))
        else if t = TK_DOTS then then_next vararg_exp
        else if t = 123 then constructor se
        else if t = TK_FUNCTION then sthen next_token (sbind cur_line (body ch False))
        else primaryexp se))"

definition getunopr :: "int \<Rightarrow> UnOpr" where
  "getunopr t =
     (if t = TK_NOT then OPR_NOT else if t = 45 then OPR_MINUS else if t = 35 then OPR_LEN else OPR_NOUNOPR)"

definition getbinopr :: "int \<Rightarrow> BinOpr" where
  "getbinopr t =
     (case map_of [(43, OPR_ADD), (45, OPR_SUB), (42, OPR_MUL), (47, OPR_DIV), (37, OPR_MOD), (94, OPR_POW),
          (TK_CONCAT, OPR_CONCAT), (TK_NE, OPR_NE), (TK_EQ, OPR_EQ), (60, OPR_LT), (TK_LE, OPR_LE),
          (62, OPR_GT), (TK_GE, OPR_GE), (TK_AND, OPR_AND), (TK_OR, OPR_OR)] t of
        Some opr \<Rightarrow> opr | None \<Rightarrow> OPR_NOBINOPR)"

fun priority :: "BinOpr \<Rightarrow> nat \<times> nat" where
  "priority OPR_ADD = (6, 6)"
| "priority OPR_SUB = (6, 6)"
| "priority OPR_MUL = (7, 7)"
| "priority OPR_DIV = (7, 7)"
| "priority OPR_MOD = (7, 7)"
| "priority OPR_POW = (10, 9)"
| "priority OPR_CONCAT = (5, 4)"
| "priority OPR_AND = (2, 2)"
| "priority OPR_OR = (1, 1)"
| "priority OPR_NOBINOPR = (0, 0)"
| "priority opr = (3, 3)"

definition UNARY_PRIORITY :: nat where "UNARY_PRIORITY = 8"

fun subexpr_ops :: "'d subexpr \<Rightarrow> nat \<Rightarrow> nat \<Rightarrow> BinOpr \<Rightarrow> expdesc \<Rightarrow> ('d, expdesc \<times> BinOpr) pm" where
  "subexpr_ops se limit 0 opr v = serror OutOfFuel"
| "subexpr_ops se limit (Suc fuel) opr v =
     (if opr \<noteq> OPR_NOBINOPR \<and> limit < fst (priority opr) then
        sthen next_token
          (sbind (cg (luaK_infix opr v)) (\<lambda>v1.
          sbind (se (snd (priority opr))) (\<lambda>(v2, nextop).
          sbind (cg (luaK_posfix opr v1 v2)) (\<lambda>v3. subexpr_ops se limit fuel nextop v3))))
      else sret (v, opr))"

definition subexpr_by :: "'d subexpr \<Rightarrow> ('d, unit) pm \<Rightarrow> 'd subexpr" where
  "subexpr_by se ch limit =
     sthen enterlevel
       (sbind cur_token (\<lambda>t.
       sbind (if getunopr t \<noteq> OPR_NOUNOPR then
                sthen next_token (sbind (se UNARY_PRIORITY) (\<lambda>(v, _). cg (luaK_prefix (getunopr t) v)))
              else simpleexp se ch) (\<lambda>v.
       sbind cur_token (\<lambda>t2. sbind lex_fuel (\<lambda>fuel.
       sbind (subexpr_ops se limit fuel (getbinopr t2) v) (\<lambda>r. sthen leavelevel (sret r)))))))"

section \<open>Statements\<close>

definition block_follow :: "int \<Rightarrow> bool" where
  "block_follow t \<longleftrightarrow> t \<in> {TK_ELSE, TK_ELSEIF, TK_END, TK_UNTIL, TK_EOS}"

definition block :: "('d, unit) pm \<Rightarrow> ('d, unit) pm" where
  "block ch = sthen (enterblock False) (sthen ch leaveblock)"

text \<open>\<open>check_conflict\<close>: the chain of left-hand sides is a list, the last one read first.\<close>

definition conflict_lh :: "int \<Rightarrow> int \<Rightarrow> expdesc \<Rightarrow> expdesc" where
  "conflict_lh v extra e =
     (if ek e = VINDEXED then
        e\<lparr>einfo := (if einfo e = v then extra else einfo e), eaux := (if eaux e = v then extra else eaux e)\<rparr>
      else e)"

definition check_conflict :: "expdesc list \<Rightarrow> expdesc \<Rightarrow> ('d, expdesc list) pm" where
  "check_conflict lh v =
     sbind (cget fs_freereg) (\<lambda>extra.
       if list_ex (\<lambda>e. ek e = VINDEXED \<and> (einfo e = einfo v \<or> eaux e = einfo v)) lh then
         sthen (cg (luaK_codeABC OP_MOVE extra (einfo v) 0))
           (sthen (cg (luaK_reserveregs 1)) (sret (map (conflict_lh (einfo v) extra) lh)))
       else sret lh)"

definition is_var :: "expkind \<Rightarrow> bool" where
  "is_var k \<longleftrightarrow> k \<in> {VLOCAL, VUPVAL, VGLOBAL, VINDEXED}"

text \<open>The recursion of \<open>assignment\<close> goes forward over the variables and stores to them on the
  way back; \<open>lh\<close> are the variables read so far. The earlier ones may be changed by
  \<open>check_conflict\<close>, so the list comes back.\<close>

fun assignment :: "'d subexpr \<Rightarrow> nat \<Rightarrow> expdesc list \<Rightarrow> int \<Rightarrow> ('d, expdesc list) pm" where
  "assignment se 0 lh nvars = serror OutOfFuel"
| "assignment se (Suc fuel) lh nvars =
     (let default_store = (\<lambda>lh'.
            sbind (cget fs_freereg) (\<lambda>fr.
              sthen (cg (luaK_storevar (hd lh') (init_exp VNONRELOC (fr - 1)))) (sret lh')))
      in sthen (if is_var (ek (hd lh)) then sret () else syntaxerror ''syntax error'')
        (sbind (testnext 44) (\<lambda>more.
          if more then
            sbind (primaryexp se) (\<lambda>nv.
            sbind (if ek nv = VLOCAL then check_conflict lh nv else sret lh) (\<lambda>lh1.
            sbind (sget ps_nCcalls) (\<lambda>nc.
            sthen (luaY_checklimit nvars (LUAI_MAXCCALLS - nc) ''variables in assignment'')
              (sbind (assignment se fuel (nv # lh1) (nvars + 1)) (\<lambda>lh2. default_store (tl lh2))))))
          else
            sthen (checknext 61)
              (sbind (explist1 se) (\<lambda>(nexps, e).
                if nexps \<noteq> nvars then
                  sthen (adjust_assign nvars nexps e)
                    (sthen (if nvars < nexps then
                              sbind (cget fs_freereg) (\<lambda>fr. set_freereg (fr - (nexps - nvars)))
                            else sret ())
                      (default_store lh))
                else sbind (cg (luaK_setoneret e)) (\<lambda>e'.
                  sthen (cg (luaK_storevar (hd lh) e')) (sret lh)))))))"

definition cond :: "'d subexpr \<Rightarrow> ('d, int) pm" where
  "cond se =
     sbind (expr se) (\<lambda>v.
     sbind (cg (luaK_goiftrue (if ek v = VNIL then v\<lparr>ek := VFALSE\<rparr> else v))) (\<lambda>v'. sret (ef v')))"

text \<open>The innermost breakable block: the blocks inside it and itself with the rest.\<close>

definition breakstat :: "('d, unit) pm" where
  "breakstat =
     sbind (fget fn_bl) (\<lambda>bls.
       let inner = takeWhile (\<lambda>b. \<not> isbreakable b) bls; outer = dropWhile (\<lambda>b. \<not> isbreakable b) bls
       in case outer of
            [] \<Rightarrow> syntaxerror ''no loop to break''
          | bl # rest \<Rightarrow>
              sthen (if list_ex bl_upval inner then sthen (cg (luaK_codeABC OP_CLOSE (bl_nactvar bl) 0 0)) (sret ())
                     else sret ())
                (sbind (cg luaK_jump) (\<lambda>j. sbind (cg (luaK_concat (breaklist bl) j)) (\<lambda>l.
                  fupd (\<lambda>f. f\<lparr>fn_bl := inner @ bl\<lparr>breaklist := l\<rparr> # rest\<rparr>)))))"

definition whilestat :: "'d subexpr \<Rightarrow> ('d, unit) pm \<Rightarrow> int \<Rightarrow> ('d, unit) pm" where
  "whilestat se ch line =
     sthen next_token (sbind (cg luaK_getlabel) (\<lambda>whileinit. sbind (cond se) (\<lambda>condexit.
       sthen (enterblock True)
       (sthen (checknext TK_DO)
       (sthen (block ch)
       (sbind (cg luaK_jump) (\<lambda>j.
       sthen (cg (luaK_patchlist j whileinit))
       (sthen (check_match TK_END TK_WHILE line)
       (sthen leaveblock (cg (luaK_patchtohere condexit))))))))))) "

definition repeatstat :: "'d subexpr \<Rightarrow> ('d, unit) pm \<Rightarrow> int \<Rightarrow> ('d, unit) pm" where
  "repeatstat se ch line =
     sbind (cg luaK_getlabel) (\<lambda>repeat_init.
     sthen (enterblock True)
     (sthen (enterblock False)
     (sthen next_token
     (sthen ch
     (sthen (check_match TK_UNTIL TK_REPEAT line)
     (sbind (cond se) (\<lambda>condexit. sbind (fget fn_bl) (\<lambda>bls.
     sthen (if \<not> (bls \<noteq> [] \<and> bl_upval (hd bls)) then
              sthen leaveblock (cg (luaK_patchlist condexit repeat_init))
            else
              sthen breakstat (sthen (cg (luaK_patchtohere condexit)) (sthen leaveblock
                (sbind (cg luaK_jump) (\<lambda>j. cg (luaK_patchlist j repeat_init))))))
       leaveblock))))))))"

definition exp1 :: "'d subexpr \<Rightarrow> ('d, expkind) pm" where
  "exp1 se = sbind (expr se) (\<lambda>e. sthen (cg (luaK_exp2nextreg e)) (sret (ek e)))"

definition forbody :: "('d, unit) pm \<Rightarrow> int \<Rightarrow> int \<Rightarrow> int \<Rightarrow> bool \<Rightarrow> ('d, unit) pm" where
  "forbody ch base line nvars isnum =
     sthen (adjustlocalvars 3)
     (sthen (checknext TK_DO)
     (sbind (cg (if isnum then luaK_codeAsBx OP_FORPREP base NO_JUMP else luaK_jump)) (\<lambda>prep.
     sthen (enterblock False)
     (sthen (adjustlocalvars nvars)
     (sthen (cg (luaK_reserveregs nvars))
     (sthen (block ch)
     (sthen leaveblock
     (sthen (cg (luaK_patchtohere prep))
     (sbind (cg (if isnum then luaK_codeAsBx OP_FORLOOP base NO_JUMP
                 else luaK_codeABC OP_TFORLOOP base 0 nvars)) (\<lambda>endfor.
     sthen (cg (luaK_fixline line))
       (sbind (if isnum then sret endfor else cg luaK_jump) (\<lambda>j.
         cg (luaK_patchlist j (prep + 1))))))))))))))"

definition fornum :: "'d subexpr \<Rightarrow> ('d, unit) pm \<Rightarrow> byte list \<Rightarrow> int \<Rightarrow> ('d, unit) pm" where
  "fornum se ch name line =
     sbind (cget fs_freereg) (\<lambda>base.
     sthen (new_localvarliteral ''(for index)'' 0)
     (sthen (new_localvarliteral ''(for limit)'' 1)
     (sthen (new_localvarliteral ''(for step)'' 2)
     (sthen (new_localvar name 3)
     (sthen (checknext 61)
     (sthen (exp1 se)
     (sthen (checknext 44)
     (sthen (exp1 se)
     (sbind (testnext 44) (\<lambda>b.
     sthen (if b then sthen (exp1 se) (sret ())
            else sbind (cget fs_freereg) (\<lambda>fr. sbind (cg (luaK_numberK (cast_num 1))) (\<lambda>k.
              sthen (cg (luaK_codeABx OP_LOADK fr k)) (cg (luaK_reserveregs 1)))))
       (forbody ch base line 1 True)))))))))))"

fun forlist_names :: "nat \<Rightarrow> int \<Rightarrow> ('d, int) pm" where
  "forlist_names 0 nvars = serror OutOfFuel"
| "forlist_names (Suc fuel) nvars =
     sbind (testnext 44) (\<lambda>b.
       if b then sbind str_checkname (\<lambda>n. sthen (new_localvar n nvars) (forlist_names fuel (nvars + 1)))
       else sret nvars)"

definition forlist :: "'d subexpr \<Rightarrow> ('d, unit) pm \<Rightarrow> byte list \<Rightarrow> ('d, unit) pm" where
  "forlist se ch indexname =
     sbind (cget fs_freereg) (\<lambda>base.
     sthen (new_localvarliteral ''(for generator)'' 0)
     (sthen (new_localvarliteral ''(for state)'' 1)
     (sthen (new_localvarliteral ''(for control)'' 2)
     (sthen (new_localvar indexname 3)
     (sbind lex_fuel (\<lambda>fuel. sbind (forlist_names fuel 4) (\<lambda>nvars.
     sthen (checknext TK_IN)
     (sbind cur_line (\<lambda>line. sbind (explist1 se) (\<lambda>(n, e).
     sthen (adjust_assign 3 n e)
     (sthen (cg (luaK_checkstack 3)) (forbody ch base line (nvars - 3) False))))))))))))"

definition forstat :: "'d subexpr \<Rightarrow> ('d, unit) pm \<Rightarrow> int \<Rightarrow> ('d, unit) pm" where
  "forstat se ch line =
     sthen (enterblock True)
     (sthen next_token
     (sbind str_checkname (\<lambda>name. sbind cur_token (\<lambda>t.
     sthen (if t = 61 then fornum se ch name line
            else if t = 44 \<or> t = TK_IN then forlist se ch name
            else syntaxerror (quoted [61] @ '' or '' @ quoted (bytes ''in'') @ '' expected''))
     (sthen (check_match TK_END TK_FOR line) leaveblock)))))"

definition test_then_block :: "'d subexpr \<Rightarrow> ('d, unit) pm \<Rightarrow> ('d, int) pm" where
  "test_then_block se ch =
     sthen next_token (sbind (cond se) (\<lambda>condexit.
       sthen (checknext TK_THEN) (sthen (block ch) (sret condexit))))"

definition escape_and_patch :: "int \<Rightarrow> int \<Rightarrow> ('d, int) pm" where
  "escape_and_patch escapelist flist =
     sbind (cg luaK_jump) (\<lambda>j. sbind (cg (luaK_concat escapelist j)) (\<lambda>l.
       sthen (cg (luaK_patchtohere flist)) (sret l)))"

fun elseif_parts :: "'d subexpr \<Rightarrow> ('d, unit) pm \<Rightarrow> nat \<Rightarrow> int \<Rightarrow> int \<Rightarrow> ('d, int \<times> int) pm" where
  "elseif_parts se ch 0 escapelist flist = serror OutOfFuel"
| "elseif_parts se ch (Suc fuel) escapelist flist =
     sbind cur_token (\<lambda>t.
       if t = TK_ELSEIF then
         sbind (escape_and_patch escapelist flist) (\<lambda>l. sbind (test_then_block se ch) (elseif_parts se ch fuel l))
       else sret (escapelist, flist))"

definition ifstat :: "'d subexpr \<Rightarrow> ('d, unit) pm \<Rightarrow> int \<Rightarrow> ('d, unit) pm" where
  "ifstat se ch line =
     sbind (test_then_block se ch) (\<lambda>flist0. sbind lex_fuel (\<lambda>fuel.
     sbind (elseif_parts se ch fuel NO_JUMP flist0) (\<lambda>(escapelist, flist). sbind cur_token (\<lambda>t.
     sbind (if t = TK_ELSE then
              sbind (escape_and_patch escapelist flist) (\<lambda>l.
                sthen next_token (sthen (block ch) (sret l)))
            else cg (luaK_concat escapelist flist)) (\<lambda>l.
     sthen (cg (luaK_patchtohere l)) (check_match TK_END TK_IF line))))))"

definition localfunc :: "('d, unit) pm \<Rightarrow> ('d, unit) pm" where
  "localfunc ch =
     sbind str_checkname (\<lambda>n.
     sthen (new_localvar n 0)
     (sbind (cget fs_freereg) (\<lambda>fr.
     sthen (cg (luaK_reserveregs 1))
     (sthen (adjustlocalvars 1)
     (sbind cur_line (\<lambda>line. sbind (body ch False line) (\<lambda>b.
     sthen (cg (luaK_storevar (init_exp VLOCAL fr) b))
       (fupd (\<lambda>f. set_locvar (nactvar f - 1) (\<lambda>v. v\<lparr>startpc := fs_pc (fn_cg f)\<rparr>) f))))))))) "

fun local_names :: "nat \<Rightarrow> int \<Rightarrow> ('d, int) pm" where
  "local_names 0 nvars = serror OutOfFuel"
| "local_names (Suc fuel) nvars =
     sbind str_checkname (\<lambda>n. sthen (new_localvar n nvars)
       (sbind (testnext 44) (\<lambda>b. if b then local_names fuel (nvars + 1) else sret (nvars + 1))))"

definition localstat :: "'d subexpr \<Rightarrow> ('d, unit) pm" where
  "localstat se =
     sbind lex_fuel (\<lambda>fuel. sbind (local_names fuel 0) (\<lambda>nvars. sbind (testnext 61) (\<lambda>b.
     sbind (if b then explist1 se else sret (0, init_exp VVOID 0)) (\<lambda>(nexps, e).
       sthen (adjust_assign nvars nexps e) (adjustlocalvars nvars)))))"

fun funcname_fields :: "nat \<Rightarrow> expdesc \<Rightarrow> ('d, expdesc) pm" where
  "funcname_fields 0 v = serror OutOfFuel"
| "funcname_fields (Suc fuel) v =
     sbind cur_token (\<lambda>t. if t = 46 then sbind (field v) (funcname_fields fuel) else sret v)"

definition funcname :: "('d, bool \<times> expdesc) pm" where
  "funcname =
     sbind singlevar (\<lambda>v0. sbind lex_fuel (\<lambda>fuel. sbind (funcname_fields fuel v0) (\<lambda>v.
     sbind cur_token (\<lambda>t.
       if t = 58 then sbind (field v) (\<lambda>v'. sret (True, v')) else sret (False, v)))))"

definition funcstat :: "('d, unit) pm \<Rightarrow> int \<Rightarrow> ('d, unit) pm" where
  "funcstat ch line =
     sthen next_token (sbind funcname (\<lambda>(needself, v). sbind (body ch needself line) (\<lambda>b.
       sthen (cg (luaK_storevar v b)) (cg (luaK_fixline line)))))"

definition exprstat :: "'d subexpr \<Rightarrow> ('d, unit) pm" where
  "exprstat se =
     sbind (primaryexp se) (\<lambda>v.
       if ek v = VCALL then cg (sbind (getcode v) (\<lambda>i. set_code (einfo v) (SETARG_C i 1)))
       else sbind lex_fuel (\<lambda>fuel. sthen (assignment se fuel [v] 1) (sret ())))"

definition return_values :: "'d subexpr \<Rightarrow> ('d, int \<times> int) pm" where
  "return_values se =
     sbind (explist1 se) (\<lambda>(nret, e). sbind (fget nactvar) (\<lambda>na.
       if hasmultret (ek e) then
         sthen (cg (luaK_setreturns e LUA_MULTRET))
           (sthen (if ek e = VCALL \<and> nret = 1 then
                     cg (sbind (getcode e) (\<lambda>i. set_code (einfo e) (SET_OPCODE i (op_num OP_TAILCALL))))
                   else sret ())
             (sret (na, LUA_MULTRET)))
       else if nret = 1 then sbind (cg (luaK_exp2anyreg e)) (\<lambda>e'. sret (einfo e', nret))
       else sthen (cg (luaK_exp2nextreg e)) (sret (na, nret))))"

definition retstat :: "'d subexpr \<Rightarrow> ('d, unit) pm" where
  "retstat se =
     sthen next_token (sbind cur_token (\<lambda>t.
     sbind (if block_follow t \<or> t = 59 then sret (0, 0) else return_values se) (\<lambda>(first, nret).
       cg (luaK_ret first nret))))"

text \<open>\<open>statement\<close> returns whether it must be the last one.\<close>

definition statement :: "'d subexpr \<Rightarrow> ('d, unit) pm \<Rightarrow> ('d, bool) pm" where
  "statement se ch =
     sbind cur_line (\<lambda>line. sbind cur_token (\<lambda>t.
       if t = TK_IF then sthen (ifstat se ch line) (sret False)
       else if t = TK_WHILE then sthen (whilestat se ch line) (sret False)
       else if t = TK_DO then
         sthen next_token (sthen (block ch) (sthen (check_match TK_END TK_DO line) (sret False)))
       else if t = TK_FOR then sthen (forstat se ch line) (sret False)
       else if t = TK_REPEAT then sthen (repeatstat se ch line) (sret False)
       else if t = TK_FUNCTION then sthen (funcstat ch line) (sret False)
       else if t = TK_LOCAL then
         sthen next_token (sbind (testnext TK_FUNCTION) (\<lambda>b.
           sthen (if b then localfunc ch else localstat se) (sret False)))
       else if t = TK_RETURN then sthen (retstat se) (sret True)
       else if t = TK_BREAK then sthen next_token (sthen breakstat (sret True))
       else sthen (exprstat se) (sret False)))"

fun chunk_stats :: "'d subexpr \<Rightarrow> ('d, unit) pm \<Rightarrow> nat \<Rightarrow> bool \<Rightarrow> ('d, unit) pm" where
  "chunk_stats se ch 0 islast = serror OutOfFuel"
| "chunk_stats se ch (Suc fuel) islast =
     sbind cur_token (\<lambda>t.
       if \<not> islast \<and> \<not> block_follow t then
         sbind (statement se ch) (\<lambda>l. sthen (testnext 59)
           (sbind (fget nactvar) (\<lambda>na. sthen (set_freereg na) (chunk_stats se ch fuel l))))
       else sret ())"

definition chunk_by :: "'d subexpr \<Rightarrow> ('d, unit) pm \<Rightarrow> ('d, unit) pm" where
  "chunk_by se ch =
     sthen enterlevel (sbind lex_fuel (\<lambda>fuel. sthen (chunk_stats se ch fuel False) leavelevel))"

section \<open>The parser\<close>

text \<open>Nesting: \<open>enterlevel\<close> raises an error beyond \<open>LUAI_MAXCCALLS\<close> levels, so one level more
  than that is enough.\<close>

fun parse_level :: "nat \<Rightarrow> 'd subexpr \<times> ('d, unit) pm" where
  "parse_level 0 = ((\<lambda>limit. serror OutOfFuel), serror OutOfFuel)"
| "parse_level (Suc n) =
     (case parse_level n of (se, ch) \<Rightarrow> (subexpr_by se ch, chunk_by se ch))"

definition MAX_LEVELS :: nat where "MAX_LEVELS = 201"

definition subexpr :: "'d subexpr" where "subexpr = fst (parse_level MAX_LEVELS)"
definition chunk :: "('d, unit) pm" where "chunk = snd (parse_level MAX_LEVELS)"

definition main_func :: "('d, Proto) pm" where
  "main_func =
     sthen open_func
       (sthen (fupd (\<lambda>f. f\<lparr>fn_is_vararg := VARARG_ISVARARG\<rparr>))
         (sthen next_token (sthen chunk (sthen (check_tok TK_EOS)
           (sbind close_func (\<lambda>(p, upvs). sret p))))))"

definition luaY_parser :: "'d lua_Reader \<Rightarrow> 'd ZIO \<Rightarrow> Mbuffer \<Rightarrow> byte list \<Rightarrow> byte \<Rightarrow> nat \<Rightarrow> int \<Rightarrow>
    byte list string_view \<Rightarrow> (lua_Number \<Rightarrow> lua_Number \<Rightarrow> lua_Number) \<Rightarrow> addr \<Rightarrow> Proto res" where
  "luaY_parser reader z buff name locale fuel nCcalls H pw haddr =
     rbind (luaX_setinput reader z buff name locale fuel) (\<lambda>ls.
     rbind (main_func \<lparr>ps_lex = ls, ps_fs = [], ps_nCcalls = nCcalls, ps_H = H, ps_pow = pw, ps_haddr = haddr\<rparr>)
       (\<lambda>(p, _). Inr p))"

end
