(* ===== verification/LDump.thy ===== *)
theory LDump
  imports LDebug LStr StateRes LZio
begin

text \<open>
  \<open>ldump.c\<close> and \<open>lundump.c\<close>: precompiled chunks. Multi-byte values are in the byte order of
  the machine, little endian. The writer is a function of its own data, a block goes to it as a
  list of bytes; once it has returned a status other than 0 it is not called again. The loader
  reads from a stream of \<open>LZio\<close>; allocation is taken to succeed, the stack slot that anchors a
  prototype while it is built is not modelled.
\<close>

section \<open>Bytes of values\<close>

definition le_bytes :: "nat \<Rightarrow> int \<Rightarrow> byte list" where
  "le_bytes n v = map (\<lambda>i. word_of_int (v div 256 ^ i)) [0..<n]"

definition le_val :: "byte list \<Rightarrow> int" where
  "le_val bs = foldr (\<lambda>b a. uint b + 256 * a) bs 0"

text \<open>\<open>sizeof\<close> of the types a chunk holds.\<close>

definition sizeof_int :: nat where "sizeof_int = 4"
definition sizeof_size_t :: nat where "sizeof_size_t = 8"
definition sizeof_Instruction :: nat where "sizeof_Instruction = 4"
definition sizeof_lua_Number :: nat where "sizeof_lua_Number = 8"

section \<open>Header\<close>

definition LUA_SIGNATURE :: "byte list" where "LUA_SIGNATURE = 27 # bytes ''Lua''"
definition LUAC_VERSION :: byte where "LUAC_VERSION = 0x51"
definition LUAC_FORMAT :: byte where "LUAC_FORMAT = 0"
definition LUAC_HEADERSIZE :: nat where "LUAC_HEADERSIZE = 12"

text \<open>The seventh byte is the first byte of the \<open>int\<close> 1; a double 0.5 is not 0.\<close>

definition luaU_header :: "byte list" where
  "luaU_header = LUA_SIGNATURE @ [LUAC_VERSION, LUAC_FORMAT, hd (le_bytes sizeof_int 1), word_of_nat sizeof_int,
     word_of_nat sizeof_size_t, word_of_nat sizeof_Instruction, word_of_nat sizeof_lua_Number, 0]"

section \<open>Dumping\<close>

type_synonym 'd lua_Writer = "byte list \<Rightarrow> 'd \<Rightarrow> int \<times> 'd"

record 'd DumpState =
  D_writer :: "'d lua_Writer"
  D_data :: 'd
  D_strip :: bool
  D_status :: int

type_synonym 'd dump = "'d DumpState \<Rightarrow> 'd DumpState"

definition DumpBlock :: "byte list \<Rightarrow> 'd dump" where
  "DumpBlock b D =
     (if D_status D = 0 then (case D_writer D b (D_data D) of (st, d) \<Rightarrow> D\<lparr>D_status := st, D_data := d\<rparr>) else D)"

definition DumpChar :: "int \<Rightarrow> 'd dump" where
  "DumpChar y = DumpBlock [word_of_int y]"

definition DumpInt :: "int \<Rightarrow> 'd dump" where
  "DumpInt x = DumpBlock (le_bytes sizeof_int x)"

definition DumpNumber :: "lua_Number \<Rightarrow> 'd dump" where
  "DumpNumber x = DumpBlock (le_bytes sizeof_lua_Number (uint x))"

definition DumpVector :: "('a \<Rightarrow> byte list) \<Rightarrow> 'a list \<Rightarrow> 'd dump" where
  "DumpVector enc xs D = DumpBlock (concat (map enc xs)) (DumpInt (int (length xs)) D)"

definition DumpString :: "lstr \<Rightarrow> 'd dump" where
  "DumpString s D =
     (case s of
        None \<Rightarrow> DumpBlock (le_bytes sizeof_size_t 0) D
      | Some b \<Rightarrow> DumpBlock (b @ [0]) (DumpBlock (le_bytes sizeof_size_t (int (length b) + 1)) D))"

definition DumpCode :: "Proto \<Rightarrow> 'd dump" where
  "DumpCode f = DumpVector (\<lambda>i. le_bytes sizeof_Instruction (uint i)) (pcode f)"

definition DumpConstant :: "lstr tvalue \<Rightarrow> 'd dump" where
  "DumpConstant v D =
     (let D' = DumpChar (ttype v) D
      in case v of
           TBoolean b \<Rightarrow> DumpChar (if b then 1 else 0) D'
         | TNumber n \<Rightarrow> DumpNumber n D'
         | TGC (GString s) \<Rightarrow> DumpString s D'
         | _ \<Rightarrow> D')"

definition DumpLocVar :: "LocVar \<Rightarrow> 'd dump" where
  "DumpLocVar v D = DumpInt (endpc v) (DumpInt (startpc v) (DumpString (varname v) D))"

definition DumpDebug :: "Proto \<Rightarrow> 'd dump" where
  "DumpDebug f D =
     (let lineinfo = if D_strip D then [] else plineinfo f;
          locvars = if D_strip D then [] else plocvars f;
          upvalues = if D_strip D then [] else pupvalues f;
          D1 = DumpVector (le_bytes sizeof_int) lineinfo D;
          D2 = fold DumpLocVar locvars (DumpInt (int (length locvars)) D1)
      in fold DumpString upvalues (DumpInt (int (length upvalues)) D2))"

lemma size_pp: "g \<in> set (pp f) \<Longrightarrow> size g < size f"
proof (induction f)
  case (Proto k c ps l v u s a b n p i m)
  then have "size g \<le> size_list size ps" by (intro size_list_estimation' [of g]) simp_all
  then show ?case by simp
qed

text \<open>\<open>DumpFunction\<close> and \<open>DumpConstants\<close>, which call each other; \<open>p\<close> is the source of the
  enclosing function.\<close>

function DumpFunction :: "Proto \<Rightarrow> lstr \<Rightarrow> 'd dump"
and DumpConstants :: "Proto \<Rightarrow> 'd dump" where
  "DumpFunction f p D =
     (let D1 = DumpString (if psource f = p \<or> D_strip D then None else psource f) D;
          D2 = DumpInt (plastlinedefined f) (DumpInt (plinedefined f) D1);
          D3 = DumpChar (uint (pmaxstacksize f)) (DumpChar (uint (pis_vararg f))
                 (DumpChar (uint (pnumparams f)) (DumpChar (uint (pnups f)) D2)));
          D4 = DumpConstants f (DumpCode f D3)
      in DumpDebug f D4)"
| "DumpConstants f D =
     (let D1 = fold DumpConstant (pk f) (DumpInt (int (length (pk f))) D)
      in fold (\<lambda>g. DumpFunction g (psource f)) (pp f) (DumpInt (int (length (pp f))) D1))"
  by pat_completeness auto
termination
  by (relation "measure (case_sum (\<lambda>(f, p, D). 2 * size f + 1) (\<lambda>(f, D). 2 * size f))")
    (auto dest: size_pp)

declare DumpFunction.simps [simp del] DumpConstants.simps [simp del]

text \<open>\<open>luaU_dump\<close>: the status, with the writer's data.\<close>

definition luaU_dump :: "Proto \<Rightarrow> 'd lua_Writer \<Rightarrow> 'd \<Rightarrow> bool \<Rightarrow> int \<times> 'd" where
  "luaU_dump f w data strip =
     (let D = \<lparr>D_writer = w, D_data = data, D_strip = strip, D_status = 0\<rparr>;
          D' = DumpFunction f None (DumpBlock luaU_header D)
      in (D_status D', D_data D'))"

section \<open>Loading\<close>

record 'd LoadState =
  S_z :: "'d ZIO"
  S_reader :: "'d lua_Reader"
  S_b :: Mbuffer
  S_name :: "byte list"
  S_nCcalls :: int

type_synonym ('d, 'a) load = "('d LoadState, 'a) sm"

definition load_error :: "string \<Rightarrow> ('d, 'a) load" where
  "load_error why S =
     Inl (ErrSyntax (chars (c_str (S_name S)) @ '': '' @ why @ '' in precompiled chunk''))"

definition LoadBlock :: "nat \<Rightarrow> ('d, byte list) load" where
  "LoadBlock n S =
     rbind (luaZ_read (S_reader S) (S_z S) n) (\<lambda>(r, bs, z).
       if r \<noteq> 0 then load_error ''unexpected end'' (S\<lparr>S_z := z\<rparr>) else Inr (bs, S\<lparr>S_z := z\<rparr>))"

text \<open>A \<open>char\<close> is signed.\<close>

definition LoadChar :: "('d, int) load" where
  "LoadChar = sbind (LoadBlock 1) (\<lambda>bs. sret (sint (hd bs)))"

definition LoadByte :: "('d, byte) load" where
  "LoadByte = sbind LoadChar (\<lambda>c. sret (word_of_int c))"

definition LoadInt :: "('d, int) load" where
  "LoadInt = sbind (LoadBlock sizeof_int) (\<lambda>bs.
     let x = sint (word_of_int (le_val bs) :: uint32)
     in if x < 0 then load_error ''bad integer'' else sret x)"

definition LoadNumber :: "('d, lua_Number) load" where
  "LoadNumber = sbind (LoadBlock sizeof_lua_Number) (\<lambda>bs. sret (word_of_int (le_val bs)))"

definition LoadString :: "('d, lstr) load" where
  "LoadString = sbind (LoadBlock sizeof_size_t) (\<lambda>bs.
     let sz = nat (le_val bs)
     in if sz = 0 then sret None
        else sthen (supd (\<lambda>S. S\<lparr>S_b := luaZ_openspace (S_b S) sz\<rparr>))
               (sbind (LoadBlock sz) (\<lambda>s. sret (Some (take (sz - 1) s)))))"

text \<open>Elements one after the other, and a vector read in one block.\<close>

fun load_each :: "nat \<Rightarrow> ('d, 'a) load \<Rightarrow> ('d, 'a list) load" where
  "load_each 0 m = sret []"
| "load_each (Suc n) m = sbind m (\<lambda>x. sbind (load_each n m) (\<lambda>xs. sret (x # xs)))"

fun chunks :: "nat \<Rightarrow> nat \<Rightarrow> byte list \<Rightarrow> byte list list" where
  "chunks k 0 bs = []"
| "chunks k (Suc n) bs = take k bs # chunks k n (drop k bs)"

definition LoadVector :: "nat \<Rightarrow> nat \<Rightarrow> ('d, byte list list) load" where
  "LoadVector n sz = sbind (LoadBlock (n * sz)) (\<lambda>bs. sret (chunks sz n bs))"

definition LoadCode :: "('d, Instruction list) load" where
  "LoadCode = sbind LoadInt (\<lambda>n. sbind (LoadVector (nat n) sizeof_Instruction) (\<lambda>v.
     sret (map (\<lambda>bs. word_of_int (le_val bs)) v)))"

definition LoadConstant :: "('d, lstr tvalue) load" where
  "LoadConstant = sbind LoadChar (\<lambda>t.
     if t = 0 then sret TNil
     else if t = 1 then sbind LoadChar (\<lambda>b. sret (TBoolean (b \<noteq> 0)))
     else if t = 3 then sbind LoadNumber (\<lambda>n. sret (TNumber n))
     else if t = 4 then sbind LoadString (\<lambda>s. sret (TString s))
     else load_error ''bad constant'')"

definition LoadLocVar :: "('d, LocVar) load" where
  "LoadLocVar = sbind LoadString (\<lambda>s. sbind LoadInt (\<lambda>a. sbind LoadInt (\<lambda>b.
     sret \<lparr>varname = s, startpc = a, endpc = b\<rparr>)))"

definition LoadDebug :: "('d, int list \<times> LocVar list \<times> lstr list) load" where
  "LoadDebug =
     sbind LoadInt (\<lambda>n. sbind (LoadVector (nat n) sizeof_int) (\<lambda>v.
     sbind LoadInt (\<lambda>nl. sbind (load_each (nat nl) LoadLocVar) (\<lambda>ls.
     sbind LoadInt (\<lambda>nu. sbind (load_each (nat nu) LoadString) (\<lambda>us.
       sret (map (\<lambda>bs. sint (word_of_int (le_val bs) :: uint32)) v, ls, us)))))))"

text \<open>\<open>LoadConstants\<close>, with the loader of nested functions as a parameter.\<close>

definition LoadConstants :: "(lstr \<Rightarrow> ('d, Proto) load) \<Rightarrow> lstr \<Rightarrow> ('d, lstr tvalue list \<times> Proto list) load" where
  "LoadConstants load_fun source =
     sbind LoadInt (\<lambda>n. sbind (load_each (nat n) LoadConstant) (\<lambda>ks.
     sbind LoadInt (\<lambda>np. sbind (load_each (nat np) (load_fun source)) (\<lambda>ps. sret (ks, ps)))))"

text \<open>\<open>LoadFunction\<close> refuses more than \<open>LUAI_MAXCCALLS\<close> nested calls, so that many levels of
  fuel, and one more to refuse, are enough.\<close>

fun LoadFunction :: "nat \<Rightarrow> lstr \<Rightarrow> ('d, Proto) load" where
  "LoadFunction 0 p = serror OutOfFuel"
| "LoadFunction (Suc fuel) p =
     sthen (supd (\<lambda>S. S\<lparr>S_nCcalls := S_nCcalls S + 1\<rparr>))
       (sbind (sget S_nCcalls) (\<lambda>calls.
          if LUAI_MAXCCALLS < calls then load_error ''code too deep''
          else sbind LoadString (\<lambda>s.
            let source = (if s = None then p else s)
            in sbind LoadInt (\<lambda>linedefined. sbind LoadInt (\<lambda>lastlinedefined.
               sbind LoadByte (\<lambda>nups. sbind LoadByte (\<lambda>numparams. sbind LoadByte (\<lambda>is_vararg. sbind LoadByte (\<lambda>maxstacksize.
               sbind LoadCode (\<lambda>code. sbind (LoadConstants (LoadFunction fuel) source) (\<lambda>(k, ps).
               sbind LoadDebug (\<lambda>(lineinfo, locvars, upvalues).
                 let f = Proto k code ps lineinfo locvars upvalues source linedefined lastlinedefined
                           nups numparams is_vararg maxstacksize
                 in sbind (slift (luaG_checkcode f)) (\<lambda>ok.
                    if \<not> ok then load_error ''bad code''
                    else sthen (supd (\<lambda>S. S\<lparr>S_nCcalls := S_nCcalls S - 1\<rparr>)) (sret f))))))))))))))"

definition LoadHeader :: "('d, unit) load" where
  "LoadHeader = sbind (LoadBlock LUAC_HEADERSIZE) (\<lambda>s.
     if s \<noteq> luaU_header then load_error ''bad header'' else sret ())"

definition undump_name :: "byte list \<Rightarrow> byte list" where
  "undump_name name =
     (case name @ [0] of
        c # rest \<Rightarrow> if c = 64 \<or> c = 61 then rest else if c = hd LUA_SIGNATURE then bytes ''binary string'' else name)"

definition luaU_undump :: "'d lua_Reader \<Rightarrow> 'd ZIO \<Rightarrow> Mbuffer \<Rightarrow> byte list \<Rightarrow> int \<Rightarrow> Proto res" where
  "luaU_undump reader z buff name nCcalls =
     rbind (sthen LoadHeader (LoadFunction (Suc (nat (LUAI_MAXCCALLS - nCcalls))) (Some (bytes ''=?'')))
         \<lparr>S_z = z, S_reader = reader, S_b = buff, S_name = undump_name name, S_nCcalls = nCcalls\<rparr>)
       (\<lambda>(f, S). Inr f)"

end
