(* ===== verification/LDumpProps.thy ===== *)
theory LDumpProps
  imports LDump
begin

text \<open>
  Dumping and loading are inverse. \<open>emits\<close> says which bytes a dumping step gives to the
  writer, \<open>reads\<close> that a loading step takes exactly those bytes and returns the value; there is
  one pair of lemmas per type of data, composed as the code composes the steps.
\<close>

section \<open>Little endian\<close>

lemma length_le_bytes [simp]: "length (le_bytes n v) = n"
  by (simp add: le_bytes_def)

lemma le_bytes_Suc: "le_bytes (Suc n) v = word_of_int v # le_bytes n (v div 256)"
  by (simp only: le_bytes_def map_upt_Suc) (simp add: zdiv_zmult2_eq)

lemma le_val_bytes: "le_val (le_bytes n v) = v mod 256 ^ n"
proof (induction n arbitrary: v)
  case 0
  then show ?case by (simp add: le_bytes_def le_val_def)
next
  case (Suc n)
  have "le_val (le_bytes (Suc n) v) = v mod 256 + 256 * (v div 256 mod 256 ^ n)"
    using Suc by (simp add: le_bytes_Suc le_val_def uint_word_of_int)
  then show ?case by (simp add: zmod_zmult2_eq)
qed

section \<open>Steps\<close>

text \<open>A dumping step is a sequence of blocks, whatever the writer does with them.\<close>

definition emits :: "bool \<Rightarrow> 'd dump \<Rightarrow> byte list \<Rightarrow> bool" where
  "emits st d bs \<longleftrightarrow> (\<exists>blocks. concat blocks = bs \<and> (\<forall>D. D_strip D = st \<longrightarrow> d D = fold DumpBlock blocks D))"

definition reads :: "int \<Rightarrow> ('d, 'a) load \<Rightarrow> byte list \<Rightarrow> 'a \<Rightarrow> bool" where
  "reads N l bs x \<longleftrightarrow>
     (\<forall>S rest. holds (S_reader S) (S_z S) (bs @ rest) \<and> S_nCcalls S = N \<longrightarrow>
        (\<exists>z b. l S = Inr (x, S\<lparr>S_z := z, S_b := b\<rparr>) \<and> holds (S_reader S) z rest))"

lemma strip_block [simp]: "D_strip (DumpBlock b D) = D_strip D" "D_writer (DumpBlock b D) = D_writer D"
  by (simp_all add: DumpBlock_def split: prod.split)

lemma strip_blocks [simp]: "D_strip (fold DumpBlock bs D) = D_strip D"
  by (induction bs arbitrary: D) simp_all

lemma emits_seq:
  assumes "emits st d1 bs1" "emits st d2 bs2"
  shows "emits st (\<lambda>D. d2 (d1 D)) (bs1 @ bs2)"
proof -
  obtain b1 where b1: "concat b1 = bs1" "\<forall>D. D_strip D = st \<longrightarrow> d1 D = fold DumpBlock b1 D"
    using assms(1) by (auto simp: emits_def)
  obtain b2 where b2: "concat b2 = bs2" "\<forall>D. D_strip D = st \<longrightarrow> d2 D = fold DumpBlock b2 D"
    using assms(2) by (auto simp: emits_def)
  show ?thesis unfolding emits_def using b1 b2 by (intro exI [of _ "b1 @ b2"]) simp
qed

lemma emits_cong: "emits st d bs \<Longrightarrow> (\<And>D. D_strip D = st \<Longrightarrow> d' D = d D) \<Longrightarrow> emits st d' bs"
  unfolding emits_def by metis

lemma emits_id: "emits st (\<lambda>D. D) []"
  unfolding emits_def by (intro exI [of _ "[]"]) simp

lemma emits_block: "emits st (DumpBlock bs) bs"
  unfolding emits_def by (intro exI [of _ "[bs]"]) simp

lemma emits_fold: "(\<And>x. x \<in> set xs \<Longrightarrow> emits st (d x) (enc x)) \<Longrightarrow> emits st (fold d xs) (concat (map enc xs))"
proof (induction xs)
  case (Cons x xs)
  then have "emits st (\<lambda>D. fold d xs (d x D)) (enc x @ concat (map enc xs))" by (intro emits_seq) auto
  then show ?case by (simp add: comp_def)
qed (use emits_id in \<open>simp add: id_def\<close>)

lemma reads_ret: "reads N (sret x) [] x"
  unfolding reads_def
proof (intro allI impI)
  fix S :: "'a LoadState" and rest
  assume "holds (S_reader S) (S_z S) ([] @ rest) \<and> S_nCcalls S = N"
  then show "\<exists>z b. sret x S = Inr (x, S\<lparr>S_z := z, S_b := b\<rparr>) \<and> holds (S_reader S) z rest"
    by (intro exI [of _ "S_z S"] exI [of _ "S_b S"]) simp
qed

lemma reads_bind:
  assumes "reads N m bs1 x" and "reads N (f x) bs2 y"
  shows "reads N (sbind m f) (bs1 @ bs2) y"
  unfolding reads_def
proof (intro allI impI)
  fix S :: "'a LoadState" and rest
  assume h: "holds (S_reader S) (S_z S) ((bs1 @ bs2) @ rest) \<and> S_nCcalls S = N"
  then obtain z b where z: "m S = Inr (x, S\<lparr>S_z := z, S_b := b\<rparr>)" "holds (S_reader S) z (bs2 @ rest)"
    using assms(1) unfolding reads_def by (metis append_assoc)
  then obtain z' b' where "f x (S\<lparr>S_z := z, S_b := b\<rparr>) = Inr (y, S\<lparr>S_z := z', S_b := b'\<rparr>)" "holds (S_reader S) z' rest"
    using assms(2) [unfolded reads_def, rule_format, of "S\<lparr>S_z := z, S_b := b\<rparr>" rest] h by auto
  then show "\<exists>z b. sbind m f S = Inr (y, S\<lparr>S_z := z, S_b := b\<rparr>) \<and> holds (S_reader S) z rest"
    using z(1) by auto
qed

lemma reads_map: "reads N m bs x \<Longrightarrow> reads N (sbind m (\<lambda>x. sret (g x))) bs (g x)"
  using reads_bind [of N m bs x "\<lambda>x. sret (g x)" "[]"] reads_ret by fastforce

lemma reads_block: "reads N (LoadBlock (length bs)) bs bs"
  unfolding reads_def
proof (intro allI impI)
  fix S :: "'a LoadState" and rest
  assume "holds (S_reader S) (S_z S) (bs @ rest) \<and> S_nCcalls S = N"
  then obtain z where "luaZ_read (S_reader S) (S_z S) (length bs) = Inr (0, bs, z)" "holds (S_reader S) z rest"
    using luaZ_read_holds [of "S_reader S" "S_z S" "bs @ rest" "length bs"] by auto
  then show "\<exists>z b. LoadBlock (length bs) S = Inr (bs, S\<lparr>S_z := z, S_b := b\<rparr>) \<and> holds (S_reader S) z rest"
    by (intro exI [of _ z] exI [of _ "S_b S"]) (simp add: LoadBlock_def)
qed

lemma reads_each:
  "(\<And>x. x \<in> set xs \<Longrightarrow> reads N (m :: ('d, 'a) load) (enc x) (g x)) \<Longrightarrow>
    reads N (load_each (length xs) m :: ('d, 'a list) load) (concat (map enc xs)) (map g xs)"
proof (induction xs)
  case (Cons x xs)
  have "reads N (load_each (length xs) m :: ('d, 'a list) load) (concat (map enc xs)) (map g xs)"
    by (rule Cons.IH) (use Cons.prems in auto)
  then show ?case
    unfolding length_Cons load_each.simps list.map concat.simps
    by (intro reads_bind [OF Cons.prems] reads_map) auto
qed (simp add: reads_ret)

section \<open>Values\<close>

definition int_ok :: "int \<Rightarrow> bool" where "int_ok x \<longleftrightarrow> 0 \<le> x \<and> x < 2 ^ 31"
definition str_ok :: "lstr \<Rightarrow> bool" where "str_ok s \<longleftrightarrow> (case s of None \<Rightarrow> True | Some b \<Rightarrow> int (length b) < 2 ^ 63)"

lemma sint32: "- (2 ^ 31) \<le> x \<Longrightarrow> x < 2 ^ 31 \<Longrightarrow> sint (word_of_int x :: uint32) = x"
  by (simp add: sint_sbintrunc' signed_take_bit_int_eq_self)

lemma word32_bytes: "(word_of_int (le_val (le_bytes 4 x)) :: uint32) = word_of_int x"
  by (simp add: le_val_bytes word_of_int_eq_iff take_bit_eq_mod)

lemma reads_buffer: "reads N m bs x \<Longrightarrow> reads N (sthen (supd (\<lambda>S. S\<lparr>S_b := f (S_b S)\<rparr>)) m) bs x"
  unfolding reads_def
proof (intro allI impI)
  fix S :: "'a LoadState" and rest
  assume m: "\<forall>S rest. holds (S_reader S) (S_z S) (bs @ rest) \<and> S_nCcalls S = N \<longrightarrow>
      (\<exists>z b. m S = Inr (x, S\<lparr>S_z := z, S_b := b\<rparr>) \<and> holds (S_reader S) z rest)"
    and "holds (S_reader S) (S_z S) (bs @ rest) \<and> S_nCcalls S = N"
  then obtain z b where "m (S\<lparr>S_b := f (S_b S)\<rparr>) = Inr (x, S\<lparr>S_z := z, S_b := b\<rparr>)" "holds (S_reader S) z rest"
    using m [rule_format, of "S\<lparr>S_b := f (S_b S)\<rparr>" rest] by auto
  then show "\<exists>z b. sthen (supd (\<lambda>S. S\<lparr>S_b := f (S_b S)\<rparr>)) m S = Inr (x, S\<lparr>S_z := z, S_b := b\<rparr>) \<and> holds (S_reader S) z rest"
    by (auto simp: sbind_def)
qed

lemma reads_block_as: "length bs = n \<Longrightarrow> reads N (LoadBlock n) bs bs"
  using reads_block by blast

lemma reads_by_block: "length bs = n \<Longrightarrow> reads N (f bs) [] x \<Longrightarrow> reads N (sbind (LoadBlock n) f) bs x"
  using reads_bind [OF reads_block_as, of bs n N f "[]" x] by simp

lemma reads_int: "int_ok x \<Longrightarrow> reads N LoadInt (le_bytes sizeof_int x) x"
  unfolding LoadInt_def
  by (rule reads_by_block) (simp_all add: sizeof_int_def word32_bytes sint32 int_ok_def reads_ret)

lemma emits_int: "emits st (DumpInt x) (le_bytes sizeof_int x)"
  unfolding DumpInt_def by (rule emits_block)

lemma reads_char: "- 128 \<le> c \<Longrightarrow> c < 128 \<Longrightarrow> reads N LoadChar [word_of_int c] c"
  unfolding LoadChar_def
  by (rule reads_by_block) (simp_all add: sint_sbintrunc' signed_take_bit_int_eq_self reads_ret)

lemma reads_byte: "reads N LoadByte [b] b"
proof -
  have "reads N LoadChar [b] (sint b)"
    unfolding LoadChar_def by (rule reads_by_block) (simp_all add: reads_ret)
  from reads_map [OF this, of "\<lambda>c. word_of_int c :: byte"] show ?thesis by (simp add: LoadByte_def)
qed

lemma emits_byte: "emits st (DumpChar (uint b)) [b]"
  using emits_block [of st "[b]"] by (simp add: DumpChar_def)

lemma reads_number: "reads N LoadNumber (le_bytes sizeof_lua_Number (uint x)) x"
proof -
  have "uint x mod 256 ^ 8 = uint x" using uint_lt2p [of x] by simp
  then have "(word_of_int (uint x mod 256 ^ 8) :: lua_Number) = x" by simp
  then show ?thesis
    unfolding LoadNumber_def
    by (intro reads_by_block) (simp_all add: sizeof_lua_Number_def le_val_bytes reads_ret)
qed

fun enc_string :: "lstr \<Rightarrow> byte list" where
  "enc_string None = le_bytes sizeof_size_t 0"
| "enc_string (Some b) = le_bytes sizeof_size_t (int (length b) + 1) @ b @ [0]"

lemma emits_string: "emits st (DumpString s) (enc_string s)"
proof (cases s)
  case None
  then show ?thesis using emits_block by (simp add: DumpString_def [abs_def])
next
  case (Some b)
  show ?thesis
    using emits_seq [OF emits_block [of st "le_bytes sizeof_size_t (int (length b) + 1)"] emits_block [of st "b @ [0]"]]
    by (simp add: DumpString_def [abs_def] Some)
qed

lemma reads_string: "str_ok s \<Longrightarrow> reads N (LoadString :: ('d, lstr) load) (enc_string s) s"
proof (cases s)
  case None
  show ?thesis
    unfolding LoadString_def None enc_string.simps
    by (rule reads_by_block) (simp_all add: sizeof_size_t_def le_val_bytes reads_ret)
next
  case (Some b)
  assume ok: "str_ok s"
  have n: "nat (le_val (le_bytes sizeof_size_t (int (length b) + 1))) = Suc (length b)"
    using ok Some by (simp add: le_val_bytes sizeof_size_t_def str_ok_def nat_add_distrib)
  have "reads N (sbind (LoadBlock (Suc (length b))) (\<lambda>s. sret (Some (take (length b) s))) :: ('d, lstr) load) (b @ [0]) (Some b)"
    by (rule reads_by_block) (simp_all add: reads_ret)
  from reads_buffer [OF this, of "\<lambda>b'. luaZ_openspace b' (Suc (length b))"]
  show ?thesis
    unfolding LoadString_def Some enc_string.simps
    by (intro reads_bind [OF reads_block_as]) (simp_all add: n Let_def)
qed

section \<open>Vectors and constants\<close>

lemma chunks_concat: "(\<And>x. x \<in> set xs \<Longrightarrow> length x = k) \<Longrightarrow> chunks k (length xs) (concat xs) = xs"
  by (induction xs) auto

lemma length_concat_same: "(\<And>x. x \<in> set xs \<Longrightarrow> length (f x) = k) \<Longrightarrow> length (concat (map f xs)) = length xs * k"
  by (induction xs) auto

lemma reads_vector:
  assumes "\<And>x. x \<in> set xs \<Longrightarrow> length (enc x) = k"
  shows "reads N (LoadVector (length xs) k) (concat (map enc xs)) (map enc xs)"
proof -
  have "chunks k (length xs) (concat (map enc xs)) = map enc xs"
    using chunks_concat [of "map enc xs" k] assms by (simp add: image_iff) (metis imageE)
  then show ?thesis
    unfolding LoadVector_def using length_concat_same [of xs enc k] assms
    by (intro reads_by_block) (simp_all add: reads_ret)
qed

lemma emits_vector: "emits st (DumpVector enc xs) (le_bytes sizeof_int (int (length xs)) @ concat (map enc xs))"
  using emits_seq [OF emits_int emits_block] by (simp add: DumpVector_def [abs_def])

definition len_ok :: "'a list \<Rightarrow> bool" where "len_ok xs \<longleftrightarrow> int_ok (int (length xs))"

lemma reads_code:
  assumes "len_ok code"
  shows "reads N LoadCode (le_bytes sizeof_int (int (length code)) @ concat (map (\<lambda>i. le_bytes sizeof_Instruction (uint i)) code)) code"
proof -
  have w: "(word_of_int (le_val (le_bytes sizeof_Instruction (uint i))) :: Instruction) = i" for i :: Instruction
    by (simp add: sizeof_Instruction_def word32_bytes)
  have "reads N (sbind (LoadVector (length code) sizeof_Instruction) (\<lambda>v. sret (map (\<lambda>bs. word_of_int (le_val bs) :: Instruction) v)))
      (concat (map (\<lambda>i. le_bytes sizeof_Instruction (uint i)) code))
      (map (\<lambda>bs. word_of_int (le_val bs)) (map (\<lambda>i. le_bytes sizeof_Instruction (uint i)) code))"
    by (rule reads_map, rule reads_vector) simp
  then show ?thesis
    unfolding LoadCode_def
    by (intro reads_bind [OF reads_int]) (use assms in \<open>simp_all add: len_ok_def w comp_def\<close>)
qed

definition const_ok :: "lstr tvalue \<Rightarrow> bool" where
  "const_ok v \<longleftrightarrow> (case v of TNil \<Rightarrow> True | TBoolean b \<Rightarrow> True | TNumber n \<Rightarrow> True | TGC (GString s) \<Rightarrow> str_ok s | _ \<Rightarrow> False)"

definition enc_const :: "lstr tvalue \<Rightarrow> byte list" where
  "enc_const v =
     word_of_int (ttype v) #
     (case v of TBoolean b \<Rightarrow> [if b then 1 else 0] | TNumber n \<Rightarrow> le_bytes sizeof_lua_Number (uint n)
      | TGC (GString s) \<Rightarrow> enc_string s | _ \<Rightarrow> [])"

lemma emits_char: "emits st (DumpChar y) [word_of_int y]"
  unfolding DumpChar_def by (rule emits_block)

lemma emits_const: "emits st (DumpConstant v) (enc_const v)"
proof -
  define d :: "'a dump" where "d = (case v of TBoolean b \<Rightarrow> DumpChar (if b then 1 else 0) | TNumber n \<Rightarrow> DumpNumber n
      | TGC (GString s) \<Rightarrow> DumpString s | _ \<Rightarrow> (\<lambda>D. D))"
  define e where "e = (case v of TBoolean b \<Rightarrow> [if b then 1 else 0] | TNumber n \<Rightarrow> le_bytes sizeof_lua_Number (uint n)
      | TGC (GString s) \<Rightarrow> enc_string s | _ \<Rightarrow> [])"
  have "emits st d e"
    using emits_char [of st 0] emits_char [of st 1]
    by (auto simp: d_def e_def DumpNumber_def emits_block emits_string emits_id split: tvalue.split gcvalue.split)
  from emits_seq [OF emits_char [of st "ttype v"] this]
  have "emits st (\<lambda>D. d (DumpChar (ttype v) D)) (enc_const v)" by (simp add: enc_const_def e_def)
  moreover have "DumpConstant v = (\<lambda>D. d (DumpChar (ttype v) D))"
    by (rule ext) (simp add: DumpConstant_def d_def Let_def split: tvalue.split gcvalue.split)
  ultimately show ?thesis by simp
qed

lemma reads_const: "const_ok v \<Longrightarrow> reads N LoadConstant (enc_const v) v"
proof -
  assume ok: "const_ok v"
  define load where "load = (\<lambda>t::int. if t = 0 then sret TNil
     else if t = 1 then sbind LoadChar (\<lambda>b. sret (TBoolean (b \<noteq> 0)))
     else if t = 3 then sbind LoadNumber (\<lambda>n. sret (TNumber n))
     else if t = 4 then sbind LoadString (\<lambda>s. sret (TString s))
     else load_error ''bad constant'' :: ('a, lstr tvalue) load)"
  have c: "reads N (LoadChar :: ('a, int) load) [word_of_int (ttype v)] (ttype v)"
    by (rule reads_char) (use ok in \<open>auto simp: const_ok_def split: tvalue.splits gcvalue.splits\<close>)
  have "reads N (load (ttype v)) (tl (enc_const v)) v"
  proof (cases v)
    case (TBoolean b)
    have "reads N (LoadChar :: ('a, int) load) [if b then 1 else 0] (if b then 1 else 0)"
      by (cases b) (use reads_char [of 1 N, simplified] reads_char [of 0 N, simplified] in simp_all)
    from reads_map [OF this, of "\<lambda>c. TBoolean (c \<noteq> 0) :: lstr tvalue"] show ?thesis
      by (cases b) (simp_all add: TBoolean load_def enc_const_def)
  next
    case (TNumber n)
    from reads_map [OF reads_number, of N TNumber] show ?thesis by (simp add: TNumber load_def enc_const_def)
  next
    case (TGC g)
    then obtain s where v: "v = TString s" and s: "str_ok s"
      using ok by (auto simp: const_ok_def split: gcvalue.splits)
    from reads_map [OF reads_string [OF s], of N TString] show ?thesis by (simp add: v load_def enc_const_def)
  qed (use ok in \<open>auto simp: const_ok_def load_def enc_const_def reads_ret\<close>)
  from reads_bind [where f = load, OF c this] show ?thesis
    by (simp add: LoadConstant_def load_def enc_const_def)
qed

section \<open>Debug information\<close>

definition locvar_ok :: "LocVar \<Rightarrow> bool" where
  "locvar_ok v \<longleftrightarrow> str_ok (varname v) \<and> int_ok (startpc v) \<and> int_ok (endpc v)"

definition enc_locvar :: "LocVar \<Rightarrow> byte list" where
  "enc_locvar v = enc_string (varname v) @ le_bytes sizeof_int (startpc v) @ le_bytes sizeof_int (endpc v)"

lemma emits_locvar: "emits st (DumpLocVar v) (enc_locvar v)"
  using emits_seq [OF emits_seq [OF emits_string emits_int] emits_int]
  by (simp add: DumpLocVar_def [abs_def] enc_locvar_def)

lemma reads_locvar: "locvar_ok v \<Longrightarrow> reads N LoadLocVar (enc_locvar v) v"
proof -
  assume ok: "locvar_ok v"
  have "reads N (LoadLocVar :: ('a, LocVar) load) (enc_string (varname v) @ le_bytes sizeof_int (startpc v) @ le_bytes sizeof_int (endpc v) @ [])
      \<lparr>varname = varname v, startpc = startpc v, endpc = endpc v\<rparr>"
    unfolding LoadLocVar_def
    by (intro reads_bind [OF reads_string] reads_bind [OF reads_int] reads_ret) (use ok in \<open>auto simp: locvar_ok_def\<close>)
  then show ?thesis by (cases v) (simp add: enc_locvar_def)
qed

definition enc_list :: "('a \<Rightarrow> byte list) \<Rightarrow> 'a list \<Rightarrow> byte list" where
  "enc_list enc xs = le_bytes sizeof_int (int (length xs)) @ concat (map enc xs)"

lemma emits_list:
  assumes "\<And>x. x \<in> set xs \<Longrightarrow> emits st (d x) (enc x)"
  shows "emits st (\<lambda>D. fold d xs (DumpInt (int (length xs)) D)) (enc_list enc xs)"
  unfolding enc_list_def by (rule emits_seq [OF emits_int emits_fold]) (rule assms)

lemma reads_list:
  assumes "len_ok xs" and "\<And>x. x \<in> set xs \<Longrightarrow> reads N (m :: ('d, 'a) load) (enc x) (g x)"
    and "reads N (f (map g xs) :: ('d, 'b) load) bs y"
  shows "reads N (sbind LoadInt (\<lambda>n. sbind (load_each (nat n) m) f) :: ('d, 'b) load) (enc_list enc xs @ bs) y"
  unfolding enc_list_def append_assoc
proof (rule reads_bind [OF reads_int])
  have "reads N (load_each (length xs) m) (concat (map enc xs)) (map g xs)" by (rule reads_each) (rule assms(2))
  from reads_bind [where f = f, OF this assms(3)]
  show "reads N (sbind (load_each (nat (int (length xs))) m) f) (concat (map enc xs) @ bs) y" by simp
qed (use assms(1) in \<open>simp add: len_ok_def\<close>)

lemma reads_list_id:
  assumes "len_ok xs" and "\<And>x. x \<in> set xs \<Longrightarrow> reads N (m :: ('d, 'a) load) (enc x) x"
    and "reads N (f xs :: ('d, 'b) load) bs y"
  shows "reads N (sbind LoadInt (\<lambda>n. sbind (load_each (nat n) m) f) :: ('d, 'b) load) (enc_list enc xs @ bs) y"
  using reads_list [of xs N m enc "\<lambda>x. x" f bs y] assms by simp

definition strip_debug :: "bool \<Rightarrow> 'a list \<Rightarrow> 'a list" where "strip_debug st xs = (if st then [] else xs)"

definition enc_debug :: "bool \<Rightarrow> Proto \<Rightarrow> byte list" where
  "enc_debug st f = enc_list (le_bytes sizeof_int) (strip_debug st (plineinfo f)) @
     enc_list enc_locvar (strip_debug st (plocvars f)) @ enc_list enc_string (strip_debug st (pupvalues f))"

definition debug_ok :: "Proto \<Rightarrow> bool" where
  "debug_ok f \<longleftrightarrow> len_ok (plineinfo f) \<and> list_all (\<lambda>l. - (2 ^ 31) \<le> l \<and> l < 2 ^ 31) (plineinfo f) \<and>
     len_ok (plocvars f) \<and> list_all locvar_ok (plocvars f) \<and> len_ok (pupvalues f) \<and> list_all str_ok (pupvalues f)"

lemma emits_debug: "emits st (DumpDebug f) (enc_debug st f)"
proof -
  define li lv uv where "li = strip_debug st (plineinfo f)" and "lv = strip_debug st (plocvars f)" and "uv = strip_debug st (pupvalues f)"
  have "emits st (\<lambda>D. fold DumpString uv (DumpInt (int (length uv)) (fold DumpLocVar lv (DumpInt (int (length lv))
      (DumpVector (le_bytes sizeof_int) li D))))) ((enc_list (le_bytes sizeof_int) li @ enc_list enc_locvar lv) @ enc_list enc_string uv)"
    unfolding enc_list_def [of "le_bytes sizeof_int"]
    by (intro emits_seq [OF emits_seq [OF emits_vector emits_list] emits_list] emits_locvar emits_string)
  then show ?thesis
    unfolding enc_debug_def li_def [symmetric] lv_def [symmetric] uv_def [symmetric] append_assoc
    by (rule emits_cong) (simp add: DumpDebug_def li_def lv_def uv_def strip_debug_def Let_def)
qed

lemma reads_debug:
  assumes "debug_ok f"
  shows "reads N LoadDebug (enc_debug st f) (strip_debug st (plineinfo f), strip_debug st (plocvars f), strip_debug st (pupvalues f))"
proof -
  define li lv uv where "li = strip_debug st (plineinfo f)" and "lv = strip_debug st (plocvars f)" and "uv = strip_debug st (pupvalues f)"
  have ok: "len_ok li" "len_ok lv" "len_ok uv" "\<And>l. l \<in> set li \<Longrightarrow> - (2 ^ 31) \<le> l \<and> l < 2 ^ 31"
    "\<And>v. v \<in> set lv \<Longrightarrow> locvar_ok v" "\<And>s. s \<in> set uv \<Longrightarrow> str_ok s"
    using assms by (auto simp: debug_ok_def li_def lv_def uv_def strip_debug_def len_ok_def int_ok_def list_all_iff split: if_splits)
  have w: "map ((\<lambda>bs. sint (word_of_int (le_val bs) :: uint32)) \<circ> le_bytes sizeof_int) li = li"
    using ok(4) by (auto simp: sizeof_int_def word32_bytes sint32 intro: map_idI)
  define F where "F = (\<lambda>v. sbind LoadInt (\<lambda>nl. sbind (load_each (nat nl) LoadLocVar) (\<lambda>ls.
     sbind LoadInt (\<lambda>nu. sbind (load_each (nat nu) LoadString) (\<lambda>us.
       sret (map (\<lambda>bs. sint (word_of_int (le_val bs) :: uint32)) v, ls, us))))) :: ('a, int list \<times> LocVar list \<times> lstr list) load)"
  define lines where "lines = map (le_bytes sizeof_int) li"
  have "reads N (F lines) (enc_list enc_locvar lv @ enc_list enc_string uv @ [])
      (map (\<lambda>bs. sint (word_of_int (le_val bs) :: uint32)) lines, lv, uv)"
    unfolding F_def by (intro reads_list_id reads_ret) (simp_all add: ok reads_locvar reads_string)
  moreover have "reads N (LoadVector (nat (int (length li))) sizeof_int) (concat lines) lines"
    unfolding lines_def nat_int by (rule reads_vector) simp
  ultimately have v: "reads N (sbind (LoadVector (nat (int (length li))) sizeof_int) F)
      (concat lines @ enc_list enc_locvar lv @ enc_list enc_string uv @ [])
      (map (\<lambda>bs. sint (word_of_int (le_val bs) :: uint32)) lines, lv, uv)"
    by (rule reads_bind [rotated])
  have "int_ok (int (length li))" using ok(1) by (simp add: len_ok_def)
  from reads_bind [where f = "\<lambda>n. sbind (LoadVector (nat n) sizeof_int) F", OF reads_int [OF this] v]
  have "reads N (LoadDebug :: ('a, _) load) (le_bytes sizeof_int (int (length li)) @ concat lines @
      enc_list enc_locvar lv @ enc_list enc_string uv @ [])
    (map (\<lambda>bs. sint (word_of_int (le_val bs) :: uint32)) lines, lv, uv)"
    by (simp add: LoadDebug_def F_def)
  then show ?thesis
    using w by (simp add: enc_debug_def li_def lv_def uv_def enc_list_def comp_def lines_def)
qed

section \<open>Functions\<close>

definition enc_code :: "Instruction \<Rightarrow> byte list" where "enc_code i = le_bytes sizeof_Instruction (uint i)"

function enc_fun :: "bool \<Rightarrow> lstr \<Rightarrow> Proto \<Rightarrow> byte list" where
  "enc_fun st p f =
     enc_string (if psource f = p \<or> st then None else psource f) @
     le_bytes sizeof_int (plinedefined f) @ le_bytes sizeof_int (plastlinedefined f) @
     [pnups f] @ [pnumparams f] @ [pis_vararg f] @ [pmaxstacksize f] @
     enc_list enc_code (pcode f) @ enc_list enc_const (pk f) @
     (le_bytes sizeof_int (int (length (pp f))) @ concat (map (enc_fun st (psource f)) (pp f))) @
     enc_debug st f"
  by pat_completeness auto
termination by (relation "measure (\<lambda>(st, p, f). size f)") (auto dest: size_pp)

declare enc_fun.simps [simp del]

text \<open>What a dumped function is loaded as: without its debug information when it was stripped, and
  with the source \<open>pl\<close> of the enclosing function when its own was left out.\<close>

function undumped :: "bool \<Rightarrow> lstr \<Rightarrow> lstr \<Rightarrow> Proto \<Rightarrow> Proto" where
  "undumped st p pl f =
     (let source = (if psource f = p \<or> st \<or> psource f = None then pl else psource f)
      in Proto (pk f) (pcode f) (map (undumped st (psource f) source) (pp f)) (strip_debug st (plineinfo f))
           (strip_debug st (plocvars f)) (strip_debug st (pupvalues f)) source (plinedefined f) (plastlinedefined f)
           (pnups f) (pnumparams f) (pis_vararg f) (pmaxstacksize f))"
  by pat_completeness auto
termination by (relation "measure (\<lambda>(st, p, pl, f). size f)") (auto dest: size_pp)

declare undumped.simps [simp del]

text \<open>Every size fits in an \<open>int\<close>, and constants are of the kinds a chunk can hold.\<close>

function dumpable :: "Proto \<Rightarrow> bool" where
  "dumpable f \<longleftrightarrow> str_ok (psource f) \<and> int_ok (plinedefined f) \<and> int_ok (plastlinedefined f) \<and>
     len_ok (pcode f) \<and> len_ok (pk f) \<and> list_all const_ok (pk f) \<and> len_ok (pp f) \<and> debug_ok f \<and> list_all dumpable (pp f)"
  by pat_completeness auto
termination by (relation "measure size") (auto dest: size_pp)

declare dumpable.simps [simp del]

text \<open>Functions nested at most \<open>n\<close> deep, all of which pass the checker.\<close>

fun loadable :: "nat \<Rightarrow> Proto \<Rightarrow> bool" where
  "loadable 0 f \<longleftrightarrow> False"
| "loadable (Suc n) f \<longleftrightarrow> luaG_checkcode f = Inr True \<and> list_all (loadable n) (pp f)"

lemma emits_fun: "emits st (DumpFunction f p :: 'd dump) (enc_fun st p f)"
proof (induction st p f rule: enc_fun.induct)
  case (1 st p f)
  have code: "emits st (DumpCode f :: 'd dump) (enc_list enc_code (pcode f))"
    unfolding DumpCode_def enc_list_def enc_code_def [abs_def] by (rule emits_vector)
  have nested: "emits st (\<lambda>D :: 'd DumpState. fold (\<lambda>g. DumpFunction g (psource f)) (pp f) (DumpInt (int (length (pp f))) D))
      (le_bytes sizeof_int (int (length (pp f))) @ concat (map (enc_fun st (psource f)) (pp f)))"
    by (rule emits_seq [OF emits_int emits_fold]) (rule 1)
  have "emits st (\<lambda>D :: 'd DumpState. fold DumpConstant (pk f) (DumpInt (int (length (pk f))) D)) (enc_list enc_const (pk f))"
    by (rule emits_list) (rule emits_const)
  from emits_seq [OF this nested] have ks: "emits st (DumpConstants f :: 'd dump) (enc_list enc_const (pk f) @
      le_bytes sizeof_int (int (length (pp f))) @ concat (map (enc_fun st (psource f)) (pp f)))"
    by (simp add: DumpConstants.simps [abs_def] Let_def)
  define src where "src = (if psource f = p \<or> st then None else psource f)"
  have all: "emits st (\<lambda>D :: 'd DumpState. DumpDebug f (DumpConstants f (DumpCode f (DumpChar (uint (pmaxstacksize f)) (DumpChar (uint (pis_vararg f))
      (DumpChar (uint (pnumparams f)) (DumpChar (uint (pnups f)) (DumpInt (plastlinedefined f) (DumpInt (plinedefined f) (DumpString src D)))))))))) 
    (((((((((enc_string src @ le_bytes sizeof_int (plinedefined f)) @ le_bytes sizeof_int (plastlinedefined f)) @ [pnups f]) @ [pnumparams f]) @
      [pis_vararg f]) @ [pmaxstacksize f]) @ enc_list enc_code (pcode f)) @ enc_list enc_const (pk f) @
      le_bytes sizeof_int (int (length (pp f))) @ concat (map (enc_fun st (psource f)) (pp f))) @ enc_debug st f)"
    by (intro emits_seq [OF emits_seq [OF emits_seq [OF emits_seq [OF emits_seq [OF emits_seq [OF emits_seq [OF emits_seq [OF emits_seq
      [OF emits_string emits_int] emits_int] emits_byte] emits_byte] emits_byte] emits_byte] code] ks] emits_debug])
  show ?case
    unfolding enc_fun.simps [of st p f] src_def [symmetric] append_assoc
    by (rule emits_cong [OF all [unfolded append_assoc]])
      (simp add: DumpFunction.simps src_def Let_def)
qed

lemma dumpableD:
  assumes "dumpable f"
  shows "str_ok (psource f)" "int_ok (plinedefined f)" "int_ok (plastlinedefined f)" "len_ok (pcode f)" "len_ok (pk f)"
    "len_ok (pp f)" "debug_ok f" "\<And>v. v \<in> set (pk f) \<Longrightarrow> const_ok v" "\<And>g. g \<in> set (pp f) \<Longrightarrow> dumpable g"
  using assms by (simp_all add: dumpable.simps [of f] list_all_iff)

lemma reads_constants:
  assumes "len_ok ks" "\<And>v. v \<in> set ks \<Longrightarrow> const_ok v" "len_ok ps"
    and "\<And>g. g \<in> set ps \<Longrightarrow> reads N (load_fun src :: ('d, Proto) load) (enc g) (h g)"
  shows "reads N (LoadConstants load_fun src :: ('d, _) load)
    (enc_list enc_const ks @ le_bytes sizeof_int (int (length ps)) @ concat (map enc ps)) (ks, map h ps)"
proof -
  have "reads N (LoadConstants load_fun src :: ('d, _) load) (enc_list enc_const ks @ enc_list enc ps @ []) (ks, map h ps)"
    unfolding LoadConstants_def
    by (rule reads_list_id [OF assms(1)], rule reads_const, rule assms(2), assumption,
        rule reads_list [OF assms(3) assms(4)], assumption, rule reads_ret)
  then show ?thesis by (simp add: enc_list_def [of enc ps])
qed

text \<open>The call counter is raised during the load of a function and put back at its end.\<close>

lemma reads_nested:
  assumes body: "reads (N + 1) (m :: ('d, 'a) load) bs f" and N: "N < LUAI_MAXCCALLS"
  shows "reads N (sthen (supd (\<lambda>S. S\<lparr>S_nCcalls := S_nCcalls S + 1\<rparr>))
    (sbind (sget S_nCcalls) (\<lambda>calls. if LUAI_MAXCCALLS < calls then load_error ''code too deep''
       else sbind m (\<lambda>f. sthen (supd (\<lambda>S. S\<lparr>S_nCcalls := S_nCcalls S - 1\<rparr>)) (sret f))))) bs f"
  unfolding reads_def
proof (intro allI impI)
  fix S :: "'d LoadState" and rest
  assume h: "holds (S_reader S) (S_z S) (bs @ rest) \<and> S_nCcalls S = N"
  then obtain z b where z: "m (S\<lparr>S_nCcalls := N + 1\<rparr>) = Inr (f, S\<lparr>S_nCcalls := N + 1, S_z := z, S_b := b\<rparr>)" "holds (S_reader S) z rest"
    using body [unfolded reads_def, rule_format, of "S\<lparr>S_nCcalls := N + 1\<rparr>" rest] by auto
  show "\<exists>z b. sthen (supd (\<lambda>S. S\<lparr>S_nCcalls := S_nCcalls S + 1\<rparr>))
    (sbind (sget S_nCcalls) (\<lambda>calls. if LUAI_MAXCCALLS < calls then load_error ''code too deep''
       else sbind m (\<lambda>f. sthen (supd (\<lambda>S. S\<lparr>S_nCcalls := S_nCcalls S - 1\<rparr>)) (sret f)))) S = Inr (f, S\<lparr>S_z := z, S_b := b\<rparr>) \<and>
    holds (S_reader S) z rest"
    using z h N by (intro exI [of _ z] exI [of _ b]) (auto simp: sbind_simps)
qed

definition load_body :: "(lstr \<Rightarrow> ('d, Proto) load) \<Rightarrow> lstr \<Rightarrow> ('d, Proto) load" where
  "load_body load_fun p =
     sbind LoadString (\<lambda>s.
       let source = (if s = None then p else s)
       in sbind LoadInt (\<lambda>linedefined. sbind LoadInt (\<lambda>lastlinedefined.
          sbind LoadByte (\<lambda>nups. sbind LoadByte (\<lambda>numparams. sbind LoadByte (\<lambda>is_vararg. sbind LoadByte (\<lambda>maxstacksize.
          sbind LoadCode (\<lambda>code. sbind (LoadConstants load_fun source) (\<lambda>(k, ps).
          sbind LoadDebug (\<lambda>(lineinfo, locvars, upvalues).
            let f = Proto k code ps lineinfo locvars upvalues source linedefined lastlinedefined
                      nups numparams is_vararg maxstacksize
            in sbind (slift (luaG_checkcode f)) (\<lambda>ok. if \<not> ok then load_error ''bad code'' else sret f)))))))))))"

lemma sbind_assoc: "sbind (sbind m f) g = sbind m (\<lambda>x. sbind (f x) g)"
  by (rule ext) (simp add: sbind_def split: sum.split prod.split)

lemma sbind_load_error: "sbind (load_error why) g = load_error why"
  by (rule ext) (simp add: sbind_def load_error_def)

lemma sbind_sret: "sbind (sret x) g = g x"
  by (rule ext) (simp add: sbind_def)

lemma LoadFunction_body:
  "LoadFunction (Suc n) p =
    sthen (supd (\<lambda>S. S\<lparr>S_nCcalls := S_nCcalls S + 1\<rparr>))
      (sbind (sget S_nCcalls) (\<lambda>calls. if LUAI_MAXCCALLS < calls then load_error ''code too deep''
         else sbind (load_body (LoadFunction n) p) (\<lambda>f. sthen (supd (\<lambda>S. S\<lparr>S_nCcalls := S_nCcalls S - 1\<rparr>)) (sret f))))"
  by (simp add: load_body_def sbind_assoc sbind_load_error sbind_sret Let_def if_distrib [of "\<lambda>m. sbind m _"] case_prod_unfold cong: if_cong
      del: sm_simps sbind_simps)

lemma reads_case3:
  "reads N (f a b c) bs x \<Longrightarrow> reads N (case (a, b, c) of (a, b, c) \<Rightarrow> f a b c) bs x"
  by simp

lemma reads_slift: "reads N (f x) bs y \<Longrightarrow> reads N (sbind (slift (Inr x)) f) bs y"
  unfolding reads_def by (simp add: sbind_simps)

lemma reads_fun:
  fixes f :: Proto
  shows "dumpable f \<Longrightarrow> loadable n (undumped st p pl f) \<Longrightarrow> N + int n \<le> LUAI_MAXCCALLS \<Longrightarrow> n \<le> m \<Longrightarrow>
    reads N (LoadFunction m pl :: ('d, Proto) load) (enc_fun st p f) (undumped st p pl f)"
proof (induction n arbitrary: f p pl N m)
  case (Suc n)
  obtain k where m: "m = Suc k" and k: "n \<le> k" using Suc.prems(4) by (cases m) auto
  note ok = dumpableD [OF Suc.prems(1)]
  define s where "s = (if psource f = p \<or> st then None else psource f)"
  define src where "src = (if s = None then pl else s)"
  define g where "g = undumped st p pl f"
  have src: "src = (if psource f = p \<or> st \<or> psource f = None then pl else psource f)" by (auto simp: src_def s_def)
  have g: "g = Proto (pk f) (pcode f) (map (undumped st (psource f) src) (pp f)) (strip_debug st (plineinfo f))
      (strip_debug st (plocvars f)) (strip_debug st (pupvalues f)) src (plinedefined f) (plastlinedefined f)
      (pnups f) (pnumparams f) (pis_vararg f) (pmaxstacksize f)"
    by (simp add: g_def undumped.simps [of st p pl f] src Let_def)
  have check: "luaG_checkcode g = Inr True" and nested: "\<And>h. h \<in> set (pp f) \<Longrightarrow> loadable n (undumped st (psource f) src h)"
    using Suc.prems(2) by (auto simp: g g_def [symmetric] list_all_iff)
  have s: "str_ok s" using ok(1) by (simp add: s_def str_ok_def)
  have ks: "reads (N + 1) (LoadConstants (LoadFunction k) src :: ('d, _) load)
      (enc_list enc_const (pk f) @ le_bytes sizeof_int (int (length (pp f))) @ concat (map (enc_fun st (psource f)) (pp f)))
      (pk f, map (undumped st (psource f) src) (pp f))"
    by (rule reads_constants [OF ok(5) ok(8) ok(6)], assumption, rule Suc.IH) (use ok(9) nested Suc.prems(3) k in auto)
  have code: "reads (N + 1) LoadCode (enc_list enc_code (pcode f)) (pcode f)"
    unfolding enc_list_def enc_code_def [abs_def] by (rule reads_code [OF ok(4)])
  have fin: "reads (N + 1) (let f = g in sbind (slift (luaG_checkcode f)) (\<lambda>ok. if \<not> ok then load_error ''bad code'' else sret f)) [] g"
    unfolding Let_def check by (rule reads_slift) (simp add: reads_ret)
  have "reads (N + 1) (load_body (LoadFunction k) pl :: ('d, Proto) load)
     (enc_string s @ le_bytes sizeof_int (plinedefined f) @ le_bytes sizeof_int (plastlinedefined f) @
      [pnups f] @ [pnumparams f] @ [pis_vararg f] @ [pmaxstacksize f] @ enc_list enc_code (pcode f) @
      (enc_list enc_const (pk f) @ le_bytes sizeof_int (int (length (pp f))) @ concat (map (enc_fun st (psource f)) (pp f))) @
      enc_debug st f @ []) g"
    unfolding load_body_def
    by (rule reads_bind [OF reads_string [OF s]], subst Let_def, fold src_def,
        rule reads_bind [OF reads_int [OF ok(2)]], rule reads_bind [OF reads_int [OF ok(3)]],
        rule reads_bind [OF reads_byte], rule reads_bind [OF reads_byte], rule reads_bind [OF reads_byte], rule reads_bind [OF reads_byte],
        rule reads_bind [OF code], rule reads_bind [OF ks], unfold prod.case,
        rule reads_bind [OF reads_debug [OF ok(7)]], unfold prod.case, fold g, rule fin)
  then show ?case
    unfolding m LoadFunction_body g_def [symmetric]
    by (intro reads_nested) (use Suc.prems(3) in \<open>simp_all add: enc_fun.simps [of st p f] s_def\<close>)
qed simp

section \<open>Whole chunks\<close>

text \<open>What the dump amounts to: a fixed sequence of blocks goes to the writer, up to the first
  that it refuses.\<close>

fun write_blocks :: "'d lua_Writer \<Rightarrow> byte list list \<Rightarrow> 'd \<Rightarrow> int \<times> 'd" where
  "write_blocks w [] d = (0, d)"
| "write_blocks w (b # bs) d = (case w b d of (st, d') \<Rightarrow> if st \<noteq> 0 then (st, d') else write_blocks w bs d')"

definition enc_chunk :: "bool \<Rightarrow> Proto \<Rightarrow> byte list" where
  "enc_chunk st f = luaU_header @ enc_fun st None f"

lemma DumpBlock_failed: "D_status D \<noteq> 0 \<Longrightarrow> fold DumpBlock bs D = D"
  by (induction bs) (simp_all add: DumpBlock_def)

lemma fold_DumpBlock:
  "D_status D = 0 \<Longrightarrow> fold DumpBlock bs D =
    (case write_blocks (D_writer D) bs (D_data D) of (st, d) \<Rightarrow> D\<lparr>D_status := st, D_data := d\<rparr>)"
proof (induction bs arbitrary: D)
  case (Cons b bs)
  obtain st d where w: "D_writer D b (D_data D) = (st, d)" by fastforce
  let ?D = "D\<lparr>D_status := st, D_data := d\<rparr>"
  have "fold DumpBlock (b # bs) D = fold DumpBlock bs ?D" using Cons.prems w by (simp add: DumpBlock_def)
  then show ?case using Cons.IH [of ?D] w DumpBlock_failed [of ?D bs]
    by (cases "st = 0") (auto split: prod.split)
qed simp

lemma dump_blocks:
  "\<exists>blocks. concat blocks = enc_chunk strip f \<and> (\<forall>w data. luaU_dump f w data strip = write_blocks w blocks (data :: 'd))"
proof -
  have "emits strip (\<lambda>D. DumpFunction f None (DumpBlock luaU_header D) :: 'd DumpState) (enc_chunk strip f)"
    unfolding enc_chunk_def by (rule emits_seq [OF emits_block emits_fun])
  then obtain blocks where b: "concat blocks = enc_chunk strip f"
    "\<And>D :: 'd DumpState. D_strip D = strip \<Longrightarrow> DumpFunction f None (DumpBlock luaU_header D) = fold DumpBlock blocks D"
    unfolding emits_def by metis
  have "luaU_dump f w data strip = write_blocks w blocks (data :: 'd)" for w data
    by (simp add: luaU_dump_def Let_def b(2) fold_DumpBlock split: prod.split)
  then show ?thesis using b(1) by blast
qed

text \<open>A writer that keeps the bytes.\<close>

definition collect :: "byte list lua_Writer" where
  "collect b d = (0, d @ b)"

lemma write_collect: "write_blocks collect bs d = (0, d @ concat bs)"
  by (induction bs arbitrary: d) (simp_all add: collect_def)

lemma dump_collect: "luaU_dump f collect [] strip = (0, enc_chunk strip f)"
proof -
  obtain blocks where "concat blocks = enc_chunk strip f" "luaU_dump f collect [] strip = write_blocks collect blocks []"
    using dump_blocks [of strip f, where 'd = "byte list"] by blast
  then show ?thesis by (simp add: write_collect)
qed

lemma reads_header: "reads N LoadHeader luaU_header ()"
  unfolding LoadHeader_def
proof (rule reads_by_block)
  show "length luaU_header = LUAC_HEADERSIZE"
    by (simp add: luaU_header_def LUA_SIGNATURE_def bytes_def LUAC_HEADERSIZE_def)
  show "reads N (if luaU_header \<noteq> luaU_header then load_error ''bad header'' else sret ()) [] ()"
    by (simp add: reads_ret)
qed

lemma undump_chunk:
  assumes "dumpable f" and "loadable n (undumped st None (Some (bytes ''=?'')) f)" and "nCcalls + int n \<le> LUAI_MAXCCALLS"
    and "holds R z (enc_chunk st f @ rest)"
  shows "luaU_undump R z b name nCcalls = Inr (undumped st None (Some (bytes ''=?'')) f)"
proof -
  let ?S = "\<lparr>S_z = z, S_reader = R, S_b = b, S_name = undump_name name, S_nCcalls = nCcalls\<rparr>"
  have "n \<le> Suc (nat (LUAI_MAXCCALLS - nCcalls))" using assms(3) by linarith
  from reads_bind [OF reads_header reads_fun [OF assms(1-3) this]]
  have "reads nCcalls (sthen LoadHeader (LoadFunction (Suc (nat (LUAI_MAXCCALLS - nCcalls))) (Some (bytes ''=?''))) :: ('a, Proto) load)
    (enc_chunk st f) (undumped st None (Some (bytes ''=?'')) f)" by (simp only: enc_chunk_def)
  from this [unfolded reads_def, rule_format, of ?S rest] assms(4)
  obtain z b where "sthen LoadHeader (LoadFunction (Suc (nat (LUAI_MAXCCALLS - nCcalls))) (Some (bytes ''=?''))) ?S =
      Inr (undumped st None (Some (bytes ''=?'')) f, ?S\<lparr>S_z := z, S_b := b\<rparr>)"
    by (auto simp del: LoadFunction.simps sbind_simps sm_simps)
  then show ?thesis unfolding luaU_undump_def by (simp only: rbind_simps prod.case)
qed

section \<open>Source names\<close>

function sourced :: "Proto \<Rightarrow> bool" where
  "sourced f \<longleftrightarrow> psource f \<noteq> None \<and> list_all sourced (pp f)"
  by pat_completeness auto
termination by (relation "measure size") (auto dest: size_pp)

declare sourced.simps [simp del]

lemma undumped_sourced: "sourced f \<Longrightarrow> (psource f = p \<longrightarrow> pl = p) \<Longrightarrow> undumped False p pl f = f"
proof (induction "False" p pl f rule: undumped.induct)
  case (1 p pl f)
  have src: "(if psource f = p \<or> False \<or> psource f = None then pl else psource f) = psource f"
    using 1(2,3) by (auto simp: sourced.simps [of f])
  have "map (undumped False (psource f) (psource f)) (pp f) = pp f"
    by (rule map_idI, rule 1(1) [OF src [symmetric]]) (use 1(2) in \<open>simp_all add: sourced.simps [of f] list_all_iff\<close>)
  then show ?case
    by (subst undumped.simps, unfold src Let_def) (cases f, simp add: strip_debug_def)
qed

function stripped :: "lstr \<Rightarrow> Proto \<Rightarrow> Proto" where
  "stripped name f =
     Proto (pk f) (pcode f) (map (stripped name) (pp f)) [] [] [] name (plinedefined f) (plastlinedefined f)
       (pnups f) (pnumparams f) (pis_vararg f) (pmaxstacksize f)"
  by pat_completeness auto
termination by (relation "measure (\<lambda>(name, f). size f)") (auto dest: size_pp)

declare stripped.simps [simp del]

lemma undumped_stripped: "undumped True p pl f = stripped pl f"
proof (induction "True" p pl f rule: undumped.induct)
  case (1 p pl f)
  then have "map (undumped True (psource f) pl) (pp f) = map (stripped pl) (pp f)" by simp
  then show ?case by (simp add: undumped.simps [of True] stripped.simps [of pl f] strip_debug_def Let_def)
qed

text \<open>A function with a constant of every kind and a nested function.\<close>

definition dump_inner :: Proto where
  "dump_inner = Proto [TNil, TBoolean True, TNumber 0x3FF0000000000000] [CREATE_ABC 30 0 1 0] [] [3] [] [] (Some (bytes ''=d'')) 2 3 0 0 0 2"

definition dump_outer :: Proto where
  "dump_outer = Proto [TString (Some (bytes ''x''))] [CREATE_ABx 5 0 0, CREATE_ABx 36 1 0, CREATE_ABC 30 0 1 0] [dump_inner]
     [1, 2, 4] [\<lparr>varname = Some (bytes ''f''), startpc = 2, endpc = 3\<rparr>] [] (Some (bytes ''=d'')) 0 0 0 0 2 2"

lemmas dump_example_simps =
  dumpable.simps [of "Proto k c ps l v u s a b n p i m"] sourced.simps [of "Proto k c ps l v u s a b n p i m"]
  stripped.simps [of _ "Proto k c ps l v u s a b n p i m"] for k c ps l v u s a b n p i m

lemma dump_outer_dumpable: "dumpable dump_outer"
  by (simp add: dump_example_simps dump_outer_def dump_inner_def
      str_ok_def int_ok_def len_ok_def const_ok_def debug_ok_def locvar_ok_def bytes_def)

lemma dump_outer_stripped:
  "stripped (Some (bytes ''=?'')) dump_outer =
    Proto (pk dump_outer) (pcode dump_outer) [Proto (pk dump_inner) (pcode dump_inner) [] [] [] [] (Some (bytes ''=?'')) 2 3 0 0 0 2]
      [] [] [] (Some (bytes ''=?'')) 0 0 0 0 2 2"
  by (simp add: dump_example_simps dump_outer_def dump_inner_def)

lemma dump_outer_loadable: "loadable 2 dump_outer" "loadable 2 (stripped (Some (bytes ''=?'')) dump_outer)"
proof -
  show "loadable 2 dump_outer" by code_simp
  show "loadable 2 (stripped (Some (bytes ''=?'')) dump_outer)" unfolding dump_outer_stripped by code_simp
qed

text \<open>The chunk read byte by byte.\<close>

lemma dump_holds: "holds list_reader (luaZ_init (map (\<lambda>b. [b]) bs)) (bs @ [])"
proof -
  have "holds list_reader (luaZ_init (map (\<lambda>b. [b]) bs)) (concat (map (\<lambda>b. [b]) bs))"
    by (rule list_reader_holds) auto
  then show ?thesis by (simp add: concat_map_singleton)
qed

section \<open>Properties\<close>

text \<open>C23: loading a dumped function gives it back: a function that keeps its debug information,
  whose sizes fit in an \<open>int\<close>, whose constants are nil, booleans, numbers and strings, that has
  a source name at every level and passes the code checker at every level, is rebuilt exactly
  by \<open>luaU_undump\<close> from the bytes that \<open>luaU_dump\<close> wrote, whatever follows them in the stream
  and however the reader cuts it into pieces.\<close>

theorem undump_dump:
  assumes "dumpable f" and "sourced f" and "loadable n f" and "nCcalls + int n \<le> LUAI_MAXCCALLS"
    and "luaU_dump f collect [] False = (status, bs)" and "holds R z (bs @ rest)"
  shows "status = 0 \<and> luaU_undump R z b name nCcalls = Inr f"
proof -
  have "undumped False None (Some (bytes ''=?'')) f = f"
    by (rule undumped_sourced [OF assms(2)]) (use assms(2) in \<open>simp add: sourced.simps [of f]\<close>)
  then show ?thesis
    using undump_chunk [of f n False nCcalls R z rest b name] assms by (simp add: dump_collect)
qed

lemma undump_dump_witness:
  "luaU_undump list_reader (luaZ_init (map (\<lambda>b. [b]) (snd (luaU_dump dump_outer collect [] False))))
     \<lparr>mbuffer = [], buffsize = 0\<rparr> (bytes ''=x'') 0 = Inr dump_outer"
proof -
  have "sourced dump_outer"
    by (simp add: dump_example_simps dump_outer_def dump_inner_def)
  from undump_dump [OF dump_outer_dumpable this dump_outer_loadable(1) _ prod.collapse [symmetric] dump_holds, of 0]
  show ?thesis by (simp add: LUAI_MAXCCALLS_def)
qed

text \<open>C24: loading a stripped dump gives the same code, constants and nested functions without
  line numbers, local and upvalue names; the source name of every function is then "=?".\<close>

theorem undump_stripped_dump:
  assumes "dumpable f" and "loadable n (stripped (Some (bytes ''=?'')) f)" and "nCcalls + int n \<le> LUAI_MAXCCALLS"
    and "luaU_dump f collect [] True = (status, bs)" and "holds R z (bs @ rest)"
  shows "status = 0 \<and> luaU_undump R z b name nCcalls = Inr (stripped (Some (bytes ''=?'')) f)"
  using undump_chunk [of f n True nCcalls R z rest b name] assms by (simp add: dump_collect undumped_stripped)

lemma undump_stripped_dump_witness:
  "luaU_undump list_reader (luaZ_init (map (\<lambda>b. [b]) (snd (luaU_dump dump_outer collect [] True))))
     \<lparr>mbuffer = [], buffsize = 0\<rparr> (bytes ''=x'') 0 = Inr (stripped (Some (bytes ''=?'')) dump_outer)"
  using undump_stripped_dump [OF dump_outer_dumpable dump_outer_loadable(2) _ prod.collapse [symmetric] dump_holds, of 0]
  by (simp add: LUAI_MAXCCALLS_def)

text \<open>C25: a dump is a fixed sequence of blocks, the same for every writer: the writer gets them
  in order until it returns a status other than 0, which is then the result of \<open>luaU_dump\<close>;
  after that it is not called again. A writer that never fails gets the whole chunk.\<close>

theorem dump_stops_at_error:
  "\<exists>blocks. luaU_dump f collect [] strip = (0, concat blocks) \<and>
     (\<forall>w data. luaU_dump f w data strip = write_blocks w blocks (data :: 'd))"
  using dump_blocks [of strip f, where 'd = 'd] dump_collect [of f strip] by metis

definition null_name :: Proto where
  "null_name = Proto [TString None] [CREATE_ABx 5 0 0, CREATE_ABC 30 0 1 0] [] [] [] [] (Some (bytes ''=?'')) 0 0 0 0 2 2"

text \<open>C26: \<open>luaU_undump\<close> accepts a string constant of size 0, which \<open>LoadString\<close> returns as a null
  pointer, and the checker accepts an instruction that uses it as the name of a global.\<close>

theorem undump_null_string:
  "\<exists>chunk f. luaU_undump list_reader (luaZ_init chunk) \<lparr>mbuffer = [], buffsize = 0\<rparr> (bytes ''=x'') 0 = Inr f \<and>
     pk f = [TString None] \<and> luaG_checkcode f = Inr True \<and> hd (pcode f) = CREATE_ABx 5 0 0"
proof -
  have d: "dumpable null_name"
    by (simp add: dump_example_simps null_name_def str_ok_def int_ok_def len_ok_def const_ok_def debug_ok_def bytes_def)
  have s: "stripped (Some (bytes ''=?'')) null_name = null_name" by (simp add: dump_example_simps null_name_def)
  have l: "loadable 1 null_name" by code_simp
  have "luaG_checkcode null_name = Inr True" using l by simp
  moreover have "luaU_undump list_reader (luaZ_init (map (\<lambda>b. [b]) (enc_chunk True null_name)))
     \<lparr>mbuffer = [], buffsize = 0\<rparr> (bytes ''=x'') 0 = Inr null_name"
    using undump_chunk [OF d, of 1 True, unfolded undumped_stripped, unfolded s, OF l _ dump_holds, of 0]
    by (simp add: LUAI_MAXCCALLS_def)
  ultimately show ?thesis by (intro exI conjI) (auto simp: null_name_def)
qed

end
