(* ===== verification/LSort.thy ===== *)
theory LSort
  imports LuaNumber "HOL-Library.Multiset"
begin

text \<open>
  The sort of \<open>ltablib.c\<close>: quicksort with the median of three, two inner scans that stop at the
  pivot, and recursion on the smaller part. The table is the function from its integer keys to
  their values, as \<open>lua_rawgeti\<close> and \<open>lua_rawseti\<close> see it; the comparison, a Lua function or
  \<open>lua_lessthan\<close>, is a parameter that may raise an error. Indices do not overflow: tables are
  smaller than \<open>2 ^ 30\<close>.
\<close>

section \<open>The code\<close>

type_synonym 'v arr = "int \<Rightarrow> 'v"
type_synonym 'v comparison = "'v \<Rightarrow> 'v \<Rightarrow> bool res"

text \<open>\<open>set2\<close> pops two values: the top one, \<open>v\<close>, goes to \<open>i\<close>, the one below it, \<open>w\<close>, to \<open>j\<close>.\<close>

definition set2 :: "int \<Rightarrow> int \<Rightarrow> 'v \<Rightarrow> 'v \<Rightarrow> 'v arr \<Rightarrow> 'v arr" where
  "set2 i j v w a = a(i := v, j := w)"

definition invalid_order :: lua_error where
  "invalid_order = ErrRun ''invalid order function for sorting''"

text \<open>The scan for the next element from below that is not less than the pivot, and the one from
  above for the next that is not greater.\<close>

function scan_up :: "'v comparison \<Rightarrow> 'v \<Rightarrow> int \<Rightarrow> 'v arr \<Rightarrow> int \<Rightarrow> int res" where
  "scan_up lt P u a i =
     rbind (lt (a (i + 1)) P) (\<lambda>b.
       if b then (if i + 1 > u then Inl invalid_order else scan_up lt P u a (i + 1)) else Inr (i + 1))"
  by pat_completeness auto
termination by (relation "measure (\<lambda>(lt, P, u, a, i). nat (u + 1 - i))") auto

function scan_down :: "'v comparison \<Rightarrow> 'v \<Rightarrow> int \<Rightarrow> 'v arr \<Rightarrow> int \<Rightarrow> int res" where
  "scan_down lt P l a j =
     rbind (lt P (a (j - 1))) (\<lambda>b.
       if b then (if j - 1 < l then Inl invalid_order else scan_down lt P l a (j - 1)) else Inr (j - 1))"
  by pat_completeness auto
termination by (relation "measure (\<lambda>(lt, P, l, a, j). nat (j + 1 - l))") auto

declare scan_up.simps [simp del] scan_down.simps [simp del]

lemma scan_up_gt: "scan_up lt P u a i = Inr i' \<Longrightarrow> i < i' \<and> (i' \<le> u + 1 \<or> i' = i + 1)"
proof (induction lt P u a i rule: scan_up.induct)
  case (1 lt P u a i)
  from 1(2) show ?case
    unfolding scan_up.simps [of lt P u a i] rbind_Inr_iff using 1(1) by (fastforce split: if_splits)
qed

lemma scan_down_less: "scan_down lt P l a j = Inr j' \<Longrightarrow> j' < j"
proof (induction lt P l a j rule: scan_down.induct)
  case (1 lt P l a j)
  from 1(2) show ?case
    unfolding scan_down.simps [of lt P l a j] rbind_Inr_iff using 1(1) by (fastforce split: if_splits)
qed

text \<open>The loop that exchanges elements on the wrong side; it ends with the place of the pivot.\<close>

function partition_loop :: "'v comparison \<Rightarrow> 'v \<Rightarrow> int \<Rightarrow> int \<Rightarrow> 'v arr \<Rightarrow> int \<Rightarrow> int \<Rightarrow> (int \<times> 'v arr) res" where
  "partition_loop lt P l u a i j =
     rbind (scan_up lt P u a i) (\<lambda>i'.
     rbind (scan_down lt P l a j) (\<lambda>j'.
       if j' < i' then Inr (i', a)
       else partition_loop lt P l u (set2 i' j' (a j') (a i') a) i' j'))"
  by pat_completeness auto
termination
  by (relation "measure (\<lambda>(lt, P, l, u, a, i, j). nat (j - i))") (auto dest!: scan_up_gt scan_down_less)

declare partition_loop.simps [simp del]

text \<open>\<open>sort elements a[l], a[(l+u)/2] and a[u]\<close>; \<open>None\<close> when there are only two or three.\<close>

definition sort_ends :: "'v comparison \<Rightarrow> int \<Rightarrow> int \<Rightarrow> 'v arr \<Rightarrow> 'v arr res" where
  "sort_ends lt l u a = rbind (lt (a u) (a l)) (\<lambda>b. Inr (if b then set2 l u (a u) (a l) a else a))"

definition sort_middle :: "'v comparison \<Rightarrow> int \<Rightarrow> int \<Rightarrow> int \<Rightarrow> 'v arr \<Rightarrow> 'v arr res" where
  "sort_middle lt l u i a =
     rbind (lt (a i) (a l)) (\<lambda>b.
       if b then Inr (set2 i l (a l) (a i) a)
       else rbind (lt (a u) (a i)) (\<lambda>b. Inr (if b then set2 i u (a u) (a i) a else a)))"

text \<open>One round of the loop of \<open>auxsort\<close>: the place of the pivot, or \<open>None\<close> when there were
  only two or three elements.\<close>

definition sort_round :: "'v comparison \<Rightarrow> int \<Rightarrow> int \<Rightarrow> 'v arr \<Rightarrow> (int option \<times> 'v arr) res" where
  "sort_round lt l u a =
     rbind (sort_ends lt l u a) (\<lambda>a.
       if u - l = 1 then Inr (None, a)
       else let i = (l + u) div 2
         in rbind (sort_middle lt l u i a) (\<lambda>a.
            if u - l = 2 then Inr (None, a)
            else let P = a i
              in rbind (partition_loop lt P l u (set2 i (u - 1) (a (u - 1)) P a) l (u - 1)) (\<lambda>(i, a).
                 Inr (Some i, set2 (u - 1) i (a i) (a (u - 1)) a))))"

text \<open>\<open>auxsort\<close>. The order of the two recursions is the code's: the smaller part first, then the
  next round of the loop. An invalid order function can make the loop run for ever, so there is
  fuel; for an order it is enough that it exceeds the number of elements.\<close>

fun auxsort :: "nat \<Rightarrow> 'v comparison \<Rightarrow> int \<Rightarrow> int \<Rightarrow> 'v arr \<Rightarrow> 'v arr res" where
  "auxsort 0 lt l u a = Inl OutOfFuel"
| "auxsort (Suc fuel) lt l u a =
     (if l < u
      then rbind (sort_round lt l u a) (\<lambda>(m, a).
             case m of
               None \<Rightarrow> Inr a
             | Some i \<Rightarrow>
                 if i - l < u - i
                 then rbind (auxsort fuel lt l (i - 1) a) (auxsort fuel lt (i + 1) u)
                 else rbind (auxsort fuel lt (i + 1) u a) (auxsort fuel lt l (i - 1)))
      else Inr a)"

definition sort_table :: "nat \<Rightarrow> 'v comparison \<Rightarrow> int \<Rightarrow> 'v arr \<Rightarrow> 'v arr res" where
  "sort_table fuel lt n a = auxsort fuel lt 1 n a"

section \<open>Rearrangements\<close>

definition rearranged :: "int set \<Rightarrow> 'v arr \<Rightarrow> 'v arr \<Rightarrow> bool" where
  "rearranged S a b \<longleftrightarrow> (\<exists>p. bij p \<and> (\<forall>x. x \<notin> S \<longrightarrow> p x = x) \<and> b = a \<circ> p)"

lemma rearranged_refl [simp]: "rearranged S a a"
  unfolding rearranged_def by (rule exI [of _ id]) simp

lemma rearranged_trans: "rearranged S a b \<Longrightarrow> rearranged S b c \<Longrightarrow> rearranged S a c"
  unfolding rearranged_def
proof (elim exE conjE)
  fix p q :: "int \<Rightarrow> int"
  assume "bij p" "\<forall>x. x \<notin> S \<longrightarrow> p x = x" "b = a \<circ> p" "bij q" "\<forall>x. x \<notin> S \<longrightarrow> q x = x" "c = b \<circ> q"
  then show "\<exists>p. bij p \<and> (\<forall>x. x \<notin> S \<longrightarrow> p x = x) \<and> c = a \<circ> p"
    by (intro exI [of _ "p \<circ> q"]) (auto simp: bij_comp comp_assoc)
qed

lemma rearranged_mono: "rearranged S a b \<Longrightarrow> S \<subseteq> T \<Longrightarrow> rearranged T a b"
  unfolding rearranged_def by blast

lemma rearranged_swap: "x \<in> S \<Longrightarrow> y \<in> S \<Longrightarrow> rearranged S a (set2 x y (a y) (a x) a)"
  unfolding rearranged_def
proof (intro exI conjI)
  let ?p = "id(x := y, y := x)"
  assume "x \<in> S" "y \<in> S"
  have "?p (?p z) = z" for z by auto
  then show "bij ?p" by (metis bijI')
  show "set2 x y (a y) (a x) a = a \<circ> ?p" by (auto simp: set2_def)
qed auto

lemma rearranged_outside: "rearranged S a b \<Longrightarrow> x \<notin> S \<Longrightarrow> b x = a x"
  unfolding rearranged_def by auto

lemma moves_inside: "bij p \<Longrightarrow> \<forall>x. x \<notin> S \<longrightarrow> p x = x \<Longrightarrow> p ` S = S"
proof -
  assume p: "bij p" "\<forall>x. x \<notin> S \<longrightarrow> p x = x"
  have inj: "p x = p y \<Longrightarrow> x = y" for x y using p(1) by (auto simp: bij_def inj_def)
  have "p x \<in> S" if "x \<in> S" for x using p(2) inj [of "p x" x] that by auto
  moreover have "x \<in> p ` S" if "x \<in> S" for x
  proof -
    obtain y where "x = p y" using p(1) by (auto simp: bij_def surj_def)
    then show ?thesis using p(2) that by (cases "y \<in> S") auto
  qed
  ultimately show ?thesis by auto
qed

lemma rearranged_image: "rearranged S a b \<Longrightarrow> b ` S = a ` S"
  unfolding rearranged_def
proof (elim exE conjE)
  fix p assume "bij p" "\<forall>x. x \<notin> S \<longrightarrow> p x = x" "b = a \<circ> p"
  then show "b ` S = a ` S" using moves_inside [of p S] by (metis image_comp)
qed

lemma rearranged_all: "rearranged S a b \<Longrightarrow> \<forall>x\<in>S. Q (a x) \<Longrightarrow> \<forall>x\<in>S. Q (b x)"
  using rearranged_image by (metis imageE imageI)

lemma rearranged_mset: "rearranged S a b \<Longrightarrow> image_mset b (mset_set S) = image_mset a (mset_set S)"
  unfolding rearranged_def
proof (elim exE conjE)
  fix p assume p: "bij p" "\<forall>x. x \<notin> S \<longrightarrow> p x = x" "b = a \<circ> p"
  have "image_mset p (mset_set S) = mset_set S"
    using image_mset_mset_set [of p S] moves_inside [OF p(1,2)] bij_is_inj [OF p(1)] by (metis inj_on_subset subset_UNIV)
  moreover have "image_mset b (mset_set S) = image_mset a (image_mset p (mset_set S))" by (simp add: p(3) multiset.map_comp)
  ultimately show "image_mset b (mset_set S) = image_mset a (mset_set S)" by simp
qed

section \<open>Any comparison\<close>

lemma partition_rearranged:
  "partition_loop lt P l u a i j = Inr (m, b) \<Longrightarrow> l \<le> i \<Longrightarrow> i < u \<Longrightarrow> j < u \<Longrightarrow>
    rearranged {l..u} a b \<and> l < m \<and> m \<le> u + 1 \<and> b u = a u"
proof (induction lt P l u a i j rule: partition_loop.induct)
  case (1 lt P l u a i j)
  from 1(2) obtain i' j' where s: "scan_up lt P u a i = Inr i'" "scan_down lt P l a j = Inr j'"
    and r: "if j' < i' then m = i' \<and> b = a else partition_loop lt P l u (set2 i' j' (a j') (a i') a) i' j' = Inr (m, b)"
    unfolding partition_loop.simps [of lt P l u a i j] rbind_Inr_iff by (auto split: if_splits)
  have b: "i < i'" "i' \<le> u + 1" "j' < j" using scan_up_gt [OF s(1)] scan_down_less [OF s(2)] 1(4) by auto
  show ?case
  proof (cases "j' < i'")
    case True
    then show ?thesis using r b 1(3) by simp
  next
    case False
    then have IH: "rearranged {l..u} (set2 i' j' (a j') (a i') a) b" "l < m" "m \<le> u + 1" "b u = set2 i' j' (a j') (a i') a u"
      using 1(1) [OF s False] r b 1(3-5) by auto
    have "rearranged {l..u} a (set2 i' j' (a j') (a i') a)" using False b 1(3-5) by (intro rearranged_swap) auto
    then show ?thesis using IH rearranged_trans False b 1(5) by (auto simp: set2_def)
  qed
qed

lemma sort_ends_rearranged: "sort_ends lt l u a = Inr b \<Longrightarrow> l < u \<Longrightarrow> rearranged {l..u} a b"
  by (auto simp: sort_ends_def rbind_Inr_iff intro: rearranged_swap split: if_splits)

lemma sort_middle_rearranged: "sort_middle lt l u i a = Inr b \<Longrightarrow> l \<le> i \<Longrightarrow> i \<le> u \<Longrightarrow> rearranged {l..u} a b"
  by (auto simp: sort_middle_def rbind_Inr_iff intro: rearranged_swap split: if_splits)

lemma sort_round_cases:
  assumes "sort_round lt l u a = Inr (m, b)" and "l < u"
  obtains (two) "m = None" "u = l + 1" "sort_ends lt l u a = Inr b"
  | (three) a1 where "m = None" "u = l + 2" "sort_ends lt l u a = Inr a1" "sort_middle lt l u ((l + u) div 2) a1 = Inr b"
  | (more) i a1 a2 k a3 where "m = Some k" "l + 2 < u" "i = (l + u) div 2" "sort_ends lt l u a = Inr a1"
      "sort_middle lt l u i a1 = Inr a2"
      "partition_loop lt (a2 i) l u (set2 i (u - 1) (a2 (u - 1)) (a2 i) a2) l (u - 1) = Inr (k, a3)"
      "b = set2 (u - 1) k (a3 k) (a3 (u - 1)) a3"
proof -
  from assms(1) obtain a1 where a1: "sort_ends lt l u a = Inr a1"
    and r: "(if u - l = 1 then Inr (None, a1) else rbind (sort_middle lt l u ((l + u) div 2) a1) (\<lambda>a.
            if u - l = 2 then Inr (None, a)
            else let P = a ((l + u) div 2)
              in rbind (partition_loop lt P l u (set2 ((l + u) div 2) (u - 1) (a (u - 1)) P a) l (u - 1)) (\<lambda>(i, a).
                 Inr (Some i, set2 (u - 1) i (a i) (a (u - 1)) a)))) = Inr (m, b)"
    unfolding sort_round_def rbind_Inr_iff Let_def by auto
  consider "u = l + 1" | "u = l + 2" | "l + 2 < u" using assms(2) by linarith
  then show thesis
  proof cases
    case 1
    then show ?thesis using two a1 r by simp
  next
    case 2
    then show ?thesis using three [OF _ 2 a1] r by (auto simp: rbind_Inr_iff)
  next
    case 3
    then obtain a2 k a3 where "sort_middle lt l u ((l + u) div 2) a1 = Inr a2" "m = Some k"
      "partition_loop lt (a2 ((l + u) div 2)) l u (set2 ((l + u) div 2) (u - 1) (a2 (u - 1)) (a2 ((l + u) div 2)) a2) l (u - 1) = Inr (k, a3)"
      "b = set2 (u - 1) k (a3 k) (a3 (u - 1)) a3"
      using r by (auto simp: rbind_Inr_iff Let_def)
    then show ?thesis using more [OF _ 3 refl a1] by blast
  qed
qed

lemma sort_round_rearranged:
  assumes "sort_round lt l u a = Inr (m, b)" and "l < u"
  shows "rearranged {l..u + 1} a b \<and> (\<forall>k. m = Some k \<longrightarrow> l < k \<and> k \<le> u + 1)"
  using assms
proof (cases rule: sort_round_cases)
  case two
  then show ?thesis using sort_ends_rearranged [of lt l u a b] assms(2) by (auto intro: rearranged_mono)
next
  case (three a1)
  have "rearranged {l..u} a1 b" by (rule sort_middle_rearranged [OF three(4)]) (use three(2) in auto)
  then have "rearranged {l..u} a b" using sort_ends_rearranged [OF three(3) assms(2)] rearranged_trans by blast
  then show ?thesis using three(1) by (auto intro: rearranged_mono)
next
  case (more i a1 a2 k a3)
  have i: "l \<le> i" "i \<le> u" using more(2,3) by auto
  have "rearranged {l..u} a a2"
    using sort_ends_rearranged [OF more(4) assms(2)] sort_middle_rearranged [OF more(5) i] by (rule rearranged_trans)
  moreover have "rearranged {l..u} a2 (set2 i (u - 1) (a2 (u - 1)) (a2 i) a2)"
    using i more(2) by (intro rearranged_swap) auto
  moreover have k: "rearranged {l..u} (set2 i (u - 1) (a2 (u - 1)) (a2 i) a2) a3" "l < k" "k \<le> u + 1"
    using partition_rearranged [OF more(6)] more(2) by auto
  ultimately have "rearranged {l..u} a a3" by (meson rearranged_trans)
  then have "rearranged {l..u + 1} a a3" by (rule rearranged_mono) auto
  moreover have "rearranged {l..u + 1} a3 b"
    unfolding more(7) using k more(2) by (intro rearranged_swap) auto
  ultimately show ?thesis using k more(1) by (auto intro: rearranged_trans)
qed

lemma auxsort_rearranged: "auxsort fuel lt l u a = Inr b \<Longrightarrow> rearranged {l..u + 1} a b"
proof (induction fuel arbitrary: l u a b)
  case (Suc fuel)
  show ?case
  proof (cases "l < u")
    case True
    then obtain m c where r: "sort_round lt l u a = Inr (m, c)"
      and rest: "m = None \<Longrightarrow> c = b"
        "\<And>i. m = Some i \<Longrightarrow> (\<exists>d. auxsort fuel lt l (i - 1) c = Inr d \<and> auxsort fuel lt (i + 1) u d = Inr b) \<or>
           (\<exists>d. auxsort fuel lt (i + 1) u c = Inr d \<and> auxsort fuel lt l (i - 1) d = Inr b)"
      using Suc.prems by (auto simp: rbind_Inr_iff split: if_splits option.splits)
    note c = sort_round_rearranged [OF r True]
    show ?thesis
    proof (cases m)
      case (Some i)
      have m: "rearranged {l..u + 1} x y" if "auxsort fuel lt l (i - 1) x = Inr y" for x y
        by (rule rearranged_mono [OF Suc.IH [OF that]]) (use c Some in auto)
      have n: "rearranged {l..u + 1} x y" if "auxsort fuel lt (i + 1) u x = Inr y" for x y
        by (rule rearranged_mono [OF Suc.IH [OF that]]) (use c Some in auto)
      show ?thesis using c rest(2) [OF Some] m n by (meson rearranged_trans)
    qed (use c rest in simp)
  qed (use Suc.prems in simp)
qed simp

section \<open>An order\<close>

text \<open>A strict weak order on the values \<open>V\<close>, decided by the comparison without an error.\<close>

locale sort_order =
  fixes lt :: "'v comparison" and below :: "'v \<Rightarrow> 'v \<Rightarrow> bool" and V :: "'v set"
  assumes asym: "x \<in> V \<Longrightarrow> y \<in> V \<Longrightarrow> below x y \<Longrightarrow> \<not> below y x"
    and trans: "x \<in> V \<Longrightarrow> y \<in> V \<Longrightarrow> z \<in> V \<Longrightarrow> \<not> below y x \<Longrightarrow> \<not> below z y \<Longrightarrow> \<not> below z x"
    and decided: "x \<in> V \<Longrightarrow> y \<in> V \<Longrightarrow> lt x y = Inr (below x y)"
begin

definition le :: "'v \<Rightarrow> 'v \<Rightarrow> bool" where "le x y \<longleftrightarrow> \<not> below y x"

lemma le_trans: "x \<in> V \<Longrightarrow> y \<in> V \<Longrightarrow> z \<in> V \<Longrightarrow> le x y \<Longrightarrow> le y z \<Longrightarrow> le x z"
  using trans unfolding le_def by blast

lemma below_le: "x \<in> V \<Longrightarrow> y \<in> V \<Longrightarrow> below x y \<Longrightarrow> le x y"
  using asym unfolding le_def by blast

lemma le_refl: "x \<in> V \<Longrightarrow> le x x"
  using asym unfolding le_def by blast

lemma scan_up_step:
  "a (i + 1) \<in> V \<Longrightarrow> P \<in> V \<Longrightarrow> i + 1 \<le> u \<Longrightarrow>
    scan_up lt P u a i = (if below (a (i + 1)) P then scan_up lt P u a (i + 1) else Inr (i + 1))"
  by (subst scan_up.simps) (simp add: decided)

lemma scan_down_step:
  "a (j - 1) \<in> V \<Longrightarrow> P \<in> V \<Longrightarrow> l \<le> j - 1 \<Longrightarrow>
    scan_down lt P l a j = (if below P (a (j - 1)) then scan_down lt P l a (j - 1) else Inr (j - 1))"
  by (subst scan_down.simps) (simp add: decided)

lemma scan_up_stops:
  assumes "\<forall>x\<in>{l..u}. a x \<in> V" and "P \<in> V" and "l \<le> i" and "i < k" and "k \<le> u" and "le P (a k)"
  shows "\<exists>i'. scan_up lt P u a i = Inr i' \<and> i < i' \<and> i' \<le> k \<and> le P (a i') \<and> (\<forall>x\<in>{l..u}. i < x \<longrightarrow> x < i' \<longrightarrow> le (a x) P)"
  using assms(3,4)
proof (induction "nat (k - i)" arbitrary: i rule: less_induct)
  case less
  have V: "a (i + 1) \<in> V" using assms(1,5) less.prems by simp
  note step = scan_up_step [of a i P u, OF V assms(2)]
  show ?case
  proof (cases "below (a (i + 1)) P")
    case True
    then have "i + 1 \<noteq> k" using assms(6) by (auto simp: le_def)
    then obtain i' where i': "scan_up lt P u a (i + 1) = Inr i'" "i + 1 < i'" "i' \<le> k" "le P (a i')"
      "\<forall>x\<in>{l..u}. i + 1 < x \<longrightarrow> x < i' \<longrightarrow> le (a x) P"
      using less.hyps [of "i + 1"] less.prems by auto
    have "le (a (i + 1)) P" using below_le V assms(2) True by blast
    moreover have "x = i + 1 \<or> i + 1 < x" if "i < x" for x using that by linarith
    ultimately have "\<forall>x\<in>{l..u}. i < x \<longrightarrow> x < i' \<longrightarrow> le (a x) P" using i'(5) by metis
    then show ?thesis using step True less.prems assms(5) i' by (intro exI [of _ i']) simp
  next
    case False
    then show ?thesis using step less.prems assms(5) by (auto simp: le_def)
  qed
qed

lemma scan_down_stops:
  assumes "\<forall>x\<in>{l..u}. a x \<in> V" and "P \<in> V" and "j \<le> u" and "k < j" and "l \<le> k" and "le (a k) P"
  shows "\<exists>j'. scan_down lt P l a j = Inr j' \<and> j' < j \<and> k \<le> j' \<and> le (a j') P \<and> (\<forall>x\<in>{l..u}. j' < x \<longrightarrow> x < j \<longrightarrow> le P (a x))"
  using assms(3,4)
proof (induction "nat (j - k)" arbitrary: j rule: less_induct)
  case less
  have V: "a (j - 1) \<in> V" using assms(1,5) less.prems by simp
  note step = scan_down_step [of a j P l, OF V assms(2)]
  show ?case
  proof (cases "below P (a (j - 1))")
    case True
    then have "j - 1 \<noteq> k" using assms(6) by (auto simp: le_def)
    then obtain j' where j': "scan_down lt P l a (j - 1) = Inr j'" "j' < j - 1" "k \<le> j'" "le (a j') P"
      "\<forall>x\<in>{l..u}. j' < x \<longrightarrow> x < j - 1 \<longrightarrow> le P (a x)"
      using less.hyps [of "j - 1"] less.prems by auto
    have "le P (a (j - 1))" using below_le V assms(2) True by blast
    moreover have "x = j - 1 \<or> x < j - 1" if "x < j" for x using that by linarith
    ultimately have "\<forall>x\<in>{l..u}. j' < x \<longrightarrow> x < j \<longrightarrow> le P (a x)" using j'(5) by metis
    then show ?thesis using step True less.prems assms(5) j' by (intro exI [of _ j']) simp
  next
    case False
    then show ?thesis using step less.prems assms(5) by (auto simp: le_def)
  qed
qed

text \<open>The comment of the source, \<open>invariant: a[l..i] <= P <= a[j..u]\<close>; the sentinels keep both
  scans inside, so the test for an invalid order function never succeeds.\<close>

lemma partition_order:
  assumes "P \<in> V" and "l < u"
  shows "\<forall>x\<in>{l..u}. a x \<in> V \<Longrightarrow> l \<le> i \<Longrightarrow> i \<le> u - 2 \<Longrightarrow> i < j \<or> i = j \<and> l < i \<Longrightarrow> j \<le> u - 1 \<Longrightarrow> a (u - 1) = P \<Longrightarrow>
    \<forall>x\<in>{l..u}. (x \<le> i \<longrightarrow> le (a x) P) \<and> (j \<le> x \<longrightarrow> le P (a x)) \<Longrightarrow>
    \<exists>m b. partition_loop lt P l u a i j = Inr (m, b) \<and> l < m \<and> m \<le> u - 1 \<and> b (u - 1) = P \<and> rearranged {l..u} a b \<and>
      (\<forall>x\<in>{l..u}. (x < m \<longrightarrow> le (b x) P) \<and> (m \<le> x \<longrightarrow> le P (b x)))"
proof (induction "nat (j - i)" arbitrary: a i j rule: less_induct)
  case less
  note inv = less.prems
  let ?k = "max j (i + 1)"
  let ?h = "min i (j - 1)"
  have k: "i < ?k" "?k \<le> u" "?k \<le> u - 1" "le P (a ?k)" using inv by (auto simp: max_def)
  have h: "?h < j" "l \<le> ?h" "le (a ?h) P" using inv by (auto simp: min_def)

  obtain i' where i': "scan_up lt P u a i = Inr i'" "i < i'" "i' \<le> ?k" "le P (a i')"
      "\<forall>x\<in>{l..u}. i < x \<longrightarrow> x < i' \<longrightarrow> le (a x) P"
    using scan_up_stops [OF inv(1) assms(1) inv(2) k(1,2,4)] by blast
  obtain j' where j': "scan_down lt P l a j = Inr j'" "j' < j" "?h \<le> j'" "le (a j') P"
      "\<forall>x\<in>{l..u}. j' < x \<longrightarrow> x < j \<longrightarrow> le P (a x)"
    using scan_down_stops [OF inv(1) assms(1) _ h] inv by auto
  have run: "partition_loop lt P l u a i j =
      (if j' < i' then Inr (i', a) else partition_loop lt P l u (set2 i' j' (a j') (a i') a) i' j')"
    by (subst partition_loop.simps) (simp add: i'(1) j'(1))
  have m: "l < i'" "i' \<le> u - 1" using i'(2,3) k(3) inv by linarith+
  have low: "le (a x) P" if "x \<in> {l..u}" "x < i'" for x
    using inv(7) i'(5) that by (cases "x \<le> i") auto
  have high: "le P (a x)" if "x \<in> {l..u}" "j' < x" for x
    using inv(7) j'(5) that by (cases "j \<le> x") auto
  show ?case
  proof (cases "j' < i'")
    case True
    have "le P (a x)" if "x \<in> {l..u}" "i' \<le> x" for x using high [of x] that True by simp
    then show ?thesis using run True m low inv(6) by (intro exI [of _ i'] exI [of _ a]) auto
  next
    case False
    let ?a = "set2 i' j' (a j') (a i') a"
    have in_lu: "i' \<in> {l..u}" "j' \<in> {l..u}" using m False j'(2) inv(5) by auto
    have r: "rearranged {l..u} a ?a" using in_lu by (intro rearranged_swap)
    have 1: "\<forall>x\<in>{l..u}. ?a x \<in> V" by (rule rearranged_all [OF r]) (use inv(1) in simp)
    have 2: "\<forall>x\<in>{l..u}. (x \<le> i' \<longrightarrow> le (?a x) P) \<and> (j' \<le> x \<longrightarrow> le P (?a x))"
      using low high i'(4) j'(4) False by (auto simp: set2_def)
    have 3: "?a (u - 1) = P" using inv(5,6) j'(2) False by (auto simp: set2_def)
    have "nat (j' - i') < nat (j - i)" using False i'(2) j'(2) by linarith
    moreover have "l \<le> i'" "i' \<le> u - 2" "i' < j' \<or> i' = j' \<and> l < i'" "j' \<le> u - 1" using False m j'(2) inv(5) by linarith+
    ultimately obtain k b where "partition_loop lt P l u ?a i' j' = Inr (k, b)" "l < k" "k \<le> u - 1" "b (u - 1) = P"
      "rearranged {l..u} ?a b" "\<forall>x\<in>{l..u}. (x < k \<longrightarrow> le (b x) P) \<and> (k \<le> x \<longrightarrow> le P (b x))"
      using less.hyps [of j' i' ?a] 1 2 3 by blast
    then show ?thesis using run False rearranged_trans [OF r] by auto
  qed
qed

lemma sort_ends_order:
  assumes "\<forall>x\<in>{l..u}. a x \<in> V" and "l < u"
  obtains b where "sort_ends lt l u a = Inr b" "rearranged {l..u} a b" "le (b l) (b u)"
proof -
  have V: "a l \<in> V" "a u \<in> V" using assms by auto
  let ?b = "if below (a u) (a l) then set2 l u (a u) (a l) a else a"
  have "sort_ends lt l u a = Inr ?b" by (simp add: sort_ends_def decided V)
  moreover have "le (?b l) (?b u)" using below_le V assms(2) by (auto simp: set2_def le_def)
  ultimately show thesis using that sort_ends_rearranged assms(2) by blast
qed

lemma sort_middle_order:
  assumes "\<forall>x\<in>{l..u}. a x \<in> V" and "l < i" and "i < u" and "le (a l) (a u)"
  obtains b where "sort_middle lt l u i a = Inr b" "rearranged {l..u} a b" "le (b l) (b i)" "le (b i) (b u)"
proof -
  have V: "a l \<in> V" "a i \<in> V" "a u \<in> V" using assms(1-3) by auto
  let ?b = "if below (a i) (a l) then set2 i l (a l) (a i) a else if below (a u) (a i) then set2 i u (a u) (a i) a else a"
  have b: "sort_middle lt l u i a = Inr ?b" by (simp add: sort_middle_def decided V)
  have le: "le (?b l) (?b i)" "le (?b i) (?b u)"
  proof -
    have "i \<noteq> l" "i \<noteq> u" "l \<noteq> u" using assms(2,3) by auto
    then show "le (?b l) (?b i)" "le (?b i) (?b u)"
      using assms(4) V below_le [of "a i" "a l"] below_le [of "a u" "a i"] by (simp_all add: set2_def le_def)
  qed
  have "rearranged {l..u} a ?b" by (rule sort_middle_rearranged [OF b]) (use assms(2,3) in auto)
  from that [OF b this le] show thesis .
qed

definition in_order :: "int \<Rightarrow> int \<Rightarrow> 'v arr \<Rightarrow> bool" where
  "in_order l u a \<longleftrightarrow> (\<forall>x\<in>{l..u}. \<forall>y\<in>{l..u}. x \<le> y \<longrightarrow> le (a x) (a y))"

lemma sort_round_order:
  assumes "\<forall>x\<in>{l..u}. a x \<in> V" and "l < u"
  shows "\<exists>m b. sort_round lt l u a = Inr (m, b) \<and> rearranged {l..u} a b \<and> (m = None \<longrightarrow> in_order l u b) \<and>
    (\<forall>k. m = Some k \<longrightarrow> l < k \<and> k < u \<and> (\<forall>x\<in>{l..u}. (x < k \<longrightarrow> le (b x) (b k)) \<and> (k < x \<longrightarrow> le (b k) (b x))))"
proof -
  obtain a1 where a1: "sort_ends lt l u a = Inr a1" "rearranged {l..u} a a1" "le (a1 l) (a1 u)"
    using sort_ends_order [OF assms] .
  have V1: "\<forall>x\<in>{l..u}. a1 x \<in> V" by (rule rearranged_all [OF a1(2) assms(1)])
  have refl: "le (b x) (b x)" if "\<forall>x\<in>{l..u}. b x \<in> V" "x \<in> {l..u}" for b x using that le_refl by blast
  show ?thesis
  proof (cases "u = l + 1")
    case True
    have e: "{l..u} = {l, u}" using True by auto
    have "in_order l u a1" unfolding in_order_def e using True refl [OF V1] a1(3) by (auto simp: e)
    then show ?thesis
      using a1 True by (intro exI [of _ None] exI [of _ a1]) (simp add: sort_round_def)
  next
    case False
    define i where "i = (l + u) div 2"
    have i: "l < i" "i < u" using False assms(2) by (auto simp: i_def)
    obtain a2 where a2: "sort_middle lt l u i a1 = Inr a2" "rearranged {l..u} a1 a2" "le (a2 l) (a2 i)" "le (a2 i) (a2 u)"
      using sort_middle_order [OF V1 i a1(3)] .
    have V2: "\<forall>x\<in>{l..u}. a2 x \<in> V" by (rule rearranged_all [OF a2(2) V1])
    have r2: "rearranged {l..u} a a2" using a1(2) a2(2) by (rule rearranged_trans)
    show ?thesis
    proof (cases "u = l + 2")
      case True
      then have e: "{l..u} = {l, i, u}" "i = l + 1" by (auto simp: i_def)
      have "le (a2 l) (a2 u)" using le_trans a2(3,4) V2 e(1) by blast
      then have "in_order l u a2"
        unfolding in_order_def e(1) using True e(2) refl [OF V2] a2(3,4) by (auto simp: e(1))
      then show ?thesis
        using a1(1) a2(1) r2 True e(2) by (intro exI [of _ None] exI [of _ a2]) (simp add: sort_round_def)
    next
      case big: False
      let ?a = "set2 i (u - 1) (a2 (u - 1)) (a2 i) a2"
      have u: "i \<le> u - 1" "l < u - 2" using i big False assms(2) by auto
      have ra: "rearranged {l..u} a2 ?a" by (rule rearranged_swap) (use i in auto)
      have Va: "\<forall>x\<in>{l..u}. ?a x \<in> V" by (rule rearranged_all [OF ra V2])
      have P: "a2 i \<in> V" using V2 i by simp
      have inv: "\<forall>x\<in>{l..u}. (x \<le> l \<longrightarrow> le (?a x) (a2 i)) \<and> (u - 1 \<le> x \<longrightarrow> le (a2 i) (?a x))"
      proof (intro ballI conjI impI)
        fix x assume x: "x \<in> {l..u}"
        show "le (?a x) (a2 i)" if "x \<le> l"
        proof -
          have "?a x = a2 l" using x that i u by (simp add: set2_def)
          then show ?thesis using a2(3) by simp
        qed
        show "le (a2 i) (?a x)" if "u - 1 \<le> x"
        proof -
          have "x = u - 1 \<or> x = u" using x that by auto
          then have "?a x = a2 i \<or> ?a x = a2 u" using i by (auto simp: set2_def)
          then show ?thesis using a2(4) le_refl [OF P] by auto
        qed
      qed
      have "?a (u - 1) = a2 i" "l \<le> u - 2" "l < u - 1 \<or> l = u - 1 \<and> l < l" using u by (auto simp: set2_def)
      then obtain k a3 where k: "partition_loop lt (a2 i) l u ?a l (u - 1) = Inr (k, a3)" "l < k" "k \<le> u - 1" "a3 (u - 1) = a2 i"
        "rearranged {l..u} ?a a3" "\<forall>x\<in>{l..u}. (x < k \<longrightarrow> le (a3 x) (a2 i)) \<and> (k \<le> x \<longrightarrow> le (a2 i) (a3 x))"
        using partition_order [OF P assms(2) Va order_refl _ _ order_refl _ inv] by blast
      let ?b = "set2 (u - 1) k (a3 k) (a3 (u - 1)) a3"
      have "rearranged {l..u} a3 ?b" by (rule rearranged_swap) (use k(2,3) in auto)
      then have "rearranged {l..u} a ?b" using r2 ra k(5) by (meson rearranged_trans)
      moreover have "\<forall>x\<in>{l..u}. (x < k \<longrightarrow> le (?b x) (?b k)) \<and> (k < x \<longrightarrow> le (?b k) (?b x))"
        using k(2-4,6) by (auto simp: set2_def)
      moreover have "sort_round lt l u a = Inr (Some k, ?b)"
        using a1(1) a2(1) k(1) big False by (simp add: sort_round_def i_def [symmetric] Let_def)
      ultimately show ?thesis using k(2,3) by (intro exI [of _ "Some k"] exI [of _ ?b]) simp
    qed
  qed
qed

lemma in_order_join:
  assumes "in_order l (k - 1) b" and "in_order (k + 1) u b" and "\<forall>x\<in>{l..u}. b x \<in> V" and "l < k" "k < u"
    and "\<forall>x\<in>{l..u}. (x < k \<longrightarrow> le (b x) (b k)) \<and> (k < x \<longrightarrow> le (b k) (b x))"
  shows "in_order l u b"
  unfolding in_order_def
proof (intro ballI impI)
  fix x y assume xy: "x \<in> {l..u}" "y \<in> {l..u}" "x \<le> y"
  have k: "k \<in> {l..u}" using assms(4,5) by simp
  consider "y < k" | "k < x" | "x \<le> k" "k \<le> y" by linarith
  then show "le (b x) (b y)"
  proof cases
    case 1
    then show ?thesis using assms(1) xy by (simp add: in_order_def)
  next
    case 2
    then show ?thesis using assms(2) xy by (simp add: in_order_def)
  next
    case 3
    have "le (b x) (b k)" using assms(3,6) xy(1) 3(1) le_refl by (cases "x = k") auto
    moreover have "le (b k) (b y)" using assms(3,6) xy(2) 3(2) le_refl by (cases "y = k") auto
    ultimately show ?thesis using le_trans assms(3) xy(1,2) k by blast
  qed
qed

text \<open>Sorting one part keeps what is known of the other parts and of the pivot.\<close>

lemma in_order_outside: "in_order l u a \<Longrightarrow> rearranged S a b \<Longrightarrow> {l..u} \<inter> S = {} \<Longrightarrow> in_order l u b"
  unfolding in_order_def using rearranged_outside by (metis disjoint_iff)

lemma rearranged_below:
  assumes "rearranged {x..y} a b" and "\<forall>z\<in>{l..u}. (z < k \<longrightarrow> Q (a z)) \<and> (k < z \<longrightarrow> R (a z))" and "{x..y} \<subseteq> {l..u}"
    and "y < k \<or> k < x"
  shows "\<forall>z\<in>{l..u}. (z < k \<longrightarrow> Q (b z)) \<and> (k < z \<longrightarrow> R (b z))"
proof -
  have "\<forall>z\<in>{x..y}. (y < k \<longrightarrow> Q (b z)) \<and> (k < x \<longrightarrow> R (b z))"
    by (rule rearranged_all [OF assms(1)]) (use assms(2,3) in force)
  moreover have "b z = a z" if "z \<notin> {x..y}" for z using rearranged_outside [OF assms(1) that] .
  ultimately show ?thesis using assms(2,4) by (smt (verit) atLeastAtMost_iff)
qed

lemma auxsort_order:
  "\<forall>x\<in>{l..u}. a x \<in> V \<Longrightarrow> nat (u - l + 1) < fuel \<Longrightarrow>
    \<exists>b. auxsort fuel lt l u a = Inr b \<and> rearranged {l..u} a b \<and> in_order l u b"
proof (induction fuel arbitrary: l u a)
  case (Suc fuel)
  show ?case
  proof (cases "l < u")
    case True
    obtain m c where r: "sort_round lt l u a = Inr (m, c)" "rearranged {l..u} a c" "m = None \<Longrightarrow> in_order l u c"
      and k: "\<And>k. m = Some k \<Longrightarrow> l < k \<and> k < u \<and> (\<forall>x\<in>{l..u}. (x < k \<longrightarrow> le (c x) (c k)) \<and> (k < x \<longrightarrow> le (c k) (c x)))"
      using sort_round_order [OF Suc.prems(1) True] by blast
    have Vc: "\<forall>x\<in>{l..u}. c x \<in> V" by (rule rearranged_all [OF r(2) Suc.prems(1)])
    show ?thesis
    proof (cases m)
      case None
      then show ?thesis using r True by simp
    next
      case (Some k)
      note k = k [OF Some]
      define first where "first = (k - l < u - k)"
      define x1 y1 x2 y2 where "x1 = (if first then l else k + 1)" and "y1 = (if first then k - 1 else u)"
        and "x2 = (if first then k + 1 else l)" and "y2 = (if first then u else k - 1)"
      note parts = x1_def y1_def x2_def y2_def
      have run: "auxsort (Suc fuel) lt l u a = rbind (auxsort fuel lt x1 y1 c) (auxsort fuel lt x2 y2)"
        using True r(1) Some by (simp add: parts first_def)
      have sub: "{x1..y1} \<subseteq> {l..u}" "{x2..y2} \<subseteq> {l..u}" and off: "y1 < k \<or> k < x1" "y2 < k \<or> k < x2"
        and size: "nat (y1 - x1 + 1) < fuel" "nat (y2 - x2 + 1) < fuel" and dis: "{x1..y1} \<inter> {x2..y2} = {}"
        using k Suc.prems(2) by (auto simp: parts)
      obtain d where d: "auxsort fuel lt x1 y1 c = Inr d" "rearranged {x1..y1} c d" "in_order x1 y1 d"
        using Suc.IH [OF _ size(1), of c] Vc sub(1) by blast
      have rd: "rearranged {l..u} c d" using d(2) sub(1) by (rule rearranged_mono)
      have Vd: "\<forall>x\<in>{l..u}. d x \<in> V" by (rule rearranged_all [OF rd Vc])
      obtain b where b: "auxsort fuel lt x2 y2 d = Inr b" "rearranged {x2..y2} d b" "in_order x2 y2 b"
        using Suc.IH [OF _ size(2), of d] Vd sub(2) by blast
      have rb: "rearranged {l..u} d b" using b(2) sub(2) by (rule rearranged_mono)
      have Vb: "\<forall>x\<in>{l..u}. b x \<in> V" by (rule rearranged_all [OF rb Vd])
      have "k \<notin> {x1..y1}" "k \<notin> {x2..y2}" using off by auto
      then have bk: "b k = c k" using rearranged_outside d(2) b(2) by metis
      have "\<forall>z\<in>{l..u}. (z < k \<longrightarrow> le (b z) (c k)) \<and> (k < z \<longrightarrow> le (c k) (b z))"
      proof (rule rearranged_below [OF b(2) _ sub(2) off(2)])
        show "\<forall>z\<in>{l..u}. (z < k \<longrightarrow> le (d z) (c k)) \<and> (k < z \<longrightarrow> le (c k) (d z))"
          by (rule rearranged_below [OF d(2) _ sub(1) off(1)]) (use k in blast)
      qed
      moreover have "in_order x1 y1 b" using d(3) b(2) dis by (rule in_order_outside)
      ultimately have "in_order l u b"
        using in_order_join [of l k b u] Vb k b(3) bk by (auto simp: parts split: if_splits)
      then show ?thesis using run d(1) b(1) r(2) rd rb by (auto intro: rearranged_trans)
    qed
  next
    case False
    then have "x = y" if "x \<in> {l..u}" "y \<in> {l..u}" for x y using that by auto
    then have "in_order l u a" using Suc.prems(1) le_refl unfolding in_order_def by metis
    then show ?thesis using False by simp
  qed
qed simp

end

interpretation number_order: sort_order "\<lambda>x y. Inr (luai_numlt x y)" luai_numlt "{x. \<not> luai_numisnan x}"
  by unfold_locales (auto simp: luai_numlt_def)

section \<open>Properties\<close>

text \<open>C31: sorting with an order: when the comparison decides a strict weak order on the values of
  the table, \<open>auxsort\<close> ends, within as many levels as there are elements, without raising
  \<open>invalid order function\<close>; the elements are then in order, are the same with the same
  multiplicities, and nothing outside 1..n has changed.\<close>

theorem auxsort_sorts:
  assumes "\<And>x y. x \<in> V \<Longrightarrow> y \<in> V \<Longrightarrow> below x y \<Longrightarrow> \<not> below y x"
    and "\<And>x y z. x \<in> V \<Longrightarrow> y \<in> V \<Longrightarrow> z \<in> V \<Longrightarrow> \<not> below y x \<Longrightarrow> \<not> below z y \<Longrightarrow> \<not> below z x"
    and "\<And>x y. x \<in> V \<Longrightarrow> y \<in> V \<Longrightarrow> lt x y = Inr (below x y)"
    and "\<forall>x\<in>{1..n}. a x \<in> V" and "nat n < fuel"
  shows "\<exists>b. sort_table fuel lt n a = Inr b \<and> (\<forall>x\<in>{1..n}. \<forall>y\<in>{1..n}. x \<le> y \<longrightarrow> \<not> below (b y) (b x)) \<and>
    image_mset b (mset_set {1..n}) = image_mset a (mset_set {1..n}) \<and> (\<forall>x. x \<notin> {1..n} \<longrightarrow> b x = a x)"
proof -
  have o: "sort_order lt below V" by (unfold_locales) (use assms(1-3) in blast)+
  obtain b where b: "sort_table fuel lt n a = Inr b" "rearranged {1..n} a b" "sort_order.in_order below 1 n b"
    using sort_order.auxsort_order [OF o assms(4), of fuel] assms(5) by (auto simp: sort_table_def)
  then show ?thesis
    unfolding sort_order.in_order_def [OF o] sort_order.le_def [OF o]
    using rearranged_mset rearranged_outside by blast
qed

text \<open>A table of three numbers: 2, 1, 3.\<close>

definition three_numbers :: "lua_Number arr" where
  "three_numbers = (\<lambda>_. 0)(1 := 0x4000000000000000, 2 := 0x3FF0000000000000, 3 := 0x4008000000000000)"

lemma auxsort_sorts_witness:
  "\<exists>b. sort_table 4 (\<lambda>x y. Inr (luai_numlt x y)) 3 three_numbers = Inr b \<and>
    image_mset b (mset_set {1..3}) = image_mset three_numbers (mset_set {1..3})"
proof -
  have "\<forall>x\<in>{1..3}. three_numbers x \<in> {x. \<not> luai_numisnan x}"
  proof
    fix x :: int assume "x \<in> {1..3}"
    then have "x = 1 \<or> x = 2 \<or> x = 3" by auto
    moreover have "\<not> luai_numisnan 0x4000000000000000" "\<not> luai_numisnan 0x3FF0000000000000" "\<not> luai_numisnan 0x4008000000000000"
      by code_simp+
    ultimately show "three_numbers x \<in> {x. \<not> luai_numisnan x}" by (auto simp: three_numbers_def)
  qed
  then have "\<exists>b. sort_table 4 (\<lambda>x y. Inr (luai_numlt x y)) 3 three_numbers = Inr b \<and>
    (\<forall>x\<in>{1..3}. \<forall>y\<in>{1..3}. x \<le> y \<longrightarrow> \<not> luai_numlt (b y) (b x)) \<and>
    image_mset b (mset_set {1..3}) = image_mset three_numbers (mset_set {1..3}) \<and> (\<forall>x. x \<notin> {1..3} \<longrightarrow> b x = three_numbers x)"
  proof (rule auxsort_sorts [rotated 3])
    show "\<not> luai_numlt z x"
      if "y \<in> {x. \<not> luai_numisnan x}" "\<not> luai_numlt y x" "\<not> luai_numlt z y" for x y z
      using that by (auto simp: luai_numlt_def)
  qed (auto simp: luai_numlt_def)
  then show ?thesis by auto
qed

text \<open>whatever the comparison answers, a sort that returns has only exchanged elements, among
  the indices 1 to n + 1.\<close>

theorem sort_only_exchanges:
  assumes "sort_table fuel lt n a = Inr b"
  shows "rearranged {1..n + 1} a b"
  using auxsort_rearranged assms unfolding sort_table_def .

text \<open>The comparison \<open>function (a, b) return a and b and a <= b end\<close>, which is not a strict order,
  and a table of four values.\<close>

definition not_strict :: "nat option comparison" where
  "not_strict x y = Inr (x \<noteq> None \<and> y \<noteq> None \<and> the x \<le> the y)"

definition four_values :: "nat option arr" where
  "four_values = (\<lambda>_. None)(1 := Some 1, 2 := Some 2, 3 := Some 1, 4 := Some 2)"

lemma sort_only_exchanges_witness:
  "\<exists>b. sort_table 20 not_strict 4 four_values = Inr b \<and> rearranged {1..4 + 1} four_values b"
proof -
  have "\<not> (case sort_table 20 not_strict 4 four_values of Inl _ \<Rightarrow> True | Inr _ \<Rightarrow> False)" by code_simp
  then obtain b where "sort_table 20 not_strict 4 four_values = Inr b" by (auto split: sum.splits)
  then show ?thesis using sort_only_exchanges by blast
qed

text \<open>C32: an inconsistent comparison can move an element out of the table without being noticed.
  The test for it comes after the comparison with the element behind the last one, so the scan
  from below may end there, and the exchange of the pivot then writes there: the sort of four
  values returns normally with a nil among them and one value at index 5.\<close>

theorem sort_moves_out:
  "\<exists>b. sort_table 20 not_strict 4 four_values = Inr b \<and> b 2 = None \<and> b 5 = Some 2 \<and> four_values 5 = None"
proof -
  have "case sort_table 20 not_strict 4 four_values of Inl _ \<Rightarrow> False | Inr b \<Rightarrow> b 2 = None \<and> b 5 = Some 2" by code_simp
  then show ?thesis by (auto simp: four_values_def split: sum.splits)
qed

end
