(* ===== verification/LPattern.thy ===== *)
theory LPattern
  imports LStr StateRes LObject
begin

text \<open>
  The pattern matching of \<open>lstrlib.c\<close>. A pointer into the subject or the pattern is its offset;
  both strings end with a zero byte, which may be read, and reading behind it is \<open>Undefined\<close>.
  The subject and the pattern do not change during a match and are parameters; what \<open>MatchState\<close>
  keeps besides them are the captures.
\<close>

section \<open>Captures\<close>

definition LUA_MAXCAPTURES :: nat where "LUA_MAXCAPTURES = 32"
definition CAP_UNFINISHED :: int where "CAP_UNFINISHED = - 1"
definition CAP_POSITION :: int where "CAP_POSITION = - 2"
definition L_ESC :: byte where "L_ESC = 37"

record MatchState =
  ms_level :: nat
  ms_capture :: "(nat \<times> int) list"

type_synonym matcher = "nat \<Rightarrow> MatchState \<Rightarrow> (nat option \<times> MatchState) res"

definition pat_error :: "string \<Rightarrow> 'a res" where
  "pat_error msg = Inl (ErrRun msg)"

text \<open>A byte of a string with its terminating zero.\<close>

definition str_at :: "byte list \<Rightarrow> nat \<Rightarrow> byte res" where
  "str_at P p = (if p < length P then Inr (P ! p) else if p = length P then Inr 0 else Inl Undefined)"

lemma str_at_le: "str_at P p = Inr c \<Longrightarrow> p \<le> length P"
  by (auto simp: str_at_def split: if_splits)

lemma str_at_less: "str_at P p = Inr c \<Longrightarrow> c \<noteq> 0 \<Longrightarrow> p < length P"
  by (auto simp: str_at_def split: if_splits)

definition check_capture :: "MatchState \<Rightarrow> byte \<Rightarrow> nat res" where
  "check_capture ms l =
     (let i = uint l - 49
      in if i < 0 \<or> i \<ge> int (ms_level ms) \<or> snd (ms_capture ms ! nat i) = CAP_UNFINISHED
         then pat_error ''invalid capture index'' else Inr (nat i))"

fun last_unfinished :: "MatchState \<Rightarrow> nat \<Rightarrow> nat option" where
  "last_unfinished ms 0 = None"
| "last_unfinished ms (Suc l) = (if snd (ms_capture ms ! l) = CAP_UNFINISHED then Some l else last_unfinished ms l)"

definition capture_to_close :: "MatchState \<Rightarrow> nat res" where
  "capture_to_close ms =
     (case last_unfinished ms (ms_level ms) of None \<Rightarrow> pat_error ''invalid pattern capture'' | Some l \<Rightarrow> Inr l)"

section \<open>Character classes\<close>

text \<open>The end of a set: the \<open>do\<close> loop of \<open>classend\<close>.\<close>

definition set_step :: "byte list \<Rightarrow> nat \<Rightarrow> nat res" where
  "set_step P p =
     rbind (str_at P p) (\<lambda>c.
       if c = 0 then pat_error ''malformed pattern (missing ])''
       else if c = L_ESC then rbind (str_at P (p + 1)) (\<lambda>d. Inr (if d \<noteq> 0 then p + 2 else p + 1))
       else Inr (p + 1))"

lemma set_step_bounds: "set_step P p = Inr q \<Longrightarrow> p < q \<and> q \<le> length P"
  by (auto simp: set_step_def rbind_Inr_iff pat_error_def dest!: str_at_less split: if_splits)

function set_end :: "byte list \<Rightarrow> nat \<Rightarrow> nat res" where
  "set_end P p =
     rbind (set_step P p) (\<lambda>q. rbind (str_at P q) (\<lambda>e. if e = 93 then Inr (q + 1) else set_end P q))"
  by pat_completeness auto
termination
  by (relation "measure (\<lambda>(P, p). length P - p)") (auto dest!: set_step_bounds)

declare set_end.simps [simp del]

definition classend :: "byte list \<Rightarrow> nat \<Rightarrow> nat res" where
  "classend P p =
     rbind (str_at P p) (\<lambda>c.
       if c = L_ESC
       then rbind (str_at P (p + 1)) (\<lambda>d. if d = 0 then pat_error ''malformed pattern (ends with %)'' else Inr (p + 2))
       else if c = 91 then rbind (str_at P (p + 1)) (\<lambda>d. set_end P (if d = 94 then p + 2 else p + 1))
       else Inr (p + 1))"

definition match_class :: "byte \<Rightarrow> byte \<Rightarrow> bool" where
  "match_class b bl =
     (let c = uint b; cl = uint bl; k = tolower cl; sig = (\<lambda>r. if islower cl then r else \<not> r)
      in if k = 97 then sig (isalpha c)
         else if k = 99 then sig (iscntrl c)
         else if k = 100 then sig (isdigit c)
         else if k = 108 then sig (islower c)
         else if k = 112 then sig (ispunct c)
         else if k = 115 then sig (isspace c)
         else if k = 117 then sig (isupper c)
         else if k = 119 then sig (isalnum c)
         else if k = 120 then sig (isxdigit c)
         else if k = 122 then sig (c = 0)
         else cl = c)"

function bracket_loop :: "byte list \<Rightarrow> byte \<Rightarrow> bool \<Rightarrow> nat \<Rightarrow> nat \<Rightarrow> bool res" where
  "bracket_loop P c sig ec p =
     (if p + 1 < ec
      then rbind (str_at P (p + 1)) (\<lambda>x.
        if x = L_ESC
        then rbind (str_at P (p + 2)) (\<lambda>cl. if match_class c cl then Inr sig else bracket_loop P c sig ec (p + 2))
        else rbind (str_at P (p + 2)) (\<lambda>d.
          if d = 45 \<and> p + 3 < ec
          then rbind (str_at P (p + 3)) (\<lambda>hi. if x \<le> c \<and> c \<le> hi then Inr sig else bracket_loop P c sig ec (p + 3))
          else if x = c then Inr sig else bracket_loop P c sig ec (p + 1)))
      else Inr (\<not> sig))"
  by pat_completeness auto
termination by (relation "measure (\<lambda>(P, c, sig, ec, p). ec - p)") auto

declare bracket_loop.simps [simp del]

definition matchbracketclass :: "byte list \<Rightarrow> byte \<Rightarrow> nat \<Rightarrow> nat \<Rightarrow> bool res" where
  "matchbracketclass P c p ec =
     rbind (str_at P (p + 1)) (\<lambda>d. if d = 94 then bracket_loop P c False ec (p + 1) else bracket_loop P c True ec p)"

definition singlematch :: "byte list \<Rightarrow> byte \<Rightarrow> nat \<Rightarrow> nat \<Rightarrow> bool res" where
  "singlematch P c p ep =
     rbind (str_at P p) (\<lambda>x.
       if x = 46 then Inr True
       else if x = L_ESC then rbind (str_at P (p + 1)) (\<lambda>cl. Inr (match_class c cl))
       else if x = 91 then matchbracketclass P c p (ep - 1)
       else Inr (x = c))"

text \<open>\<open>s < ms->src_end && singlematch (...)\<close>\<close>

definition single_at :: "byte list \<Rightarrow> byte list \<Rightarrow> nat \<Rightarrow> nat \<Rightarrow> nat \<Rightarrow> bool res" where
  "single_at S P s p ep = (if s < length S then rbind (str_at S s) (\<lambda>c. singlematch P c p ep) else Inr False)"

section \<open>Items\<close>

function balance_loop :: "byte list \<Rightarrow> byte \<Rightarrow> byte \<Rightarrow> int \<Rightarrow> nat \<Rightarrow> nat option" where
  "balance_loop S b e cont s =
     (if s + 1 < length S
      then if S ! (s + 1) = e
           then (if cont - 1 = 0 then Some (s + 2) else balance_loop S b e (cont - 1) (s + 1))
           else balance_loop S b e (if S ! (s + 1) = b then cont + 1 else cont) (s + 1)
      else None)"
  by pat_completeness auto
termination by (relation "measure (\<lambda>(S, b, e, cont, s). length S - s)") auto

declare balance_loop.simps [simp del]

definition matchbalance :: "byte list \<Rightarrow> byte list \<Rightarrow> nat \<Rightarrow> nat \<Rightarrow> nat option res" where
  "matchbalance S P s p =
     rbind (str_at P p) (\<lambda>b.
       if b = 0 then pat_error ''unbalanced pattern''
       else rbind (str_at P (p + 1)) (\<lambda>e.
         if e = 0 then pat_error ''unbalanced pattern''
         else rbind (str_at S s) (\<lambda>c. Inr (if c \<noteq> b then None else balance_loop S b e 1 s))))"

function count_max :: "byte list \<Rightarrow> byte list \<Rightarrow> nat \<Rightarrow> nat \<Rightarrow> nat \<Rightarrow> nat \<Rightarrow> nat res" where
  "count_max S P s p ep i =
     rbind (single_at S P (s + i) p ep) (\<lambda>b. if b then count_max S P s p ep (i + 1) else Inr i)"
  by pat_completeness auto
termination
  by (relation "measure (\<lambda>(S, P, s, p, ep, i). length S - (s + i))") (auto simp: single_at_def split: if_splits)

declare count_max.simps [simp del]

text \<open>The functions that call \<open>match\<close> again take it as a parameter, applied to the rest of the
  pattern. \<open>try_down\<close> is the second loop of \<open>max_expand\<close>.\<close>

fun try_down :: "matcher \<Rightarrow> nat \<Rightarrow> nat \<Rightarrow> MatchState \<Rightarrow> (nat option \<times> MatchState) res" where
  "try_down m s 0 ms = m s ms"
| "try_down m s (Suc i) ms =
     rbind (m (s + Suc i) ms) (\<lambda>(res, ms). if res \<noteq> None then Inr (res, ms) else try_down m s i ms)"

definition max_expand :: "matcher \<Rightarrow> byte list \<Rightarrow> byte list \<Rightarrow> nat \<Rightarrow> nat \<Rightarrow> matcher" where
  "max_expand m S P p ep s ms = rbind (count_max S P s p ep 0) (\<lambda>i. try_down m s i ms)"

function min_expand :: "matcher \<Rightarrow> byte list \<Rightarrow> byte list \<Rightarrow> nat \<Rightarrow> nat \<Rightarrow> matcher" where
  "min_expand m S P p ep s ms =
     rbind (m s ms) (\<lambda>(res, ms).
       if res \<noteq> None then Inr (res, ms)
       else rbind (single_at S P s p ep) (\<lambda>b. if b then min_expand m S P p ep (s + 1) ms else Inr (None, ms)))"
  by pat_completeness auto
termination
  by (relation "measure (\<lambda>(m, S, P, p, ep, s, ms). length S - s)") (auto simp: single_at_def split: if_splits)

declare min_expand.simps [simp del]

definition start_capture :: "matcher \<Rightarrow> int \<Rightarrow> matcher" where
  "start_capture m what s ms =
     (let level = ms_level ms
      in if level \<ge> LUA_MAXCAPTURES then pat_error ''too many captures''
         else rbind (m s (ms\<lparr>ms_capture := (ms_capture ms)[level := (s, what)], ms_level := level + 1\<rparr>)) (\<lambda>(res, ms).
           Inr (res, if res = None then ms\<lparr>ms_level := ms_level ms - 1\<rparr> else ms)))"

definition set_len :: "nat \<Rightarrow> int \<Rightarrow> MatchState \<Rightarrow> MatchState" where
  "set_len l len ms = ms\<lparr>ms_capture := (ms_capture ms)[l := (fst (ms_capture ms ! l), len)]\<rparr>"

definition end_capture :: "matcher \<Rightarrow> matcher" where
  "end_capture m s ms =
     rbind (capture_to_close ms) (\<lambda>l.
       rbind (m s (set_len l (int s - int (fst (ms_capture ms ! l))) ms)) (\<lambda>(res, ms).
         Inr (res, if res = None then set_len l CAP_UNFINISHED ms else ms)))"

text \<open>A negative length is a huge \<open>size_t\<close>.\<close>

definition match_capture :: "byte list \<Rightarrow> nat \<Rightarrow> byte \<Rightarrow> MatchState \<Rightarrow> nat option res" where
  "match_capture S s l ms =
     rbind (check_capture ms l) (\<lambda>l.
       let (init, len) = ms_capture ms ! l
       in if len < 0 \<or> int (length S) - int s < len then Inr None
          else if length S < init + nat len then Inl Undefined
          else Inr (if take (nat len) (drop init S) = take (nat len) (drop s S) then Some (s + nat len) else None))"

section \<open>The matcher\<close>

lemma set_end_greater: "set_end P p = Inr ep \<Longrightarrow> p < ep"
proof (induction P p rule: set_end.induct)
  case (1 P p)
  from 1(2) obtain q e where q: "set_step P p = Inr q" "str_at P q = Inr e" "if e = 93 then ep = q + 1 else set_end P q = Inr ep"
    unfolding set_end.simps [of P p] rbind_Inr_iff by (auto split: if_splits)
  then show ?case using 1(1) [OF q(1,2)] set_step_bounds [OF q(1)] by (auto split: if_splits)
qed

lemma classend_greater: "classend P p = Inr ep \<Longrightarrow> p < ep"
  by (auto simp: classend_def rbind_Inr_iff pat_error_def dest!: set_end_greater split: if_splits)

text \<open>The character after the current one is looked at for the three that need it.\<close>

definition peek :: "byte list \<Rightarrow> nat \<Rightarrow> byte \<Rightarrow> byte res" where
  "peek P p c = (if c = 40 \<or> c = L_ESC \<or> c = 36 then str_at P (p + 1) else Inr 0)"

definition frontier :: "byte list \<Rightarrow> byte list \<Rightarrow> nat \<Rightarrow> nat \<Rightarrow> nat \<Rightarrow> bool res" where
  "frontier S P s p ep =
     rbind (if s = 0 then Inr 0 else str_at S (s - 1)) (\<lambda>previous.
     rbind (matchbracketclass P previous p (ep - 1)) (\<lambda>a.
       if a then Inr False
       else rbind (str_at S s) (\<lambda>c. matchbracketclass P c p (ep - 1))))"

function match :: "byte list \<Rightarrow> byte list \<Rightarrow> nat \<Rightarrow> nat \<Rightarrow> MatchState \<Rightarrow> (nat option \<times> MatchState) res" where
  "match S P s p ms =
     rbind (str_at P p) (\<lambda>c. rbind (peek P p c) (\<lambda>d.
       if c = 40 then
         if d = 41 then start_capture (\<lambda>s. match S P s (p + 2)) CAP_POSITION s ms
         else start_capture (\<lambda>s. match S P s (p + 1)) CAP_UNFINISHED s ms
       else if c = 41 then end_capture (\<lambda>s. match S P s (p + 1)) s ms
       else if c = L_ESC \<and> d = 98 then
         rbind (matchbalance S P s (p + 2)) (\<lambda>r.
           case r of None \<Rightarrow> Inr (None, ms) | Some s \<Rightarrow> match S P s (p + 4) ms)
       else if c = L_ESC \<and> d = 102 then
         rbind (str_at P (p + 2)) (\<lambda>b.
           if b \<noteq> 91 then pat_error ''missing [ after %f in pattern''
           else rbind (classend P (p + 2)) (\<lambda>ep. rbind (frontier S P s (p + 2) ep) (\<lambda>ok.
             if ok then match S P s ep ms else Inr (None, ms))))
       else if c = L_ESC \<and> isdigit (uint d) then
         rbind (match_capture S s d ms) (\<lambda>r.
           case r of None \<Rightarrow> Inr (None, ms) | Some s \<Rightarrow> match S P s (p + 2) ms)
       else if c = 0 then Inr (Some s, ms)
       else if c = 36 \<and> d = 0 then Inr (if s = length S then Some s else None, ms)
       else
         rbind (classend P p) (\<lambda>ep. rbind (single_at S P s p ep) (\<lambda>m. rbind (str_at P ep) (\<lambda>e.
           if e = 63 then
             if m then rbind (match S P (s + 1) (ep + 1) ms) (\<lambda>(res, ms).
               if res \<noteq> None then Inr (res, ms) else match S P s (ep + 1) ms)
             else match S P s (ep + 1) ms
           else if e = 42 then max_expand (\<lambda>s. match S P s (ep + 1)) S P p ep s ms
           else if e = 43 then
             if m then max_expand (\<lambda>s. match S P s (ep + 1)) S P p ep (s + 1) ms else Inr (None, ms)
           else if e = 45 then min_expand (\<lambda>s. match S P s (ep + 1)) S P p ep s ms
           else if \<not> m then Inr (None, ms)
           else match S P (s + 1) ep ms)))))"
  by pat_completeness auto
termination
  by (relation "measure (\<lambda>(S, P, s, p, ms). length P + 1 - p)")
    (auto dest!: str_at_le classend_greater split: if_splits)

declare match.simps [simp del]

end
