(* ===== verification/LPatternSafe.thy ===== *)
theory LPatternSafe
  imports LPattern
begin

text \<open>
  The matcher stays inside its strings: whatever the pattern, every access of \<open>match\<close> to the
  pattern, to the subject and to the captures is inside them, a match ends inside the subject, and
  a failed match leaves the captures as they were.
\<close>

section \<open>Runs without undefined accesses\<close>

definition runs_ok :: "'a res \<Rightarrow> ('a \<Rightarrow> bool) \<Rightarrow> bool" where
  "runs_ok r Q \<longleftrightarrow> (case r of Inl e \<Rightarrow> (\<exists>msg. e = ErrRun msg) | Inr x \<Rightarrow> Q x)"

named_theorems runs_ok_intros "rules for runs without undefined accesses"

lemma runs_ok_simps [simp]: "runs_ok (Inr x) Q = Q x" "runs_ok (pat_error msg) Q"
  by (simp_all add: runs_ok_def pat_error_def)

lemma runs_ok_bind: "runs_ok m P \<Longrightarrow> (\<And>x. m = Inr x \<Longrightarrow> P x \<Longrightarrow> runs_ok (f x) Q) \<Longrightarrow> runs_ok (rbind m f) Q"
  by (auto simp: runs_ok_def rbind_def split: sum.splits)

lemma runs_ok_mono: "runs_ok m P \<Longrightarrow> (\<And>x. m = Inr x \<Longrightarrow> P x \<Longrightarrow> Q x) \<Longrightarrow> runs_ok m Q"
  by (auto simp: runs_ok_def split: sum.splits)

lemma runs_ok_if: "(b \<Longrightarrow> runs_ok m Q) \<Longrightarrow> (\<not> b \<Longrightarrow> runs_ok n Q) \<Longrightarrow> runs_ok (if b then m else n) Q"
  by simp

text \<open>What is known of a byte read at \<open>p\<close>: if it is not the terminating zero, \<open>p\<close> is before the end.\<close>

lemma runs_ok_str_at: "p \<le> length P \<Longrightarrow> runs_ok (str_at P p) (\<lambda>c. c \<noteq> 0 \<longrightarrow> p < length P)"
  by (simp add: str_at_def)

lemma runs_ok_read: "p \<le> length P \<Longrightarrow> (\<And>c. c \<noteq> 0 \<longrightarrow> p < length P \<Longrightarrow> runs_ok (f c) Q) \<Longrightarrow> runs_ok (rbind (str_at P p) f) Q"
  by (rule runs_ok_bind [OF runs_ok_str_at])

section \<open>Classes\<close>

lemma esc_nonzero: "L_ESC \<noteq> 0" by (simp add: L_ESC_def)

lemma set_step_ok: "p \<le> length P \<Longrightarrow> runs_ok (set_step P p) (\<lambda>q. p < q \<and> q \<le> length P)"
  unfolding set_step_def by (intro runs_ok_read runs_ok_if) (auto simp: esc_nonzero intro!: runs_ok_read)

lemma set_end_ok: "p \<le> length P \<Longrightarrow> runs_ok (set_end P p) (\<lambda>ep. p + 1 < ep \<and> ep \<le> length P)"
proof (induction P p rule: set_end.induct)
  case (1 P p)
  show ?case
    unfolding set_end.simps [of P p]
  proof (rule runs_ok_bind [OF set_step_ok [OF 1(2)]], rule runs_ok_bind [OF runs_ok_str_at], simp)
    fix q e assume q: "set_step P p = Inr q" "p < q \<and> q \<le> length P" "str_at P q = Inr e" "e \<noteq> 0 \<longrightarrow> q < length P"
    then show "runs_ok (if e = 93 then Inr (q + 1) else set_end P q) (\<lambda>ep. p + 1 < ep \<and> ep \<le> length P)"
      using 1(1) [OF q(1,3)] by (auto elim!: runs_ok_mono)
  qed
qed

lemma classend_ok: "p < length P \<Longrightarrow> runs_ok (classend P p) (\<lambda>ep. p < ep \<and> ep \<le> length P)"
  unfolding classend_def
  by (intro runs_ok_read runs_ok_if) (auto intro!: runs_ok_read intro: runs_ok_mono [OF set_end_ok])

lemma bracket_loop_ok: "ec < length P \<Longrightarrow> runs_ok (bracket_loop P c sig ec p) (\<lambda>_. True)"
proof (induction P c sig ec p rule: bracket_loop.induct)
  case (1 P c sig ec p)
  show ?case
    unfolding bracket_loop.simps [of P c sig ec p]
    by (intro runs_ok_if runs_ok_bind [OF runs_ok_str_at]) (use 1 in auto)
qed

lemma matchbracketclass_ok: "p < length P \<Longrightarrow> ec < length P \<Longrightarrow> runs_ok (matchbracketclass P c p ec) (\<lambda>_. True)"
  unfolding matchbracketclass_def by (intro runs_ok_read runs_ok_if) (auto intro: bracket_loop_ok)

lemma singlematch_ok: "p < ep \<Longrightarrow> ep \<le> length P \<Longrightarrow> runs_ok (singlematch P c p ep) (\<lambda>_. True)"
  unfolding singlematch_def by (intro runs_ok_read runs_ok_if matchbracketclass_ok) auto

lemma single_at_ok: "p < ep \<Longrightarrow> ep \<le> length P \<Longrightarrow> runs_ok (single_at S P s p ep) (\<lambda>b. b \<longrightarrow> s < length S)"
  unfolding single_at_def by (intro runs_ok_if runs_ok_read runs_ok_mono [OF singlematch_ok]) auto

lemma frontier_ok: "s \<le> length S \<Longrightarrow> p < ep \<Longrightarrow> ep \<le> length P \<Longrightarrow> runs_ok (frontier S P s p ep) (\<lambda>_. True)"
  unfolding frontier_def
  by (intro runs_ok_bind [where P = "\<lambda>_. True"] runs_ok_if runs_ok_read matchbracketclass_ok)
    (auto simp: str_at_def)

section \<open>Captures\<close>

text \<open>The captures of a match in progress at \<open>s\<close>: finished ones are inside the subject, unfinished
  ones begin at or before \<open>s\<close>.\<close>

definition capture_ok :: "byte list \<Rightarrow> nat \<times> int \<Rightarrow> bool" where
  "capture_ok S c \<longleftrightarrow> fst c \<le> length S \<and> (snd c < 0 \<longrightarrow> snd c = CAP_UNFINISHED \<or> snd c = CAP_POSITION) \<and>
     (0 \<le> snd c \<longrightarrow> fst c + nat (snd c) \<le> length S)"

definition captures_ok :: "byte list \<Rightarrow> MatchState \<Rightarrow> bool" where
  "captures_ok S ms \<longleftrightarrow> length (ms_capture ms) = LUA_MAXCAPTURES \<and> ms_level ms \<le> LUA_MAXCAPTURES \<and>
     (\<forall>l<ms_level ms. capture_ok S (ms_capture ms ! l))"

definition open_ok :: "nat \<Rightarrow> MatchState \<Rightarrow> bool" where
  "open_ok s ms \<longleftrightarrow> (\<forall>l<ms_level ms. snd (ms_capture ms ! l) = CAP_UNFINISHED \<longrightarrow> fst (ms_capture ms ! l) \<le> s)"

definition same_captures :: "MatchState \<Rightarrow> MatchState \<Rightarrow> bool" where
  "same_captures ms ms' \<longleftrightarrow> ms_level ms' = ms_level ms \<and> length (ms_capture ms') = length (ms_capture ms) \<and>
     (\<forall>l<ms_level ms. ms_capture ms' ! l = ms_capture ms ! l)"

definition match_result :: "byte list \<Rightarrow> nat \<Rightarrow> MatchState \<Rightarrow> nat option \<times> MatchState \<Rightarrow> bool" where
  "match_result S s ms r \<longleftrightarrow> (case r of
     (None, ms') \<Rightarrow> same_captures ms ms'
   | (Some e, ms') \<Rightarrow> s \<le> e \<and> e \<le> length S \<and> captures_ok S ms')"

definition matcher_ok :: "byte list \<Rightarrow> matcher \<Rightarrow> bool" where
  "matcher_ok S m \<longleftrightarrow> (\<forall>s ms. s \<le> length S \<longrightarrow> captures_ok S ms \<longrightarrow> open_ok s ms \<longrightarrow> runs_ok (m s ms) (match_result S s ms))"

lemma matcher_okD:
  "matcher_ok S m \<Longrightarrow> s \<le> length S \<Longrightarrow> captures_ok S ms \<Longrightarrow> open_ok s ms \<Longrightarrow> runs_ok (m s ms) (match_result S s ms)"
  by (simp add: matcher_ok_def)

lemma same_captures_refl [simp]: "same_captures ms ms"
  by (simp add: same_captures_def)

lemma same_captures_trans: "same_captures a b \<Longrightarrow> same_captures b c \<Longrightarrow> same_captures a c"
  by (simp add: same_captures_def)

lemma captures_ok_same: "captures_ok S ms \<Longrightarrow> same_captures ms ms' \<Longrightarrow> captures_ok S ms'"
  by (simp add: captures_ok_def same_captures_def)

lemma open_ok_same: "open_ok s ms \<Longrightarrow> same_captures ms ms' \<Longrightarrow> open_ok s ms'"
  by (simp add: open_ok_def same_captures_def)

lemma open_ok_le: "open_ok s ms \<Longrightarrow> s \<le> t \<Longrightarrow> open_ok t ms"
  unfolding open_ok_def by (meson le_trans)

lemma match_result_later:
  "match_result S t ms' r \<Longrightarrow> s \<le> t \<Longrightarrow> same_captures ms ms' \<Longrightarrow> match_result S s ms r"
  by (auto simp: match_result_def intro: same_captures_trans split: option.splits)

text \<open>A second attempt after a failed one.\<close>

lemma runs_ok_retry:
  assumes "runs_ok m (match_result S s ms)"
    and "\<And>ms'. m = Inr (None, ms') \<Longrightarrow> same_captures ms ms' \<Longrightarrow> runs_ok (n ms') (match_result S s ms)"
  shows "runs_ok (rbind m (\<lambda>(res, ms). if res \<noteq> None then Inr (res, ms) else n ms)) (match_result S s ms)"
proof (rule runs_ok_bind [OF assms(1)])
  fix r assume r: "m = Inr r" "match_result S s ms r"
  obtain res ms' where e: "r = (res, ms')" by fastforce
  show "runs_ok (case r of (res, ms) \<Rightarrow> if res \<noteq> None then Inr (res, ms) else n ms) (match_result S s ms)"
  proof (cases res)
    case None
    then have "same_captures ms ms'" using r e by (simp add: match_result_def)
    then show ?thesis using assms(2) r(1) e None by simp
  qed (use r e in simp)
qed

lemma count_max_ok:
  "p < ep \<Longrightarrow> ep \<le> length P \<Longrightarrow> s + i \<le> length S \<Longrightarrow> runs_ok (count_max S P s p ep i) (\<lambda>j. s + j \<le> length S)"
proof (induction S P s p ep i rule: count_max.induct)
  case (1 S P s p ep i)
  show ?case
    unfolding count_max.simps [of S P s p ep i]
  proof (rule runs_ok_bind [OF single_at_ok [OF 1(2,3)]], rule runs_ok_if)
    fix b assume "single_at S P (s + i) p ep = Inr b" "b \<longrightarrow> s + i < length S" b
    then show "runs_ok (count_max S P s p ep (i + 1)) (\<lambda>j. s + j \<le> length S)" using 1 by simp
  qed (use 1(4) in simp)
qed

lemma try_down_ok:
  "matcher_ok S m \<Longrightarrow> s + i \<le> length S \<Longrightarrow> captures_ok S ms \<Longrightarrow> open_ok s ms \<Longrightarrow> runs_ok (try_down m s i ms) (match_result S s ms)"
proof (induction i arbitrary: ms)
  case 0
  then show ?case by (simp add: matcher_okD)
next
  case (Suc i)
  show ?case
    unfolding try_down.simps
  proof (rule runs_ok_retry)
    show "runs_ok (m (s + Suc i) ms) (match_result S s ms)"
      using Suc.prems by (intro runs_ok_mono [OF matcher_okD]) (auto intro: open_ok_le match_result_later)
    show "runs_ok (try_down m s i ms') (match_result S s ms)" if "same_captures ms ms'" for ms'
      using Suc that by (intro runs_ok_mono [OF Suc.IH]) (auto intro: captures_ok_same open_ok_same match_result_later)
  qed
qed

lemma max_expand_ok:
  "matcher_ok S m \<Longrightarrow> p < ep \<Longrightarrow> ep \<le> length P \<Longrightarrow> matcher_ok S (max_expand m S P p ep)"
  unfolding matcher_ok_def [of S "max_expand m S P p ep"] max_expand_def
  by (intro allI impI runs_ok_bind [OF count_max_ok] try_down_ok) auto

lemma min_expand_ok:
  "matcher_ok S m \<Longrightarrow> p < ep \<Longrightarrow> ep \<le> length P \<Longrightarrow> s \<le> length S \<Longrightarrow> captures_ok S ms \<Longrightarrow> open_ok s ms \<Longrightarrow>
    runs_ok (min_expand m S P p ep s ms) (match_result S s ms)"
proof (induction m S P p ep s ms rule: min_expand.induct)
  case (1 m S P p ep s ms)
  show ?case
    unfolding min_expand.simps [of m S P p ep s ms]
  proof (rule runs_ok_retry [OF matcher_okD [OF 1(2,5-7)]])
    fix ms'
    assume m: "m s ms = Inr (None, ms')" and same: "same_captures ms ms'"
    note keep = captures_ok_same [OF 1(6) same] open_ok_same [OF 1(7) same]
    show "runs_ok (rbind (single_at S P s p ep) (\<lambda>b. if b then min_expand m S P p ep (s + 1) ms' else Inr (None, ms'))) (match_result S s ms)"
    proof (rule runs_ok_bind [OF single_at_ok [OF 1(3,4)]], rule runs_ok_if)
      fix b assume b: "single_at S P s p ep = Inr b" "b \<longrightarrow> s < length S" b
      then have "runs_ok (min_expand m S P p ep (s + 1) ms') (match_result S (s + 1) ms')"
        using 1(1) [OF m refl _ b(1)] 1(2-4) keep open_ok_le [OF keep(2), of "s + 1"] by simp
      then show "runs_ok (min_expand m S P p ep (s + 1) ms') (match_result S s ms)"
        by (rule runs_ok_mono) (auto intro: match_result_later [OF _ _ same])
    qed (use same in \<open>simp add: match_result_def\<close>)
  qed
qed

lemma start_capture_ok:
  assumes "matcher_ok S m" and "what = CAP_UNFINISHED \<or> what = CAP_POSITION"
  shows "matcher_ok S (start_capture m what)"
  unfolding matcher_ok_def
proof (intro allI impI)
  fix s ms assume h: "s \<le> length S" "captures_ok S ms" "open_ok s ms"
  let ?l = "ms_level ms"
  let ?ms = "ms\<lparr>ms_capture := (ms_capture ms)[?l := (s, what)], ms_level := ?l + 1\<rparr>"
  show "runs_ok (start_capture m what s ms) (match_result S s ms)"
  proof (cases "?l \<ge> LUA_MAXCAPTURES")
    case False
    have c: "captures_ok S ?ms" "open_ok s ?ms"
      using h assms(2) False
      by (auto simp: captures_ok_def open_ok_def less_Suc_eq capture_ok_def nth_list_update CAP_UNFINISHED_def CAP_POSITION_def)
    have "runs_ok (rbind (m s ?ms) (\<lambda>(res, ms). Inr (res, if res = None then ms\<lparr>ms_level := ms_level ms - 1\<rparr> else ms)))
      (match_result S s ms)"
    proof (rule runs_ok_bind [OF matcher_okD [OF assms(1) h(1) c]])
      fix r assume "match_result S s ?ms r"
      then show "runs_ok (case r of (res, ms) \<Rightarrow> Inr (res, if res = None then ms\<lparr>ms_level := ms_level ms - 1\<rparr> else ms)) (match_result S s ms)"
        by (cases r; cases "fst r") (auto simp: match_result_def same_captures_def less_Suc_eq)
    qed
    then show ?thesis using False by (simp add: start_capture_def Let_def)
  qed (simp add: start_capture_def)
qed

lemma last_unfinished_Some: "last_unfinished ms n = Some l \<Longrightarrow> l < n \<and> snd (ms_capture ms ! l) = CAP_UNFINISHED"
  by (induction n) (auto split: if_splits)

lemma end_capture_ok:
  assumes "matcher_ok S m"
  shows "matcher_ok S (end_capture m)"
  unfolding matcher_ok_def
proof (intro allI impI)
  fix s ms assume h: "s \<le> length S" "captures_ok S ms" "open_ok s ms"
  show "runs_ok (end_capture m s ms) (match_result S s ms)"
  proof (cases "last_unfinished ms (ms_level ms)")
    case None
    then show ?thesis by (simp add: end_capture_def capture_to_close_def pat_error_def runs_ok_def)
  next
    case (Some l)
    let ?ms = "set_len l (int s - int (fst (ms_capture ms ! l))) ms"
    have l: "l < ms_level ms" "snd (ms_capture ms ! l) = CAP_UNFINISHED" using last_unfinished_Some [OF Some] by auto
    have len: "l < length (ms_capture ms)" using l h(2) by (simp add: captures_ok_def)
    have "fst (ms_capture ms ! l) \<le> s" using h(3) l by (simp add: open_ok_def)
    then have c: "captures_ok S ?ms" "open_ok s ?ms"
      using h len by (auto simp: captures_ok_def open_ok_def set_len_def nth_list_update capture_ok_def CAP_UNFINISHED_def nat_diff_distrib)
    have "runs_ok (rbind (m s ?ms) (\<lambda>(res, ms). Inr (res, if res = None then set_len l CAP_UNFINISHED ms else ms))) (match_result S s ms)"
    proof (rule runs_ok_bind [OF matcher_okD [OF assms h(1) c]])
      fix r assume r: "match_result S s ?ms r"
      have "ms_capture ms ! l = (fst (ms_capture ms ! l), CAP_UNFINISHED)" using l(2) by (metis prod.collapse)
      then show "runs_ok (case r of (res, ms) \<Rightarrow> Inr (res, if res = None then set_len l CAP_UNFINISHED ms else ms)) (match_result S s ms)"
        using r l len by (cases r; cases "fst r") (auto simp: match_result_def same_captures_def set_len_def nth_list_update)
    qed
    then show ?thesis using Some by (simp add: end_capture_def capture_to_close_def)
  qed
qed

lemma match_capture_ok:
  assumes "s \<le> length S" and "captures_ok S ms"
  shows "runs_ok (match_capture S s l ms) (\<lambda>r. \<forall>e. r = Some e \<longrightarrow> s \<le> e \<and> e \<le> length S)"
  unfolding match_capture_def
proof (rule runs_ok_bind [where P = "\<lambda>i. i < ms_level ms"])
  show "runs_ok (check_capture ms l) (\<lambda>i. i < ms_level ms)" by (auto simp: check_capture_def Let_def)
  fix i assume i: "i < ms_level ms"
  obtain init len where c: "ms_capture ms ! i = (init, len)" by fastforce
  then have "0 \<le> len \<longrightarrow> init + nat len \<le> length S" using assms(2) i by (auto simp: captures_ok_def capture_ok_def)
  then show "runs_ok (let (init, len) = ms_capture ms ! i
        in if len < 0 \<or> int (length S) - int s < len then Inr None
           else if length S < init + nat len then Inl Undefined
           else Inr (if take (nat len) (drop init S) = take (nat len) (drop s S) then Some (s + nat len) else None))
      (\<lambda>r. \<forall>e. r = Some e \<longrightarrow> s \<le> e \<and> e \<le> length S)"
    using assms(1) by (auto simp: c Let_def)
qed

lemma balance_loop_bounds: "balance_loop S b e cont s = Some r \<Longrightarrow> s < r \<and> r \<le> length S"
proof (induction S b e cont s rule: balance_loop.induct)
  case (1 S b e cont s)
  from 1(3) show ?case
    unfolding balance_loop.simps [of S b e cont s] using 1(1,2) by (force split: if_splits)
qed

lemma matchbalance_ok:
  "s \<le> length S \<Longrightarrow> p \<le> length P \<Longrightarrow>
    runs_ok (matchbalance S P s p) (\<lambda>r. p + 2 \<le> length P \<and> (\<forall>e. r = Some e \<longrightarrow> s \<le> e \<and> e \<le> length S))"
  unfolding matchbalance_def
  by (intro runs_ok_read runs_ok_if) (auto dest: balance_loop_bounds)

section \<open>The matcher\<close>

lemma peek_ok: "c \<noteq> 0 \<longrightarrow> p < length P \<Longrightarrow> runs_ok (peek P p c) (\<lambda>d. d \<noteq> 0 \<longrightarrow> p + 1 < length P)"
  unfolding peek_def by (intro runs_ok_if runs_ok_mono [OF runs_ok_str_at]) (auto simp: L_ESC_def)

lemma match_ok: "p \<le> length P \<Longrightarrow> matcher_ok S (\<lambda>s. match S P s p)"
proof (induction "length P - p" arbitrary: p rule: less_induct)
  case less
  have IH: "matcher_ok S (\<lambda>s. match S P s q)" if "p < q" "q \<le> length P" for q
    by (rule less.hyps) (use that in auto)
  show ?case
    unfolding matcher_ok_def
  proof (intro allI impI)
    fix s ms assume s: "s \<le> length S" and c: "captures_ok S ms" "open_ok s ms"
    have next_ok: "runs_ok (match S P t q ms) (match_result S s ms)" if "p < q" "q \<le> length P" "s \<le> t" "t \<le> length S" for q t
      by (rule runs_ok_mono [OF matcher_okD [OF IH [OF that(1,2)] that(4) c(1) open_ok_le [OF c(2) that(3)]]])
        (use that(3) in \<open>auto intro: match_result_later\<close>)
    have opt_ok: "runs_ok (case r of None \<Rightarrow> Inr (None, ms) | Some t \<Rightarrow> match S P t q ms) (match_result S s ms)"
      if "p < q" "q \<le> length P" "\<forall>t. r = Some t \<longrightarrow> s \<le> t \<and> t \<le> length S" for q r
      using that next_ok by (auto simp: match_result_def split: option.split)
    have item: "runs_ok (rbind (classend P p) (\<lambda>ep. rbind (single_at S P s p ep) (\<lambda>m. rbind (str_at P ep) (\<lambda>e.
           if e = 63 then
             if m then rbind (match S P (s + 1) (ep + 1) ms) (\<lambda>(res, ms).
               if res \<noteq> None then Inr (res, ms) else match S P s (ep + 1) ms)
             else match S P s (ep + 1) ms
           else if e = 42 then max_expand (\<lambda>s. match S P s (ep + 1)) S P p ep s ms
           else if e = 43 then
             if m then max_expand (\<lambda>s. match S P s (ep + 1)) S P p ep (s + 1) ms else Inr (None, ms)
           else if e = 45 then min_expand (\<lambda>s. match S P s (ep + 1)) S P p ep s ms
           else if \<not> m then Inr (None, ms)
           else match S P (s + 1) ep ms)))) (match_result S s ms)" if p: "p < length P"
    proof (rule runs_ok_bind [OF classend_ok [OF p]], rule runs_ok_bind [OF single_at_ok], simp, simp,
        rule runs_ok_bind [OF runs_ok_str_at], simp)
      fix ep m and e :: byte
      assume ep: "p < ep \<and> ep \<le> length P" and m: "m \<longrightarrow> s < length S" and e: "e \<noteq> 0 \<longrightarrow> ep < length P"
      have ex: "runs_ok (max_expand (\<lambda>s. match S P s (ep + 1)) S P p ep t ms) (match_result S s ms)"
        if "ep < length P" "s \<le> t" "t \<le> length S" for t
        by (rule runs_ok_mono [OF matcher_okD [OF max_expand_ok [OF IH] that(3) c(1) open_ok_le [OF c(2) that(2)]]])
          (use that ep in \<open>auto intro: match_result_later\<close>)
      have mn: "runs_ok (min_expand (\<lambda>s. match S P s (ep + 1)) S P p ep s ms) (match_result S s ms)" if "ep < length P"
        by (rule min_expand_ok [OF IH]) (use that ep s c in auto)
      have opt: "runs_ok (rbind (match S P (s + 1) (ep + 1) ms) (\<lambda>(res, ms).
               if res \<noteq> None then Inr (res, ms) else match S P s (ep + 1) ms)) (match_result S s ms)" if "ep < length P" "m"
      proof (rule runs_ok_retry)
        show "runs_ok (match S P (s + 1) (ep + 1) ms) (match_result S s ms)" using next_ok that ep m by simp
        fix ms' assume same: "same_captures ms ms'"
        have "runs_ok (match S P s (ep + 1) ms') (match_result S s ms')"
          by (rule matcher_okD [OF IH]) (use that ep s captures_ok_same [OF c(1) same] open_ok_same [OF c(2) same] in auto)
        then show "runs_ok (match S P s (ep + 1) ms') (match_result S s ms)"
          by (rule runs_ok_mono) (use same in \<open>auto intro: match_result_later\<close>)
      qed
      show "runs_ok (if e = 63 then if m then rbind (match S P (s + 1) (ep + 1) ms) (\<lambda>(res, ms).
               if res \<noteq> None then Inr (res, ms) else match S P s (ep + 1) ms)
             else match S P s (ep + 1) ms
           else if e = 42 then max_expand (\<lambda>s. match S P s (ep + 1)) S P p ep s ms
           else if e = 43 then
             if m then max_expand (\<lambda>s. match S P s (ep + 1)) S P p ep (s + 1) ms else Inr (None, ms)
           else if e = 45 then min_expand (\<lambda>s. match S P s (ep + 1)) S P p ep s ms
           else if \<not> m then Inr (None, ms)
           else match S P (s + 1) ep ms) (match_result S s ms)"
        using opt ex mn next_ok ep m e s by (intro runs_ok_if) (simp_all add: match_result_def)
    qed
    show "runs_ok (match S P s p ms) (match_result S s ms)"
      unfolding match.simps [of S P s p ms]
    proof (rule runs_ok_bind [OF runs_ok_str_at [OF less.prems]], rule runs_ok_bind [OF peek_ok], assumption)
      fix x d :: byte
      assume x: "x \<noteq> 0 \<longrightarrow> p < length P" and d: "d \<noteq> 0 \<longrightarrow> p + 1 < length P"
      have start: "runs_ok (start_capture (\<lambda>s. match S P s q) what s ms) (match_result S s ms)"
        if "p < q" "q \<le> length P" "what = CAP_UNFINISHED \<or> what = CAP_POSITION" for q what
        by (rule matcher_okD [OF start_capture_ok [OF IH [OF that(1,2)] that(3)] s c])
      have fin: "runs_ok (end_capture (\<lambda>s. match S P s (p + 1)) s ms) (match_result S s ms)" if "p < length P"
        by (rule matcher_okD [OF end_capture_ok [OF IH] s c]) (use that in auto)
      show "runs_ok (if x = 40 then
         if d = 41 then start_capture (\<lambda>s. match S P s (p + 2)) CAP_POSITION s ms
         else start_capture (\<lambda>s. match S P s (p + 1)) CAP_UNFINISHED s ms
       else if x = 41 then end_capture (\<lambda>s. match S P s (p + 1)) s ms
       else if x = L_ESC \<and> d = 98 then
         rbind (matchbalance S P s (p + 2)) (\<lambda>r.
           case r of None \<Rightarrow> Inr (None, ms) | Some s \<Rightarrow> match S P s (p + 4) ms)
       else if x = L_ESC \<and> d = 102 then
         rbind (str_at P (p + 2)) (\<lambda>b.
           if b \<noteq> 91 then pat_error ''missing [ after %f in pattern''
           else rbind (classend P (p + 2)) (\<lambda>ep. rbind (frontier S P s (p + 2) ep) (\<lambda>ok.
             if ok then match S P s ep ms else Inr (None, ms))))
       else if x = L_ESC \<and> isdigit (uint d) then
         rbind (match_capture S s d ms) (\<lambda>r.
           case r of None \<Rightarrow> Inr (None, ms) | Some s \<Rightarrow> match S P s (p + 2) ms)
       else if x = 0 then Inr (Some s, ms)
       else if x = 36 \<and> d = 0 then Inr (if s = length S then Some s else None, ms)
       else
         rbind (classend P p) (\<lambda>ep. rbind (single_at S P s p ep) (\<lambda>m. rbind (str_at P ep) (\<lambda>e.
           if e = 63 then
             if m then rbind (match S P (s + 1) (ep + 1) ms) (\<lambda>(res, ms).
               if res \<noteq> None then Inr (res, ms) else match S P s (ep + 1) ms)
             else match S P s (ep + 1) ms
           else if e = 42 then max_expand (\<lambda>s. match S P s (ep + 1)) S P p ep s ms
           else if e = 43 then
             if m then max_expand (\<lambda>s. match S P s (ep + 1)) S P p ep (s + 1) ms else Inr (None, ms)
           else if e = 45 then min_expand (\<lambda>s. match S P s (ep + 1)) S P p ep s ms
           else if \<not> m then Inr (None, ms)
           else match S P (s + 1) ep ms)))) (match_result S s ms)"
      proof (intro runs_ok_if)
        assume b: "x = L_ESC \<and> d = 98"
        then have "p + 2 \<le> length P" using d by simp
        then show "runs_ok (rbind (matchbalance S P s (p + 2)) (\<lambda>r. case r of None \<Rightarrow> Inr (None, ms) | Some s \<Rightarrow> match S P s (p + 4) ms)) (match_result S s ms)"
          by (intro runs_ok_bind [OF matchbalance_ok [OF s]] opt_ok) auto
      next
        assume b: "x = L_ESC \<and> d = 102"
        then have "p + 2 \<le> length P" using d by simp
        then show "runs_ok (rbind (str_at P (p + 2)) (\<lambda>b.
           if b \<noteq> 91 then pat_error ''missing [ after %f in pattern''
           else rbind (classend P (p + 2)) (\<lambda>ep. rbind (frontier S P s (p + 2) ep) (\<lambda>ok.
             if ok then match S P s ep ms else Inr (None, ms))))) (match_result S s ms)"
          by (intro runs_ok_read runs_ok_if runs_ok_bind [OF classend_ok] runs_ok_bind [OF frontier_ok [OF s]] next_ok)
            (use s in \<open>auto simp: match_result_def\<close>)
      next
        assume b: "x = L_ESC \<and> isdigit (uint d)"
        then have "d \<noteq> 0" by (auto simp: isdigit_def)
        then have "p + 2 \<le> length P" using d by simp
        then show "runs_ok (rbind (match_capture S s d ms) (\<lambda>r. case r of None \<Rightarrow> Inr (None, ms) | Some s \<Rightarrow> match S P s (p + 2) ms)) (match_result S s ms)"
          by (intro runs_ok_bind [OF match_capture_ok [OF s c(1)]] opt_ok) auto
      qed (use x d start fin item s c in \<open>auto simp: match_result_def\<close>)
    qed
  qed
qed

end
