(* ===== verification/LPatternSpec.thy ===== *)
theory LPatternSpec
  imports LPatternSafe
begin

text \<open>
  What a pattern means: for patterns of character classes with the suffixes \<open>?\<close>, \<open>*\<close>, \<open>+\<close> and \<open>-\<close>,
  without captures, \<open>%b\<close>, \<open>%f\<close> and a final \<open>$\<close>, the backtracking of \<open>match\<close> decides the language
  of the pattern read as a regular expression.
\<close>

datatype suffix = Once | Optional | Star | Plus | Lazy

type_synonym item = "nat \<times> nat \<times> suffix"

text \<open>An item that \<open>match\<close> hands to its default case.\<close>

definition plain_start :: "byte list \<Rightarrow> nat \<Rightarrow> bool" where
  "plain_start P p \<longleftrightarrow> p < length P \<and> P ! p \<notin> {0, 40, 41} \<and>
     (P ! p = L_ESC \<longrightarrow> (\<forall>d. str_at P (p + 1) = Inr d \<longrightarrow> d \<noteq> 98 \<and> d \<noteq> 102 \<and> \<not> isdigit (uint d))) \<and>
     (P ! p = 36 \<longrightarrow> str_at P (p + 1) \<noteq> Inr 0)"

definition suffix_at :: "byte list \<Rightarrow> nat \<Rightarrow> suffix" where
  "suffix_at P ep =
     (if ep \<ge> length P then Once
      else if P ! ep = 63 then Optional else if P ! ep = 42 then Star else if P ! ep = 43 then Plus
      else if P ! ep = 45 then Lazy else Once)"

fun parses :: "byte list \<Rightarrow> nat \<Rightarrow> item list \<Rightarrow> bool" where
  "parses P p [] \<longleftrightarrow> str_at P p = Inr 0"
| "parses P p ((q, ep, k) # is) \<longleftrightarrow> q = p \<and> plain_start P p \<and> classend P p = Inr ep \<and> k = suffix_at P ep \<and>
     parses P (if k = Once then ep else ep + 1) is"

text \<open>The subject from \<open>s\<close> to \<open>e\<close> is in the language of the items.\<close>

fun accepts :: "byte list \<Rightarrow> byte list \<Rightarrow> item list \<Rightarrow> nat \<Rightarrow> nat \<Rightarrow> bool" where
  "accepts S P [] s e \<longleftrightarrow> e = s"
| "accepts S P ((p, ep, k) # is) s e \<longleftrightarrow>
     (\<exists>n. (k = Once \<longrightarrow> n = 1) \<and> (k = Optional \<longrightarrow> n \<le> 1) \<and> (k = Plus \<longrightarrow> 1 \<le> n) \<and>
        (\<forall>i<n. single_at S P (s + i) p ep = Inr True) \<and> accepts S P is (s + n) e)"

section \<open>Total helpers\<close>

lemma str_at_total: "p \<le> length P \<Longrightarrow> \<exists>c. str_at P p = Inr c"
  by (simp add: str_at_def)

lemma bracket_loop_total: "ec < length P \<Longrightarrow> \<exists>b. bracket_loop P c sig ec p = Inr b"
proof (induction P c sig ec p rule: bracket_loop.induct)
  case (1 P c sig ec p)
  show ?case
  proof (cases "p + 1 < ec")
    case True
    obtain x y where xy: "str_at P (p + 1) = Inr x" "str_at P (p + 2) = Inr y"
      using str_at_total [of "p + 1" P] str_at_total [of "p + 2" P] True 1(4) by auto
    show ?thesis
    proof (cases "x = L_ESC")
      case True
      then show ?thesis using 1(1) [OF \<open>p + 1 < ec\<close> xy(1) True xy(2) _ 1(4)] xy \<open>p + 1 < ec\<close>
        by (subst bracket_loop.simps) auto
    next
      case False
      have "\<exists>z. p + 3 < ec \<longrightarrow> str_at P (p + 3) = Inr z" using str_at_total [of "p + 3" P] 1(4) by auto
      then obtain z where z: "p + 3 < ec \<Longrightarrow> str_at P (p + 3) = Inr z" by blast
      show ?thesis
        using 1(2) [OF \<open>p + 1 < ec\<close> xy(1) False xy(2) _ z _ 1(4)] 1(3) [OF \<open>p + 1 < ec\<close> xy(1) False xy(2) _ _ 1(4)]
          False xy z \<open>p + 1 < ec\<close> by (subst bracket_loop.simps) auto
    qed
  qed (subst bracket_loop.simps, simp)
qed

lemma single_at_total: "p < ep \<Longrightarrow> ep \<le> length P \<Longrightarrow> \<exists>b. single_at S P s p ep = Inr b"
proof -
  assume p: "p < ep" "ep \<le> length P"
  obtain x y where xy: "str_at P p = Inr x" "str_at P (p + 1) = Inr y"
    using str_at_total [of p P] str_at_total [of "p + 1" P] p by auto
  have "\<exists>b. matchbracketclass P c p (ep - 1) = Inr b" for c
    unfolding matchbracketclass_def using xy bracket_loop_total [of "ep - 1" P] p by auto
  then have "\<exists>b. singlematch P c p ep = Inr b" for c
    unfolding singlematch_def using xy by auto
  then show ?thesis unfolding single_at_def using str_at_total [of s S] by (auto simp: str_at_def)
qed

section \<open>Repetition\<close>

text \<open>A matcher that never fails with an error, leaves the captures alone, and finds an end exactly
  when there is one.\<close>

definition decides_match :: "byte list \<Rightarrow> matcher \<Rightarrow> (nat \<Rightarrow> nat \<Rightarrow> bool) \<Rightarrow> bool" where
  "decides_match S m Q \<longleftrightarrow> (\<forall>t ms. t \<le> length S \<longrightarrow>
     (\<exists>r. m t ms = Inr (r, ms) \<and> (case r of Some e \<Rightarrow> Q t e | None \<Rightarrow> \<forall>e. \<not> Q t e)))"

lemma decides_matchE:
  assumes "decides_match S m Q" and "t \<le> length S"
  obtains (found) e where "m t ms = Inr (Some e, ms)" "Q t e" | (failed) "m t ms = Inr (None, ms)" "\<And>e. \<not> Q t e"
proof -
  obtain r where "m t ms = Inr (r, ms)" "case r of Some e \<Rightarrow> Q t e | None \<Rightarrow> \<forall>e. \<not> Q t e"
    using assms unfolding decides_match_def by blast
  then show thesis using found failed by (cases r) auto
qed

lemma decides_matchI:
  "(\<And>t ms. t \<le> length S \<Longrightarrow> (\<exists>e. m t ms = Inr (Some e, ms) \<and> Q t e) \<or> m t ms = Inr (None, ms) \<and> (\<forall>e. \<not> Q t e)) \<Longrightarrow>
    decides_match S m Q"
  unfolding decides_match_def
proof (intro allI impI)
  fix t ms
  assume h: "\<And>t ms. t \<le> length S \<Longrightarrow> (\<exists>e. m t ms = Inr (Some e, ms) \<and> Q t e) \<or> m t ms = Inr (None, ms) \<and> (\<forall>e. \<not> Q t e)"
    and t: "t \<le> length S"
  from h [OF t, of ms] show "\<exists>r. m t ms = Inr (r, ms) \<and> (case r of Some e \<Rightarrow> Q t e | None \<Rightarrow> \<forall>e. \<not> Q t e)"
    by (elim disjE exE conjE) (intro exI conjI, assumption, simp)+
qed

definition single :: "byte list \<Rightarrow> byte list \<Rightarrow> nat \<Rightarrow> nat \<Rightarrow> nat \<Rightarrow> bool" where
  "single S P p ep s \<longleftrightarrow> single_at S P s p ep = Inr True"

lemma single_inside: "single S P p ep s \<Longrightarrow> s < length S"
  by (auto simp: single_def single_at_def split: if_splits)

lemma single_at_eq: "p < ep \<Longrightarrow> ep \<le> length P \<Longrightarrow> single_at S P s p ep = Inr (single S P p ep s)"
  using single_at_total [of p ep P S s] by (auto simp: single_def)

definition repeats :: "(nat \<Rightarrow> bool) \<Rightarrow> (nat \<Rightarrow> nat \<Rightarrow> bool) \<Rightarrow> nat \<Rightarrow> nat \<Rightarrow> bool" where
  "repeats one Q t e \<longleftrightarrow> (\<exists>n. (\<forall>k<n. one (t + k)) \<and> Q (t + n) e)"

lemma repeats_unfold: "repeats one Q t e \<longleftrightarrow> Q t e \<or> one t \<and> repeats one Q (t + 1) e"
proof
  assume "repeats one Q t e"
  then obtain n where n: "\<forall>k<n. one (t + k)" "Q (t + n) e" by (auto simp: repeats_def)
  show "Q t e \<or> one t \<and> repeats one Q (t + 1) e"
  proof (cases n)
    case (Suc m)
    then have "one t" "\<forall>k<m. one (t + 1 + k)" "Q (t + 1 + m) e" using n by force+
    then show ?thesis by (auto simp: repeats_def)
  qed (use n in simp)
next
  assume "Q t e \<or> one t \<and> repeats one Q (t + 1) e"
  then show "repeats one Q t e"
  proof (elim disjE conjE)
    assume one: "one t" and "repeats one Q (t + 1) e"
    then obtain n where n: "\<forall>k<n. one (t + 1 + k)" "Q (t + 1 + n) e" by (auto simp: repeats_def)
    have "one (t + k)" if "k < Suc n" for k using n(1) one that by (cases k) auto
    then show ?thesis unfolding repeats_def using n(2) by (intro exI [of _ "Suc n"]) auto
  next
    assume "Q t e"
    then show ?thesis unfolding repeats_def by (intro exI [of _ 0]) simp
  qed
qed

lemma count_max_counts:
  assumes "p < ep" "ep \<le> length P"
  shows "s + i \<le> length S \<Longrightarrow> \<forall>k<i. single S P p ep (s + k) \<Longrightarrow>
    \<exists>n. count_max S P s p ep i = Inr n \<and> s + n \<le> length S \<and> (\<forall>k<n. single S P p ep (s + k)) \<and> \<not> single S P p ep (s + n)"
proof (induction "length S - (s + i)" arbitrary: i rule: less_induct)
  case less
  note step = count_max.simps [of S P s p ep i] single_at_eq [OF assms, of S "s + i"]
  show ?case
  proof (cases "single S P p ep (s + i)")
    case True
    then have "s + i < length S" by (rule single_inside)
    moreover have "\<forall>k<i + 1. single S P p ep (s + k)" using less.prems(2) True by (auto simp: less_Suc_eq)
    ultimately show ?thesis using less.hyps [of "i + 1"] True by (simp add: step)
  next
    case False
    then show ?thesis using less.prems by (simp add: step)
  qed
qed

lemma try_down_decides:
  assumes "decides_match S m Q"
  shows "s + i \<le> length S \<Longrightarrow>
    (\<exists>e j. try_down m s i ms = Inr (Some e, ms) \<and> j \<le> i \<and> Q (s + j) e) \<or> try_down m s i ms = Inr (None, ms) \<and> (\<forall>j\<le>i. \<forall>e. \<not> Q (s + j) e)"
proof (induction i)
  case 0
  then have "s \<le> length S" by simp
  with assms show ?case by (cases rule: decides_matchE [where ms = ms]) auto
next
  case (Suc i)
  show ?case
    using assms Suc.prems
  proof (cases rule: decides_matchE [where ms = ms])
    case (found e)
    then show ?thesis by auto
  next
    case failed
    then show ?thesis using Suc by (auto simp: le_Suc_eq)
  qed
qed

lemma max_expand_decides:
  assumes "decides_match S m Q" and "p < ep" "ep \<le> length P"
  shows "decides_match S (max_expand m S P p ep) (repeats (single S P p ep) Q)"
proof (rule decides_matchI)
  fix t ms assume t: "t \<le> length S"
  obtain n where n: "count_max S P t p ep 0 = Inr n" "t + n \<le> length S" "\<forall>k<n. single S P p ep (t + k)" "\<not> single S P p ep (t + n)"
    using count_max_counts [OF assms(2,3), of t 0 S] t by auto
  have "j \<le> n" if "\<forall>k<j. single S P p ep (t + k)" for j using that n(4) by (meson not_le)
  then have "repeats (single S P p ep) Q t e \<longleftrightarrow> (\<exists>j\<le>n. Q (t + j) e)" for e
    unfolding repeats_def using n(3) by (meson order_less_le_trans)
  then show "(\<exists>e. max_expand m S P p ep t ms = Inr (Some e, ms) \<and> repeats (single S P p ep) Q t e) \<or>
      max_expand m S P p ep t ms = Inr (None, ms) \<and> (\<forall>e. \<not> repeats (single S P p ep) Q t e)"
    using try_down_decides [OF assms(1) n(2), of ms] n(1) by (auto simp: max_expand_def)
qed

lemma min_expand_decides:
  assumes "decides_match S m Q" and "p < ep" "ep \<le> length P"
  shows "decides_match S (min_expand m S P p ep) (repeats (single S P p ep) Q)"
proof (rule decides_matchI)
  fix t ms assume "t \<le> length S"
  then show "(\<exists>e. min_expand m S P p ep t ms = Inr (Some e, ms) \<and> repeats (single S P p ep) Q t e) \<or>
      min_expand m S P p ep t ms = Inr (None, ms) \<and> (\<forall>e. \<not> repeats (single S P p ep) Q t e)"
  proof (induction "length S - t" arbitrary: t rule: less_induct)
    case less
    note step = min_expand.simps [of m S P p ep t ms] single_at_eq [OF assms(2,3), of S t]
    note rep = repeats_unfold [of "single S P p ep" Q t]
    show ?case
      using assms(1) less.prems
    proof (cases rule: decides_matchE [where ms = ms])
      case (found e)
      then show ?thesis using rep by (auto simp: step)
    next
      case failed
      show ?thesis
      proof (cases "single S P p ep t")
        case True
        then have "t < length S" by (rule single_inside)
        then show ?thesis using less.hyps [of "t + 1"] True failed rep by (simp add: step)
      next
        case False
        then show ?thesis using failed rep by (simp add: step)
      qed
    qed
  qed
qed

section \<open>Items\<close>

lemma match_plain:
  assumes "plain_start P p" and "classend P p = Inr ep"
  shows "match S P s p ms =
    rbind (single_at S P s p ep) (\<lambda>m. rbind (str_at P ep) (\<lambda>e.
           if e = 63 then
             if m then rbind (match S P (s + 1) (ep + 1) ms) (\<lambda>(res, ms).
               if res \<noteq> None then Inr (res, ms) else match S P s (ep + 1) ms)
             else match S P s (ep + 1) ms
           else if e = 42 then max_expand (\<lambda>s. match S P s (ep + 1)) S P p ep s ms
           else if e = 43 then
             if m then max_expand (\<lambda>s. match S P s (ep + 1)) S P p ep (s + 1) ms else Inr (None, ms)
           else if e = 45 then min_expand (\<lambda>s. match S P s (ep + 1)) S P p ep s ms
           else if \<not> m then Inr (None, ms)
           else match S P (s + 1) ep ms))"
proof -
  have p: "p < length P" "P ! p \<noteq> 0" "P ! p \<noteq> 40" "P ! p \<noteq> 41" using assms(1) by (auto simp: plain_start_def)
  obtain d where d: "str_at P (p + 1) = Inr d" using str_at_total [of "p + 1" P] p(1) by auto
  have "P ! p = L_ESC \<longrightarrow> d \<noteq> 98 \<and> d \<noteq> 102 \<and> \<not> isdigit (uint d)" "P ! p = 36 \<longrightarrow> d \<noteq> 0"
    using assms(1) d by (auto simp: plain_start_def)
  moreover have "str_at P p = Inr (P ! p)" using p(1) by (simp add: str_at_def)
  moreover have "peek P p (P ! p) = Inr (if P ! p = L_ESC \<or> P ! p = 36 then d else 0)"
    using p d by (auto simp: peek_def)
  ultimately show ?thesis
    using p assms(2) by (subst match.simps) (auto simp: L_ESC_def)
qed

definition accepts_item :: "(nat \<Rightarrow> bool) \<Rightarrow> suffix \<Rightarrow> (nat \<Rightarrow> nat \<Rightarrow> bool) \<Rightarrow> nat \<Rightarrow> nat \<Rightarrow> bool" where
  "accepts_item one k Q s e \<longleftrightarrow> (case k of
     Once \<Rightarrow> one s \<and> Q (s + 1) e
   | Optional \<Rightarrow> Q s e \<or> one s \<and> Q (s + 1) e
   | Star \<Rightarrow> repeats one Q s e
   | Lazy \<Rightarrow> repeats one Q s e
   | Plus \<Rightarrow> one s \<and> repeats one Q (s + 1) e)"

lemma repeats_Plus: "one s \<and> repeats one Q (s + 1) e \<longleftrightarrow> (\<exists>n\<ge>1. (\<forall>i<n. one (s + i)) \<and> Q (s + n) e)"
proof
  assume "one s \<and> repeats one Q (s + 1) e"
  then obtain n where n: "one s" "\<forall>k<n. one (s + 1 + k)" "Q (s + 1 + n) e" by (auto simp: repeats_def)
  have "one (s + k)" if "k < Suc n" for k using n(1,2) that by (cases k) auto
  then show "\<exists>n\<ge>1. (\<forall>i<n. one (s + i)) \<and> Q (s + n) e" using n(3) by (intro exI [of _ "Suc n"]) auto
next
  assume "\<exists>n\<ge>1. (\<forall>i<n. one (s + i)) \<and> Q (s + n) e"
  then obtain m where m: "\<forall>i<Suc m. one (s + i)" "Q (s + Suc m) e" by (metis Suc_le_D One_nat_def)
  then have "one s" "\<forall>k<m. one (s + 1 + k)" by force+
  then show "one s \<and> repeats one Q (s + 1) e" using m(2) unfolding repeats_def by (intro conjI exI [of _ m]) auto
qed

lemma accepts_Cons: "accepts S P ((p, ep, k) # is) s e \<longleftrightarrow> accepts_item (single S P p ep) k (accepts S P is) s e"
proof (cases k)
  case Plus
  then show ?thesis using repeats_Plus [of "single S P p ep" s "accepts S P is" e]
    by (simp add: accepts_item_def single_def)
next
  case Optional
  have "(\<exists>n. n \<le> 1 \<and> R n) \<longleftrightarrow> R 0 \<or> R 1" for R :: "nat \<Rightarrow> bool" by (auto simp: le_Suc_eq)
  from this [of "\<lambda>n. (\<forall>i<n. single_at S P (s + i) p ep = Inr True) \<and> accepts S P is (s + n) e"]
  show ?thesis using Optional by (simp add: accepts_item_def single_def)
qed (simp_all add: accepts_item_def single_def repeats_def)

lemma match_item_decides:
  assumes "plain_start P p" and "classend P p = Inr ep" and "k = suffix_at P ep"
    and m: "decides_match S (\<lambda>s. match S P s (if k = Once then ep else ep + 1)) Q"
  shows "decides_match S (\<lambda>s. match S P s p) (accepts_item (single S P p ep) k Q)"
proof (rule decides_matchI)
  fix t ms assume t: "t \<le> length S"
  have p: "p < length P" using assms(1) by (simp add: plain_start_def)
  have ep: "p < ep" "ep \<le> length P" using classend_ok [OF p] assms(2) by auto
  let ?goal = "(\<exists>e. match S P t p ms = Inr (Some e, ms) \<and> accepts_item (single S P p ep) k Q t e) \<or>
      match S P t p ms = Inr (None, ms) \<and> (\<forall>e. \<not> accepts_item (single S P p ep) k Q t e)"
  note step = match_plain [OF assms(1,2), of S t ms] single_at_eq [OF ep, of S t]
  have inside: "t + 1 \<le> length S" if "single S P p ep t" using single_inside [OF that] by simp
  obtain e where e: "str_at P ep = Inr e" using str_at_total ep(2) by blast
  have once: ?goal if "k = Once"
  proof (cases "single S P p ep t")
    case True
    have "e \<notin> {63, 42, 43, 45}" using that assms(3) e by (auto simp: suffix_at_def str_at_def split: if_splits)
    with m inside [OF True] show ?goal
      by (cases rule: decides_matchE [where ms = ms]) (auto simp: step e True that accepts_item_def)
  next
    case False
    have "e \<notin> {63, 42, 43, 45}" using that assms(3) e by (auto simp: suffix_at_def str_at_def split: if_splits)
    then show ?goal by (auto simp: step e False that accepts_item_def)
  qed
  have optional: ?goal if k: "k = Optional"
  proof -
    have ee: "e = 63" using k assms(3) e by (auto simp: suffix_at_def str_at_def split: if_splits)
    have m': "decides_match S (\<lambda>s. match S P s (ep + 1)) Q" using m k by simp
    show ?goal
      using m' t
    proof (cases rule: decides_matchE [where ms = ms])
      case (found x)
      then show ?goal
      proof (cases "single S P p ep t")
        case True
        with m' inside show ?goal
          by (cases rule: decides_matchE [of S _ Q "t + 1" ms]) (use found True in \<open>auto simp: step e ee k accepts_item_def\<close>)
      qed (use found in \<open>auto simp: step e ee k accepts_item_def\<close>)
    next
      case failed
      then show ?goal
      proof (cases "single S P p ep t")
        case True
        with m' inside show ?goal
          by (cases rule: decides_matchE [of S _ Q "t + 1" ms]) (use failed True in \<open>auto simp: step e ee k accepts_item_def\<close>)
      qed (use failed in \<open>auto simp: step e ee k accepts_item_def\<close>)
    qed
  qed
  have star: ?goal if k: "k = Star"
  proof -
    have ee: "e = 42" using k assms(3) e by (auto simp: suffix_at_def str_at_def split: if_splits)
    have "decides_match S (max_expand (\<lambda>s. match S P s (ep + 1)) S P p ep) (repeats (single S P p ep) Q)"
      using m k by (intro max_expand_decides ep) simp
    then show ?goal using t
      by (cases rule: decides_matchE [where ms = ms]) (auto simp: step e ee k accepts_item_def)
  qed
  have plus: ?goal if k: "k = Plus"
  proof -
    have ee: "e = 43" using k assms(3) e by (auto simp: suffix_at_def str_at_def split: if_splits)
    have x: "decides_match S (max_expand (\<lambda>s. match S P s (ep + 1)) S P p ep) (repeats (single S P p ep) Q)"
      using m k by (intro max_expand_decides ep) simp
    show ?goal
    proof (cases "single S P p ep t")
      case True
      with x inside [OF True] show ?goal
        by (cases rule: decides_matchE [where ms = ms]) (auto simp: step e ee k accepts_item_def)
    qed (auto simp: step e ee k accepts_item_def)
  qed
  have lazy: ?goal if k: "k = Lazy"
  proof -
    have ee: "e = 45" using k assms(3) e by (auto simp: suffix_at_def str_at_def split: if_splits)
    have "decides_match S (min_expand (\<lambda>s. match S P s (ep + 1)) S P p ep) (repeats (single S P p ep) Q)"
      using m k by (intro min_expand_decides ep) simp
    then show ?goal using t
      by (cases rule: decides_matchE [where ms = ms]) (auto simp: step e ee k accepts_item_def)
  qed
  show ?goal
    using once optional star plus lazy by (cases k) simp_all
qed

lemma match_decides: "parses P p is \<Longrightarrow> decides_match S (\<lambda>s. match S P s p) (accepts S P is)"
proof (induction "is" arbitrary: p)
  case Nil
  then show ?case
    by (intro decides_matchI) (subst match.simps, simp add: peek_def L_ESC_def)
next
  case (Cons i "is")
  obtain q ep k where i: "i = (q, ep, k)" by (metis prod.collapse)
  have "decides_match S (\<lambda>s. match S P s (if k = Once then ep else ep + 1)) (accepts S P is)"
    by (rule Cons.IH) (use Cons.prems in \<open>auto simp: i\<close>)
  then have "decides_match S (\<lambda>s. match S P s p) (accepts_item (single S P p ep) k (accepts S P is))"
    using Cons.prems by (intro match_item_decides) (simp_all add: i)
  moreover have "accepts S P (i # is) = accepts_item (single S P p ep) k (accepts S P is)"
    using Cons.prems by (intro ext) (simp add: i accepts_Cons del: accepts.simps)
  ultimately show ?case by simp
qed

section \<open>Property\<close>

text \<open>C38: matching is complete: for a pattern made of single-character items with suffixes, \<open>match\<close> at
  a position of the subject returns without an error; it returns an end only if the subject up
  to there is in the language of the pattern, and no end only if no end is; the captures are
  unchanged.\<close>

theorem match_is_regular:
  assumes "parses P p is" and "s \<le> length S"
  shows "\<exists>r. match S P s p ms = Inr (r, ms) \<and>
    (case r of Some e \<Rightarrow> accepts S P is s e | None \<Rightarrow> \<forall>e. \<not> accepts S P is s e)"
  using match_decides [OF assms(1), of S] assms(2) unfolding decides_match_def by blast

text \<open>The pattern \<open>[^x]*a?b\<close>.\<close>

lemma match_is_regular_witness:
  "\<exists>r. match (bytes ''zzab'') (bytes ''[^x]*a?b'') 0 0 \<lparr>ms_level = 0, ms_capture = []\<rparr> = Inr (r, \<lparr>ms_level = 0, ms_capture = []\<rparr>) \<and>
    (case r of Some e \<Rightarrow> accepts (bytes ''zzab'') (bytes ''[^x]*a?b'') [(0, 4, Star), (5, 6, Optional), (7, 8, Once)] 0 e
     | None \<Rightarrow> \<forall>e. \<not> accepts (bytes ''zzab'') (bytes ''[^x]*a?b'') [(0, 4, Star), (5, 6, Optional), (7, 8, Once)] 0 e)"
proof (rule match_is_regular)
  define P where "P = bytes ''[^x]*a?b''"
  have P: "P = [91, 94, 120, 93, 42, 97, 63, 98]" by (simp add: P_def bytes_def)
  have "classend P 0 = Inr 4" "classend P 5 = Inr 6" "classend P 7 = Inr 8" unfolding P by code_simp+
  then show "parses (bytes ''[^x]*a?b'') 0 [(0, 4, Star), (5, 6, Optional), (7, 8, Once)]"
    unfolding P_def [symmetric] by (simp add: plain_start_def suffix_at_def) (simp add: P L_ESC_def str_at_def)
qed simp

end
