(* ===== verification/LStrLib.thy ===== *)
theory LStrLib
  imports LPattern LuaNumber
begin

text \<open>
  The string library, \<open>lstrlib.c\<close>, on arguments already taken from the stack: each function maps
  the checked arguments to the list of values it pushes. The conversion of numbers to strings is
  a parameter; \<open>string.format\<close> is modelled up to the calls of \<open>sprintf\<close>.
\<close>

type_synonym lua_value = "byte list tvalue"

definition pushinteger :: "int \<Rightarrow> lua_value" where "pushinteger n = TNumber (cast_num n)"

section \<open>Substrings and bytes\<close>

definition posrelat :: "int \<Rightarrow> nat \<Rightarrow> int" where
  "posrelat pos len = (let p = (if pos < 0 then pos + int len + 1 else pos) in if 0 \<le> p then p else 0)"

definition str_len :: "byte list \<Rightarrow> lua_value list" where
  "str_len s = [pushinteger (int (length s))]"

definition str_sub :: "byte list \<Rightarrow> int \<Rightarrow> int \<Rightarrow> byte list" where
  "str_sub s i j =
     (let l = length s;
          first = posrelat i l;
          last = posrelat j l;
          first = (if first < 1 then 1 else first);
          last = (if last > int l then int l else last)
      in if first \<le> last then take (nat (last - first + 1)) (drop (nat (first - 1)) s) else [])"

definition str_reverse :: "byte list \<Rightarrow> byte list" where
  "str_reverse s = map (\<lambda>l. s ! l) (rev [0..<length s])"

definition toupper :: "int \<Rightarrow> int" where "toupper c = (if islower c then c - 32 else c)"

definition str_lower :: "byte list \<Rightarrow> byte list" where
  "str_lower s = map (\<lambda>c. word_of_int (tolower (uint c))) s"

definition str_upper :: "byte list \<Rightarrow> byte list" where
  "str_upper s = map (\<lambda>c. word_of_int (toupper (uint c))) s"

definition str_rep :: "byte list \<Rightarrow> int \<Rightarrow> byte list" where
  "str_rep s n = concat (replicate (nat n) s)"

text \<open>\<open>luaL_checkstack\<close>: \<open>used\<close> slots of the C stack are in use.\<close>

definition LUAI_MAXCSTACK :: int where "LUAI_MAXCSTACK = 8000"

definition luaL_checkstack :: "int \<Rightarrow> int \<Rightarrow> string \<Rightarrow> unit res" where
  "luaL_checkstack used sz mes =
     (if sz > LUAI_MAXCSTACK \<or> used + sz > LUAI_MAXCSTACK then Inl (ErrRun (''stack overflow ('' @ mes @ '')'')) else Inr ())"

definition str_byte :: "int \<Rightarrow> byte list \<Rightarrow> int \<Rightarrow> int \<Rightarrow> lua_value list res" where
  "str_byte used s i j =
     (let l = length s;
          posi = posrelat i l;
          pose = posrelat j l;
          posi = (if posi \<le> 0 then 1 else posi);
          pose = (if pose > int l then int l else pose)
      in if posi > pose then Inr []
         else let n = to_cint (word_of_int (pose - posi + 1))
           in if posi + n \<le> pose then Inl (ErrRun ''string slice too long'')
              else rbind (luaL_checkstack used n ''string slice too long'') (\<lambda>_.
                Inr (map (\<lambda>i. pushinteger (uint (s ! nat (posi + i - 1)))) [0..n - 1])))"

definition str_char :: "int list \<Rightarrow> byte list res" where
  "str_char cs =
     (if \<forall>c\<in>set cs. uint (word_of_int c :: byte) = c then Inr (map word_of_int cs) else Inl (ErrRun ''invalid value''))"

section \<open>Plain search\<close>

text \<open>The bytes of a string are followed by a terminating zero; reading beyond it is undefined. A
  count of bytes is a \<open>size_t\<close>: here a negative difference stands for the huge count it wraps to.\<close>

definition str_slice :: "byte list \<Rightarrow> nat \<Rightarrow> nat \<Rightarrow> byte list res" where
  "str_slice s i n = (if i + n \<le> length s + 1 then Inr (take n (drop i (s @ [0]))) else Inl Undefined)"

text \<open>\<open>memchr\<close>: the first position from \<open>i\<close> on, less than \<open>n\<close> bytes ahead, that holds \<open>c\<close>.\<close>

function memchr :: "byte list \<Rightarrow> nat \<Rightarrow> byte \<Rightarrow> int \<Rightarrow> nat option res" where
  "memchr s i c n =
     (if n = 0 then Inr None
      else rbind (str_at s i) (\<lambda>b. if b = c then Inr (Some i) else memchr s (i + 1) c (n - 1)))"
  by pat_completeness auto
termination by (relation "measure (\<lambda>(s, i, c, n). length s + 1 - i)") (auto dest!: str_at_le)

declare memchr.simps [simp del]

lemma memchr_bounds: "memchr s i c n = Inr (Some j) \<Longrightarrow> i \<le> j \<and> j \<le> length s"
proof (induction s i c n rule: memchr.induct)
  case (1 s i c n)
  then obtain b where "n \<noteq> 0" "str_at s i = Inr b" "if b = c then j = i else memchr s (i + 1) c (n - 1) = Inr (Some j)"
    by (subst (asm) (2) memchr.simps) (auto simp: rbind_Inr_iff split: if_splits)
  then show ?case using 1(1) str_at_le [of s i b] by (auto split: if_splits)
qed

text \<open>\<open>memcmp (init, s2 + 1, l2) == 0\<close>.\<close>

definition same_bytes :: "byte list \<Rightarrow> nat \<Rightarrow> byte list \<Rightarrow> nat \<Rightarrow> nat \<Rightarrow> bool res" where
  "same_bytes s1 i s2 j n = rbind (str_slice s1 i n) (\<lambda>x. rbind (str_slice s2 j n) (\<lambda>y. Inr (x = y)))"

text \<open>\<open>l2\<close> counts the bytes after the first one of \<open>s2\<close>, \<open>l1\<close> the places left for it.\<close>

function lmemfind_loop :: "byte list \<Rightarrow> byte list \<Rightarrow> nat \<Rightarrow> int \<Rightarrow> nat option res" where
  "lmemfind_loop s1 s2 i l1 =
     (if l1 = 0 then Inr None
      else rbind (str_at s2 0) (\<lambda>c. rbind (memchr s1 i c l1) (\<lambda>r.
        case r of
          None \<Rightarrow> Inr None
        | Some j \<Rightarrow>
            rbind (same_bytes s1 (j + 1) s2 1 (length s2 - 1)) (\<lambda>eq.
              if eq then Inr (Some j)
              else lmemfind_loop s1 s2 (j + 1) (l1 - (int j + 1 - int i))))))"
  by pat_completeness auto
termination by (relation "measure (\<lambda>(s1, s2, i, l1). length s1 + 1 - i)") (auto dest!: memchr_bounds)

declare lmemfind_loop.simps [simp del]

definition lmemfind :: "byte list \<Rightarrow> byte list \<Rightarrow> nat \<Rightarrow> nat option res" where
  "lmemfind s1 s2 start =
     (let l1 = length s1 - start; l2 = length s2
      in if l2 = 0 then Inr (Some start)
         else if l2 > l1 then Inr None
         else lmemfind_loop s1 s2 start (int l1 - (int l2 - 1)))"

section \<open>Captures as values\<close>

definition push_onecapture :: "byte list \<Rightarrow> MatchState \<Rightarrow> nat \<Rightarrow> nat \<times> nat \<Rightarrow> lua_value res" where
  "push_onecapture S ms i whole =
     (if i \<ge> ms_level ms
      then if i = 0 then Inr (TString (take (snd whole - fst whole) (drop (fst whole) S)))
           else pat_error ''invalid capture index''
      else let (init, len) = ms_capture ms ! i
        in if len = CAP_UNFINISHED then pat_error ''unfinished capture''
           else if len = CAP_POSITION then Inr (pushinteger (int init + 1))
           else if length S < init + nat len then Inl Undefined
           else Inr (TString (take (nat len) (drop init S))))"

fun push_each :: "byte list \<Rightarrow> MatchState \<Rightarrow> nat list \<Rightarrow> nat \<times> nat \<Rightarrow> lua_value list res" where
  "push_each S ms [] whole = Inr []"
| "push_each S ms (i # is) whole =
     rbind (push_onecapture S ms i whole) (\<lambda>v. rbind (push_each S ms is whole) (\<lambda>vs. Inr (v # vs)))"

text \<open>\<open>push_captures\<close>; the whole match is pushed when there are no captures and \<open>s\<close> is not null.\<close>

definition push_captures :: "byte list \<Rightarrow> MatchState \<Rightarrow> (nat \<times> nat) option \<Rightarrow> lua_value list res" where
  "push_captures S ms s =
     (let nlevels = (if ms_level ms = 0 \<and> s \<noteq> None then 1 else ms_level ms)
      in push_each S ms [0..<nlevels] (case s of None \<Rightarrow> (0, 0) | Some w \<Rightarrow> w))"

section \<open>Find, match and gmatch\<close>

definition SPECIALS :: "byte list" where "SPECIALS = bytes ''^$*+?.([%-''"

definition new_match :: MatchState where
  "new_match = \<lparr>ms_level = 0, ms_capture = replicate LUA_MAXCAPTURES (0, 0)\<rparr>"

definition start_match :: "MatchState \<Rightarrow> MatchState" where
  "start_match ms = ms\<lparr>ms_level := 0\<rparr>"

text \<open>The loop over the places where a match may begin; the captures of earlier attempts are left
  in the state.\<close>

function find_from :: "byte list \<Rightarrow> byte list \<Rightarrow> nat \<Rightarrow> bool \<Rightarrow> nat \<Rightarrow> MatchState \<Rightarrow> ((nat \<times> nat) option \<times> MatchState) res" where
  "find_from S P p anchor s1 ms =
     rbind (match S P s1 p (start_match ms)) (\<lambda>(res, ms).
       case res of
         Some e \<Rightarrow> Inr (Some (s1, e), ms)
       | None \<Rightarrow> if s1 < length S \<and> \<not> anchor then find_from S P p anchor (s1 + 1) ms else Inr (None, ms))"
  by pat_completeness auto
termination by (relation "measure (\<lambda>(S, P, p, anchor, s1, ms). length S - s1)") auto

declare find_from.simps [simp del]

definition str_find_aux :: "bool \<Rightarrow> byte list \<Rightarrow> byte list \<Rightarrow> int \<Rightarrow> bool \<Rightarrow> lua_value list res" where
  "str_find_aux fnd s p init0 plain =
     (let init0 = posrelat init0 (length s) - 1;
          start = (if init0 < 0 then 0 else if init0 > int (length s) then length s else nat init0)
      in if fnd \<and> (plain \<or> list_all (\<lambda>c. c \<notin> set SPECIALS) (c_str p))
         then rbind (lmemfind s p start) (\<lambda>r. case r of
                 Some i \<Rightarrow> Inr [pushinteger (int i + 1), pushinteger (int i + int (length p))]
               | None \<Rightarrow> Inr [TNil])
         else rbind (str_at p 0) (\<lambda>c.
           let anchor = (c = 94)
           in rbind (find_from s p (if anchor then 1 else 0) anchor start new_match) (\<lambda>(r, ms).
                case r of
                  None \<Rightarrow> Inr [TNil]
                | Some (s1, e) \<Rightarrow>
                    if fnd
                    then rbind (push_captures s ms None) (\<lambda>cs.
                      Inr (pushinteger (int s1 + 1) # pushinteger (int e) # cs))
                    else push_captures s ms (Some (s1, e)))))"

definition str_find :: "byte list \<Rightarrow> byte list \<Rightarrow> int \<Rightarrow> bool \<Rightarrow> lua_value list res" where
  "str_find = str_find_aux True"

definition str_match :: "byte list \<Rightarrow> byte list \<Rightarrow> int \<Rightarrow> lua_value list res" where
  "str_match s p init0 = str_find_aux False s p init0 False"

text \<open>\<open>gmatch_aux\<close>: one step of the iterator, with the position it keeps as its third upvalue. Unlike
  \<open>find\<close> and \<open>gsub\<close> it does not treat a leading \<open>^\<close> specially.\<close>

definition gmatch_aux :: "byte list \<Rightarrow> byte list \<Rightarrow> nat \<Rightarrow> (lua_value list \<times> nat) res" where
  "gmatch_aux s p pos =
     (if pos > length s then Inr ([], pos)
      else rbind (find_from s p 0 False pos new_match) (\<lambda>(r, ms).
        case r of
          None \<Rightarrow> Inr ([], pos)
        | Some (src, e) \<Rightarrow>
            rbind (push_captures s ms (Some (src, e))) (\<lambda>vs. Inr (vs, if e = src then e + 1 else e))))"

section \<open>Substitution\<close>

datatype replacement =
    ReplString "byte list"
  | ReplTable "lua_value \<Rightarrow> lua_value res"
  | ReplFunction "lua_value list \<Rightarrow> lua_value res"

text \<open>\<open>luaL_addvalue\<close> converts a number; other values do not get there.\<close>

definition value_string :: "(lua_Number \<Rightarrow> byte list) \<Rightarrow> lua_value \<Rightarrow> byte list res" where
  "value_string num2str v =
     (case v of TNumber n \<Rightarrow> Inr (num2str n) | TGC (GString s) \<Rightarrow> Inr s | _ \<Rightarrow> Inl (ErrRun ''invalid replacement value''))"

text \<open>\<open>add_s\<close>: a \<open>%\<close> at the end is followed by the terminating zero of the replacement string.\<close>

fun add_s :: "(lua_Number \<Rightarrow> byte list) \<Rightarrow> byte list \<Rightarrow> MatchState \<Rightarrow> nat \<times> nat \<Rightarrow> byte list \<Rightarrow> byte list res" where
  "add_s num2str S ms whole [] = Inr []"
| "add_s num2str S ms whole (c # news) =
     (if c \<noteq> L_ESC then rbind (add_s num2str S ms whole news) (\<lambda>r. Inr (c # r))
      else case news of
             [] \<Rightarrow> Inr [0]
           | d # news' \<Rightarrow>
               rbind (if \<not> isdigit (uint d) then Inr [d]
                      else if d = 48 then Inr (take (snd whole - fst whole) (drop (fst whole) S))
                      else rbind (push_onecapture S ms (nat (uint d - 49)) whole) (value_string num2str)) (\<lambda>v.
               rbind (add_s num2str S ms whole news') (\<lambda>r. Inr (v @ r))))"

definition add_value :: "(lua_Number \<Rightarrow> byte list) \<Rightarrow> replacement \<Rightarrow> byte list \<Rightarrow> MatchState \<Rightarrow> nat \<times> nat \<Rightarrow> byte list res" where
  "add_value num2str repl S ms whole =
     (let keep = (\<lambda>v. if l_isfalse v then Inr (take (snd whole - fst whole) (drop (fst whole) S)) else value_string num2str v)
      in case repl of
           ReplString news \<Rightarrow> add_s num2str S ms whole news
         | ReplFunction f \<Rightarrow> rbind (push_captures S ms (Some whole)) (\<lambda>vs. rbind (f vs) keep)
         | ReplTable f \<Rightarrow> rbind (push_onecapture S ms 0 whole) (\<lambda>v. rbind (f v) keep))"

text \<open>The loop of \<open>str_gsub\<close>. Each round but the last moves \<open>src\<close> forward, so one more round than
  there are bytes is enough fuel.\<close>

fun gsub_loop :: "nat \<Rightarrow> (nat \<Rightarrow> MatchState \<Rightarrow> (nat option \<times> MatchState) res) \<Rightarrow> (MatchState \<Rightarrow> nat \<times> nat \<Rightarrow> byte list res) \<Rightarrow>
    byte list \<Rightarrow> bool \<Rightarrow> int \<Rightarrow> int \<Rightarrow> nat \<Rightarrow> MatchState \<Rightarrow> (byte list \<times> int) res" where
  "gsub_loop 0 m add S anchor max_s n src ms = Inl OutOfFuel"
| "gsub_loop (Suc fuel) m add S anchor max_s n src ms =
     (if n < max_s
      then rbind (m src (start_match ms)) (\<lambda>(e, ms).
        rbind (case e of None \<Rightarrow> Inr (n, []) | Some e \<Rightarrow> rbind (add ms (src, e)) (\<lambda>v. Inr (n + 1, v))) (\<lambda>(n, v).
          let skip = (case e of Some e \<Rightarrow> e > src | None \<Rightarrow> False);
              v = (if \<not> skip \<and> src < length S then v @ [S ! src] else v);
              src' = (if skip then the e else if src < length S then src + 1 else src)
          in if anchor \<or> \<not> skip \<and> \<not> src < length S then Inr (v @ drop src' S, n)
             else rbind (gsub_loop fuel m add S anchor max_s n src' ms) (\<lambda>(r, n). Inr (v @ r, n))))
      else Inr (drop src S, n))"

definition str_gsub :: "(lua_Number \<Rightarrow> byte list) \<Rightarrow> byte list \<Rightarrow> byte list \<Rightarrow> replacement \<Rightarrow> int \<Rightarrow> lua_value list res" where
  "str_gsub num2str s p repl max_s =
     rbind (str_at p 0) (\<lambda>c.
       let anchor = (c = 94)
       in rbind (gsub_loop (length s + 2) (\<lambda>src. match s p src (if anchor then 1 else 0)) (add_value num2str repl s)
             s anchor max_s 0 0 new_match) (\<lambda>(r, n). Inr [TString r, pushinteger n]))"

section \<open>Format\<close>

fun addquoted_bytes :: "byte list \<Rightarrow> byte list" where
  "addquoted_bytes [] = []"
| "addquoted_bytes (c # s) =
     (if c = 34 \<or> c = 92 \<or> c = 10 then [92, c]
      else if c = 13 then [92, 114]
      else if c = 0 then [92, 48, 48, 48]
      else [c]) @ addquoted_bytes s"

definition addquoted :: "byte list \<Rightarrow> byte list" where
  "addquoted s = [34] @ addquoted_bytes s @ [34]"

text \<open>\<open>scanformat\<close>: the item after a \<open>%\<close>, up to and with its conversion character, and the position of
  that character. \<open>FLAGS\<close> has five flags and a terminating zero.\<close>

definition FLAGS :: "byte list" where "FLAGS = bytes ''-+ #0''"

definition skip_digit :: "byte list \<Rightarrow> nat \<Rightarrow> nat res" where
  "skip_digit f p = rbind (str_at f p) (\<lambda>c. Inr (if isdigit (uint c) then p + 1 else p))"

function skip_flags :: "byte list \<Rightarrow> nat \<Rightarrow> nat res" where
  "skip_flags f p = rbind (str_at f p) (\<lambda>c. if c \<noteq> 0 \<and> c \<in> set FLAGS then skip_flags f (p + 1) else Inr p)"
  by pat_completeness auto
termination by (relation "measure (\<lambda>(f, p). length f - p)") (auto dest: str_at_less)

declare skip_flags.simps [simp del]

definition scanformat :: "byte list \<Rightarrow> nat \<Rightarrow> (byte list \<times> nat) res" where
  "scanformat f start =
     rbind (skip_flags f start) (\<lambda>p.
       if p - start \<ge> length FLAGS + 1 then Inl (ErrRun ''invalid format (repeated flags)'')
       else rbind (skip_digit f p) (\<lambda>p. rbind (skip_digit f p) (\<lambda>p. rbind (str_at f p) (\<lambda>c.
         rbind (if c = 46 then rbind (skip_digit f (p + 1)) (skip_digit f) else Inr p) (\<lambda>p. rbind (str_at f p) (\<lambda>c.
           if isdigit (uint c) then Inl (ErrRun ''invalid format (width or precision too long)'')
           else Inr ([37] @ take (p - start + 1) (drop start (f @ [0])), p)))))))"

end
