(* ===== verification/LStrLibProps.thy ===== *)
theory LStrLibProps
  imports LStrLib LPatternSafe
begin

text \<open>
  The functions of the string library that search: none of them, on whatever strings, reads
  outside its arguments, and the plain search finds the first occurrence.
\<close>

section \<open>Captures as values\<close>




section \<open>Plain search\<close>

definition occurs_at :: "byte list \<Rightarrow> byte list \<Rightarrow> nat \<Rightarrow> bool" where
  "occurs_at p s i \<longleftrightarrow> i + length p \<le> length s \<and> take (length p) (drop i s) = p"

definition first_from :: "(nat \<Rightarrow> bool) \<Rightarrow> nat \<Rightarrow> nat option \<Rightarrow> bool" where
  "first_from Q start r \<longleftrightarrow>
     (case r of None \<Rightarrow> \<forall>i\<ge>start. \<not> Q i | Some i \<Rightarrow> start \<le> i \<and> Q i \<and> (\<forall>j. start \<le> j \<longrightarrow> j < i \<longrightarrow> \<not> Q j))"

lemma memchr_0 [simp]: "memchr s i c 0 = Inr None"
  by (subst memchr.simps) simp

lemma memchr_Suc: "i < length s \<Longrightarrow> memchr s i c (int (Suc n)) = (if s ! i = c then Inr (Some i) else memchr s (i + 1) c (int n))"
  by (subst memchr.simps) (simp add: str_at_def)

lemma memchr_first:
  "i + n \<le> length s \<Longrightarrow> \<exists>r. memchr s i c (int n) = Inr r \<and>
    (case r of None \<Rightarrow> \<forall>j. i \<le> j \<longrightarrow> j < i + n \<longrightarrow> s ! j \<noteq> c
     | Some j \<Rightarrow> i \<le> j \<and> j < i + n \<and> s ! j = c \<and> (\<forall>k. i \<le> k \<longrightarrow> k < j \<longrightarrow> s ! k \<noteq> c))"
proof (induction n arbitrary: i)
  case (Suc n)
  show ?case
  proof (cases "s ! i = c")
    case True
    then show ?thesis using Suc.prems by (intro exI [of _ "Some i"]) (simp add: memchr_Suc del: of_nat_Suc)
  next
    case False
    have e: "i \<le> k \<longleftrightarrow> i = k \<or> i + 1 \<le> k" for k by auto
    obtain r where r: "memchr s (i + 1) c (int n) = Inr r" "case r of None \<Rightarrow> \<forall>j. i + 1 \<le> j \<longrightarrow> j < i + 1 + n \<longrightarrow> s ! j \<noteq> c
       | Some j \<Rightarrow> i + 1 \<le> j \<and> j < i + 1 + n \<and> s ! j = c \<and> (\<forall>k. i + 1 \<le> k \<longrightarrow> k < j \<longrightarrow> s ! k \<noteq> c)"
      using Suc.IH [of "i + 1"] Suc.prems by auto
    have "memchr s i c (int (Suc n)) = Inr r" using r(1) False Suc.prems by (simp add: memchr_Suc del: of_nat_Suc)
    moreover have "case r of None \<Rightarrow> \<forall>j. i \<le> j \<longrightarrow> j < i + Suc n \<longrightarrow> s ! j \<noteq> c
       | Some j \<Rightarrow> i \<le> j \<and> j < i + Suc n \<and> s ! j = c \<and> (\<forall>k. i \<le> k \<longrightarrow> k < j \<longrightarrow> s ! k \<noteq> c)"
      using r(2) False e by (cases r) auto
    ultimately show ?thesis by blast
  qed
qed simp

lemma occurs_at_Cons:
  "i < length s \<Longrightarrow> occurs_at (c # p) s i \<longleftrightarrow> s ! i = c \<and> i + length p < length s \<and> take (length p) (drop (i + 1) s) = p"
  by (auto simp: occurs_at_def Cons_nth_drop_Suc [symmetric])

lemma same_bytes_tail:
  "i + length p \<le> length s \<Longrightarrow> same_bytes s i (c # p) 1 (length p) = Inr (take (length p) (drop i s) = p)"
  by (simp add: same_bytes_def str_slice_def)

lemma first_from_later: "first_from Q t r \<Longrightarrow> s \<le> t \<Longrightarrow> (\<And>i. s \<le> i \<Longrightarrow> i < t \<Longrightarrow> \<not> Q i) \<Longrightarrow> first_from Q s r"
  unfolding first_from_def by (auto split: option.splits) (metis le_less_linear less_le_trans)+

lemma lmemfind_loop_first:
  "i + l1 + length p = length s \<Longrightarrow>
    \<exists>r. lmemfind_loop s (c # p) i (int l1) = Inr r \<and> first_from (occurs_at (c # p) s) i r"
proof (induction l1 arbitrary: i rule: less_induct)
  case (less l1)
  have past: "\<not> occurs_at (c # p) s k" if "i + l1 \<le> k" for k using that less.prems by (simp add: occurs_at_def)
  obtain r where r: "memchr s i c (int l1) = Inr r" and m: "case r of None \<Rightarrow> \<forall>j. i \<le> j \<longrightarrow> j < i + l1 \<longrightarrow> s ! j \<noteq> c
     | Some j \<Rightarrow> i \<le> j \<and> j < i + l1 \<and> s ! j = c \<and> (\<forall>k. i \<le> k \<longrightarrow> k < j \<longrightarrow> s ! k \<noteq> c)"
    using memchr_first [of i l1 s c] less.prems by auto
  show ?case
  proof (cases r)
    case None
    then have "\<not> occurs_at (c # p) s k" if "i \<le> k" for k
      using m past [of k] that less.prems by (cases "k < i + l1") (auto simp: occurs_at_Cons)
    then show ?thesis using r None by (subst lmemfind_loop.simps) (simp add: str_at_def first_from_def)
  next
    case (Some j)
    then have j: "i \<le> j" "j < i + l1" "s ! j = c" "\<And>k. i \<le> k \<Longrightarrow> k < j \<Longrightarrow> s ! k \<noteq> c" using m by auto
    have before: "\<not> occurs_at (c # p) s k" if "i \<le> k" "k < j" for k
      using j(4) [OF that] that j(2) less.prems by (simp add: occurs_at_Cons)
    have eq: "same_bytes s (j + 1) (c # p) 1 (length p) = Inr (take (length p) (drop (j + 1) s) = p)"
      by (rule same_bytes_tail) (use j(2) less.prems in simp)
    have step: "lmemfind_loop s (c # p) i (int l1) =
        (if take (length p) (drop (j + 1) s) = p then Inr (Some j)
         else lmemfind_loop s (c # p) (j + 1) (int (l1 - (j + 1 - i))))"
      using r Some j(1,2) eq by (subst lmemfind_loop.simps) (simp add: str_at_def of_nat_diff algebra_simps)
    show ?thesis
    proof (cases "take (length p) (drop (j + 1) s) = p")
      case True
      then show ?thesis using step j before less.prems by (simp add: first_from_def occurs_at_Cons)
    next
      case False
      have "\<not> occurs_at (c # p) s j" using False j(2) less.prems by (simp add: occurs_at_Cons)
      then have none: "\<not> occurs_at (c # p) s k" if "i \<le> k" "k < j + 1" for k
        using before [of k] that by (cases "k = j") simp_all
      obtain q where q: "lmemfind_loop s (c # p) (j + 1) (int (l1 - (j + 1 - i))) = Inr q"
          "first_from (occurs_at (c # p) s) (j + 1) q"
      proof -
        have "l1 - (j + 1 - i) < l1" "j + 1 + (l1 - (j + 1 - i)) + length p = length s"
          using j(1,2) less.prems by linarith+
        then show ?thesis using less.IH that by blast
      qed
      have "first_from (occurs_at (c # p) s) i q"
        by (rule first_from_later [OF q(2)]) (use j(1) none in simp_all)
      then show ?thesis using step False q(1) by simp
    qed
  qed
qed

lemma lmemfind_eq:
  assumes "start \<le> length s"
  shows "\<exists>r. lmemfind s p start = Inr r \<and> first_from (occurs_at p s) start r"
proof (cases p)
  case Nil
  then show ?thesis using assms by (simp add: lmemfind_def first_from_def occurs_at_def)
next
  case (Cons c q)
  show ?thesis
  proof (cases "length p > length s - start")
    case True
    then show ?thesis using Cons assms by (auto simp: lmemfind_def first_from_def occurs_at_def)
  next
    case False
    then have "int (length s - start) - (int (length p) - 1) = int (length s - start - length q)"
      using Cons assms by auto
    moreover have "start + (length s - start - length q) + length q = length s" using False Cons assms by simp
    ultimately show ?thesis using False lmemfind_loop_first [of start _ q s c] unfolding Cons
      by (simp add: lmemfind_def del: of_nat_diff)
  qed
qed


section \<open>Searching\<close>










section \<open>Substitution\<close>





section \<open>Properties\<close>



text \<open>C37: \<open>lmemfind\<close>, which jumps with \<open>memchr\<close> to the next occurrence of the first byte, returns
  the first occurrence of the pattern from the start on, and nothing exactly if there is none.\<close>

theorem lmemfind_first:
  assumes "start \<le> length s"
  shows "\<exists>r. lmemfind s p start = Inr r \<and> first_from (occurs_at p s) start r"
  by (rule lmemfind_eq [OF assms])

lemma lmemfind_first_witness:
  "\<exists>r. lmemfind (bytes ''hello'') (bytes ''lo'') 1 = Inr r \<and> first_from (occurs_at (bytes ''lo'') (bytes ''hello'')) 1 r"
  by (rule lmemfind_first) (simp add: bytes_def)

end
