(* ===== verification/LState.thy ===== *)
theory LState
  imports LFunc LStr LTable LDebug StateRes
begin

text \<open>
  \<open>lstate.h\<close>: the state of a thread together with what it reaches of the global state, and the
  computations on it. A stack position is an index into the stack; the objects on the heap have
  addresses. A computation ends with a value, with a thrown status (\<open>luaD_throw\<close>), with an access
  that C leaves undefined, or without fuel, and in each case with the state at that point: a
  protected call goes on from there. Hooks are off, and there is one thread.
\<close>

type_synonym lvalue = "lstr tvalue"

abbreviation str_val :: "byte list \<Rightarrow> lvalue" where "str_val b \<equiv> TString (Some b)"

section \<open>State\<close>

text \<open>A closure: a Lua function with its prototype and upvalues, or a C function, which is known by a
  number, with its own values.\<close>

datatype Closure =
    LClosure (cl_env: addr) (cl_p: Proto) (cl_upvals: "addr list")
  | CClosure (cl_env: addr) (cl_f: nat) (cl_upvalue: "lvalue list")

definition isC :: "Closure \<Rightarrow> bool" where
  "isC cl = (case cl of LClosure _ _ _ \<Rightarrow> False | CClosure _ _ _ \<Rightarrow> True)"

record Udata =
  u_metatable :: "addr option"
  u_env :: addr
  u_len :: nat

record CallInfo =
  ci_base :: nat
  ci_func :: nat
  ci_top :: nat
  ci_savedpc :: int
  ci_nresults :: int
  ci_tailcalls :: int

record lua_State =
  L_stack :: "lvalue list"
  L_top :: nat
  L_base :: nat
  L_base_ci :: "CallInfo list"
  L_ci :: nat
  L_size_ci :: int
  L_savedpc :: int
  L_nCcalls :: int
  L_errfunc :: nat
  L_gt :: lvalue
  L_registry :: lvalue
  L_mt :: "int \<Rightarrow> addr option"
  L_tables :: "addr \<Rightarrow> lstr Table option"
  L_closures :: "addr \<Rightarrow> Closure option"
  L_udata :: "addr \<Rightarrow> Udata option"
  L_uvs :: "addr \<Rightarrow> lstr UpVal option"
  L_openupval :: "addr list"
  L_uvhead :: "addr list"
  L_next :: addr

text \<open>\<open>base_ci\<close> holds the call records up to the current one, \<open>ci\<close> the index of that one; \<open>size_ci\<close> is
  the size of the allocated array.\<close>

text \<open>The codes that are thrown.\<close>

datatype throw_status = LUA_ERRRUN | LUA_ERRSYNTAX | LUA_ERRMEM | LUA_ERRERR

fun status_code :: "throw_status \<Rightarrow> int" where
  "status_code LUA_ERRRUN = 2" | "status_code LUA_ERRSYNTAX = 3" | "status_code LUA_ERRMEM = 4" | "status_code LUA_ERRERR = 5"

lemma status_code_nonzero [simp]: "status_code c \<noteq> 0"
  by (cases c) simp_all

datatype vm_exception = Throw throw_status | Crash | NoFuel

type_synonym 'a vm = "lua_State \<Rightarrow> (vm_exception + 'a) \<times> lua_State"

section \<open>Computations\<close>

definition vret :: "'a \<Rightarrow> 'a vm" where "vret x L = (Inr x, L)"

definition vbind :: "'a vm \<Rightarrow> ('a \<Rightarrow> 'b vm) \<Rightarrow> 'b vm" where
  "vbind m f L = (case m L of (Inl e, L') \<Rightarrow> (Inl e, L') | (Inr x, L') \<Rightarrow> f x L')"

abbreviation vthen :: "'a vm \<Rightarrow> 'b vm \<Rightarrow> 'b vm" where "vthen m n \<equiv> vbind m (\<lambda>_. n)"

definition vexc :: "vm_exception \<Rightarrow> 'a vm" where "vexc e L = (Inl e, L)"
definition vget :: "(lua_State \<Rightarrow> 'a) \<Rightarrow> 'a vm" where "vget f L = (Inr (f L), L)"
definition vupd :: "(lua_State \<Rightarrow> lua_State) \<Rightarrow> unit vm" where "vupd f L = (Inr (), f L)"

definition vopt :: "'a option \<Rightarrow> 'a vm" where
  "vopt r = (case r of None \<Rightarrow> vexc Crash | Some x \<Rightarrow> vret x)"

definition luaD_throw :: "throw_status \<Rightarrow> 'a vm" where "luaD_throw errcode = vexc (Throw errcode)"

lemma vm_simps [simp]:
  "vret x L = (Inr x, L)" "vexc e L = (Inl e, L)" "vget g L = (Inr (g L), L)" "vupd h L = (Inr (), h L)"
  "vopt (Some x) = vret x" "vopt None = vexc Crash"
  by (simp_all add: vret_def vexc_def vget_def vupd_def vopt_def)

lemma vbind_simps [simp]:
  "m L = (Inr x, L') \<Longrightarrow> vbind m f L = f x L'" "m L = (Inl e, L') \<Longrightarrow> vbind m f L = (Inl e, L')"
  by (simp_all add: vbind_def)

lemma vbind_cong [fundef_cong]:
  "L = L' \<Longrightarrow> m L' = m' L' \<Longrightarrow> (\<And>x L''. m' L' = (Inr x, L'') \<Longrightarrow> f x L'' = f' x L'') \<Longrightarrow> vbind m f L = vbind m' f' L'"
  by (auto simp: vbind_def split: sum.split prod.split)

text \<open>The length operations on the stack, and pushing.\<close>

definition stack_get :: "nat \<Rightarrow> lvalue vm" where
  "stack_get i L = (if i < length (L_stack L) then (Inr (L_stack L ! i), L) else (Inl Crash, L))"

definition stack_set :: "nat \<Rightarrow> lvalue \<Rightarrow> unit vm" where
  "stack_set i v L = (if i < length (L_stack L) then (Inr (), L\<lparr>L_stack := (L_stack L)[i := v]\<rparr>) else (Inl Crash, L))"

definition set_top :: "nat \<Rightarrow> unit vm" where "set_top i = vupd (\<lambda>L. L\<lparr>L_top := i\<rparr>)"

definition cur_ci :: "lua_State \<Rightarrow> CallInfo" where "cur_ci L = L_base_ci L ! L_ci L"

definition upd_ci :: "(CallInfo \<Rightarrow> CallInfo) \<Rightarrow> unit vm" where
  "upd_ci f = vupd (\<lambda>L. L\<lparr>L_base_ci := (L_base_ci L)[L_ci L := f (cur_ci L)]\<rparr>)"

section \<open>Heap\<close>

definition table_at :: "addr \<Rightarrow> lstr Table vm" where
  "table_at a = vbind (vget (\<lambda>L. L_tables L a)) vopt"

definition set_table :: "addr \<Rightarrow> lstr Table \<Rightarrow> unit vm" where
  "set_table a t = vupd (\<lambda>L. L\<lparr>L_tables := (L_tables L)(a \<mapsto> t)\<rparr>)"

definition closure_at :: "addr \<Rightarrow> Closure vm" where
  "closure_at a = vbind (vget (\<lambda>L. L_closures L a)) vopt"

definition new_addr :: "addr vm" where
  "new_addr L = (Inr (L_next L), L\<lparr>L_next := L_next L + 1\<rparr>)"

definition new_table :: "lstr Table \<Rightarrow> addr vm" where
  "new_table t = vbind new_addr (\<lambda>a. vthen (set_table a t) (vret a))"

definition new_closure :: "Closure \<Rightarrow> addr vm" where
  "new_closure cl = vbind new_addr (\<lambda>a. vthen (vupd (\<lambda>L. L\<lparr>L_closures := (L_closures L)(a \<mapsto> cl)\<rparr>)) (vret a))"

text \<open>The view of the state on which the upvalue operations of \<open>LFunc\<close> work; the collector is not
  running, so every object has the current white.\<close>

definition up_view :: "lua_State \<Rightarrow> lstr upstate" where
  "up_view L = \<lparr>uvs = L_uvs L, openupval = L_openupval L, uvhead = L_uvhead L, stk = L_stack L, uwhite = 1, next_uv = L_next L\<rparr>"

definition up_store :: "lstr upstate \<Rightarrow> lua_State \<Rightarrow> lua_State" where
  "up_store u L = L\<lparr>L_uvs := uvs u, L_openupval := openupval u, L_uvhead := uvhead u, L_stack := stk u, L_next := next_uv u\<rparr>"

definition close_upvals :: "nat \<Rightarrow> unit vm" where
  "close_upvals level = vupd (\<lambda>L. up_store (luaF_close (up_view L) level) L)"

definition find_upval :: "nat \<Rightarrow> addr vm" where
  "find_upval level L = (case luaF_findupval (up_view L) level of (a, u) \<Rightarrow> (Inr a, up_store u L))"

text \<open>\<open>cl->upvals[b]->v\<close>: the stack slot of an open upvalue, the own value of a closed one.\<close>

definition upval_get :: "addr \<Rightarrow> lvalue vm" where
  "upval_get a =
     vbind (vget (\<lambda>L. L_uvs L a)) (\<lambda>u. vbind (vopt u) (\<lambda>u.
       case uv_level u of Some l \<Rightarrow> stack_get l | None \<Rightarrow> vret (uv_value u)))"

definition upval_set :: "addr \<Rightarrow> lvalue \<Rightarrow> unit vm" where
  "upval_set a v =
     vbind (vget (\<lambda>L. L_uvs L a)) (\<lambda>u. vbind (vopt u) (\<lambda>u.
       case uv_level u of
         Some l \<Rightarrow> stack_set l v
       | None \<Rightarrow> vupd (\<lambda>L. L\<lparr>L_uvs := (L_uvs L)(a \<mapsto> u\<lparr>uv_value := v\<rparr>)\<rparr>)))"

section \<open>The stack\<close>

definition BASIC_CI_SIZE :: int where "BASIC_CI_SIZE = 8"
definition BASIC_STACK_SIZE :: int where "BASIC_STACK_SIZE = 40"
definition LUA_MINSTACK :: int where "LUA_MINSTACK = 20"
definition LUAI_MAXCALLS :: int where "LUAI_MAXCALLS = 20000"

text \<open>\<open>luaD_reallocstack\<close>: positions are indices, so \<open>correctstack\<close> has nothing to do; the new part is
  filled with nils.\<close>

definition luaD_reallocstack :: "int \<Rightarrow> lua_State \<Rightarrow> lua_State" where
  "luaD_reallocstack newsize L =
     (let realsize = nat (newsize + 1 + EXTRA_STACK)
      in L\<lparr>L_stack := take realsize (L_stack L) @ replicate (realsize - length (L_stack L)) TNil\<rparr>)"

definition luaD_growstack :: "int \<Rightarrow> lua_State \<Rightarrow> lua_State" where
  "luaD_growstack n L =
     (let stacksize = int (length (L_stack L))
      in luaD_reallocstack (if n \<le> stacksize then 2 * stacksize else stacksize + n) L)"

definition luaD_checkstack :: "int \<Rightarrow> unit vm" where
  "luaD_checkstack n =
     vupd (\<lambda>L. let stack_last = int (length (L_stack L)) - EXTRA_STACK - 1
               in if stack_last - int (L_top L) \<le> n then luaD_growstack n L else L)"

definition incr_top :: "unit vm" where
  "incr_top = vthen (luaD_checkstack 1) (vupd (\<lambda>L. L\<lparr>L_top := L_top L + 1\<rparr>))"

text \<open>\<open>api_incr_top\<close> after \<open>setobj2s(L, L->top, v)\<close>, the push of the C code.\<close>

definition push :: "lvalue \<Rightarrow> unit vm" where
  "push v = vbind (vget L_top) (\<lambda>t. vthen (stack_set t v) incr_top)"

end
