(* ===== verification/LTm.thy ===== *)
theory LTm
  imports LState LTable
begin

text \<open>
  \<open>ltm.c\<close> and the error part of \<open>ldebug.c\<close>: metamethods, the names of values for messages, and
  the functions that raise errors. What the C library provides is in the record \<open>lua_env\<close>.
\<close>

text \<open>The C functions of the program are a map from their numbers; they get \<open>luaD_call\<close>, with which
  they call back.\<close>

record lua_env =
  E_view :: "lstr string_view"
  E_num2str :: "lua_Number \<Rightarrow> byte list"
  E_pow :: "lua_Number \<Rightarrow> lua_Number \<Rightarrow> lua_Number"
  E_strcoll :: "byte list \<Rightarrow> byte list \<Rightarrow> int"
  E_point :: byte
  E_cfun :: "nat \<Rightarrow> (nat \<Rightarrow> int \<Rightarrow> unit vm) \<Rightarrow> int vm"

type_synonym caller = "nat \<Rightarrow> int \<Rightarrow> unit vm"

section \<open>Metamethods\<close>

datatype TMS =
    TM_INDEX | TM_NEWINDEX | TM_GC | TM_MODE | TM_EQ | TM_ADD | TM_SUB | TM_MUL | TM_DIV | TM_MOD
  | TM_POW | TM_UNM | TM_LEN | TM_LT | TM_LE | TM_CONCAT | TM_CALL

fun tm_number :: "TMS \<Rightarrow> nat" where
  "tm_number TM_INDEX = 0" | "tm_number TM_NEWINDEX = 1" | "tm_number TM_GC = 2" | "tm_number TM_MODE = 3"
| "tm_number TM_EQ = 4" | "tm_number TM_ADD = 5" | "tm_number TM_SUB = 6" | "tm_number TM_MUL = 7"
| "tm_number TM_DIV = 8" | "tm_number TM_MOD = 9" | "tm_number TM_POW = 10" | "tm_number TM_UNM = 11"
| "tm_number TM_LEN = 12" | "tm_number TM_LT = 13" | "tm_number TM_LE = 14" | "tm_number TM_CONCAT = 15"
| "tm_number TM_CALL = 16"

definition luaT_eventname :: "string list" where
  "luaT_eventname = [''__index'', ''__newindex'', ''__gc'', ''__mode'', ''__eq'', ''__add'', ''__sub'', ''__mul'',
     ''__div'', ''__mod'', ''__pow'', ''__unm'', ''__len'', ''__lt'', ''__le'', ''__concat'', ''__call'']"

definition tmname :: "TMS \<Rightarrow> lstr" where
  "tmname e = Some (bytes (luaT_eventname ! tm_number e))"

definition luaT_typenames :: "string list" where
  "luaT_typenames = [''nil'', ''boolean'', ''userdata'', ''number'', ''string'', ''table'', ''function'', ''userdata'',
     ''thread'', ''proto'', ''upval'']"

definition typename :: "lvalue \<Rightarrow> byte list" where
  "typename v = bytes (luaT_typenames ! nat (ttype v))"

text \<open>Lookups in tables, whose failure modes (\<open>Inl\<close>) cannot occur in well-formed tables.\<close>

definition vres :: "'a res \<Rightarrow> 'a vm" where
  "vres r = (case r of Inl _ \<Rightarrow> vexc Crash | Inr x \<Rightarrow> vret x)"

definition slot_value :: "lstr Table \<Rightarrow> slot option \<Rightarrow> lvalue" where
  "slot_value t s = (case s of None \<Rightarrow> TNil | Some s \<Rightarrow> slot_val t s)"

definition getstr_value :: "lua_env \<Rightarrow> lstr Table \<Rightarrow> lstr \<Rightarrow> lvalue vm" where
  "getstr_value E t key = vbind (vres (luaH_getstr (E_view E) t key)) (\<lambda>s. vret (slot_value t s))"

definition luaT_gettm :: "lua_env \<Rightarrow> addr \<Rightarrow> TMS \<Rightarrow> lvalue option vm" where
  "luaT_gettm E events event =
     vbind (table_at events) (\<lambda>t.
     vbind (getstr_value E t (tmname event)) (\<lambda>tm.
       if ttisnil tm
       then vthen (set_table events (t\<lparr>flags := flags t OR word_of_int (2 ^ tm_number event)\<rparr>)) (vret None)
       else vret (Some tm)))"

definition fasttm :: "lua_env \<Rightarrow> addr option \<Rightarrow> TMS \<Rightarrow> lvalue option vm" where
  "fasttm E et e =
     (case et of
        None \<Rightarrow> vret None
      | Some a \<Rightarrow> vbind (table_at a) (\<lambda>t.
          if flags t AND word_of_int (2 ^ tm_number e) \<noteq> 0 then vret None else luaT_gettm E a e))"

definition udata_at :: "addr \<Rightarrow> Udata vm" where
  "udata_at a = vbind (vget (\<lambda>L. L_udata L a)) vopt"

definition luaT_gettmbyobj :: "lua_env \<Rightarrow> lvalue \<Rightarrow> TMS \<Rightarrow> lvalue vm" where
  "luaT_gettmbyobj E v event =
     vbind (case v of
              TGC (GTable a) \<Rightarrow> vbind (table_at a) (\<lambda>t. vret (metatable t))
            | TGC (GUserdata a) \<Rightarrow> vbind (udata_at a) (\<lambda>u. vret (u_metatable u))
            | _ \<Rightarrow> vget (\<lambda>L. L_mt L (ttype v))) (\<lambda>mt.
       case mt of
         None \<Rightarrow> vret TNil
       | Some a \<Rightarrow> vbind (table_at a) (\<lambda>t. getstr_value E t (tmname event)))"

section \<open>Where the code is\<close>

definition ttisfunction :: "lvalue \<Rightarrow> bool" where
  "ttisfunction v = (case v of TGC (GFunction _) \<Rightarrow> True | _ \<Rightarrow> False)"

text \<open>\<open>ci_func\<close>: the closure that a call record runs; \<open>isLua\<close>, with the prototype.\<close>

definition ci_closure :: "CallInfo \<Rightarrow> Closure option vm" where
  "ci_closure ci =
     vbind (stack_get (ci_func ci)) (\<lambda>f.
       case f of TGC (GFunction a) \<Rightarrow> vbind (closure_at a) (\<lambda>cl. vret (Some cl)) | _ \<Rightarrow> vret None)"

definition lua_proto :: "CallInfo \<Rightarrow> Proto option vm" where
  "lua_proto ci =
     vbind (ci_closure ci) (\<lambda>cl. vret (case cl of Some (LClosure _ p _) \<Rightarrow> Some p | _ \<Rightarrow> None))"

definition isLua :: "CallInfo \<Rightarrow> bool vm" where
  "isLua ci = vbind (lua_proto ci) (\<lambda>p. vret (p \<noteq> None))"

text \<open>\<open>currentpc\<close> of the current call record; \<open>savedpc\<close> is the index of the next instruction.\<close>

definition currentpc :: "int vm" where
  "currentpc =
     vbind (vget cur_ci) (\<lambda>ci.
     vbind (isLua ci) (\<lambda>b.
       if \<not> b then vret (- 1)
       else vbind (vget L_savedpc) (\<lambda>pc. vthen (upd_ci (\<lambda>ci. ci\<lparr>ci_savedpc := pc\<rparr>)) (vret (pc - 1)))))"

definition getline :: "Proto \<Rightarrow> int \<Rightarrow> int vm" where
  "getline f pc =
     (if plineinfo f = [] then vret 0
      else if 0 \<le> pc \<and> pc < int (length (plineinfo f)) then vret (plineinfo f ! nat pc) else vexc Crash)"

definition currentline :: "int vm" where
  "currentline =
     vbind currentpc (\<lambda>pc.
       if pc < 0 then vret (- 1)
       else vbind (vget cur_ci) (\<lambda>ci. vbind (lua_proto ci) (\<lambda>p. vbind (vopt p) (\<lambda>p. getline p pc))))"

text \<open>A string as C sees it; a null pointer is not a string.\<close>

definition svalue :: "lvalue \<Rightarrow> byte list vm" where
  "svalue v = (case v of TGC (GString (Some b)) \<Rightarrow> vret (c_str b) | _ \<Rightarrow> vexc Crash)"

definition const_at :: "Proto \<Rightarrow> int \<Rightarrow> lvalue vm" where
  "const_at p i = (if 0 \<le> i \<and> i < int (length (pk p)) then vret (pk p ! nat i) else vexc Crash)"

definition kname :: "Proto \<Rightarrow> int \<Rightarrow> byte list vm" where
  "kname p c =
     (if ISK c
      then vbind (const_at p (INDEXK c)) (\<lambda>v. if ttisstring v then svalue v else vret (bytes ''?''))
      else vret (bytes ''?''))"

text \<open>\<open>getobjname\<close>: the kind of a name and the name. The recursion through \<open>OP_MOVE\<close> goes to lower
  registers, of which there are at most 250. A failed symbolic execution is the instruction 0.\<close>

fun getobjname :: "nat \<Rightarrow> Proto \<Rightarrow> int \<Rightarrow> int \<Rightarrow> (string \<times> byte list) option vm" where
  "getobjname 0 p pc stackpos = vexc NoFuel"
| "getobjname (Suc fuel) p pc stackpos =
     (case luaF_getlocalname p (stackpos + 1) pc of
        Some name \<Rightarrow> vret (Some (''local'', c_str name))
      | None \<Rightarrow>
          vbind (vres (symbexec p pc stackpos)) (\<lambda>r.
            let i = (case r of Some i \<Rightarrow> i | None \<Rightarrow> 0)
            in case OpCode_of (GET_OPCODE i) of
                 Some OP_GETGLOBAL \<Rightarrow> vbind (const_at p (GETARG_Bx i)) (\<lambda>g. vbind (svalue g) (\<lambda>s. vret (Some (''global'', s))))
               | Some OP_MOVE \<Rightarrow> if GETARG_B i < GETARG_A i then getobjname fuel p pc (GETARG_B i) else vret None
               | Some OP_GETTABLE \<Rightarrow> vbind (kname p (GETARG_C i)) (\<lambda>s. vret (Some (''field'', s)))
               | Some OP_GETUPVAL \<Rightarrow>
                   (if pupvalues p = [] then vret (Some (''upvalue'', bytes ''?''))
                    else if GETARG_B i < int (length (pupvalues p))
                    then vbind (svalue (TString (pupvalues p ! nat (GETARG_B i)))) (\<lambda>s. vret (Some (''upvalue'', s)))
                    else vexc Crash)
               | Some OP_SELF \<Rightarrow> vbind (kname p (GETARG_C i)) (\<lambda>s. vret (Some (''method'', s)))
               | _ \<Rightarrow> vret None))"

section \<open>Raising errors\<close>

definition LUA_IDSIZE :: nat where "LUA_IDSIZE = 60"

text \<open>\<open>addinfo\<close> pushes the message with the position of the running Lua function in front.\<close>

definition addinfo :: "byte list \<Rightarrow> unit vm" where
  "addinfo msg =
     vthen (push (str_val msg))
       (vbind (vget cur_ci) (\<lambda>ci. vbind (lua_proto ci) (\<lambda>p.
          case p of
            None \<Rightarrow> vret ()
          | Some p \<Rightarrow>
              vbind currentline (\<lambda>line.
              vbind (svalue (TString (psource p))) (\<lambda>source.
                push (str_val (luaO_chunkid source LUA_IDSIZE @ bytes '':'' @ dec_int line @ bytes '': '' @ msg)))))))"

definition luaG_errormsg :: "caller \<Rightarrow> 'a vm" where
  "luaG_errormsg call =
     vbind (vget L_errfunc) (\<lambda>errfunc.
       if errfunc \<noteq> 0
       then vbind (stack_get errfunc) (\<lambda>f.
         if \<not> ttisfunction f then luaD_throw LUA_ERRERR
         else vbind (vget L_top) (\<lambda>top.
              vbind (stack_get (top - 1)) (\<lambda>msg.
              vthen (stack_set top msg) (vthen (stack_set (top - 1) f) (vthen incr_top
              (vbind (vget L_top) (\<lambda>top. vthen (call (top - 2) 1) (luaD_throw LUA_ERRRUN))))))))
       else luaD_throw LUA_ERRRUN)"

definition luaG_runerror :: "caller \<Rightarrow> byte list \<Rightarrow> 'a vm" where
  "luaG_runerror call msg = vthen (addinfo msg) (luaG_errormsg call)"

text \<open>An operand: its value, and its position if it is on the stack.\<close>

type_synonym operand = "lvalue \<times> nat option"

definition isinstack :: "CallInfo \<Rightarrow> nat option \<Rightarrow> bool" where
  "isinstack ci pos = (case pos of None \<Rightarrow> False | Some p \<Rightarrow> ci_base ci \<le> p \<and> p < ci_top ci)"

definition luaG_typeerror :: "caller \<Rightarrow> operand \<Rightarrow> string \<Rightarrow> 'a vm" where
  "luaG_typeerror call v act =
     vbind (vget cur_ci) (\<lambda>ci.
     vbind (lua_proto ci) (\<lambda>p.
     vbind (vget L_base) (\<lambda>base.
     vbind (if isinstack ci (snd v)
            then (case p of
                    None \<Rightarrow> vret None
                  | Some p \<Rightarrow> vbind currentpc (\<lambda>pc. getobjname 256 p pc (int (the (snd v)) - int base)))
            else vret None) (\<lambda>kind.
       case kind of
         Some (kind, name) \<Rightarrow>
           luaG_runerror call (bytes ''attempt to '' @ bytes act @ bytes '' '' @ bytes kind @ [32, 39] @ name @
             [39] @ bytes '' (a '' @ typename (fst v) @ bytes '' value)'')
       | None \<Rightarrow> luaG_runerror call (bytes ''attempt to '' @ bytes act @ bytes '' a '' @ typename (fst v) @ bytes '' value'')))))"

definition str_or_num :: "lvalue \<Rightarrow> bool" where
  "str_or_num v \<longleftrightarrow> ttisstring v \<or> ttisnumber v"

definition luaG_concaterror :: "caller \<Rightarrow> operand \<Rightarrow> operand \<Rightarrow> 'a vm" where
  "luaG_concaterror call p1 p2 = luaG_typeerror call (if str_or_num (fst p1) then p2 else p1) ''concatenate''"

text \<open>\<open>t1[2] == t2[2]\<close> compares the third letters of the names, which \<open>string\<close> and \<open>thread\<close> share.\<close>

definition luaG_ordererror :: "caller \<Rightarrow> lvalue \<Rightarrow> lvalue \<Rightarrow> 'a vm" where
  "luaG_ordererror call p1 p2 =
     (let t1 = typename p1; t2 = typename p2
      in if t1 ! 2 = t2 ! 2
         then luaG_runerror call (bytes ''attempt to compare two '' @ t1 @ bytes '' values'')
         else luaG_runerror call (bytes ''attempt to compare '' @ t1 @ bytes '' with '' @ t2))"

end
