(* ===== verification/LVmOps.thy ===== *)
theory LVmOps
  imports LTm LuaArith LMem
begin

text \<open>
  The operations of \<open>lvm.c\<close> below the main loop: conversion, access to tables through
  metamethods, comparison, concatenation and arithmetic. \<open>call\<close> is \<open>luaD_call\<close>.
\<close>

definition MAXTAGLOOP :: nat where "MAXTAGLOOP = 100"

definition luaV_tonumber :: "lua_env \<Rightarrow> lvalue \<Rightarrow> lua_Number option" where
  "luaV_tonumber E v =
     (case v of TNumber n \<Rightarrow> Some n | TGC (GString (Some s)) \<Rightarrow> luaO_str2d (E_point E) s | _ \<Rightarrow> None)"

text \<open>\<open>luaV_tostring\<close> replaces a number on the stack by its string; \<open>tostring\<close> also accepts strings.\<close>

definition luaV_tostring :: "lua_env \<Rightarrow> nat \<Rightarrow> bool vm" where
  "luaV_tostring E pos =
     vbind (stack_get pos) (\<lambda>v.
       case v of TNumber n \<Rightarrow> vthen (stack_set pos (str_val (E_num2str E n))) (vret True) | _ \<Rightarrow> vret False)"

definition tostring :: "lua_env \<Rightarrow> nat \<Rightarrow> bool vm" where
  "tostring E pos = vbind (stack_get pos) (\<lambda>v. if ttisstring v then vret True else luaV_tostring E pos)"

section \<open>Calling metamethods\<close>

definition callTMres :: "caller \<Rightarrow> nat \<Rightarrow> lvalue \<Rightarrow> lvalue \<Rightarrow> lvalue \<Rightarrow> unit vm" where
  "callTMres call result f p1 p2 =
     vbind (vget L_top) (\<lambda>top.
     vthen (stack_set top f) (vthen (stack_set (top + 1) p1) (vthen (stack_set (top + 2) p2)
     (vthen (luaD_checkstack 3) (vthen (set_top (top + 3))
     (vthen (call top 1)
     (vbind (vget L_top) (\<lambda>top.
      vthen (set_top (top - 1)) (vbind (stack_get (top - 1)) (stack_set result))))))))))"

definition callTM :: "caller \<Rightarrow> lvalue \<Rightarrow> lvalue \<Rightarrow> lvalue \<Rightarrow> lvalue \<Rightarrow> unit vm" where
  "callTM call f p1 p2 p3 =
     vbind (vget L_top) (\<lambda>top.
     vthen (stack_set top f) (vthen (stack_set (top + 1) p1) (vthen (stack_set (top + 2) p2) (vthen (stack_set (top + 3) p3)
     (vthen (luaD_checkstack 4) (vthen (set_top (top + 4)) (call top 0)))))))"

section \<open>Tables\<close>

text \<open>The errors of a table operation are raised by it through \<open>luaG_runerror\<close>.\<close>

definition vres_error :: "caller \<Rightarrow> 'a res \<Rightarrow> 'a vm" where
  "vres_error call r =
     (case r of Inr x \<Rightarrow> vret x | Inl (ErrRun msg) \<Rightarrow> luaG_runerror call (bytes msg) | Inl _ \<Rightarrow> vexc Crash)"

fun gettable_loop :: "nat \<Rightarrow> lua_env \<Rightarrow> caller \<Rightarrow> operand \<Rightarrow> lvalue \<Rightarrow> nat \<Rightarrow> unit vm" where
  "gettable_loop 0 E call t key val = luaG_runerror call (bytes ''loop in gettable'')"
| "gettable_loop (Suc n) E call t key val =
     (let again = (\<lambda>tm. if ttisfunction tm then callTMres call val tm (fst t) key
                        else gettable_loop n E call (tm, None) key val)
      in case fst t of
           TGC (GTable a) \<Rightarrow>
             vbind (table_at a) (\<lambda>h.
             vbind (vres (luaH_get (E_view E) h key)) (\<lambda>s.
               let r = slot_value h s
               in if \<not> ttisnil r then stack_set val r
                  else vbind (fasttm E (metatable h) TM_INDEX) (\<lambda>tm.
                    case tm of None \<Rightarrow> stack_set val r | Some tm \<Rightarrow> again tm)))
         | _ \<Rightarrow>
             vbind (luaT_gettmbyobj E (fst t) TM_INDEX) (\<lambda>tm.
               if ttisnil tm then luaG_typeerror call t ''index'' else again tm))"

definition luaV_gettable :: "lua_env \<Rightarrow> caller \<Rightarrow> operand \<Rightarrow> lvalue \<Rightarrow> nat \<Rightarrow> unit vm" where
  "luaV_gettable = gettable_loop MAXTAGLOOP"

text \<open>\<open>luaH_set\<close> makes room for the key before the metamethod is looked for.\<close>

fun settable_loop :: "nat \<Rightarrow> lua_env \<Rightarrow> caller \<Rightarrow> operand \<Rightarrow> lvalue \<Rightarrow> lvalue \<Rightarrow> unit vm" where
  "settable_loop 0 E call t key val = luaG_runerror call (bytes ''loop in settable'')"
| "settable_loop (Suc n) E call t key val =
     (let again = (\<lambda>tm. if ttisfunction tm then callTM call tm (fst t) key val
                        else settable_loop n E call (tm, None) key val)
      in case fst t of
           TGC (GTable a) \<Rightarrow>
             vbind (table_at a) (\<lambda>h.
             vbind (vres_error call (luaH_set (E_view E) h key)) (\<lambda>(h', s).
             vthen (set_table a h')
               (if \<not> ttisnil (slot_val h' s) then set_table a (set_slot h' s val)
                else vbind (fasttm E (metatable h') TM_NEWINDEX) (\<lambda>tm.
                  case tm of
                    None \<Rightarrow> vbind (table_at a) (\<lambda>h'. set_table a (set_slot h' s val))
                  | Some tm \<Rightarrow> again tm))))
         | _ \<Rightarrow>
             vbind (luaT_gettmbyobj E (fst t) TM_NEWINDEX) (\<lambda>tm.
               if ttisnil tm then luaG_typeerror call t ''index'' else again tm))"

definition luaV_settable :: "lua_env \<Rightarrow> caller \<Rightarrow> operand \<Rightarrow> lvalue \<Rightarrow> lvalue \<Rightarrow> unit vm" where
  "luaV_settable = settable_loop MAXTAGLOOP"

section \<open>Metamethods of operators\<close>

definition call_binTM :: "lua_env \<Rightarrow> caller \<Rightarrow> lvalue \<Rightarrow> lvalue \<Rightarrow> nat \<Rightarrow> TMS \<Rightarrow> bool vm" where
  "call_binTM E call p1 p2 result event =
     vbind (luaT_gettmbyobj E p1 event) (\<lambda>tm1.
     vbind (if ttisnil tm1 then luaT_gettmbyobj E p2 event else vret tm1) (\<lambda>tm.
       if ttisnil tm then vret False
       else vthen (callTMres call result tm p1 p2) (vret True)))"

definition get_compTM :: "lua_env \<Rightarrow> addr option \<Rightarrow> addr option \<Rightarrow> TMS \<Rightarrow> lvalue option vm" where
  "get_compTM E mt1 mt2 event =
     vbind (fasttm E mt1 event) (\<lambda>tm1.
       case tm1 of
         None \<Rightarrow> vret None
       | Some v1 \<Rightarrow>
           if mt1 = mt2 then vret tm1
           else vbind (fasttm E mt2 event) (\<lambda>tm2.
             case tm2 of
               None \<Rightarrow> vret None
             | Some v2 \<Rightarrow> vret (if luaO_rawequalObj v1 v2 then tm1 else None)))"

text \<open>\<open>None\<close> is the result -1, no metamethod.\<close>

definition call_orderTM :: "lua_env \<Rightarrow> caller \<Rightarrow> lvalue \<Rightarrow> lvalue \<Rightarrow> TMS \<Rightarrow> bool option vm" where
  "call_orderTM E call p1 p2 event =
     vbind (luaT_gettmbyobj E p1 event) (\<lambda>tm1.
       if ttisnil tm1 then vret None
       else vbind (luaT_gettmbyobj E p2 event) (\<lambda>tm2.
         if \<not> luaO_rawequalObj tm1 tm2 then vret None
         else vbind (vget L_top) (\<lambda>top.
           vthen (callTMres call top tm1 p1 p2)
             (vbind (vget L_top) (\<lambda>top. vbind (stack_get top) (\<lambda>v. vret (Some (\<not> l_isfalse v))))))))"

section \<open>Comparison\<close>

function l_strcmp :: "(byte list \<Rightarrow> byte list \<Rightarrow> int) \<Rightarrow> byte list \<Rightarrow> byte list \<Rightarrow> int" where
  "l_strcmp strcoll l r =
     (let temp = strcoll (c_str l) (c_str r); len = length (c_str l)
      in if temp \<noteq> 0 then temp
         else if len = length r then (if len = length l then 0 else 1)
         else if len = length l then - 1
         else l_strcmp strcoll (drop (len + 1) l) (drop (len + 1) r))"
  by pat_completeness auto
termination
  by (relation "measure (\<lambda>(f, l, r). length l)") (auto simp: c_str_def intro!: diff_less)

declare l_strcmp.simps [simp del]

definition value_strings :: "lvalue \<Rightarrow> lvalue \<Rightarrow> (byte list \<times> byte list) vm" where
  "value_strings l r =
     (case (l, r) of (TGC (GString (Some a)), TGC (GString (Some b))) \<Rightarrow> vret (a, b) | _ \<Rightarrow> vexc Crash)"

definition luaV_lessthan :: "lua_env \<Rightarrow> caller \<Rightarrow> lvalue \<Rightarrow> lvalue \<Rightarrow> bool vm" where
  "luaV_lessthan E call l r =
     (if ttype l \<noteq> ttype r then luaG_ordererror call l r
      else case (l, r) of
             (TNumber a, TNumber b) \<Rightarrow> vret (luai_numlt a b)
           | (TGC (GString _), TGC (GString _)) \<Rightarrow>
               vbind (value_strings l r) (\<lambda>(a, b). vret (l_strcmp (E_strcoll E) a b < 0))
           | _ \<Rightarrow> vbind (call_orderTM E call l r TM_LT) (\<lambda>res.
               case res of Some b \<Rightarrow> vret b | None \<Rightarrow> luaG_ordererror call l r))"

definition lessequal :: "lua_env \<Rightarrow> caller \<Rightarrow> lvalue \<Rightarrow> lvalue \<Rightarrow> bool vm" where
  "lessequal E call l r =
     (if ttype l \<noteq> ttype r then luaG_ordererror call l r
      else case (l, r) of
             (TNumber a, TNumber b) \<Rightarrow> vret (luai_numle a b)
           | (TGC (GString _), TGC (GString _)) \<Rightarrow>
               vbind (value_strings l r) (\<lambda>(a, b). vret (l_strcmp (E_strcoll E) a b \<le> 0))
           | _ \<Rightarrow> vbind (call_orderTM E call l r TM_LE) (\<lambda>res.
               case res of
                 Some b \<Rightarrow> vret b
               | None \<Rightarrow> vbind (call_orderTM E call r l TM_LT) (\<lambda>res.
                   case res of Some b \<Rightarrow> vret (\<not> b) | None \<Rightarrow> luaG_ordererror call l r)))"

text \<open>\<open>luaV_equalval\<close> on values of the same type, and \<open>equalobj\<close>.\<close>

definition compare_by :: "caller \<Rightarrow> lvalue option \<Rightarrow> lvalue \<Rightarrow> lvalue \<Rightarrow> bool vm" where
  "compare_by call tm t1 t2 =
     (case tm of
        None \<Rightarrow> vret False
      | Some tm \<Rightarrow> vbind (vget L_top) (\<lambda>top. vthen (callTMres call top tm t1 t2)
          (vbind (vget L_top) (\<lambda>top. vbind (stack_get top) (\<lambda>v. vret (\<not> l_isfalse v))))))"

definition luaV_equalval :: "lua_env \<Rightarrow> caller \<Rightarrow> lvalue \<Rightarrow> lvalue \<Rightarrow> bool vm" where
  "luaV_equalval E call t1 t2 =
     (case (t1, t2) of
        (TGC (GUserdata a), TGC (GUserdata b)) \<Rightarrow>
          if a = b then vret True
          else vbind (udata_at a) (\<lambda>u. vbind (udata_at b) (\<lambda>v.
            vbind (get_compTM E (u_metatable u) (u_metatable v) TM_EQ) (\<lambda>tm. compare_by call tm t1 t2)))
      | (TGC (GTable a), TGC (GTable b)) \<Rightarrow>
          if a = b then vret True
          else vbind (table_at a) (\<lambda>u. vbind (table_at b) (\<lambda>v.
            vbind (get_compTM E (metatable u) (metatable v) TM_EQ) (\<lambda>tm. compare_by call tm t1 t2)))
      | _ \<Rightarrow> vret (luaO_rawequalObj t1 t2))"

definition equalobj :: "lua_env \<Rightarrow> caller \<Rightarrow> lvalue \<Rightarrow> lvalue \<Rightarrow> bool vm" where
  "equalobj E call o1 o2 = (if ttype o1 = ttype o2 then luaV_equalval E call o1 o2 else vret False)"

section \<open>Concatenation\<close>

definition str_at_pos :: "nat \<Rightarrow> byte list vm" where
  "str_at_pos pos = vbind (stack_get pos) (\<lambda>v. case v of TGC (GString (Some s)) \<Rightarrow> vret s | _ \<Rightarrow> vexc Crash)"

text \<open>\<open>collect total length\<close>: how many of the \<open>k\<close> values below position \<open>top - n\<close> are strings.\<close>

fun concat_collect :: "nat \<Rightarrow> lua_env \<Rightarrow> caller \<Rightarrow> nat \<Rightarrow> nat \<Rightarrow> nat \<Rightarrow> nat vm" where
  "concat_collect 0 E call tp n tlen = vret n"
| "concat_collect (Suc k) E call tp n tlen =
     vbind (tostring E (tp - n - 1)) (\<lambda>b.
       if b
       then vbind (str_at_pos (tp - n - 1)) (\<lambda>s.
         if uint MAX_SIZET - int tlen \<le> int (length s) then luaG_runerror call (bytes ''string length overflow'')
         else concat_collect k E call tp (n + 1) (tlen + length s))
       else vret n)"

fun concat_strings :: "nat list \<Rightarrow> byte list vm" where
  "concat_strings [] = vret []"
| "concat_strings (p # ps) = vbind (str_at_pos p) (\<lambda>s. vbind (concat_strings ps) (\<lambda>r. vret (s @ r)))"

text \<open>One pass: the number of elements it replaced by one.\<close>

definition concat_pass :: "lua_env \<Rightarrow> caller \<Rightarrow> nat \<Rightarrow> nat \<Rightarrow> nat vm" where
  "concat_pass E call tot tp =
     vbind (stack_get (tp - 2)) (\<lambda>v2.
     vbind (if str_or_num v2 then tostring E (tp - 1) else vret False) (\<lambda>ok.
       if \<not> ok
       then vbind (stack_get (tp - 1)) (\<lambda>v1.
            vbind (call_binTM E call v2 v1 (tp - 2) TM_CONCAT) (\<lambda>b.
              if b then vret 2 else luaG_concaterror call (v2, Some (tp - 2)) (v1, Some (tp - 1))))
       else vbind (str_at_pos (tp - 1)) (\<lambda>s.
         if s = [] then vthen (tostring E (tp - 2)) (vret 2)
         else vbind (concat_collect (tot - 1) E call tp 1 (length s)) (\<lambda>n.
              vbind (concat_strings [tp - n..<tp]) (\<lambda>s.
              vthen (stack_set (tp - n) (str_val s)) (vret n))))))"

text \<open>\<open>fuel\<close> is the number of values: every pass leaves at least one less.\<close>

fun luaV_concat :: "nat \<Rightarrow> lua_env \<Rightarrow> caller \<Rightarrow> nat \<Rightarrow> nat \<Rightarrow> unit vm" where
  "luaV_concat 0 E call tot lst = vexc NoFuel"
| "luaV_concat (Suc fuel) E call tot lst =
     vbind (vget L_base) (\<lambda>base.
     vbind (concat_pass E call tot (base + lst + 1)) (\<lambda>n.
       if tot - (n - 1) > 1 then luaV_concat fuel E call (tot - (n - 1)) (lst - (n - 1)) else vret ()))"

section \<open>Arithmetic\<close>

definition arith_result :: "lua_env \<Rightarrow> TMS \<Rightarrow> lua_Number \<Rightarrow> lua_Number \<Rightarrow> lua_Number option" where
  "arith_result E event nb nc =
     (case event of
        TM_ADD \<Rightarrow> Some (luai_numadd nb nc) | TM_SUB \<Rightarrow> Some (luai_numsub nb nc) | TM_MUL \<Rightarrow> Some (luai_nummul nb nc)
      | TM_DIV \<Rightarrow> Some (luai_numdiv nb nc) | TM_MOD \<Rightarrow> Some (luai_nummod nb nc) | TM_POW \<Rightarrow> Some (E_pow E nb nc)
      | TM_UNM \<Rightarrow> Some (luai_numunm nb) | _ \<Rightarrow> None)"

definition luaG_aritherror :: "lua_env \<Rightarrow> caller \<Rightarrow> operand \<Rightarrow> operand \<Rightarrow> 'a vm" where
  "luaG_aritherror E call p1 p2 =
     luaG_typeerror call (if luaV_tonumber E (fst p1) = None then p1 else p2) ''perform arithmetic on''"

definition Arith :: "lua_env \<Rightarrow> caller \<Rightarrow> nat \<Rightarrow> operand \<Rightarrow> operand \<Rightarrow> TMS \<Rightarrow> unit vm" where
  "Arith E call ra rb rc event =
     (case (luaV_tonumber E (fst rb), luaV_tonumber E (fst rc)) of
        (Some nb, Some nc) \<Rightarrow>
          (case arith_result E event nb nc of Some n \<Rightarrow> stack_set ra (TNumber n) | None \<Rightarrow> vret ())
      | _ \<Rightarrow> vbind (call_binTM E call (fst rb) (fst rc) ra event) (\<lambda>b.
          if b then vret () else luaG_aritherror E call rb rc))"

end
