(* ===== verification/LDo.thy ===== *)
theory LDo
  imports LVmOps LDump
begin

text \<open>
  \<open>ldo.c\<close>: calls, returns, and protected calls. \<open>call\<close> is \<open>luaD_call\<close> again, for the C functions
  that call back. Hooks are off and there are no coroutines.
\<close>

section \<open>Call records\<close>

definition realloc_ci :: "int \<Rightarrow> unit vm" where
  "realloc_ci newsize = vupd (\<lambda>L. L\<lparr>L_base_ci := take (nat newsize) (L_base_ci L), L_size_ci := newsize\<rparr>)"

definition growCI :: "caller \<Rightarrow> unit vm" where
  "growCI call =
     vbind (vget L_size_ci) (\<lambda>sz.
       if sz > LUAI_MAXCALLS then luaD_throw LUA_ERRERR
       else vthen (realloc_ci (2 * sz))
              (if 2 * sz > LUAI_MAXCALLS then luaG_runerror call (bytes ''stack overflow'') else vret ()))"

text \<open>A record that was used before keeps its fields.\<close>

definition fresh_ci :: CallInfo where
  "fresh_ci = \<lparr>ci_base = 0, ci_func = 0, ci_top = 0, ci_savedpc = 0, ci_nresults = 0, ci_tailcalls = 0\<rparr>"

definition next_ci :: "lua_State \<Rightarrow> lua_State" where
  "next_ci L =
     L\<lparr>L_ci := L_ci L + 1,
       L_base_ci := (if L_ci L + 1 < length (L_base_ci L) then L_base_ci L else L_base_ci L @ [fresh_ci])\<rparr>"

definition inc_ci :: "caller \<Rightarrow> unit vm" where
  "inc_ci call =
     vbind (vget (\<lambda>L. int (L_ci L) = L_size_ci L - 1)) (\<lambda>full.
     vthen (if full then growCI call else vret ()) (vupd next_ci))"

section \<open>Calls\<close>

fun push_nils :: "nat \<Rightarrow> unit vm" where
  "push_nils 0 = vret ()"
| "push_nils (Suc n) =
     vbind (vget L_top) (\<lambda>tp. vthen (stack_set tp TNil) (vthen (set_top (tp + 1)) (push_nils n)))"

fun move_fixed :: "nat list \<Rightarrow> nat \<Rightarrow> unit vm" where
  "move_fixed [] fixed = vret ()"
| "move_fixed (i # is) fixed =
     vbind (stack_get (fixed + i)) (\<lambda>v.
     vbind (vget L_top) (\<lambda>tp.
     vthen (stack_set tp v) (vthen (set_top (tp + 1)) (vthen (stack_set (fixed + i) TNil) (move_fixed is fixed)))))"

fun extra_args :: "lua_env \<Rightarrow> nat list \<Rightarrow> nat \<Rightarrow> lstr Table \<Rightarrow> lstr Table vm" where
  "extra_args E [] frm t = vret t"
| "extra_args E (i # is) frm t =
     vbind (vres (luaH_setnum (E_view E) t (int i + 1))) (\<lambda>(t, s).
     vbind (stack_get (frm + i)) (\<lambda>v. extra_args E is frm (set_slot t s v)))"

text \<open>The table \<open>arg\<close> of old-style vararg functions.\<close>

definition arg_table :: "lua_env \<Rightarrow> nat \<Rightarrow> nat \<Rightarrow> addr vm" where
  "arg_table E nvar tp =
     vbind (vres (luaH_new nvar 1)) (\<lambda>t.
     vbind (extra_args E [0..<nvar] (tp - nvar) t) (\<lambda>t.
     vbind (vres (luaH_setstr (E_view E) t (Some (bytes ''n'')))) (\<lambda>(t, s).
     new_table (set_slot t s (TNumber (cast_num (int nvar)))))))"

definition adjust_varargs :: "lua_env \<Rightarrow> Proto \<Rightarrow> nat \<Rightarrow> nat vm" where
  "adjust_varargs E p actual =
     (let nfixargs = unat (pnumparams p); have_args = max actual nfixargs
      in vthen (push_nils (nfixargs - actual))
         (vbind (vget L_top) (\<lambda>tp.
          vbind (if pis_vararg p AND VARARG_NEEDSARG \<noteq> 0
                 then vbind (arg_table E (have_args - nfixargs) tp) (\<lambda>a. vret (Some a)) else vret None) (\<lambda>htab.
          vthen (move_fixed [0..<nfixargs] (tp - have_args))
          (vthen (case htab of
                    None \<Rightarrow> vret ()
                  | Some a \<Rightarrow> vbind (vget L_top) (\<lambda>t. vthen (stack_set t (TGC (GTable a))) (set_top (t + 1))))
            (vret tp))))))"

text \<open>Every value from the last one down to \<open>func\<close> moves up by one place.\<close>

fun open_hole :: "nat \<Rightarrow> nat \<Rightarrow> unit vm" where
  "open_hole func 0 = vret ()"
| "open_hole func (Suc n) =
     vbind (stack_get (func + n)) (\<lambda>v. vthen (stack_set (func + n + 1) v) (open_hole func n))"

definition tryfuncTM :: "lua_env \<Rightarrow> caller \<Rightarrow> nat \<Rightarrow> unit vm" where
  "tryfuncTM E call func =
     vbind (stack_get func) (\<lambda>f.
     vbind (luaT_gettmbyobj E f TM_CALL) (\<lambda>tm.
       if \<not> ttisfunction tm then luaG_typeerror call (f, Some func) ''call''
       else vbind (vget L_top) (\<lambda>tp.
            vthen (open_hole func (tp - func)) (vthen incr_top (stack_set func tm)))))"

definition callee :: "nat \<Rightarrow> Closure vm" where
  "callee func =
     vbind (stack_get func) (\<lambda>f.
       case f of TGC (GFunction a) \<Rightarrow> closure_at a | _ \<Rightarrow> vexc Crash)"

fun clear_stack :: "nat \<Rightarrow> nat \<Rightarrow> unit vm" where
  "clear_stack st 0 = vret ()"
| "clear_stack st (Suc n) = vthen (stack_set st TNil) (clear_stack (st + 1) n)"

datatype precall = PCRLUA | PCRC

text \<open>\<open>luaD_poscall\<close>: the results from \<open>firstResult\<close> on go to the place of the function, as many as
  the caller wants.\<close>

fun move_results :: "nat \<Rightarrow> nat \<Rightarrow> int \<Rightarrow> nat \<Rightarrow> nat vm" where
  "move_results 0 firstResult wanted res = (if 0 < wanted then vthen (clear_stack res (nat wanted)) (vret (res + nat wanted)) else vret res)"
| "move_results (Suc n) firstResult wanted res =
     (if wanted = 0 then vret res
      else vbind (stack_get firstResult) (\<lambda>v. vthen (stack_set res v)
             (move_results n (firstResult + 1) (wanted - 1) (res + 1))))"

definition luaD_poscall :: "nat \<Rightarrow> bool vm" where
  "luaD_poscall firstResult =
     vbind (vget cur_ci) (\<lambda>ci.
     vthen (vupd (\<lambda>L. L\<lparr>L_ci := L_ci L - 1\<rparr>))
     (vthen (vupd (\<lambda>L. L\<lparr>L_base := ci_base (cur_ci L), L_savedpc := ci_savedpc (cur_ci L)\<rparr>))
     (vbind (vget L_top) (\<lambda>tp.
      vbind (move_results (tp - firstResult) firstResult (ci_nresults ci) (ci_func ci)) (\<lambda>res.
      vthen (set_top res) (vret (ci_nresults ci - LUA_MULTRET \<noteq> 0)))))))"

definition enter_lua :: "lua_env \<Rightarrow> caller \<Rightarrow> nat \<Rightarrow> int \<Rightarrow> Proto \<Rightarrow> unit vm" where
  "enter_lua E call func nresults p =
     vthen (luaD_checkstack (uint (pmaxstacksize p)))
     (vbind (vget L_top) (\<lambda>tp.
      vbind (if pis_vararg p = 0
             then vthen (set_top (min tp (func + 1 + unat (pnumparams p)))) (vret (func + 1))
             else adjust_varargs E p (tp - func - 1)) (\<lambda>base.
      vthen (inc_ci call)
      (vthen (upd_ci (\<lambda>ci. ci\<lparr>ci_func := func, ci_base := base, ci_top := base + unat (pmaxstacksize p),
                               ci_tailcalls := 0, ci_nresults := nresults\<rparr>))
      (vthen (vupd (\<lambda>L. L\<lparr>L_base := base, L_savedpc := 0\<rparr>))
      (vbind (vget L_top) (\<lambda>tp.
       vthen (clear_stack tp (base + unat (pmaxstacksize p) - tp)) (set_top (base + unat (pmaxstacksize p))))))))))"

text \<open>A negative number of results is a yield, which is left out.\<close>

definition enter_c :: "lua_env \<Rightarrow> caller \<Rightarrow> nat \<Rightarrow> int \<Rightarrow> nat \<Rightarrow> unit vm" where
  "enter_c E call func nresults f =
     vthen (luaD_checkstack LUA_MINSTACK)
     (vthen (inc_ci call)
     (vbind (vget L_top) (\<lambda>tp.
      vthen (upd_ci (\<lambda>ci. ci\<lparr>ci_func := func, ci_base := func + 1, ci_top := tp + nat LUA_MINSTACK, ci_nresults := nresults\<rparr>))
      (vthen (vupd (\<lambda>L. L\<lparr>L_base := func + 1\<rparr>))
      (vbind (E_cfun E f call) (\<lambda>n.
         if n < 0 then vexc Crash
         else vbind (vget L_top) (\<lambda>tp. vthen (luaD_poscall (tp - nat n)) (vret ()))))))))"

definition luaD_precall :: "lua_env \<Rightarrow> caller \<Rightarrow> nat \<Rightarrow> int \<Rightarrow> precall vm" where
  "luaD_precall E call func nresults =
     vbind (stack_get func) (\<lambda>f.
     vthen (if ttisfunction f then vret () else tryfuncTM E call func)
     (vbind (callee func) (\<lambda>cl.
      vbind (vget L_savedpc) (\<lambda>pc.
      vthen (upd_ci (\<lambda>ci. ci\<lparr>ci_savedpc := pc\<rparr>))
        (case cl of
           LClosure _ p _ \<Rightarrow> vthen (enter_lua E call func nresults p) (vret PCRLUA)
         | CClosure _ f _ \<Rightarrow> vthen (enter_c E call func nresults f) (vret PCRC))))))"

section \<open>Errors\<close>

definition luaD_seterrorobj :: "int \<Rightarrow> nat \<Rightarrow> unit vm" where
  "luaD_seterrorobj errcode oldtop =
     vthen
       (if errcode = status_code LUA_ERRMEM then stack_set oldtop (str_val (bytes ''not enough memory''))
        else if errcode = status_code LUA_ERRERR then stack_set oldtop (str_val (bytes ''error in error handling''))
        else if errcode = status_code LUA_ERRSYNTAX \<or> errcode = status_code LUA_ERRRUN
        then vbind (vget L_top) (\<lambda>tp. vbind (stack_get (tp - 1)) (stack_set oldtop))
        else vret ())
       (set_top (oldtop + 1))"

definition restore_stack_limit :: "unit vm" where
  "restore_stack_limit =
     vbind (vget L_size_ci) (\<lambda>sz. vbind (vget L_ci) (\<lambda>inuse.
       if sz > LUAI_MAXCALLS \<and> int inuse + 1 < LUAI_MAXCALLS then realloc_ci LUAI_MAXCALLS else vret ()))"

text \<open>\<open>luaD_rawrunprotected\<close>: the status is 0 or what was thrown.\<close>

definition luaD_rawrunprotected :: "unit vm \<Rightarrow> int vm" where
  "luaD_rawrunprotected f L =
     (case f L of
        (Inr _, L) \<Rightarrow> (Inr 0, L)
      | (Inl (Throw status), L) \<Rightarrow> (Inr (status_code status), L)
      | (Inl e, L) \<Rightarrow> (Inl e, L))"

definition luaD_pcall :: "unit vm \<Rightarrow> nat \<Rightarrow> nat \<Rightarrow> int vm" where
  "luaD_pcall func old_top ef =
     vbind (vget L_nCcalls) (\<lambda>oldnCcalls.
     vbind (vget L_ci) (\<lambda>old_ci.
     vbind (vget L_errfunc) (\<lambda>old_errfunc.
     vthen (vupd (\<lambda>L. L\<lparr>L_errfunc := ef\<rparr>))
     (vbind (luaD_rawrunprotected func) (\<lambda>status.
      vthen (if status \<noteq> 0
             then vthen (close_upvals old_top) (vthen (luaD_seterrorobj status old_top)
                  (vthen (vupd (\<lambda>L. L\<lparr>L_nCcalls := oldnCcalls, L_ci := old_ci\<rparr>))
                  (vthen (vupd (\<lambda>L. L\<lparr>L_base := ci_base (cur_ci L), L_savedpc := ci_savedpc (cur_ci L)\<rparr>))
                     restore_stack_limit)))
             else vret ())
       (vthen (vupd (\<lambda>L. L\<lparr>L_errfunc := old_errfunc\<rparr>)) (vret status)))))))"

end
