(* ===== verification/LVM.thy ===== *)
theory LVM
  imports LDo LCode
begin

text \<open>
  The main loop of \<open>lvm.c\<close>: one step per instruction, the loop, and \<open>luaD_call\<close>, which closes the
  circle. Fuel bounds the number of instructions and the nesting of calls.
\<close>

section \<open>Operands\<close>

definition reg :: "int \<Rightarrow> nat vm" where "reg r = vbind (vget L_base) (\<lambda>base. vret (base + nat r))"

definition get_reg :: "int \<Rightarrow> lvalue vm" where "get_reg r = vbind (reg r) stack_get"
definition set_reg :: "int \<Rightarrow> lvalue \<Rightarrow> unit vm" where "set_reg r v = vbind (reg r) (\<lambda>p. stack_set p v)"

text \<open>\<open>RKB\<close> and \<open>RKC\<close>: a constant, or a register with its position.\<close>

definition R_operand :: "int \<Rightarrow> operand vm" where
  "R_operand x = vbind (reg x) (\<lambda>p. vbind (stack_get p) (\<lambda>v. vret (v, Some p)))"

definition RK_operand :: "Proto \<Rightarrow> int \<Rightarrow> operand vm" where
  "RK_operand p x = (if ISK x then vbind (const_at p (INDEXK x)) (\<lambda>v. vret (v, None)) else R_operand x)"

definition fetch :: "Proto \<Rightarrow> int \<Rightarrow> Instruction vm" where
  "fetch p pc = (if 0 \<le> pc \<and> pc < sizecode p then vret (code_word p pc) else vexc Crash)"

text \<open>\<open>Protect\<close> saves the program counter before anything that can raise an error.\<close>

definition save_pc :: "int \<Rightarrow> unit vm" where "save_pc pc = vupd (\<lambda>L. L\<lparr>L_savedpc := pc\<rparr>)"

text \<open>What a step leaves: the next instruction of the same function, a new Lua function, a tail call,
  or a return, which says whether the caller fixed the number of results.\<close>

datatype outcome = Next int | Called | TailCalled | Returned bool

section \<open>Instructions\<close>

definition arith_op :: "lua_env \<Rightarrow> caller \<Rightarrow> Proto \<Rightarrow> int \<Rightarrow> Instruction \<Rightarrow> TMS \<Rightarrow> outcome vm" where
  "arith_op E call p pc i event =
     vbind (reg (GETARG_A i)) (\<lambda>ra.
     vbind (RK_operand p (GETARG_B i)) (\<lambda>rb.
     vbind (RK_operand p (GETARG_C i)) (\<lambda>rc.
     vthen (case (fst rb, fst rc) of
              (TNumber nb, TNumber nc) \<Rightarrow> vbind (vopt (arith_result E event nb nc)) (\<lambda>n. stack_set ra (TNumber n))
            | _ \<Rightarrow> vthen (save_pc pc) (Arith E call ra rb rc event))
       (vret (Next pc)))))"

text \<open>The jump that follows a test is the next instruction.\<close>

definition cond_jump :: "Proto \<Rightarrow> int \<Rightarrow> bool \<Rightarrow> outcome vm" where
  "cond_jump p pc b =
     (if b then vbind (fetch p pc) (\<lambda>j. vret (Next (pc + GETARG_sBx j + 1))) else vret (Next (pc + 1)))"

definition compare_op :: "(lvalue \<Rightarrow> lvalue \<Rightarrow> bool vm) \<Rightarrow> Proto \<Rightarrow> int \<Rightarrow> Instruction \<Rightarrow> outcome vm" where
  "compare_op cmp p pc i =
     vbind (RK_operand p (GETARG_B i)) (\<lambda>rb.
     vbind (RK_operand p (GETARG_C i)) (\<lambda>rc.
     vthen (save_pc pc)
     (vbind (cmp (fst rb) (fst rc)) (\<lambda>b. cond_jump p pc (of_bool b = GETARG_A i)))))"

definition op_len :: "lua_env \<Rightarrow> caller \<Rightarrow> int \<Rightarrow> Instruction \<Rightarrow> outcome vm" where
  "op_len E call pc i =
     vbind (reg (GETARG_A i)) (\<lambda>ra.
     vbind (R_operand (GETARG_B i)) (\<lambda>rb.
     vthen (case fst rb of
              TGC (GTable a) \<Rightarrow> vbind (table_at a) (\<lambda>h. vbind (vres (luaH_getn h)) (\<lambda>n. stack_set ra (TNumber (cast_num (int n)))))
            | TGC (GString (Some s)) \<Rightarrow> stack_set ra (TNumber (cast_num (int (length s))))
            | _ \<Rightarrow> vthen (save_pc pc) (vbind (call_binTM E call (fst rb) TNil ra TM_LEN) (\<lambda>b.
                if b then vret () else luaG_typeerror call rb ''get length of'')))
       (vret (Next pc))))"

text \<open>Register numbers from the second down to the first; the second one is written in any case.\<close>

fun set_nils :: "nat \<Rightarrow> nat \<Rightarrow> unit vm" where
  "set_nils rb 0 = stack_set rb TNil"
| "set_nils rb (Suc n) = vthen (stack_set rb TNil) (set_nils (rb - 1) n)"

definition op_forloop :: "int \<Rightarrow> Instruction \<Rightarrow> outcome vm" where
  "op_forloop pc i =
     vbind (get_reg (GETARG_A i)) (\<lambda>idx. vbind (get_reg (GETARG_A i + 1)) (\<lambda>limit. vbind (get_reg (GETARG_A i + 2)) (\<lambda>step.
       case (idx, limit, step) of
         (TNumber idx, TNumber limit, TNumber step) \<Rightarrow>
           let idx = luai_numadd idx step
           in if (if luai_numlt (cast_num 0) step then luai_numle idx limit else luai_numle limit idx)
              then vthen (set_reg (GETARG_A i) (TNumber idx)) (vthen (set_reg (GETARG_A i + 3) (TNumber idx))
                     (vret (Next (pc + GETARG_sBx i))))
              else vret (Next pc)
       | _ \<Rightarrow> vexc Crash)))"

definition for_number :: "lua_env \<Rightarrow> caller \<Rightarrow> int \<Rightarrow> string \<Rightarrow> lua_Number vm" where
  "for_number E call r what =
     vbind (get_reg r) (\<lambda>v.
       case luaV_tonumber E v of
         Some n \<Rightarrow> vthen (set_reg r (TNumber n)) (vret n)
       | None \<Rightarrow> luaG_runerror call (39 # bytes ''for'' @ [39] @ bytes what @ bytes '' must be a number''))"

definition op_forprep :: "lua_env \<Rightarrow> caller \<Rightarrow> int \<Rightarrow> Instruction \<Rightarrow> outcome vm" where
  "op_forprep E call pc i =
     vthen (save_pc pc)
     (vbind (for_number E call (GETARG_A i) '' initial value'') (\<lambda>init.
      vthen (for_number E call (GETARG_A i + 1) '' limit'')
      (vbind (for_number E call (GETARG_A i + 2) '' step'') (\<lambda>step.
       vthen (set_reg (GETARG_A i) (TNumber (luai_numsub init step))) (vret (Next (pc + GETARG_sBx i)))))))"

definition op_tforloop :: "caller \<Rightarrow> Proto \<Rightarrow> int \<Rightarrow> Instruction \<Rightarrow> outcome vm" where
  "op_tforloop call p pc i =
     (let a = GETARG_A i
      in vbind (get_reg (a + 2)) (\<lambda>v. vthen (set_reg (a + 5) v)
         (vbind (get_reg (a + 1)) (\<lambda>v. vthen (set_reg (a + 4) v)
         (vbind (get_reg a) (\<lambda>v. vthen (set_reg (a + 3) v)
         (vbind (reg (a + 3)) (\<lambda>cb.
          vthen (set_top (cb + 3))
          (vthen (save_pc pc)
          (vthen (call cb (GETARG_C i))
          (vbind (vget cur_ci) (\<lambda>ci.
           vthen (set_top (ci_top ci))
           (vbind (get_reg (a + 3)) (\<lambda>v.
              if ttisnil v then vret (Next (pc + 1))
              else vthen (set_reg (a + 2) v)
                     (vbind (fetch p pc) (\<lambda>j. vret (Next (pc + GETARG_sBx j + 1))))))))))))))))))"

fun set_list :: "lua_env \<Rightarrow> caller \<Rightarrow> nat \<Rightarrow> addr \<Rightarrow> nat \<Rightarrow> int \<Rightarrow> unit vm" where
  "set_list E call ra a 0 lst = vret ()"
| "set_list E call ra a (Suc n) lst =
     vbind (stack_get (ra + Suc n)) (\<lambda>v.
     vbind (table_at a) (\<lambda>h.
     vbind (vres_error call (luaH_setnum (E_view E) h lst)) (\<lambda>(h, s).
     vthen (set_table a (set_slot h s v)) (set_list E call ra a n (lst - 1)))))"

definition op_setlist :: "lua_env \<Rightarrow> caller \<Rightarrow> Proto \<Rightarrow> int \<Rightarrow> Instruction \<Rightarrow> outcome vm" where
  "op_setlist E call p pc i =
     vbind (reg (GETARG_A i)) (\<lambda>ra.
     vbind (if GETARG_B i = 0
            then vbind (vget L_top) (\<lambda>tp. vbind (vget cur_ci) (\<lambda>ci. vthen (set_top (ci_top ci)) (vret (int tp - int ra - 1))))
            else vret (GETARG_B i)) (\<lambda>n.
     vbind (if GETARG_C i = 0 then vbind (fetch p pc) (\<lambda>w. vret (sint w, pc + 1)) else vret (GETARG_C i, pc)) (\<lambda>(c, pc).
     vbind (stack_get ra) (\<lambda>t.
       case t of
         TGC (GTable a) \<Rightarrow>
           vbind (table_at a) (\<lambda>h.
             let lst = (c - 1) * LFIELDS_PER_FLUSH + n
             in vthen (if int (sizearray h) < lst
                       then vbind (vres_error call (luaH_resizearray (E_view E) h (nat lst))) (set_table a) else vret ())
                  (vthen (set_list E call ra a (nat n) lst) (vret (Next pc))))
       | _ \<Rightarrow> vret (Next pc)))))"

fun capture :: "Proto \<Rightarrow> addr list \<Rightarrow> nat \<Rightarrow> int \<Rightarrow> addr list vm" where
  "capture p upvals 0 pc = vret []"
| "capture p upvals (Suc n) pc =
     vbind (fetch p pc) (\<lambda>i.
     vbind (if is_op OP_GETUPVAL i
            then (if nat (GETARG_B i) < length upvals then vret (upvals ! nat (GETARG_B i)) else vexc Crash)
            else vbind (reg (GETARG_B i)) find_upval) (\<lambda>u.
     vbind (capture p upvals n (pc + 1)) (\<lambda>us. vret (u # us))))"

definition op_closure :: "addr \<Rightarrow> addr list \<Rightarrow> Proto \<Rightarrow> int \<Rightarrow> Instruction \<Rightarrow> outcome vm" where
  "op_closure env upvals p pc i =
     (if nat (GETARG_Bx i) < length (pp p)
      then let np = pp p ! nat (GETARG_Bx i)
           in vbind (capture p upvals (unat (pnups np)) pc) (\<lambda>us.
              vbind (new_closure (LClosure env np us)) (\<lambda>a.
              vthen (set_reg (GETARG_A i) (TGC (GFunction a))) (vret (Next (pc + uint (pnups np))))))
      else vexc Crash)"

fun copy_varargs :: "nat \<Rightarrow> nat \<Rightarrow> nat list \<Rightarrow> nat \<Rightarrow> unit vm" where
  "copy_varargs ra n [] frm = vret ()"
| "copy_varargs ra n (j # js) frm =
     vthen (if j < n then vbind (stack_get (frm + j)) (stack_set (ra + j)) else stack_set (ra + j) TNil)
       (copy_varargs ra n js frm)"

definition op_vararg :: "Proto \<Rightarrow> int \<Rightarrow> Instruction \<Rightarrow> outcome vm" where
  "op_vararg p pc i =
     vbind (vget cur_ci) (\<lambda>ci.
       let n = int (ci_base ci) - int (ci_func ci) - uint (pnumparams p) - 1
       in vthen (if GETARG_B i - 1 = LUA_MULTRET
                 then vthen (save_pc pc) (vthen (luaD_checkstack n) (vbind (reg (GETARG_A i)) (\<lambda>ra. set_top (nat (int ra + n)))))
                 else vret ())
          (vbind (reg (GETARG_A i)) (\<lambda>ra.
           vthen (copy_varargs ra (nat n) [0..<nat (if GETARG_B i - 1 = LUA_MULTRET then n else GETARG_B i - 1)]
                    (nat (int (ci_base ci) - n)))
             (vret (Next pc)))))"

section \<open>Calls and returns\<close>

text \<open>The arguments end at \<open>ra + b\<close>, or where the previous instruction left the top.\<close>

definition set_args :: "nat \<Rightarrow> int \<Rightarrow> unit vm" where
  "set_args ra b = (if b \<noteq> 0 then set_top (ra + nat b) else vret ())"

definition op_call :: "lua_env \<Rightarrow> caller \<Rightarrow> int \<Rightarrow> Instruction \<Rightarrow> outcome vm" where
  "op_call E call pc i =
     vbind (reg (GETARG_A i)) (\<lambda>ra.
     vthen (set_args ra (GETARG_B i))
     (vthen (save_pc pc)
     (vbind (luaD_precall E call ra (GETARG_C i - 1)) (\<lambda>r.
        case r of
          PCRLUA \<Rightarrow> vret Called
        | PCRC \<Rightarrow> vthen (if 0 \<le> GETARG_C i - 1 then vbind (vget cur_ci) (\<lambda>ci. set_top (ci_top ci)) else vret ())
                   (vret (Next pc))))))"

fun move_down :: "nat \<Rightarrow> nat \<Rightarrow> nat \<Rightarrow> unit vm" where
  "move_down func pfunc 0 = vret ()"
| "move_down func pfunc (Suc n) =
     vbind (stack_get pfunc) (\<lambda>v. vthen (stack_set func v) (move_down (func + 1) (pfunc + 1) n))"

text \<open>A tail call puts the new frame in place of the caller's.\<close>

definition replace_frame :: "unit vm" where
  "replace_frame =
     vbind (vget cur_ci) (\<lambda>new.
     vbind (vget (\<lambda>L. L_base_ci L ! (L_ci L - 1))) (\<lambda>old.
     vbind (vget L_openupval) (\<lambda>uo.
     vthen (if uo \<noteq> [] then close_upvals (ci_base old) else vret ())
     (vbind (vget L_top) (\<lambda>tp.
       let func = ci_func old; pfunc = ci_func new; base = func + (ci_base new - pfunc)
       in vthen (move_down func pfunc (tp - pfunc))
          (vthen (vupd (\<lambda>L. L\<lparr>L_base := base, L_top := func + (tp - pfunc), L_ci := L_ci L - 1\<rparr>))
          (vbind (vget L_savedpc) (\<lambda>pc.
           upd_ci (\<lambda>ci. ci\<lparr>ci_base := base, ci_top := func + (tp - pfunc), ci_savedpc := pc,
                           ci_tailcalls := ci_tailcalls ci + 1\<rparr>)))))))))"

definition op_tailcall :: "lua_env \<Rightarrow> caller \<Rightarrow> int \<Rightarrow> Instruction \<Rightarrow> outcome vm" where
  "op_tailcall E call pc i =
     vbind (reg (GETARG_A i)) (\<lambda>ra.
     vthen (set_args ra (GETARG_B i))
     (vthen (save_pc pc)
     (vbind (luaD_precall E call ra LUA_MULTRET) (\<lambda>r.
        case r of PCRLUA \<Rightarrow> vthen replace_frame (vret TailCalled) | PCRC \<Rightarrow> vret (Next pc)))))"

definition op_return :: "int \<Rightarrow> Instruction \<Rightarrow> outcome vm" where
  "op_return pc i =
     vbind (reg (GETARG_A i)) (\<lambda>ra.
     vthen (if GETARG_B i \<noteq> 0 then set_top (nat (int ra + GETARG_B i - 1)) else vret ())
     (vbind (vget L_openupval) (\<lambda>uo.
      vbind (vget L_base) (\<lambda>base.
      vthen (if uo \<noteq> [] then close_upvals base else vret ())
      (vthen (save_pc pc) (vbind (luaD_poscall ra) (\<lambda>b. vret (Returned b))))))))"

section \<open>The step\<close>

definition vnext :: "int \<Rightarrow> unit vm \<Rightarrow> outcome vm" where "vnext pc m = vthen m (vret (Next pc))"

fun vm_op :: "lua_env \<Rightarrow> caller \<Rightarrow> addr \<Rightarrow> Proto \<Rightarrow> addr list \<Rightarrow> int \<Rightarrow> Instruction \<Rightarrow> OpCode \<Rightarrow> outcome vm" where
  "vm_op E call env p upvals pc i OP_MOVE = vnext pc (vbind (get_reg (GETARG_B i)) (set_reg (GETARG_A i)))"
| "vm_op E call env p upvals pc i OP_LOADK = vnext pc (vbind (const_at p (GETARG_Bx i)) (set_reg (GETARG_A i)))"
| "vm_op E call env p upvals pc i OP_LOADBOOL =
     vthen (set_reg (GETARG_A i) (TBoolean (GETARG_B i \<noteq> 0))) (vret (Next (if GETARG_C i \<noteq> 0 then pc + 1 else pc)))"
| "vm_op E call env p upvals pc i OP_LOADNIL =
     vnext pc (vbind (reg (GETARG_B i)) (\<lambda>rb. set_nils rb (nat (GETARG_B i - GETARG_A i))))"
| "vm_op E call env p upvals pc i OP_GETUPVAL =
     vnext pc (if nat (GETARG_B i) < length upvals
               then vbind (upval_get (upvals ! nat (GETARG_B i))) (set_reg (GETARG_A i)) else vexc Crash)"
| "vm_op E call env p upvals pc i OP_GETGLOBAL =
     vnext pc (vbind (const_at p (GETARG_Bx i)) (\<lambda>key. vbind (reg (GETARG_A i)) (\<lambda>ra.
       vthen (save_pc pc) (luaV_gettable E call (TGC (GTable env), None) key ra))))"
| "vm_op E call env p upvals pc i OP_GETTABLE =
     vnext pc (vbind (R_operand (GETARG_B i)) (\<lambda>t. vbind (RK_operand p (GETARG_C i)) (\<lambda>key. vbind (reg (GETARG_A i)) (\<lambda>ra.
       vthen (save_pc pc) (luaV_gettable E call t (fst key) ra)))))"
| "vm_op E call env p upvals pc i OP_SETGLOBAL =
     vnext pc (vbind (const_at p (GETARG_Bx i)) (\<lambda>key. vbind (get_reg (GETARG_A i)) (\<lambda>v.
       vthen (save_pc pc) (luaV_settable E call (TGC (GTable env), None) key v))))"
| "vm_op E call env p upvals pc i OP_SETUPVAL =
     vnext pc (vbind (get_reg (GETARG_A i)) (\<lambda>v.
       if nat (GETARG_B i) < length upvals then upval_set (upvals ! nat (GETARG_B i)) v else vexc Crash))"
| "vm_op E call env p upvals pc i OP_SETTABLE =
     vnext pc (vbind (R_operand (GETARG_A i)) (\<lambda>t. vbind (RK_operand p (GETARG_B i)) (\<lambda>key. vbind (RK_operand p (GETARG_C i)) (\<lambda>v.
       vthen (save_pc pc) (luaV_settable E call t (fst key) (fst v))))))"
| "vm_op E call env p upvals pc i OP_NEWTABLE =
     vnext pc (vbind (vres_error call (luaH_new (nat (luaO_fb2int (GETARG_B i))) (nat (luaO_fb2int (GETARG_C i))))) (\<lambda>t.
       vbind (new_table t) (\<lambda>a. set_reg (GETARG_A i) (TGC (GTable a)))))"
| "vm_op E call env p upvals pc i OP_SELF =
     vnext pc (vbind (get_reg (GETARG_B i)) (\<lambda>v. vthen (set_reg (GETARG_A i + 1) v)
       (vbind (R_operand (GETARG_B i)) (\<lambda>t. vbind (RK_operand p (GETARG_C i)) (\<lambda>key. vbind (reg (GETARG_A i)) (\<lambda>ra.
         vthen (save_pc pc) (luaV_gettable E call t (fst key) ra)))))))"
| "vm_op E call env p upvals pc i OP_ADD = arith_op E call p pc i TM_ADD"
| "vm_op E call env p upvals pc i OP_SUB = arith_op E call p pc i TM_SUB"
| "vm_op E call env p upvals pc i OP_MUL = arith_op E call p pc i TM_MUL"
| "vm_op E call env p upvals pc i OP_DIV = arith_op E call p pc i TM_DIV"
| "vm_op E call env p upvals pc i OP_MOD = arith_op E call p pc i TM_MOD"
| "vm_op E call env p upvals pc i OP_POW = arith_op E call p pc i TM_POW"
| "vm_op E call env p upvals pc i OP_UNM =
     vnext pc (vbind (R_operand (GETARG_B i)) (\<lambda>rb. vbind (reg (GETARG_A i)) (\<lambda>ra.
       case fst rb of
         TNumber n \<Rightarrow> stack_set ra (TNumber (luai_numunm n))
       | _ \<Rightarrow> vthen (save_pc pc) (Arith E call ra rb rb TM_UNM))))"
| "vm_op E call env p upvals pc i OP_NOT =
     vnext pc (vbind (get_reg (GETARG_B i)) (\<lambda>v. set_reg (GETARG_A i) (TBoolean (l_isfalse v))))"
| "vm_op E call env p upvals pc i OP_LEN = op_len E call pc i"
| "vm_op E call env p upvals pc i OP_CONCAT =
     (let b = GETARG_B i; c = GETARG_C i
      in vnext pc (vthen (save_pc pc) (vthen (luaV_concat (nat (c - b + 1)) E call (nat (c - b + 1)) (nat c))
           (vbind (get_reg b) (set_reg (GETARG_A i))))))"
| "vm_op E call env p upvals pc i OP_JMP = vret (Next (pc + GETARG_sBx i))"
| "vm_op E call env p upvals pc i OP_EQ = compare_op (equalobj E call) p pc i"
| "vm_op E call env p upvals pc i OP_LT = compare_op (luaV_lessthan E call) p pc i"
| "vm_op E call env p upvals pc i OP_LE = compare_op (lessequal E call) p pc i"
| "vm_op E call env p upvals pc i OP_TEST =
     vbind (get_reg (GETARG_A i)) (\<lambda>v. cond_jump p pc (of_bool (l_isfalse v) \<noteq> GETARG_C i))"
| "vm_op E call env p upvals pc i OP_TESTSET =
     vbind (get_reg (GETARG_B i)) (\<lambda>v.
       vthen (if of_bool (l_isfalse v) \<noteq> GETARG_C i then set_reg (GETARG_A i) v else vret ())
         (cond_jump p pc (of_bool (l_isfalse v) \<noteq> GETARG_C i)))"
| "vm_op E call env p upvals pc i OP_CALL = op_call E call pc i"
| "vm_op E call env p upvals pc i OP_TAILCALL = op_tailcall E call pc i"
| "vm_op E call env p upvals pc i OP_RETURN = op_return pc i"
| "vm_op E call env p upvals pc i OP_FORLOOP = op_forloop pc i"
| "vm_op E call env p upvals pc i OP_FORPREP = op_forprep E call pc i"
| "vm_op E call env p upvals pc i OP_TFORLOOP = op_tforloop call p pc i"
| "vm_op E call env p upvals pc i OP_SETLIST = op_setlist E call p pc i"
| "vm_op E call env p upvals pc i OP_CLOSE = vnext pc (vbind (reg (GETARG_A i)) close_upvals)"
| "vm_op E call env p upvals pc i OP_CLOSURE = op_closure env upvals p pc i"
| "vm_op E call env p upvals pc i OP_VARARG = op_vararg p pc i"

text \<open>A field that is no opcode does nothing.\<close>

definition vm_step :: "lua_env \<Rightarrow> caller \<Rightarrow> addr \<Rightarrow> Proto \<Rightarrow> addr list \<Rightarrow> int \<Rightarrow> outcome vm" where
  "vm_step E call env p upvals pc =
     vbind (fetch p pc) (\<lambda>i.
       case OpCode_of (GET_OPCODE i) of
         None \<Rightarrow> vret (Next (pc + 1))
       | Some op \<Rightarrow> vm_op E call env p upvals (pc + 1) i op)"

section \<open>The loop\<close>

text \<open>\<open>nexec\<close> counts the Lua functions that this activation runs; without a frame it starts the
  function of the current call record.\<close>

fun luaV_execute :: "nat \<Rightarrow> lua_env \<Rightarrow> caller \<Rightarrow> nat \<Rightarrow> (Closure \<times> int) option \<Rightarrow> unit vm" where
  "luaV_execute 0 E call nexec frame = vexc NoFuel"
| "luaV_execute (Suc fuel) E call nexec None =
     vbind (vget cur_ci) (\<lambda>ci. vbind (callee (ci_func ci)) (\<lambda>cl. vbind (vget L_savedpc) (\<lambda>pc.
       luaV_execute fuel E call nexec (Some (cl, pc)))))"
| "luaV_execute (Suc fuel) E call nexec (Some (CClosure _ _ _, pc)) = vexc Crash"
| "luaV_execute (Suc fuel) E call nexec (Some (LClosure env p upvals, pc)) =
     vbind (vm_step E call env p upvals pc) (\<lambda>r.
       case r of
         Next pc \<Rightarrow> luaV_execute fuel E call nexec (Some (LClosure env p upvals, pc))
       | Called \<Rightarrow> luaV_execute fuel E call (nexec + 1) None
       | TailCalled \<Rightarrow> luaV_execute fuel E call nexec None
       | Returned b \<Rightarrow>
           if nexec = 1 then vret ()
           else vthen (if b then vbind (vget cur_ci) (\<lambda>ci. set_top (ci_top ci)) else vret ())
                  (luaV_execute fuel E call (nexec - 1) None))"

fun luaD_call :: "nat \<Rightarrow> lua_env \<Rightarrow> nat \<Rightarrow> int \<Rightarrow> unit vm" where
  "luaD_call 0 E func nResults = vexc NoFuel"
| "luaD_call (Suc fuel) E func nResults =
     vthen (vupd (\<lambda>L. L\<lparr>L_nCcalls := L_nCcalls L + 1\<rparr>))
     (vbind (vget L_nCcalls) (\<lambda>n.
      vthen (if n = LUAI_MAXCCALLS then luaG_runerror (luaD_call fuel E) (bytes ''C stack overflow'')
             else if n \<ge> LUAI_MAXCCALLS + LUAI_MAXCCALLS div 8 then luaD_throw LUA_ERRERR
             else vret ())
      (vbind (luaD_precall E (luaD_call fuel E) func nResults) (\<lambda>r.
       vthen (if r = PCRLUA then luaV_execute fuel E (luaD_call fuel E) 1 None else vret ())
         (vupd (\<lambda>L. L\<lparr>L_nCcalls := L_nCcalls L - 1\<rparr>))))))"

end
