(* ===== verification/LVmFrame.thy ===== *)
theory LVmFrame
  imports LVM
begin

text \<open>
  Calls are balanced: every operation that returns leaves the call records of the running function
  and of its callers as they were, the count of C calls included. The lemmas of the collection
  \<open>keeps\<close> say so of each operation, and \<open>call_is_balanced\<close> of a whole call.
\<close>

named_theorems keeps

section \<open>Frames\<close>

definition ci_frame :: "CallInfo \<Rightarrow> nat \<times> nat \<times> nat \<times> int" where
  "ci_frame ci = (ci_base ci, ci_func ci, ci_top ci, ci_nresults ci)"

definition frames :: "nat \<Rightarrow> lua_State \<Rightarrow> (nat \<times> nat \<times> nat \<times> int) list" where
  "frames n L = map ci_frame (take n (L_base_ci L))"

definition wf_ci :: "lua_State \<Rightarrow> bool" where
  "wf_ci L \<longleftrightarrow> L_ci L < length (L_base_ci L) \<and> L_base L = ci_base (cur_ci L)"

text \<open>What belongs to no call record.\<close>

definition same_rest :: "lua_State \<Rightarrow> lua_State \<Rightarrow> bool" where
  "same_rest L L' \<longleftrightarrow>
     L_nCcalls L' = L_nCcalls L \<and> L_errfunc L' = L_errfunc L \<and> length (L_stack L) \<le> length (L_stack L')"

definition frame :: "lua_State \<Rightarrow> lua_State \<Rightarrow> bool" where
  "frame L L' \<longleftrightarrow>
     same_rest L L' \<and> L_ci L' = L_ci L \<and> L_base L' = L_base L \<and> frames (L_ci L + 1) L' = frames (L_ci L + 1) L"

lemma same_rest_refl [simp]: "same_rest L L"
  by (simp add: same_rest_def)

lemma same_rest_trans: "same_rest L L' \<Longrightarrow> same_rest L' L'' \<Longrightarrow> same_rest L L''"
  by (auto simp: same_rest_def)

lemma frame_refl [simp]: "frame L L"
  by (simp add: frame_def)

lemma frame_trans: "frame L L' \<Longrightarrow> frame L' L'' \<Longrightarrow> frame L L''"
  by (auto simp: frame_def intro: same_rest_trans)

lemma frames_less: "frames n L' = frames n L \<Longrightarrow> m \<le> n \<Longrightarrow> frames m L' = frames m L"
proof -
  assume a: "frames n L' = frames n L" and b: "m \<le> n"
  have "frames m K = take m (frames n K)" for K using b by (simp add: frames_def take_map min_absorb1)
  then show ?thesis using a by simp
qed

lemma frames_nth:
  assumes "frames n L' = frames n L" and "k < n" and "k < length (L_base_ci L)"
  shows "k < length (L_base_ci L') \<and> ci_frame (L_base_ci L' ! k) = ci_frame (L_base_ci L ! k)"
proof -
  have len: "length (frames n L') = length (frames n L)" using assms(1) by simp
  then have k: "k < length (L_base_ci L')" using assms(2,3) by (auto simp: frames_def min_def split: if_splits)
  have "frames n L' ! k = frames n L ! k" using assms(1) by simp
  then show ?thesis using k assms(2,3) by (simp add: frames_def)
qed

lemma wf_frames:
  assumes "wf_ci L" and "frames (L_ci L + 1) L' = frames (L_ci L + 1) L"
  shows "L_ci L < length (L_base_ci L')" and "ci_base (L_base_ci L' ! L_ci L) = L_base L"
  using frames_nth [OF assms(2), of "L_ci L"] assms(1) by (auto simp: wf_ci_def cur_ci_def ci_frame_def)

lemma frame_wf: "frame L L' \<Longrightarrow> wf_ci L \<Longrightarrow> wf_ci L'"
  using wf_frames [of L L'] by (auto simp: frame_def wf_ci_def cur_ci_def)

section \<open>Operations that keep the frame\<close>

text \<open>What holds of the records below \<open>d\<close> when an error is on its way up.\<close>

definition unwound :: "nat \<Rightarrow> lua_State \<Rightarrow> lua_State \<Rightarrow> bool" where
  "unwound d L L' \<longleftrightarrow> frames d L' = frames d L \<and> length (L_stack L) \<le> length (L_stack L')"

text \<open>\<open>triple U L m Q\<close>: from \<open>L\<close>, the computation fails in a state where \<open>U\<close> holds or returns with \<open>Q\<close>.\<close>

definition triple :: "(lua_State \<Rightarrow> bool) \<Rightarrow> lua_State \<Rightarrow> 'a vm \<Rightarrow> ('a \<Rightarrow> lua_State \<Rightarrow> bool) \<Rightarrow> bool" where
  "triple U L m Q \<longleftrightarrow> (case m L of (Inl _, L') \<Rightarrow> U L' | (Inr x, L') \<Rightarrow> Q x L')"

definition safe_below :: "lua_State \<Rightarrow> lua_State \<Rightarrow> bool" where "safe_below L = unwound (L_ci L + 1) L"

definition keeps_frame :: "'a vm \<Rightarrow> bool" where
  "keeps_frame m \<longleftrightarrow> (\<forall>L. wf_ci L \<longrightarrow> triple (safe_below L) L m (\<lambda>x. frame L))"

lemma unwound_refl [simp]: "unwound d L L"
  by (simp add: unwound_def)

lemma safe_below_refl [simp]: "safe_below L L"
  by (simp add: safe_below_def)

lemma unwound_trans: "unwound d L L' \<Longrightarrow> unwound d L' L'' \<Longrightarrow> unwound d L L''"
  by (auto simp: unwound_def)

lemma unwound_less: "unwound n L L' \<Longrightarrow> m \<le> n \<Longrightarrow> unwound m L L'"
  by (auto simp: unwound_def intro: frames_less)

lemma frame_unwound: "frame L L' \<Longrightarrow> d \<le> L_ci L + 1 \<Longrightarrow> unwound d L L'"
  by (auto simp: frame_def unwound_def same_rest_def intro: frames_less)

lemma vbind_Inr: "vbind m f L = (Inr y, L'') \<longleftrightarrow> (\<exists>x L'. m L = (Inr x, L') \<and> f x L' = (Inr y, L''))"
  by (auto simp: vbind_def split: prod.splits sum.splits)

lemma vbind_assoc: "vbind (vbind m f) g = vbind m (\<lambda>x. vbind (f x) g)"
  by (rule ext) (simp add: vbind_def split: sum.split prod.split)

lemma triple_vbind:
  "triple U L m R \<Longrightarrow> (\<And>x L1. R x L1 \<Longrightarrow> triple U L1 (f x) Q) \<Longrightarrow> triple U L (vbind m f) Q"
  by (cases "m L"; cases "fst (m L)") (auto simp: triple_def vbind_def)

lemma triple_weaken:
  "triple U L m R \<Longrightarrow> (\<And>x L'. R x L' \<Longrightarrow> Q x L') \<Longrightarrow> (\<And>L'. U L' \<Longrightarrow> V L') \<Longrightarrow> triple V L m Q"
  by (auto simp: triple_def split: sum.splits prod.splits)

lemma triple_keeps:
  assumes "keeps_frame m" and "wf_ci L" and "\<And>L'. safe_below L L' \<Longrightarrow> U L'" and "\<And>x L'. frame L L' \<Longrightarrow> Q x L'"
  shows "triple U L m Q"
  using assms by (auto simp: keeps_frame_def intro: triple_weaken)

lemma triple_basic [simp]:
  "triple U L (vret x) Q \<longleftrightarrow> Q x L" "triple U L (vexc e) Q \<longleftrightarrow> U L" "triple U L (vget g) Q \<longleftrightarrow> Q (g L) L"
  "triple U L (luaD_throw c) Q \<longleftrightarrow> U L"
  by (simp_all add: triple_def luaD_throw_def)

lemma triple_vupd [simp]: "triple U L (vupd h) Q \<longleftrightarrow> Q () (h L)"
  by (simp add: triple_def)

lemma triple_vget: "triple U L (f (g L)) Q \<Longrightarrow> triple U L (vbind (vget g) f) Q"
  by (simp add: triple_def)

lemma triple_vupd_then: "triple U (h L) m Q \<Longrightarrow> triple U L (vthen (vupd h) m) Q"
  by (simp add: triple_def)

lemma triple_Inr: "triple U L m Q \<Longrightarrow> m L = (Inr x, L') \<Longrightarrow> Q x L'"
  by (simp add: triple_def)

lemma keeps_frameD: "keeps_frame m \<Longrightarrow> wf_ci L \<Longrightarrow> m L = (Inr x, L') \<Longrightarrow> frame L L'"
  by (auto simp: keeps_frame_def triple_def)

lemma frame_safe: "frame L L1 \<Longrightarrow> safe_below L1 L' \<Longrightarrow> safe_below L L'"
  using frame_unwound [of L L1 "L_ci L + 1"] by (auto simp: safe_below_def frame_def intro: unwound_trans)

lemma triple_framed:
  assumes "keeps_frame m" and "wf_ci L" and "frame L L1"
  shows "triple (safe_below L) L1 m (\<lambda>_. frame L)"
  by (rule triple_keeps [OF assms(1) frame_wf [OF assms(3,2)]]) (use assms(3) in \<open>auto intro: frame_trans frame_safe\<close>)

lemma framed_vbind:
  assumes "keeps_frame m" and "wf_ci L" and "frame L L1" and "\<And>x L2. frame L L2 \<Longrightarrow> triple (safe_below L) L2 (f x) Q"
  shows "triple (safe_below L) L1 (vbind m f) Q"
  by (rule triple_vbind [OF triple_framed [OF assms(1-3)] assms(4)])

lemma keeps_vbind [keeps]:
  assumes m: "keeps_frame m" and f: "\<And>x. keeps_frame (f x)"
  shows "keeps_frame (vbind m f)"
  unfolding keeps_frame_def by (auto intro!: framed_vbind [OF m] triple_framed [OF f])

lemma keeps_upd: "(\<And>L. wf_ci L \<Longrightarrow> frame L (f L)) \<Longrightarrow> keeps_frame (vupd f)"
  by (simp add: keeps_frame_def)

lemma keeps_frame_basic [keeps]:
  "keeps_frame (vret x)" "keeps_frame (vexc e)" "keeps_frame (vget g)" "keeps_frame (luaD_throw c)"
  by (auto simp: keeps_frame_def)

lemma keeps_vopt [keeps]: "keeps_frame (vopt r)"
  by (cases r) (auto simp: keeps_frame_def)

lemma keeps_stack [keeps]: "keeps_frame (stack_get i)" "keeps_frame (stack_set i v)" "keeps_frame (set_top j)"
  by (auto simp: keeps_frame_def triple_def stack_get_def stack_set_def set_top_def frame_def same_rest_def frames_def)

lemma keeps_frame_if [keeps]: "keeps_frame a \<Longrightarrow> keeps_frame b \<Longrightarrow> keeps_frame (if c then a else b)"
  by simp

lemma keeps_let [keeps]: "(\<And>x. keeps_frame (f x)) \<Longrightarrow> keeps_frame (let x = y in f x)"
  by simp

lemma keeps_option [keeps]:
  "keeps_frame a \<Longrightarrow> (\<And>x. keeps_frame (f x)) \<Longrightarrow> keeps_frame (case r of None \<Rightarrow> a | Some x \<Rightarrow> f x)"
  by (cases r) simp_all

lemma keeps_prod [keeps]: "(\<And>a b. keeps_frame (f a b)) \<Longrightarrow> keeps_frame (case p of (a, b) \<Rightarrow> f a b)"
  by (cases p) simp

lemma keeps_sum [keeps]:
  "(\<And>x. keeps_frame (f x)) \<Longrightarrow> (\<And>x. keeps_frame (g x)) \<Longrightarrow> keeps_frame (case r of Inl x \<Rightarrow> f x | Inr x \<Rightarrow> g x)"
  by (cases r) simp_all

lemma keeps_tvalue [keeps]:
  "keeps_frame a \<Longrightarrow> (\<And>x. keeps_frame (f x)) \<Longrightarrow> (\<And>x. keeps_frame (g x)) \<Longrightarrow> (\<And>x. keeps_frame (h x)) \<Longrightarrow>
   (\<And>x. keeps_frame (k x)) \<Longrightarrow> (\<And>x. keeps_frame (d x)) \<Longrightarrow> keeps_frame (case_tvalue a f g h k d v)"
  by (cases v) simp_all

lemma keeps_gcvalue [keeps]:
  "(\<And>x. keeps_frame (f x)) \<Longrightarrow> (\<And>x. keeps_frame (g x)) \<Longrightarrow> (\<And>x. keeps_frame (h x)) \<Longrightarrow>
   (\<And>x. keeps_frame (k x)) \<Longrightarrow> (\<And>x. keeps_frame (d x)) \<Longrightarrow> keeps_frame (case_gcvalue f g h k d v)"
  by (cases v) simp_all

lemma keeps_Closure [keeps]:
  "(\<And>x y z. keeps_frame (f x y z)) \<Longrightarrow> (\<And>x y z. keeps_frame (g x y z)) \<Longrightarrow> keeps_frame (case_Closure f g cl)"
  by (cases cl) simp_all

section \<open>State and heap\<close>

lemma keeps_rest: "(\<And>L. same_rest L (f L) \<and> L_ci (f L) = L_ci L \<and> L_base (f L) = L_base L \<and> L_base_ci (f L) = L_base_ci L) \<Longrightarrow>
  keeps_frame (vupd f)"
  by (rule keeps_upd) (simp add: frame_def frames_def)

lemma keeps_upd_ci: "(\<And>ci. ci_frame (f ci) = ci_frame ci) \<Longrightarrow> keeps_frame (upd_ci f)"
  unfolding upd_ci_def
  by (rule keeps_upd)
    (simp add: frame_def frames_def same_rest_def cur_ci_def wf_ci_def take_update_swap map_update list_update_same_conv)

lemma keeps_savedpc [keeps]: "keeps_frame (upd_ci (\<lambda>ci. ci\<lparr>ci_savedpc := pc\<rparr>))"
  by (rule keeps_upd_ci) (simp add: ci_frame_def)

lemma keeps_heap [keeps]:
  "keeps_frame (table_at a)" "keeps_frame (closure_at a)" "keeps_frame (udata_at a)" "keeps_frame (set_table a t)"
  "keeps_frame new_addr" "keeps_frame (new_table t)" "keeps_frame (new_closure cl)"
  "keeps_frame (save_pc pc)" "keeps_frame (vupd (\<lambda>L. L\<lparr>L_top := L_top L + 1\<rparr>))"
proof -
  have na: "keeps_frame new_addr"
    by (auto simp: keeps_frame_def triple_def new_addr_def frame_def frames_def same_rest_def)
  have st: "keeps_frame (set_table a t)" for a t
    unfolding set_table_def by (rule keeps_rest) (simp add: same_rest_def)
  have sc: "keeps_frame (vupd (\<lambda>L. L\<lparr>L_closures := (L_closures L)(a \<mapsto> cl)\<rparr>))" for a cl
    by (rule keeps_rest) (simp add: same_rest_def)
  show "keeps_frame (table_at a)" "keeps_frame (closure_at a)" "keeps_frame (udata_at a)" "keeps_frame (set_table a t)"
    "keeps_frame new_addr" "keeps_frame (new_table t)" "keeps_frame (new_closure cl)"
    unfolding table_at_def closure_at_def udata_at_def new_table_def new_closure_def
    by (intro keeps na st sc)+
  show "keeps_frame (save_pc pc)" "keeps_frame (vupd (\<lambda>L. L\<lparr>L_top := L_top L + 1\<rparr>))"
    unfolding save_pc_def by (rule keeps_rest, simp add: same_rest_def)+
qed

lemma keeps_checkstack [keeps]: "keeps_frame (luaD_checkstack n)"
  unfolding luaD_checkstack_def
  by (rule keeps_rest) (auto simp: same_rest_def luaD_growstack_def luaD_reallocstack_def Let_def EXTRA_STACK_def)

lemma stk_close: "stk (luaF_close u level) = stk u"
proof -
  have one: "stk (close_one p u) = stk u" for p and u :: "'a upstate"
    by (simp add: close_one_def luaF_freeupval_def unlinkupval_def upd_uv_def Let_def split: option.splits)
  have "stk (close_loop level l u) = stk u" for l and u :: "'a upstate"
    by (induction l arbitrary: u) (simp_all add: one)
  then show ?thesis by (simp add: luaF_close_def)
qed

lemma stk_findupval: "stk (snd (luaF_findupval u level)) = stk u"
  by (auto simp: luaF_findupval_def upd_uv_def split: prod.splits option.splits)

lemma keeps_upvals [keeps]:
  "keeps_frame (close_upvals level)" "keeps_frame (find_upval level)" "keeps_frame (upval_get a)" "keeps_frame (upval_set a v)"
proof -
  have up: "keeps_frame (vupd (\<lambda>L. L\<lparr>L_uvs := (L_uvs L)(a \<mapsto> u\<lparr>uv_value := v\<rparr>)\<rparr>))" for u :: "lstr UpVal"
    by (rule keeps_rest) (simp add: same_rest_def)
  show "keeps_frame (close_upvals level)"
    unfolding close_upvals_def by (rule keeps_rest) (simp add: same_rest_def up_store_def up_view_def stk_close)
  show "keeps_frame (find_upval level)"
  proof -
    have "stk u = L_stack L" if "luaF_findupval (up_view L) level = (p, u)" for L p u
      using stk_findupval [of "up_view L" level] that by (simp add: up_view_def)
    then show ?thesis
      by (auto simp: keeps_frame_def triple_def find_upval_def frame_def frames_def same_rest_def up_store_def split: prod.splits)
  qed
  show "keeps_frame (upval_get a)" "keeps_frame (upval_set a v)"
    unfolding upval_get_def upval_set_def by (intro keeps up)+
qed

lemma keeps_push [keeps]: "keeps_frame incr_top" "keeps_frame (push v)"
  unfolding push_def incr_top_def by (intro keeps)+

section \<open>Errors and metamethods\<close>

definition keeps_call :: "caller \<Rightarrow> bool" where
  "keeps_call call \<longleftrightarrow> (\<forall>a n. keeps_frame (call a n))"

lemma keeps_callD: "keeps_call call \<Longrightarrow> keeps_frame (call a n)"
  by (simp add: keeps_call_def)

lemma keeps_vres_plain [keeps]: "keeps_frame (vres r)"
  unfolding vres_def by (intro keeps)

lemma keeps_debug [keeps]:
  "keeps_frame (ci_closure ci)" "keeps_frame (lua_proto ci)" "keeps_frame (isLua ci)" "keeps_frame currentpc"
  "keeps_frame currentline" "keeps_frame (svalue v)" "keeps_frame (addinfo msg)" "keeps_frame (const_at p k)" "keeps_frame (kname p k)"
proof -
  have cl: "keeps_frame (ci_closure ci)" for ci unfolding ci_closure_def by (intro keeps)
  have pr: "keeps_frame (lua_proto ci)" for ci unfolding lua_proto_def by (intro keeps cl)
  have il: "keeps_frame (isLua ci)" for ci unfolding isLua_def by (intro keeps pr)
  have pc: "keeps_frame currentpc" unfolding currentpc_def by (intro keeps il)
  have li: "keeps_frame currentline" unfolding currentline_def getline_def by (intro keeps pc pr)
  have sv: "keeps_frame (svalue v)" for v unfolding svalue_def by (intro keeps)
  have co: "keeps_frame (const_at p k)" for k unfolding const_at_def by (intro keeps)
  show "keeps_frame (ci_closure ci)" "keeps_frame (lua_proto ci)" "keeps_frame (isLua ci)" "keeps_frame currentpc"
    "keeps_frame currentline" "keeps_frame (svalue v)" "keeps_frame (addinfo msg)" "keeps_frame (const_at p k)" "keeps_frame (kname p k)"
    unfolding addinfo_def kname_def by (intro keeps cl pr il pc li sv co)+
qed

lemma keeps_getobjname [keeps]: "keeps_frame (getobjname n p pc r)"
proof (induction n arbitrary: r)
  case (Suc n)
  show ?case unfolding getobjname.simps Let_def
    by (intro keeps; (split OpCode.split, intro conjI impI)?; (intro keeps Suc)?)
qed (simp add: keeps)

lemma keeps_errormsg [keeps]:
  assumes c: "keeps_call call"
  shows "keeps_frame (luaG_errormsg call)" "keeps_frame (luaG_runerror call msg)"
  unfolding luaG_runerror_def luaG_errormsg_def by (intro keeps keeps_callD [OF c])+

lemma keeps_typeerror [keeps]:
  assumes c: "keeps_call call"
  shows "keeps_frame (luaG_typeerror call v act)"
  unfolding luaG_typeerror_def by (intro keeps c)

lemma keeps_operrors [keeps]:
  assumes c: "keeps_call call"
  shows "keeps_frame (luaG_concaterror call p1 p2)"
  unfolding luaG_concaterror_def by (intro keeps c)

lemma keeps_aritherror [keeps]:
  assumes c: "keeps_call call"
  shows "keeps_frame (luaG_aritherror E call p1 p2)"
  unfolding luaG_aritherror_def by (intro keeps c)

lemma keeps_ordererror [keeps]:
  assumes c: "keeps_call call"
  shows "keeps_frame (luaG_ordererror call x y)"
  unfolding luaG_ordererror_def by (intro keeps c)

lemma keeps_vres_error [keeps]:
  assumes c: "keeps_call call"
  shows "keeps_frame (vres_error call r)"
  unfolding vres_error_def by (auto intro!: keeps c split: sum.split lua_error.split)

lemma keeps_luaT [keeps]:
  "keeps_frame (getstr_value E t key)" "keeps_frame (luaT_gettm E a ev)" "keeps_frame (fasttm E mt ev)"
  "keeps_frame (luaT_gettmbyobj E v ev)"
  unfolding getstr_value_def luaT_gettm_def fasttm_def luaT_gettmbyobj_def by (intro keeps)+

lemma keeps_luaV_tostring [keeps]: "keeps_frame (luaV_tostring E p)" "keeps_frame (tostring E p)"
  unfolding tostring_def luaV_tostring_def by (intro keeps)+

section \<open>Operations that call\<close>

lemma keeps_callTM [keeps]:
  assumes c: "keeps_call call"
  shows "keeps_frame (callTMres call r f x y)" "keeps_frame (callTM call f x y z)"
  unfolding callTMres_def callTM_def by (intro keeps keeps_callD [OF c])+

lemma keeps_gettable [keeps]:
  assumes c: "keeps_call call"
  shows "keeps_frame (luaV_gettable E call t key val)"
proof -
  have "keeps_frame (gettable_loop n E call t key val)" for n
    by (induction n arbitrary: t) (unfold gettable_loop.simps Let_def, (intro keeps c | assumption)+)
  then show ?thesis by (simp add: luaV_gettable_def)
qed

lemma keeps_settable [keeps]:
  assumes c: "keeps_call call"
  shows "keeps_frame (luaV_settable E call t key val)"
proof -
  have "keeps_frame (settable_loop n E call t key val)" for n
    by (induction n arbitrary: t) (unfold settable_loop.simps Let_def, (intro keeps c | assumption)+)
  then show ?thesis by (simp add: luaV_settable_def)
qed

lemma keeps_get_compTM [keeps]: "keeps_frame (get_compTM E m1 m2 ev)"
  unfolding get_compTM_def by (intro keeps)

lemma keeps_tm [keeps]:
  assumes c: "keeps_call call"
  shows "keeps_frame (call_binTM E call p1 p2 r ev)" "keeps_frame (call_orderTM E call p1 p2 ev)"
    "keeps_frame (compare_by call tm x y)"
  unfolding call_binTM_def call_orderTM_def compare_by_def by (intro keeps c)+

lemma keeps_compare [keeps]:
  assumes c: "keeps_call call"
  shows "keeps_frame (luaV_lessthan E call x y)" "keeps_frame (lessequal E call x y)" "keeps_frame (equalobj E call x y)"
proof -
  show "keeps_frame (luaV_lessthan E call x y)" "keeps_frame (lessequal E call x y)"
    unfolding luaV_lessthan_def lessequal_def value_strings_def by (intro keeps c)+
  show "keeps_frame (equalobj E call x y)"
    unfolding equalobj_def luaV_equalval_def by (intro keeps c)+
qed

lemma keeps_str_at_pos [keeps]: "keeps_frame (str_at_pos p)"
  unfolding str_at_pos_def by (intro keeps)

lemma keeps_concat [keeps]:
  assumes c: "keeps_call call"
  shows "keeps_frame (luaV_concat n E call tot lst)"
proof -
  have cc: "keeps_frame (concat_collect k E call tp m len)" for k tp m len
    by (induction k arbitrary: m len) (unfold concat_collect.simps, (intro keeps c | assumption)+)
  have cs: "keeps_frame (concat_strings ps)" for ps
    by (induction ps) (unfold concat_strings.simps, intro keeps, (intro keeps | assumption)+)
  have cp: "keeps_frame (concat_pass E call tot tp)" for tot tp
    unfolding concat_pass_def by (intro keeps c cc cs)
  show ?thesis by (induction n arbitrary: tot lst) (unfold luaV_concat.simps, intro keeps, (intro keeps cp | assumption)+)
qed

lemma keeps_Arith [keeps]:
  assumes c: "keeps_call call"
  shows "keeps_frame (Arith E call ra rb rc ev)"
  unfolding Arith_def by (intro keeps c)

section \<open>Entering and leaving a function\<close>

definition entered :: "lua_State \<Rightarrow> lua_State \<Rightarrow> bool" where
  "entered L L' \<longleftrightarrow> same_rest L L' \<and> wf_ci L' \<and> L_ci L' = L_ci L + 1 \<and> frames (L_ci L + 1) L' = frames (L_ci L + 1) L"

lemma entered_frame: "entered L L' \<Longrightarrow> frame L' L'' \<Longrightarrow> entered L L''"
  using frames_less [of "L_ci L + 2" L'' L' "L_ci L + 1"] frame_wf [of L' L'']
  by (auto simp: entered_def frame_def intro: same_rest_trans)

lemma frame_entered: "frame L L' \<Longrightarrow> entered L' L'' \<Longrightarrow> entered L L''"
  by (auto simp: entered_def frame_def intro: same_rest_trans)

lemma keeps_loops [keeps]:
  "keeps_frame (push_nils n)" "keeps_frame (move_fixed is fx)" "keeps_frame (extra_args E js k t)"
  "keeps_frame (open_hole func n)" "keeps_frame (clear_stack st n)" "keeps_frame (move_down func pfunc n)"
  "keeps_frame (set_nils rb n)" "keeps_frame (copy_varargs ra m js k)"
proof -
  show "keeps_frame (push_nils n)" by (induction n) (unfold push_nils.simps, (intro keeps | assumption)+)
  show "keeps_frame (move_fixed is fx)" by (induction "is") (unfold move_fixed.simps, (intro keeps | assumption)+)
  show "keeps_frame (extra_args E js k t)" by (induction js arbitrary: t) (unfold extra_args.simps, (intro keeps | assumption)+)
  show "keeps_frame (open_hole func n)" by (induction n) (unfold open_hole.simps, (intro keeps | assumption)+)
  show "keeps_frame (clear_stack st n)" by (induction n arbitrary: st) (unfold clear_stack.simps, (intro keeps | assumption)+)
  show "keeps_frame (move_down func pfunc n)"
    by (induction n arbitrary: func pfunc) (unfold move_down.simps, (intro keeps | assumption)+)
  show "keeps_frame (set_nils rb n)" by (induction n arbitrary: rb) (unfold set_nils.simps, (intro keeps | assumption)+)
  show "keeps_frame (copy_varargs ra m js k)" by (induction js) (unfold copy_varargs.simps, (intro keeps | assumption)+)
qed

lemma keeps_move_results [keeps]: "keeps_frame (move_results n k w res)"
  by (induction n arbitrary: k w res) (unfold move_results.simps, (intro keeps | assumption)+)

lemma keeps_adjust_varargs [keeps]: "keeps_frame (adjust_varargs E p n)"
  unfolding adjust_varargs_def arg_table_def Let_def by (intro keeps)

lemma keeps_callee [keeps]: "keeps_frame (callee func)"
  unfolding callee_def by (intro keeps)

lemma keeps_tryfuncTM [keeps]:
  assumes c: "keeps_call call"
  shows "keeps_frame (tryfuncTM E call func)"
  unfolding tryfuncTM_def by (intro keeps c)

text \<open>After \<open>inc_ci\<close> there is a new record, which is filled next.\<close>

definition opened :: "lua_State \<Rightarrow> lua_State \<Rightarrow> bool" where
  "opened L L' \<longleftrightarrow>
     same_rest L L' \<and> L_ci L' = L_ci L + 1 \<and> L_ci L' < length (L_base_ci L') \<and> frames (L_ci L + 1) L' = frames (L_ci L + 1) L"

lemma opened_next: "L_ci L < length (L_base_ci L) \<Longrightarrow> opened L (next_ci L)"
  by (auto simp: opened_def next_ci_def same_rest_def frames_def)

lemma inc_ci_triple:
  assumes wf: "wf_ci L" and c: "keeps_call call"
  shows "triple (safe_below L) L (inc_ci call) (\<lambda>_. opened L)"
proof (cases "int (L_ci L) = L_size_ci L - 1")
  case False
  then show ?thesis using wf by (simp add: triple_def inc_ci_def opened_next wf_ci_def)
next
  case True
  define sz where "sz = 2 * L_size_ci L"
  define K where "K = L\<lparr>L_base_ci := take (nat sz) (L_base_ci L), L_size_ci := sz\<rparr>"
  have K: "frame L K" using True by (auto simp: K_def sz_def frame_def frames_def same_rest_def min_def)
  have op: "opened L (next_ci K')" if "frame L K'" for K'
    using opened_next [of K'] frame_wf [OF that wf] that
    by (auto simp: opened_def frame_def wf_ci_def intro: same_rest_trans)
  have "triple (safe_below L) L (growCI call) (\<lambda>_. frame L)"
    unfolding growCI_def realloc_ci_def
  proof (rule triple_vget)
    have "triple (safe_below L) K (if sz > LUAI_MAXCALLS then luaG_runerror call (bytes ''stack overflow'') else vret ()) (\<lambda>_. frame L)"
      by (rule triple_framed [OF _ wf K]) (intro keeps c)
    then show "triple (safe_below L) L
        (if LUAI_MAXCALLS < L_size_ci L then luaD_throw LUA_ERRERR
         else vthen (vupd (\<lambda>La. La\<lparr>L_base_ci := take (nat (2 * L_size_ci L)) (L_base_ci La), L_size_ci := 2 * L_size_ci L\<rparr>))
           (if LUAI_MAXCALLS < 2 * L_size_ci L then luaG_runerror call (bytes ''stack overflow'') else vret ())) (\<lambda>_. frame L)"
      unfolding sz_def K_def
      by (cases "LUAI_MAXCALLS < L_size_ci L")
        (simp_all only: if_True if_False triple_basic safe_below_refl, rule triple_vupd_then)
  qed
  then have "triple (safe_below L) L (vthen (growCI call) (vupd next_ci)) (\<lambda>_. opened L)"
    by (rule triple_vbind) (auto simp: op)
  moreover have "inc_ci call L = vthen (growCI call) (vupd next_ci) L" using True by (simp add: inc_ci_def vbind_def)
  ultimately show ?thesis by (simp add: triple_def)
qed

lemma enter_record:
  assumes op: "opened L L1" and len: "length (L_stack L1) \<le> length (L_stack L3)"
    and L3: "L_nCcalls L3 = L_nCcalls L1" "L_errfunc L3 = L_errfunc L1" "L_ci L3 = L_ci L1"
    "L_base_ci L3 = (L_base_ci L1)[L_ci L1 := ci]" "L_base L3 = ci_base ci"
  shows "entered L L3"
  using op L3 len by (auto simp: entered_def opened_def same_rest_def wf_ci_def cur_ci_def frames_def)

lemma entered_unwound: "entered L L' \<Longrightarrow> d \<le> L_ci L + 1 \<Longrightarrow> unwound d L L'"
  by (auto simp: entered_def unwound_def same_rest_def intro: frames_less)

lemma opened_unwound: "opened L L' \<Longrightarrow> d \<le> L_ci L + 1 \<Longrightarrow> unwound d L L'"
  by (auto simp: opened_def unwound_def same_rest_def intro: frames_less)

text \<open>What runs inside the new frame and keeps it.\<close>

lemma entered_safe: "entered L L1 \<Longrightarrow> safe_below L1 L' \<Longrightarrow> safe_below L L'"
  using entered_unwound [of L L1 "L_ci L + 1"] unwound_less [of "L_ci L1 + 1" L1 L' "L_ci L + 1"]
  by (auto simp: safe_below_def entered_def intro: unwound_trans)

lemma triple_entered:
  assumes "keeps_frame m" and "entered L L1"
  shows "triple (safe_below L) L1 m (\<lambda>_. entered L)"
  by (rule triple_keeps [OF assms(1)])
    (use assms(2) in \<open>auto simp: entered_frame [OF assms(2)] entered_def [of L L1] intro: entered_safe [OF assms(2)]\<close>)

lemma triple_upd_ci_then:
  "triple U (L\<lparr>L_base_ci := (L_base_ci L)[L_ci L := f (cur_ci L)]\<rparr>) m Q \<Longrightarrow> triple U L (vthen (upd_ci f) m) Q"
  unfolding upd_ci_def by (rule triple_vupd_then)

lemma opened_vbind:
  assumes wf: "wf_ci L" and c: "keeps_call call" and fr: "frame L L1" and f: "\<And>x L2. opened L L2 \<Longrightarrow> triple (safe_below L) L2 (f x) Q"
  shows "triple (safe_below L) L1 (vbind (inc_ci call) f) Q"
proof (rule triple_vbind)
  show "triple (safe_below L) L1 (inc_ci call) (\<lambda>_. opened L)"
    by (rule triple_weaken [OF inc_ci_triple [OF frame_wf [OF fr wf] c]])
      (use fr in \<open>auto simp: opened_def frame_def intro: same_rest_trans frame_safe [OF fr]\<close>)
qed (rule f)

lemma enter_lua_triple:
  assumes wf: "wf_ci L" and c: "keeps_call call" and fr: "frame L L0"
  shows "triple (safe_below L) L0 (enter_lua E call func nr p) (\<lambda>_. entered L)"
  unfolding enter_lua_def
proof (rule framed_vbind [OF keeps_checkstack wf fr], rule triple_vget)
  fix L1 x assume 1: "frame L L1"
  show "triple (safe_below L) L1
     (vbind (if pis_vararg p = 0
             then vthen (set_top (min (L_top L1) (func + 1 + unat (pnumparams p)))) (vret (func + 1))
             else adjust_varargs E p (L_top L1 - func - 1)) (\<lambda>base.
      vthen (inc_ci call)
      (vthen (upd_ci (\<lambda>ci. ci\<lparr>ci_func := func, ci_base := base, ci_top := base + unat (pmaxstacksize p),
                               ci_tailcalls := 0, ci_nresults := nr\<rparr>))
      (vthen (vupd (\<lambda>L. L\<lparr>L_base := base, L_savedpc := 0\<rparr>))
      (vbind (vget L_top) (\<lambda>tp.
       vthen (clear_stack tp (base + unat (pmaxstacksize p) - tp)) (set_top (base + unat (pmaxstacksize p)))))))))
     (\<lambda>_. entered L)"
  proof (rule framed_vbind [OF _ wf 1])
    fix base L2 assume 2: "frame L L2"
    show "triple (safe_below L) L2 (vthen (inc_ci call)
      (vthen (upd_ci (\<lambda>ci. ci\<lparr>ci_func := func, ci_base := base, ci_top := base + unat (pmaxstacksize p),
                               ci_tailcalls := 0, ci_nresults := nr\<rparr>))
      (vthen (vupd (\<lambda>L. L\<lparr>L_base := base, L_savedpc := 0\<rparr>))
      (vbind (vget L_top) (\<lambda>tp.
       vthen (clear_stack tp (base + unat (pmaxstacksize p) - tp)) (set_top (base + unat (pmaxstacksize p)))))))) (\<lambda>_. entered L)"
      by (rule opened_vbind [OF wf c 2], rule triple_upd_ci_then, rule triple_vupd_then, rule triple_entered, intro keeps,
          erule enter_record) auto
  qed (intro keeps)
qed

definition left_call :: "lua_State \<Rightarrow> lua_State \<Rightarrow> bool" where
  "left_call L L' \<longleftrightarrow> same_rest L L' \<and> wf_ci L' \<and> L_ci L' = L_ci L - 1 \<and> frames (L_ci L) L' = frames (L_ci L) L"

lemma poscall_triple:
  assumes wf: "wf_ci L" and pos: "0 < L_ci L"
  shows "triple (unwound (L_ci L) L) L (luaD_poscall fr) (\<lambda>_. left_call L)"
proof -
  define L1 where "L1 = L\<lparr>L_ci := L_ci L - 1, L_base := ci_base (L_base_ci L ! (L_ci L - 1)), L_savedpc := ci_savedpc (L_base_ci L ! (L_ci L - 1))\<rparr>"
  have wf1: "wf_ci L1" using wf pos by (auto simp: L1_def wf_ci_def cur_ci_def)
  let ?m = "vbind (vget L_top) (\<lambda>tp.
      vbind (move_results (tp - fr) fr (ci_nresults (cur_ci L)) (ci_func (cur_ci L))) (\<lambda>res.
      vthen (set_top res) (vret (ci_nresults (cur_ci L) - LUA_MULTRET \<noteq> 0))))"
  have "triple (unwound (L_ci L) L) L1 ?m (\<lambda>_. frame L1)"
    by (rule triple_keeps [OF _ wf1], intro keeps) (use pos in \<open>simp_all add: L1_def safe_below_def unwound_def frames_def\<close>)
  then have "triple (unwound (L_ci L) L) L1 ?m (\<lambda>_. left_call L)"
  proof (rule triple_weaken)
    fix L' assume f: "frame L1 L'"
    have "same_rest L L1" by (simp add: same_rest_def L1_def)
    then have "same_rest L L'" using f by (auto simp: frame_def intro: same_rest_trans)
    moreover have "L_ci L' = L_ci L - 1" "frames (L_ci L) L' = frames (L_ci L) L"
      using f pos by (simp_all add: frame_def L1_def frames_def)
    ultimately show "left_call L L'" using frame_wf [OF f wf1] by (simp add: left_call_def)
  qed simp
  moreover have "luaD_poscall fr L = ?m L1"
    by (simp add: luaD_poscall_def L1_def cur_ci_def vbind_def)
  ultimately show ?thesis by (simp add: triple_def)
qed

lemma leave_entered:
  assumes wf: "wf_ci L" and e: "entered L L1" and l: "left_call L1 L2"
  shows "frame L L2"
proof -
  have fr: "frames (L_ci L + 1) L2 = frames (L_ci L + 1) L" using e l by (auto simp: entered_def left_call_def)
  have ci: "L_ci L2 = L_ci L" using e l by (simp add: entered_def left_call_def)
  have "L_base L2 = L_base L" using wf_frames [OF wf fr] l ci by (simp add: left_call_def wf_ci_def cur_ci_def)
  then show ?thesis using fr ci e l by (auto simp: frame_def entered_def left_call_def intro: same_rest_trans)
qed

text \<open>What a C function may do to its own record: raise the limit \<open>ci->top\<close> of its part of the stack.\<close>

definition ci_part :: "CallInfo \<Rightarrow> nat \<times> nat \<times> int" where
  "ci_part ci = (ci_base ci, ci_func ci, ci_nresults ci)"

definition cframe :: "lua_State \<Rightarrow> lua_State \<Rightarrow> bool" where
  "cframe L L' \<longleftrightarrow>
     same_rest L L' \<and> L_ci L' = L_ci L \<and> L_base L' = L_base L \<and> frames (L_ci L) L' = frames (L_ci L) L \<and>
     L_ci L' < length (L_base_ci L') \<and> ci_part (cur_ci L') = ci_part (cur_ci L)"

definition keeps_cframe :: "'a vm \<Rightarrow> bool" where
  "keeps_cframe m \<longleftrightarrow> (\<forall>L. wf_ci L \<longrightarrow> triple (unwound (L_ci L) L) L m (\<lambda>x. cframe L))"

lemma frame_cframe: "frame L L' \<Longrightarrow> wf_ci L \<Longrightarrow> cframe L L'"
  using frames_nth [of "L_ci L + 1" L' L "L_ci L"] frames_less [of "L_ci L + 1" L' L "L_ci L"]
  by (auto simp: frame_def cframe_def wf_ci_def cur_ci_def ci_frame_def ci_part_def)

lemma cframe_wf: "cframe L L' \<Longrightarrow> wf_ci L \<Longrightarrow> wf_ci L'"
  by (simp add: cframe_def wf_ci_def ci_part_def)

lemma cframe_trans: "cframe L L' \<Longrightarrow> cframe L' L'' \<Longrightarrow> cframe L L''"
  by (auto simp: cframe_def intro: same_rest_trans)

lemma cframe_unwound: "cframe L L' \<Longrightarrow> d \<le> L_ci L \<Longrightarrow> unwound d L L'"
  by (auto simp: cframe_def unwound_def same_rest_def intro: frames_less)

named_theorems ckeeps

lemma keeps_cframeI: "keeps_frame m \<Longrightarrow> keeps_cframe m"
  unfolding keeps_cframe_def
  by (auto intro!: triple_keeps simp: safe_below_def intro: frame_cframe unwound_less)

lemma keeps_cframe_vbind [ckeeps]:
  assumes m: "keeps_cframe m" and f: "\<And>x. keeps_cframe (f x)"
  shows "keeps_cframe (vbind m f)"
  unfolding keeps_cframe_def
proof (intro allI impI)
  fix L assume wf: "wf_ci L"
  show "triple (unwound (L_ci L) L) L (vbind m f) (\<lambda>x. cframe L)"
  proof (rule triple_vbind)
    show "triple (unwound (L_ci L) L) L m (\<lambda>x. cframe L)" using m wf by (simp add: keeps_cframe_def)
    fix x L1 assume c: "cframe L L1"
    have "triple (unwound (L_ci L1) L1) L1 (f x) (\<lambda>x. cframe L1)" using f cframe_wf [OF c wf] by (simp add: keeps_cframe_def)
    then show "triple (unwound (L_ci L) L) L1 (f x) (\<lambda>x. cframe L)"
    proof (rule triple_weaken)
      show "unwound (L_ci L) L L'" if "unwound (L_ci L1) L1 L'" for L'
        using that c cframe_unwound [OF c, of "L_ci L"] by (auto simp: cframe_def intro: unwound_trans)
    qed (rule cframe_trans [OF c])
  qed
qed

lemma keeps_cframe_basic [ckeeps]:
  "keeps_cframe (vret x)" "keeps_cframe (vexc e)" "keeps_cframe (vget g)" "keeps_cframe (luaD_throw c)" "keeps_cframe (vopt r)"
  by (intro keeps_cframeI keeps)+

lemma keeps_cframe_if [ckeeps]: "keeps_cframe a \<Longrightarrow> keeps_cframe b \<Longrightarrow> keeps_cframe (if c then a else b)"
  by simp

lemma keeps_cframe_let [ckeeps]: "(\<And>x. keeps_cframe (f x)) \<Longrightarrow> keeps_cframe (let x = y in f x)"
  by simp

lemma keeps_cframe_option [ckeeps]:
  "keeps_cframe a \<Longrightarrow> (\<And>x. keeps_cframe (f x)) \<Longrightarrow> keeps_cframe (case r of None \<Rightarrow> a | Some x \<Rightarrow> f x)"
  by (cases r) simp_all

lemma keeps_cframe_prod [ckeeps]: "(\<And>a b. keeps_cframe (f a b)) \<Longrightarrow> keeps_cframe (case p of (a, b) \<Rightarrow> f a b)"
  by (cases p) simp

text \<open>The C functions of the program keep the call records when what they call does.\<close>

definition cfun_ok :: "lua_env \<Rightarrow> bool" where
  "cfun_ok E \<longleftrightarrow> (\<forall>f call. keeps_call call \<longrightarrow> keeps_cframe (E_cfun E f call))"

lemma triple_centered:
  assumes "keeps_cframe m" and e: "entered L L1"
  shows "triple (safe_below L) L1 m (\<lambda>_. entered L)"
proof -
  have wf: "wf_ci L1" and ci: "L_ci L1 = L_ci L + 1" using e by (simp_all add: entered_def)
  have "triple (unwound (L_ci L1) L1) L1 m (\<lambda>_. cframe L1)" using assms(1) wf by (simp add: keeps_cframe_def)
  then show ?thesis
  proof (rule triple_weaken)
    fix L' assume c: "cframe L1 L'"
    show "entered L L'" using e c cframe_wf [OF c wf] by (auto simp: entered_def cframe_def intro: same_rest_trans)
  next
    fix L' assume "unwound (L_ci L1) L1 L'"
    then show "safe_below L L'"
      using entered_unwound [OF e, of "L_ci L + 1"] ci by (auto simp: safe_below_def intro: unwound_trans)
  qed
qed

lemma centered_vbind:
  assumes "keeps_cframe m" and "entered L L1" and "\<And>x L2. entered L L2 \<Longrightarrow> triple (safe_below L) L2 (f x) Q"
  shows "triple (safe_below L) L1 (vbind m f) Q"
  by (rule triple_vbind [OF triple_centered [OF assms(1,2)] assms(3)])

lemma poscall_entered:
  assumes wf: "wf_ci L" and e: "entered L L1"
  shows "triple (safe_below L) L1 (luaD_poscall fr) (\<lambda>_. frame L)"
proof (rule triple_weaken [OF poscall_triple])
  show "wf_ci L1" "0 < L_ci L1" using e by (simp_all add: entered_def)
  show "frame L L'" if "left_call L1 L'" for L' by (rule leave_entered [OF wf e that])
  show "safe_below L L'" if "unwound (L_ci L1) L1 L'" for L'
    using that entered_unwound [OF e, of "L_ci L + 1"] e by (auto simp: safe_below_def entered_def intro: unwound_trans)
qed

lemma entered_vbind:
  assumes "keeps_frame m" and "entered L L1" and "\<And>x L2. entered L L2 \<Longrightarrow> triple (safe_below L) L2 (f x) Q"
  shows "triple (safe_below L) L1 (vbind m f) Q"
  by (rule triple_vbind [OF triple_entered [OF assms(1,2)] assms(3)])


lemma enter_c_triple:
  assumes E: "cfun_ok E" and c: "keeps_call call" and wf: "wf_ci L" and fr: "frame L L0"
  shows "triple (safe_below L) L0 (enter_c E call func nr f) (\<lambda>_. frame L)"
proof -
  have k: "keeps_cframe (E_cfun E f call)" using E c by (simp add: cfun_ok_def)
  have after: "triple (safe_below L) L2 (if n < 0 then vexc Crash
      else vbind (vget L_top) (\<lambda>tp. vthen (luaD_poscall (tp - nat n)) (vret ()))) (\<lambda>_. frame L)"
    if e: "entered L L2" for n L2
    using entered_safe [OF e safe_below_refl]
    by (auto intro!: triple_vget triple_vbind [OF poscall_entered [OF wf e]])
  show ?thesis
    unfolding enter_c_def
    by (rule framed_vbind [OF keeps_checkstack wf fr], rule opened_vbind [OF wf c], assumption, rule triple_vget,
      rule triple_upd_ci_then, rule triple_vupd_then, rule centered_vbind [OF k], erule enter_record)
      (auto intro: after simp del: triple_basic split del: if_split)
qed

lemma precall_triple:
  assumes E: "cfun_ok E" and c: "keeps_call call" and wf: "wf_ci L"
  shows "triple (safe_below L) L (luaD_precall E call func nr) (\<lambda>r L'. if r = PCRLUA then entered L L' else frame L L')"
    (is "triple _ _ _ ?Q")
proof -
  have body: "triple (safe_below L) L1 (case cl of
           LClosure _ p _ \<Rightarrow> vthen (enter_lua E call func nr p) (vret PCRLUA)
         | CClosure _ f _ \<Rightarrow> vthen (enter_c E call func nr f) (vret PCRC)) ?Q" if "frame L L1" for cl L1
    using that by (cases cl)
      (auto intro!: triple_vbind [OF enter_lua_triple [OF wf c]] triple_vbind [OF enter_c_triple [OF E c wf]])
  show ?thesis
    unfolding luaD_precall_def
    by (intro framed_vbind [OF _ wf frame_refl] framed_vbind [OF _ wf] keeps c body)
qed

section \<open>Instructions\<close>

lemma keeps_operands [keeps]:
  "keeps_frame (reg r)" "keeps_frame (get_reg r)" "keeps_frame (set_reg r v)" "keeps_frame (R_operand r)"
  "keeps_frame (RK_operand p r)" "keeps_frame (fetch p pc)" "keeps_frame (set_args ra b)"
proof -
  have r: "keeps_frame (reg r)" for r unfolding reg_def by (intro keeps)
  have o: "keeps_frame (R_operand r)" for r unfolding R_operand_def by (intro keeps r)
  show "keeps_frame (reg r)" "keeps_frame (get_reg r)" "keeps_frame (set_reg r v)" "keeps_frame (R_operand r)"
    "keeps_frame (RK_operand p r)" "keeps_frame (fetch p pc)" "keeps_frame (set_args ra b)"
    unfolding get_reg_def set_reg_def RK_operand_def fetch_def set_args_def by (intro keeps r o)+
qed

lemma keeps_ops [keeps]:
  assumes c: "keeps_call call"
  shows "keeps_frame (arith_op E call p pc i ev)" "keeps_frame (op_len E call pc i)" "keeps_frame (op_forprep E call pc i)"
    "keeps_frame (op_tforloop call p pc i)" "keeps_frame (op_setlist E call p pc i)"
proof -
  have fn: "keeps_frame (for_number E call r w)" for r w unfolding for_number_def by (intro keeps c)
  have sl: "keeps_frame (set_list E call ra a n lst)" for ra a n lst
    by (induction n arbitrary: lst) (unfold set_list.simps, (intro keeps c | assumption)+)
  show "keeps_frame (arith_op E call p pc i ev)" unfolding arith_op_def by (intro keeps c)
  show "keeps_frame (op_len E call pc i)" unfolding op_len_def by (intro keeps c)
  show "keeps_frame (op_forprep E call pc i)" unfolding op_forprep_def by (intro keeps c fn)
  show "keeps_frame (op_tforloop call p pc i)" unfolding op_tforloop_def Let_def by (intro keeps keeps_callD [OF c])
  show "keeps_frame (op_setlist E call p pc i)" unfolding op_setlist_def Let_def by (intro keeps sl c)
qed

lemma keeps_jumps [keeps]: "keeps_frame (cond_jump p pc b)" "keeps_frame (op_forloop pc i)"
  unfolding cond_jump_def op_forloop_def Let_def by (intro keeps)+

lemma keeps_compare_op [keeps]: "(\<And>x y. keeps_frame (cmp x y)) \<Longrightarrow> keeps_frame (compare_op cmp p pc i)"
  unfolding compare_op_def by (intro keeps) auto

lemma keeps_closures [keeps]: "keeps_frame (op_closure env us p pc i)" "keeps_frame (op_vararg p pc i)"
proof -
  have "keeps_frame (capture p us n pc)" for n pc
    by (induction n arbitrary: pc) (unfold capture.simps, (intro keeps | assumption)+)
  then show "keeps_frame (op_closure env us p pc i)" unfolding op_closure_def Let_def by (intro keeps)
  show "keeps_frame (op_vararg p pc i)" unfolding op_vararg_def Let_def by (intro keeps)
qed

lemma keeps_vnext [keeps]: "keeps_frame m \<Longrightarrow> keeps_frame (vnext pc m)"
  unfolding vnext_def by (intro keeps)

definition calling_ops :: "OpCode set" where "calling_ops = {OP_CALL, OP_TAILCALL, OP_RETURN}"

lemma keeps_vm_op:
  assumes c: "keeps_call call" and "op \<notin> calling_ops"
  shows "keeps_frame (vm_op E call env p us pc i op)"
  using assms(2) by (cases op) (simp only: vm_op.simps Let_def, intro keeps c | simp add: calling_ops_def)+

section \<open>Where an instruction goes\<close>

definition yields :: "('a \<Rightarrow> bool) \<Rightarrow> 'a vm \<Rightarrow> bool" where
  "yields P m \<longleftrightarrow> (\<forall>L r L'. m L = (Inr r, L') \<longrightarrow> P r)"

named_theorems goes

lemma yields_vbind [goes]: "(\<And>x. yields P (f x)) \<Longrightarrow> yields P (vbind m f)"
  by (auto simp: yields_def vbind_Inr)

lemma yields_fetch: "(yields P (f (code_word p pc))) \<Longrightarrow> yields P (vbind (fetch p pc) f)"
  by (auto simp: yields_def vbind_Inr fetch_def split: if_splits)

lemma yields_vret [goes]: "P r \<Longrightarrow> yields P (vret r)"
  by (simp add: yields_def)

lemma yields_vexc [goes]: "yields P (vexc e)"
  by (simp add: yields_def)

lemma yields_if [goes]: "(c \<Longrightarrow> yields P a) \<Longrightarrow> (\<not> c \<Longrightarrow> yields P b) \<Longrightarrow> yields P (if c then a else b)"
  by simp

lemma yields_tvalue [goes]:
  "yields P a \<Longrightarrow> (\<And>x. yields P (f x)) \<Longrightarrow> (\<And>x. yields P (g x)) \<Longrightarrow> (\<And>x. yields P (h x)) \<Longrightarrow>
   (\<And>x. yields P (k x)) \<Longrightarrow> (\<And>x. yields P (d x)) \<Longrightarrow> yields P (case_tvalue a f g h k d v)"
  by (cases v) simp_all

lemma yields_gcvalue [goes]:
  "(\<And>x. yields P (f x)) \<Longrightarrow> (\<And>x. yields P (g x)) \<Longrightarrow> (\<And>x. yields P (h x)) \<Longrightarrow>
   (\<And>x. yields P (k x)) \<Longrightarrow> (\<And>x. yields P (d x)) \<Longrightarrow> yields P (case_gcvalue f g h k d v)"
  by (cases v) simp_all

lemma yields_prod [goes]: "(\<And>a b. yields P (f a b)) \<Longrightarrow> yields P (case_prod f p)"
  by (cases p) simp

text \<open>An instruction that neither calls nor returns goes to one of its successors.\<close>

definition next_in :: "int list \<Rightarrow> outcome \<Rightarrow> bool" where "next_in S r \<longleftrightarrow> (\<exists>pc \<in> set S. r = Next pc)"

lemma next_in_Next [simp]: "next_in S (Next pc) \<longleftrightarrow> pc \<in> set S"
  by (simp add: next_in_def)

lemma yields_vbind_strong: "yields Q m \<Longrightarrow> (\<And>x. Q x \<Longrightarrow> yields P (f x)) \<Longrightarrow> yields P (vbind m f)"
  unfolding yields_def vbind_Inr by blast

lemma goes_vnext: "pc \<in> set S \<Longrightarrow> yields (next_in S) (vnext pc m)"
  unfolding vnext_def by (intro goes) auto

lemma goes_cond_jump: "yields (next_in [pc + 1, pc + 1 + GETARG_sBx (code_word p pc)]) (cond_jump p pc b)"
  unfolding cond_jump_def by (intro goes yields_fetch) auto

lemma goes_compare_op: "yields (next_in [pc + 1, pc + 1 + GETARG_sBx (code_word p pc)]) (compare_op cmp p pc i)"
  unfolding compare_op_def by (rule yields_vbind goes_cond_jump)+

lemma goes_tforloop: "yields (next_in [pc + 1, pc + 1 + GETARG_sBx (code_word p pc)]) (op_tforloop call p pc i)"
  unfolding op_tforloop_def Let_def by (intro goes yields_fetch) auto

lemma goes_forloop: "yields (next_in [pc, pc + GETARG_sBx i]) (op_forloop pc i)"
  unfolding op_forloop_def Let_def by (intro goes) auto

lemma goes_one:
  "yields (next_in [pc]) (arith_op E call p pc i ev)" "yields (next_in [pc]) (op_len E call pc i)"
  "yields (next_in [pc]) (op_vararg p pc i)" "yields (next_in [pc + GETARG_sBx i]) (op_forprep E call pc i)"
  "yields (next_in [pc + nups_at p (GETARG_Bx i)]) (op_closure env us p pc i)"
  unfolding arith_op_def op_len_def op_vararg_def op_forprep_def op_closure_def Let_def nups_at_def
  by ((intro goes)?, simp)+

lemma goes_setlist: "yields (next_in [if GETARG_C i = 0 then pc + 1 else pc]) (op_setlist E call p pc i)"
proof -
  have "yields (\<lambda>(c, q). q = (if GETARG_C i = 0 then pc + 1 else pc))
      (if GETARG_C i = 0 then vbind (fetch p pc) (\<lambda>w. vret (sint w, pc + 1)) else vret (GETARG_C i, pc))"
    by (intro goes) auto
  then show ?thesis
    unfolding op_setlist_def Let_def
    by - (rule yields_vbind, rule yields_vbind,
        rule yields_vbind_strong [where Q = "\<lambda>(c, q). q = (if GETARG_C i = 0 then pc + 1 else pc)"],
        assumption, clarify, intro goes, simp_all)
qed

lemma op_goes:
  assumes "op \<notin> calling_ops"
  shows "yields (next_in (op_succs p pc i op)) (vm_op E call env p us (pc + 1) i op)"
proof -
  have two: "pc + 1 + 1 = pc + 2" by simp
  note jumps = goes_cond_jump [of "pc + 1" p, unfolded two] goes_compare_op [of "pc + 1" p, unfolded two]
    goes_tforloop [of "pc + 1" p, unfolded two]
  show ?thesis using assms goes_setlist [of i "pc + 1" E call p, unfolded two]
    by (cases op)
      (simp_all add: calling_ops_def jumps goes_vnext goes_forloop goes_one Let_def yields_vbind yields_vret
        if_distrib [of "\<lambda>x. [x]"] cong: if_cong)
qed


section \<open>Calls\<close>

definition outcome_ok :: "lua_State \<Rightarrow> outcome \<Rightarrow> lua_State \<Rightarrow> bool" where
  "outcome_ok L r L' \<longleftrightarrow>
     (case r of
        Next _ \<Rightarrow> frame L L'
      | Called \<Rightarrow> entered L L'
      | TailCalled \<Rightarrow> same_rest L L' \<and> wf_ci L' \<and> L_ci L' = L_ci L \<and> frames (L_ci L) L' = frames (L_ci L) L
      | Returned _ \<Rightarrow> left_call L L')"

lemma outcome_Next [simp]: "outcome_ok L (Next pc) L' \<longleftrightarrow> frame L L'"
  by (simp add: outcome_ok_def)

lemma keeps_set_ci_top [keeps]: "keeps_frame (vbind (vget cur_ci) (\<lambda>ci. set_top (ci_top ci)))"
  by (intro keeps)

lemma precall_then:
  assumes E: "cfun_ok E" and c: "keeps_call call" and wf: "wf_ci L"
    and g: "\<And>r L2. if r = PCRLUA then entered L L2 else frame L L2 \<Longrightarrow> triple (safe_below L) L2 (g r) Q"
  shows "triple (safe_below L) L
    (vbind (reg a) (\<lambda>ra. vthen (set_args ra b) (vthen (save_pc pc) (vbind (luaD_precall E call ra nr) g)))) Q"
proof -
  have pre: "triple (safe_below L) L1 (luaD_precall E call ra nr) (\<lambda>r L'. if r = PCRLUA then entered L L' else frame L L')"
    if "frame L L1" for L1 ra nr
    by (rule triple_weaken [OF precall_triple [OF E c frame_wf [OF that wf]]])
      (auto intro: frame_trans [OF that] frame_entered [OF that] frame_safe [OF that] split: if_splits)
  have 1: "triple (safe_below L) L1 (vbind (luaD_precall E call ra nr) g) Q" if "frame L L1" for ra L1
    by (rule triple_vbind [OF pre [OF that] g])
  have 2: "triple (safe_below L) L1 (vthen (save_pc pc) (vbind (luaD_precall E call ra nr) g)) Q" if "frame L L1" for ra L1
    by (rule framed_vbind [OF _ wf that 1]) (intro keeps)
  have 3: "triple (safe_below L) L1 (vthen (set_args ra b) (vthen (save_pc pc) (vbind (luaD_precall E call ra nr) g))) Q"
    if "frame L L1" for ra L1
    by (rule framed_vbind [OF _ wf that 2]) (intro keeps)
  show ?thesis by (rule framed_vbind [OF _ wf frame_refl 3]) (intro keeps)
qed

lemma op_call_ok:
  assumes E: "cfun_ok E" and c: "keeps_call call" and wf: "wf_ci L"
  shows "triple (safe_below L) L (op_call E call pc i) (outcome_ok L)"
  unfolding op_call_def
proof (rule precall_then [OF E c wf])
  fix r L2 assume r: "if r = PCRLUA then entered L L2 else frame L L2"
  show "triple (safe_below L) L2 (case r of PCRLUA \<Rightarrow> vret Called
        | PCRC \<Rightarrow> vthen (if 0 \<le> GETARG_C i - 1 then vbind (vget cur_ci) (\<lambda>ci. set_top (ci_top ci)) else vret ()) (vret (Next pc)))
      (outcome_ok L)"
  proof (cases r)
    case PCRC
    have "triple (safe_below L) L2
        (vthen (if 0 \<le> GETARG_C i - 1 then vbind (vget cur_ci) (\<lambda>ci. set_top (ci_top ci)) else vret ()) (vret (Next pc))) (outcome_ok L)"
      by (rule framed_vbind [OF _ wf]) (use r PCRC in \<open>auto intro!: keeps\<close>)
    then show ?thesis using PCRC by simp
  qed (use r in \<open>simp add: outcome_ok_def\<close>)
qed

lemma replace_frame_ok:
  assumes wf: "wf_ci L" and e: "entered L L1"
  shows "triple (safe_below L) L1 (vthen replace_frame (vret TailCalled)) (outcome_ok L)"
proof -
  have last: "triple (safe_below L) K (vthen (vupd (\<lambda>L. L\<lparr>L_base := base, L_top := t, L_ci := L_ci L - 1\<rparr>))
      (vbind (vget L_savedpc) (\<lambda>pc. upd_ci (\<lambda>ci. ci\<lparr>ci_base := base, ci_top := t, ci_savedpc := pc,
         ci_tailcalls := ci_tailcalls ci + 1\<rparr>)))) (\<lambda>_. outcome_ok L TailCalled)" if "entered L K" for K base t
    using that frames_less [of "L_ci L + 1" K L "L_ci L"]
    by (intro triple_vupd_then triple_vget)
      (auto simp: upd_ci_def outcome_ok_def entered_def same_rest_def wf_ci_def cur_ci_def frames_def)
  have "triple (safe_below L) L1 replace_frame (\<lambda>_. outcome_ok L TailCalled)"
    unfolding replace_frame_def Let_def
    by (intro triple_vget, rule entered_vbind [OF _ e], intro keeps, rule triple_vget, rule entered_vbind [OF _ _ last], intro keeps)
  then show ?thesis by (rule triple_vbind) simp
qed

lemma op_tailcall_ok:
  assumes E: "cfun_ok E" and c: "keeps_call call" and wf: "wf_ci L"
  shows "triple (safe_below L) L (op_tailcall E call pc i) (outcome_ok L)"
  unfolding op_tailcall_def
proof (rule precall_then [OF E c wf])
  fix r L2 assume "if r = PCRLUA then entered L L2 else frame L L2"
  then show "triple (safe_below L) L2 (case r of PCRLUA \<Rightarrow> vthen replace_frame (vret TailCalled) | PCRC \<Rightarrow> vret (Next pc)) (outcome_ok L)"
    using replace_frame_ok [OF wf, of L2] by (cases r) auto
qed

lemma triple_yields:
  "yields P m \<Longrightarrow> triple U L m (\<lambda>_. R) \<Longrightarrow> (\<And>r L'. P r \<Longrightarrow> R L' \<Longrightarrow> Q r L') \<Longrightarrow> triple U L m Q"
  by (cases "m L"; cases "fst (m L)") (auto simp: triple_def yields_def)

lemma below_safe: "safe_below L L' \<Longrightarrow> unwound (L_ci L) L L'"
  by (auto simp: safe_below_def intro: unwound_less)

lemma framed_vbind_below:
  assumes "keeps_frame m" and "wf_ci L" and "frame L L1" and "\<And>x L2. frame L L2 \<Longrightarrow> triple (unwound (L_ci L) L) L2 (f x) Q"
  shows "triple (unwound (L_ci L) L) L1 (vbind m f) Q"
  by (rule triple_vbind [OF triple_weaken [OF triple_framed [OF assms(1-3)] _ below_safe] assms(4)])

lemma op_return_ok:
  assumes wf: "wf_ci L" and pos: "0 < L_ci L"
  shows "triple (unwound (L_ci L) L) L (op_return pc i) (outcome_ok L)"
proof -
  let ?U = "unwound (L_ci L) L"
  have last: "triple ?U L1 (vbind (luaD_poscall ra) (\<lambda>b. vret (Returned b))) (outcome_ok L)" if f: "frame L L1" for L1 ra
  proof (rule triple_vbind)
    have "L_ci L1 = L_ci L" using f by (simp add: frame_def)
    then show "triple ?U L1 (luaD_poscall ra) (\<lambda>_. left_call L)"
      using poscall_triple [OF frame_wf [OF f wf], of ra] pos f frame_unwound [OF f, of "L_ci L"] frames_less [of "L_ci L + 1" L1 L "L_ci L"]
      by (auto simp: left_call_def frame_def elim!: triple_weaken intro: unwound_trans same_rest_trans)
  qed (simp add: outcome_ok_def)
  show ?thesis
    unfolding op_return_def
    by (rule framed_vbind_below [OF _ wf frame_refl], intro keeps, rule framed_vbind_below [OF _ wf], intro keeps, assumption,
        intro triple_vget, rule framed_vbind_below [OF _ wf], intro keeps, assumption,
        rule framed_vbind_below [OF _ wf], intro keeps, assumption, rule last)
qed

lemma vm_step_ok:
  assumes E: "cfun_ok E" and c: "keeps_call call" and wf: "wf_ci L" and pos: "0 < L_ci L"
  shows "triple (unwound (L_ci L) L) L (vm_step E call env p us pc) (outcome_ok L)"
proof -
  let ?U = "unwound (L_ci L) L"
  have "triple ?U L1 (case OpCode_of (GET_OPCODE i) of None \<Rightarrow> vret (Next (pc + 1)) | Some op \<Rightarrow> vm_op E call env p us (pc + 1) i op)
      (outcome_ok L)" if f: "frame L L1" "L1 = L" for i L1
  proof (cases "OpCode_of (GET_OPCODE i)")
    case (Some op)
    show ?thesis
    proof (cases "op \<in> calling_ops")
      case True
      then show ?thesis
        using Some f triple_weaken [OF op_call_ok [OF E c wf] _ below_safe] triple_weaken [OF op_tailcall_ok [OF E c wf] _ below_safe]
          op_return_ok [OF wf pos]
        by (auto simp: calling_ops_def)
    next
      case False
      have "triple ?U L (vm_op E call env p us (pc + 1) i op) (\<lambda>_. frame L)"
        by (rule triple_keeps [OF keeps_vm_op [OF c False] wf below_safe]) auto
      then have "triple ?U L (vm_op E call env p us (pc + 1) i op) (outcome_ok L)"
        by (rule triple_yields [OF op_goes [OF False]]) (auto simp: next_in_def)
      then show ?thesis using Some f by simp
    qed
  qed (use f in simp)
  then show ?thesis by (auto simp: vm_step_def fetch_def triple_def vbind_def split del: option.split)
qed

text \<open>\<open>nexec\<close> Lua functions run above the record \<open>d\<close>.\<close>

lemma execute_ok:
  assumes E: "cfun_ok E" and c: "keeps_call call"
  shows "wf_ci L \<Longrightarrow> L_ci L = d + nexec \<Longrightarrow> 0 < nexec \<Longrightarrow>
    triple (unwound (d + 1) L) L (luaV_execute fuel E call nexec fr)
      (\<lambda>_ L'. same_rest L L' \<and> wf_ci L' \<and> L_ci L' = d \<and> frames (d + 1) L' = frames (d + 1) L)"
proof (induction fuel arbitrary: L nexec fr)
  case (Suc fuel)
  let ?U = "unwound (d + 1) L" and ?Q = "\<lambda>_ L'. same_rest L L' \<and> wf_ci L' \<and> L_ci L' = d \<and> frames (d + 1) L' = frames (d + 1) L"
  have again: "triple ?U L1 (luaV_execute fuel E call n fr) ?Q"
    if "same_rest L L1" "wf_ci L1" "L_ci L1 = d + n" "0 < n" "frames (d + 1) L1 = frames (d + 1) L" for L1 n fr
    using that by (intro triple_weaken [OF Suc.IH [of L1 n fr]])
      (auto simp: unwound_def same_rest_def)
  have framed: "triple ?U L1 (luaV_execute fuel E call nexec fr) ?Q" if "frame L L1" for L1 fr
    using that Suc.prems frame_wf [OF that] frames_less [of "L_ci L + 1" L1 L "d + 1"]
    by (intro again) (auto simp: frame_def)
  have U: "safe_below L L' \<Longrightarrow> ?U L'" "unwound (L_ci L) L L' \<Longrightarrow> ?U L'" for L'
    using Suc.prems by (auto simp: safe_below_def intro: unwound_less)
  have step: "triple ?U L1 (case r of
         Next pc \<Rightarrow> luaV_execute fuel E call nexec (Some (LClosure env p upvals, pc))
       | Called \<Rightarrow> luaV_execute fuel E call (nexec + 1) None
       | TailCalled \<Rightarrow> luaV_execute fuel E call nexec None
       | Returned b \<Rightarrow>
           if nexec = 1 then vret ()
           else vthen (if b then vbind (vget cur_ci) (\<lambda>ci. set_top (ci_top ci)) else vret ())
                  (luaV_execute fuel E call (nexec - 1) None)) ?Q" if r: "outcome_ok L r L1" for r L1 env p upvals
  proof (cases r)
    case (Next pc)
    then show ?thesis using framed r by simp
  next
    case Called
    then show ?thesis using again [of L1 "nexec + 1" None] frames_less [of "L_ci L + 1" L1 L "d + 1"] r Suc.prems
      by (auto simp: outcome_ok_def entered_def)
  next
    case TailCalled
    then show ?thesis using again [of L1 nexec None] frames_less [of "L_ci L" L1 L "d + 1"] r Suc.prems
      by (auto simp: outcome_ok_def)
  next
    case (Returned b)
    then have l: "left_call L L1" using r by (simp add: outcome_ok_def)
    have fr: "frames (d + 1) L1 = frames (d + 1) L" using l frames_less [of "L_ci L" L1 L "d + 1"] Suc.prems by (auto simp: left_call_def)
    have k: "keeps_frame (if b then vbind (vget cur_ci) (\<lambda>ci. set_top (ci_top ci)) else vret ())" by (intro keeps)
    have "unwound (d + 1) L L1" using l fr by (simp add: unwound_def left_call_def same_rest_def)
    then have un: "?U L'" if "safe_below L1 L'" for L'
      using unwound_less [of "L_ci L1 + 1" L1 L' "d + 1"] that l Suc.prems
      by (auto simp: safe_below_def left_call_def intro: unwound_trans)
    have resume: "triple ?U L1 (vthen (if b then vbind (vget cur_ci) (\<lambda>ci. set_top (ci_top ci)) else vret ())
        (luaV_execute fuel E call (nexec - 1) None)) ?Q" if "nexec \<noteq> 1"
    proof (rule triple_vbind)
      show "triple ?U L1 (if b then vbind (vget cur_ci) (\<lambda>ci. set_top (ci_top ci)) else vret ()) (\<lambda>_. frame L1)"
        by (rule triple_keeps [OF k]) (use l un in \<open>simp_all add: left_call_def\<close>)
      fix L2 assume f: "frame L1 L2"
      show "triple ?U L2 (luaV_execute fuel E call (nexec - 1) None) ?Q"
        using f l fr that Suc.prems frame_wf [OF f] frames_less [of "L_ci L1 + 1" L2 L1 "d + 1"]
        by (intro again) (auto simp: left_call_def frame_def intro: same_rest_trans)
    qed
    then show ?thesis using Returned l fr Suc.prems by (auto simp: left_call_def)
  qed
  show ?case
  proof (cases fr)
    case None
    have "triple ?U L (vbind (callee (ci_func (cur_ci L))) (\<lambda>cl. vbind (vget L_savedpc) (\<lambda>pc.
       luaV_execute fuel E call nexec (Some (cl, pc))))) ?Q"
      by (rule triple_vbind [OF triple_keeps [OF keeps_callee Suc.prems(1) U(1)]], assumption, assumption,
          rule triple_vget, rule framed [unfolded None])
    then show ?thesis unfolding None luaV_execute.simps by (rule triple_vget)
  next
    case (Some f)
    then obtain cl pc where f: "fr = Some (cl, pc)" by (cases f) auto
    show ?thesis
    proof (cases cl)
      case (LClosure env p us)
      have "triple ?U L (vm_step E call env p us pc) (outcome_ok L)"
        by (rule triple_weaken [OF vm_step_ok [OF E c Suc.prems(1)]]) (use Suc.prems U(2) in auto)
      then show ?thesis unfolding f LClosure luaV_execute.simps by (rule triple_vbind) (rule step)
    next
      case (CClosure env n vs)
      show ?thesis unfolding f CClosure luaV_execute.simps triple_basic by simp
    qed
  qed
qed simp

lemma luaD_call_ok:
  assumes E: "cfun_ok E"
  shows "keeps_call (luaD_call fuel E)"
proof (induction fuel)
  case (Suc fuel)
  note c = Suc.IH
  show ?case
    unfolding keeps_call_def keeps_frame_def
  proof (intro allI impI)
    fix func nr L assume wf: "wf_ci L"
    define L0 where "L0 = L\<lparr>L_nCcalls := L_nCcalls L + 1\<rparr>"
    let ?U = "safe_below L0"
    have wf0: "wf_ci L0" using wf by (simp add: L0_def wf_ci_def cur_ci_def)
    have U: "safe_below L = safe_below L0" by (simp add: L0_def safe_below_def unwound_def frames_def fun_eq_iff)
    have exec: "triple ?U L2 (if r = PCRLUA then luaV_execute fuel E (luaD_call fuel E) 1 None else vret ()) (\<lambda>_. frame L0)"
      if r: "if r = PCRLUA then entered L0 L2 else frame L0 L2" for r L2
    proof (cases "r = PCRLUA")
      case True
      then have e: "entered L0 L2" using r by simp
      show ?thesis using True
        by (simp, intro triple_weaken [OF execute_ok [OF E c, where d = "L_ci L0"]])
          (use e wf_frames [OF wf0] entered_safe [OF e] in
            \<open>auto simp: entered_def frame_def wf_ci_def cur_ci_def unwound_def safe_below_def same_rest_def\<close>)
    qed (use r in simp)
    have guard: "keeps_frame (if L_nCcalls L0 = LUAI_MAXCCALLS then luaG_runerror (luaD_call fuel E) (bytes ''C stack overflow'')
             else if L_nCcalls L0 \<ge> LUAI_MAXCCALLS + LUAI_MAXCCALLS div 8 then luaD_throw LUA_ERRERR else vret ())"
      by (intro keeps c)
    have pre: "triple ?U L1 (luaD_precall E (luaD_call fuel E) func nr) (\<lambda>r L'. if r = PCRLUA then entered L0 L' else frame L0 L')"
      if f: "frame L0 L1" for L1
      by (rule triple_weaken [OF precall_triple [OF E c frame_wf [OF f wf0]]])
        (auto intro: frame_trans [OF f] frame_entered [OF f] frame_safe [OF f] split: if_splits)
    have fin: "frame L (L2\<lparr>L_nCcalls := L_nCcalls L2 - 1\<rparr>)" if "frame L0 L2" for L2
      using that by (simp add: frame_def same_rest_def L0_def frames_def)
    have "triple ?U L0 (vbind (vget L_nCcalls) (\<lambda>n.
      vthen (if n = LUAI_MAXCCALLS then luaG_runerror (luaD_call fuel E) (bytes ''C stack overflow'')
             else if n \<ge> LUAI_MAXCCALLS + LUAI_MAXCCALLS div 8 then luaD_throw LUA_ERRERR
             else vret ())
      (vbind (luaD_precall E (luaD_call fuel E) func nr) (\<lambda>r.
       vthen (if r = PCRLUA then luaV_execute fuel E (luaD_call fuel E) 1 None else vret ())
         (vupd (\<lambda>L. L\<lparr>L_nCcalls := L_nCcalls L - 1\<rparr>)))))) (\<lambda>_. frame L)"
      by (rule triple_vget, rule framed_vbind [OF guard wf0 frame_refl], rule triple_vbind [OF pre], assumption,
          rule triple_vbind [OF exec], assumption) (simp add: fin)
    then show "triple (safe_below L) L (luaD_call (Suc fuel) E func nr) (\<lambda>_. frame L)"
      unfolding luaD_call.simps U by (intro triple_vupd_then) (simp only: L0_def)
  qed
next
  case 0
  show ?case unfolding keeps_call_def luaD_call.simps by (intro allI keeps)
qed

section \<open>Protected calls\<close>

text \<open>After an error the record of the caller is the current one again.\<close>

lemma recover_ok:
  assumes wf: "wf_ci L" and u: "safe_below L L2"
  shows "triple (safe_below L) L2
    (vthen (close_upvals t) (vthen (luaD_seterrorobj status t)
       (vthen (vupd (\<lambda>K. K\<lparr>L_nCcalls := L_nCcalls L, L_ci := L_ci L\<rparr>))
       (vthen (vupd (\<lambda>L. L\<lparr>L_base := ci_base (cur_ci L), L_savedpc := ci_savedpc (cur_ci L)\<rparr>)) restore_stack_limit))))
    (\<lambda>_ L'. frame L (L'\<lparr>L_errfunc := L_errfunc L\<rparr>))"
proof -
  define keep where "keep = (\<lambda>K :: lua_State. \<lambda>L :: lua_State. L_base_ci L = L_base_ci K \<and> length (L_stack K) \<le> length (L_stack L))"
  have safe: "safe_below L K" if "keep L2 K" for K
    using u that by (auto simp: keep_def safe_below_def unwound_def frames_def)
  have ops: "triple (safe_below L) K (stack_set i v) (\<lambda>_. keep L2)" "triple (safe_below L) K (stack_get i) (\<lambda>_. keep L2)"
    "triple (safe_below L) K (set_top i) (\<lambda>_. keep L2)" "triple (safe_below L) K (close_upvals i) (\<lambda>_. keep L2)"
    if "keep L2 K" for K i v
    using that safe [OF that]
    by (auto simp: triple_def stack_set_def stack_get_def set_top_def close_upvals_def keep_def up_store_def stk_close up_view_def)
  have a: "triple (safe_below L) L2 (vthen (close_upvals t) (luaD_seterrorobj status t)) (\<lambda>_. keep L2)"
  proof (rule triple_vbind [OF ops(4)])
    fix K assume k: "keep L2 K"
    have e: "triple (safe_below L) K (vbind (vget L_top) (\<lambda>tp. vbind (stack_get (tp - 1)) (stack_set t))) (\<lambda>_. keep L2)"
      by (rule triple_vget, rule triple_vbind [OF ops(2) [OF k] ops(1)])
    show "triple (safe_below L) K (luaD_seterrorobj status t) (\<lambda>_. keep L2)"
      unfolding luaD_seterrorobj_def
      by (rule triple_vbind [where R = "\<lambda>_. keep L2"]) (use k in \<open>auto simp del: One_nat_def intro!: ops e\<close>)
  qed (simp add: keep_def)
  have b: "triple (safe_below L) L3 (vthen (vupd (\<lambda>K. K\<lparr>L_nCcalls := L_nCcalls L, L_ci := L_ci L\<rparr>))
       (vthen (vupd (\<lambda>L. L\<lparr>L_base := ci_base (cur_ci L), L_savedpc := ci_savedpc (cur_ci L)\<rparr>)) restore_stack_limit))
     (\<lambda>_ L'. frame L (L'\<lparr>L_errfunc := L_errfunc L\<rparr>))" if k: "keep L2 L3" for L3
  proof -
    have fr: "frames (L_ci L + 1) L3 = frames (L_ci L + 1) L" "length (L_stack L) \<le> length (L_stack L3)"
      using safe [OF k] by (simp_all add: safe_below_def unwound_def)
    note base = wf_frames [OF wf fr(1)]
    show ?thesis
      using fr base
      by (intro triple_vupd_then)
        (auto simp: restore_stack_limit_def realloc_ci_def cur_ci_def frame_def same_rest_def frames_def triple_def vbind_def min_def)
  qed
  show ?thesis using triple_vbind [OF a b] by (simp only: vbind_assoc)
qed

text \<open>A protected call keeps the frame, whether or not an error was caught.\<close>

lemma keeps_pcall [keeps]:
  assumes f: "keeps_frame f"
  shows "keeps_frame (luaD_pcall f old_top eh)"
  unfolding keeps_frame_def
proof (intro allI impI)
  fix L assume wf: "wf_ci L"
  define L0 where "L0 = L\<lparr>L_errfunc := eh\<rparr>"
  have wf0: "wf_ci L0" using wf by (simp add: L0_def wf_ci_def cur_ci_def)
  have t: "triple (safe_below L0) L0 f (\<lambda>_. frame L0)" using f wf0 by (simp add: keeps_frame_def)
  define after where "after = (\<lambda>status. vthen (if status \<noteq> 0
             then vthen (close_upvals old_top) (vthen (luaD_seterrorobj status old_top)
                  (vthen (vupd (\<lambda>K. K\<lparr>L_nCcalls := L_nCcalls L, L_ci := L_ci L\<rparr>))
                  (vthen (vupd (\<lambda>L. L\<lparr>L_base := ci_base (cur_ci L), L_savedpc := ci_savedpc (cur_ci L)\<rparr>))
                     restore_stack_limit)))
             else vret ())
       (vthen (vupd (\<lambda>K. K\<lparr>L_errfunc := L_errfunc L\<rparr>)) (vret status)))"
  have ok: "triple (safe_below L) K (after status) (\<lambda>_. frame L)" if "if status = 0 then frame L0 K else safe_below L0 K" for K status
  proof (cases "status = 0")
    case True
    then show ?thesis using that by (simp add: after_def L0_def frame_def same_rest_def frames_def triple_def vbind_def)
  next
    case False
    then have "safe_below L K" using that by (simp add: L0_def safe_below_def unwound_def frames_def)
    from recover_ok [OF wf this, of old_top status] show ?thesis
      unfolding after_def using False by (simp add: triple_vbind triple_vupd_then)
  qed
  have "triple (safe_below L) L0 (luaD_rawrunprotected f) (\<lambda>status K. if status = 0 then frame L0 K else safe_below L0 K)"
    using t by (auto simp: triple_def luaD_rawrunprotected_def L0_def safe_below_def unwound_def frames_def
        split: sum.splits prod.splits vm_exception.splits)
  from triple_vbind [OF this ok] show "triple (safe_below L) L (luaD_pcall f old_top eh) (\<lambda>_. frame L)"
    by (simp add: luaD_pcall_def after_def L0_def triple_def vbind_def)
qed

end
