(* ===== verification/LVmProps.thy ===== *)
theory LVmProps
  imports LVmFrame
begin

text \<open>
  What the interpreter guarantees: calls are balanced, protected calls recover, checked code is not
  left, and a return delivers the results the caller asked for.
\<close>

section \<open>A small program\<close>

text \<open>A C function that returns nothing and one that raises an error, and a state in which the main
  record runs with the first one at position 1 of the stack.\<close>

definition env0 :: lua_env where
  "env0 = \<lparr>E_view = \<lparr>tsv_hash = \<lambda>_. 0, tsv_addr = \<lambda>_. 0\<rparr>, E_num2str = \<lambda>_. [], E_pow = \<lambda>x y. x, E_strcoll = \<lambda>x y. 0,
     E_point = 46, E_cfun = \<lambda>f call. if f = 0 then vret 0 else luaG_runerror call (bytes ''failed'')\<rparr>"

definition state0 :: lua_State where
  "state0 = \<lparr>L_stack = TNil # TGC (GFunction 1) # TGC (GFunction 2) # replicate 43 TNil, L_top = 2, L_base = 1,
     L_base_ci = [\<lparr>ci_base = 1, ci_func = 0, ci_top = 21, ci_savedpc = 0, ci_nresults = 0, ci_tailcalls = 0\<rparr>],
     L_ci = 0, L_size_ci = 8, L_savedpc = 0, L_nCcalls = 0, L_errfunc = 0, L_gt = TNil, L_registry = TNil,
     L_mt = \<lambda>_. None, L_tables = \<lambda>_. None,
     L_closures = (\<lambda>_. None)(1 \<mapsto> CClosure 0 0 [], 2 \<mapsto> CClosure 0 1 []),
     L_udata = \<lambda>_. None, L_uvs = \<lambda>_. None, L_openupval = [], L_uvhead = [], L_next = 3\<rparr>"

lemma env0_ok: "cfun_ok env0"
  by (auto simp: cfun_ok_def env0_def intro!: keeps_cframeI keeps)

lemma state0_wf: "wf_ci state0"
  by (simp add: wf_ci_def state0_def cur_ci_def)

lemma run_split: "fst p = r \<Longrightarrow> p = (r, snd p)"
  by auto

section \<open>Calls\<close>

text \<open>C2: Calls are balanced: when a call of any function, Lua or C, returns, the running call
  record is the one that was running before, with its base, the count of nested C calls and the
  error handler, and the records of the running function and of all its callers are as before,
  however many functions, tail calls and metamethods ran in between. The C functions of the
  program are assumed to keep the call records when the calls they make do.\<close>

theorem call_is_balanced:
  assumes "cfun_ok E" and "wf_ci L" and "luaD_call fuel E func nresults L = (Inr (), L')"
  shows "L_ci L' = L_ci L \<and> L_base L' = L_base L \<and> L_nCcalls L' = L_nCcalls L \<and> L_errfunc L' = L_errfunc L \<and>
    frames (L_ci L + 1) L' = frames (L_ci L + 1) L"
proof -
  have "frame L L'" using keeps_frameD [OF keeps_callD [OF luaD_call_ok [OF assms(1)]] assms(2,3)] .
  then show ?thesis by (simp add: frame_def same_rest_def)
qed

lemma call_is_balanced_witness:
  "fst (luaD_call 1 env0 1 0 state0) = Inr () \<and> L_ci (snd (luaD_call 1 env0 1 0 state0)) = 0 \<and>
   L_nCcalls (snd (luaD_call 1 env0 1 0 state0)) = 0"
proof -
  have r: "fst (luaD_call 1 env0 1 0 state0) = Inr ()" unfolding state0_def env0_def by code_simp
  have "L_ci state0 = 0" "L_nCcalls state0 = 0" by (simp_all add: state0_def)
  with call_is_balanced [OF env0_ok state0_wf run_split [OF r]] r show ?thesis by metis
qed

lemma seterrorobj_top: "luaD_seterrorobj c t L = (Inr x, L') \<Longrightarrow> L_top L' = t + 1"
  by (auto simp: luaD_seterrorobj_def vbind_Inr set_top_def)

lemma restore_top: "restore_stack_limit L = (Inr x, L') \<Longrightarrow> L_top L' = L_top L"
  by (auto simp: restore_stack_limit_def realloc_ci_def split: if_splits)

text \<open>C3: A protected call recovers: whatever function is called, and whether it returns or an
  error is caught at any depth, afterwards the call records, base, count of C calls and error
  handler are those before the call; after an error the top is just above the error object.\<close>

theorem protected_call_recovers:
  assumes "cfun_ok E" and "wf_ci L"
    and "luaD_pcall (luaD_call fuel E func nresults) old_top eh L = (Inr status, L')"
  shows "L_ci L' = L_ci L \<and> L_base L' = L_base L \<and> L_nCcalls L' = L_nCcalls L \<and> L_errfunc L' = L_errfunc L \<and>
    frames (L_ci L + 1) L' = frames (L_ci L + 1) L \<and>
    (status \<noteq> 0 \<longrightarrow> L_top L' = old_top + 1)"
proof -
  have k: "keeps_frame (luaD_call fuel E func nresults)" using keeps_callD [OF luaD_call_ok [OF assms(1)]] .
  have "frame L L'" using keeps_frameD [OF keeps_pcall [OF k] assms(2,3)] .
  moreover have "L_top L' = old_top + 1" if "status \<noteq> 0"
    using assms(3) that
    by (auto simp: luaD_pcall_def vbind_Inr dest!: seterrorobj_top restore_top)
  ultimately show ?thesis by (simp add: frame_def same_rest_def)
qed

lemma protected_call_recovers_witness:
  "fst (luaD_pcall (luaD_call 1 env0 2 0) 1 0 state0) = Inr 2 \<and>
   L_ci (snd (luaD_pcall (luaD_call 1 env0 2 0) 1 0 state0)) = 0 \<and>
   L_top (snd (luaD_pcall (luaD_call 1 env0 2 0) 1 0 state0)) = 2"
proof -
  let ?r = "luaD_pcall (luaD_call 1 env0 2 0) 1 0 state0"
  have r: "fst ?r = Inr 2" unfolding state0_def env0_def by code_simp
  have "L_ci state0 = 0" "(2::int) \<noteq> 0" "(1::nat) + 1 = 2" by (simp_all add: state0_def)
  with protected_call_recovers [OF env0_ok state0_wf run_split [OF r]] r show ?thesis by metis
qed

section \<open>Checked code\<close>

text \<open>The successors of the checker's model are the ones the interpreter goes to.\<close>

lemma step_goes: "yields (\<lambda>r. \<forall>pc'. r = Next pc' \<longrightarrow> pc' \<in> set (vm_succs p pc)) (vm_step E call env p us pc)"
proof -
  have "yields (\<lambda>r. \<forall>pc'. r = Next pc' \<longrightarrow> pc' \<in> set (op_succs p pc i op)) (vm_op E call env p us (pc + 1) i op)"
    if "op \<noteq> OP_RETURN" for i op
  proof (cases "op \<in> calling_ops")
    case True
    then show ?thesis using that
      by (auto simp: calling_ops_def op_call_def op_tailcall_def intro!: goes split: precall.split)
  next
    case False
    show ?thesis using op_goes [OF False, of p pc i E call env us] by (auto simp: yields_def next_in_def)
  qed
  moreover have "yields (\<lambda>r. \<forall>pc'. r \<noteq> Next pc') (vm_op E call env p us (pc + 1) i OP_RETURN)" for i
    by (auto simp: op_return_def intro!: goes)
  ultimately have "yields (\<lambda>r. \<forall>pc'. r = Next pc' \<longrightarrow> pc' \<in> set (op_succs p pc i op)) (vm_op E call env p us (pc + 1) i op)" for i op
    by (cases "op = OP_RETURN") (auto simp: yields_def)
  then show ?thesis
    unfolding vm_step_def by (intro yields_fetch) (auto simp: vm_succs_def intro!: goes split: option.split)
qed

text \<open>C4: The interpreter never leaves checked code: at a position that it can reach in a function
  accepted by \<open>luaG_checkcode\<close>, whose LOADBOOL instructions have a skip flag of 0 or 1, a step
  that goes on in the function goes to a position that holds an instruction of the code.\<close>

theorem checked_code_is_not_left:
  assumes "luaG_checkcode p = Inr True" and "loadbool_flags p" and "vm_reach p pc"
    and "vm_step E call env p us pc L = (Inr (Next pc'), L')"
  shows "vm_reach p pc' \<and> 0 \<le> pc' \<and> pc' < sizecode p"
proof -
  have "pc' \<in> set (vm_succs p pc)" using step_goes assms(4) by (fastforce simp: yields_def)
  then have "vm_reach p pc'" using assms(3) by (rule vm_next [rotated])
  then show ?thesis using reach_instr_pos [OF _ assms(1,2)] by (simp add: instr_pos_def)
qed


lemma checked_code_is_not_left_witness:
  "\<exists>pc'. fst (vm_step env0 (luaD_call 0 env0) 0 skip_ok [] 0 state0) = Inr (Next pc') \<and> pc' < sizecode skip_ok"
proof -
  let ?r = "vm_step env0 (luaD_call 0 env0) 0 skip_ok [] 0 state0"
  have r: "fst ?r = Inr (Next 2)" unfolding state0_def env0_def by code_simp
  have c: "luaG_checkcode skip_ok = Inr True" "loadbool_flags skip_ok" by code_simp+
  from checked_code_is_not_left [OF c vm_start run_split [OF r]] r show ?thesis by metis
qed


section \<open>Results\<close>

text \<open>What a caller that wants \<open>w\<close> results gets: all of them if it is negative, else exactly \<open>w\<close>.\<close>

definition adjusted :: "int \<Rightarrow> lvalue list \<Rightarrow> lvalue list" where
  "adjusted w vs = (if w < 0 then vs else take (nat w) (vs @ replicate (nat w) TNil))"

definition overwrite :: "'a list \<Rightarrow> nat \<Rightarrow> 'a list \<Rightarrow> 'a list" where
  "overwrite xs i ys = take i xs @ ys @ drop (i + length ys) xs"

lemma overwrite_Cons:
  assumes "i < length xs"
  shows "overwrite (xs[i := y]) (Suc i) ys = overwrite xs i (y # ys)"
  using assms by (simp add: overwrite_def take_Suc_conv_app_nth)

lemma overwrite_Nil [simp]: "overwrite xs i [] = xs"
  by (simp add: overwrite_def)

lemma adjusted_Cons: "w \<noteq> 0 \<Longrightarrow> adjusted w (v # vs) = v # adjusted (w - 1) vs"
proof -
  assume w: "w \<noteq> 0"
  show ?thesis
  proof (cases "w < 0")
    case False
    then have "nat w = Suc (nat (w - 1))" using w by simp
    then show ?thesis using False w by (auto simp: adjusted_def replicate_append_same [symmetric])
  qed (simp add: adjusted_def)
qed

lemma adjusted_Nil: "adjusted w [] = replicate (nat w) TNil"
  by (simp add: adjusted_def)

lemma clear_stack_run:
  "st + n \<le> length (L_stack L) \<Longrightarrow> clear_stack st n L = (Inr (), L\<lparr>L_stack := overwrite (L_stack L) st (replicate n TNil)\<rparr>)"
  by (induction n arbitrary: st L) (simp_all add: stack_set_def overwrite_Cons)

lemma move_results_run:
  "res \<le> k \<Longrightarrow> k + n \<le> length (L_stack L) \<Longrightarrow> res + nat w \<le> length (L_stack L) \<Longrightarrow>
   move_results n k w res L =
     (let vs = adjusted w (take n (drop k (L_stack L)))
      in (Inr (res + length vs), L\<lparr>L_stack := overwrite (L_stack L) res vs\<rparr>))"
proof (induction n arbitrary: k w res L)
  case 0
  then show ?case by (simp add: adjusted_Nil clear_stack_run Let_def)
next
  case (Suc n)
  show ?case
  proof (cases "w = 0")
    case True
    then show ?thesis by (simp add: adjusted_def Let_def)
  next
    case False
    let ?L = "L\<lparr>L_stack := (L_stack L)[res := L_stack L ! k]\<rparr>"
    have "nat (w - 1) \<le> nat w" by simp
    then have "move_results n (k + 1) (w - 1) (res + 1) ?L =
        (let vs = adjusted (w - 1) (take n (drop (k + 1) (L_stack ?L)))
         in (Inr (res + 1 + length vs), ?L\<lparr>L_stack := overwrite (L_stack ?L) (res + 1) vs\<rparr>))"
      using Suc.prems False by (intro Suc.IH) auto
    moreover have "drop (k + 1) (L_stack ?L) = drop (k + 1) (L_stack L)" using Suc.prems by simp
    moreover have "take (Suc n) (drop k (L_stack L)) = L_stack L ! k # take n (drop (k + 1) (L_stack L))"
      using Suc.prems by (simp add: Cons_nth_drop_Suc [symmetric])
    ultimately show ?thesis using False Suc.prems
      by (simp add: stack_get_def stack_set_def adjusted_Cons overwrite_Cons Let_def)
  qed
qed

text \<open>C34: A return delivers the results: they are moved to the place of the called function, as
  many as the caller asked for, missing ones as nil and surplus ones dropped, or all of them for
  LUA_MULTRET; the rest of the stack is untouched and the caller's base and program counter are
  back.\<close>

theorem return_delivers_results:
  assumes "0 < L_ci L" and "ci_func (cur_ci L) \<le> k" and "k \<le> L_top L" and "L_top L \<le> length (L_stack L)"
    and "ci_func (cur_ci L) + nat (ci_nresults (cur_ci L)) \<le> length (L_stack L)"
  shows "\<exists>L'. luaD_poscall k L = (Inr (ci_nresults (cur_ci L) \<noteq> LUA_MULTRET), L') \<and>
    (let vs = adjusted (ci_nresults (cur_ci L)) (drop k (take (L_top L) (L_stack L)))
     in L_stack L' = overwrite (L_stack L) (ci_func (cur_ci L)) vs \<and> L_top L' = ci_func (cur_ci L) + length vs) \<and>
    L_ci L' = L_ci L - 1 \<and> L_base L' = ci_base (L_base_ci L ! (L_ci L - 1)) \<and> L_savedpc L' = ci_savedpc (L_base_ci L ! (L_ci L - 1))"
proof -
  have t: "take (L_top L - k) (drop k (L_stack L)) = drop k (take (L_top L) (L_stack L))" by (simp add: drop_take)
  show ?thesis
    using assms move_results_run [of "ci_func (cur_ci L)" k "L_top L - k"]
    by (simp add: luaD_poscall_def vbind_def set_top_def Let_def t) (simp add: cur_ci_def)
qed

text \<open>A second record, of the C function at position 1, whose caller wants two results.\<close>

definition state1 :: lua_State where
  "state1 = state0\<lparr>L_base_ci := L_base_ci state0 @
       [\<lparr>ci_base = 2, ci_func = 1, ci_top = 22, ci_savedpc = 0, ci_nresults = 2, ci_tailcalls = 0\<rparr>],
     L_ci := 1, L_base := 2, L_top := 3\<rparr>"

lemma return_delivers_results_witness:
  "\<exists>L'. luaD_poscall 2 state1 = (Inr True, L') \<and> L_ci L' = 0 \<and> L_base L' = 1 \<and> L_top L' = 3 \<and>
    L_stack L' = overwrite (L_stack state1) 1 [TGC (GFunction 2), TNil]"
proof -
  have v: "L_ci state1 = 1" "L_top state1 = 3" "length (L_stack state1) = 46" "cur_ci state1 =
      \<lparr>ci_base = 2, ci_func = 1, ci_top = 22, ci_savedpc = 0, ci_nresults = 2, ci_tailcalls = 0\<rparr>"
    "ci_base (L_base_ci state1 ! 0) = 1" "drop 2 (take 3 (L_stack state1)) = [TGC (GFunction 2)]"
    by (simp_all add: state1_def state0_def cur_ci_def)
  have a: "adjusted 2 [TGC (GFunction 2)] = [TGC (GFunction 2), TNil]" by (simp add: adjusted_def eval_nat_numeral)
  show ?thesis using return_delivers_results [of state1 2] by (simp add: v a LUA_MULTRET_def) auto
qed

end
