(* ===== verification/LDbg.thy ===== *)
theory LDbg
  imports LVM
begin

text \<open>
  The debug interface of \<open>ldebug.c\<close>, as far as it does not concern hooks: the functions on the
  call stack, their names, lines and local variables.
\<close>

section \<open>Call records\<close>

definition ci_at :: "nat \<Rightarrow> CallInfo vm" where
  "ci_at k = vget (\<lambda>L. L_base_ci L ! k)"

text \<open>\<open>currentpc\<close> and \<open>currentline\<close> of the record with a given index.\<close>

definition currentpc_at :: "nat \<Rightarrow> int vm" where
  "currentpc_at k =
     vbind (ci_at k) (\<lambda>ci.
     vbind (isLua ci) (\<lambda>b.
       if \<not> b then vret (- 1)
       else vbind (vget L_ci) (\<lambda>c.
            vthen (if k = c then vbind (vget L_savedpc) (\<lambda>pc. upd_ci (\<lambda>ci. ci\<lparr>ci_savedpc := pc\<rparr>)) else vret ())
              (vbind (ci_at k) (\<lambda>ci. vret (ci_savedpc ci - 1))))))"

definition currentline_at :: "nat \<Rightarrow> int vm" where
  "currentline_at k =
     vbind (currentpc_at k) (\<lambda>pc.
       if pc < 0 then vret (- 1)
       else vbind (ci_at k) (\<lambda>ci. vbind (lua_proto ci) (\<lambda>p. vbind (vopt p) (\<lambda>p. getline p pc))))"

text \<open>The name of a called function is the name of the register in the calling instruction.\<close>

definition getfuncname :: "nat \<Rightarrow> (string \<times> byte list) option vm" where
  "getfuncname k =
     vbind (ci_at k) (\<lambda>ci.
     vbind (isLua ci) (\<lambda>lua.
     vbind (ci_at (k - 1)) (\<lambda>caller.
     vbind (lua_proto caller) (\<lambda>p.
       case p of
         None \<Rightarrow> vret None
       | Some p \<Rightarrow>
           if lua \<and> 0 < ci_tailcalls ci then vret None
           else vbind (currentpc_at (k - 1)) (\<lambda>pc.
                vbind (fetch p pc) (\<lambda>i.
                  if is_op OP_CALL i \<or> is_op OP_TAILCALL i \<or> is_op OP_TFORLOOP i
                  then getobjname 256 p pc (GETARG_A i) else vret None))))))"

fun getstack_loop :: "nat \<Rightarrow> int \<Rightarrow> (nat \<times> int) vm" where
  "getstack_loop 0 level = vret (0, level)"
| "getstack_loop (Suc k) level =
     (if 0 < level
      then vbind (ci_at (Suc k)) (\<lambda>ci. vbind (lua_proto ci) (\<lambda>p.
             getstack_loop k (level - 1 - (if p \<noteq> None then ci_tailcalls ci else 0))))
      else vret (Suc k, level))"

text \<open>The index of the record at a level, 0 for a lost tail call.\<close>

definition lua_getstack :: "int \<Rightarrow> nat option vm" where
  "lua_getstack level =
     vbind (vget L_ci) (\<lambda>c. vbind (getstack_loop c level) (\<lambda>(k, level).
       vret (if level = 0 \<and> 0 < k then Some k else if level < 0 then Some 0 else None)))"

section \<open>Local variables\<close>

definition findlocal :: "nat \<Rightarrow> int \<Rightarrow> byte list option vm" where
  "findlocal k n =
     vbind (ci_at k) (\<lambda>ci.
     vbind (lua_proto ci) (\<lambda>fp.
     vbind (case fp of
              None \<Rightarrow> vret None
            | Some p \<Rightarrow> vbind (currentpc_at k) (\<lambda>pc. vret (luaF_getlocalname p n pc))) (\<lambda>name.
       case name of
         Some s \<Rightarrow> vret (Some (c_str s))
       | None \<Rightarrow>
           vbind (vget L_ci) (\<lambda>c.
           vbind (if k = c then vget L_top else vbind (ci_at (k + 1)) (\<lambda>up. vret (ci_func up))) (\<lambda>limit.
             vret (if n \<le> int limit - int (ci_base ci) \<and> 0 < n then Some (bytes ''(*temporary)'') else None))))))"

definition lua_getlocal :: "nat \<Rightarrow> int \<Rightarrow> byte list option vm" where
  "lua_getlocal k n =
     vbind (ci_at k) (\<lambda>ci.
     vbind (findlocal k n) (\<lambda>name.
     vthen (case name of
              None \<Rightarrow> vret ()
            | Some _ \<Rightarrow> vbind (stack_get (nat (int (ci_base ci) + (n - 1)))) (\<lambda>v.
                vbind (vget L_top) (\<lambda>t. vthen (stack_set t v) (set_top (t + 1)))))
       (vret name)))"

definition lua_setlocal :: "nat \<Rightarrow> int \<Rightarrow> byte list option vm" where
  "lua_setlocal k n =
     vbind (ci_at k) (\<lambda>ci.
     vbind (findlocal k n) (\<lambda>name.
     vbind (vget L_top) (\<lambda>t.
     vthen (case name of
              None \<Rightarrow> vret ()
            | Some _ \<Rightarrow> vbind (stack_get (t - 1)) (stack_set (nat (int (ci_base ci) + (n - 1)))))
       (vthen (set_top (t - 1)) (vret name)))))"

section \<open>Information on functions\<close>

record lua_Debug =
  ar_name :: "byte list option"
  ar_namewhat :: string
  ar_what :: string
  ar_source :: "byte list"
  ar_currentline :: int
  ar_nups :: nat
  ar_linedefined :: int
  ar_lastlinedefined :: int
  ar_short_src :: "byte list"

definition no_debug :: lua_Debug where
  "no_debug = \<lparr>ar_name = None, ar_namewhat = '''', ar_what = '''', ar_source = [], ar_currentline = 0, ar_nups = 0,
     ar_linedefined = 0, ar_lastlinedefined = 0, ar_short_src = []\<rparr>"

definition funcinfo :: "Closure \<Rightarrow> lua_Debug \<Rightarrow> lua_Debug vm" where
  "funcinfo cl ar =
     (case cl of
        CClosure _ _ _ \<Rightarrow>
          vret (ar\<lparr>ar_source := bytes ''=[C]'', ar_linedefined := - 1, ar_lastlinedefined := - 1, ar_what := ''C'',
                   ar_short_src := luaO_chunkid (bytes ''=[C]'') LUA_IDSIZE\<rparr>)
      | LClosure _ p _ \<Rightarrow>
          vbind (svalue (TString (psource p))) (\<lambda>source.
            vret (ar\<lparr>ar_source := source, ar_linedefined := plinedefined p, ar_lastlinedefined := plastlinedefined p,
                     ar_what := (if plinedefined p = 0 then ''main'' else ''Lua''),
                     ar_short_src := luaO_chunkid source LUA_IDSIZE\<rparr>)))"

definition info_tailcall :: "lua_Debug \<Rightarrow> lua_Debug" where
  "info_tailcall ar =
     ar\<lparr>ar_name := Some [], ar_namewhat := '''', ar_what := ''tail'', ar_lastlinedefined := - 1, ar_linedefined := - 1,
        ar_currentline := - 1, ar_source := bytes ''=(tail call)'',
        ar_short_src := luaO_chunkid (bytes ''=(tail call)'') LUA_IDSIZE, ar_nups := 0\<rparr>"

definition nupvalues :: "Closure \<Rightarrow> nat" where
  "nupvalues cl = (case cl of LClosure _ _ us \<Rightarrow> length us | CClosure _ _ vs \<Rightarrow> length vs)"

fun valid_lines :: "lua_env \<Rightarrow> int list \<Rightarrow> lstr Table \<Rightarrow> lstr Table vm" where
  "valid_lines E [] t = vret t"
| "valid_lines E (l # ls) t = vbind (vres (luaH_setnum (E_view E) t l)) (\<lambda>(t, s). valid_lines E ls (set_slot t s (TBoolean True)))"

definition collectvalidlines :: "lua_env \<Rightarrow> Closure option \<Rightarrow> unit vm" where
  "collectvalidlines E f =
     vbind (case f of
              Some (LClosure _ p _) \<Rightarrow>
                vbind (vres (luaH_new 0 0)) (\<lambda>t. vbind (valid_lines E (plineinfo p) t) (\<lambda>t.
                vbind (new_table t) (\<lambda>a. vret (TGC (GTable a)))))
            | _ \<Rightarrow> vret TNil) (\<lambda>v.
     vbind (vget L_top) (\<lambda>t. vthen (stack_set t v) incr_top))"

fun getinfo_options :: "string \<Rightarrow> Closure \<Rightarrow> nat option \<Rightarrow> lua_Debug \<Rightarrow> bool \<Rightarrow> (lua_Debug \<times> bool) vm" where
  "getinfo_options [] f ci ar status = vret (ar, status)"
| "getinfo_options (c # what) f ci ar status =
     (if c = CHR ''S'' then vbind (funcinfo f ar) (\<lambda>ar. getinfo_options what f ci ar status)
      else if c = CHR ''l'' then
        vbind (case ci of None \<Rightarrow> vret (- 1) | Some k \<Rightarrow> currentline_at k) (\<lambda>l.
          getinfo_options what f ci (ar\<lparr>ar_currentline := l\<rparr>) status)
      else if c = CHR ''u'' then getinfo_options what f ci (ar\<lparr>ar_nups := nupvalues f\<rparr>) status
      else if c = CHR ''n'' then
        vbind (case ci of None \<Rightarrow> vret None | Some k \<Rightarrow> getfuncname k) (\<lambda>r.
          getinfo_options what f ci
            (case r of None \<Rightarrow> ar\<lparr>ar_namewhat := '''', ar_name := None\<rparr>
             | Some (kind, name) \<Rightarrow> ar\<lparr>ar_namewhat := kind, ar_name := Some name\<rparr>) status)
      else getinfo_options what f ci ar (status \<and> (c = CHR ''L'' \<or> c = CHR ''f'')))"

definition auxgetinfo :: "string \<Rightarrow> lua_Debug \<Rightarrow> Closure option \<Rightarrow> nat option \<Rightarrow> (lua_Debug \<times> bool) vm" where
  "auxgetinfo what ar f ci =
     (case f of None \<Rightarrow> vret (info_tailcall ar, True) | Some cl \<Rightarrow> getinfo_options what cl ci ar True)"

text \<open>\<open>lua_getinfo\<close> on the record \<open>k\<close>, or on the function on the top of the stack when \<open>what\<close> starts
  with \<open>>\<close>.\<close>

definition lua_getinfo :: "lua_env \<Rightarrow> string \<Rightarrow> nat \<Rightarrow> lua_Debug \<Rightarrow> (lua_Debug \<times> bool) vm" where
  "lua_getinfo E what k ar =
     (let arg = what \<noteq> [] \<and> hd what = CHR ''>''; opts = (if arg then tl what else what)
      in vbind (if arg
                then vbind (vget L_top) (\<lambda>t. vbind (callee (t - 1)) (\<lambda>cl. vbind (stack_get (t - 1)) (\<lambda>v.
                     vthen (set_top (t - 1)) (vret (Some (v, cl), None)))))
                else if k \<noteq> 0
                then vbind (ci_at k) (\<lambda>ci. vbind (callee (ci_func ci)) (\<lambda>cl. vbind (stack_get (ci_func ci)) (\<lambda>v.
                     vret (Some (v, cl), Some k))))
                else vret (None, None)) (\<lambda>(f, ci).
         vbind (auxgetinfo opts ar (map_option snd f) ci) (\<lambda>r.
         vthen (if CHR ''f'' \<in> set opts
                then vbind (vget L_top) (\<lambda>t. vthen (stack_set t (case f of None \<Rightarrow> TNil | Some (v, _) \<Rightarrow> v)) incr_top)
                else vret ())
         (vthen (if CHR ''L'' \<in> set opts then collectvalidlines E (map_option snd f) else vret ())
           (vret r)))))"

end
