(* ===== verification/LApi.thy ===== *)
theory LApi
  imports LDbg LStrLib
begin

text \<open>
  \<open>lapi.c\<close>: the interface through which C functions see the state. \<open>E\<close> and \<open>call\<close> are passed to the
  operations that may run Lua code. An index is translated into a place; what a place holds is read
  and written separately. The checks of \<open>luai_apicheck\<close> are off, as in the default configuration:
  an index outside of the stack is \<open>Crash\<close>.
\<close>

definition LUA_REGISTRYINDEX :: int where "LUA_REGISTRYINDEX = - 10000"
definition LUA_ENVIRONINDEX :: int where "LUA_ENVIRONINDEX = - 10001"
definition LUA_GLOBALSINDEX :: int where "LUA_GLOBALSINDEX = - 10002"

definition lua_upvalueindex :: "int \<Rightarrow> int" where "lua_upvalueindex i = LUA_GLOBALSINDEX - i"

section \<open>Places\<close>

datatype place = OnStack nat | Registry | Environ | Globals | Upvalue nat | NilObject

definition curr_func :: "Closure vm" where "curr_func = vbind (vget cur_ci) (\<lambda>ci. callee (ci_func ci))"

definition index2adr :: "int \<Rightarrow> place vm" where
  "index2adr idx =
     (if 0 < idx
      then vbind (vget L_base) (\<lambda>base. vbind (vget L_top) (\<lambda>t.
             let pl = base + nat (idx - 1) in vret (if t \<le> pl then NilObject else OnStack pl)))
      else if LUA_REGISTRYINDEX < idx
      then vbind (vget L_top) (\<lambda>t. if - idx \<le> int t then vret (OnStack (nat (int t + idx))) else vexc Crash)
      else if idx = LUA_REGISTRYINDEX then vret Registry
      else if idx = LUA_ENVIRONINDEX then vret Environ
      else if idx = LUA_GLOBALSINDEX then vret Globals
      else vbind curr_func (\<lambda>f.
             vret (if LUA_GLOBALSINDEX - idx \<le> int (nupvalues f) then Upvalue (nat (LUA_GLOBALSINDEX - idx - 1)) else NilObject)))"

definition get_place :: "place \<Rightarrow> lvalue vm" where
  "get_place pl =
     (case pl of
        OnStack p \<Rightarrow> stack_get p
      | Registry \<Rightarrow> vget L_registry
      | Environ \<Rightarrow> vbind curr_func (\<lambda>f. vret (TGC (GTable (cl_env f))))
      | Globals \<Rightarrow> vget L_gt
      | Upvalue n \<Rightarrow> vbind curr_func (\<lambda>f.
          case f of CClosure _ _ vs \<Rightarrow> if n < length vs then vret (vs ! n) else vexc Crash | _ \<Rightarrow> vexc Crash)
      | NilObject \<Rightarrow> vret TNil)"

definition set_closure :: "addr \<Rightarrow> Closure \<Rightarrow> unit vm" where
  "set_closure a cl = vupd (\<lambda>L. L\<lparr>L_closures := (L_closures L)(a \<mapsto> cl)\<rparr>)"

text \<open>The address and the closure of the running function.\<close>

definition curr_closure :: "(addr \<times> Closure) vm" where
  "curr_closure =
     vbind (vget cur_ci) (\<lambda>ci. vbind (stack_get (ci_func ci)) (\<lambda>v.
       case v of TGC (GFunction a) \<Rightarrow> vbind (closure_at a) (\<lambda>cl. vret (a, cl)) | _ \<Rightarrow> vexc Crash))"

definition set_place :: "place \<Rightarrow> lvalue \<Rightarrow> unit vm" where
  "set_place pl v =
     (case pl of
        OnStack p \<Rightarrow> stack_set p v
      | Registry \<Rightarrow> vupd (\<lambda>L. L\<lparr>L_registry := v\<rparr>)
      | Environ \<Rightarrow> vret ()
      | Globals \<Rightarrow> vupd (\<lambda>L. L\<lparr>L_gt := v\<rparr>)
      | Upvalue n \<Rightarrow> vbind curr_closure (\<lambda>(a, f).
          case f of
            CClosure e c vs \<Rightarrow> if n < length vs then set_closure a (CClosure e c (vs[n := v])) else vexc Crash
          | _ \<Rightarrow> vexc Crash)
      | NilObject \<Rightarrow> vexc Crash)"

definition value_at :: "int \<Rightarrow> lvalue vm" where
  "value_at idx = vbind (index2adr idx) get_place"

definition place_pos :: "place \<Rightarrow> nat option" where
  "place_pos pl = (case pl of OnStack p \<Rightarrow> Some p | _ \<Rightarrow> None)"

definition operand_at :: "int \<Rightarrow> operand vm" where
  "operand_at idx = vbind (index2adr idx) (\<lambda>pl. vbind (get_place pl) (\<lambda>v. vret (v, place_pos pl)))"

definition getcurrenv :: "addr vm" where
  "getcurrenv =
     vbind (vget L_ci) (\<lambda>k.
       if k = 0 then vbind (vget L_gt) (\<lambda>v. case v of TGC (GTable a) \<Rightarrow> vret a | _ \<Rightarrow> vexc Crash)
       else vbind curr_func (\<lambda>f. vret (cl_env f)))"

text \<open>A push: \<open>setobj2s(L, L->top, v); api_incr_top(L)\<close>. Unlike \<open>push\<close> it does not check the stack.\<close>

definition luaA_pushobject :: "lvalue \<Rightarrow> unit vm" where
  "luaA_pushobject v = vbind (vget L_top) (\<lambda>t. vthen (stack_set t v) (set_top (t + 1)))"

definition add_top :: "int \<Rightarrow> unit vm" where
  "add_top n = vbind (vget L_top) (\<lambda>t. if 0 \<le> int t + n then set_top (nat (int t + n)) else vexc Crash)"

definition value_below :: "nat \<Rightarrow> lvalue vm" where
  "value_below n = vbind (vget L_top) (\<lambda>t. if n \<le> t then stack_get (t - n) else vexc Crash)"

section \<open>Stack manipulation\<close>


definition lua_checkstack :: "int \<Rightarrow> bool vm" where
  "lua_checkstack sz =
     vbind (vget L_top) (\<lambda>t. vbind (vget L_base) (\<lambda>base.
       if LUAI_MAXCSTACK < sz \<or> LUAI_MAXCSTACK < int t - int base + sz then vret False
       else if 0 < sz
       then vthen (luaD_checkstack sz)
              (vthen (upd_ci (\<lambda>ci. if int (ci_top ci) < int t + sz then ci\<lparr>ci_top := nat (int t + sz)\<rparr> else ci)) (vret True))
       else vret True))"

definition lua_gettop :: "int vm" where
  "lua_gettop = vbind (vget L_top) (\<lambda>t. vbind (vget L_base) (\<lambda>base. vret (int t - int base)))"

definition lua_settop :: "int \<Rightarrow> unit vm" where
  "lua_settop idx =
     (if 0 \<le> idx
      then vbind (vget L_top) (\<lambda>t. vbind (vget L_base) (\<lambda>base.
             vthen (clear_stack t (base + nat idx - t)) (set_top (base + nat idx))))
      else add_top (idx + 1))"

definition lua_pop :: "int \<Rightarrow> unit vm" where "lua_pop n = lua_settop (- n - 1)"

fun shift_down :: "nat \<Rightarrow> nat \<Rightarrow> unit vm" where
  "shift_down p 0 = vret ()"
| "shift_down p (Suc n) = vbind (stack_get (p + 1)) (\<lambda>v. vthen (stack_set p v) (shift_down (p + 1) n))"

definition lua_remove :: "int \<Rightarrow> unit vm" where
  "lua_remove idx =
     vbind (index2adr idx) (\<lambda>pl.
       case pl of
         OnStack p \<Rightarrow> vbind (vget L_top) (\<lambda>t. vthen (shift_down p (t - p - 1)) (set_top (t - 1)))
       | _ \<Rightarrow> vexc Crash)"

definition lua_insert :: "int \<Rightarrow> unit vm" where
  "lua_insert idx =
     vbind (index2adr idx) (\<lambda>pl.
       case pl of
         OnStack p \<Rightarrow> vbind (vget L_top) (\<lambda>t. vthen (open_hole p (t - p)) (vbind (stack_get t) (stack_set p)))
       | _ \<Rightarrow> vexc Crash)"

definition set_env :: "Closure \<Rightarrow> addr \<Rightarrow> Closure" where
  "set_env cl a = (case cl of LClosure _ p us \<Rightarrow> LClosure a p us | CClosure _ f vs \<Rightarrow> CClosure a f vs)"

definition lua_replace :: "caller \<Rightarrow> int \<Rightarrow> unit vm" where
  "lua_replace call idx =
     vbind (vget L_ci) (\<lambda>k.
       if idx = LUA_ENVIRONINDEX \<and> k = 0 then luaG_runerror call (bytes ''no calling environment'')
       else vbind (index2adr idx) (\<lambda>pl.
            vbind (value_below 1) (\<lambda>v.
            vthen (if idx = LUA_ENVIRONINDEX
                   then (case v of
                           TGC (GTable a) \<Rightarrow> vbind curr_closure (\<lambda>(f, cl). set_closure f (set_env cl a))
                         | _ \<Rightarrow> vexc Crash)
                   else set_place pl v)
              (add_top (- 1)))))"

definition lua_pushvalue :: "int \<Rightarrow> unit vm" where
  "lua_pushvalue idx = vbind (value_at idx) luaA_pushobject"

section \<open>Access\<close>

definition LUA_TNONE :: int where "LUA_TNONE = - 1"

definition lua_type :: "int \<Rightarrow> int vm" where
  "lua_type idx =
     vbind (index2adr idx) (\<lambda>pl. if pl = NilObject then vret LUA_TNONE else vbind (get_place pl) (\<lambda>v. vret (ttype v)))"

definition lua_typename :: "int \<Rightarrow> byte list" where
  "lua_typename t = (if t = LUA_TNONE then bytes ''no value'' else bytes (luaT_typenames ! nat t))"

definition luaL_typename :: "int \<Rightarrow> byte list vm" where
  "luaL_typename idx = vbind (lua_type idx) (\<lambda>t. vret (lua_typename t))"

definition lua_isnil :: "int \<Rightarrow> bool vm" where "lua_isnil idx = vbind (lua_type idx) (\<lambda>t. vret (t = 0))"
definition lua_istable :: "int \<Rightarrow> bool vm" where "lua_istable idx = vbind (lua_type idx) (\<lambda>t. vret (t = 5))"
definition lua_isboolean :: "int \<Rightarrow> bool vm" where "lua_isboolean idx = vbind (lua_type idx) (\<lambda>t. vret (t = 1))"
definition lua_isfunction :: "int \<Rightarrow> bool vm" where "lua_isfunction idx = vbind (lua_type idx) (\<lambda>t. vret (t = 6))"
definition lua_isnoneornil :: "int \<Rightarrow> bool vm" where "lua_isnoneornil idx = vbind (lua_type idx) (\<lambda>t. vret (t \<le> 0))"

definition lua_iscfunction :: "int \<Rightarrow> bool vm" where
  "lua_iscfunction idx =
     vbind (value_at idx) (\<lambda>v. case v of TGC (GFunction a) \<Rightarrow> vbind (closure_at a) (\<lambda>cl. vret (isC cl)) | _ \<Rightarrow> vret False)"

definition lua_isnumber :: "lua_env \<Rightarrow> int \<Rightarrow> bool vm" where
  "lua_isnumber E idx = vbind (value_at idx) (\<lambda>v. vret (luaV_tonumber E v \<noteq> None))"

definition lua_isstring :: "int \<Rightarrow> bool vm" where
  "lua_isstring idx = vbind (lua_type idx) (\<lambda>t. vret (t = 4 \<or> t = 3))"

definition lua_isuserdata :: "int \<Rightarrow> bool vm" where
  "lua_isuserdata idx = vbind (value_at idx) (\<lambda>v. vret (case v of TGC (GUserdata _) \<Rightarrow> True | TLightUserdata _ \<Rightarrow> True | _ \<Rightarrow> False))"

definition both_valid :: "int \<Rightarrow> int \<Rightarrow> (lvalue \<Rightarrow> lvalue \<Rightarrow> bool vm) \<Rightarrow> bool vm" where
  "both_valid index1 index2 f =
     vbind (index2adr index1) (\<lambda>p1. vbind (index2adr index2) (\<lambda>p2.
       if p1 = NilObject \<or> p2 = NilObject then vret False
       else vbind (get_place p1) (\<lambda>v1. vbind (get_place p2) (\<lambda>v2. f v1 v2))))"

definition lua_rawequal :: "int \<Rightarrow> int \<Rightarrow> bool vm" where
  "lua_rawequal i j = both_valid i j (\<lambda>v w. vret (luaO_rawequalObj v w))"

definition lua_equal :: "lua_env \<Rightarrow> caller \<Rightarrow> int \<Rightarrow> int \<Rightarrow> bool vm" where
  "lua_equal E call i j = both_valid i j (equalobj E call)"

definition lua_lessthan :: "lua_env \<Rightarrow> caller \<Rightarrow> int \<Rightarrow> int \<Rightarrow> bool vm" where
  "lua_lessthan E call i j = both_valid i j (luaV_lessthan E call)"

definition lua_tonumber :: "lua_env \<Rightarrow> int \<Rightarrow> lua_Number vm" where
  "lua_tonumber E idx =
     vbind (value_at idx) (\<lambda>v. vret (case luaV_tonumber E v of Some n \<Rightarrow> n | None \<Rightarrow> cast_num 0))"

definition lua_toboolean :: "int \<Rightarrow> bool vm" where
  "lua_toboolean idx = vbind (value_at idx) (\<lambda>v. vret (\<not> l_isfalse v))"

text \<open>\<open>lua_tolstring\<close> changes a number in place into a string; it is null for other values.\<close>

definition lua_tolstring :: "lua_env \<Rightarrow> int \<Rightarrow> byte list option vm" where
  "lua_tolstring E idx =
     vbind (index2adr idx) (\<lambda>pl. vbind (get_place pl) (\<lambda>v.
       case v of
         TGC (GString (Some s)) \<Rightarrow> vret (Some s)
       | TNumber n \<Rightarrow> vthen (set_place pl (str_val (E_num2str E n))) (vret (Some (E_num2str E n)))
       | _ \<Rightarrow> vret None))"

definition lua_objlen :: "lua_env \<Rightarrow> int \<Rightarrow> nat vm" where
  "lua_objlen E idx =
     vbind (index2adr idx) (\<lambda>pl. vbind (get_place pl) (\<lambda>v.
       case v of
         TGC (GString (Some s)) \<Rightarrow> vret (length s)
       | TGC (GUserdata a) \<Rightarrow> vbind (udata_at a) (\<lambda>u. vret (u_len u))
       | TGC (GTable a) \<Rightarrow> vbind (table_at a) (\<lambda>h. vres (luaH_getn h))
       | TNumber n \<Rightarrow> vthen (set_place pl (str_val (E_num2str E n))) (vret (length (E_num2str E n)))
       | _ \<Rightarrow> vret 0))"

definition lua_touserdata :: "int \<Rightarrow> addr option vm" where
  "lua_touserdata idx =
     vbind (value_at idx) (\<lambda>v. vret (case v of TGC (GUserdata a) \<Rightarrow> Some a | TLightUserdata p \<Rightarrow> Some p | _ \<Rightarrow> None))"

definition table_arg :: "int \<Rightarrow> addr vm" where
  "table_arg idx = vbind (value_at idx) (\<lambda>v. case v of TGC (GTable a) \<Rightarrow> vret a | _ \<Rightarrow> vexc Crash)"

section \<open>Pushing\<close>

definition lua_pushnil :: "unit vm" where "lua_pushnil = luaA_pushobject TNil"
definition lua_pushnumber :: "lua_Number \<Rightarrow> unit vm" where "lua_pushnumber n = luaA_pushobject (TNumber n)"
definition lua_pushinteger :: "int \<Rightarrow> unit vm" where "lua_pushinteger n = luaA_pushobject (TNumber (cast_num n))"
definition lua_pushlstring :: "byte list \<Rightarrow> unit vm" where "lua_pushlstring s = luaA_pushobject (str_val s)"
definition lua_pushstring :: "byte list option \<Rightarrow> unit vm" where
  "lua_pushstring s = (case s of None \<Rightarrow> lua_pushnil | Some s \<Rightarrow> lua_pushlstring (c_str s))"
definition lua_pushboolean :: "bool \<Rightarrow> unit vm" where "lua_pushboolean b = luaA_pushobject (TBoolean b)"
definition lua_pushlightuserdata :: "addr \<Rightarrow> unit vm" where "lua_pushlightuserdata p = luaA_pushobject (TLightUserdata p)"

text \<open>\<open>lua_pushfstring\<close> of a text that is already put together; it makes room on the stack.\<close>

definition lua_pushfstring :: "byte list \<Rightarrow> unit vm" where "lua_pushfstring s = push (str_val s)"

fun take_values :: "nat \<Rightarrow> nat \<Rightarrow> lvalue list vm" where
  "take_values p 0 = vret []"
| "take_values p (Suc n) = vbind (stack_get p) (\<lambda>v. vbind (take_values (p + 1) n) (\<lambda>vs. vret (v # vs)))"

definition lua_pushcclosure :: "nat \<Rightarrow> nat \<Rightarrow> unit vm" where
  "lua_pushcclosure fn n =
     vbind getcurrenv (\<lambda>env.
     vthen (add_top (- int n))
     (vbind (vget L_top) (\<lambda>t.
      vbind (take_values t n) (\<lambda>vs.
      vbind (new_closure (CClosure env fn vs)) (\<lambda>a. luaA_pushobject (TGC (GFunction a)))))))"

section \<open>Reading tables\<close>

definition lua_gettable :: "lua_env \<Rightarrow> caller \<Rightarrow> int \<Rightarrow> unit vm" where
  "lua_gettable E call idx =
     vbind (operand_at idx) (\<lambda>t. vbind (value_below 1) (\<lambda>key. vbind (vget L_top) (\<lambda>tp. luaV_gettable E call t key (tp - 1))))"

definition lua_getfield :: "lua_env \<Rightarrow> caller \<Rightarrow> int \<Rightarrow> byte list \<Rightarrow> unit vm" where
  "lua_getfield E call idx k =
     vbind (operand_at idx) (\<lambda>t. vbind (vget L_top) (\<lambda>tp.
       vthen (luaV_gettable E call t (str_val (c_str k)) tp) (add_top 1)))"

definition lua_rawget :: "lua_env \<Rightarrow> int \<Rightarrow> unit vm" where
  "lua_rawget E idx =
     vbind (table_arg idx) (\<lambda>a. vbind (table_at a) (\<lambda>h. vbind (value_below 1) (\<lambda>key.
     vbind (vres (luaH_get (E_view E) h key)) (\<lambda>s. vbind (vget L_top) (\<lambda>t. stack_set (t - 1) (slot_value h s))))))"

definition lua_rawgeti :: "int \<Rightarrow> int \<Rightarrow> unit vm" where
  "lua_rawgeti idx n =
     vbind (table_arg idx) (\<lambda>a. vbind (table_at a) (\<lambda>h.
     vbind (vres (luaH_getnum h n)) (\<lambda>s. luaA_pushobject (slot_value h s))))"

definition lua_createtable :: "caller \<Rightarrow> nat \<Rightarrow> nat \<Rightarrow> unit vm" where
  "lua_createtable call narray nrec =
     vbind (vres_error call (luaH_new narray nrec)) (\<lambda>t. vbind (new_table t) (\<lambda>a. luaA_pushobject (TGC (GTable a))))"

definition metatable_of :: "lvalue \<Rightarrow> addr option vm" where
  "metatable_of v =
     (case v of
        TGC (GTable a) \<Rightarrow> vbind (table_at a) (\<lambda>h. vret (metatable h))
      | TGC (GUserdata a) \<Rightarrow> vbind (udata_at a) (\<lambda>u. vret (u_metatable u))
      | _ \<Rightarrow> vget (\<lambda>L. L_mt L (ttype v)))"

definition lua_getmetatable :: "int \<Rightarrow> bool vm" where
  "lua_getmetatable idx =
     vbind (value_at idx) (\<lambda>v. vbind (metatable_of v) (\<lambda>mt.
       case mt of None \<Rightarrow> vret False | Some a \<Rightarrow> vthen (luaA_pushobject (TGC (GTable a))) (vret True)))"

definition lua_getfenv :: "int \<Rightarrow> unit vm" where
  "lua_getfenv idx =
     vbind (value_at idx) (\<lambda>v.
     vbind (case v of
              TGC (GFunction a) \<Rightarrow> vbind (closure_at a) (\<lambda>cl. vret (TGC (GTable (cl_env cl))))
            | TGC (GUserdata a) \<Rightarrow> vbind (udata_at a) (\<lambda>u. vret (TGC (GTable (u_env u))))
            | TGC (GThread _) \<Rightarrow> vget L_gt
            | _ \<Rightarrow> vret TNil) luaA_pushobject)"

section \<open>Writing tables\<close>

definition lua_settable :: "lua_env \<Rightarrow> caller \<Rightarrow> int \<Rightarrow> unit vm" where
  "lua_settable E call idx =
     vbind (operand_at idx) (\<lambda>t. vbind (value_below 2) (\<lambda>key. vbind (value_below 1) (\<lambda>v.
       vthen (luaV_settable E call t key v) (add_top (- 2)))))"

definition lua_setfield :: "lua_env \<Rightarrow> caller \<Rightarrow> int \<Rightarrow> byte list \<Rightarrow> unit vm" where
  "lua_setfield E call idx k =
     vbind (operand_at idx) (\<lambda>t. vbind (value_below 1) (\<lambda>v.
       vthen (luaV_settable E call t (str_val (c_str k)) v) (add_top (- 1))))"

definition lua_rawset :: "lua_env \<Rightarrow> caller \<Rightarrow> int \<Rightarrow> unit vm" where
  "lua_rawset E call idx =
     vbind (table_arg idx) (\<lambda>a. vbind (table_at a) (\<lambda>h. vbind (value_below 2) (\<lambda>key. vbind (value_below 1) (\<lambda>v.
     vbind (vres_error call (luaH_set (E_view E) h key)) (\<lambda>(h, s).
     vthen (set_table a (set_slot h s v)) (add_top (- 2)))))))"

definition lua_rawseti :: "lua_env \<Rightarrow> caller \<Rightarrow> int \<Rightarrow> int \<Rightarrow> unit vm" where
  "lua_rawseti E call idx n =
     vbind (table_arg idx) (\<lambda>a. vbind (table_at a) (\<lambda>h. vbind (value_below 1) (\<lambda>v.
     vbind (vres_error call (luaH_setnum (E_view E) h n)) (\<lambda>(h, s).
     vthen (set_table a (set_slot h s v)) (add_top (- 1))))))"

definition set_metatable :: "lvalue \<Rightarrow> addr option \<Rightarrow> unit vm" where
  "set_metatable v mt =
     (case v of
        TGC (GTable a) \<Rightarrow> vbind (table_at a) (\<lambda>h. set_table a (h\<lparr>metatable := mt\<rparr>))
      | TGC (GUserdata a) \<Rightarrow> vbind (udata_at a) (\<lambda>u. vupd (\<lambda>L. L\<lparr>L_udata := (L_udata L)(a \<mapsto> u\<lparr>u_metatable := mt\<rparr>)\<rparr>))
      | _ \<Rightarrow> vupd (\<lambda>L. L\<lparr>L_mt := (L_mt L)(ttype v := mt)\<rparr>))"

definition lua_setmetatable :: "int \<Rightarrow> unit vm" where
  "lua_setmetatable idx =
     vbind (value_at idx) (\<lambda>v. vbind (value_below 1) (\<lambda>m.
     vbind (case m of TNil \<Rightarrow> vret None | TGC (GTable a) \<Rightarrow> vret (Some a) | _ \<Rightarrow> vexc Crash) (\<lambda>mt.
     vthen (set_metatable v mt) (add_top (- 1)))))"

definition lua_setfenv :: "int \<Rightarrow> bool vm" where
  "lua_setfenv idx =
     vbind (value_at idx) (\<lambda>v. vbind (value_below 1) (\<lambda>m.
     vbind (case m of TGC (GTable a) \<Rightarrow> vret a | _ \<Rightarrow> vexc Crash) (\<lambda>env.
     vbind (case v of
              TGC (GFunction a) \<Rightarrow> vbind (closure_at a) (\<lambda>cl. vthen (set_closure a (set_env cl env)) (vret True))
            | TGC (GUserdata a) \<Rightarrow> vbind (udata_at a) (\<lambda>u.
                vthen (vupd (\<lambda>L. L\<lparr>L_udata := (L_udata L)(a \<mapsto> u\<lparr>u_env := env\<rparr>)\<rparr>)) (vret True))
            | TGC (GThread _) \<Rightarrow> vthen (vupd (\<lambda>L. L\<lparr>L_gt := TGC (GTable env)\<rparr>)) (vret True)
            | _ \<Rightarrow> vret False) (\<lambda>res.
     vthen (add_top (- 1)) (vret res)))))"

section \<open>Calls\<close>

definition adjustresults :: "int \<Rightarrow> unit vm" where
  "adjustresults nres =
     vbind (vget L_top) (\<lambda>t.
       if nres = LUA_MULTRET then upd_ci (\<lambda>ci. if ci_top ci \<le> t then ci\<lparr>ci_top := t\<rparr> else ci) else vret ())"

definition lua_call :: "caller \<Rightarrow> nat \<Rightarrow> int \<Rightarrow> unit vm" where
  "lua_call call nargs nresults =
     vbind (vget L_top) (\<lambda>t.
       if nargs + 1 \<le> t then vthen (call (t - (nargs + 1)) nresults) (adjustresults nresults) else vexc Crash)"

definition lua_pcall :: "caller \<Rightarrow> nat \<Rightarrow> int \<Rightarrow> int \<Rightarrow> int vm" where
  "lua_pcall call nargs nresults errfunc =
     vbind (if errfunc = 0 then vret 0
            else vbind (index2adr errfunc) (\<lambda>pl. case pl of OnStack p \<Rightarrow> vret p | _ \<Rightarrow> vexc Crash)) (\<lambda>func.
     vbind (vget L_top) (\<lambda>t.
       if nargs + 1 \<le> t
       then vbind (luaD_pcall (call (t - (nargs + 1)) nresults) (t - (nargs + 1)) func) (\<lambda>status.
            vthen (adjustresults nresults) (vret status))
       else vexc Crash))"

definition f_Ccall :: "caller \<Rightarrow> nat \<Rightarrow> addr \<Rightarrow> unit vm" where
  "f_Ccall call fn ud =
     vbind getcurrenv (\<lambda>env.
     vbind (new_closure (CClosure env fn [])) (\<lambda>a.
     vthen (luaA_pushobject (TGC (GFunction a)))
     (vthen (luaA_pushobject (TLightUserdata ud))
     (vbind (vget L_top) (\<lambda>t. call (t - 2) 0)))))"

definition lua_cpcall :: "caller \<Rightarrow> nat \<Rightarrow> addr \<Rightarrow> int vm" where
  "lua_cpcall call fn ud = vbind (vget L_top) (\<lambda>t. luaD_pcall (f_Ccall call fn ud) t 0)"

section \<open>Miscellaneous\<close>

definition lua_error :: "caller \<Rightarrow> 'a vm" where "lua_error call = luaG_errormsg call"

definition lua_next :: "lua_env \<Rightarrow> caller \<Rightarrow> int \<Rightarrow> bool vm" where
  "lua_next E call idx =
     vbind (table_arg idx) (\<lambda>a. vbind (table_at a) (\<lambda>h. vbind (value_below 1) (\<lambda>key.
     vbind (vres_error call (luaH_next (E_view E) h key)) (\<lambda>r.
       case r of
         Some (k, v) \<Rightarrow>
           vbind (vget L_top) (\<lambda>t. vthen (stack_set (t - 1) k) (vthen (stack_set t v) (vthen (add_top 1) (vret True))))
       | None \<Rightarrow> vthen (add_top (- 1)) (vret False)))))"

definition lua_concat :: "lua_env \<Rightarrow> caller \<Rightarrow> nat \<Rightarrow> unit vm" where
  "lua_concat E call n =
     (if 2 \<le> n
      then vbind lua_gettop (\<lambda>t. vthen (luaV_concat n E call n (nat (t - 1))) (add_top (- int (n - 1))))
      else if n = 0 then luaA_pushobject (str_val [])
      else vret ())"

definition lua_newuserdata :: "nat \<Rightarrow> unit vm" where
  "lua_newuserdata sz =
     vbind getcurrenv (\<lambda>env.
     vbind new_addr (\<lambda>a.
     vthen (vupd (\<lambda>L. L\<lparr>L_udata := (L_udata L)(a \<mapsto> \<lparr>u_metatable = None, u_env = env, u_len = sz\<rparr>)\<rparr>))
       (luaA_pushobject (TGC (GUserdata a)))))"

text \<open>The place of an upvalue of a function and its name.\<close>

datatype upvalue_place = OfC addr nat | OfLua addr

definition aux_upvalue :: "lvalue \<Rightarrow> int \<Rightarrow> (byte list \<times> upvalue_place) option vm" where
  "aux_upvalue v n =
     (case v of
        TGC (GFunction a) \<Rightarrow>
          vbind (closure_at a) (\<lambda>f.
            case f of
              CClosure _ _ vs \<Rightarrow> vret (if 1 \<le> n \<and> n \<le> int (length vs) then Some ([], OfC a (nat (n - 1))) else None)
            | LClosure _ p us \<Rightarrow>
                if 1 \<le> n \<and> n \<le> int (length (pupvalues p))
                then (if nat (n - 1) < length us
                      then vbind (svalue (TString (pupvalues p ! nat (n - 1)))) (\<lambda>name. vret (Some (name, OfLua (us ! nat (n - 1)))))
                      else vexc Crash)
                else vret None)
      | _ \<Rightarrow> vret None)"

definition get_upvalue_place :: "upvalue_place \<Rightarrow> lvalue vm" where
  "get_upvalue_place u =
     (case u of
        OfLua p \<Rightarrow> upval_get p
      | OfC a n \<Rightarrow> vbind (closure_at a) (\<lambda>f. case f of CClosure _ _ vs \<Rightarrow> vret (vs ! n) | _ \<Rightarrow> vexc Crash))"

definition set_upvalue_place :: "upvalue_place \<Rightarrow> lvalue \<Rightarrow> unit vm" where
  "set_upvalue_place u v =
     (case u of
        OfLua p \<Rightarrow> upval_set p v
      | OfC a n \<Rightarrow> vbind (closure_at a) (\<lambda>f. case f of CClosure e c vs \<Rightarrow> set_closure a (CClosure e c (vs[n := v])) | _ \<Rightarrow> vexc Crash))"

definition lua_getupvalue :: "int \<Rightarrow> int \<Rightarrow> byte list option vm" where
  "lua_getupvalue funcindex n =
     vbind (value_at funcindex) (\<lambda>f. vbind (aux_upvalue f n) (\<lambda>r.
       case r of
         None \<Rightarrow> vret None
       | Some (name, u) \<Rightarrow> vbind (get_upvalue_place u) (\<lambda>v. vthen (luaA_pushobject v) (vret (Some name)))))"

definition lua_setupvalue :: "int \<Rightarrow> int \<Rightarrow> byte list option vm" where
  "lua_setupvalue funcindex n =
     vbind (value_at funcindex) (\<lambda>f. vbind (aux_upvalue f n) (\<lambda>r.
       case r of
         None \<Rightarrow> vret None
       | Some (name, u) \<Rightarrow> vbind (value_below 1) (\<lambda>v. vthen (add_top (- 1)) (vthen (set_upvalue_place u v) (vret (Some name))))))"

end
