(* ===== verification/LAux.thy ===== *)
theory LAux
  imports LApi
begin

text \<open>
  \<open>lauxlib.c\<close>: error reports, argument checks, metafields, string buffers and references, on top of
  the C API. Messages are put together before they are pushed; a \<open>%s\<close> stops at a zero byte.
\<close>

section \<open>Numbers\<close>

text \<open>\<open>lua_number2integer\<close> is a cast to \<open>ptrdiff_t\<close>; out of range the processor gives the smallest value.\<close>

definition INTEGER_MIN :: int where "INTEGER_MIN = - (2 ^ 63)"

definition lua_number2integer :: "lua_Number \<Rightarrow> int" where
  "lua_number2integer n =
     (if dbl_finite n \<and> INTEGER_MIN \<le> dbl_trunc n \<and> dbl_trunc n < 2 ^ 63 then dbl_trunc n else INTEGER_MIN)"

definition lua_tointeger :: "lua_env \<Rightarrow> int \<Rightarrow> int vm" where
  "lua_tointeger E idx =
     vbind (value_at idx) (\<lambda>v. vret (case luaV_tonumber E v of Some n \<Rightarrow> lua_number2integer n | None \<Rightarrow> 0))"

text \<open>The conversion to \<open>int\<close> keeps the low 32 bits.\<close>

definition int_of_integer :: "int \<Rightarrow> int" where "int_of_integer i = to_cint (word_of_int i)"

section \<open>Error reports\<close>

definition abs_index :: "int \<Rightarrow> int vm" where
  "abs_index i = (if 0 < i \<or> i \<le> LUA_REGISTRYINDEX then vret i else vbind lua_gettop (\<lambda>t. vret (t + i + 1)))"

definition lua_qs :: "byte list \<Rightarrow> byte list" where "lua_qs s = [39] @ s @ [39]"

definition luaL_where :: "lua_env \<Rightarrow> int \<Rightarrow> unit vm" where
  "luaL_where E level =
     vbind (lua_getstack level) (\<lambda>k.
     vbind (case k of
              None \<Rightarrow> vret None
            | Some k \<Rightarrow> vbind (lua_getinfo E ''Sl'' k no_debug) (\<lambda>(ar, _). vret (Some ar))) (\<lambda>ar.
       case ar of
         Some ar \<Rightarrow>
           if 0 < ar_currentline ar
           then lua_pushfstring (ar_short_src ar @ bytes '':'' @ dec_int (ar_currentline ar) @ bytes '': '')
           else lua_pushlstring []
       | None \<Rightarrow> lua_pushlstring []))"

definition luaL_error :: "lua_env \<Rightarrow> caller \<Rightarrow> byte list \<Rightarrow> 'a vm" where
  "luaL_error E call msg =
     vthen (luaL_where E 1) (vthen (lua_pushfstring msg) (vthen (lua_concat E call 2) (lua_error call)))"

definition luaL_argerror :: "lua_env \<Rightarrow> caller \<Rightarrow> int \<Rightarrow> byte list \<Rightarrow> 'a vm" where
  "luaL_argerror E call narg extramsg =
     vbind (lua_getstack 0) (\<lambda>k.
       case k of
         None \<Rightarrow> luaL_error E call (bytes ''bad argument #'' @ dec_int narg @ bytes '' ('' @ extramsg @ bytes '')'')
       | Some k \<Rightarrow>
           vbind (lua_getinfo E ''n'' k no_debug) (\<lambda>(ar, _).
             let narg = (if ar_namewhat ar = ''method'' then narg - 1 else narg);
                 name = (case ar_name ar of None \<Rightarrow> bytes ''?'' | Some n \<Rightarrow> n)
             in if ar_namewhat ar = ''method'' \<and> narg = 0
                then luaL_error E call (bytes ''calling '' @ lua_qs name @ bytes '' on bad self ('' @ extramsg @ bytes '')'')
                else luaL_error E call (bytes ''bad argument #'' @ dec_int narg @ bytes '' to '' @ lua_qs name @
                       bytes '' ('' @ extramsg @ bytes '')'')))"

definition luaL_typerror :: "lua_env \<Rightarrow> caller \<Rightarrow> int \<Rightarrow> byte list \<Rightarrow> 'a vm" where
  "luaL_typerror E call narg tname =
     vbind (luaL_typename narg) (\<lambda>got.
       let msg = tname @ bytes '' expected, got '' @ got
       in vthen (lua_pushfstring msg) (luaL_argerror E call narg msg))"

definition tag_error :: "lua_env \<Rightarrow> caller \<Rightarrow> int \<Rightarrow> int \<Rightarrow> 'a vm" where
  "tag_error E call narg tag = luaL_typerror E call narg (lua_typename tag)"

definition luaL_argcheck :: "lua_env \<Rightarrow> caller \<Rightarrow> bool \<Rightarrow> int \<Rightarrow> string \<Rightarrow> unit vm" where
  "luaL_argcheck E call cond numarg extramsg =
     (if cond then vret () else luaL_argerror E call numarg (bytes extramsg))"

section \<open>Checks\<close>

definition luaL_checktype :: "lua_env \<Rightarrow> caller \<Rightarrow> int \<Rightarrow> int \<Rightarrow> unit vm" where
  "luaL_checktype E call narg t = vbind (lua_type narg) (\<lambda>u. if u = t then vret () else tag_error E call narg t)"

definition luaL_checkany :: "lua_env \<Rightarrow> caller \<Rightarrow> int \<Rightarrow> unit vm" where
  "luaL_checkany E call narg =
     vbind (lua_type narg) (\<lambda>u. if u = LUA_TNONE then luaL_argerror E call narg (bytes ''value expected'') else vret ())"

definition luaL_checklstring :: "lua_env \<Rightarrow> caller \<Rightarrow> int \<Rightarrow> byte list vm" where
  "luaL_checklstring E call narg =
     vbind (lua_tolstring E narg) (\<lambda>s. case s of Some s \<Rightarrow> vret s | None \<Rightarrow> tag_error E call narg 4)"

definition luaL_optlstring :: "lua_env \<Rightarrow> caller \<Rightarrow> int \<Rightarrow> byte list \<Rightarrow> byte list vm" where
  "luaL_optlstring E call narg def =
     vbind (lua_isnoneornil narg) (\<lambda>b. if b then vret def else luaL_checklstring E call narg)"

definition luaL_checknumber :: "lua_env \<Rightarrow> caller \<Rightarrow> int \<Rightarrow> lua_Number vm" where
  "luaL_checknumber E call narg =
     vbind (lua_tonumber E narg) (\<lambda>d. vbind (lua_isnumber E narg) (\<lambda>b.
       if luai_numeq d (cast_num 0) \<and> \<not> b then tag_error E call narg 3 else vret d))"

definition luaL_checkinteger :: "lua_env \<Rightarrow> caller \<Rightarrow> int \<Rightarrow> int vm" where
  "luaL_checkinteger E call narg =
     vbind (lua_tointeger E narg) (\<lambda>d. vbind (lua_isnumber E narg) (\<lambda>b.
       if d = 0 \<and> \<not> b then tag_error E call narg 3 else vret d))"

definition luaL_optinteger :: "lua_env \<Rightarrow> caller \<Rightarrow> int \<Rightarrow> int \<Rightarrow> int vm" where
  "luaL_optinteger E call narg def =
     vbind (lua_isnoneornil narg) (\<lambda>b. if b then vret def else luaL_checkinteger E call narg)"

definition luaL_checkint :: "lua_env \<Rightarrow> caller \<Rightarrow> int \<Rightarrow> int vm" where
  "luaL_checkint E call narg = vbind (luaL_checkinteger E call narg) (\<lambda>i. vret (int_of_integer i))"

definition luaL_optint :: "lua_env \<Rightarrow> caller \<Rightarrow> int \<Rightarrow> int \<Rightarrow> int vm" where
  "luaL_optint E call narg def = vbind (luaL_optinteger E call narg def) (\<lambda>i. vret (int_of_integer i))"

definition luaL_needstack :: "lua_env \<Rightarrow> caller \<Rightarrow> int \<Rightarrow> string \<Rightarrow> unit vm" where
  "luaL_needstack E call space mes =
     vbind (lua_checkstack space) (\<lambda>b.
       if b then vret () else luaL_error E call (bytes ''stack overflow ('' @ bytes mes @ bytes '')''))"

text \<open>\<open>luaL_getn\<close> is the length of the table: \<open>LUA_COMPAT_GETN\<close> is off.\<close>

definition luaL_getn :: "lua_env \<Rightarrow> int \<Rightarrow> int vm" where
  "luaL_getn E idx = vbind (lua_objlen E idx) (\<lambda>n. vret (int_of_integer (int n)))"

fun option_index :: "string list \<Rightarrow> byte list \<Rightarrow> nat \<Rightarrow> nat option" where
  "option_index [] name i = None"
| "option_index (s # lst) name i = (if bytes s = name then Some i else option_index lst name (i + 1))"

definition luaL_checkoption :: "lua_env \<Rightarrow> caller \<Rightarrow> int \<Rightarrow> string option \<Rightarrow> string list \<Rightarrow> nat vm" where
  "luaL_checkoption E call narg def lst =
     vbind (case def of Some d \<Rightarrow> luaL_optlstring E call narg (bytes d) | None \<Rightarrow> luaL_checklstring E call narg) (\<lambda>name.
       case option_index lst (c_str name) 0 of
         Some i \<Rightarrow> vret i
       | None \<Rightarrow>
           let msg = bytes ''invalid option '' @ lua_qs (c_str name)
           in vthen (lua_pushfstring msg) (luaL_argerror E call narg msg))"

section \<open>Metatables\<close>

definition luaL_newmetatable :: "lua_env \<Rightarrow> caller \<Rightarrow> byte list \<Rightarrow> bool vm" where
  "luaL_newmetatable E call tname =
     vthen (lua_getfield E call LUA_REGISTRYINDEX tname)
     (vbind (lua_isnil (- 1)) (\<lambda>b.
        if \<not> b then vret False
        else vthen (lua_pop 1) (vthen (lua_createtable call 0 0) (vthen (lua_pushvalue (- 1))
             (vthen (lua_setfield E call LUA_REGISTRYINDEX tname) (vret True))))))"

definition luaL_checkudata :: "lua_env \<Rightarrow> caller \<Rightarrow> int \<Rightarrow> byte list \<Rightarrow> addr vm" where
  "luaL_checkudata E call ud tname =
     vbind (lua_touserdata ud) (\<lambda>p.
     vbind (case p of
              None \<Rightarrow> vret False
            | Some _ \<Rightarrow> vbind (lua_getmetatable ud) (\<lambda>b.
                if b then vthen (lua_getfield E call LUA_REGISTRYINDEX tname) (lua_rawequal (- 1) (- 2)) else vret False)) (\<lambda>b.
       case p of
         Some p \<Rightarrow> if b then vthen (lua_pop 2) (vret p) else luaL_typerror E call ud tname
       | None \<Rightarrow> luaL_typerror E call ud tname))"

definition luaL_getmetafield :: "lua_env \<Rightarrow> int \<Rightarrow> string \<Rightarrow> bool vm" where
  "luaL_getmetafield E obj event =
     vbind (lua_getmetatable obj) (\<lambda>b.
       if \<not> b then vret False
       else vthen (lua_pushlstring (bytes event)) (vthen (lua_rawget E (- 2))
            (vbind (lua_isnil (- 1)) (\<lambda>b.
               if b then vthen (lua_pop 2) (vret False) else vthen (lua_remove (- 2)) (vret True)))))"

definition luaL_callmeta :: "lua_env \<Rightarrow> caller \<Rightarrow> int \<Rightarrow> string \<Rightarrow> bool vm" where
  "luaL_callmeta E call obj event =
     vbind (abs_index obj) (\<lambda>obj.
     vbind (luaL_getmetafield E obj event) (\<lambda>b.
       if \<not> b then vret False
       else vthen (lua_pushvalue obj) (vthen (lua_call call 1 1) (vret True))))"

section \<open>Fields of tables\<close>

text \<open>\<open>luaL_findtable\<close> on the parts of a name between dots; the part it fails at, with what follows.\<close>

definition find_field :: "lua_env \<Rightarrow> caller \<Rightarrow> byte list \<Rightarrow> nat \<Rightarrow> bool vm" where
  "find_field E call name hint =
     vthen (lua_pushlstring name) (vthen (lua_rawget E (- 2))
     (vbind (lua_isnil (- 1)) (\<lambda>b.
        if b
        then vthen (lua_pop 1) (vthen (lua_createtable call 0 hint) (vthen (lua_pushlstring name)
             (vthen (lua_pushvalue (- 2)) (vthen (lua_settable E call (- 4)) (vthen (lua_remove (- 2)) (vret True))))))
        else vbind (lua_istable (- 1)) (\<lambda>t.
             if t then vthen (lua_remove (- 2)) (vret True) else vthen (lua_pop 2) (vret False)))))"

lemma tl_dropWhile_less: "dropWhile P xs \<noteq> [] \<Longrightarrow> length (tl (dropWhile P xs)) < length xs"
  using length_dropWhile_le [of P xs] by (cases "dropWhile P xs") auto

function find_fields :: "lua_env \<Rightarrow> caller \<Rightarrow> byte list \<Rightarrow> nat \<Rightarrow> byte list option vm" where
  "find_fields E call fname szhint =
     (let name = takeWhile (\<lambda>c. c \<noteq> 46) fname; e = dropWhile (\<lambda>c. c \<noteq> 46) fname
      in vbind (find_field E call name (if e \<noteq> [] then 1 else szhint)) (\<lambda>b.
           if \<not> b then vret (Some fname)
           else if e = [] then vret None
           else find_fields E call (tl e) szhint))"
  by pat_completeness auto
termination
proof (relation "measure (\<lambda>(E, call, fname, szhint). length fname)")
  fix E :: lua_env and call :: caller and fname name e :: "byte list" and szhint :: nat and b :: bool
  assume e: "e = dropWhile (\<lambda>c. c \<noteq> 46) fname" "e \<noteq> []"
  show "((E, call, tl e, szhint), E, call, fname, szhint) \<in> measure (\<lambda>(E, call, fname, szhint). length fname)"
    using tl_dropWhile_less [of "\<lambda>c. c \<noteq> 46" fname] e by simp
qed simp

declare find_fields.simps [simp del]

definition luaL_findtable :: "lua_env \<Rightarrow> caller \<Rightarrow> int \<Rightarrow> byte list \<Rightarrow> nat \<Rightarrow> byte list option vm" where
  "luaL_findtable E call idx fname szhint = vthen (lua_pushvalue idx) (find_fields E call (c_str fname) szhint)"

section \<open>Libraries\<close>

definition copy_upvalues :: "nat \<Rightarrow> unit vm" where
  "copy_upvalues nup = fold (\<lambda>_ m. vthen m (lua_pushvalue (- int nup))) [0..<nup] (vret ())"

fun register_functions :: "lua_env \<Rightarrow> caller \<Rightarrow> (byte list \<times> nat) list \<Rightarrow> nat \<Rightarrow> unit vm" where
  "register_functions E call [] nup = vret ()"
| "register_functions E call ((name, f) # l) nup =
     vthen (copy_upvalues nup) (vthen (lua_pushcclosure f nup)
     (vthen (lua_setfield E call (- int (nup + 2)) name) (register_functions E call l nup)))"

definition luaI_openlib :: "lua_env \<Rightarrow> caller \<Rightarrow> byte list option \<Rightarrow> (byte list \<times> nat) list \<Rightarrow> nat \<Rightarrow> unit vm" where
  "luaI_openlib E call libname l nup =
     vthen (case libname of
              None \<Rightarrow> vret ()
            | Some libname \<Rightarrow>
                vthen (luaL_findtable E call LUA_REGISTRYINDEX (bytes ''_LOADED'') 1)
                (vthen (lua_getfield E call (- 1) libname)
                (vbind (lua_istable (- 1)) (\<lambda>t.
                 vthen (if t then vret ()
                        else vthen (lua_pop 1)
                             (vbind (luaL_findtable E call LUA_GLOBALSINDEX libname (length l)) (\<lambda>r.
                              vthen (if r \<noteq> None then luaL_error E call (bytes ''name conflict for module '' @ lua_qs libname)
                                     else vret ())
                              (vthen (lua_pushvalue (- 1)) (lua_setfield E call (- 3) libname)))))
                 (vthen (lua_remove (- 2)) (lua_insert (- int (nup + 1))))))))
     (vthen (register_functions E call l nup) (lua_pop (int nup)))"

definition luaL_register :: "lua_env \<Rightarrow> caller \<Rightarrow> byte list option \<Rightarrow> (byte list \<times> nat) list \<Rightarrow> unit vm" where
  "luaL_register E call libname l = luaI_openlib E call libname l 0"

section \<open>Buffers\<close>

text \<open>A buffer: the bytes not yet on the stack, and the number of strings that are.\<close>

definition LUAL_BUFFERSIZE :: nat where "LUAL_BUFFERSIZE = 8192"
definition LIMIT :: nat where "LIMIT = 10"

record luaL_Buffer =
  b_buffer :: "byte list"
  b_lvl :: nat

definition luaL_buffinit :: luaL_Buffer where "luaL_buffinit = \<lparr>b_buffer = [], b_lvl = 0\<rparr>"

definition emptybuffer :: "luaL_Buffer \<Rightarrow> (bool \<times> luaL_Buffer) vm" where
  "emptybuffer B =
     (if b_buffer B = [] then vret (False, B)
      else vthen (lua_pushlstring (b_buffer B)) (vret (True, B\<lparr>b_buffer := [], b_lvl := b_lvl B + 1\<rparr>)))"

text \<open>How many strings from the top are put together; \<open>k\<close> is what is left to look at.\<close>

fun adjust_toget :: "nat \<Rightarrow> lua_env \<Rightarrow> nat \<Rightarrow> nat \<Rightarrow> nat \<Rightarrow> nat vm" where
  "adjust_toget 0 E lvl toget toplen = vret toget"
| "adjust_toget (Suc k) E lvl toget toplen =
     vbind (lua_objlen E (- int (toget + 1))) (\<lambda>l.
       if LIMIT \<le> lvl - toget + 1 \<or> l < toplen then adjust_toget k E lvl (toget + 1) (toplen + l) else vret toget)"

definition adjuststack :: "lua_env \<Rightarrow> caller \<Rightarrow> luaL_Buffer \<Rightarrow> luaL_Buffer vm" where
  "adjuststack E call B =
     (if 1 < b_lvl B
      then vbind (lua_objlen E (- 1)) (\<lambda>toplen.
           vbind (adjust_toget (b_lvl B - 1) E (b_lvl B) 1 toplen) (\<lambda>toget.
           vthen (lua_concat E call toget) (vret (B\<lparr>b_lvl := b_lvl B - toget + 1\<rparr>))))
      else vret B)"

definition luaL_prepbuffer :: "lua_env \<Rightarrow> caller \<Rightarrow> luaL_Buffer \<Rightarrow> luaL_Buffer vm" where
  "luaL_prepbuffer E call B =
     vbind (emptybuffer B) (\<lambda>(b, B). if b then adjuststack E call B else vret B)"

definition luaL_addchar :: "lua_env \<Rightarrow> caller \<Rightarrow> luaL_Buffer \<Rightarrow> byte \<Rightarrow> luaL_Buffer vm" where
  "luaL_addchar E call B c =
     vbind (if length (b_buffer B) < LUAL_BUFFERSIZE then vret B else luaL_prepbuffer E call B) (\<lambda>B.
       vret (B\<lparr>b_buffer := b_buffer B @ [c]\<rparr>))"

fun luaL_addlstring :: "lua_env \<Rightarrow> caller \<Rightarrow> luaL_Buffer \<Rightarrow> byte list \<Rightarrow> luaL_Buffer vm" where
  "luaL_addlstring E call B [] = vret B"
| "luaL_addlstring E call B (c # s) = vbind (luaL_addchar E call B c) (\<lambda>B. luaL_addlstring E call B s)"

definition luaL_addstring :: "lua_env \<Rightarrow> caller \<Rightarrow> luaL_Buffer \<Rightarrow> byte list \<Rightarrow> luaL_Buffer vm" where
  "luaL_addstring E call B s = luaL_addlstring E call B (c_str s)"

definition luaL_pushresult :: "lua_env \<Rightarrow> caller \<Rightarrow> luaL_Buffer \<Rightarrow> luaL_Buffer vm" where
  "luaL_pushresult E call B =
     vbind (emptybuffer B) (\<lambda>(_, B). vthen (lua_concat E call (b_lvl B)) (vret (B\<lparr>b_lvl := 1\<rparr>)))"

definition luaL_addvalue :: "lua_env \<Rightarrow> caller \<Rightarrow> luaL_Buffer \<Rightarrow> luaL_Buffer vm" where
  "luaL_addvalue E call B =
     vbind (lua_tolstring E (- 1)) (\<lambda>s. vbind (vopt s) (\<lambda>s.
       if length s \<le> LUAL_BUFFERSIZE - length (b_buffer B)
       then vthen (lua_pop 1) (vret (B\<lparr>b_buffer := b_buffer B @ s\<rparr>))
       else vbind (emptybuffer B) (\<lambda>(b, B).
            vthen (if b then lua_insert (- 2) else vret ())
              (adjuststack E call (B\<lparr>b_lvl := b_lvl B + 1\<rparr>)))))"

text \<open>\<open>luaL_gsub\<close>: \<open>strstr\<close> finds the first occurrence.\<close>

fun strstr :: "byte list \<Rightarrow> byte list \<Rightarrow> nat option" where
  "strstr [] p = (if p = [] then Some 0 else None)"
| "strstr (c # s) p = (if take (length p) (c # s) = p then Some 0 else map_option Suc (strstr s p))"

text \<open>An empty pattern is found forever.\<close>

fun gsub_parts :: "nat \<Rightarrow> lua_env \<Rightarrow> caller \<Rightarrow> byte list \<Rightarrow> byte list \<Rightarrow> byte list \<Rightarrow> luaL_Buffer \<Rightarrow> luaL_Buffer vm" where
  "gsub_parts 0 E call s p r B = vexc NoFuel"
| "gsub_parts (Suc n) E call s p r B =
     (case strstr s p of
        None \<Rightarrow> luaL_addlstring E call B s
      | Some w \<Rightarrow>
          vbind (luaL_addlstring E call B (take w s)) (\<lambda>B.
          vbind (luaL_addlstring E call B r) (\<lambda>B.
            gsub_parts n E call (drop (w + length p) s) p r B)))"

definition luaL_gsub :: "lua_env \<Rightarrow> caller \<Rightarrow> byte list \<Rightarrow> byte list \<Rightarrow> byte list \<Rightarrow> byte list option vm" where
  "luaL_gsub E call s p r =
     vbind (gsub_parts (Suc (length s)) E call (c_str s) (c_str p) (c_str r) luaL_buffinit) (\<lambda>B.
     vbind (luaL_pushresult E call B) (\<lambda>_. lua_tolstring E (- 1)))"

section \<open>References\<close>

definition LUA_REFNIL :: int where "LUA_REFNIL = - 1"
definition FREELIST_REF :: int where "FREELIST_REF = 0"

definition luaL_ref :: "lua_env \<Rightarrow> caller \<Rightarrow> int \<Rightarrow> int vm" where
  "luaL_ref E call t =
     vbind (abs_index t) (\<lambda>t.
     vbind (lua_isnil (- 1)) (\<lambda>b.
       if b then vthen (lua_pop 1) (vret LUA_REFNIL)
       else vthen (lua_rawgeti t FREELIST_REF)
            (vbind (lua_tointeger E (- 1)) (\<lambda>d.
             vthen (lua_pop 1)
             (let ref = int_of_integer d
              in vbind (if ref \<noteq> 0
                        then vthen (lua_rawgeti t ref) (vthen (lua_rawseti E call t FREELIST_REF) (vret ref))
                        else vbind (lua_objlen E t) (\<lambda>n. vret (int_of_integer (int n) + 1))) (\<lambda>ref.
                 vthen (lua_rawseti E call t ref) (vret ref)))))))"

definition luaL_unref :: "lua_env \<Rightarrow> caller \<Rightarrow> int \<Rightarrow> int \<Rightarrow> unit vm" where
  "luaL_unref E call t ref =
     (if 0 \<le> ref
      then vbind (abs_index t) (\<lambda>t.
           vthen (lua_rawgeti t FREELIST_REF) (vthen (lua_rawseti E call t ref)
           (vthen (lua_pushinteger ref) (lua_rawseti E call t FREELIST_REF))))
      else vret ())"

end
