(* ===== verification/LLoad.thy ===== *)
theory LLoad
  imports LAux LParser
begin

text \<open>
  The protected parser of \<open>ldo.c\<close> and the loading of chunks of \<open>lapi.c\<close> and \<open>lauxlib.c\<close>: a chunk that
  starts with the signature is undumped, any other is parsed, and the prototype becomes a closure
  on the stack. The reader is the one of \<open>luaL_loadbuffer\<close>, which delivers the whole buffer at once.
\<close>

definition getS :: "byte list \<Rightarrow> byte list list" where "getS buff = (if buff = [] then [] else [buff])"

text \<open>What the errors of the compiler leave: the message on the stack and the status.\<close>

definition compile_error :: "caller \<Rightarrow> lua_error \<Rightarrow> 'a vm" where
  "compile_error call e =
     (case e of
        ErrSyntax msg \<Rightarrow> vthen (push (str_val (bytes msg))) (luaD_throw LUA_ERRSYNTAX)
      | ErrRun msg \<Rightarrow> luaG_runerror call (bytes msg)
      | ErrMem \<Rightarrow> luaD_throw LUA_ERRMEM
      | Undefined \<Rightarrow> vexc Crash
      | OutOfFuel \<Rightarrow> vexc NoFuel)"

definition bytes_view :: "lstr string_view \<Rightarrow> byte list string_view" where
  "bytes_view H = \<lparr>tsv_hash = \<lambda>b. tsv_hash H (Some b), tsv_addr = \<lambda>b. tsv_addr H (Some b)\<rparr>"

definition compile :: "lua_env \<Rightarrow> byte list \<Rightarrow> byte list \<Rightarrow> int \<Rightarrow> addr \<Rightarrow> Proto res" where
  "compile E buff name nCcalls haddr =
     (let b = \<lparr>mbuffer = [], buffsize = 0\<rparr>
      in rbind (luaZ_lookahead list_reader (luaZ_init (getS buff))) (\<lambda>(c, z).
           if c = 27 then luaU_undump list_reader z b name nCcalls
           else luaY_parser list_reader z b name (E_point E) (length buff + 1) nCcalls (bytes_view (E_view E)) (E_pow E) haddr))"

text \<open>\<open>luaF_newupval\<close>: a closed upvalue with the value nil.\<close>

definition closed_upval :: "lstr UpVal" where
  "closed_upval = \<lparr>uv_level = None, uv_value = TNil, uv_marked = 1\<rparr>"

fun new_upvals :: "nat \<Rightarrow> addr list vm" where
  "new_upvals 0 = vret []"
| "new_upvals (Suc n) =
     vbind new_addr (\<lambda>a.
     vthen (vupd (\<lambda>L. L\<lparr>L_uvs := (L_uvs L)(a \<mapsto> closed_upval)\<rparr>))
     (vbind (new_upvals n) (\<lambda>us. vret (a # us))))"

definition f_parser :: "lua_env \<Rightarrow> caller \<Rightarrow> byte list \<Rightarrow> byte list \<Rightarrow> unit vm" where
  "f_parser E call buff name =
     vbind (vget L_nCcalls) (\<lambda>n. vbind (vget L_next) (\<lambda>h.
       case compile E buff name n h of
         Inl e \<Rightarrow> compile_error call e
       | Inr tf \<Rightarrow>
           vbind (vget L_gt) (\<lambda>g.
             case g of
               TGC (GTable env) \<Rightarrow>
                 vbind (new_upvals (unat (pnups tf))) (\<lambda>us.
                 vbind (new_closure (LClosure env tf us)) (\<lambda>a. push (TGC (GFunction a))))
             | _ \<Rightarrow> vexc Crash)))"

definition luaD_protectedparser :: "lua_env \<Rightarrow> caller \<Rightarrow> byte list \<Rightarrow> byte list \<Rightarrow> int vm" where
  "luaD_protectedparser E call buff name =
     vbind (vget L_top) (\<lambda>t. vbind (vget L_errfunc) (\<lambda>ef. luaD_pcall (f_parser E call buff name) t ef))"

definition luaL_loadbuffer :: "lua_env \<Rightarrow> caller \<Rightarrow> byte list \<Rightarrow> byte list \<Rightarrow> int vm" where
  "luaL_loadbuffer E call buff name = luaD_protectedparser E call buff name"

definition luaL_loadstring :: "lua_env \<Rightarrow> caller \<Rightarrow> byte list \<Rightarrow> int vm" where
  "luaL_loadstring E call s = luaL_loadbuffer E call (c_str s) (c_str s)"

text \<open>\<open>lua_dump\<close> of the Lua function on the top; 1 if there is none.\<close>

definition lua_dump :: "'d lua_Writer \<Rightarrow> 'd \<Rightarrow> (int \<times> 'd) vm" where
  "lua_dump writer d =
     vbind (value_below 1) (\<lambda>v.
     vbind (case v of TGC (GFunction a) \<Rightarrow> vbind (closure_at a) (\<lambda>cl. vret (Some cl)) | _ \<Rightarrow> vret None) (\<lambda>cl.
       vret (case cl of Some (LClosure _ p _) \<Rightarrow> luaU_dump p writer d False | _ \<Rightarrow> (1, d))))"

end
