(* ===== verification/LBase.thy ===== *)
theory LBase
  imports LLoad
begin

text \<open>
  \<open>lbaselib.c\<close>: the basic library. \<open>showp\<close> is what the C library prints for a pointer. The functions
  for input and output, coroutines and the collector belong to the environment.
\<close>

section \<open>Conversions\<close>

definition digit_of :: "byte \<Rightarrow> int option" where
  "digit_of b =
     (if isdigit (uint b) then Some (uint b - 48)
      else if isalpha (uint b) then Some (tolower (uint b) - 87) else None)"

definition is_base_digit :: "int \<Rightarrow> byte \<Rightarrow> bool" where
  "is_base_digit base b = (case digit_of b of Some d \<Rightarrow> d < base | None \<Rightarrow> False)"

definition base_value :: "int \<Rightarrow> byte list \<Rightarrow> int" where
  "base_value base ds = foldl (\<lambda>a b. a * base + the (digit_of b)) 0 ds"

text \<open>\<open>strtoul\<close>: None when there are no digits.\<close>

definition c_strtoul :: "byte list \<Rightarrow> int \<Rightarrow> (int \<times> byte list) option" where
  "c_strtoul s base =
     (case split_sign (dropWhile is_space_b s) of (neg, r) \<Rightarrow>
        let r' = (case r of z # x # d # _ \<Rightarrow>
                    if base = 16 \<and> z = 48 \<and> lower_b x = 120 \<and> is_base_digit 16 d then drop 2 r else r
                  | _ \<Rightarrow> r);
            ds = takeWhile (is_base_digit base) r'; v = base_value base ds
        in if ds = [] then None
           else Some (if 2 ^ 64 \<le> v then 2 ^ 64 - 1 else if neg then (- v) mod 2 ^ 64 else v,
                      dropWhile (is_base_digit base) r'))"

definition luaB_tonumber :: "lua_env \<Rightarrow> caller \<Rightarrow> int vm" where
  "luaB_tonumber E call =
     vbind (luaL_optint E call 2 10) (\<lambda>base.
     vbind (if base = 10
            then vthen (luaL_checkany E call 1)
                 (vbind (lua_isnumber E 1) (\<lambda>b.
                    if b then vbind (lua_tonumber E 1) (\<lambda>n. vret (Some n)) else vret None))
            else vbind (luaL_checklstring E call 1) (\<lambda>s1.
                 vthen (luaL_argcheck E call (2 \<le> base \<and> base \<le> 36) 2 ''base out of range'')
                 (vret (case c_strtoul (c_str s1) base of
                          None \<Rightarrow> None
                        | Some (n, s2) \<Rightarrow> if dropWhile is_space_b s2 = [] then Some (dbl_scaled False n 10 0) else None)))) (\<lambda>r.
     vthen (case r of Some n \<Rightarrow> lua_pushnumber n | None \<Rightarrow> lua_pushnil) (vret 1)))"

definition lua_topointer :: "int \<Rightarrow> addr vm" where
  "lua_topointer idx =
     vbind (value_at idx) (\<lambda>v.
       vret (case v of
               TGC (GTable a) \<Rightarrow> a | TGC (GFunction a) \<Rightarrow> a | TGC (GThread a) \<Rightarrow> a | TGC (GUserdata a) \<Rightarrow> a
             | TLightUserdata p \<Rightarrow> p | _ \<Rightarrow> 0))"

definition luaB_tostring :: "(addr \<Rightarrow> byte list) \<Rightarrow> lua_env \<Rightarrow> caller \<Rightarrow> int vm" where
  "luaB_tostring showp E call =
     vthen (luaL_checkany E call 1)
     (vbind (luaL_callmeta E call 1 ''__tostring'') (\<lambda>b.
        if b then vret 1
        else vbind (lua_type 1) (\<lambda>t.
             vthen (if t = 3 then vbind (lua_tolstring E 1) lua_pushstring
                    else if t = 4 then lua_pushvalue 1
                    else if t = 1 then vbind (lua_toboolean 1) (\<lambda>b. lua_pushlstring (if b then bytes ''true'' else bytes ''false''))
                    else if t = 0 then lua_pushlstring (bytes ''nil'')
                    else vbind (luaL_typename 1) (\<lambda>n. vbind (lua_topointer 1) (\<lambda>p. lua_pushfstring (n @ bytes '': '' @ showp p))))
               (vret 1))))"

definition luaB_type :: "lua_env \<Rightarrow> caller \<Rightarrow> int vm" where
  "luaB_type E call = vthen (luaL_checkany E call 1) (vbind (luaL_typename 1) (\<lambda>n. vthen (lua_pushlstring n) (vret 1)))"

section \<open>Errors\<close>

definition luaB_error :: "lua_env \<Rightarrow> caller \<Rightarrow> int vm" where
  "luaB_error E call =
     vbind (luaL_optint E call 2 1) (\<lambda>level.
     vthen (lua_settop 1)
     (vbind (lua_isstring 1) (\<lambda>b.
      vthen (if b \<and> 0 < level
             then vthen (luaL_where E level) (vthen (lua_pushvalue 1) (lua_concat E call 2)) else vret ())
        (lua_error call))))"

definition luaB_assert :: "lua_env \<Rightarrow> caller \<Rightarrow> int vm" where
  "luaB_assert E call =
     vthen (luaL_checkany E call 1)
     (vbind (lua_toboolean 1) (\<lambda>b.
        if \<not> b then vbind (luaL_optlstring E call 2 (bytes ''assertion failed!'')) (\<lambda>s. luaL_error E call (c_str s))
        else lua_gettop))"

definition luaB_pcall :: "lua_env \<Rightarrow> caller \<Rightarrow> int vm" where
  "luaB_pcall E call =
     vthen (luaL_checkany E call 1)
     (vbind lua_gettop (\<lambda>n.
      vbind (lua_pcall call (nat (n - 1)) LUA_MULTRET 0) (\<lambda>status.
      vthen (lua_pushboolean (status = 0)) (vthen (lua_insert 1) lua_gettop))))"

definition luaB_xpcall :: "lua_env \<Rightarrow> caller \<Rightarrow> int vm" where
  "luaB_xpcall E call =
     vthen (luaL_checkany E call 2)
     (vthen (lua_settop 2)
     (vthen (lua_insert 1)
     (vbind (lua_pcall call 0 LUA_MULTRET 1) (\<lambda>status.
      vthen (lua_pushboolean (status = 0)) (vthen (lua_replace call 1) lua_gettop)))))"

section \<open>Metatables and environments\<close>

definition luaB_getmetatable :: "lua_env \<Rightarrow> caller \<Rightarrow> int vm" where
  "luaB_getmetatable E call =
     vthen (luaL_checkany E call 1)
     (vbind (lua_getmetatable 1) (\<lambda>b.
        if \<not> b then vthen lua_pushnil (vret 1)
        else vthen (luaL_getmetafield E 1 ''__metatable'') (vret 1)))"

definition luaB_setmetatable :: "lua_env \<Rightarrow> caller \<Rightarrow> int vm" where
  "luaB_setmetatable E call =
     vbind (lua_type 2) (\<lambda>t.
     vthen (luaL_checktype E call 1 5)
     (vthen (luaL_argcheck E call (t = 0 \<or> t = 5) 2 ''nil or table expected'')
     (vbind (luaL_getmetafield E 1 ''__metatable'') (\<lambda>b.
      vthen (if b then luaL_error E call (bytes ''cannot change a protected metatable'') else vret ())
      (vthen (lua_settop 2) (vthen (lua_setmetatable 1) (vret 1)))))))"

definition getfunc :: "lua_env \<Rightarrow> caller \<Rightarrow> bool \<Rightarrow> unit vm" where
  "getfunc E call opt =
     vbind (lua_isfunction 1) (\<lambda>b.
       if b then lua_pushvalue 1
       else vbind (if opt then luaL_optint E call 1 1 else luaL_checkint E call 1) (\<lambda>level.
            vthen (luaL_argcheck E call (0 \<le> level) 1 ''level must be non-negative'')
            (vbind (lua_getstack level) (\<lambda>k.
             vbind (case k of Some k \<Rightarrow> vret k | None \<Rightarrow> luaL_argerror E call 1 (bytes ''invalid level'')) (\<lambda>k.
             vthen (lua_getinfo E ''f'' k no_debug)
             (vbind (lua_isnil (- 1)) (\<lambda>b.
                if b then luaL_error E call (bytes ''no function environment for tail call at level '' @ dec_int level)
                else vret ())))))))"

definition luaB_getfenv :: "lua_env \<Rightarrow> caller \<Rightarrow> int vm" where
  "luaB_getfenv E call =
     vthen (getfunc E call True)
     (vbind (lua_iscfunction (- 1)) (\<lambda>b.
      vthen (if b then lua_pushvalue LUA_GLOBALSINDEX else lua_getfenv (- 1)) (vret 1)))"

text \<open>The only thread of the model.\<close>

definition main_thread :: addr where "main_thread = 0"

definition lua_pushthread :: "bool vm" where
  "lua_pushthread = vthen (luaA_pushobject (TGC (GThread main_thread))) (vret True)"

definition luaB_setfenv :: "lua_env \<Rightarrow> caller \<Rightarrow> int vm" where
  "luaB_setfenv E call =
     vthen (luaL_checktype E call 2 5)
     (vthen (getfunc E call False)
     (vthen (lua_pushvalue 2)
     (vbind (lua_isnumber E 1) (\<lambda>b. vbind (lua_tonumber E 1) (\<lambda>n.
        if b \<and> luai_numeq n (cast_num 0)
        then vthen lua_pushthread (vthen (lua_insert (- 2)) (vthen (lua_setfenv (- 2)) (vret 0)))
        else vbind (lua_iscfunction (- 2)) (\<lambda>c.
             vbind (if c then vret False else lua_setfenv (- 2)) (\<lambda>done.
             vthen (if done then vret ()
                    else luaL_error E call (lua_qs (bytes ''setfenv'') @ bytes '' cannot change environment of given object''))
               (vret 1))))))))"

section \<open>Raw access and traversal\<close>

definition luaB_rawequal :: "lua_env \<Rightarrow> caller \<Rightarrow> int vm" where
  "luaB_rawequal E call =
     vthen (luaL_checkany E call 1) (vthen (luaL_checkany E call 2)
     (vbind (lua_rawequal 1 2) (\<lambda>b. vthen (lua_pushboolean b) (vret 1))))"

definition luaB_rawget :: "lua_env \<Rightarrow> caller \<Rightarrow> int vm" where
  "luaB_rawget E call =
     vthen (luaL_checktype E call 1 5) (vthen (luaL_checkany E call 2) (vthen (lua_settop 2) (vthen (lua_rawget E 1) (vret 1))))"

definition luaB_rawset :: "lua_env \<Rightarrow> caller \<Rightarrow> int vm" where
  "luaB_rawset E call =
     vthen (luaL_checktype E call 1 5) (vthen (luaL_checkany E call 2) (vthen (luaL_checkany E call 3)
     (vthen (lua_settop 3) (vthen (lua_rawset E call 1) (vret 1)))))"

definition luaB_next :: "lua_env \<Rightarrow> caller \<Rightarrow> int vm" where
  "luaB_next E call =
     vthen (luaL_checktype E call 1 5) (vthen (lua_settop 2)
     (vbind (lua_next E call 1) (\<lambda>b. if b then vret 2 else vthen lua_pushnil (vret 1))))"

definition luaB_pairs :: "lua_env \<Rightarrow> caller \<Rightarrow> int vm" where
  "luaB_pairs E call =
     vthen (luaL_checktype E call 1 5) (vthen (lua_pushvalue (lua_upvalueindex 1)) (vthen (lua_pushvalue 1) (vthen lua_pushnil (vret 3))))"

text \<open>\<open>i++\<close> is undefined at the largest int.\<close>

definition ipairsaux :: "lua_env \<Rightarrow> caller \<Rightarrow> int vm" where
  "ipairsaux E call =
     vbind (luaL_checkint E call 2) (\<lambda>i.
     vthen (luaL_checktype E call 1 5)
     (if i = INT_MAX then vexc Crash
      else vthen (lua_pushinteger (i + 1))
        (vthen (lua_rawgeti 1 (i + 1))
        (vbind (lua_isnil (- 1)) (\<lambda>b. vret (if b then 0 else 2))))))"

definition luaB_ipairs :: "lua_env \<Rightarrow> caller \<Rightarrow> int vm" where
  "luaB_ipairs E call =
     vthen (luaL_checktype E call 1 5) (vthen (lua_pushvalue (lua_upvalueindex 1)) (vthen (lua_pushvalue 1) (vthen (lua_pushinteger 0) (vret 3))))"

fun unpack_loop :: "int \<Rightarrow> nat \<Rightarrow> unit vm" where
  "unpack_loop i 0 = lua_rawgeti 1 i"
| "unpack_loop i (Suc n) = vthen (lua_rawgeti 1 i) (unpack_loop (i + 1) n)"

definition luaB_unpack :: "lua_env \<Rightarrow> caller \<Rightarrow> int vm" where
  "luaB_unpack E call =
     vthen (luaL_checktype E call 1 5)
     (vbind (luaL_optint E call 2 1) (\<lambda>i.
      vbind (lua_isnoneornil 3) (\<lambda>b.
      vbind (if b then luaL_getn E 1 else luaL_checkint E call 3) (\<lambda>e.
        if e < i then vret 0
        else let n = int_of_integer (e - i + 1)
             in vbind (if 0 < n then lua_checkstack n else vret False) (\<lambda>ok.
                  if \<not> ok then luaL_error E call (bytes ''too many results to unpack'')
                  else vthen (unpack_loop i (nat (e - i))) (vret n))))))"

definition luaB_select :: "lua_env \<Rightarrow> caller \<Rightarrow> int vm" where
  "luaB_select E call =
     vbind lua_gettop (\<lambda>n.
     vbind (lua_type 1) (\<lambda>t.
     vbind (if t = 4 then lua_tolstring E 1 else vret None) (\<lambda>s.
       if (case s of Some (c # _) \<Rightarrow> c = 35 | _ \<Rightarrow> False)
       then vthen (lua_pushinteger (n - 1)) (vret 1)
       else vbind (luaL_checkint E call 1) (\<lambda>i.
            let i = (if i < 0 then n + i else if n < i then n else i)
            in vthen (luaL_argcheck E call (1 \<le> i) 1 ''index out of range'') (vret (n - i))))))"

section \<open>Loading and proxies\<close>

definition load_aux :: "int \<Rightarrow> int vm" where
  "load_aux status = (if status = 0 then vret 1 else vthen lua_pushnil (vthen (lua_insert (- 2)) (vret 2)))"

definition luaB_loadstring :: "lua_env \<Rightarrow> caller \<Rightarrow> int vm" where
  "luaB_loadstring E call =
     vbind (luaL_checklstring E call 1) (\<lambda>s.
     vbind (luaL_optlstring E call 2 s) (\<lambda>chunkname.
     vbind (luaL_loadbuffer E call s (c_str chunkname)) load_aux))"

definition luaB_newproxy :: "lua_env \<Rightarrow> caller \<Rightarrow> int vm" where
  "luaB_newproxy E call =
     vthen (lua_settop 1)
     (vthen (lua_newuserdata 0)
     (vbind (lua_toboolean 1) (\<lambda>b.
        if \<not> b then vret 1
        else vbind (lua_isboolean 1) (\<lambda>isb.
             vthen (if isb
                    then vthen (lua_createtable call 0 0) (vthen (lua_pushvalue (- 1)) (vthen (lua_pushboolean True)
                         (lua_rawset E call (lua_upvalueindex 1))))
                    else vbind (lua_getmetatable 1) (\<lambda>m.
                         vbind (if m then vthen (lua_rawget E (lua_upvalueindex 1))
                                            (vbind (lua_toboolean (- 1)) (\<lambda>v. vthen (lua_pop 1) (vret v)))
                                else vret False) (\<lambda>validproxy.
                         vthen (luaL_argcheck E call validproxy 1 ''boolean or proxy expected'')
                         (vthen (lua_getmetatable 1) (vret ())))))
               (vthen (lua_setmetatable 2) (vret 1))))))"

end
