(* ===== verification/LTabLib.thy ===== *)
theory LTabLib
  imports LBase
begin

text \<open>
  \<open>ltablib.c\<close> without the sort, which is in \<open>LSort\<close>. The loops over a table take the number of
  elements; \<open>foreach\<close> and \<open>maxn\<close> take fuel, because the function they call may change the table.
\<close>

definition aux_getn :: "lua_env \<Rightarrow> caller \<Rightarrow> int \<Rightarrow> int vm" where
  "aux_getn E call n = vthen (luaL_checktype E call n 5) (luaL_getn E n)"

fun foreachi_loop :: "caller \<Rightarrow> int \<Rightarrow> nat \<Rightarrow> int vm" where
  "foreachi_loop call i 0 = vret 0"
| "foreachi_loop call i (Suc n) =
     vthen (lua_pushvalue 2) (vthen (lua_pushinteger i) (vthen (lua_rawgeti 1 i)
     (vthen (lua_call call 2 1)
     (vbind (lua_isnil (- 1)) (\<lambda>b. if \<not> b then vret 1 else vthen (lua_pop 1) (foreachi_loop call (i + 1) n))))))"

definition foreachi :: "lua_env \<Rightarrow> caller \<Rightarrow> int vm" where
  "foreachi E call =
     vbind (aux_getn E call 1) (\<lambda>n. vthen (luaL_checktype E call 2 6) (foreachi_loop call 1 (nat n)))"

fun foreach_loop :: "nat \<Rightarrow> lua_env \<Rightarrow> caller \<Rightarrow> int vm" where
  "foreach_loop 0 E call = vexc NoFuel"
| "foreach_loop (Suc fuel) E call =
     vbind (lua_next E call 1) (\<lambda>more.
       if \<not> more then vret 0
       else vthen (lua_pushvalue 2) (vthen (lua_pushvalue (- 3)) (vthen (lua_pushvalue (- 3))
            (vthen (lua_call call 2 1)
            (vbind (lua_isnil (- 1)) (\<lambda>b. if \<not> b then vret 1 else vthen (lua_pop 2) (foreach_loop fuel E call)))))))"

definition foreach :: "nat \<Rightarrow> lua_env \<Rightarrow> caller \<Rightarrow> int vm" where
  "foreach fuel E call =
     vthen (luaL_checktype E call 1 5) (vthen (luaL_checktype E call 2 6) (vthen lua_pushnil (foreach_loop fuel E call)))"

fun maxn_loop :: "nat \<Rightarrow> lua_env \<Rightarrow> caller \<Rightarrow> lua_Number \<Rightarrow> lua_Number vm" where
  "maxn_loop 0 E call m = vexc NoFuel"
| "maxn_loop (Suc fuel) E call m =
     vbind (lua_next E call 1) (\<lambda>more.
       if \<not> more then vret m
       else vthen (lua_pop 1)
            (vbind (lua_type (- 1)) (\<lambda>t.
             vbind (lua_tonumber E (- 1)) (\<lambda>v.
               maxn_loop fuel E call (if t = 3 \<and> luai_numlt m v then v else m)))))"

definition maxn :: "nat \<Rightarrow> lua_env \<Rightarrow> caller \<Rightarrow> int vm" where
  "maxn fuel E call =
     vthen (luaL_checktype E call 1 5)
     (vthen lua_pushnil (vbind (maxn_loop fuel E call (cast_num 0)) (\<lambda>m. vthen (lua_pushnumber m) (vret 1))))"

definition getn :: "lua_env \<Rightarrow> caller \<Rightarrow> int vm" where
  "getn E call = vbind (aux_getn E call 1) (\<lambda>n. vthen (lua_pushinteger n) (vret 1))"

definition setn :: "lua_env \<Rightarrow> caller \<Rightarrow> int vm" where
  "setn E call =
     vthen (luaL_checktype E call 1 5) (luaL_error E call (lua_qs (bytes ''setn'') @ bytes '' is obsolete''))"

text \<open>\<open>for (i = e; i > pos; i--)\<close>.\<close>

fun move_up :: "lua_env \<Rightarrow> caller \<Rightarrow> int \<Rightarrow> nat \<Rightarrow> unit vm" where
  "move_up E call pos 0 = vret ()"
| "move_up E call pos (Suc n) =
     (let i = pos + 1 + int n
      in vthen (lua_rawgeti 1 (i - 1)) (vthen (lua_rawseti E call 1 i) (move_up E call pos n)))"

definition tinsert :: "lua_env \<Rightarrow> caller \<Rightarrow> int vm" where
  "tinsert E call =
     vbind (aux_getn E call 1) (\<lambda>n. let e = n + 1 in
     vbind lua_gettop (\<lambda>t.
     vbind (if t = 2 then vret e
            else if t = 3
            then vbind (luaL_checkint E call 2) (\<lambda>pos.
                 let e = (if e < pos then pos else e) in vthen (move_up E call pos (nat (e - pos))) (vret pos))
            else luaL_error E call (bytes ''wrong number of arguments to '' @ lua_qs (bytes ''insert''))) (\<lambda>pos.
     vthen (lua_rawseti E call 1 pos) (vret 0))))"

text \<open>\<open>for ( ; pos < e; pos++)\<close>.\<close>

fun tshift_down :: "lua_env \<Rightarrow> caller \<Rightarrow> int \<Rightarrow> nat \<Rightarrow> unit vm" where
  "tshift_down E call pos 0 = vret ()"
| "tshift_down E call pos (Suc n) =
     vthen (lua_rawgeti 1 (pos + 1)) (vthen (lua_rawseti E call 1 pos) (tshift_down E call (pos + 1) n))"

definition tremove :: "lua_env \<Rightarrow> caller \<Rightarrow> int vm" where
  "tremove E call =
     vbind (aux_getn E call 1) (\<lambda>e.
     vbind (luaL_optint E call 2 e) (\<lambda>pos.
       if \<not> (1 \<le> pos \<and> pos \<le> e) then vret 0
       else vthen (lua_rawgeti 1 pos)
            (vthen (tshift_down E call pos (nat (e - pos)))
            (vthen lua_pushnil (vthen (lua_rawseti E call 1 e) (vret 1))))))"

definition addfield :: "lua_env \<Rightarrow> caller \<Rightarrow> luaL_Buffer \<Rightarrow> int \<Rightarrow> luaL_Buffer vm" where
  "addfield E call b i =
     vthen (lua_rawgeti 1 i)
     (vbind (lua_isstring (- 1)) (\<lambda>ok.
      vthen (if ok then vret ()
             else vbind (luaL_typename (- 1)) (\<lambda>n.
                  luaL_error E call (bytes ''invalid value ('' @ n @ bytes '') at index '' @ dec_int i @
                    bytes '' in table for '' @ lua_qs (bytes ''concat''))))
        (luaL_addvalue E call b)))"

fun concat_fields :: "lua_env \<Rightarrow> caller \<Rightarrow> byte list \<Rightarrow> luaL_Buffer \<Rightarrow> int \<Rightarrow> nat \<Rightarrow> luaL_Buffer vm" where
  "concat_fields E call sep b i 0 = vret b"
| "concat_fields E call sep b i (Suc n) =
     vbind (addfield E call b i) (\<lambda>b. vbind (luaL_addlstring E call b sep) (\<lambda>b. concat_fields E call sep b (i + 1) n))"

definition tconcat :: "lua_env \<Rightarrow> caller \<Rightarrow> int vm" where
  "tconcat E call =
     vbind (luaL_optlstring E call 2 []) (\<lambda>sep.
     vthen (luaL_checktype E call 1 5)
     (vbind (luaL_optint E call 3 1) (\<lambda>i.
      vbind (lua_isnoneornil 4) (\<lambda>b.
      vbind (if b then luaL_getn E 1 else luaL_checkint E call 4) (\<lambda>lst.
      vbind (concat_fields E call sep luaL_buffinit i (nat (lst - i))) (\<lambda>b.
      vbind (if i \<le> lst then addfield E call b lst else vret b) (\<lambda>b.
      vthen (luaL_pushresult E call b) (vret 1))))))))"

section \<open>The libraries in a state\<close>

text \<open>The functions of the two libraries in the order of \<open>base_funcs\<close>, the two auxiliary ones, and
  \<open>tab_funcs\<close>; the number of a C function is its place here. Those without a body belong to the
  environment, and so do all other numbers.\<close>

type_synonym lib_function = "lua_env \<Rightarrow> caller \<Rightarrow> int vm"

definition base_funcs :: "(addr \<Rightarrow> byte list) \<Rightarrow> (string \<times> lib_function option) list" where
  "base_funcs showp =
     [(''assert'', Some luaB_assert), (''collectgarbage'', None), (''dofile'', None), (''error'', Some luaB_error),
      (''gcinfo'', None), (''getfenv'', Some luaB_getfenv), (''getmetatable'', Some luaB_getmetatable),
      (''loadfile'', None), (''load'', None), (''loadstring'', Some luaB_loadstring), (''next'', Some luaB_next),
      (''pcall'', Some luaB_pcall), (''print'', None), (''rawequal'', Some luaB_rawequal), (''rawget'', Some luaB_rawget),
      (''rawset'', Some luaB_rawset), (''select'', Some luaB_select), (''setfenv'', Some luaB_setfenv),
      (''setmetatable'', Some luaB_setmetatable), (''tonumber'', Some luaB_tonumber),
      (''tostring'', Some (luaB_tostring showp)), (''type'', Some luaB_type), (''unpack'', Some luaB_unpack),
      (''xpcall'', Some luaB_xpcall)]"

definition aux_funcs :: "(string \<times> lib_function option) list" where
  "aux_funcs = [(''ipairs'', Some luaB_ipairs), (''pairs'', Some luaB_pairs), (''newproxy'', Some luaB_newproxy),
     ('''', Some ipairsaux)]"

definition tab_funcs :: "nat \<Rightarrow> (string \<times> lib_function option) list" where
  "tab_funcs fuel =
     [(''concat'', Some tconcat), (''foreach'', Some (foreach fuel)), (''foreachi'', Some foreachi), (''getn'', Some getn),
      (''maxn'', Some (maxn fuel)), (''insert'', Some tinsert), (''remove'', Some tremove), (''setn'', Some setn),
      (''sort'', None)]"

definition lib_funcs :: "(addr \<Rightarrow> byte list) \<Rightarrow> nat \<Rightarrow> (string \<times> lib_function option) list" where
  "lib_funcs showp fuel = base_funcs showp @ aux_funcs @ tab_funcs fuel"

definition lib_cfun :: "(addr \<Rightarrow> byte list) \<Rightarrow> nat \<Rightarrow> lua_env \<Rightarrow> nat \<Rightarrow> caller \<Rightarrow> int vm" where
  "lib_cfun showp fuel E f call =
     (case (if f < length (lib_funcs showp fuel) then snd (lib_funcs showp fuel ! f) else None) of
        Some g \<Rightarrow> g E call
      | None \<Rightarrow> E_cfun E f call)"

definition with_libs :: "(addr \<Rightarrow> byte list) \<Rightarrow> nat \<Rightarrow> lua_env \<Rightarrow> lua_env" where
  "with_libs showp fuel E = E\<lparr>E_cfun := lib_cfun showp fuel E\<rparr>"

definition numbered :: "nat \<Rightarrow> (string \<times> lib_function option) list \<Rightarrow> (byte list \<times> nat) list" where
  "numbered k fs = zip (map (bytes \<circ> fst) fs) [k..<k + length fs]"

definition lua_setglobal :: "lua_env \<Rightarrow> caller \<Rightarrow> string \<Rightarrow> unit vm" where
  "lua_setglobal E call s = lua_setfield E call LUA_GLOBALSINDEX (bytes s)"

definition auxopen :: "lua_env \<Rightarrow> caller \<Rightarrow> string \<Rightarrow> nat \<Rightarrow> nat \<Rightarrow> unit vm" where
  "auxopen E call name f u =
     vthen (lua_pushcclosure u 0) (vthen (lua_pushcclosure f 1) (lua_setfield E call (- 2) (bytes name)))"

definition base_open :: "lua_env \<Rightarrow> caller \<Rightarrow> unit vm" where
  "base_open E call =
     (let b = base_funcs (\<lambda>_. []); n = length b
      in vthen (lua_pushvalue LUA_GLOBALSINDEX) (vthen (lua_setglobal E call ''_G'')
         (vthen (luaL_register E call (Some (bytes ''_G'')) (numbered 0 b))
         (vthen (lua_pushlstring (bytes ''Lua 5.1'')) (vthen (lua_setglobal E call ''_VERSION'')
         (vthen (auxopen E call ''ipairs'' n (n + 3)) (vthen (auxopen E call ''pairs'' (n + 1) 10)
         (vthen (lua_createtable call 0 1) (vthen (lua_pushvalue (- 1)) (vthen (lua_setmetatable (- 2))
         (vthen (lua_pushlstring (bytes ''kv'')) (vthen (lua_setfield E call (- 2) (bytes ''__mode''))
         (vthen (lua_pushcclosure (n + 2) 1) (lua_setglobal E call ''newproxy''))))))))))))))"

definition luaopen_table :: "lua_env \<Rightarrow> caller \<Rightarrow> int vm" where
  "luaopen_table E call =
     vthen (luaL_register E call (Some (bytes ''table'')) (numbered (length (base_funcs (\<lambda>_. []) @ aux_funcs)) (tab_funcs 0))) (vret 1)"

end
