(* ===== verification/LApiFrame.thy ===== *)
theory LApiFrame
  imports LTabLib LVmFrame
begin

text \<open>
  The C API and the libraries keep the call records: the facts of the collection \<open>keeps\<close> for the
  operations that leave every record alone, those of \<open>ckeeps\<close> for the ones that may raise the limit
  of the running C function.
\<close>

section \<open>Debug interface\<close>

lemma keeps_ci_at [keeps]: "keeps_frame (ci_at k)"
  unfolding ci_at_def by (intro keeps)

lemma keeps_getline [keeps]: "keeps_frame (getline p pc)"
  unfolding getline_def by (intro keeps)

lemma keeps_dbg [keeps]:
  "keeps_frame (currentpc_at k)" "keeps_frame (currentline_at k)" "keeps_frame (getfuncname k)" "keeps_frame (lua_getstack n)"
proof -
  have pc: "keeps_frame (currentpc_at k)" for k unfolding currentpc_at_def by (intro keeps)
  show "keeps_frame (currentpc_at k)" "keeps_frame (currentline_at k)" "keeps_frame (getfuncname k)"
    unfolding currentline_at_def getfuncname_def by (intro keeps pc)+
  have "keeps_frame (getstack_loop c n)" for c n
    by (induction c arbitrary: n) (unfold getstack_loop.simps, (intro keeps | assumption)+)
  then show "keeps_frame (lua_getstack n)" unfolding lua_getstack_def by (intro keeps)
qed

lemma keeps_getinfo [keeps]: "keeps_frame (lua_getinfo E what k ar)"
proof -
  have f: "keeps_frame (funcinfo cl ar)" for cl ar unfolding funcinfo_def by (intro keeps)
  have o: "keeps_frame (getinfo_options what cl ci ar b)" for what cl ci ar b
    by (induction what arbitrary: ar b) (unfold getinfo_options.simps, (intro keeps f | assumption)+)
  have v: "keeps_frame (valid_lines E ls t)" for ls t
    by (induction ls arbitrary: t) (unfold valid_lines.simps, (intro keeps | assumption)+)
  have a: "keeps_frame (auxgetinfo what ar cl ci)" for what ar cl ci unfolding auxgetinfo_def by (intro keeps o)
  have l: "keeps_frame (collectvalidlines E cl)" for cl unfolding collectvalidlines_def by (intro keeps v)
  show ?thesis unfolding lua_getinfo_def Let_def by (intro keeps a l)
qed

section \<open>Places and the stack\<close>

lemma keeps_place [keeps]:
  "(\<And>p. keeps_frame (f p)) \<Longrightarrow> keeps_frame a \<Longrightarrow> keeps_frame b \<Longrightarrow> keeps_frame c \<Longrightarrow> (\<And>n. keeps_frame (g n)) \<Longrightarrow> keeps_frame d \<Longrightarrow>
   keeps_frame (case_place f a b c g d pl)"
  by (cases pl) simp_all

lemma keeps_upds [keeps]:
  "keeps_frame (set_closure a cl)" "keeps_frame (vupd (\<lambda>L. L\<lparr>L_registry := v\<rparr>))" "keeps_frame (vupd (\<lambda>L. L\<lparr>L_gt := v\<rparr>))"
  "keeps_frame (vupd (\<lambda>L. L\<lparr>L_udata := (L_udata L)(a \<mapsto> u)\<rparr>))" "keeps_frame (vupd (\<lambda>L. L\<lparr>L_mt := (L_mt L)(t := m)\<rparr>))"
  "keeps_frame (vupd (\<lambda>L. L\<lparr>L_uvs := (L_uvs L)(a \<mapsto> uv)\<rparr>))"
  unfolding set_closure_def by (rule keeps_rest, simp add: same_rest_def)+

lemma keeps_index [keeps]:
  "keeps_frame curr_func" "keeps_frame curr_closure" "keeps_frame (index2adr i)" "keeps_frame (get_place pl)" "keeps_frame (set_place pl v)"
  "keeps_frame (value_at i)" "keeps_frame (operand_at i)" "keeps_frame getcurrenv" "keeps_frame (luaA_pushobject v)"
  "keeps_frame (add_top n)" "keeps_frame (value_below m)"
proof -
  have f: "keeps_frame curr_func" unfolding curr_func_def by (intro keeps)
  have c: "keeps_frame curr_closure" unfolding curr_closure_def by (intro keeps)
  have i: "keeps_frame (index2adr i)" for i unfolding index2adr_def Let_def by (intro keeps f)
  have g: "keeps_frame (get_place pl)" for pl unfolding get_place_def by (intro keeps f)
  show "keeps_frame curr_func" "keeps_frame curr_closure" "keeps_frame (index2adr i)" "keeps_frame (get_place pl)" "keeps_frame (set_place pl v)"
    "keeps_frame (value_at i)" "keeps_frame (operand_at i)" "keeps_frame getcurrenv" "keeps_frame (luaA_pushobject v)"
    "keeps_frame (add_top n)" "keeps_frame (value_below m)"
    unfolding set_place_def value_at_def operand_at_def getcurrenv_def luaA_pushobject_def add_top_def value_below_def
    by (intro keeps f c i g)+
qed

lemma keeps_stack_ops [keeps]:
  "keeps_frame lua_gettop" "keeps_frame (lua_settop i)" "keeps_frame (lua_pop n)" "keeps_frame (lua_remove i)" "keeps_frame (lua_insert i)"
  "keeps_frame (lua_pushvalue i)"
proof -
  have s: "keeps_frame (shift_down p n)" for p n
    by (induction n arbitrary: p) (unfold shift_down.simps, (intro keeps | assumption)+)
  have t: "keeps_frame (lua_settop i)" for i unfolding lua_settop_def by (intro keeps)
  show "keeps_frame lua_gettop" "keeps_frame (lua_settop i)" "keeps_frame (lua_pop n)" "keeps_frame (lua_remove i)" "keeps_frame (lua_insert i)"
    "keeps_frame (lua_pushvalue i)"
    unfolding lua_gettop_def lua_pop_def lua_remove_def lua_insert_def lua_pushvalue_def by (intro keeps s t)+
qed

lemma keeps_replace [keeps]:
  assumes c: "keeps_call call"
  shows "keeps_frame (lua_replace call i)"
  unfolding lua_replace_def by (intro keeps c)

lemma keeps_access [keeps]:
  "keeps_frame (lua_type i)" "keeps_frame (luaL_typename i)" "keeps_frame (lua_isnil i)" "keeps_frame (lua_istable i)"
  "keeps_frame (lua_isboolean i)" "keeps_frame (lua_isfunction i)" "keeps_frame (lua_isnoneornil i)" "keeps_frame (lua_iscfunction i)"
  "keeps_frame (lua_isnumber E i)" "keeps_frame (lua_isstring i)" "keeps_frame (lua_isuserdata i)" "keeps_frame (lua_rawequal i j)"
  "keeps_frame (lua_tonumber E i)" "keeps_frame (lua_tointeger E i)" "keeps_frame (lua_toboolean i)" "keeps_frame (lua_tolstring E i)"
  "keeps_frame (lua_objlen E i)" "keeps_frame (lua_touserdata i)" "keeps_frame (table_arg i)" "keeps_frame (lua_topointer i)"
proof -
  have t: "keeps_frame (lua_type i)" for i unfolding lua_type_def by (intro keeps)
  show "keeps_frame (lua_type i)" "keeps_frame (luaL_typename i)" "keeps_frame (lua_isnil i)" "keeps_frame (lua_istable i)"
    "keeps_frame (lua_isboolean i)" "keeps_frame (lua_isfunction i)" "keeps_frame (lua_isnoneornil i)" "keeps_frame (lua_iscfunction i)"
    "keeps_frame (lua_isnumber E i)" "keeps_frame (lua_isstring i)" "keeps_frame (lua_isuserdata i)" "keeps_frame (lua_rawequal i j)"
    "keeps_frame (lua_tonumber E i)" "keeps_frame (lua_tointeger E i)" "keeps_frame (lua_toboolean i)" "keeps_frame (lua_tolstring E i)"
    "keeps_frame (lua_objlen E i)" "keeps_frame (lua_touserdata i)" "keeps_frame (table_arg i)" "keeps_frame (lua_topointer i)"
    unfolding luaL_typename_def lua_isnil_def lua_istable_def lua_isboolean_def lua_isfunction_def lua_isnoneornil_def
      lua_iscfunction_def lua_isnumber_def lua_isstring_def lua_isuserdata_def lua_rawequal_def both_valid_def lua_tonumber_def
      lua_tointeger_def lua_toboolean_def lua_tolstring_def lua_objlen_def lua_touserdata_def table_arg_def lua_topointer_def
    by (intro keeps t)+
qed

lemma keeps_pushes [keeps]:
  "keeps_frame lua_pushnil" "keeps_frame (lua_pushnumber n)" "keeps_frame (lua_pushinteger k)" "keeps_frame (lua_pushlstring s)"
  "keeps_frame (lua_pushstring so)" "keeps_frame (lua_pushboolean b)" "keeps_frame (lua_pushlightuserdata p)"
  "keeps_frame (lua_pushfstring s)" "keeps_frame (lua_pushcclosure fn m)" "keeps_frame lua_pushthread" "keeps_frame (lua_newuserdata m)"
proof -
  have l: "keeps_frame (lua_pushlstring s)" "keeps_frame lua_pushnil" for s
    unfolding lua_pushlstring_def lua_pushnil_def by (intro keeps)+
  have v: "keeps_frame (take_values p m)" for p m
    by (induction m arbitrary: p) (unfold take_values.simps, (intro keeps | assumption)+)
  show "keeps_frame lua_pushnil" "keeps_frame (lua_pushnumber n)" "keeps_frame (lua_pushinteger k)" "keeps_frame (lua_pushlstring s)"
    "keeps_frame (lua_pushstring so)" "keeps_frame (lua_pushboolean b)" "keeps_frame (lua_pushlightuserdata p)"
    "keeps_frame (lua_pushfstring s)" "keeps_frame (lua_pushcclosure fn m)" "keeps_frame lua_pushthread" "keeps_frame (lua_newuserdata m)"
    unfolding lua_pushnumber_def lua_pushinteger_def lua_pushstring_def lua_pushboolean_def lua_pushlightuserdata_def
      lua_pushfstring_def lua_pushcclosure_def lua_pushthread_def lua_newuserdata_def
    by (intro keeps v l)+
qed

section \<open>Tables and metatables\<close>

lemma keeps_raw [keeps]:
  "keeps_frame (lua_rawget E i)" "keeps_frame (lua_rawgeti i k)" "keeps_frame (metatable_of v)" "keeps_frame (lua_getmetatable i)"
  "keeps_frame (lua_getfenv i)" "keeps_frame (set_metatable v mt)" "keeps_frame (lua_setmetatable i)" "keeps_frame (lua_setfenv i)"
proof -
  have m: "keeps_frame (metatable_of v)" "keeps_frame (set_metatable v mt)" for v mt
    unfolding metatable_of_def set_metatable_def by (intro keeps)+
  show "keeps_frame (lua_rawget E i)" "keeps_frame (lua_rawgeti i k)" "keeps_frame (metatable_of v)" "keeps_frame (lua_getmetatable i)"
    "keeps_frame (lua_getfenv i)" "keeps_frame (set_metatable v mt)" "keeps_frame (lua_setmetatable i)" "keeps_frame (lua_setfenv i)"
    unfolding lua_rawget_def lua_rawgeti_def lua_getmetatable_def lua_getfenv_def lua_setmetatable_def lua_setfenv_def
    by (intro keeps m)+
qed

lemma keeps_upvalue_places [keeps]:
  "(\<And>a n. keeps_frame (f a n)) \<Longrightarrow> (\<And>a. keeps_frame (g a)) \<Longrightarrow> keeps_frame (case_upvalue_place f g u)"
  by (cases u) simp_all

lemma keeps_upvalues [keeps]: "keeps_frame (lua_getupvalue i n)" "keeps_frame (lua_setupvalue i n)"
proof -
  have a: "keeps_frame (aux_upvalue v n)" "keeps_frame (get_upvalue_place u)" "keeps_frame (set_upvalue_place u v)" for u v
    unfolding aux_upvalue_def get_upvalue_place_def set_upvalue_place_def by (intro keeps)+
  show "keeps_frame (lua_getupvalue i n)" "keeps_frame (lua_setupvalue i n)"
    unfolding lua_getupvalue_def lua_setupvalue_def by (intro keeps a)+
qed

lemma keeps_api_call [keeps]:
  assumes c: "keeps_call call"
  shows "keeps_frame (lua_gettable E call i)" "keeps_frame (lua_getfield E call i s)" "keeps_frame (lua_createtable call m n)"
    "keeps_frame (lua_settable E call i)" "keeps_frame (lua_setfield E call i s)" "keeps_frame (lua_rawset E call i)"
    "keeps_frame (lua_rawseti E call i k)" "keeps_frame (lua_error call)" "keeps_frame (lua_next E call i)" "keeps_frame (lua_concat E call m)"
    "keeps_frame (lua_equal E call i j)" "keeps_frame (lua_lessthan E call i j)"
  unfolding lua_gettable_def lua_getfield_def lua_createtable_def lua_settable_def lua_setfield_def lua_rawset_def lua_rawseti_def
    lua_error_def lua_next_def lua_concat_def lua_equal_def lua_lessthan_def both_valid_def
  by (intro keeps c)+

lemma keeps_cpcall [keeps]:
  assumes c: "keeps_call call"
  shows "keeps_frame (lua_cpcall call fn ud)"
proof -
  have "keeps_frame (f_Ccall call fn ud)" unfolding f_Ccall_def by (intro keeps keeps_callD [OF c])
  then show ?thesis unfolding lua_cpcall_def by (intro keeps keeps_pcall)
qed

section \<open>The auxiliary library\<close>

lemma keeps_where [keeps]: "keeps_frame (luaL_where E lv)"
  unfolding luaL_where_def by (intro keeps)

lemma keeps_laux_errors [keeps]:
  assumes c: "keeps_call call"
  shows "keeps_frame (luaL_error E call msg)" "keeps_frame (luaL_argerror E call n msg)"
    "keeps_frame (luaL_typerror E call n s)" "keeps_frame (tag_error E call n t)" "keeps_frame (luaL_argcheck E call b n str)"
proof -
  have e: "keeps_frame (luaL_error E call msg)" for msg unfolding luaL_error_def by (intro keeps c)
  have a: "keeps_frame (luaL_argerror E call n msg)" for n msg unfolding luaL_argerror_def Let_def by (intro keeps c e)
  have t: "keeps_frame (luaL_typerror E call n s)" for n s unfolding luaL_typerror_def Let_def by (intro keeps a)
  show "keeps_frame (luaL_error E call msg)" "keeps_frame (luaL_argerror E call n msg)"
    "keeps_frame (luaL_typerror E call n s)" "keeps_frame (tag_error E call n t)" "keeps_frame (luaL_argcheck E call b n str)"
    unfolding tag_error_def luaL_argcheck_def by (intro keeps e a t)+
qed

lemma keeps_getn [keeps]: "keeps_frame (luaL_getn E n)"
  unfolding luaL_getn_def by (intro keeps)

lemma keeps_laux_checks [keeps]:
  assumes c: "keeps_call call"
  shows "keeps_frame (luaL_checktype E call n t)" "keeps_frame (luaL_checkany E call n)" "keeps_frame (luaL_checklstring E call n)"
    "keeps_frame (luaL_optlstring E call n d)" "keeps_frame (luaL_checknumber E call n)" "keeps_frame (luaL_checkinteger E call n)"
    "keeps_frame (luaL_optinteger E call n k)" "keeps_frame (luaL_checkint E call n)" "keeps_frame (luaL_optint E call n k)"
    "keeps_frame (luaL_checkoption E call n od lst)"
proof -
  have i: "keeps_frame (luaL_checkinteger E call n)" for n unfolding luaL_checkinteger_def by (intro keeps c)
  have o: "keeps_frame (luaL_optinteger E call n k)" for n k unfolding luaL_optinteger_def by (intro keeps c i)
  have s: "keeps_frame (luaL_checklstring E call n)" for n unfolding luaL_checklstring_def by (intro keeps c)
  have t: "keeps_frame (luaL_optlstring E call n d)" for n d unfolding luaL_optlstring_def by (intro keeps s)
  show "keeps_frame (luaL_checktype E call n t)" "keeps_frame (luaL_checkany E call n)" "keeps_frame (luaL_checklstring E call n)"
    "keeps_frame (luaL_optlstring E call n d)" "keeps_frame (luaL_checknumber E call n)" "keeps_frame (luaL_checkinteger E call n)"
    "keeps_frame (luaL_optinteger E call n k)" "keeps_frame (luaL_checkint E call n)" "keeps_frame (luaL_optint E call n k)"
    "keeps_frame (luaL_checkoption E call n od lst)"
    unfolding luaL_checktype_def luaL_checkany_def luaL_checknumber_def luaL_checkint_def luaL_optint_def
      luaL_checkoption_def Let_def
    by (intro keeps c i o s t)+
qed

lemma keeps_metafield [keeps]: "keeps_frame (luaL_getmetafield E i ev)" "keeps_frame (abs_index i)"
  unfolding luaL_getmetafield_def abs_index_def by (intro keeps)+

lemma keeps_laux_meta [keeps]:
  assumes c: "keeps_call call"
  shows "keeps_frame (luaL_newmetatable E call s)" "keeps_frame (luaL_checkudata E call i s)"
  unfolding luaL_newmetatable_def luaL_checkudata_def by (intro keeps c)+

lemma keeps_findtable [keeps]:
  assumes c: "keeps_call call"
  shows "keeps_frame (luaL_findtable E call i s n)"
proof -
  have f: "keeps_frame (find_field E call s n)" for s n unfolding find_field_def by (intro keeps c)
  have "keeps_frame (find_fields E call s n)" for s
  proof (induction s rule: length_induct)
    case (1 s)
    have "keeps_frame (find_fields E call (tl (dropWhile (\<lambda>c. c \<noteq> 46) s)) n)" if "dropWhile (\<lambda>c. c \<noteq> 46) s \<noteq> []"
      using 1 tl_dropWhile_less [OF that] by blast
    then show ?case
      by (cases "dropWhile (\<lambda>c. c \<noteq> 46) s = []"; subst find_fields.simps; simp only: Let_def if_True if_False simp_thms; intro keeps f)
  qed
  then show ?thesis unfolding luaL_findtable_def by (intro keeps)
qed

lemma keeps_buffers [keeps]:
  assumes c: "keeps_call call"
  shows "keeps_frame (luaL_addlstring E call B s)" "keeps_frame (luaL_pushresult E call B)" "keeps_frame (luaL_addvalue E call B)"
proof -
  have e: "keeps_frame (emptybuffer B)" for B unfolding emptybuffer_def by (intro keeps)
  have t: "keeps_frame (adjust_toget k E lvl n m)" for k lvl n m
    by (induction k arbitrary: n m) (unfold adjust_toget.simps, (intro keeps | assumption)+)
  have a: "keeps_frame (adjuststack E call B)" for B unfolding adjuststack_def by (intro keeps c t)
  have p: "keeps_frame (luaL_addchar E call B x)" for B x
    unfolding luaL_addchar_def luaL_prepbuffer_def by (intro keeps e a)
  show "keeps_frame (luaL_addlstring E call B s)"
    by (induction s arbitrary: B) (unfold luaL_addlstring.simps, (intro keeps p | assumption)+)
  show "keeps_frame (luaL_pushresult E call B)" "keeps_frame (luaL_addvalue E call B)"
    unfolding luaL_pushresult_def luaL_addvalue_def by (intro keeps c e a)+
qed

lemma keeps_loadbuffer [keeps]:
  assumes c: "keeps_call call"
  shows "keeps_frame (luaL_loadbuffer E call s n)"
proof -
  have e: "keeps_frame (compile_error call er)" for er
    by (cases er) (simp_all only: compile_error_def lua_error.case, (intro keeps c)+)
  have u: "keeps_frame (new_upvals k)" for k by (induction k) (unfold new_upvals.simps, (intro keeps | assumption)+)
  have "keeps_frame (f_parser E call s n)" unfolding f_parser_def by (intro keeps e u)
  then show ?thesis unfolding luaL_loadbuffer_def luaD_protectedparser_def by (intro keeps keeps_pcall)
qed

section \<open>Operations that raise the limit\<close>

lemma ckeeps_set_top: "(\<And>ci. ci_part (f ci) = ci_part ci) \<Longrightarrow> keeps_cframe (upd_ci f)"
  by (simp add: keeps_cframe_def upd_ci_def cframe_def same_rest_def frames_def wf_ci_def cur_ci_def ci_part_def)

lemma ckeeps_api [ckeeps]:
  assumes c: "keeps_call call"
  shows "keeps_cframe (lua_checkstack n)" "keeps_cframe (lua_call call m k)" "keeps_cframe (lua_pcall call m k h)"
    "keeps_cframe (luaL_needstack E call n mes)" "keeps_cframe (luaL_callmeta E call i ev)"
proof -
  have s: "keeps_cframe (upd_ci (\<lambda>ci. if int (ci_top ci) < z then ci\<lparr>ci_top := nat z\<rparr> else ci))"
    "keeps_cframe (upd_ci (\<lambda>ci. if ci_top ci \<le> t then ci\<lparr>ci_top := t\<rparr> else ci))" for z t
    by (rule ckeeps_set_top, simp add: ci_part_def)+
  have st: "keeps_cframe (lua_checkstack n)" for n
    unfolding lua_checkstack_def by (intro ckeeps s keeps_cframeI [OF keeps_checkstack])
  have ad: "keeps_cframe (adjustresults k)" for k unfolding adjustresults_def by (intro ckeeps s)
  have ca: "keeps_cframe (lua_call call m k)" for m k
    unfolding lua_call_def by (intro ckeeps ad keeps_cframeI [OF keeps_callD [OF c]])
  have pl: "keeps_frame (case pl of OnStack p \<Rightarrow> vret p | _ \<Rightarrow> vexc Crash)" for pl by (intro keeps)
  show "keeps_cframe (lua_checkstack n)" "keeps_cframe (lua_call call m k)" using st ca by simp_all
  show "keeps_cframe (lua_pcall call m k h)"
    unfolding lua_pcall_def
    by (intro ckeeps ad keeps_cframeI [OF keeps_index(3)] keeps_cframeI [OF pl] keeps_cframeI [OF keeps_pcall [OF keeps_callD [OF c]]])
  have er: "keeps_cframe (luaL_error E call msg)" for msg by (intro keeps_cframeI keeps c)
  show "keeps_cframe (luaL_needstack E call n mes)" unfolding luaL_needstack_def by (intro ckeeps st er)
  have ab: "keeps_cframe (abs_index i)" "keeps_cframe (luaL_getmetafield E i ev)" "keeps_cframe (lua_pushvalue i)" for i
    by (intro keeps_cframeI keeps)+
  show "keeps_cframe (luaL_callmeta E call i ev)" unfolding luaL_callmeta_def by (intro ckeeps ab ca)
qed

section \<open>The libraries\<close>

lemma ckeeps_base_plain:
  assumes c: "keeps_call call"
  shows "keeps_cframe (luaB_tonumber E call)" "keeps_cframe (luaB_type E call)" "keeps_cframe (luaB_error E call)"
    "keeps_cframe (luaB_assert E call)" "keeps_cframe (luaB_getmetatable E call)" "keeps_cframe (luaB_setmetatable E call)"
    "keeps_cframe (luaB_rawequal E call)" "keeps_cframe (luaB_rawget E call)" "keeps_cframe (luaB_rawset E call)"
    "keeps_cframe (luaB_next E call)" "keeps_cframe (luaB_pairs E call)" "keeps_cframe (ipairsaux E call)" "keeps_cframe (luaB_ipairs E call)"
    "keeps_cframe (luaB_select E call)" "keeps_cframe (luaB_loadstring E call)" "keeps_cframe (luaB_newproxy E call)"
    "keeps_cframe (luaB_getfenv E call)" "keeps_cframe (luaB_setfenv E call)"
proof -
  have g: "keeps_frame (getfunc E call b)" for b unfolding getfunc_def by (intro keeps c)
  show "keeps_cframe (luaB_tonumber E call)" "keeps_cframe (luaB_type E call)" "keeps_cframe (luaB_error E call)"
    "keeps_cframe (luaB_assert E call)" "keeps_cframe (luaB_getmetatable E call)" "keeps_cframe (luaB_setmetatable E call)"
    "keeps_cframe (luaB_rawequal E call)" "keeps_cframe (luaB_rawget E call)" "keeps_cframe (luaB_rawset E call)"
    "keeps_cframe (luaB_next E call)" "keeps_cframe (luaB_pairs E call)" "keeps_cframe (ipairsaux E call)" "keeps_cframe (luaB_ipairs E call)"
    "keeps_cframe (luaB_select E call)" "keeps_cframe (luaB_loadstring E call)" "keeps_cframe (luaB_newproxy E call)"
    "keeps_cframe (luaB_getfenv E call)" "keeps_cframe (luaB_setfenv E call)"
    unfolding luaB_tonumber_def luaB_type_def luaB_error_def luaB_assert_def luaB_getmetatable_def luaB_setmetatable_def
      luaB_rawequal_def luaB_rawget_def luaB_rawset_def luaB_next_def luaB_pairs_def ipairsaux_def luaB_ipairs_def luaB_select_def
      luaB_loadstring_def load_aux_def luaB_newproxy_def luaB_getfenv_def luaB_setfenv_def Let_def
    by (intro keeps_cframeI keeps c g)+
qed

lemma ckeeps_base_calls:
  assumes c: "keeps_call call"
  shows "keeps_cframe (luaB_tostring sp E call)" "keeps_cframe (luaB_pcall E call)" "keeps_cframe (luaB_xpcall E call)"
    "keeps_cframe (luaB_unpack E call)"
proof -
  have u: "keeps_frame (unpack_loop i n)" for i n by (induction n arbitrary: i) (unfold unpack_loop.simps, (intro keeps | assumption)+)
  show "keeps_cframe (luaB_tostring sp E call)" "keeps_cframe (luaB_pcall E call)" "keeps_cframe (luaB_xpcall E call)"
    "keeps_cframe (luaB_unpack E call)"
    unfolding luaB_tostring_def luaB_pcall_def luaB_xpcall_def luaB_unpack_def Let_def
    by ((rule ckeeps_api, rule c) | (rule keeps_cframeI, (intro keeps c u; fail)) | rule ckeeps)+
qed

lemma ckeeps_tab:
  assumes c: "keeps_call call"
  shows "keeps_cframe (foreachi E call)" "keeps_cframe (foreach n E call)" "keeps_cframe (maxn n E call)" "keeps_cframe (getn E call)"
    "keeps_cframe (setn E call)" "keeps_cframe (tinsert E call)" "keeps_cframe (tremove E call)" "keeps_cframe (tconcat E call)"
proof -
  have a: "keeps_frame (aux_getn E call k)" for k unfolding aux_getn_def by (intro keeps c)
  have fi: "keeps_cframe (foreachi_loop call i m)" for i m
    by (induction m arbitrary: i)
      (unfold foreachi_loop.simps,
        ((rule ckeeps_api, rule c) | assumption | (rule keeps_cframeI, (intro keeps c; fail)) | rule ckeeps)+)
  have fo: "keeps_cframe (foreach_loop m E call)" for m
    by (induction m)
      (unfold foreach_loop.simps,
        ((rule ckeeps_api, rule c) | assumption | (rule keeps_cframeI, (intro keeps c; fail)) | rule ckeeps)+)
  have mx: "keeps_frame (maxn_loop m E call v)" for m v
    by (induction m arbitrary: v) (unfold maxn_loop.simps, (intro keeps c | assumption)+)
  have mu: "keeps_frame (move_up E call p m)" "keeps_frame (tshift_down E call p m)" for p m
    by (induction m arbitrary: p) (unfold move_up.simps tshift_down.simps Let_def, (intro keeps c | assumption)+)
  have af: "keeps_frame (addfield E call b i)" for b i unfolding addfield_def by (intro keeps c)
  have cf: "keeps_frame (concat_fields E call sep b i m)" for sep b i m
    by (induction m arbitrary: b i) (unfold concat_fields.simps, (intro keeps c af | assumption)+)
  show "keeps_cframe (foreachi E call)" "keeps_cframe (foreach n E call)"
    unfolding foreachi_def foreach_def
    by ((rule fi fo) | (rule keeps_cframeI, (intro keeps c a; fail)) | rule ckeeps)+
  show "keeps_cframe (maxn n E call)" "keeps_cframe (getn E call)"
    "keeps_cframe (setn E call)" "keeps_cframe (tinsert E call)" "keeps_cframe (tremove E call)" "keeps_cframe (tconcat E call)"
    unfolding maxn_def getn_def setn_def tinsert_def tremove_def tconcat_def Let_def
    by (intro keeps_cframeI keeps c a mx mu af cf)+
qed

lemma lib_cfun_ok:
  assumes E: "cfun_ok E"
  shows "cfun_ok (with_libs sp n E)"
proof -
  have fs: "\<forall>p \<in> set (lib_funcs sp n). \<forall>g. snd p = Some g \<longrightarrow> (\<forall>call. keeps_call call \<longrightarrow> keeps_cframe (g E call))"
    by (simp add: lib_funcs_def base_funcs_def aux_funcs_def tab_funcs_def ckeeps_base_plain ckeeps_base_calls ckeeps_tab)
  have "keeps_cframe (lib_cfun sp n E f call)" if c: "keeps_call call" for f call
  proof (cases "if f < length (lib_funcs sp n) then snd (lib_funcs sp n ! f) else None")
    case None
    then show ?thesis using E c by (simp add: lib_cfun_def cfun_ok_def)
  next
    case (Some g)
    then have "f < length (lib_funcs sp n)" by (auto split: if_splits)
    then show ?thesis using fs Some c nth_mem by (fastforce simp: lib_cfun_def)
  qed
  then show ?thesis by (simp add: cfun_ok_def with_libs_def)
qed

end
