(* ===== verification/LApiProps.thy ===== *)
theory LApiProps
  imports LApiFrame LVmProps
begin

text \<open>
  What C functions can rely on: the stack operations of the API are operations on the list of the
  values of the running function, and the libraries keep calls balanced.
\<close>

section \<open>The values of a function\<close>

definition frame_values :: "lua_State \<Rightarrow> lvalue list" where
  "frame_values L = drop (L_base L) (take (L_top L) (L_stack L))"

text \<open>There are \<open>k\<close> places left above the values.\<close>

definition has_room :: "nat \<Rightarrow> lua_State \<Rightarrow> bool" where
  "has_room k L \<longleftrightarrow> L_base L \<le> L_top L \<and> L_top L + k \<le> length (L_stack L)"

text \<open>\<open>m\<close> turns these values into \<open>vs\<close>, and touches nothing below them.\<close>

definition becomes :: "lua_State \<Rightarrow> 'a vm \<Rightarrow> 'a \<Rightarrow> lvalue list \<Rightarrow> bool" where
  "becomes L m r vs \<longleftrightarrow>
     (\<exists>L'. m L = (Inr r, L') \<and> frame_values L' = vs \<and> has_room 0 L' \<and> L_base L' = L_base L \<and> L_base_ci L' = L_base_ci L \<and> L_ci L' = L_ci L \<and>
       L_tables L' = L_tables L \<and> take (L_base L) (L_stack L') = take (L_base L) (L_stack L))"

text \<open>The index of the value at position \<open>p\<close> of \<open>n\<close>, from below or from the top.\<close>

definition index_of_pos :: "nat \<Rightarrow> nat \<Rightarrow> int \<Rightarrow> bool" where
  "index_of_pos n p i \<longleftrightarrow> p < n \<and> (i = int p + 1 \<or> i = int p - int n \<and> LUA_REGISTRYINDEX < i)"

lemma length_overwrite: "i + length ys \<le> length xs \<Longrightarrow> length (overwrite xs i ys) = length xs"
  by (simp add: overwrite_def)

lemma nth_overwrite:
  "i + length ys \<le> length xs \<Longrightarrow> k < length xs \<Longrightarrow>
   overwrite xs i ys ! k = (if i \<le> k \<and> k < i + length ys then ys ! (k - i) else xs ! k)"
  by (auto simp: overwrite_def nth_append)

lemma take_overwrite: "k \<le> i \<Longrightarrow> i \<le> length xs \<Longrightarrow> take k (overwrite xs i ys) = take k xs"
  by (simp add: overwrite_def min_absorb1)

lemma shift_down_run:
  "p + n < length (L_stack L) \<Longrightarrow>
   shift_down p n L = (Inr (), L\<lparr>L_stack := overwrite (L_stack L) p (take n (drop (p + 1) (L_stack L)))\<rparr>)"
proof (induction n arbitrary: p L)
  case (Suc n)
  let ?s = "L_stack L"
  have "overwrite (?s[p := ?s ! Suc p]) (Suc p) (take n (drop (p + 2) ?s)) = overwrite ?s p (?s ! Suc p # take n (drop (p + 2) ?s))"
    using Suc.prems by (simp add: overwrite_Cons)
  moreover have "?s ! Suc p # take n (drop (p + 2) ?s) = take (Suc n) (drop (p + 1) ?s)"
    using Suc.prems by (simp add: Cons_nth_drop_Suc [symmetric])
  ultimately show ?case using Suc.prems by (simp add: stack_get_def stack_set_def Suc.IH vbind_def)
qed simp

lemma open_hole_run:
  "p + n < length (L_stack L) \<Longrightarrow>
   open_hole p n L = (Inr (), L\<lparr>L_stack := overwrite (L_stack L) (p + 1) (take n (drop p (L_stack L)))\<rparr>)"
proof (induction n arbitrary: L)
  case (Suc n)
  let ?s = "L_stack L" and ?t = "(L_stack L)[p + n + 1 := L_stack L ! (p + n)]"
  have "overwrite ?t (p + 1) (take n (drop p ?t)) = overwrite ?s (p + 1) (take (Suc n) (drop p ?s))"
  proof (rule nth_equalityI)
    show "length (overwrite ?t (p + 1) (take n (drop p ?t))) = length (overwrite ?s (p + 1) (take (Suc n) (drop p ?s)))"
      using Suc.prems by (simp add: length_overwrite)
  next
    fix k assume "k < length (overwrite ?t (p + 1) (take n (drop p ?t)))"
    then have "k < length ?s" using Suc.prems by (simp add: length_overwrite)
    then show "overwrite ?t (p + 1) (take n (drop p ?t)) ! k = overwrite ?s (p + 1) (take (Suc n) (drop p ?s)) ! k"
      using Suc.prems by (cases "p + 1 \<le> k") (auto simp: nth_overwrite nth_list_update less_Suc_eq dest!: le_Suc_ex)
  qed
  then show ?case using Suc.prems by (simp add: stack_get_def stack_set_def Suc.IH vbind_def)
qed simp

lemma frame_values_length: "has_room k L \<Longrightarrow> length (frame_values L) = L_top L - L_base L"
  by (simp add: frame_values_def has_room_def)

lemma index2adr_pos:
  assumes "has_room k L" and "index_of_pos (length (frame_values L)) p i"
  shows "index2adr i L = (Inr (OnStack (L_base L + p)), L)"
proof -
  have p: "p < L_top L - L_base L" using assms by (simp add: index_of_pos_def frame_values_length)
  then have lt: "\<not> L_top L \<le> L_base L + p" by simp
  show ?thesis
  proof (cases "i = int p + 1")
    case True
    then show ?thesis using lt by (simp add: index2adr_def vbind_def)
  next
    case False
    define n where "n = L_top L - L_base L"
    have n: "L_top L = L_base L + n" using p by (simp add: n_def)
    have "p < n" and i: "i = int p - int n" "LUA_REGISTRYINDEX < i"
      using assms False n by (simp_all add: index_of_pos_def frame_values_length)
    then have "\<not> 0 < i" "- i \<le> int (L_top L)" "nat (int (L_top L) + i) = L_base L + p" by (simp_all add: n nat_eq_iff)
    then show ?thesis using i(2) by (simp add: index2adr_def vbind_def)
  qed
qed

lemma frame_values_nth: "has_room k L \<Longrightarrow> p < length (frame_values L) \<Longrightarrow> frame_values L ! p = L_stack L ! (L_base L + p)"
  by (simp add: frame_values_def has_room_def)

lemma frame_values_split: "has_room k L \<Longrightarrow> take (L_top L) (L_stack L) = take (L_base L) (L_stack L) @ frame_values L"
  using append_take_drop_id [of "L_base L" "take (L_top L) (L_stack L)"]
  by (simp add: frame_values_def has_room_def min_absorb1)

lemma becomesI:
  assumes m: "m L = (Inr r, L\<lparr>L_stack := s, L_top := t\<rparr>)"
    and s: "take t s = take (L_base L) (L_stack L) @ vs" and b: "L_base L \<le> length (L_stack L)" "t \<le> length s"
  shows "becomes L m r vs"
proof -
  have "L_base L \<le> length (take t s)" using s b(1) by simp
  then have *: "L_base L \<le> t" "take (L_base L) s = take (L_base L) (take t s)" by (simp_all add: min_absorb1)
  note *(2)
  also have "take (L_base L) (take t s) = take (L_base L) (L_stack L)" using s b by simp
  finally show ?thesis using m s b *(1) by (simp add: becomes_def frame_values_def has_room_def)
qed

lemma stack_split:
  assumes r: "has_room 1 L"
  obtains pre x post where "L_stack L = pre @ frame_values L @ x # post" and "length pre = L_base L"
    and "L_top L = L_base L + length (frame_values L)"
proof
  have lt: "L_top L < length (L_stack L)" using r by (simp add: has_room_def)
  have "L_stack L = take (L_top L) (L_stack L) @ L_stack L ! L_top L # drop (Suc (L_top L)) (L_stack L)"
    by (rule id_take_nth_drop [OF lt])
  also have "\<dots> = take (L_base L) (L_stack L) @ frame_values L @ L_stack L ! L_top L # drop (Suc (L_top L)) (L_stack L)"
    using frame_values_split [OF r] by simp
  finally show "L_stack L = take (L_base L) (L_stack L) @ frame_values L @ L_stack L ! L_top L # drop (Suc (L_top L)) (L_stack L)" .
  show "length (take (L_base L) (L_stack L)) = L_base L" "L_top L = L_base L + length (frame_values L)"
    using r by (simp_all add: frame_values_length [OF r] has_room_def)
qed

lemma stack_split_at:
  assumes r: "has_room 1 L" and p: "p < length (frame_values L)"
  obtains pre us v ws x post where "L_stack L = pre @ us @ v # ws @ x # post" and "length pre = L_base L"
    and "length us = p" and "frame_values L = us @ v # ws" and "L_top L = length (pre @ us @ v # ws)"
proof -
  obtain pre x post where s: "L_stack L = pre @ frame_values L @ x # post" "length pre = L_base L"
    "L_top L = L_base L + length (frame_values L)" by (rule stack_split [OF r])
  define us v ws where "us = take p (frame_values L)" and "v = frame_values L ! p" and "ws = drop (Suc p) (frame_values L)"
  have vs: "frame_values L = us @ v # ws" unfolding us_def v_def ws_def by (rule id_take_nth_drop [OF p])
  show ?thesis
  proof (rule that)
    show "L_stack L = pre @ us @ v # ws @ x # post" using s(1) by (simp add: vs)
    show "length us = p" using p by (simp add: us_def)
    show "L_top L = length (pre @ us @ v # ws)" using s(2,3) by (simp add: vs)
  qed (rule s(2), rule vs)
qed

lemma overwrite_at: "length xs = i \<Longrightarrow> overwrite (xs @ zs) i ys = xs @ ys @ drop (length ys) zs"
  by (simp add: overwrite_def)

lemma value_at_pos:
  assumes "has_room 1 L" and "index_of_pos (length (frame_values L)) p i"
  shows "value_at i L = (Inr (frame_values L ! p), L)"
proof -
  have p: "p < length (frame_values L)" using assms(2) by (simp add: index_of_pos_def)
  then have "L_base L + p < length (L_stack L)" using assms(1) unfolding frame_values_length [OF assms(1)] has_room_def by arith
  then show ?thesis
    using index2adr_pos [OF assms] frame_values_nth [OF assms(1) p] by (simp add: value_at_def vbind_def get_place_def stack_get_def)
qed

lemma push_becomes:
  assumes r: "has_room 1 L"
  shows "becomes L (luaA_pushobject v) () (frame_values L @ [v])"
proof -
  obtain pre x post where s: "L_stack L = pre @ frame_values L @ x # post" "length pre = L_base L"
    "L_top L = L_base L + length (frame_values L)" by (rule stack_split [OF r])
  have "luaA_pushobject v L = (Inr (), L\<lparr>L_stack := (L_stack L)[L_top L := v], L_top := L_top L + 1\<rparr>)"
    using r by (simp add: luaA_pushobject_def stack_set_def set_top_def has_room_def)
  moreover have "(L_stack L)[L_top L := v] = pre @ frame_values L @ v # post"
    unfolding s(1,3) using s(2) by (simp add: list_update_append)
  ultimately have "luaA_pushobject v L = (Inr (), L\<lparr>L_stack := pre @ frame_values L @ v # post, L_top := L_top L + 1\<rparr>)" by simp
  then show ?thesis
  proof (rule becomesI)
    have "take (L_top L + 1) (pre @ frame_values L @ v # post) = pre @ frame_values L @ [v]" using s(2,3) by simp
    moreover have "take (L_base L) (L_stack L) = pre" unfolding s(1) using s(2) by simp
    ultimately show "take (L_top L + 1) (pre @ frame_values L @ v # post) = take (L_base L) (L_stack L) @ frame_values L @ [v]" by simp
    show "L_base L \<le> length (L_stack L)" using r by (simp add: has_room_def)
    show "L_top L + 1 \<le> length (pre @ frame_values L @ v # post)" using s by simp
  qed
qed

lemma pushvalue_becomes:
  assumes r: "has_room 1 L" and i: "index_of_pos (length (frame_values L)) p i"
  shows "becomes L (lua_pushvalue i) () (frame_values L @ [frame_values L ! p])"
  using push_becomes [OF r] value_at_pos [OF r i] by (simp add: becomes_def lua_pushvalue_def vbind_def)

lemma insert_becomes:
  assumes r: "has_room 1 L" and i: "index_of_pos (length (frame_values L)) p i"
  shows "becomes L (lua_insert i) ()
    (take p (frame_values L) @ last (frame_values L) # drop p (butlast (frame_values L)))"
proof -
  have p: "p < length (frame_values L)" using i by (simp add: index_of_pos_def)
  obtain pre us v ws x post where s: "L_stack L = pre @ us @ v # ws @ x # post" "length pre = L_base L" "length us = p"
    "frame_values L = us @ v # ws" "L_top L = length (pre @ us @ v # ws)" by (rule stack_split_at [OF r p])
  define y where "y = last (v # ws)"
  have y: "(v # ws @ post) ! length ws = y"
    unfolding y_def using nth_append [of "v # ws" post "length ws"] by (simp add: last_conv_nth)
  let ?s = "pre @ us @ v # v # ws @ post" and ?t = "pre @ us @ y # v # ws @ post"
  have hole: "open_hole (L_base L + p) (L_top L - (L_base L + p)) L = (Inr (), L\<lparr>L_stack := ?s\<rparr>)"
    using s overwrite_at [of "pre @ us @ [v]" "L_base L + p + 1" "ws @ x # post" "v # ws"]
      open_hole_run [of "L_base L + p" "L_top L - (L_base L + p)" L] by (simp add: drop_append)
  have top: "L_top L < length ?s" "?s ! L_top L = y" using s y by (auto simp: nth_append)
  have "lua_insert i L = (Inr (), L\<lparr>L_stack := ?s[L_base L + p := y]\<rparr>)"
    using index2adr_pos [OF r i] hole top s by (simp add: lua_insert_def vbind_def stack_get_def stack_set_def)
  moreover have "?s[L_base L + p := y] = ?t" using s by (simp add: list_update_append)
  ultimately have "lua_insert i L = (Inr (), L\<lparr>L_stack := ?t, L_top := L_top L\<rparr>)" by simp
  then show ?thesis
  proof (rule becomesI)
    have "take (length ws) ((v # ws) @ post) = butlast (v # ws)" unfolding take_append by (simp add: butlast_conv_take)
    then have "take (L_top L) ?t = pre @ us @ y # butlast (v # ws)" using s(5) by (simp del: butlast.simps)
    moreover have "take (L_base L) (L_stack L) = pre" using s by simp
    ultimately show "take (L_top L) ?t = take (L_base L) (L_stack L) @
        take p (frame_values L) @ last (frame_values L) # drop p (butlast (frame_values L))"
      using s(3,4) by (simp add: butlast_append y_def)
    show "L_base L \<le> length (L_stack L)" using r by (simp add: has_room_def)
    show "L_top L \<le> length ?t" using s by simp
  qed
qed

lemma remove_becomes:
  assumes r: "has_room 1 L" and i: "index_of_pos (length (frame_values L)) p i"
  shows "becomes L (lua_remove i) () (take p (frame_values L) @ drop (p + 1) (frame_values L))"
proof -
  have p: "p < length (frame_values L)" using i by (simp add: index_of_pos_def)
  obtain pre us v ws x post where s: "L_stack L = pre @ us @ v # ws @ x # post" "length pre = L_base L" "length us = p"
    "frame_values L = us @ v # ws" "L_top L = length (pre @ us @ v # ws)" by (rule stack_split_at [OF r p])
  let ?s = "pre @ us @ ws @ drop (length ws) (v # ws @ x # post)"
  have "shift_down (L_base L + p) (length ws) L = (Inr (), L\<lparr>L_stack := ?s\<rparr>)"
    using s overwrite_at [of "pre @ us" "L_base L + p" "v # ws @ x # post" ws]
      shift_down_run [of "L_base L + p" "length ws" L] by simp
  then have "lua_remove i L = (Inr (), L\<lparr>L_stack := ?s, L_top := L_top L - 1\<rparr>)"
    using index2adr_pos [OF r i] s by (simp add: lua_remove_def vbind_def set_top_def)
  then show ?thesis
  proof (rule becomesI)
    show "take (L_top L - 1) ?s = take (L_base L) (L_stack L) @ take p (frame_values L) @ drop (p + 1) (frame_values L)"
      using s by simp
    show "L_base L \<le> length (L_stack L)" using r by (simp add: has_room_def)
    show "L_top L - 1 \<le> length ?s" using s by simp
  qed
qed

lemma replace_becomes:
  assumes r: "has_room 1 L" and i: "index_of_pos (length (frame_values L)) p i"
  shows "becomes L (lua_replace call i) () (butlast ((frame_values L)[p := last (frame_values L)]))"
proof -
  have p: "p < length (frame_values L)" using i by (simp add: index_of_pos_def)
  obtain pre x post where s: "L_stack L = pre @ frame_values L @ x # post" "length pre = L_base L"
    "L_top L = L_base L + length (frame_values L)" by (rule stack_split [OF r])
  define vs where "vs = frame_values L"
  have vs: "vs \<noteq> []" "p < length vs" using p by (auto simp: vs_def)
  have e: "i \<noteq> LUA_ENVIRONINDEX" using i by (auto simp: index_of_pos_def LUA_ENVIRONINDEX_def LUA_REGISTRYINDEX_def)
  have "value_below 1 L = (Inr (last vs), L)"
    using s vs by (simp add: value_below_def vbind_def stack_get_def vs_def [symmetric] nth_append last_conv_nth)
      (auto simp: neq_Nil_conv)
  then have "lua_replace call i L = (Inr (), L\<lparr>L_stack := (L_stack L)[L_base L + p := last vs], L_top := L_top L - 1\<rparr>)"
    using index2adr_pos [OF r i] s(3) p e r vs
    by (simp add: vs_def [symmetric] lua_replace_def vbind_def set_place_def stack_set_def add_top_def set_top_def has_room_def nat_diff_distrib')
  moreover have "(L_stack L)[L_base L + p := last vs] = pre @ vs[p := last vs] @ x # post"
    unfolding s(1) vs_def [symmetric] using s(2) vs by (simp add: list_update_append)
  ultimately have "lua_replace call i L = (Inr (), L\<lparr>L_stack := pre @ vs[p := last vs] @ x # post, L_top := L_top L - 1\<rparr>)" by simp
  then show ?thesis
  proof (rule becomesI)
    show "take (L_top L - 1) (pre @ vs[p := last vs] @ x # post) = take (L_base L) (L_stack L) @ butlast ((frame_values L)[p := last (frame_values L)])"
      using s vs by (simp add: vs_def [symmetric] butlast_conv_take)
    show "L_base L \<le> length (L_stack L)" using r by (simp add: has_room_def)
    show "L_top L - 1 \<le> length (pre @ vs[p := last vs] @ x # post)" using s vs by (simp add: vs_def [symmetric])
  qed
qed

lemma settop_becomes:
  assumes r: "has_room 1 L" and k: "L_base L + k \<le> length (L_stack L)"
  shows "becomes L (lua_settop (int k)) () (take k (frame_values L) @ replicate (k - length (frame_values L)) TNil)"
proof -
  obtain pre x post where s: "L_stack L = pre @ frame_values L @ x # post" "length pre = L_base L"
    "L_top L = L_base L + length (frame_values L)" by (rule stack_split [OF r])
  define n where "n = k - length (frame_values L)"
  let ?s = "pre @ frame_values L @ replicate n TNil @ drop n (x # post)"
  have len: "L_top L + n \<le> length (L_stack L)" using r k s(3) by (auto simp: n_def has_room_def)
  have "overwrite (L_stack L) (L_top L) (replicate n TNil) = ?s"
    using overwrite_at [of "pre @ frame_values L" "L_top L" "x # post" "replicate n TNil"] s by simp
  then have "lua_settop (int k) L = (Inr (), L\<lparr>L_stack := ?s, L_top := L_base L + k\<rparr>)"
    using clear_stack_run [OF len] s(3) by (simp add: lua_settop_def vbind_def set_top_def n_def)
  then show ?thesis
  proof (rule becomesI)
    show "take (L_base L + k) ?s = take (L_base L) (L_stack L) @ take k (frame_values L) @ replicate (k - length (frame_values L)) TNil"
      using s(1,2) by (simp add: n_def take_append)
    show "L_base L \<le> length (L_stack L)" using r by (simp add: has_room_def)
    show "L_base L + k \<le> length ?s" using k s by (simp add: n_def)
  qed
qed

lemma cut_becomes:
  assumes r: "has_room 1 L" and k: "k \<le> length (frame_values L)"
    and m: "lua_settop i L = (Inr (), L\<lparr>L_top := L_base L + k\<rparr>)"
  shows "becomes L (lua_settop i) () (take k (frame_values L))"
proof -
  have b: "L_base L + k \<le> L_top L" "L_base L \<le> L_top L" "L_top L \<le> length (L_stack L)"
    using k r frame_values_length [OF r] by (auto simp: has_room_def)
  have "lua_settop i L = (Inr (), L\<lparr>L_stack := L_stack L, L_top := L_base L + k\<rparr>)" using m by simp
  then show ?thesis
  proof (rule becomesI)
    have "take (L_base L + k) (L_stack L) = take (L_base L + k) (take (L_top L) (L_stack L))" using b by (simp add: min_absorb1)
    also have "\<dots> = take (L_base L) (L_stack L) @ take k (frame_values L)"
      unfolding frame_values_split [OF r] using b by (simp add: min_def)
    finally show "take (L_base L + k) (L_stack L) = take (L_base L) (L_stack L) @ take k (frame_values L)" .
  qed (use b in simp_all)
qed

text \<open>An index from the top, and \<open>lua_pop\<close>.\<close>

lemma settop_index_becomes:
  assumes r: "has_room 1 L" and i: "index_of_pos (length (frame_values L)) p i"
  shows "becomes L (lua_settop i) () (take (p + 1) (frame_values L))"
proof (cases "i = int p + 1")
  case True
  have p: "p < length (frame_values L)" using i by (simp add: index_of_pos_def)
  then have "L_base L + (p + 1) \<le> length (L_stack L)"
    using r unfolding frame_values_length [OF r] has_room_def by linarith
  from settop_becomes [OF r this] show ?thesis using True p by (simp add: add.commute)
next
  case False
  then have i: "i = int p - int (length (frame_values L))" "p < length (frame_values L)" using i by (auto simp: index_of_pos_def)
  show ?thesis
    by (rule cut_becomes [OF r]) (use i frame_values_length [OF r] r in
      \<open>auto simp: lua_settop_def add_top_def vbind_def set_top_def has_room_def\<close>)
qed

lemma pop_becomes:
  assumes r: "has_room 1 L" and m: "m \<le> length (frame_values L)"
  shows "becomes L (lua_pop (int m)) () (take (length (frame_values L) - m) (frame_values L))"
  unfolding lua_pop_def
  by (rule cut_becomes [OF r]) (use m frame_values_length [OF r] r in
      \<open>auto simp: lua_settop_def add_top_def vbind_def set_top_def has_room_def\<close>)

lemma gettop_value: "has_room m L \<Longrightarrow> lua_gettop L = (Inr (int (length (frame_values L))), L)"
  by (simp add: lua_gettop_def vbind_def frame_values_length [of m]) (simp add: has_room_def of_nat_diff)

section \<open>Properties\<close>

text \<open>C35: The stack operations of the C API are operations on a list. Seen as the list of the values of
  the running function, with an index that counts from the bottom or from the top, \<open>lua_pushvalue\<close>
  appends a copy, \<open>lua_insert\<close> moves the last value to a place and shifts the others up,
  \<open>lua_remove\<close> deletes a value, \<open>lua_replace\<close> moves the last value over another and
  \<open>lua_settop\<close> cuts the list behind the value at an index of either kind or fills it with nils up to
  a length, and \<open>lua_pop\<close> drops as many of the last values as it is told; nothing below the values
  changes.\<close>

theorem stack_operations_are_list_operations:
  assumes "has_room 1 L" and "index_of_pos (length (frame_values L)) p i" and "L_base L + k \<le> length (L_stack L)"
    and "m \<le> length (frame_values L)"
  shows "value_at i L = (Inr (frame_values L ! p), L) \<and> lua_gettop L = (Inr (int (length (frame_values L))), L) \<and>
    becomes L (lua_pushvalue i) () (frame_values L @ [frame_values L ! p]) \<and>
    becomes L (lua_insert i) () (take p (frame_values L) @ last (frame_values L) # drop p (butlast (frame_values L))) \<and>
    becomes L (lua_remove i) () (take p (frame_values L) @ drop (p + 1) (frame_values L)) \<and>
    becomes L (lua_replace call i) () (butlast ((frame_values L)[p := last (frame_values L)])) \<and>
    becomes L (lua_settop (int k)) () (take k (frame_values L) @ replicate (k - length (frame_values L)) TNil) \<and>
    becomes L (lua_settop i) () (take (p + 1) (frame_values L)) \<and>
    becomes L (lua_pop (int m)) () (take (length (frame_values L) - m) (frame_values L))"
  using value_at_pos [OF assms(1,2)] gettop_value [OF assms(1)] pushvalue_becomes [OF assms(1,2)] insert_becomes [OF assms(1,2)]
    remove_becomes [OF assms(1,2)] replace_becomes [OF assms(1,2)] settop_becomes [OF assms(1,3)]
    settop_index_becomes [OF assms(1,2)] pop_becomes [OF assms(1,4)] by blast

text \<open>Three numbers on the stack of the running function.\<close>

definition three_values :: lua_State where
  "three_values = state0\<lparr>L_stack := TNil # map (\<lambda>i. TNumber (cast_num i)) [1, 2, 3] @ replicate 42 TNil, L_top := 4\<rparr>"

lemma stack_operations_are_list_operations_witness:
  "becomes three_values (lua_insert (- 3)) () (map (\<lambda>i. TNumber (cast_num i)) [3, 1, 2]) \<and>
   becomes three_values (lua_remove 2) () (map (\<lambda>i. TNumber (cast_num i)) [1, 3]) \<and>
   becomes three_values (lua_settop (- 3)) () [TNumber (cast_num 1)] \<and>
   becomes three_values (lua_pop 1) () (map (\<lambda>i. TNumber (cast_num i)) [1, 2])"
proof -
  have v: "frame_values three_values = map (\<lambda>i. TNumber (cast_num i)) [1, 2, 3]"
    by (simp add: three_values_def state0_def frame_values_def numeral_3_eq_3)
  have r: "has_room 1 three_values" "L_base three_values + 0 \<le> length (L_stack three_values)"
    by (simp_all add: three_values_def state0_def has_room_def)
  have i: "index_of_pos (length (frame_values three_values)) 0 (- 3)" "index_of_pos (length (frame_values three_values)) 1 2"
    by (simp_all add: v index_of_pos_def LUA_REGISTRYINDEX_def)
  have m: "1 \<le> length (frame_values three_values)" by (simp add: v)
  show ?thesis
    using stack_operations_are_list_operations [OF r(1) i(1) r(2) m] stack_operations_are_list_operations [OF r(1) i(2) r(2) m]
    by (simp add: v)
qed

text \<open>A call of \<open>pcall\<close> with \<open>error\<close>.\<close>

definition pcall_state :: lua_State where
  "pcall_state = state0\<lparr>L_closures := (\<lambda>_. None)(1 \<mapsto> CClosure 0 11 [], 2 \<mapsto> CClosure 0 3 []),
     L_stack := TNil # TGC (GFunction 1) # TGC (GFunction 2) # TBoolean True # replicate 42 TNil, L_top := 4\<rparr>"

section \<open>pcall\<close>

text \<open>The value that stands for an error: what was on the top, or a fixed message.\<close>

definition error_value :: "throw_status \<Rightarrow> lua_State \<Rightarrow> lvalue" where
  "error_value c L =
     (case c of
        LUA_ERRMEM \<Rightarrow> str_val (bytes ''not enough memory'')
      | LUA_ERRERR \<Rightarrow> str_val (bytes ''error in error handling'')
      | _ \<Rightarrow> L_stack L ! (L_top L - 1))"

lemma seterrorobj_run:
  "t < length (L_stack L) \<Longrightarrow> c \<in> {LUA_ERRRUN, LUA_ERRSYNTAX} \<longrightarrow> 0 < L_top L \<and> L_top L \<le> length (L_stack L) \<Longrightarrow>
   luaD_seterrorobj (status_code c) t L = (Inr (), L\<lparr>L_stack := (L_stack L)[t := error_value c L], L_top := t + 1\<rparr>)"
  by (cases c) (auto simp: luaD_seterrorobj_def error_value_def vbind_def stack_set_def stack_get_def set_top_def)

lemma restore_run: "\<exists>L'. restore_stack_limit L = (Inr (), L') \<and> L_stack L' = L_stack L \<and> L_top L' = L_top L"
  by (auto simp: restore_stack_limit_def realloc_ci_def vbind_def)

lemma pcall_error_run:
  assumes f: "f (L\<lparr>L_errfunc := eh\<rparr>) = (Inl (Throw c), L1)" and t: "t < length (L_stack L1)"
    and obj: "c \<in> {LUA_ERRRUN, LUA_ERRSYNTAX} \<longrightarrow> 0 < L_top L1 \<and> L_top L1 \<le> length (L_stack L1)"
  shows "\<exists>L2. luaD_pcall f t eh L = (Inr (status_code c), L2) \<and> L_top L2 = t + 1 \<and>
    L_stack L2 = (L_stack L1)[t := error_value c L1]"
proof -
  define K where "K = up_store (luaF_close (up_view L1) t) L1"
  have K: "L_stack K = L_stack L1" "L_top K = L_top L1"
    using stk_close [of "up_view L1" t] by (simp_all add: K_def up_store_def up_view_def)
  then have ev: "error_value c K = error_value c L1" by (cases c) (simp_all add: error_value_def)
  have ne: "status_code c \<noteq> 0" by (cases c) simp_all
  define K2 where "K2 = K\<lparr>L_stack := (L_stack K)[t := error_value c K], L_top := t + 1, L_nCcalls := L_nCcalls L, L_ci := L_ci L\<rparr>"
  obtain K3 where "restore_stack_limit (K2\<lparr>L_base := ci_base (cur_ci K2), L_savedpc := ci_savedpc (cur_ci K2)\<rparr>) = (Inr (), K3)"
      "L_stack K3 = L_stack K2" "L_top K3 = L_top K2"
    using restore_run [of "K2\<lparr>L_base := ci_base (cur_ci K2), L_savedpc := ci_savedpc (cur_ci K2)\<rparr>"] by auto
  then show ?thesis
    using f t obj seterrorobj_run [of t K c] ne
    by (simp add: luaD_pcall_def luaD_rawrunprotected_def vbind_def close_upvals_def K_def [symmetric] K K2_def ev)
qed

text \<open>What \<open>pcall\<close> does with the values that the protected call has left.\<close>

lemma pcall_tail:
  assumes r: "has_room 2 L2"
  shows "\<exists>L'. vthen (adjustresults LUA_MULTRET) (vthen (lua_pushboolean b) (vthen (lua_insert 1) lua_gettop)) L2 =
      (Inr (int (length (frame_values L2)) + 1), L') \<and> frame_values L' = TBoolean b # frame_values L2"
proof -
  define L3 where "L3 = snd (adjustresults LUA_MULTRET L2)"
  have L3: "adjustresults LUA_MULTRET L2 = (Inr (), L3)" "L_stack L3 = L_stack L2" "L_top L3 = L_top L2" "L_base L3 = L_base L2"
    by (simp_all add: L3_def adjustresults_def vbind_def upd_ci_def)
  then have r3: "has_room 2 L3" "has_room 1 L3" and v3: "frame_values L3 = frame_values L2"
    using r by (simp_all add: has_room_def frame_values_def)
  obtain L4 where p4: "lua_pushboolean b L3 = (Inr (), L4)" "frame_values L4 = frame_values L2 @ [TBoolean b]"
    using push_becomes [OF r3(2), of "TBoolean b"] v3 by (auto simp: becomes_def lua_pushboolean_def)
  have "L4 = L3\<lparr>L_stack := (L_stack L3)[L_top L3 := TBoolean b], L_top := L_top L3 + 1\<rparr>"
    using p4(1) r3 by (simp add: lua_pushboolean_def luaA_pushobject_def stack_set_def set_top_def has_room_def)
  then have r4: "has_room 1 L4" using r3(1) by (simp add: has_room_def)
  have "becomes L4 (lua_insert 1) () (TBoolean b # frame_values L2)"
    using insert_becomes [OF r4, of 0 1] by (simp add: p4(2) index_of_pos_def)
  then obtain L5 where p5: "lua_insert 1 L4 = (Inr (), L5)" "frame_values L5 = TBoolean b # frame_values L2" "has_room 0 L5"
    by (auto simp: becomes_def)
  then show ?thesis using L3(1) p4(1) gettop_value [OF p5(3)] by (auto simp: vbind_def)
qed

lemma pcall_call:
  assumes r: "has_room 2 L" and nv: "frame_values L \<noteq> []"
    and p: "luaD_pcall (luaD_call fuel E (L_base L) LUA_MULTRET) (L_base L) 0 L = (Inr s, L2)"
  shows "luaB_pcall E (luaD_call fuel E) L =
    vthen (adjustresults LUA_MULTRET) (vthen (lua_pushboolean (s = 0)) (vthen (lua_insert 1) lua_gettop)) L2"
proof -
  let ?call = "luaD_call fuel E" and ?b = "L_base L"
  have r1: "has_room 1 L" using r by (simp add: has_room_def)
  have "0 < length (frame_values L)" using nv by simp
  then have len: "length (frame_values L) = L_top L - ?b" "0 < length (frame_values L)" "?b \<le> L_top L"
    using r frame_values_length [OF r] by (simp_all add: has_room_def)
  then have n: "L_top L - length (frame_values L) = ?b" "length (frame_values L) \<le> L_top L"
    "nat (int (length (frame_values L)) - 1) + 1 = length (frame_values L)" "?b < L_top L"
    by auto
  have i1: "index_of_pos (length (frame_values L)) 0 1" using nv by (simp add: index_of_pos_def)
  have "index2adr 1 L = (Inr (OnStack ?b), L)" using index2adr_pos [OF r1 i1] by simp
  moreover have "ttype v \<noteq> LUA_TNONE" for v :: lvalue
    by (cases v rule: ttype.cases; (cases "case v of TGC g \<Rightarrow> g | _ \<Rightarrow> undefined")?) (auto simp: LUA_TNONE_def)
  moreover have "?b < length (L_stack L)" using r n(4) by (auto simp: has_room_def)
  ultimately have any: "luaL_checkany E ?call 1 L = (Inr (), L)"
    by (simp add: luaL_checkany_def lua_type_def vbind_def get_place_def stack_get_def)
  show ?thesis
    using any gettop_value [OF r1] n p by (simp add: luaB_pcall_def lua_pcall_def vbind_def adjustresults_def upd_ci_def)
qed

text \<open>C36: \<open>pcall\<close> returns whenever the called function ends. When the function raises an error,
  of the program, of the memory or of the error handler, \<open>pcall\<close> returns exactly two values, false
  and the error object, which is the value that was raised (it lies on the stack) or the fixed message
  for an error of the memory or of the error handler. When the function returns, \<open>pcall\<close> returns
  true and its results.\<close>

theorem pcall_catches_errors:
  assumes "cfun_ok E" and "wf_ci L" and "has_room 2 L" and "frame_values L \<noteq> []"
    and "luaD_call fuel E (L_base L) LUA_MULTRET (L\<lparr>L_errfunc := 0\<rparr>) = (r, L1)"
  shows "case r of
      Inl (Throw c) \<Rightarrow>
        (c \<in> {LUA_ERRRUN, LUA_ERRSYNTAX} \<longrightarrow> 0 < L_top L1 \<and> L_top L1 \<le> length (L_stack L1)) \<longrightarrow>
        (\<exists>L'. luaB_pcall E (luaD_call fuel E) L = (Inr 2, L') \<and> frame_values L' = [TBoolean False, error_value c L1])
    | Inl _ \<Rightarrow> True
    | Inr _ \<Rightarrow> has_room 2 L1 \<longrightarrow>
        (\<exists>L'. luaB_pcall E (luaD_call fuel E) L = (Inr (int (length (frame_values L1)) + 1), L') \<and>
          frame_values L' = TBoolean True # frame_values L1)"
proof -
  let ?b = "L_base L" and ?f = "luaD_call fuel E (L_base L) LUA_MULTRET" and ?L0 = "L\<lparr>L_errfunc := 0\<rparr>"
  have k: "keeps_frame ?f" using keeps_callD [OF luaD_call_ok [OF assms(1)]] .
  have wf0: "wf_ci ?L0" using assms(2) by (simp add: wf_ci_def cur_ci_def)
  have fr: "frame L L2" if "luaD_pcall ?f ?b 0 L = (Inr s, L2)" for s L2
    using keeps_frameD [OF keeps_pcall [OF k] assms(2) that] .
  have "0 < length (frame_values L)" using assms(4) by simp
  then have top: "?b < L_top L" unfolding frame_values_length [OF assms(3)] by simp
  have thrown: ?thesis if r: "r = Inl (Throw c)" for c
  proof -
    have "triple (safe_below ?L0) ?L0 ?f (\<lambda>_. frame ?L0)" using k wf0 by (simp add: keeps_frame_def)
    then have "length (L_stack L) \<le> length (L_stack L1)"
      using assms(5) by (simp add: triple_def r safe_below_def unwound_def)
    then have t: "?b < length (L_stack L1)" using top assms(3) by (simp add: has_room_def)
    have "\<exists>L'. luaB_pcall E (luaD_call fuel E) L = (Inr 2, L') \<and> frame_values L' = [TBoolean False, error_value c L1]"
      if obj: "c \<in> {LUA_ERRRUN, LUA_ERRSYNTAX} \<longrightarrow> 0 < L_top L1 \<and> L_top L1 \<le> length (L_stack L1)"
    proof -
      obtain L2 where L2: "luaD_pcall ?f ?b 0 L = (Inr (status_code c), L2)" "L_top L2 = ?b + 1"
          "L_stack L2 = (L_stack L1)[?b := error_value c L1]"
        using pcall_error_run [where f = ?f and L = L and eh = 0, OF assms(5) [unfolded r] t obj] by blast
      have b: "L_base L2 = ?b" "length (L_stack L) \<le> length (L_stack L2)"
        using fr [OF L2(1)] by (simp_all add: frame_def same_rest_def)
      have "frame_values L2 = [error_value c L1]"
        using t by (simp add: frame_values_def L2 b take_Suc_conv_app_nth)
      moreover have "has_room 2 L2" using assms(3) top b L2(2) by (simp add: has_room_def)
      ultimately show ?thesis using pcall_tail [of L2 False] pcall_call [OF assms(3,4) L2(1)] by simp
    qed
    then show ?thesis by (simp add: r)
  qed
  have returned: ?thesis if r: "r = Inr u" for u
  proof -
    let ?L2 = "L1\<lparr>L_errfunc := L_errfunc L\<rparr>"
    have L2: "luaD_pcall ?f ?b 0 L = (Inr 0, ?L2)"
      using assms(5) r by (simp add: luaD_pcall_def luaD_rawrunprotected_def vbind_def)
    have v: "frame_values ?L2 = frame_values L1" "has_room 2 ?L2 = has_room 2 L1" by (simp_all add: frame_values_def has_room_def)
    show ?thesis using pcall_tail [of ?L2 True] pcall_call [OF assms(3,4) L2] v by (simp add: r)
  qed
  show ?thesis
  proof (cases r)
    case (Inl e)
    then show ?thesis using thrown by (cases e) simp_all
  next
    case (Inr u)
    then show ?thesis by (rule returned)
  qed
qed


text \<open>\<open>pcall\<close> running with \<open>error\<close> and its argument on the stack.\<close>

definition in_pcall :: lua_State where
  "in_pcall = pcall_state\<lparr>L_base_ci := [\<lparr>ci_base = 2, ci_func = 1, ci_top = 22, ci_savedpc = 0, ci_nresults = 0, ci_tailcalls = 0\<rparr>],
     L_base := 2\<rparr>"

lemma pcall_catches_errors_witness:
  "\<exists>L'. luaB_pcall (with_libs (\<lambda>_. []) 0 env0) (luaD_call 2 (with_libs (\<lambda>_. []) 0 env0)) in_pcall = (Inr 2, L') \<and>
     frame_values L' = [TBoolean False, TBoolean True]"
proof -
  let ?E = "with_libs (\<lambda>_. []) 0 env0" let ?p = "luaB_pcall ?E (luaD_call 2 ?E) in_pcall"
  let ?c = "luaD_call 2 ?E (L_base in_pcall) LUA_MULTRET (in_pcall\<lparr>L_errfunc := 0\<rparr>)"
  have E: "cfun_ok ?E" by (rule lib_cfun_ok [OF env0_ok])
  have c: "fst ?c = Inl (Throw LUA_ERRRUN)" "error_value LUA_ERRRUN (snd ?c) = TBoolean True"
    "0 < L_top (snd ?c) \<and> L_top (snd ?c) \<le> length (L_stack (snd ?c))"
    unfolding in_pcall_def pcall_state_def state0_def env0_def by code_simp+
  have wf: "wf_ci in_pcall" "has_room 2 in_pcall" "frame_values in_pcall \<noteq> []"
    by (simp_all add: in_pcall_def pcall_state_def state0_def wf_ci_def cur_ci_def has_room_def frame_values_def)
  note pcall_catches_errors [OF E wf run_split [OF c(1)], unfolded sum.case vm_exception.case]
  then show ?thesis using c(2,3) by metis
qed

end
