(* ===== verification/Spec2Isabelle.thy ===== *)
theory Spec2Isabelle
  imports Prelude LuaNumber LObject LOpcodes LTable Chain LTableNodes LTableProps LTableInsert
    LTableResize LTableRehash LTableSearch LTableSpec LZio LMem LString LFunc LDebug
    LuaArith StateRes LCode LCodeProps LStr LLex LLexSafe LLexPrint LParser LDump LDumpProps LSort LPattern LPatternSafe LPatternSpec LStrLib LStrLibProps
    LState LTm LVmOps LDo LVM LVmFrame LVmProps
    LDbg LApi LAux LLoad LBase LTabLib LApiFrame LApiProps
begin

text \<open>
  A model of the Lua 5.1.4 interpreter that this repository builds from
  \<open>src/sources/lua\<close>, for the configuration of \<open>luaconf.h.in\<close> on an LP64 little-endian
  platform: \<open>int\<close> has 32 bits, \<open>size_t\<close> and pointers 64, a \<open>lua_Number\<close> is an IEEE double. The
  rest of the repository is CMake modules and Lua scripts around that interpreter.

  The parts and how they interact. Source text or a precompiled chunk arrives through a buffered
  stream (\<open>lzio.c\<close>). The lexer (\<open>llex.c\<close>) turns text into tokens, the parser (\<open>lparser.c\<close>) drives
  the code generator (\<open>lcode.c\<close>), which emits instructions in the format of \<open>lopcodes.h\<close> into
  function prototypes; \<open>ldump.c\<close> and \<open>lundump.c\<close> write and read prototypes, and the checker of
  \<open>ldebug.c\<close> vets what was read. At run time values (\<open>lobject.c\<close>) live in tables (\<open>ltable.c\<close>),
  interned strings (\<open>lstring.c\<close>), closures and upvalues (\<open>lfunc.c\<close>), all allocated by \<open>lmem.c\<close>. The
  libraries \<open>ltablib.c\<close> and \<open>lstrlib.c\<close> work on tables and strings.

  Conventions. \<open>Prelude\<close> holds C's types and the result type \<open>'a res\<close>: \<open>Inl\<close> of an error of \<open>lua_error\<close>
  (a Lua run, syntax or memory error, an access C leaves undefined, or exhausted fuel), or \<open>Inr\<close> of
  a value. \<open>StateRes\<close> threads a state through such computations. Unsigned C integers are words; a
  C \<open>int\<close> is an \<open>int\<close>, with its range stated where it can be left. Strings are lists of bytes
  (\<open>LStr\<close>), so that interning is the subject of \<open>LString\<close> only. Allocation is taken to succeed outside
  \<open>LMem\<close>. C functions that call each other in a cycle take the later one as a parameter
  (names ending in \<open>_by\<close>, or a parameter of the helper).

  Theories and the files they model.

  \<^item> \<open>LuaNumber\<close>, \<open>LuaArith\<close>: \<open>luaconf.h.in\<close>, \<open>llimits.h\<close>: a double as its bit pattern, comparison,
    conversion to and from \<open>int\<close>; the operators, rounded to nearest, exact on
    integers.
  \<^item> \<open>LObject\<close>: \<open>lobject.c\<close>: the tagged values, raw equality, \<open>luaO_int2fb\<close>, \<open>luaO_log2\<close>; string to
    number conversion and \<open>luaO_chunkid\<close> are in \<open>LStr\<close>.
  \<^item> \<open>LOpcodes\<close>: \<open>lopcodes.h\<close>, \<open>lopcodes.c\<close>: fields of an instruction and the table of modes.
  \<^item> \<open>LTable\<close>: \<open>ltable.c\<close>, both parts of a table, every operation. \<open>Chain\<close> and \<open>LTableNodes\<close> hold the
    collision lists and the node vector (with the locales \<open>key_hashing\<close> and \<open>node_vector\<close>),
    \<open>LTableProps\<close> the invariant and the lookup, \<open>LTableInsert\<close> the insertion of a key, \<open>LTableResize\<close>
    and \<open>LTableRehash\<close> the reorganisation, \<open>LTableSearch\<close> the border search and the traversal.
    \<open>LTableSpec\<close> states a table as a finite map and proves the refinement.
  \<^item> \<open>LZio\<close>: \<open>lzio.c\<close>: a stream over a reader; \<open>holds R z bs\<close> says that \<open>bs\<close> is still to come.
  \<^item> \<open>LMem\<close>: \<open>lmem.c\<close> with \<open>l_alloc\<close> of \<open>lauxlib.c\<close>: the count of allocated bytes against a locale of
    allocators, and the growth of vectors.
  \<^item> \<open>LString\<close>: \<open>lstring.c\<close>: the table of strings as a map from contents to addresses.
  \<^item> \<open>LFunc\<close>: \<open>lfunc.c\<close>: prototypes, open and closed upvalues.
  \<^item> \<open>LDebug\<close>: \<open>symbexec\<close> and \<open>luaG_checkcode\<close> of \<open>ldebug.c\<close>, and what they promise: \<open>vm_succs\<close> gives
    the successors of an instruction in the interpreter, \<open>vm_reach\<close> the positions it reaches.
  \<^item> \<open>LLex\<close>: \<open>llex.c\<close>. \<open>LLexSafe\<close> proves that it always ends inside its input (\<open>runs\<close>, \<open>eats\<close>: rules for the
    input still to be read), \<open>LLexPrint\<close> that it reads printed tokens back (\<open>lexes\<close>: exact rules).
  \<^item> \<open>LCode\<close>: \<open>lcode.c\<close>. \<open>LCodeProps\<close>: lists of jumps as lists of positions, the table of constants, in
    which the lexer also keeps its strings alive (\<open>luaX_anchor\<close>).
  \<^item> \<open>LParser\<close>: \<open>lparser.c\<close> up to \<open>luaY_parser\<close>; \<open>next_token\<close> is \<open>luaX_next\<close> with that entry.
  \<^item> \<open>LDump\<close>: \<open>ldump.c\<close>, \<open>lundump.c\<close>. \<open>LDumpProps\<close>: loading undoes dumping (\<open>emits\<close>: the bytes of a dumping
    step, \<open>reads\<close>: a loading step takes exactly those bytes).
  \<^item> \<open>LSort\<close>: the sort of \<open>ltablib.c\<close>, with a locale of orders.
  \<^item> \<open>LPattern\<close>, \<open>LStrLib\<close>: \<open>lstrlib.c\<close>: the pattern matcher, then the functions on checked arguments.
    \<open>LPatternSafe\<close> and \<open>LStrLibProps\<close>: no access outside the strings, the first occurrence;
    \<open>LPatternSpec\<close>: the backtracking decides the regular language of a pattern without captures.

  Fuel and bounds. The loops of the tables, streams, matcher and dump end by their own measures.
  The lexer has the fuel \<open>ls_fuel\<close>, at least the length of the input plus two: every round of its
  loops reads a byte, which is what \<open>lexer_total\<close> proves. The parser has the nesting limit
  \<open>LUAI_MAXCCALLS\<close> of the code and the length of the input. The loader's recursion is limited to
  \<open>LUAI_MAXCCALLS\<close> levels by the code. \<open>auxsort\<close> can run for ever with an inconsistent comparison; with
  an order, fuel above the number of elements is enough. \<open>gsub\<close> has one round per byte and one more.

  The run-time state. \<open>LState\<close> has the record \<open>lua_State\<close>, the state of a thread with the heap it
  reaches, and computations on it: a value, a thrown status, \<open>Crash\<close> where C is undefined, or
  \<open>NoFuel\<close>. Positions on the stack are indices, so that \<open>correctstack\<close> has nothing to do.
  \<open>LTm\<close> has metamethods (\<open>ltm.c\<close>) and the functions of \<open>ldebug.c\<close> that raise errors, \<open>LVmOps\<close> the
  operations of \<open>lvm.c\<close> below the loop, \<open>LDo\<close> calls, returns and protected calls (\<open>ldo.c\<close>), \<open>LVM\<close> one
  definition per instruction, \<open>vm_step\<close>, the loop \<open>luaV_execute\<close> and \<open>luaD_call\<close>. All of them take
  \<open>luaD_call\<close> as an argument until \<open>LVM\<close> closes the circle; fuel bounds the instructions and the
  depth of calls, and every theorem about a call speaks of any fuel. What the C library computes and
  the C functions of a program are in the record \<open>lua_env\<close>. \<open>LVmFrame\<close> proves of every operation
  that it keeps the call records, and \<open>LVmProps\<close> draws the properties from that.

  The interface to C. \<open>LDbg\<close> has the debug interface of \<open>ldebug.c\<close>, \<open>LApi\<close> the operations of
  \<open>lapi.c\<close>, with an index translated into a place, \<open>LAux\<close> \<open>lauxlib.c\<close>, \<open>LLoad\<close> the protected parser,
  which joins the front end to the run-time state: a chunk is read, lexed, parsed or undumped, and
  the prototype becomes a closure. \<open>LBase\<close> and \<open>LTabLib\<close> are the basic and the table library; \<open>with_libs\<close>
  is an environment whose C functions are these, so that the model runs Lua programs from their
  text. \<open>LApiFrame\<close> proves of every operation that it keeps the call records, which discharges for
  the libraries the assumption \<open>cfun_ok\<close> that the theorems of \<open>LVmProps\<close> make about C functions;
  \<open>LApiProps\<close> has the stack of the API as a list and what \<open>pcall\<close> returns.

  Not modelled, and why. Coroutines and hooks (\<open>ldo.c\<close>, \<open>ldebug.c\<close>): there is one thread, and
  hooks are off. The collector (\<open>lgc.c\<close>) is not there; memory is never exhausted in the run-time
  model. \<open>print\<close>, the loading of files and the functions on the collector and on coroutines belong
  to the environment. \<open>liolib.c\<close>, \<open>loslib.c\<close>,
  \<open>loadlib.c\<close>, \<open>ldblib.c\<close>, \<open>lmathlib.c\<close>, \<open>linit.c\<close>, \<open>lua.c\<close> and \<open>print.c\<close> are wrappers around the C library, the
  operating system and the API, or print listings. Formatting of numbers and \<open>sprintf\<close> belong to the
  C library. The CMake modules are not C.
\<close>

end
